(* ===== verification/Prelude.thy ===== *)
theory Prelude
  imports Main "HOL-Library.Word" "HOL-Library.AList"
begin

text \<open>
  Shared vocabulary of the development: the machine integers of the Rust sources, the error
  values that stand for \<open>anyhow\<close> errors and panics, the two small monads every handler is written
  in (the \<open>?\<close> operator on results, and results over a mutable state), and the generic lemmas on
  them.

  \<^item> Integers keep their width: \<open>u64\<close> is \<open>64 word\<close>, \<open>U256\<close> is \<open>256 word\<close>. The checked, saturating and
    wrapping operations of Rust are separate constants below.
  \<^item> A fallible call returns \<open>err + 'a\<close>; \<open>Inl (Err m)\<close> is an error value with message \<open>m\<close>,
    \<open>Inl (Panic m)\<close> a panic. A panic unwinds like an error: it propagates through \<^emph>\<open>try\<close> as well.
  \<^item> A handler over a state \<open>'s\<close> is a function \<open>'s \<Rightarrow> (err + 'a) \<times> 's\<close>: as in Rust, what was written
    before an early return stays written.
\<close>

section \<open>Collections of rules\<close>

named_theorems result_simps \<open>rewriting with results and the handler monad\<close>
named_theorems keeps_intros \<open>a handler keeps a predicate of its state\<close>
named_theorems wf_intros \<open>well-formedness of maps and states\<close>

section \<open>Machine integers\<close>

type_synonym u8 = "8 word"
type_synonym u32 = "32 word"
type_synonym u64 = "64 word"
type_synonym u256 = "256 word"
type_synonym b256 = "256 word"
type_synonym address = "160 word"

definition u32_MAX :: u32 where
  "u32_MAX = 4294967295"

definition saturating_sub :: "'a::len word \<Rightarrow> 'a word \<Rightarrow> 'a word" where
  "saturating_sub a b = (if b \<le> a then a - b else 0)"

definition saturating_add :: "'a::len word \<Rightarrow> 'a word \<Rightarrow> 'a word" where
  "saturating_add a b = (if unat a + unat b < 2 ^ LENGTH('a) then a + b else - 1)"

definition checked_add :: "'a::len word \<Rightarrow> 'a word \<Rightarrow> 'a word option" where
  "checked_add a b = (if unat a + unat b < 2 ^ LENGTH('a) then Some (a + b) else None)"

definition checked_sub :: "'a::len word \<Rightarrow> 'a word \<Rightarrow> 'a word option" where
  "checked_sub a b = (if b \<le> a then Some (a - b) else None)"

definition abs_diff :: "'a::len word \<Rightarrow> 'a word \<Rightarrow> 'a word" where
  "abs_diff a b = (if a \<le> b then b - a else a - b)"

lemma unat_saturating_sub: "unat (saturating_sub a b) = unat a - unat b"
  by (auto simp: saturating_sub_def unat_sub word_le_nat_alt)

lemma saturating_sub_le: "saturating_sub a b \<le> a"
  by (simp add: word_le_nat_alt unat_saturating_sub)

lemma checked_sub_eq_Some [result_simps]: "checked_sub a b = Some c \<longleftrightarrow> b \<le> a \<and> c = a - b"
  by (auto simp: checked_sub_def)

lemma checked_add_Some_unat: "checked_add a b = Some c \<Longrightarrow> unat c = unat a + unat b"
  by (auto simp: checked_add_def unat_word_ariths split: if_splits)

lemma unat_saturating_add:
  "unat (saturating_add a b) = min (unat a + unat b) (2 ^ LENGTH('a) - 1)" for a b :: "'a::len word"
  by (auto simp: saturating_add_def unat_word_ariths unsigned_minus_1_eq_mask mask_eq_exp_minus_1)

lemma no_overflow_iff: "unat a + unat b < 2 ^ LENGTH('a) \<longleftrightarrow> a \<le> a + b" for a b :: "'a::len word"
proof (cases "unat a + unat b < 2 ^ LENGTH('a)")
  case True
  then show ?thesis by (simp add: word_le_nat_alt unat_plus_if')
next
  case False
  moreover have "unat b < 2 ^ LENGTH('a)" "unat a < 2 ^ LENGTH('a)" by (rule unsigned_less)+
  moreover have "unat (a + b) = unat a + unat b - 2 ^ LENGTH('a)"
    using False by (simp add: unat_plus_if')
  ultimately have "unat (a + b) < unat a" by linarith
  with False show ?thesis by (simp add: word_le_nat_alt)
qed

lemma unat_add_one:
  fixes a :: "'a::len word"
  assumes "a \<noteq> - 1"
  shows "unat (a + 1) = Suc (unat a)"
proof -
  have "unat a \<noteq> 2 ^ LENGTH('a) - 1"
    using assms by (simp add: word_unat_eq_iff unsigned_minus_1_eq_mask mask_eq_exp_minus_1)
  moreover have "unat a < 2 ^ LENGTH('a)" by (rule unsigned_less)
  ultimately have "unat a + 1 < 2 ^ LENGTH('a)" by linarith
  then show ?thesis by (simp add: unat_plus_if')
qed

lemma checked_add_code [code]: "checked_add a b = (let c = a + b in if a \<le> c then Some c else None)"
  by (simp add: checked_add_def no_overflow_iff Let_def)

lemma saturating_add_code [code]: "saturating_add a b = (let c = a + b in if a \<le> c then c else - 1)"
  by (simp add: saturating_add_def no_overflow_iff Let_def)

lemma checked_add_one_iff:
  "checked_add n 1 = Some m \<longleftrightarrow> unat m = Suc (unat n)" for n m :: u64
proof
  assume "checked_add n 1 = Some m"
  then show "unat m = Suc (unat n)" using checked_add_Some_unat by fastforce
next
  assume m: "unat m = Suc (unat n)"
  have "unat m < 2 ^ LENGTH(64)" by (rule unsigned_less)
  with m have lt: "unat n + unat (1::u64) < 2 ^ LENGTH(64)" by simp
  moreover have "m = n + 1"
    by (rule word_unat_eq_iff [THEN iffD2]) (use m lt in \<open>simp add: unat_word_ariths\<close>)
  ultimately show "checked_add n 1 = Some m" by (simp add: checked_add_def)
qed

text \<open>A \<open>Duration\<close> and a point in time are nanoseconds; \<open>Duration::from_secs\<close> and \<open>Duration::as_secs\<close>.\<close>

type_synonym duration = nat
type_synonym time = nat

definition secs :: "u64 \<Rightarrow> duration" where
  "secs s = unat s * 1000000000"

definition as_secs :: "duration \<Rightarrow> nat" where
  "as_secs d = d div 1000000000"

lemma seconds_code [code]:
  "secs s = (if s = 0 then 0 else nat (uint s * 1000000000))" "as_secs d = nat (int d div 1000000000)"
  by (simp_all add: secs_def as_secs_def nat_mult_distrib nat_div_distrib)

text \<open>\<open>U256::to::<u64>()\<close> and \<open>U256::to::<u32>()\<close> panic when the value does not fit.\<close>

definition fits_u64 :: "u256 \<Rightarrow> bool" where
  "fits_u64 x \<longleftrightarrow> unat x < 2 ^ 64"

definition fits_u32 :: "u256 \<Rightarrow> bool" where
  "fits_u32 x \<longleftrightarrow> unat x < 2 ^ 32"

lemma fits_u64_code [code]: "fits_u64 x \<longleftrightarrow> x < 0x10000000000000000"
  by (simp add: fits_u64_def word_less_nat_alt)

lemma fits_u32_code [code]: "fits_u32 x \<longleftrightarrow> x < 0x100000000"
  by (simp add: fits_u32_def word_less_nat_alt)

abbreviation u256_of_u64 :: "u64 \<Rightarrow> u256" where
  "u256_of_u64 x \<equiv> ucast x"

abbreviation u256_of_u32 :: "u32 \<Rightarrow> u256" where
  "u256_of_u32 x \<equiv> ucast x"

lemma unat_u64_bound: "unat (x :: u64) < 2 ^ 64"
  using unsigned_less [where 'a = nat, of x] by simp

lemma unat_u32_bound: "unat (x :: u32) < 2 ^ 32"
  using unsigned_less [where 'a = nat, of x] by simp

lemma unat_u256_of_u64 [simp]: "unat (u256_of_u64 x) = unat x"
  using unat_u64_bound [of x] by (simp add: unsigned_ucast_eq take_bit_nat_eq_self_iff)

lemma unat_u256_of_u32 [simp]: "unat (u256_of_u32 x) = unat x"
  using unat_u32_bound [of x] by (simp add: unsigned_ucast_eq take_bit_nat_eq_self_iff)

lemma unat_ucast_u64: "fits_u64 x \<Longrightarrow> unat (ucast x :: u64) = unat x"
  by (simp add: fits_u64_def unsigned_ucast_eq take_bit_nat_eq_self_iff)

lemma unat_ucast_u32: "fits_u32 x \<Longrightarrow> unat (ucast x :: u32) = unat x"
  by (simp add: fits_u32_def unsigned_ucast_eq take_bit_nat_eq_self_iff)

lemma ucast_u64_u256 [simp]: "(ucast (u256_of_u64 x) :: u64) = x"
  by (rule ucast_up_ucast_id) (simp add: is_up)

lemma u256_of_u32_eq_iff [simp]: "u256_of_u32 x = u256_of_u32 y \<longleftrightarrow> x = y"
  by (metis unat_u256_of_u32 word_unat_eq_iff)

section \<open>Errors and the question-mark operator\<close>

datatype err = Err string | Panic string

primrec to_string :: "err \<Rightarrow> string" where
  "to_string (Err m) = m"
| "to_string (Panic m) = m"

type_synonym 'a result = "err + 'a"

definition try_bind :: "'e + 'a \<Rightarrow> ('a \<Rightarrow> 'e + 'b) \<Rightarrow> 'e + 'b" where
  "try_bind r f = (case r of Inl e \<Rightarrow> Inl e | Inr x \<Rightarrow> f x)"

definition ok_or :: "string \<Rightarrow> 'a option \<Rightarrow> 'a result" where
  "ok_or m x = (case x of None \<Rightarrow> Inl (Err m) | Some v \<Rightarrow> Inr v)"

definition ok_or_err :: "'e \<Rightarrow> 'a option \<Rightarrow> 'e + 'a" where
  "ok_or_err e x = (case x of None \<Rightarrow> Inl e | Some v \<Rightarrow> Inr v)"

definition map_err :: "('e \<Rightarrow> 'f) \<Rightarrow> 'e + 'a \<Rightarrow> 'f + 'a" where
  "map_err f r = (case r of Inl e \<Rightarrow> Inl (f e) | Inr x \<Rightarrow> Inr x)"

definition ensure :: "bool \<Rightarrow> string \<Rightarrow> unit result" where
  "ensure b m = (if b then Inr () else Inl (Err m))"

definition to_u64 :: "u256 \<Rightarrow> u64 result" where
  "to_u64 x = (if fits_u64 x then Inr (ucast x) else Inl (Panic ''Uint conversion error''))"

definition to_u32 :: "u256 \<Rightarrow> u32 result" where
  "to_u32 x = (if fits_u32 x then Inr (ucast x) else Inl (Panic ''Uint conversion error''))"

lemma try_bind_Inl [simp, result_simps]: "try_bind (Inl e) f = Inl e"
  and try_bind_Inr [simp, result_simps]: "try_bind (Inr x) f = f x"
  by (simp_all add: try_bind_def)

lemma try_bind_cong [fundef_cong]:
  "r = r' \<Longrightarrow> (\<And>x. r' = Inr x \<Longrightarrow> f x = g x) \<Longrightarrow> try_bind r f = try_bind r' g"
  by (cases r') simp_all

lemma try_bind_eq_Inr [result_simps]: "try_bind r f = Inr y \<longleftrightarrow> (\<exists>x. r = Inr x \<and> f x = Inr y)"
  by (cases r) auto

lemma try_bind_eq_Inl: "try_bind r f = Inl e \<longleftrightarrow> r = Inl e \<or> (\<exists>x. r = Inr x \<and> f x = Inl e)"
  by (cases r) auto

lemma try_bind_assoc: "try_bind (try_bind r f) g = try_bind r (\<lambda>x. try_bind (f x) g)"
  by (cases r) auto

lemma try_bind_split:
  "P (try_bind r f) \<longleftrightarrow> (\<forall>e. r = Inl e \<longrightarrow> P (Inl e)) \<and> (\<forall>x. r = Inr x \<longrightarrow> P (f x))"
  by (cases r) auto

lemma ok_or_simps [simp, result_simps]: "ok_or m None = Inl (Err m)" "ok_or m (Some v) = Inr v"
  by (simp_all add: ok_or_def)

lemma ok_or_eq_Inr [result_simps]: "ok_or m x = Inr v \<longleftrightarrow> x = Some v"
  by (cases x) auto

lemma ok_or_err_eq_Inr [result_simps]: "ok_or_err e x = Inr v \<longleftrightarrow> x = Some v"
  by (cases x) (auto simp: ok_or_err_def)

lemma map_err_eq_Inr [result_simps]: "map_err f r = Inr v \<longleftrightarrow> r = Inr v"
  by (cases r) (auto simp: map_err_def)

lemma ensure_eq_Inr [result_simps]: "ensure b m = Inr u \<longleftrightarrow> b"
  by (simp add: ensure_def)

lemma ensure_simps [simp]: "ensure True m = Inr ()" "ensure False m = Inl (Err m)"
  by (simp_all add: ensure_def)

lemma to_u64_eq_Inr [result_simps]: "to_u64 x = Inr y \<longleftrightarrow> fits_u64 x \<and> y = ucast x"
  by (auto simp: to_u64_def)

lemma to_u64_of_u64 [simp]: "to_u64 (u256_of_u64 x) = Inr x"
  using unat_u64_bound [of x] by (simp add: to_u64_def fits_u64_def)

text \<open>\<open>for x in xs { f(x)?; }\<close> and \<open>xs.map(f).collect::<Result<Vec<_>>>()\<close>.\<close>

fun try_map :: "('a \<Rightarrow> 'b result) \<Rightarrow> 'a list \<Rightarrow> 'b list result" where
  "try_map f [] = Inr []"
| "try_map f (x # xs) = try_bind (f x) (\<lambda>y. try_bind (try_map f xs) (\<lambda>ys. Inr (y # ys)))"

lemma try_map_eq_Inr: "try_map f xs = Inr ys \<longleftrightarrow> list_all2 (\<lambda>x y. f x = Inr y) xs ys"
  by (induction xs arbitrary: ys) (auto simp: result_simps list_all2_Cons1)

lemma try_map_length: "try_map f xs = Inr ys \<Longrightarrow> length ys = length xs"
  by (auto simp: try_map_eq_Inr dest: list_all2_lengthD)

lemma list_all2_member1: "list_all2 P xs ys \<Longrightarrow> x \<in> set xs \<Longrightarrow> \<exists>y \<in> set ys. P x y"
  and list_all2_member2: "list_all2 P xs ys \<Longrightarrow> y \<in> set ys \<Longrightarrow> \<exists>x \<in> set xs. P x y"
  by (induction xs ys rule: list_all2_induct) auto

section \<open>Handlers over a mutable state\<close>

type_synonym ('s, 'a) handler = "'s \<Rightarrow> 'a result \<times> 's"

definition ret :: "'a \<Rightarrow> ('s, 'a) handler" where
  "ret x s = (Inr x, s)"

definition fail :: "err \<Rightarrow> ('s, 'a) handler" where
  "fail e s = (Inl e, s)"

definition lift :: "'a result \<Rightarrow> ('s, 'a) handler" where
  "lift r s = (r, s)"

definition read_st :: "('s \<Rightarrow> 'a) \<Rightarrow> ('s, 'a) handler" where
  "read_st f s = (Inr (f s), s)"

definition write_st :: "('s \<Rightarrow> 's) \<Rightarrow> ('s, unit) handler" where
  "write_st f s = (Inr (), f s)"

definition seq :: "('s, 'a) handler \<Rightarrow> ('a \<Rightarrow> ('s, 'b) handler) \<Rightarrow> ('s, 'b) handler" where
  "seq m f s = (case m s of (Inl e, s') \<Rightarrow> (Inl e, s') | (Inr x, s') \<Rightarrow> f x s')"

text \<open>A call whose error is logged and swallowed (\<open>if let Err(e) = ... { warn!(..) }\<close>). A panic is not an
  error value: it goes on unwinding.\<close>

definition attempt :: "('s, 'a) handler \<Rightarrow> ('s, 'a result) handler" where
  "attempt m s = (case m s of (Inl (Panic e), s') \<Rightarrow> (Inl (Panic e), s') | (r, s') \<Rightarrow> (Inr r, s'))"

text \<open>A handler that never panics.\<close>

definition calm :: "('s, 'a) handler \<Rightarrow> bool" where
  "calm m \<longleftrightarrow> (\<forall>s e. fst (m s) \<noteq> Inl (Panic e))"

text \<open>The failure of a call outside the program is always an error value.\<close>

definition external :: "'a result \<Rightarrow> 'a result" where
  "external r = (case r of Inl e \<Rightarrow> Inl (Err (to_string e)) | Inr x \<Rightarrow> Inr x)"

fun for_each :: "('a \<Rightarrow> ('s, unit) handler) \<Rightarrow> 'a list \<Rightarrow> ('s, unit) handler" where
  "for_each f [] = ret ()"
| "for_each f (x # xs) = seq (f x) (\<lambda>_. for_each f xs)"

lemma handler_simps [simp, result_simps]:
  "ret x s = (Inr x, s)" "fail e s = (Inl e, s)" "lift r s = (r, s)"
  "read_st g s = (Inr (g s), s)" "write_st h s = (Inr (), h s)"
  by (simp_all add: ret_def fail_def lift_def read_st_def write_st_def)

lemma seq_eq_Inr: "seq m f s = (Inr y, s') \<longleftrightarrow> (\<exists>x t. m s = (Inr x, t) \<and> f x t = (Inr y, s'))"
  by (auto simp: seq_def split: prod.splits sum.splits)

lemma snd_seq_ret: "snd (seq m (\<lambda>x. ret (f x)) s) = snd (m s)"
  by (auto simp: seq_def split: prod.splits sum.splits)

lemma seq_simps [simp]:
  "seq (ret x) f = f x" "seq (fail e) f = fail e" "seq (read_st g) f s = f (g s) s"
  "seq (write_st h) k s = k () (h s)" "seq (lift r) f s = (case r of Inl e \<Rightarrow> (Inl e, s) | Inr x \<Rightarrow> f x s)"
  by (auto simp: seq_def fun_eq_iff split: sum.splits)

lemma attempt_calm: "calm m \<Longrightarrow> attempt m s = (Inr (fst (m s)), snd (m s))"
  by (auto simp: attempt_def calm_def split: prod.splits sum.splits err.splits) (metis fst_conv)+

lemma snd_attempt_seq_ret: "snd (seq (attempt m) (\<lambda>_. ret ()) s) = snd (m s)"
  by (auto simp: seq_def attempt_def split: prod.splits sum.splits err.splits)

lemma attempt_seq_ret: "calm m \<Longrightarrow> seq (attempt m) (\<lambda>_. ret ()) s = (Inr (), snd (m s))"
  by (simp add: seq_def attempt_calm)

lemma calm_seq: "calm m \<Longrightarrow> (\<And>x. calm (f x)) \<Longrightarrow> calm (seq m f)"
  unfolding calm_def seq_def by (auto split: prod.split sum.split) (metis fst_conv)

lemma calm_ret: "calm (ret x)"
  by (simp add: calm_def)

lemma external_simps [simp]: "external (Inr x) = Inr x" "external r \<noteq> Inl (Panic e)"
  by (auto simp: external_def split: sum.splits)

lemma external_eq_Inr [result_simps]: "external r = Inr x \<longleftrightarrow> r = Inr x"
  by (cases r) (auto simp: external_def)

text \<open>
  \<open>keeps I m\<close>: the handler \<open>m\<close> leaves the state in \<open>I\<close> whether it succeeds or fails. The rules
  below follow the structure of a handler, so that an invariant of a long handler is proved by
  \<open>(intro keeps_intros)\<close> from the lemmas on its parts.
\<close>

definition keeps :: "('s \<Rightarrow> bool) \<Rightarrow> ('s, 'a) handler \<Rightarrow> bool" where
  "keeps I m \<longleftrightarrow> (\<forall>s. I s \<longrightarrow> I (snd (m s)))"

lemma keepsD: "keeps I m \<Longrightarrow> I s \<Longrightarrow> m s = (r, s') \<Longrightarrow> I s'"
  by (metis keeps_def snd_conv)

lemma keeps_ret [keeps_intros]: "keeps I (ret x)"
  and keeps_fail [keeps_intros]: "keeps I (fail e)"
  and keeps_lift [keeps_intros]: "keeps I (lift r)"
  and keeps_read [keeps_intros]: "keeps I (read_st g)"
  by (simp_all add: keeps_def)

lemma keeps_write: "(\<And>s. I s \<Longrightarrow> I (h s)) \<Longrightarrow> keeps I (write_st h)"
  by (simp add: keeps_def)

lemma keeps_seq [keeps_intros]: "keeps I m \<Longrightarrow> (\<And>x. keeps I (f x)) \<Longrightarrow> keeps I (seq m f)"
  by (fastforce simp: keeps_def seq_def split: prod.splits sum.splits)

lemma keeps_attempt [keeps_intros]: "keeps I m \<Longrightarrow> keeps I (attempt m)"
  by (fastforce simp: keeps_def attempt_def split: prod.splits sum.splits err.splits)

lemma keeps_if [keeps_intros]:
  "(b \<Longrightarrow> keeps I m) \<Longrightarrow> (\<not> b \<Longrightarrow> keeps I m') \<Longrightarrow> keeps I (if b then m else m')"
  by simp

lemma keeps_option [keeps_intros]:
  "(x = None \<Longrightarrow> keeps I m) \<Longrightarrow> (\<And>v. x = Some v \<Longrightarrow> keeps I (f v)) \<Longrightarrow>
   keeps I (case x of None \<Rightarrow> m | Some v \<Rightarrow> f v)"
  by (cases x) auto

lemma keeps_sum [keeps_intros]:
  "(\<And>e. x = Inl e \<Longrightarrow> keeps I (f e)) \<Longrightarrow> (\<And>v. x = Inr v \<Longrightarrow> keeps I (g v)) \<Longrightarrow>
   keeps I (case x of Inl e \<Rightarrow> f e | Inr v \<Rightarrow> g v)"
  by (cases x) auto

lemma keeps_prod [keeps_intros]: "(\<And>a b. p = (a, b) \<Longrightarrow> keeps I (f a b)) \<Longrightarrow> keeps I (case p of (a, b) \<Rightarrow> f a b)"
  by (cases p) auto

lemma keeps_for_each [keeps_intros]: "(\<And>x. x \<in> set xs \<Longrightarrow> keeps I (f x)) \<Longrightarrow> keeps I (for_each f xs)"
  by (induction xs) (auto intro: keeps_intros)

lemma keeps_conj: "keeps I m \<Longrightarrow> keeps J m \<Longrightarrow> keeps (\<lambda>s. I s \<and> J s) m"
  by (auto simp: keeps_def)

section \<open>Systems of steps\<close>

text \<open>
  A component whose operations interleave is a step relation on its state. An invariant is proved once
  per operation; the locale lifts it to every reachable state.
\<close>

locale step_system =
  fixes init :: "'s \<Rightarrow> bool"
    and step :: "'s \<Rightarrow> 's \<Rightarrow> bool"
    and inv :: "'s \<Rightarrow> bool"
  assumes init_inv: "init s \<Longrightarrow> inv s"
    and step_inv: "inv s \<Longrightarrow> step s t \<Longrightarrow> inv t"
begin

lemma steps_inv: "step\<^sup>*\<^sup>* s t \<Longrightarrow> inv s \<Longrightarrow> inv t"
  by (induction rule: rtranclp_induct) (auto intro: step_inv)

lemma reachable_inv: "init s \<Longrightarrow> step\<^sup>*\<^sup>* s t \<Longrightarrow> inv t"
  using init_inv steps_inv by blast

end

end
