(* ===== verification/HashMaps.thy ===== *)
theory HashMaps
  imports Prelude
begin

text \<open>
  \<open>HashMap\<close>, \<open>HashSet\<close> and the iterator adaptors of the Rust standard library that the sources use.
  The locale \<open>hash_map\<close> states what a client may rely on (lookup after insert and remove, keys and
  values, the invariant), proves the bulk operations once, and is interpreted on association lists
  with distinct keys. The order of the list stands for the unspecified iteration order of the hash
  table, and the theorems of the components hold for every list, that is for every order.
\<close>

section \<open>The interface\<close>

locale hash_map =
  fixes get :: "'m \<Rightarrow> 'k \<Rightarrow> 'v option"
    and insert :: "'k \<Rightarrow> 'v \<Rightarrow> 'm \<Rightarrow> 'm"
    and remove :: "'k \<Rightarrow> 'm \<Rightarrow> 'm"
    and keys :: "'m \<Rightarrow> 'k list"
    and vals :: "'m \<Rightarrow> 'v list"
    and invar :: "'m \<Rightarrow> bool"
  assumes get_insert: "invar m \<Longrightarrow> get (insert k v m) = (get m)(k \<mapsto> v)"
    and get_remove: "invar m \<Longrightarrow> get (remove k m) = (get m)(k := None)"
    and keys_get: "invar m \<Longrightarrow> set (keys m) = dom (get m)"
    and vals_get: "invar m \<Longrightarrow> set (vals m) = ran (get m)"
    and invar_insert: "invar m \<Longrightarrow> invar (insert k v m)"
    and invar_remove: "invar m \<Longrightarrow> invar (remove k m)"
begin

lemma invar_remove_all: "invar m \<Longrightarrow> invar (fold remove ks m)"
  by (induction ks arbitrary: m) (simp_all add: invar_remove)

lemma get_remove_all: "invar m \<Longrightarrow> get (fold remove ks m) k = (if k \<in> set ks then None else get m k)"
  by (induction ks arbitrary: m) (simp_all add: invar_remove get_remove)

lemma invar_insert_all: "invar m \<Longrightarrow> invar (fold (\<lambda>x. insert (f x) (g x)) xs m)"
  by (induction xs arbitrary: m) (simp_all add: invar_insert)

lemma get_insert_all_notin:
  "invar m \<Longrightarrow> k \<notin> f ` set xs \<Longrightarrow> get (fold (\<lambda>x. insert (f x) (g x)) xs m) k = get m k"
  by (induction xs arbitrary: m) (simp_all add: invar_insert get_insert)

lemma get_insert_all_in:
  "invar m \<Longrightarrow> get (fold (\<lambda>x. insert (f x) (g x)) xs m) k = Some v \<Longrightarrow>
   get m k = Some v \<or> (\<exists>x \<in> set xs. f x = k \<and> g x = v)"
proof (induction xs arbitrary: m)
  case Nil
  then show ?case by simp
next
  case (Cons x xs)
  from Cons.prems have "get (insert (f x) (g x) m) k = Some v \<or> (\<exists>y \<in> set xs. f y = k \<and> g y = v)"
    by (intro Cons.IH) (simp_all add: invar_insert)
  with Cons.prems(1) show ?case by (auto simp: get_insert split: if_splits)
qed

lemma dom_insert_all: "invar m \<Longrightarrow> dom (get (fold (\<lambda>x. insert (f x) (g x)) xs m)) = dom (get m) \<union> f ` set xs"
  by (induction xs arbitrary: m) (auto simp: invar_insert get_insert)

end

section \<open>Association lists implement it\<close>

type_synonym ('k, 'v) hashmap = "('k \<times> 'v) list"

abbreviation hm_get :: "('k, 'v) hashmap \<Rightarrow> 'k \<Rightarrow> 'v option" where
  "hm_get \<equiv> map_of"

abbreviation hm_insert :: "'k \<Rightarrow> 'v \<Rightarrow> ('k, 'v) hashmap \<Rightarrow> ('k, 'v) hashmap" where
  "hm_insert \<equiv> AList.update"

abbreviation hm_remove :: "'k \<Rightarrow> ('k, 'v) hashmap \<Rightarrow> ('k, 'v) hashmap" where
  "hm_remove \<equiv> AList.delete"

abbreviation hm_keys :: "('k, 'v) hashmap \<Rightarrow> 'k list" where
  "hm_keys \<equiv> map fst"

abbreviation hm_values :: "('k, 'v) hashmap \<Rightarrow> 'v list" where
  "hm_values \<equiv> map snd"

definition hm_wf :: "('k, 'v) hashmap \<Rightarrow> bool" where
  "hm_wf m \<longleftrightarrow> distinct (map fst m)"

lemma hm_wf_Nil [simp, wf_intros]: "hm_wf []"
  by (simp add: hm_wf_def)

interpretation hm: hash_map hm_get hm_insert hm_remove hm_keys hm_values hm_wf
proof unfold_locales
  fix m :: "('k, 'v) hashmap" and k :: 'k and v :: 'v
  show "map_of (AList.update k v m) = (map_of m)(k \<mapsto> v)" by (rule update_conv')
  show "map_of (AList.delete k m) = (map_of m)(k := None)" by (rule delete_conv')
  assume wf: "hm_wf m"
  show "set (map fst m) = dom (map_of m)" by (simp add: dom_map_of_conv_image_fst)
  show "set (map snd m) = ran (map_of m)" using wf by (simp add: hm_wf_def ran_distinct)
  show "hm_wf (AList.update k v m)" using wf by (simp add: hm_wf_def distinct_update)
  show "hm_wf (AList.delete k m)" using wf by (simp add: hm_wf_def distinct_delete)
qed

lemmas hm_wf_intros [wf_intros] = hm.invar_insert hm.invar_remove hm.invar_remove_all hm.invar_insert_all

lemma hm_get_insert [simp]: "hm_get (hm_insert k v m) k' = (if k' = k then Some v else hm_get m k')"
  by (simp add: update_conv')

lemma hm_get_remove [simp]: "hm_get (hm_remove k m) k' = (if k' = k then None else hm_get m k')"
  by (simp add: delete_conv')

lemma hm_get_imp_value: "hm_get m k = Some v \<Longrightarrow> v \<in> set (hm_values m)"
  by (force dest: map_of_SomeD)

lemma hm_value_imp_get: "hm_wf m \<Longrightarrow> (k, v) \<in> set m \<Longrightarrow> hm_get m k = Some v"
  by (simp add: hm_wf_def)

lemma set_hm_remove_subset: "set (hm_remove k m) \<subseteq> set m"
  by (auto simp: AList.delete_eq)

lemma set_hm_insert_subset: "set (hm_insert k v m) \<subseteq> Set.insert (k, v) (set m)"
  by (induction m) auto

lemma hm_insert_fresh: "k \<notin> set (hm_keys m) \<Longrightarrow> hm_insert k v m = m @ [(k, v)]"
  by (induction m) auto

lemma hm_insert_count:
  "length (filter P (hm_values (hm_insert k v m))) \<le> length (filter P (hm_values m)) + (if P v then 1 else 0)"
  by (induction m) auto

lemma hm_remove_count: "length (filter P (hm_values (hm_remove k m))) \<le> length (filter P (hm_values m))"
  by (induction m) (auto simp: AList.delete_eq)

lemma hm_remove_all_count: "length (filter P (hm_values (fold hm_remove ks m))) \<le> length (filter P (hm_values m))"
proof (induction ks arbitrary: m)
  case (Cons k ks)
  show ?case using Cons.IH [of "hm_remove k m"] hm_remove_count [of P k m] by simp
qed simp

section \<open>Iterator adaptors\<close>

text \<open>
  \<open>Iterator::max_by_key\<close> returns the last of several maximal elements, \<open>min_by_key\<close> the first of
  several minimal ones.
\<close>

fun max_by_key :: "('a \<Rightarrow> 'b::linorder) \<Rightarrow> 'a list \<Rightarrow> 'a option" where
  "max_by_key f [] = None"
| "max_by_key f (x # xs) = Some (foldl (\<lambda>m y. if f m \<le> f y then y else m) x xs)"

fun min_by_key :: "('a \<Rightarrow> 'b::linorder) \<Rightarrow> 'a list \<Rightarrow> 'a option" where
  "min_by_key f [] = None"
| "min_by_key f (x # xs) = Some (foldl (\<lambda>m y. if f y < f m then y else m) x xs)"

lemma foldl_max_key:
  fixes f :: "'a \<Rightarrow> 'b::linorder"
  defines "g \<equiv> foldl (\<lambda>m y. if f m \<le> f y then y else m)"
  shows "g x xs \<in> Set.insert x (set xs) \<and> f x \<le> f (g x xs) \<and> (\<forall>y \<in> set xs. f y \<le> f (g x xs))"
  unfolding g_def
proof (induction xs arbitrary: x)
  case Nil
  then show ?case by simp
next
  case (Cons a xs)
  show ?case
    using Cons.IH [of "if f x \<le> f a then a else x"] by (auto split: if_splits)
qed

lemma foldl_min_key:
  fixes f :: "'a \<Rightarrow> 'b::linorder"
  defines "g \<equiv> foldl (\<lambda>m y. if f y < f m then y else m)"
  shows "g x xs \<in> Set.insert x (set xs) \<and> f (g x xs) \<le> f x \<and> (\<forall>y \<in> set xs. f (g x xs) \<le> f y)"
  unfolding g_def
proof (induction xs arbitrary: x)
  case Nil
  then show ?case by simp
next
  case (Cons a xs)
  show ?case
    using Cons.IH [of "if f a < f x then a else x"] by (auto split: if_splits)
qed

lemma max_by_key_SomeD:
  "max_by_key f xs = Some m \<Longrightarrow> m \<in> set xs \<and> (\<forall>x \<in> set xs. f x \<le> f m)"
  by (cases xs) (use foldl_max_key [where f = f] in auto)

lemma max_by_key_eq_None [simp]: "max_by_key f xs = None \<longleftrightarrow> xs = []"
  by (cases xs) auto

lemma min_by_key_SomeD:
  "min_by_key f xs = Some m \<Longrightarrow> m \<in> set xs \<and> (\<forall>x \<in> set xs. f m \<le> f x)"
  by (cases xs) (use foldl_min_key [where f = f] in auto)

lemma min_by_key_eq_None [simp]: "min_by_key f xs = None \<longleftrightarrow> xs = []"
  by (cases xs) auto

lemma set_map_filter_option: "set (List.map_filter f xs) = {y. \<exists>x \<in> set xs. f x = Some y}"
  by (induction xs) (auto simp: List.map_filter_simps split: option.splits)

lemma find_SomeD: "List.find P xs = Some x \<Longrightarrow> x \<in> set xs \<and> P x"
  by (auto simp: find_Some_iff)

end
