(* ===== verification/Contract.thy ===== *)
theory Contract
  imports HashMaps
begin

text \<open>
  The dispute-game contracts as the Rust code sees them (\<open>fault-proof/src/contract.rs\<close>) and the
  helpers of \<open>fault-proof/src/lib.rs\<close> built on them.

  The contracts, the RPC providers and the signer are not part of the repository's Rust code. They
  enter the model as parameters:
  \<^item> \<open>l1_view\<close> is the answer of the L1 node to the read-only calls at one block: one function per
    contract call, each of which may fail. A handler that reads at several moments takes several
    views.
  \<^item> \<open>l2_view\<close> is the answer of the L2 execution node, and the two hash functions.
  \<^item> \<open>sender\<close> is the signer together with the L1 mempool. It sees all transactions sent before, so
    that repeated submissions of the same transaction may have different outcomes.
\<close>

section \<open>Data of the contracts\<close>

definition BOND_DISTRIBUTION_MODE_UNDECIDED :: u8 where
  "BOND_DISTRIBUTION_MODE_UNDECIDED = 0"

definition MAX_CLOSE_GAME_FAILURES :: u8 where
  "MAX_CLOSE_GAME_FAILURES = 5"

text \<open>The decoder of a Solidity enum has one more variant, for values out of range.\<close>

datatype game_status = IN_PROGRESS | CHALLENGER_WINS | DEFENDER_WINS | GameStatus_Invalid

datatype proposal_status =
    Unchallenged
  | Challenged
  | UnchallengedAndValidProofProvided
  | ChallengedAndValidProofProvided
  | Resolved
  | ProposalStatus_Invalid

record claim_data =
  cd_parentIndex :: u32
  cd_counteredBy :: address
  cd_prover :: address
  cd_claim :: b256
  cd_status :: proposal_status
  cd_deadline :: u64

record factory_game =
  fg_gameType :: u32
  fg_timestamp :: u64
  fg_proxy :: address

record l1_view =
  gameImpls :: "u32 \<Rightarrow> address result"
  initBonds :: "u32 \<Rightarrow> u256 result"
  gameCount :: "u256 result"
  gameAtIndex :: "u256 \<Rightarrow> factory_game result"
  factory_games :: "u32 \<Rightarrow> b256 \<Rightarrow> u8 list \<Rightarrow> address result"
  getAnchorRoot :: "(b256 \<times> u256) result"
  isGameFinalized :: "address \<Rightarrow> bool result"
  anchorGame :: "address result"
  respectedGameType :: "u32 result"
  status_of :: "address \<Rightarrow> game_status result"
  claimData :: "address \<Rightarrow> claim_data result"
  gameType_of :: "address \<Rightarrow> u32 result"
  gameCreator :: "address \<Rightarrow> address result"
  l2BlockNumber :: "address \<Rightarrow> u256 result"
  startingBlockNumber :: "address \<Rightarrow> u256 result"
  rootClaim :: "address \<Rightarrow> b256 result"
  l1Head :: "address \<Rightarrow> b256 result"
  wasRespectedGameTypeWhenCreated :: "address \<Rightarrow> bool result"
  maxChallengeDuration :: "address \<Rightarrow> u64 result"
  maxProveDuration :: "address \<Rightarrow> u64 result"
  anchorStateRegistry :: "address \<Rightarrow> address result"
  challengerBond :: "address \<Rightarrow> u256 result"
  aggregationVkey :: "address \<Rightarrow> b256 result"
  rangeVkeyCommitment :: "address \<Rightarrow> b256 result"
  rollupConfigHash :: "address \<Rightarrow> b256 result"
  bondDistributionMode :: "address \<Rightarrow> u8 result"
  credit :: "address \<Rightarrow> address \<Rightarrow> u256 result"
  estimateClaimCredit :: "address \<Rightarrow> address \<Rightarrow> u64 result"
  estimateCloseGame :: "address \<Rightarrow> address \<Rightarrow> u64 result"

section \<open>Block numbers and output roots\<close>

definition checked_l2_block_number :: "u256 \<Rightarrow> u64 result" where
  "checked_l2_block_number n =
     (if fits_u64 n then Inr (ucast n) else Inl (Err ''L2 block number exceeds u64::MAX''))"

record l2_header =
  h_state_root :: b256
  h_hash :: b256
  h_withdrawals_root :: "b256 option"

record l2_view =
  get_header_by_number :: "u64 \<Rightarrow> l2_header option result"
  get_proof_storage_hash :: "address \<Rightarrow> u64 \<Rightarrow> b256 result"
  EMPTY_ROOT_HASH :: b256
  keccak_L2Output :: "u64 \<Rightarrow> b256 \<Rightarrow> b256 \<Rightarrow> b256 \<Rightarrow> b256"

definition L2_TO_L1_MESSAGE_PASSER :: address where
  "L2_TO_L1_MESSAGE_PASSER = 0x4200000000000000000000000000000000000016"

definition get_l2_header_by_number :: "l2_view \<Rightarrow> u64 \<Rightarrow> l2_header result" where
  "get_l2_header_by_number l2 n =
     try_bind (get_header_by_number l2 n) (ok_or ''Failed to get L2 block header by number'')"

definition get_l2_storage_root :: "l2_view \<Rightarrow> address \<Rightarrow> u64 \<Rightarrow> b256 result" where
  "get_l2_storage_root l2 a n = get_proof_storage_hash l2 a n"

definition compute_output_root_at_block :: "l2_view \<Rightarrow> u256 \<Rightarrow> b256 result" where
  "compute_output_root_at_block l2 n256 =
     try_bind (checked_l2_block_number n256) (\<lambda>n.
     try_bind (get_l2_header_by_number l2 n) (\<lambda>h.
     try_bind (case h_withdrawals_root h of
                 Some root \<Rightarrow> if root \<noteq> EMPTY_ROOT_HASH l2 then Inr root
                              else get_l2_storage_root l2 L2_TO_L1_MESSAGE_PASSER n
               | None \<Rightarrow> get_l2_storage_root l2 L2_TO_L1_MESSAGE_PASSER n) (\<lambda>storage_root.
     Inr (keccak_L2Output l2 0 (h_state_root h) storage_root (h_hash h)))))"

section \<open>Factory helpers\<close>

definition game_impl :: "l1_view \<Rightarrow> u32 \<Rightarrow> address result" where
  "game_impl v game_type =
     try_bind (gameImpls v game_type) (\<lambda>a.
       if a = 0 then Inl (Err ''Game type is not registered in the factory'') else Inr a)"

definition fetch_init_bond :: "l1_view \<Rightarrow> u32 \<Rightarrow> u256 result" where
  "fetch_init_bond v game_type = initBonds v game_type"

definition fetch_latest_game_index :: "l1_view \<Rightarrow> u256 option result" where
  "fetch_latest_game_index v =
     try_bind (gameCount v) (\<lambda>n. Inr (if n = 0 then None else Some (n - 1)))"

definition is_parent_resolved :: "u32 \<Rightarrow> l1_view \<Rightarrow> bool result" where
  "is_parent_resolved parent_index v =
     (if parent_index = u32_MAX then Inr True
      else try_bind (gameAtIndex v (u256_of_u32 parent_index)) (\<lambda>g.
           try_bind (status_of v (fg_proxy g)) (\<lambda>s. Inr (s \<noteq> IN_PROGRESS))))"

definition is_parent_challenger_wins :: "u32 \<Rightarrow> l1_view \<Rightarrow> bool result" where
  "is_parent_challenger_wins parent_index v =
     (if parent_index = u32_MAX then Inr False
      else try_bind (gameAtIndex v (u256_of_u32 parent_index)) (\<lambda>g.
           try_bind (status_of v (fg_proxy g)) (\<lambda>s. Inr (s = CHALLENGER_WINS))))"

section \<open>Transactions\<close>

datatype l1_tx =
    Tx_create (tx_game_type: u32) (tx_root: b256) (tx_extra: "u8 list") (tx_value: u256)
  | Tx_prove (tx_game: address) (tx_proof: "u8 list")
  | Tx_challenge (tx_game: address) (tx_bond: u256)
  | Tx_resolve (tx_game: address)
  | Tx_closeGame (tx_game: address) (tx_from: address) (tx_gas: u64)
  | Tx_claimCredit (tx_game: address) (tx_from: address) (tx_gas: u64)

record receipt =
  rc_status :: bool
  rc_transaction_hash :: b256
  rc_block_number :: "u64 option"
  rc_created :: "address option"

type_synonym sender = "l1_tx list \<Rightarrow> l1_tx \<Rightarrow> receipt result"

definition TX_REVERTED_PREFIX :: string where
  "TX_REVERTED_PREFIX = ''transaction reverted:''"

definition is_revert :: "err \<Rightarrow> bool" where
  "is_revert e \<longleftrightarrow> take (length TX_REVERTED_PREFIX) (to_string e) = TX_REVERTED_PREFIX"

definition with_context :: "string \<Rightarrow> 'a result \<Rightarrow> 'a result" where
  "with_context m r = (case r of Inl _ \<Rightarrow> Inl (Err m) | Inr x \<Rightarrow> Inr x)"

definition claim_credit_transaction :: "l1_view \<Rightarrow> address \<Rightarrow> address \<Rightarrow> l1_tx result" where
  "claim_credit_transaction v game claimant =
     try_bind (with_context ''Failed to estimate claimCredit gas'' (estimateClaimCredit v game claimant))
       (\<lambda>gas. Inr (Tx_claimCredit game claimant gas))"

definition close_game_transaction :: "l1_view \<Rightarrow> address \<Rightarrow> address \<Rightarrow> l1_tx result" where
  "close_game_transaction v game sndr =
     try_bind (with_context ''Failed to estimate closeGame gas'' (estimateCloseGame v game sndr))
       (\<lambda>gas. Inr (Tx_closeGame game sndr gas))"

text \<open>
  The tail shared by all submissions: send, then turn a receipt with failed status into the revert
  error. The transaction is recorded as sent whatever the outcome.
\<close>

definition revert_error :: "'a result" where
  "revert_error = Inl (Err (TX_REVERTED_PREFIX @ '' receipt''))"

definition send_checked :: "sender \<Rightarrow> l1_tx list \<Rightarrow> l1_tx \<Rightarrow> receipt result \<times> l1_tx list" where
  "send_checked snd_tx sent tx =
     (try_bind (external (snd_tx sent tx)) (\<lambda>r. if rc_status r then Inr r else revert_error), sent @ [tx])"

section \<open>Facts used by the components\<close>

lemma checked_l2_block_number_Inr [result_simps]:
  "checked_l2_block_number n = Inr m \<longleftrightarrow> unat n = unat m"
proof
  show "checked_l2_block_number n = Inr m \<Longrightarrow> unat n = unat m"
    by (auto simp: checked_l2_block_number_def unat_ucast_u64 split: if_splits)
  assume "unat n = unat m"
  then have "n = u256_of_u64 m" by (metis unat_u256_of_u64 word_unat_eq_iff)
  then show "checked_l2_block_number n = Inr m"
    using unat_u64_bound [of m] by (simp add: checked_l2_block_number_def fits_u64_def)
qed

lemma checked_l2_block_number_Inl: "(\<exists>e. checked_l2_block_number n = Inl e) \<longleftrightarrow> \<not> fits_u64 n"
  by (simp add: checked_l2_block_number_def)

lemma is_revert_revert_error: "revert_error = (Inl e :: 'a result) \<Longrightarrow> is_revert e"
  by (auto simp: revert_error_def is_revert_def TX_REVERTED_PREFIX_def)

lemma fetch_latest_game_index_Some [result_simps]:
  "fetch_latest_game_index v = Inr (Some i) \<longleftrightarrow> (\<exists>n. gameCount v = Inr n \<and> n \<noteq> 0 \<and> i = n - 1)"
  by (auto simp: fetch_latest_game_index_def result_simps)

lemma fetch_latest_game_index_None [result_simps]:
  "fetch_latest_game_index v = Inr None \<longleftrightarrow> gameCount v = Inr 0"
  by (auto simp: fetch_latest_game_index_def result_simps split: if_splits)

lemma send_checked_calm: "fst (send_checked f sent tx) \<noteq> Inl (Panic e)"
  by (auto simp: send_checked_def try_bind_eq_Inl revert_error_def)

lemma close_game_transaction_calm: "close_game_transaction v g s \<noteq> Inl (Panic e)"
  and claim_credit_transaction_calm: "claim_credit_transaction v g s \<noteq> Inl (Panic e)"
  by (auto simp: close_game_transaction_def claim_credit_transaction_def try_bind_eq_Inl with_context_def split: sum.splits)

lemma send_checked_sent [simp]: "snd (send_checked f sent tx) = sent @ [tx]"
  by (simp add: send_checked_def)

end
