(* ===== verification/Games.thy ===== *)
theory Games
  imports Contract "HOL-Library.Option_ord"
begin

text \<open>
  The proposer's cache of dispute games (\<open>fault-proof/src/proposer.rs\<close>): \<open>Game\<close>, \<open>Cursor\<close>,
  \<open>ProposerState\<close> with its pure methods \<open>descendants_of\<close>, \<open>remove_subtree\<close>, \<open>remove_game\<close> and
  \<open>select_canonical_head\<close>, and \<open>check_deadline_status\<close>. The lemmas relate the work-list search of
  \<open>descendants_of\<close> to reachability in the parent relation, say exactly which games a removal
  takes out of the cache, and characterise the canonical head.
\<close>

section \<open>Games, cursor and state\<close>

record proposer_identity =
  id_aggregation_vkey :: b256
  id_range_vkey_commitment :: b256
  id_rollup_config_hash :: b256

record game =
  g_index :: u256
  g_address :: address
  g_parent_index :: u32
  g_l2_block :: u256
  g_status :: game_status
  g_proposal_status :: proposal_status
  g_deadline :: u64
  g_should_attempt_to_resolve :: bool
  g_should_attempt_to_close_game :: bool
  g_should_attempt_to_claim_bond :: bool
  g_aggregation_vkey :: b256
  g_range_vkey_commitment :: b256
  g_rollup_config_hash :: b256

definition is_owned :: "game \<Rightarrow> proposer_identity \<Rightarrow> bool" where
  "is_owned g ident \<longleftrightarrow>
     g_aggregation_vkey g = id_aggregation_vkey ident \<and>
     g_range_vkey_commitment g = id_range_vkey_commitment ident \<and>
     g_rollup_config_hash g = id_rollup_config_hash ident"

text \<open>The derived order of \<open>Cursor\<close> is that of \<open>Option<U256>\<close>: \<open>None\<close> is below every index.\<close>

datatype cursor = Cursor (cursor_index: "u256 option")

instantiation cursor :: linorder
begin

definition less_eq_cursor :: "cursor \<Rightarrow> cursor \<Rightarrow> bool" where
  "less_eq_cursor a b \<longleftrightarrow> cursor_index a \<le> cursor_index b"

definition less_cursor :: "cursor \<Rightarrow> cursor \<Rightarrow> bool" where
  "less_cursor a b \<longleftrightarrow> cursor_index a < cursor_index b"

instance
  by standard (auto simp: less_eq_cursor_def less_cursor_def cursor.expand)

end

definition cursor_none :: cursor where
  "cursor_none = Cursor None"

definition cursor_from :: "u256 \<Rightarrow> cursor" where
  "cursor_from i = Cursor (Some i)"

definition step_back :: "cursor \<Rightarrow> cursor" where
  "step_back c = (case cursor_index c of
       None \<Rightarrow> c
     | Some idx \<Rightarrow> if 0 < idx then Cursor (Some (saturating_sub idx 1)) else Cursor None)"

record block_num_hash =
  bn_number :: u64
  bn_hash :: b256

type_synonym game_map = "(u256, game) hashmap"

record proposer_state =
  ps_anchor_game :: "game option"
  ps_canonical_head_index :: "u256 option"
  ps_canonical_head_l2_block :: "u256 option"
  ps_cursor :: cursor
  ps_games :: game_map
  ps_removed_games :: "(u256, block_num_hash) hashmap"

definition proposer_state_default :: proposer_state where
  "proposer_state_default = \<lparr> ps_anchor_game = None, ps_canonical_head_index = None,
     ps_canonical_head_l2_block = None, ps_cursor = cursor_none, ps_games = [], ps_removed_games = [] \<rparr>"

section \<open>Searching and removing subtrees\<close>

definition children_of :: "game_map \<Rightarrow> u256 \<Rightarrow> u256 list" where
  "children_of gs idx = map g_index (filter (\<lambda>g. u256_of_u32 (g_parent_index g) = idx) (hm_values gs))"

text \<open>
  The loop of \<open>descendants_of\<close>: the list \<open>stack\<close> has the top of the vector first, so that
  \<open>stack.extend\<close> puts the last child on top. It ends because an index is expanded at most once.
\<close>

function descend :: "game_map \<Rightarrow> u256 list \<Rightarrow> u256 list \<Rightarrow> u256 list" where
  "descend gs reachable [] = reachable"
| "descend gs reachable (index # stack) =
     (if index \<in> set reachable then descend gs reachable stack
      else descend gs (index # reachable) (rev (children_of gs index) @ stack))"
  by pat_completeness auto
termination
proof (relation "measures [\<lambda>(gs, r, st). card ((set st \<union> g_index ` set (hm_values gs)) - set r),
                           \<lambda>(gs, r, st). length st]", goal_cases)
  case 1
  then show ?case by simp
next
  case (2 gs r i st)
  then have "set (i # st) \<union> g_index ` set (hm_values gs) - set r
      = set st \<union> g_index ` set (hm_values gs) - set r" by auto
  then show ?case by simp
next
  case (3 gs r i st)
  let ?V = "g_index ` set (hm_values gs)"
  have "set (children_of gs i) \<subseteq> ?V" by (auto simp: children_of_def)
  then have "set (rev (children_of gs i) @ st) \<union> ?V - set (i # r)
      = (set (i # st) \<union> ?V - set r) - {i}" by (auto simp del: set_map)
  then have "card (set (rev (children_of gs i) @ st) \<union> ?V - set (i # r))
      < card (set (i # st) \<union> ?V - set r)"
    using 3 card_Diff1_less [of "set (i # st) \<union> ?V - set r" i] by (simp only:) simp
  then show ?case by simp
qed

definition descendants_of :: "game_map \<Rightarrow> u256 \<Rightarrow> u256 list" where
  "descendants_of gs root_index = descend gs [] [root_index]"

definition remove_game :: "u256 \<Rightarrow> block_num_hash \<Rightarrow> proposer_state \<Rightarrow> proposer_state" where
  "remove_game idx block st =
     (if hm_get (ps_games st) idx \<noteq> None
      then st\<lparr> ps_games := hm_remove idx (ps_games st),
               ps_removed_games := hm_insert idx block (ps_removed_games st) \<rparr>
      else st)"

definition remove_games :: "u256 list \<Rightarrow> block_num_hash \<Rightarrow> proposer_state \<Rightarrow> proposer_state" where
  "remove_games idxs block st = fold (\<lambda>i. remove_game i block) idxs st"

definition remove_subtree :: "u256 \<Rightarrow> block_num_hash \<Rightarrow> proposer_state \<Rightarrow> proposer_state" where
  "remove_subtree root_index block st =
     remove_games (descendants_of (ps_games st) root_index) block st"

section \<open>The canonical head\<close>

definition anchor_head :: "proposer_state \<Rightarrow> game \<Rightarrow> game option" where
  "anchor_head st anchor =
     (let reachable = descendants_of (ps_games st) (g_index anchor)
      in max_by_key g_l2_block (filter (\<lambda>g. g_index g \<in> set reachable) (hm_values (ps_games st))))"

definition override_roots :: "proposer_state \<Rightarrow> game \<Rightarrow> game \<Rightarrow> u256 list" where
  "override_roots st anchor head =
     (let reachable = descendants_of (ps_games st) (g_index anchor)
      in map g_index (filter (\<lambda>g. g_index g \<notin> set reachable \<and> g_l2_block g > g_l2_block head \<and>
           (g_parent_index g = u32_MAX \<or> g_parent_index g < g_parent_index head)) (hm_values (ps_games st))))"

definition override_head :: "proposer_state \<Rightarrow> game \<Rightarrow> game \<Rightarrow> game option" where
  "override_head st anchor head =
     max_by_key g_l2_block
       (List.map_filter (\<lambda>idx. hm_get (ps_games st) idx)
          (concat (map (descendants_of (ps_games st)) (override_roots st anchor head))))"

definition select_canonical_head :: "proposer_state \<Rightarrow> game option" where
  "select_canonical_head st = (case ps_anchor_game st of
       None \<Rightarrow> max_by_key g_l2_block (hm_values (ps_games st))
     | Some anchor \<Rightarrow> (case anchor_head st anchor of
           None \<Rightarrow> None
         | Some head \<Rightarrow> (case override_head st anchor head of
               None \<Rightarrow> Some head
             | Some h \<Rightarrow> Some h)))"

section \<open>Deadlines\<close>

definition MAX_GAME_DEADLINE_LAG :: u64 where
  "MAX_GAME_DEADLINE_LAG = 60 * 60 * 24 * 14"

definition DEADLINE_WARNING_DIVISOR :: u64 where
  "DEADLINE_WARNING_DIVISOR = 2"

text \<open>The hours of an approaching deadline, a float in the code, are kept as the seconds they come from.\<close>

datatype deadline_status = Passed | Approaching u64 | Deadline_Ok

definition check_deadline_status :: "u64 \<Rightarrow> u64 \<Rightarrow> u64 \<Rightarrow> deadline_status" where
  "check_deadline_status now deadline max_duration =
     (if now \<ge> deadline then Passed
      else if saturating_sub deadline now < max_duration div DEADLINE_WARNING_DIVISOR
      then Approaching (saturating_sub deadline now)
      else Deadline_Ok)"

section \<open>Well-formed states\<close>

definition games_keyed :: "game_map \<Rightarrow> bool" where
  "games_keyed gs \<longleftrightarrow> hm_wf gs \<and> (\<forall>(k, g) \<in> set gs. g_index g = k)"

definition state_wf :: "proposer_state \<Rightarrow> bool" where
  "state_wf st \<longleftrightarrow> games_keyed (ps_games st) \<and> hm_wf (ps_removed_games st) \<and>
     set (hm_keys (ps_games st)) \<inter> set (hm_keys (ps_removed_games st)) = {}"

text \<open>The parent relation, and what \<open>descendants_of\<close> is meant to return.\<close>

definition child_rel :: "game_map \<Rightarrow> (u256 \<times> u256) set" where
  "child_rel gs = {(u256_of_u32 (g_parent_index g), g_index g) | g. g \<in> set (hm_values gs)}"

lemma children_of_child_rel: "set (children_of gs i) = child_rel gs `` {i}"
  by (auto simp: children_of_def child_rel_def)

section \<open>Lemmas on the search\<close>

lemma descend_superset: "set r \<union> set st \<subseteq> set (descend gs r st)"
  by (induction gs r st rule: descend.induct) auto

lemma descend_closed:
  "child_rel gs `` set r \<subseteq> set r \<union> set st \<Longrightarrow>
   child_rel gs `` set (descend gs r st) \<subseteq> set (descend gs r st)"
proof (induction gs r st rule: descend.induct)
  case (1 gs r)
  then show ?case by simp
next
  case (2 gs r i st)
  show ?case
  proof (cases "i \<in> set r")
    case True
    with 2 show ?thesis by auto
  next
    case False
    have "child_rel gs `` set (i # r) \<subseteq> set (i # r) \<union> set (rev (children_of gs i) @ st)"
      using 2(3) by (auto simp: children_of_child_rel)
    with 2(2) [OF False] False show ?thesis by simp
  qed
qed

lemma descend_sound: "set (descend gs r st) \<subseteq> set r \<union> (child_rel gs)\<^sup>* `` set st"
proof (induction gs r st rule: descend.induct)
  case (1 gs r)
  then show ?case by simp
next
  case (2 gs r i st)
  have "(child_rel gs)\<^sup>* `` set (children_of gs i) \<subseteq> (child_rel gs)\<^sup>* `` {i}"
    by (auto simp: children_of_child_rel intro: converse_rtrancl_into_rtrancl)
  with 2 show ?case by (cases "i \<in> set r") auto
qed

lemma descend_distinct: "distinct r \<Longrightarrow> distinct (descend gs r st)"
  by (induction gs r st rule: descend.induct) auto

lemma distinct_descendants_of [simp]: "distinct (descendants_of gs i)"
  by (simp add: descendants_of_def descend_distinct del: descend.simps)

lemma set_descendants_of: "set (descendants_of gs i) = (child_rel gs)\<^sup>* `` {i}"
proof (rule equalityI)
  show "set (descendants_of gs i) \<subseteq> (child_rel gs)\<^sup>* `` {i}"
    using descend_sound [of gs "[]" "[i]"] by (simp add: descendants_of_def del: descend.simps)
  have closed: "child_rel gs `` set (descendants_of gs i) \<subseteq> set (descendants_of gs i)"
    unfolding descendants_of_def by (rule descend_closed) simp
  have "i \<in> set (descendants_of gs i)"
    using descend_superset [of "[]" "[i]" gs] by (simp add: descendants_of_def del: descend.simps)
  with closed show "(child_rel gs)\<^sup>* `` {i} \<subseteq> set (descendants_of gs i)"
    using Image_closed_trancl [OF closed] by blast
qed

section \<open>Lemmas on removal\<close>

lemma remove_game_get [simp]:
  "hm_get (ps_games (remove_game i b st)) k = (if k = i then None else hm_get (ps_games st) k)"
  "hm_get (ps_removed_games (remove_game i b st)) k =
     (if k = i \<and> hm_get (ps_games st) i \<noteq> None then Some b else hm_get (ps_removed_games st) k)"
  by (auto simp: remove_game_def)

lemma remove_game_frame [simp]:
  "ps_anchor_game (remove_game i b st) = ps_anchor_game st"
  "ps_canonical_head_index (remove_game i b st) = ps_canonical_head_index st"
  "ps_canonical_head_l2_block (remove_game i b st) = ps_canonical_head_l2_block st"
  "ps_cursor (remove_game i b st) = ps_cursor st"
  by (simp_all add: remove_game_def)

lemma remove_games_simps [simp]:
  "remove_games [] b st = st"
  "remove_games (i # is) b st = remove_games is b (remove_game i b st)"
  by (simp_all add: remove_games_def)

lemma remove_games_get:
  "hm_get (ps_games (remove_games is b st)) k = (if k \<in> set is then None else hm_get (ps_games st) k)"
  "hm_get (ps_removed_games (remove_games is b st)) k =
     (if k \<in> set is \<and> hm_get (ps_games st) k \<noteq> None then Some b else hm_get (ps_removed_games st) k)"
  by (induction "is" arbitrary: st) auto

lemma remove_games_frame [simp]:
  "ps_anchor_game (remove_games is b st) = ps_anchor_game st"
  "ps_canonical_head_index (remove_games is b st) = ps_canonical_head_index st"
  "ps_canonical_head_l2_block (remove_games is b st) = ps_canonical_head_l2_block st"
  "ps_cursor (remove_games is b st) = ps_cursor st"
  by (induction "is" arbitrary: st) auto

lemma games_keyedI: "hm_wf gs \<Longrightarrow> (\<And>k g. hm_get gs k = Some g \<Longrightarrow> g_index g = k) \<Longrightarrow> games_keyed gs"
  by (auto simp: games_keyed_def dest: hm_value_imp_get)

lemma games_keyedD: "games_keyed gs \<Longrightarrow> hm_get gs k = Some g \<Longrightarrow> g_index g = k"
  by (auto simp: games_keyed_def dest: map_of_SomeD)

lemma games_keyed_wf [simp]: "games_keyed gs \<Longrightarrow> hm_wf gs"
  by (simp add: games_keyed_def)

lemma games_keyed_value: "games_keyed gs \<Longrightarrow> g \<in> set (hm_values gs) \<Longrightarrow> hm_get gs (g_index g) = Some g"
  by (force simp: games_keyed_def intro: hm_value_imp_get)

lemma games_keyed_Nil [simp, wf_intros]: "games_keyed []"
  by (simp add: games_keyed_def)

lemma games_keyed_insert [wf_intros]: "games_keyed gs \<Longrightarrow> g_index g = k \<Longrightarrow> games_keyed (hm_insert k g gs)"
  by (rule games_keyedI) (auto intro: wf_intros dest: games_keyedD split: if_splits)

lemma games_keyed_remove [wf_intros]: "games_keyed gs \<Longrightarrow> games_keyed (hm_remove k gs)"
  by (rule games_keyedI) (auto intro: wf_intros dest: games_keyedD split: if_splits)

lemma dom_hm_get: "dom (hm_get m) = set (hm_keys m)"
  by (simp add: dom_map_of_conv_image_fst)

lemma state_wf_iff:
  "state_wf st \<longleftrightarrow> games_keyed (ps_games st) \<and> hm_wf (ps_removed_games st) \<and>
     (\<forall>k g. hm_get (ps_games st) k = Some g \<longrightarrow> hm_get (ps_removed_games st) k = None)"
  unfolding state_wf_def dom_hm_get [symmetric] disjoint_iff domIff by auto

lemma state_wf_remove_game [wf_intros]: "state_wf st \<Longrightarrow> state_wf (remove_game i b st)"
  by (auto simp: state_wf_iff) (auto simp: remove_game_def intro: wf_intros)

lemma state_wf_remove_games [wf_intros]: "state_wf st \<Longrightarrow> state_wf (remove_games is b st)"
  by (induction "is" arbitrary: st) (auto intro: wf_intros)

lemma state_wf_remove_subtree [wf_intros]: "state_wf st \<Longrightarrow> state_wf (remove_subtree i b st)"
  by (simp add: remove_subtree_def wf_intros)

section \<open>Lemmas on the canonical head\<close>

lemma state_wf_games [simp]: "state_wf st \<Longrightarrow> games_keyed (ps_games st)"
  by (simp add: state_wf_def)

text \<open>What the head promises when an anchor is known, for the two sources it may come from.\<close>

definition cached_below :: "proposer_state \<Rightarrow> u256 \<Rightarrow> game set" where
  "cached_below st i = {g \<in> set (hm_values (ps_games st)). (i, g_index g) \<in> (child_rel (ps_games st))\<^sup>*}"

lemma anchor_head_SomeD:
  "anchor_head st a = Some h \<Longrightarrow>
     h \<in> cached_below st (g_index a) \<and> (\<forall>g \<in> cached_below st (g_index a). g_l2_block g \<le> g_l2_block h)"
  unfolding anchor_head_def Let_def cached_below_def set_descendants_of
  by (drule max_by_key_SomeD) (simp add: Image_singleton)

lemma anchor_head_None: "anchor_head st a = None \<longleftrightarrow> cached_below st (g_index a) = {}"
  by (auto simp: anchor_head_def Let_def cached_below_def set_descendants_of filter_empty_conv)

lemma set_override_roots:
  "set (override_roots st a h) = g_index ` {g \<in> set (hm_values (ps_games st)).
     (g_index a, g_index g) \<notin> (child_rel (ps_games st))\<^sup>* \<and> g_l2_block g > g_l2_block h \<and>
     (g_parent_index g = u32_MAX \<or> g_parent_index g < g_parent_index h)}"
  by (auto simp: override_roots_def Let_def set_descendants_of)

text \<open>The cached games outside the anchor's subtree that may take the head from \<open>h\<close>.\<close>

definition rival_roots :: "proposer_state \<Rightarrow> game \<Rightarrow> game \<Rightarrow> game set" where
  "rival_roots st a h = {g \<in> set (hm_values (ps_games st)).
     g \<notin> cached_below st (g_index a) \<and> g_l2_block h < g_l2_block g \<and>
     (g_parent_index g = u32_MAX \<or> g_parent_index g < g_parent_index h)}"

lemma override_roots_rivals: "set (override_roots st a h) = g_index ` rival_roots st a h"
  by (auto simp: set_override_roots rival_roots_def cached_below_def)

lemma set_override_candidates:
  assumes "state_wf st"
  shows "set (List.map_filter (hm_get (ps_games st)) (concat (map (descendants_of (ps_games st)) rs)))
       = (\<Union>r \<in> set rs. cached_below st r)"
proof -
  have game: "g \<in> set (hm_values (ps_games st)) \<and> g_index g = k \<longleftrightarrow> hm_get (ps_games st) k = Some g" for g k
    using games_keyedD games_keyed_value hm_get_imp_value state_wf_games [OF assms] by metis
  have below: "cached_below st r = {g. \<exists>k \<in> set (descendants_of (ps_games st) r). hm_get (ps_games st) k = Some g}" for r
    unfolding cached_below_def set_descendants_of game [symmetric] by (simp del: set_map)
  show ?thesis unfolding below set_map_filter_option by (rule set_eqI) simp
qed

lemma override_head_SomeD:
  assumes "state_wf st" and "override_head st a h = Some t"
  shows "(\<exists>r \<in> set (override_roots st a h). t \<in> cached_below st r) \<and>
     (\<forall>r \<in> set (override_roots st a h). \<forall>g \<in> cached_below st r. g_l2_block g \<le> g_l2_block t)"
  using max_by_key_SomeD [OF assms(2) [unfolded override_head_def]] set_override_candidates [OF assms(1)]
  by auto

lemma override_root_below:
  "r \<in> set (override_roots st a h) \<Longrightarrow> \<exists>g. g \<in> cached_below st r \<and> g_l2_block h < g_l2_block g"
  by (auto simp: set_override_roots cached_below_def)

lemma override_head_None:
  assumes "state_wf st"
  shows "override_head st a h = None \<longleftrightarrow> override_roots st a h = []"
proof -
  have "override_head st a h = None \<longleftrightarrow> (\<Union>r \<in> set (override_roots st a h). cached_below st r) = {}"
    unfolding set_override_candidates [OF assms, symmetric] by (simp add: override_head_def)
  then show ?thesis using override_root_below [of _ st a h] by (cases "override_roots st a h") auto
qed

lemma override_above_head:
  assumes "state_wf st" and "override_head st a h = Some t"
  shows "g_l2_block h < g_l2_block t"
proof -
  obtain r where "r \<in> set (override_roots st a h)"
    using override_head_SomeD [OF assms] by blast
  then show ?thesis
    using override_root_below override_head_SomeD [OF assms] by (meson less_le_trans)
qed

lemma cached_below_child:
  assumes "h \<in> cached_below st r" and "g \<in> set (hm_values (ps_games st))"
    and "u256_of_u32 (g_parent_index g) = g_index h"
  shows "g \<in> cached_below st r"
proof -
  have "(g_index h, g_index g) \<in> child_rel (ps_games st)"
    using assms(2,3) by (force simp: child_rel_def)
  with assms(1,2) show ?thesis by (auto simp: cached_below_def)
qed

definition blocks_increase :: "game_map \<Rightarrow> bool" where
  "blocks_increase gs \<longleftrightarrow> list_all (\<lambda>g. list_all (\<lambda>p.
     u256_of_u32 (g_parent_index g) = g_index p \<longrightarrow> g_l2_block p < g_l2_block g) (hm_values gs)) (hm_values gs)"

lemma blocks_increaseD:
  "blocks_increase gs \<Longrightarrow> g \<in> set (hm_values gs) \<Longrightarrow> p \<in> set (hm_values gs) \<Longrightarrow>
   u256_of_u32 (g_parent_index g) = g_index p \<Longrightarrow> g_l2_block p < g_l2_block g"
  by (auto simp: blocks_increase_def list_all_iff)

text \<open>The source of the head: all games, the games below the anchor, or the games below the override roots.\<close>

definition head_pool :: "proposer_state \<Rightarrow> game set" where
  "head_pool st = (case ps_anchor_game st of
       None \<Rightarrow> set (hm_values (ps_games st))
     | Some a \<Rightarrow> (case anchor_head st a of
           None \<Rightarrow> {}
         | Some h \<Rightarrow> if override_roots st a h = [] then cached_below st (g_index a)
                     else \<Union>r \<in> set (override_roots st a h). cached_below st r))"

lemma head_pool_cached: "head_pool st \<subseteq> set (hm_values (ps_games st))"
  by (auto simp: head_pool_def cached_below_def split: option.splits)

lemma head_pool_child:
  assumes "h \<in> head_pool st" and "g \<in> set (hm_values (ps_games st))"
    and "u256_of_u32 (g_parent_index g) = g_index h"
  shows "g \<in> head_pool st"
proof -
  have "\<forall>r. h \<in> cached_below st r \<longrightarrow> g \<in> cached_below st r"
    using cached_below_child [OF _ assms(2,3)] by blast
  then have mono: "h \<in> (\<Union>r \<in> R. cached_below st r) \<Longrightarrow> g \<in> (\<Union>r \<in> R. cached_below st r)" for R
    by blast
  show ?thesis
  proof (cases "ps_anchor_game st")
    case None
    with assms(2) show ?thesis by (simp add: head_pool_def)
  next
    case (Some a)
    with assms(1) obtain ah where "anchor_head st a = Some ah"
      by (auto simp: head_pool_def split: option.splits)
    with Some assms(1) mono [of "{g_index a}"] mono [of "set (override_roots st a ah)"]
    show ?thesis by (simp add: head_pool_def split: if_splits)
  qed
qed

lemma select_canonical_head_pool:
  assumes wf: "state_wf st" and sel: "select_canonical_head st = Some h"
  shows "h \<in> head_pool st \<and> (\<forall>g \<in> head_pool st. g_l2_block g \<le> g_l2_block h)"
proof (cases "ps_anchor_game st")
  case None
  with sel show ?thesis by (simp add: select_canonical_head_def head_pool_def max_by_key_SomeD del: set_map)
next
  case (Some a)
  with sel obtain ah where ah: "anchor_head st a = Some ah"
    by (auto simp: select_canonical_head_def split: option.splits)
  show ?thesis
  proof (cases "override_head st a ah")
    case None
    with sel Some ah have "h = ah" by (simp add: select_canonical_head_def)
    with Some ah anchor_head_SomeD [OF ah] None show ?thesis
      by (simp add: head_pool_def override_head_None [OF wf])
  next
    case (Some t)
    with sel \<open>ps_anchor_game st = Some a\<close> ah have "h = t" by (simp add: select_canonical_head_def)
    moreover have "override_roots st a ah \<noteq> []"
      using Some override_head_None [OF wf, of a ah] by simp
    ultimately show ?thesis
      using override_head_SomeD [OF wf Some] \<open>ps_anchor_game st = Some a\<close> ah by (auto simp: head_pool_def)
  qed
qed

section \<open>Properties\<close>

text \<open>\<open>descendants_of\<close> returns exactly the indices reachable from the root in the parent
  relation of the cached games, each once, whatever the shape of the cache (cycles and missing
  parents included); its work-list loop terminates.\<close>

theorem descendants_of_reachable:
  "set (descendants_of gs i) = {j. (i, j) \<in> (child_rel gs)\<^sup>*} \<and> distinct (descendants_of gs i)"
  by (simp add: set_descendants_of Image_singleton)

text \<open>\<open>remove_subtree\<close> takes out of the cache exactly the games reachable from the root, records
  each of them (and nothing else) as removed at the given block, and touches no other field.\<close>

theorem remove_subtree_exact:
  "let st' = remove_subtree root b st; sub = {j. (root, j) \<in> (child_rel (ps_games st))\<^sup>*} in
   (\<forall>k. hm_get (ps_games st') k = (if k \<in> sub then None else hm_get (ps_games st) k)) \<and>
   (\<forall>k. hm_get (ps_removed_games st') k =
      (if k \<in> sub \<and> hm_get (ps_games st) k \<noteq> None then Some b else hm_get (ps_removed_games st) k)) \<and>
   ps_anchor_game st' = ps_anchor_game st \<and> ps_cursor st' = ps_cursor st \<and>
   ps_canonical_head_index st' = ps_canonical_head_index st \<and>
   ps_canonical_head_l2_block st' = ps_canonical_head_l2_block st"
  by (simp add: remove_subtree_def remove_games_get set_descendants_of Image_singleton Let_def)

text \<open>C13: when \<open>select_canonical_head\<close> returns a head, it is a cached game. Without an anchor it is
  as high as every cached game. With one, let \<open>ah\<close> be a highest cached game at or below the
  anchor: if no cached game outside the anchor's subtree is higher than \<open>ah\<close> and rooted at genesis
  or at a lower parent than \<open>ah\<close>, the head is \<open>ah\<close>; otherwise the head lies at or below such a
  rival root, is as high as every cached game below any of them, and is above \<open>ah\<close>.\<close>

theorem select_canonical_head_best:
  assumes "state_wf st" and "select_canonical_head st = Some h"
  shows "hm_get (ps_games st) (g_index h) = Some h \<and>
    (case ps_anchor_game st of
       None \<Rightarrow> (\<forall>g \<in> set (hm_values (ps_games st)). g_l2_block g \<le> g_l2_block h)
     | Some a \<Rightarrow> (\<exists>ah \<in> cached_below st (g_index a).
         (\<forall>g \<in> cached_below st (g_index a). g_l2_block g \<le> g_l2_block ah) \<and>
         (let rivals = \<Union>r \<in> rival_roots st a ah. cached_below st (g_index r)
          in if rival_roots st a ah = {} then h = ah
             else h \<in> rivals \<and> (\<forall>g \<in> rivals. g_l2_block g \<le> g_l2_block h) \<and> g_l2_block ah < g_l2_block h)))"
proof (intro conjI)
  have pool: "h \<in> head_pool st" "\<forall>g \<in> head_pool st. g_l2_block g \<le> g_l2_block h"
    using select_canonical_head_pool [OF assms] by auto
  then show "hm_get (ps_games st) (g_index h) = Some h"
    using head_pool_cached games_keyed_value [OF state_wf_games [OF assms(1)]] by blast
  show "case ps_anchor_game st of
       None \<Rightarrow> (\<forall>g \<in> set (hm_values (ps_games st)). g_l2_block g \<le> g_l2_block h)
     | Some a \<Rightarrow> (\<exists>ah \<in> cached_below st (g_index a).
         (\<forall>g \<in> cached_below st (g_index a). g_l2_block g \<le> g_l2_block ah) \<and>
         (let rivals = \<Union>r \<in> rival_roots st a ah. cached_below st (g_index r)
          in if rival_roots st a ah = {} then h = ah
             else h \<in> rivals \<and> (\<forall>g \<in> rivals. g_l2_block g \<le> g_l2_block h) \<and> g_l2_block ah < g_l2_block h))"
  proof (cases "ps_anchor_game st")
    case None
    with pool(2) show ?thesis by (simp add: head_pool_def)
  next
    case (Some a)
    with pool(1) obtain ah where ah: "anchor_head st a = Some ah"
      by (auto simp: head_pool_def split: option.splits)
    have rivals: "(\<Union>r \<in> rival_roots st a ah. cached_below st (g_index r))
        = (\<Union>r \<in> set (override_roots st a ah). cached_below st r)"
      by (simp add: override_roots_rivals)
    have empty: "rival_roots st a ah = {} \<longleftrightarrow> override_head st a ah = None"
      using override_head_None [OF assms(1), of a ah] override_roots_rivals [of st a ah] by force
    have "if rival_roots st a ah = {} then h = ah
          else h \<in> (\<Union>r \<in> set (override_roots st a ah). cached_below st r) \<and>
            (\<forall>g \<in> \<Union>r \<in> set (override_roots st a ah). cached_below st r. g_l2_block g \<le> g_l2_block h) \<and>
            g_l2_block ah < g_l2_block h"
    proof (cases "override_head st a ah")
      case None
      with Some ah assms(2) empty show ?thesis by (simp add: select_canonical_head_def)
    next
      case (Some t)
      with \<open>ps_anchor_game st = Some a\<close> ah assms(2) have "t = h"
        by (simp add: select_canonical_head_def)
      with Some empty show ?thesis
        using override_head_SomeD [OF assms(1) Some] override_above_head [OF assms(1) Some] by simp
    qed
    then have "let rivals = \<Union>r \<in> rival_roots st a ah. cached_below st (g_index r)
       in if rival_roots st a ah = {} then h = ah
          else h \<in> rivals \<and> (\<forall>g \<in> rivals. g_l2_block g \<le> g_l2_block h) \<and> g_l2_block ah < g_l2_block h"
      unfolding rivals Let_def .
    with Some anchor_head_SomeD [OF ah] show ?thesis
      unfolding Some option.case by (elim conjE) (intro bexI [of _ ah] conjI, assumption+)
  qed
qed

text \<open>where every cached game lies above its cached parent, the canonical head is a tip: no
  cached game has it as its parent. A proposal on the head therefore never forks the cached chain.\<close>

theorem canonical_head_is_tip:
  assumes "state_wf st" and "blocks_increase (ps_games st)" and "select_canonical_head st = Some h"
  shows "\<forall>g \<in> set (hm_values (ps_games st)). u256_of_u32 (g_parent_index g) \<noteq> g_index h"
proof (intro ballI notI)
  fix g assume g: "g \<in> set (hm_values (ps_games st))" "u256_of_u32 (g_parent_index g) = g_index h"
  have pool: "h \<in> head_pool st" "\<forall>g \<in> head_pool st. g_l2_block g \<le> g_l2_block h"
    using select_canonical_head_pool [OF assms(1,3)] by auto
  have "g \<in> head_pool st" by (rule head_pool_child [OF pool(1) g])
  moreover have "g_l2_block h < g_l2_block g"
    using blocks_increaseD [OF assms(2) g(1) _ g(2)] pool(1) head_pool_cached by blast
  ultimately show False using pool(2) by (metis not_less)
qed

text \<open>\<open>select_canonical_head\<close> returns no head exactly when there is nothing to build on: an empty
  cache without an anchor, no cached game at or below the anchor with one.\<close>

theorem select_canonical_head_None:
  "select_canonical_head st = None \<longleftrightarrow>
     (case ps_anchor_game st of None \<Rightarrow> ps_games st = [] | Some a \<Rightarrow> cached_below st (g_index a) = {})"
  by (auto simp: select_canonical_head_def anchor_head_None [symmetric] split: option.splits)

section \<open>Witnesses\<close>

definition sample_game :: "u256 \<Rightarrow> u32 \<Rightarrow> u256 \<Rightarrow> game" where
  "sample_game i p l = \<lparr> g_index = i, g_address = ucast i + 1, g_parent_index = p, g_l2_block = l,
     g_status = IN_PROGRESS, g_proposal_status = Unchallenged, g_deadline = 1000,
     g_should_attempt_to_resolve = False, g_should_attempt_to_close_game = False,
     g_should_attempt_to_claim_bond = False, g_aggregation_vkey = 1, g_range_vkey_commitment = 2,
     g_rollup_config_hash = 3 \<rparr>"

text \<open>An anchor chain 0 - 1 and a higher genesis-rooted chain 2 - 3.\<close>

definition sample_state :: proposer_state where
  "sample_state = proposer_state_default
     \<lparr> ps_anchor_game := Some (sample_game 0 u32_MAX 10),
       ps_games := [(0, sample_game 0 u32_MAX 10), (1, sample_game 1 0 20),
                    (2, sample_game 2 u32_MAX 30), (3, sample_game 3 2 40)] \<rparr>"

lemma sample_state_wf: "state_wf sample_state"
  by code_simp

lemma sample_head: "select_canonical_head sample_state = Some (sample_game 3 2 40)"
  by code_simp

theorem select_canonical_head_best_witness:
  "select_canonical_head sample_state = Some (sample_game 3 2 40) \<and>
   hm_get (ps_games sample_state) (g_index (sample_game 3 2 40)) = Some (sample_game 3 2 40)"
  by (rule conjI [OF sample_head conjunct1 [OF select_canonical_head_best [OF sample_state_wf sample_head]]])

theorem canonical_head_is_tip_witness:
  "u256_of_u32 (g_parent_index (sample_game 1 0 20)) \<noteq> g_index (sample_game 3 2 40)"
proof -
  have "blocks_increase (ps_games sample_state)" by code_simp
  moreover have "sample_game 1 0 20 \<in> set (hm_values (ps_games sample_state))"
    by (simp add: sample_state_def)
  ultimately show ?thesis
    using canonical_head_is_tip [OF sample_state_wf _ sample_head] by blast
qed

end
