(* ===== verification/L1Chain.thy ===== *)
theory L1Chain
  imports Games
begin

text \<open>
  Following the L1 chain (\<open>fault-proof/src/proposer.rs\<close>): \<open>l1_ancestor\<close> walks parent hashes from a
  selected header, and \<open>prune_finalized_removals\<close> forgets a removal record only when the walk shows
  that its block is on the selected chain and finalized. The headers come from the L1 node, which is
  a parameter (\<open>l1_rpc\<close>) whose answers may fail, be absent, or come from another fork.
\<close>

record header =
  hd_number :: u64
  hd_hash :: b256
  hd_parent_hash :: b256
  hd_timestamp :: u64

record l1_rpc =
  get_block_latest :: "header option result"
  get_block_finalized :: "header option result"
  get_block_by_number :: "u64 \<Rightarrow> header option result"
  get_block_by_hash :: "b256 \<Rightarrow> header option result"

section \<open>The operations\<close>

text \<open>The \<open>while\<close> loop of \<open>l1_ancestor\<close>. The check on the parent's number makes it terminate.\<close>

function l1_ancestor_loop :: "l1_rpc \<Rightarrow> header \<Rightarrow> u64 \<Rightarrow> header result" where
  "l1_ancestor_loop rpc h n =
     (if hd_number h > n then
        try_bind (get_block_by_hash rpc (hd_parent_hash h)) (\<lambda>block.
        try_bind (ok_or ''L1 ancestor is unavailable; retrying sync'' block) (\<lambda>parent.
        if hd_hash parent = hd_parent_hash h \<and> checked_add (hd_number parent) 1 = Some (hd_number h)
        then l1_ancestor_loop rpc parent n
        else Inl (Err ''L1 ancestor does not match the selected block's parent'')))
      else Inr h)"
  by pat_completeness auto
termination
  by (relation "measure (\<lambda>(rpc, h, n). unat (hd_number h))") (auto simp: checked_add_one_iff)

declare l1_ancestor_loop.simps [simp del]

definition l1_ancestor :: "l1_rpc \<Rightarrow> header \<Rightarrow> u64 \<Rightarrow> header result" where
  "l1_ancestor rpc h n =
     try_bind (ensure (n \<le> hd_number h) ''Requested L1 ancestor is above the selected block'') (\<lambda>_.
     l1_ancestor_loop rpc h n)"

text \<open>The walk over the candidates, newest first: one pass over the parents for all of them.\<close>

fun prune_walk :: "l1_rpc \<Rightarrow> header \<Rightarrow> (u256 \<times> block_num_hash) list \<Rightarrow> u256 list result" where
  "prune_walk rpc ancestor [] = Inr []"
| "prune_walk rpc ancestor ((idx, block) # cands) =
     try_bind (l1_ancestor rpc ancestor (bn_number block)) (\<lambda>anc.
     try_bind (prune_walk rpc anc cands) (\<lambda>finalized_indices.
     Inr (if hd_hash anc = bn_hash block then idx # finalized_indices else finalized_indices)))"

definition common_ancestor :: "l1_rpc \<Rightarrow> header \<Rightarrow> header \<Rightarrow> header result" where
  "common_ancestor rpc selected finalized =
     (if hd_number finalized \<le> hd_number selected
      then try_bind (l1_ancestor rpc selected (hd_number finalized)) (\<lambda>anc.
           try_bind (ensure (hd_hash anc = hd_hash finalized) ''Finalized L1 block is on another fork'') (\<lambda>_. Inr anc))
      else try_bind (l1_ancestor rpc finalized (hd_number selected)) (\<lambda>anc.
           try_bind (ensure (hd_hash anc = hd_hash selected) ''Selected L1 block is on another fork'') (\<lambda>_. Inr anc)))"

text \<open>The indices to release; \<open>sort_unstable_by_key(Reverse(number))\<close> is a descending sort.\<close>

definition finalized_removals :: "l1_rpc \<Rightarrow> header \<Rightarrow> (u256, block_num_hash) hashmap \<Rightarrow> u256 list result" where
  "finalized_removals rpc selected removals =
     (if removals = [] then Inr []
      else try_bind (get_block_finalized rpc) (\<lambda>fin.
           try_bind (ok_or ''Finalized L1 block is unavailable; retrying sync'' fin) (\<lambda>finalized.
           let limit = min (hd_number selected) (hd_number finalized);
               candidates = filter (\<lambda>(_, block). bn_number block \<le> limit) removals
           in if candidates = [] then Inr []
              else try_bind (common_ancestor rpc selected finalized) (\<lambda>ancestor.
                   prune_walk rpc ancestor (rev (sort_key (\<lambda>(_, block). bn_number block) candidates))))))"

definition prune_finalized_removals :: "l1_rpc \<Rightarrow> header \<Rightarrow> (proposer_state, unit) handler" where
  "prune_finalized_removals rpc selected =
     seq (read_st ps_removed_games) (\<lambda>removals.
     seq (lift (finalized_removals rpc selected removals)) (\<lambda>idxs.
     write_st (\<lambda>st. st\<lparr> ps_removed_games := fold hm_remove idxs (ps_removed_games st) \<rparr>)))"

section \<open>Ancestors\<close>

text \<open>The chain the node reports above a header: each header with the parent its hash names.\<close>

inductive ancestor :: "l1_rpc \<Rightarrow> header \<Rightarrow> header \<Rightarrow> bool" for rpc where
  anc_self: "ancestor rpc h h"
| anc_parent: "get_block_by_hash rpc (hd_parent_hash h) = Inr (Some p) \<Longrightarrow> hd_hash p = hd_parent_hash h \<Longrightarrow>
    unat (hd_number h) = Suc (unat (hd_number p)) \<Longrightarrow> ancestor rpc p a \<Longrightarrow> ancestor rpc h a"

inductive_cases ancestorE: "ancestor rpc h a"

lemma ancestor_number: "ancestor rpc h a \<Longrightarrow> hd_number a \<le> hd_number h"
  by (induction rule: ancestor.induct) (auto simp: word_le_nat_alt)

lemma ancestor_trans: "ancestor rpc h a \<Longrightarrow> ancestor rpc a b \<Longrightarrow> ancestor rpc h b"
  by (induction rule: ancestor.induct) (auto intro: anc_parent)

lemma l1_ancestor_loop_sound:
  "l1_ancestor_loop rpc h n = Inr a \<Longrightarrow> n \<le> hd_number h \<Longrightarrow> ancestor rpc h a \<and> hd_number a = n"
proof (induction rpc h n rule: l1_ancestor_loop.induct)
  case (1 rpc h n)
  show ?case
  proof (cases "hd_number h > n")
    case True
    with "1.prems"(1) obtain p where p: "get_block_by_hash rpc (hd_parent_hash h) = Inr (Some p)"
      "hd_hash p = hd_parent_hash h" "checked_add (hd_number p) 1 = Some (hd_number h)"
      "l1_ancestor_loop rpc p n = Inr a"
      by (auto simp: l1_ancestor_loop.simps [of rpc h n] result_simps split: if_splits)
    then have n: "unat (hd_number h) = Suc (unat (hd_number p))" by (simp add: checked_add_one_iff)
    with True have "n \<le> hd_number p" by (simp add: word_le_nat_alt word_less_nat_alt)
    with 1(1) [OF True p(1), of p] p have "ancestor rpc p a \<and> hd_number a = n" by simp
    with p n show ?thesis by (blast intro: anc_parent)
  next
    case False
    with 1 show ?thesis by (simp add: l1_ancestor_loop.simps [of rpc h n] anc_self)
  qed
qed

lemma l1_ancestor_loop_complete: "ancestor rpc h a \<Longrightarrow> l1_ancestor_loop rpc h (hd_number a) = Inr a"
proof (induction rule: ancestor.induct)
  case (anc_self h)
  then show ?case by (simp add: l1_ancestor_loop.simps)
next
  case (anc_parent h p a)
  have "hd_number a < hd_number h"
    using ancestor_number [OF anc_parent(4)] anc_parent(3) by (simp add: word_le_nat_alt word_less_nat_alt)
  with anc_parent show ?case
    by (subst l1_ancestor_loop.simps) (simp add: checked_add_one_iff [THEN iffD2])
qed

lemma l1_ancestor_eq: "l1_ancestor rpc h n = Inr a \<longleftrightarrow> ancestor rpc h a \<and> hd_number a = n"
  using l1_ancestor_loop_sound l1_ancestor_loop_complete ancestor_number
  by (fastforce simp: l1_ancestor_def result_simps)

section \<open>Releasing removal records\<close>

lemma prune_walk_sound:
  "prune_walk rpc h cands = Inr idxs \<Longrightarrow> i \<in> set idxs \<Longrightarrow>
   \<exists>b a. (i, b) \<in> set cands \<and> ancestor rpc h a \<and> hd_number a = bn_number b \<and> hd_hash a = bn_hash b"
proof (induction rpc h cands arbitrary: idxs rule: prune_walk.induct)
  case (1 rpc h)
  then show ?case by simp
next
  case (2 rpc h j b cands)
  from "2.prems"(1) obtain anc rest where
    anc: "l1_ancestor rpc h (bn_number b) = Inr anc" and rest: "prune_walk rpc anc cands = Inr rest"
    and idxs: "idxs = (if hd_hash anc = bn_hash b then j # rest else rest)"
    by (auto simp: result_simps)
  have a: "ancestor rpc h anc" "hd_number anc = bn_number b"
    using anc by (auto simp: l1_ancestor_eq)
  show ?case
  proof (cases "i \<in> set rest")
    case True
    from "2.IH" [OF anc rest True] obtain b' a' where
      "(i, b') \<in> set cands" "ancestor rpc anc a'" "hd_number a' = bn_number b'" "hd_hash a' = bn_hash b'"
      by blast
    with ancestor_trans [OF a(1)] show ?thesis by (metis list.set_intros(2))
  next
    case False
    with "2.prems"(2) idxs have "i = j" "hd_hash anc = bn_hash b" by (auto split: if_splits)
    with a show ?thesis by auto
  qed
qed

lemma common_ancestor_sound:
  "common_ancestor rpc s f = Inr a \<Longrightarrow>
   hd_number a = min (hd_number s) (hd_number f) \<and>
   (ancestor rpc s a \<and> hd_hash a = hd_hash f \<and> hd_number a = hd_number f \<or>
    ancestor rpc f a \<and> hd_hash a = hd_hash s \<and> hd_number a = hd_number s)"
  by (auto simp: common_ancestor_def result_simps l1_ancestor_eq min_def split: if_splits)

text \<open>What releasing a record needs: its block is on the chain of the selected header and on that of the
  finalized one.\<close>

definition on_final_chain :: "l1_rpc \<Rightarrow> header \<Rightarrow> header \<Rightarrow> block_num_hash \<Rightarrow> bool" where
  "on_final_chain rpc selected finalized b \<longleftrightarrow>
     bn_number b \<le> hd_number selected \<and> bn_number b \<le> hd_number finalized \<and>
     (\<exists>j a. hd_number j = min (hd_number selected) (hd_number finalized) \<and>
       (ancestor rpc selected j \<and> hd_hash j = hd_hash finalized \<or>
        ancestor rpc finalized j \<and> hd_hash j = hd_hash selected) \<and>
       ancestor rpc j a \<and> hd_number a = bn_number b \<and> hd_hash a = bn_hash b)"

lemma finalized_removals_sound:
  assumes "finalized_removals rpc s rm = Inr idxs" and "i \<in> set idxs"
  shows "\<exists>f b. get_block_finalized rpc = Inr (Some f) \<and> (i, b) \<in> set rm \<and> on_final_chain rpc s f b"
proof -
  let ?c = "\<lambda>f. filter (\<lambda>(_, block). bn_number block \<le> min (hd_number s) (hd_number f)) rm"
  from assms obtain f j where f: "get_block_finalized rpc = Inr (Some f)"
    and j: "common_ancestor rpc s f = Inr j"
    and w: "prune_walk rpc j (rev (sort_key (\<lambda>(_, block). bn_number block) (?c f))) = Inr idxs"
    by (auto simp: finalized_removals_def Let_def result_simps split: if_splits)
  from prune_walk_sound [OF w assms(2)] obtain b a where
    b: "(i, b) \<in> set (?c f)" "ancestor rpc j a" "hd_number a = bn_number b" "hd_hash a = bn_hash b"
    by auto
  with common_ancestor_sound [OF j] f show ?thesis by (auto simp: on_final_chain_def)
qed

lemma state_wf_removed_subset:
  assumes "state_wf st"
  shows "state_wf (st\<lparr> ps_removed_games := fold hm_remove ks (ps_removed_games st) \<rparr>)"
proof -
  have wf: "hm_wf (ps_removed_games st)" using assms by (simp add: state_wf_iff)
  show ?thesis
    unfolding state_wf_iff using assms wf
    by (simp add: hm.invar_remove_all hm.get_remove_all state_wf_iff)
qed

lemma keeps_prune_finalized [keeps_intros]: "keeps state_wf (prune_finalized_removals rpc sel)"
  unfolding prune_finalized_removals_def
  by (intro keeps_intros keeps_write) (rule state_wf_removed_subset)

section \<open>Properties\<close>

text \<open>C29: \<open>l1_ancestor\<close> returns exactly the ancestor at the requested height that the node's
  parent-hash links lead to from the given header: it succeeds if and only if such an ancestor can be
  reached through headers whose hash and number match their child, and it always terminates.\<close>

theorem l1_ancestor_correct:
  "l1_ancestor rpc h n = Inr a \<longleftrightarrow> ancestor rpc h a \<and> hd_number a = n"
  by (rule l1_ancestor_eq)

text \<open>C28: \<open>prune_finalized_removals\<close> forgets the removal of a game only if the removal's block lies on
  the common chain of the selected and of the finalized L1 header; it changes nothing else, and if it
  fails it changes nothing at all.\<close>

theorem prune_finalized_removals_safe:
  assumes wf: "state_wf st" and run: "prune_finalized_removals rpc selected st = (r, st')"
  shows "(\<forall>k. hm_get (ps_removed_games st') k \<noteq> hm_get (ps_removed_games st) k \<longrightarrow>
      hm_get (ps_removed_games st') k = None \<and>
      (\<exists>f b. get_block_finalized rpc = Inr (Some f) \<and> hm_get (ps_removed_games st) k = Some b \<and>
             on_final_chain rpc selected f b)) \<and>
    st'\<lparr> ps_removed_games := ps_removed_games st \<rparr> = st \<and>
    ((\<exists>e. r = Inl e) \<longrightarrow> st' = st)"
proof -
  have wfr: "hm_wf (ps_removed_games st)" using wf by (simp add: state_wf_iff)
  show ?thesis
  proof (cases "finalized_removals rpc selected (ps_removed_games st)")
    case (Inl e)
    with run show ?thesis by (auto simp: prune_finalized_removals_def)
  next
    case (Inr idxs)
    with run have st': "st' = st\<lparr> ps_removed_games := fold hm_remove idxs (ps_removed_games st) \<rparr>"
      and r: "r = Inr ()" by (auto simp: prune_finalized_removals_def)
    have released: "\<exists>f b. get_block_finalized rpc = Inr (Some f) \<and>
        hm_get (ps_removed_games st) k = Some b \<and> on_final_chain rpc selected f b" if "k \<in> set idxs" for k
      using finalized_removals_sound [OF Inr that] hm_value_imp_get [OF wfr] by blast
    show ?thesis
      by (intro conjI allI impI) (use released in \<open>simp_all add: st' r hm.get_remove_all [OF wfr] split: if_splits\<close>)
  qed
qed

section \<open>Witnesses\<close>

definition sample_claim :: "address \<Rightarrow> claim_data" where
  "sample_claim a = \<lparr> cd_parentIndex = (if a = 1 then u32_MAX else 0), cd_counteredBy = 0, cd_prover = 0,
     cd_claim = 7, cd_status = (if a = 1 then Resolved else Unchallenged), cd_deadline = 1000 \<rparr>"

definition sample_view :: l1_view where
  "sample_view = \<lparr> gameImpls = (\<lambda>_. Inr 50), initBonds = (\<lambda>_. Inr 1), gameCount = Inr 2,
     gameAtIndex = (\<lambda>i. Inr \<lparr> fg_gameType = 42, fg_timestamp = 0, fg_proxy = ucast i + 1 \<rparr>),
     factory_games = (\<lambda>_ _ _. Inr 0), getAnchorRoot = Inr (7, 5), isGameFinalized = (\<lambda>a. Inr (a = 1)),
     anchorGame = Inr 0, respectedGameType = Inr 42,
     status_of = (\<lambda>a. Inr (if a = 1 then DEFENDER_WINS else IN_PROGRESS)),
     claimData = (\<lambda>a. Inr (sample_claim a)), gameType_of = (\<lambda>_. Inr 42), gameCreator = (\<lambda>_. Inr 9),
     l2BlockNumber = (\<lambda>a. Inr (10 * ucast a)), startingBlockNumber = (\<lambda>a. Inr (10 * ucast a - 10)),
     rootClaim = (\<lambda>_. Inr 7), l1Head = (\<lambda>_. Inr 100), wasRespectedGameTypeWhenCreated = (\<lambda>_. Inr True),
     maxChallengeDuration = (\<lambda>_. Inr 600), maxProveDuration = (\<lambda>_. Inr 300),
     anchorStateRegistry = (\<lambda>_. Inr 77), challengerBond = (\<lambda>_. Inr 3), aggregationVkey = (\<lambda>_. Inr 1),
     rangeVkeyCommitment = (\<lambda>_. Inr 2), rollupConfigHash = (\<lambda>_. Inr 3),
     bondDistributionMode = (\<lambda>_. Inr 0), credit = (\<lambda>_ _. Inr 4),
     estimateClaimCredit = (\<lambda>_ _. Inr 21000), estimateCloseGame = (\<lambda>_ _. Inr 21000) \<rparr>"

definition sample_l2 :: l2_view where
  "sample_l2 = \<lparr> get_header_by_number = (\<lambda>_. Inr (Some \<lparr> h_state_root = 1, h_hash = 2, h_withdrawals_root = Some 3 \<rparr>)),
     get_proof_storage_hash = (\<lambda>_ _. Inr 4), EMPTY_ROOT_HASH = 0, keccak_L2Output = (\<lambda>_ _ _ _. 7) \<rparr>"

definition sample_header :: "u64 \<Rightarrow> header" where
  "sample_header n = \<lparr> hd_number = n, hd_hash = 100 + ucast n, hd_parent_hash = 99 + ucast n, hd_timestamp = 12 * n \<rparr>"

definition sample_rpc :: l1_rpc where
  "sample_rpc = \<lparr> get_block_latest = Inr (Some (sample_header 10)),
     get_block_finalized = Inr (Some (sample_header 8)),
     get_block_by_number = (\<lambda>n. Inr (Some (sample_header n))),
     get_block_by_hash = (\<lambda>h. Inr (Some (sample_header (ucast (h - 100))))) \<rparr>"

definition sample_removed :: proposer_state where
  "sample_removed = proposer_state_default \<lparr> ps_removed_games :=
     [(4, \<lparr> bn_number = 6, bn_hash = 106 \<rparr>), (5, \<lparr> bn_number = 7, bn_hash = 1 \<rparr>)] \<rparr>"

theorem prune_finalized_removals_safe_witness:
  "hm_get (ps_removed_games (snd (prune_finalized_removals sample_rpc (sample_header 10) sample_removed))) 4 = None \<and>
   (\<exists>f b. get_block_finalized sample_rpc = Inr (Some f) \<and> hm_get (ps_removed_games sample_removed) 4 = Some b \<and>
          on_final_chain sample_rpc (sample_header 10) f b)"
proof -
  let ?run = "prune_finalized_removals sample_rpc (sample_header 10) sample_removed"
  have wf: "state_wf sample_removed" by code_simp
  have gone: "hm_get (ps_removed_games (snd ?run)) 4 = None" by code_simp
  have "hm_get (ps_removed_games sample_removed) 4 \<noteq> None" by code_simp
  with gone have "hm_get (ps_removed_games (snd ?run)) 4 \<noteq> hm_get (ps_removed_games sample_removed) 4" by metis
  with prune_finalized_removals_safe [OF wf prod.collapse [of ?run, symmetric], THEN conjunct1, rule_format, of 4]
  show ?thesis by blast
qed

end
