(* ===== verification/SyncGames.thy ===== *)
theory SyncGames
  imports L1Chain
begin

text \<open>
  \<open>sync_games\<close> of \<open>fault-proof/src/proposer.rs\<close> and what it calls: reading a game from the factory
  (\<open>read_game\<close>, \<open>load_game\<close>, \<open>fetch_game\<close>), pruning games above the pinned index, the backward walk of
  the cursor, the commit of a pass, and the refresh of every cached game with its three task flags.

  The proposer's shared state is the record \<open>proposer\<close>: the game cache, the L1 sync marker, the
  creation guard, the counters of failed closes, the running tasks and the transactions sent so far.
\<close>

section \<open>The proposer\<close>

record game_creation =
  gc_observed_l1_block :: u64
  gc_output_root :: b256
  gc_extra_data :: "u8 list"

record creation_guard =
  guard_l2_block :: u64
  guard_address :: address
  guard_observation :: "game_creation option"

definition creation_guard_default :: creation_guard where
  "creation_guard_default = \<lparr> guard_l2_block = 0, guard_address = 0, guard_observation = None \<rparr>"

record l1_sync_state =
  sync_block :: "(u64 \<times> b256) option"
  sync_complete :: bool

definition l1_sync_state_default :: l1_sync_state where
  "l1_sync_state_default = \<lparr> sync_block = None, sync_complete = False \<rparr>"

datatype task_info =
    GameCreation u256
  | GameProving address bool
  | GameResolution
  | GameClose
  | BondClaim

record contract_params =
  max_challenge_duration :: u64
  max_prove_duration :: u64

record proposer_config =
  cfg_game_type :: u32
  cfg_sync_l1_confirmations :: u64
  cfg_proposal_interval_in_blocks :: u64
  cfg_fast_finality_mode :: bool
  cfg_fast_finality_proving_limit :: u64
  cfg_max_concurrent_defense_tasks :: u64
  cfg_signer :: address
  cfg_registry :: address
  cfg_identity :: proposer_identity

record proposer =
  p_state :: proposer_state
  p_l1_sync :: l1_sync_state
  p_creation_guard :: creation_guard
  p_close_game_failures :: "(address, u8) hashmap"
  p_tasks :: "(u64, task_info) hashmap"
  p_next_task_id :: u64
  p_init_bond :: "u256 option"
  p_contract_params :: "contract_params option"
  p_sent :: "l1_tx list"

abbreviation upd_state :: "(proposer_state \<Rightarrow> proposer_state) \<Rightarrow> proposer \<Rightarrow> proposer" where
  "upd_state f p \<equiv> p\<lparr> p_state := f (p_state p) \<rparr>"

text \<open>A handler of the cache run on the whole proposer.\<close>

definition on_state :: "(proposer_state, 'a) handler \<Rightarrow> (proposer, 'a) handler" where
  "on_state m p = (case m (p_state p) of (r, st) \<Rightarrow> (r, p\<lparr> p_state := st \<rparr>))"

section \<open>Reading a game\<close>

datatype game_fetch_result =
    ValidGame address u64
  | UnsupportedType address
  | UnsupportedAnchorStateRegistry address
  | InvalidGame u256
  | AlreadyExists

definition read_game ::
  "proposer_config \<Rightarrow> l2_view \<Rightarrow> l1_view \<Rightarrow> u256 \<Rightarrow> (game_fetch_result \<times> game option) result" where
  "read_game cfg l2 v idx =
     try_bind (gameAtIndex v idx) (\<lambda>fg.
     let addr = fg_proxy fg in
     if fg_gameType fg \<noteq> cfg_game_type cfg then Inr (UnsupportedType addr, None) else
     try_bind (anchorStateRegistry v addr) (\<lambda>game_asr.
     if game_asr \<noteq> cfg_registry cfg then Inr (UnsupportedAnchorStateRegistry addr, None) else
     try_bind (l2BlockNumber v addr) (\<lambda>l2_block.
     try_bind (compute_output_root_at_block l2 l2_block) (\<lambda>output_root.
     try_bind (rootClaim v addr) (\<lambda>claim.
     try_bind (wasRespectedGameTypeWhenCreated v addr) (\<lambda>was_respected.
     try_bind (status_of v addr) (\<lambda>status.
     try_bind (claimData v addr) (\<lambda>cd.
     try_bind (aggregationVkey v addr) (\<lambda>agg.
     try_bind (rangeVkeyCommitment v addr) (\<lambda>range.
     try_bind (rollupConfigHash v addr) (\<lambda>rollup.
     if \<not> was_respected then Inr (InvalidGame idx, None) else
     if output_root \<noteq> claim then Inr (InvalidGame idx, None) else
     Inr (ValidGame addr (cd_deadline cd),
       Some \<lparr> g_index = idx, g_address = addr, g_parent_index = cd_parentIndex cd, g_l2_block = l2_block,
              g_status = status, g_proposal_status = cd_status cd, g_deadline = cd_deadline cd,
              g_should_attempt_to_resolve = False, g_should_attempt_to_close_game = False,
              g_should_attempt_to_claim_bond = False, g_aggregation_vkey = agg,
              g_range_vkey_commitment = range, g_rollup_config_hash = rollup \<rparr>))))))))))))"

definition load_game ::
  "proposer_config \<Rightarrow> l2_view \<Rightarrow> l1_view \<Rightarrow> game_map \<Rightarrow> u256 \<Rightarrow> (game_fetch_result \<times> game option) result" where
  "load_game cfg l2 v gs idx =
     (if hm_get gs idx \<noteq> None then Inr (AlreadyExists, None) else read_game cfg l2 v idx)"

definition fetch_game ::
  "proposer_config \<Rightarrow> l2_view \<Rightarrow> l1_view \<Rightarrow> u256 \<Rightarrow> (proposer, game_fetch_result) handler" where
  "fetch_game cfg l2 v idx =
     seq (read_st (\<lambda>p. ps_games (p_state p))) (\<lambda>gs.
     seq (lift (load_game cfg l2 v gs idx)) (\<lambda>(res, g).
     seq (case g of None \<Rightarrow> ret ()
          | Some g \<Rightarrow> write_st (upd_state (\<lambda>st. st\<lparr> ps_games := hm_insert idx g (ps_games st) \<rparr>)))
       (\<lambda>_. ret res)))"

section \<open>Step 0: games above the pinned index\<close>

definition future_games :: "u256 option \<Rightarrow> game_map \<Rightarrow> u256 list" where
  "future_games pinned_latest_index gs =
     filter (\<lambda>idx. case pinned_latest_index of Some mx \<Rightarrow> idx > mx | None \<Rightarrow> True) (hm_keys gs)"

definition address_among :: "address \<Rightarrow> game_map \<Rightarrow> u256 list \<Rightarrow> bool" where
  "address_among addr gs idxs \<longleftrightarrow>
     list_ex (\<lambda>idx. case hm_get gs idx of Some g \<Rightarrow> g_address g = addr | None \<Rightarrow> False) idxs"

definition prune_future :: "block_num_hash \<Rightarrow> u256 option \<Rightarrow> proposer \<Rightarrow> proposer" where
  "prune_future snapshot pinned_latest_index p =
     (let st = p_state p;
          future = future_games pinned_latest_index (ps_games st)
      in if future = [] then p else
         let guarded_addr = guard_address (p_creation_guard p);
             guard_in_pruned = (guarded_addr \<noteq> 0 \<and> address_among guarded_addr (ps_games st) future);
             st1 = remove_games future snapshot st;
             should_clear_anchor = (case ps_anchor_game st1 of
                 Some a \<Rightarrow> hm_get (ps_games st1) (g_index a) = None | None \<Rightarrow> False);
             st2 = (if should_clear_anchor then st1\<lparr> ps_anchor_game := None \<rparr> else st1)
         in p\<lparr> p_state := st2,
               p_creation_guard := (if guard_in_pruned then creation_guard_default else p_creation_guard p) \<rparr>)"

section \<open>Step 1: the backward walk\<close>

definition start_cursor :: "cursor \<Rightarrow> cursor \<Rightarrow> cursor" where
  "start_cursor latest_index current = (if latest_index < current then cursor_none else current)"

text \<open>
  One iteration: the result for index \<open>i\<close>, the fetched games and invalid indices it adds, the anchor
  deadline, and whether the loop stops here.
\<close>

record walk_acc =
  w_anchor_deadline :: "u64 option"
  w_invalid :: "u256 list"
  w_fetched :: "game list"

definition walk_step ::
  "proposer_config \<Rightarrow> l2_view \<Rightarrow> l1_view \<Rightarrow> game_map \<Rightarrow> address \<Rightarrow> u256 \<Rightarrow> walk_acc \<Rightarrow> (bool \<times> walk_acc) result" where
  "walk_step cfg l2 v gs anchor_address i w =
     try_bind (load_game cfg l2 v gs i) (\<lambda>(fetch_result, game).
     let w1 = w\<lparr> w_fetched := w_fetched w @ (case game of Some g \<Rightarrow> [g] | None \<Rightarrow> []) \<rparr> in
     try_bind (case fetch_result of
         AlreadyExists \<Rightarrow> try_bind (ok_or ''Cached game disappeared during sync'' (hm_get gs i))
             (\<lambda>g. Inr (ValidGame (g_address g) (g_deadline g)))
       | _ \<Rightarrow> Inr fetch_result) (\<lambda>res.
     case res of
         ValidGame addr deadline \<Rightarrow>
           (let ad = (if addr = anchor_address then Some deadline else w_anchor_deadline w1);
                w2 = w1\<lparr> w_anchor_deadline := ad \<rparr>
            in case ad of
                 Some d \<Rightarrow> Inr (abs_diff d deadline > MAX_GAME_DEADLINE_LAG, w2)
               | None \<Rightarrow> Inr (False, w2))
       | UnsupportedType addr \<Rightarrow> Inr (addr = anchor_address, w1)
       | UnsupportedAnchorStateRegistry _ \<Rightarrow> Inr (False, w1)
       | InvalidGame idx \<Rightarrow> Inr (False, w1\<lparr> w_invalid := w_invalid w1 @ [idx] \<rparr>)
       | AlreadyExists \<Rightarrow> Inr (False, w1)))"

definition cursor_pos :: "cursor \<Rightarrow> nat" where
  "cursor_pos c = (case cursor_index c of None \<Rightarrow> 0 | Some i \<Rightarrow> Suc (unat i))"

lemma cursor_pos_step_back: "cursor_index c = Some i \<Longrightarrow> cursor_pos (step_back c) = unat i"
  by (auto simp: cursor_pos_def step_back_def unat_saturating_sub word_less_nat_alt unat_eq_0 split: option.splits)

lemma step_back_decreases: "cursor_index c = Some i \<Longrightarrow> cursor_pos (step_back c) < cursor_pos c"
  by (simp add: cursor_pos_step_back) (simp add: cursor_pos_def)

function walk ::
  "proposer_config \<Rightarrow> l2_view \<Rightarrow> l1_view \<Rightarrow> game_map \<Rightarrow> address \<Rightarrow> cursor \<Rightarrow> cursor \<Rightarrow> walk_acc \<Rightarrow> walk_acc result" where
  "walk cfg l2 v gs anchor_address cursor index w =
     (if index = cursor then Inr w
      else case cursor_index index of
        None \<Rightarrow> Inl (Panic ''must have an index here'')
      | Some i \<Rightarrow>
          try_bind (walk_step cfg l2 v gs anchor_address i w) (\<lambda>(stop, w').
          if stop then Inr w' else walk cfg l2 v gs anchor_address cursor (step_back index) w'))"
  by pat_completeness auto
termination
  by (relation "measure (\<lambda>(_, _, _, _, _, _, index, _). cursor_pos index)") (auto simp: step_back_decreases)

declare walk.simps [simp del]

definition walk_start :: walk_acc where
  "walk_start = \<lparr> w_anchor_deadline = None, w_invalid = [], w_fetched = [] \<rparr>"

definition commit_game :: "game \<Rightarrow> proposer_state \<Rightarrow> proposer_state" where
  "commit_game g st = st\<lparr> ps_removed_games := hm_remove (g_index g) (ps_removed_games st),
                          ps_games := hm_insert (g_index g) g (ps_games st) \<rparr>"

definition commit_pass :: "block_num_hash \<Rightarrow> cursor \<Rightarrow> walk_acc \<Rightarrow> proposer_state \<Rightarrow> proposer_state" where
  "commit_pass snapshot latest_index w st =
     (let st1 = (fold commit_game (w_fetched w) st)\<lparr> ps_cursor := latest_index \<rparr>
      in fold (\<lambda>idx. remove_subtree idx snapshot) (w_invalid w) st1)"

definition load_new_games ::
  "proposer_config \<Rightarrow> l2_view \<Rightarrow> l1_view \<Rightarrow> block_num_hash \<Rightarrow> cursor \<Rightarrow> address \<Rightarrow> (proposer, unit) handler" where
  "load_new_games cfg l2 v snapshot latest_index anchor_address =
     seq (read_st p_state) (\<lambda>st.
     seq (lift (walk cfg l2 v (ps_games st) anchor_address
                  (start_cursor latest_index (ps_cursor st)) latest_index walk_start)) (\<lambda>w.
     write_st (upd_state (commit_pass snapshot latest_index w))))"

section \<open>Step 2: the refresh of cached games\<close>

datatype game_sync_action =
    Update u256 game_status proposal_status u64 bool bool bool
  | Remove u256
  | RemoveSubtree u256

definition is_game_over :: "proposal_status \<Rightarrow> u64 \<Rightarrow> u64 \<Rightarrow> bool" where
  "is_game_over ps now_ts deadline = (case ps of
       Unchallenged \<Rightarrow> now_ts \<ge> deadline
     | UnchallengedAndValidProofProvided \<Rightarrow> True
     | ChallengedAndValidProofProvided \<Rightarrow> True
     | _ \<Rightarrow> False)"

definition is_own_game :: "proposal_status \<Rightarrow> address \<Rightarrow> address \<Rightarrow> address \<Rightarrow> bool" where
  "is_own_game ps creator prover signer_address = (case ps of
       Unchallenged \<Rightarrow> creator = signer_address
     | UnchallengedAndValidProofProvided \<Rightarrow> creator = signer_address \<or> prover = signer_address
     | ChallengedAndValidProofProvided \<Rightarrow> creator = signer_address \<or> prover = signer_address
     | _ \<Rightarrow> False)"

definition in_progress_action ::
  "proposer_config \<Rightarrow> l1_view \<Rightarrow> u64 \<Rightarrow> u256 \<Rightarrow> address \<Rightarrow> claim_data \<Rightarrow> game_sync_action result" where
  "in_progress_action cfg v now_ts idx addr cd =
     try_bind (gameType_of v addr) (\<lambda>game_type.
     try_bind (is_parent_resolved (cd_parentIndex cd) v) (\<lambda>parent_resolved.
     try_bind (gameCreator v addr) (\<lambda>creator.
     Inr (Update idx IN_PROGRESS (cd_status cd) (cd_deadline cd)
       (game_type = cfg_game_type cfg \<and> parent_resolved \<and>
        is_game_over (cd_status cd) now_ts (cd_deadline cd) \<and>
        is_own_game (cd_status cd) creator (cd_prover cd) (cfg_signer cfg)) False False))))"

definition defender_wins_action ::
  "proposer_config \<Rightarrow> l1_view \<Rightarrow> address \<Rightarrow> u256 \<Rightarrow> address \<Rightarrow> bool \<Rightarrow> claim_data \<Rightarrow> bool \<Rightarrow>
   (proposer, game_sync_action) handler" where
  "defender_wins_action cfg v anchor_address idx addr owned cd is_finalized =
     (let upd = Update idx DEFENDER_WINS (cd_status cd) (cd_deadline cd) False in
      if \<not> is_finalized then ret (upd False False) else
      seq (lift (bondDistributionMode v addr)) (\<lambda>mode.
      if owned \<and> mode = BOND_DISTRIBUTION_MODE_UNDECIDED then ret (upd True False) else
      seq (write_st (\<lambda>p. p\<lparr> p_close_game_failures := hm_remove addr (p_close_game_failures p) \<rparr>)) (\<lambda>_.
      seq (lift (credit v addr (cfg_signer cfg))) (\<lambda>credit_amount.
      if credit_amount > 0 then ret (upd False True) else
      seq (read_st (\<lambda>p. ps_canonical_head_index (p_state p))) (\<lambda>canonical_head_index.
      if canonical_head_index = Some idx then ret (upd False False)
      else if anchor_address = addr then ret (upd False False)
      else ret (Remove idx))))))"

definition game_action ::
  "proposer_config \<Rightarrow> l1_view \<Rightarrow> u64 \<Rightarrow> address \<Rightarrow> u256 \<times> address \<times> bool \<Rightarrow> (proposer, game_sync_action) handler" where
  "game_action cfg v now_ts anchor_address = (\<lambda>(idx, addr, owned).
     seq (lift (claimData v addr)) (\<lambda>cd.
     seq (lift (status_of v addr)) (\<lambda>status.
     seq (lift (isGameFinalized v addr)) (\<lambda>is_finalized.
     case status of
       IN_PROGRESS \<Rightarrow> lift (in_progress_action cfg v now_ts idx addr cd)
     | DEFENDER_WINS \<Rightarrow> defender_wins_action cfg v anchor_address idx addr owned cd is_finalized
     | CHALLENGER_WINS \<Rightarrow> ret (RemoveSubtree idx)
     | GameStatus_Invalid \<Rightarrow> fail (Panic ''Unexpected game status'')))))"

fun collect_actions ::
  "('x \<Rightarrow> ('s, 'a) handler) \<Rightarrow> 'x list \<Rightarrow> ('s, 'a list) handler" where
  "collect_actions f [] = ret []"
| "collect_actions f (x # xs) = seq (f x) (\<lambda>a. seq (collect_actions f xs) (\<lambda>as. ret (a # as)))"

definition update_game ::
  "game_status \<Rightarrow> proposal_status \<Rightarrow> u64 \<Rightarrow> bool \<Rightarrow> bool \<Rightarrow> bool \<Rightarrow> game \<Rightarrow> game" where
  "update_game s ps d r c b g = g\<lparr> g_status := s, g_proposal_status := ps, g_deadline := d,
     g_should_attempt_to_resolve := r, g_should_attempt_to_close_game := c,
     g_should_attempt_to_claim_bond := b \<rparr>"

definition apply_action :: "block_num_hash \<Rightarrow> game_sync_action \<Rightarrow> proposer \<Rightarrow> proposer" where
  "apply_action snapshot act p = (case act of
       Update idx s ps d r c b \<Rightarrow> (case hm_get (ps_games (p_state p)) idx of
           None \<Rightarrow> p
         | Some g \<Rightarrow> upd_state (\<lambda>st. st\<lparr> ps_games := hm_insert idx (update_game s ps d r c b g) (ps_games st) \<rparr>) p)
     | Remove idx \<Rightarrow> upd_state (remove_game idx snapshot) p
     | RemoveSubtree idx \<Rightarrow>
         (let guarded_addr = guard_address (p_creation_guard p);
              gs = ps_games (p_state p);
              p1 = (if guarded_addr \<noteq> 0 \<and> address_among guarded_addr gs (idx # descendants_of gs idx)
                    then p\<lparr> p_creation_guard := creation_guard_default \<rparr> else p)
          in upd_state (remove_subtree idx snapshot) p1))"

definition refresh_games ::
  "proposer_config \<Rightarrow> l1_view \<Rightarrow> block_num_hash \<Rightarrow> u64 \<Rightarrow> address \<Rightarrow> (proposer, unit) handler" where
  "refresh_games cfg v snapshot now_ts anchor_address =
     seq (read_st (\<lambda>p. map (\<lambda>g. (g_index g, g_address g, is_owned g (cfg_identity cfg)))
                          (hm_values (ps_games (p_state p))))) (\<lambda>games.
     seq (collect_actions (game_action cfg v now_ts anchor_address) games) (\<lambda>actions.
     write_st (fold (apply_action snapshot) actions)))"

section \<open>The pass\<close>

text \<open>
  \<open>v1\<close> answers the calls of the pruning and of the walk, \<open>v2\<close> those of the refresh: both at the
  pinned block, but a call may fail in one phase and not in the other.
\<close>

definition sync_games ::
  "proposer_config \<Rightarrow> l2_view \<Rightarrow> l1_view \<Rightarrow> l1_view \<Rightarrow> block_num_hash \<Rightarrow> u64 \<Rightarrow> (proposer, unit) handler" where
  "sync_games cfg l2 v1 v2 snapshot pinned_timestamp =
     seq (lift (fetch_latest_game_index v1)) (\<lambda>pinned_latest_index.
     seq (write_st (prune_future snapshot pinned_latest_index)) (\<lambda>_.
     case pinned_latest_index of
       None \<Rightarrow> write_st (upd_state (\<lambda>st. st\<lparr> ps_cursor := cursor_none \<rparr>))
     | Some latest \<Rightarrow>
         seq (lift (anchorGame v1)) (\<lambda>anchor_address.
         seq (load_new_games cfg l2 v1 snapshot (cursor_from latest) anchor_address) (\<lambda>_.
         refresh_games cfg v2 snapshot pinned_timestamp anchor_address))))"

section \<open>Well-formedness\<close>

abbreviation p_wf :: "proposer \<Rightarrow> bool" where
  "p_wf p \<equiv> state_wf (p_state p)"

lemma state_wf_cursor [simp]: "state_wf (st\<lparr> ps_cursor := c \<rparr>) = state_wf st"
  and state_wf_anchor [simp]: "state_wf (st\<lparr> ps_anchor_game := a \<rparr>) = state_wf st"
  and state_wf_head [simp]: "state_wf (st\<lparr> ps_canonical_head_index := h \<rparr>) = state_wf st"
  and state_wf_head_block [simp]: "state_wf (st\<lparr> ps_canonical_head_l2_block := b \<rparr>) = state_wf st"
  by (simp_all add: state_wf_def)

lemma state_wf_commit_game [wf_intros]: "state_wf st \<Longrightarrow> state_wf (commit_game g st)"
  by (simp add: state_wf_iff commit_game_def wf_intros)

lemma state_wf_commit_games [wf_intros]: "state_wf st \<Longrightarrow> state_wf (fold commit_game gs st)"
  by (induction gs arbitrary: st) (simp_all add: wf_intros)

lemma state_wf_remove_subtrees [wf_intros]:
  "state_wf st \<Longrightarrow> state_wf (fold (\<lambda>i. remove_subtree i b) is st)"
  by (induction "is" arbitrary: st) (simp_all add: wf_intros)

lemma state_wf_commit_pass [wf_intros]: "state_wf st \<Longrightarrow> state_wf (commit_pass b c w st)"
  by (simp add: commit_pass_def Let_def wf_intros)

lemma state_wf_update [wf_intros]:
  "state_wf st \<Longrightarrow> hm_get (ps_games st) i = Some g \<Longrightarrow>
   state_wf (st\<lparr> ps_games := hm_insert i (update_game s ps d r c b g) (ps_games st) \<rparr>)"
  unfolding state_wf_iff
  by (auto simp: update_game_def intro!: games_keyed_insert dest: games_keyedD)

lemma prune_future_wf [wf_intros]: "p_wf p \<Longrightarrow> p_wf (prune_future b m p)"
  by (simp add: prune_future_def Let_def wf_intros)

lemma apply_action_wf [wf_intros]: "p_wf p \<Longrightarrow> p_wf (apply_action b a p)"
  by (cases a) (auto simp: apply_action_def Let_def intro: wf_intros split: option.splits)

lemma apply_actions_wf [wf_intros]: "p_wf p \<Longrightarrow> p_wf (fold (apply_action b) as p)"
  by (induction as arbitrary: p) (simp_all add: wf_intros)

lemma keeps_collect_actions [keeps_intros]:
  "(\<And>x. keeps I (f x)) \<Longrightarrow> keeps I (collect_actions f xs)"
  by (induction xs) (auto intro!: keeps_intros)

lemma keeps_game_action [keeps_intros]:
  assumes "\<And>p a. I p \<Longrightarrow> I (p\<lparr> p_close_game_failures := a \<rparr>)"
  shows "keeps I (game_action cfg v now anchor x)"
  unfolding game_action_def defender_wins_action_def Let_def
  by (auto intro!: keeps_intros keeps_write assms split: prod.split game_status.split)

lemma keeps_load_new_games [keeps_intros]: "keeps p_wf (load_new_games cfg l2 v b c a)"
  unfolding load_new_games_def by (intro keeps_intros keeps_write) (simp add: wf_intros)

lemma keeps_refresh_games [keeps_intros]: "keeps p_wf (refresh_games cfg v b now a)"
  unfolding refresh_games_def by (intro keeps_intros keeps_write) (simp_all add: wf_intros)

lemma keeps_sync_games [keeps_intros]: "keeps p_wf (sync_games cfg l2 v1 v2 b now)"
  unfolding sync_games_def by (intro keeps_intros keeps_write) (simp_all add: wf_intros)

section \<open>The walk\<close>

lemma less_cursor_pos: "c < d \<longleftrightarrow> cursor_pos c < cursor_pos d"
  by (cases c; cases d) (auto simp: less_cursor_def cursor_pos_def word_less_nat_alt split: option.splits)

lemma cursor_pos_inj: "cursor_pos c = cursor_pos d \<longleftrightarrow> c = d"
  by (cases c; cases d) (auto simp: cursor_pos_def word_unat_eq_iff split: option.splits)

lemma cursor_pos_from [simp]: "cursor_pos (cursor_from i) = Suc (unat i)"
  by (simp add: cursor_pos_def cursor_from_def)

lemma start_cursor_le: "cursor_pos (start_cursor latest c) \<le> cursor_pos latest"
  using less_cursor_pos [of latest c] by (auto simp: start_cursor_def cursor_none_def cursor_pos_def)

text \<open>What a game read from the factory promises: \<open>chain_game\<close> holds of index \<open>i\<close> when the game there is of
  the configured type and registry, every call answers, and \<open>g\<close> carries what the calls return; it is good
  when its type was respected at creation and its claim is the output root of its block.\<close>

definition chain_game :: "proposer_config \<Rightarrow> l2_view \<Rightarrow> l1_view \<Rightarrow> u256 \<Rightarrow> game \<Rightarrow> bool \<Rightarrow> bool" where
  "chain_game cfg l2 v i g good \<longleftrightarrow> (\<exists>fg root claim respected cd.
     gameAtIndex v i = Inr fg \<and> fg_gameType fg = cfg_game_type cfg \<and>
     anchorStateRegistry v (fg_proxy fg) = Inr (cfg_registry cfg) \<and>
     l2BlockNumber v (fg_proxy fg) = Inr (g_l2_block g) \<and>
     compute_output_root_at_block l2 (g_l2_block g) = Inr root \<and> rootClaim v (fg_proxy fg) = Inr claim \<and>
     wasRespectedGameTypeWhenCreated v (fg_proxy fg) = Inr respected \<and>
     status_of v (fg_proxy fg) = Inr (g_status g) \<and> claimData v (fg_proxy fg) = Inr cd \<and>
     aggregationVkey v (fg_proxy fg) = Inr (g_aggregation_vkey g) \<and>
     rangeVkeyCommitment v (fg_proxy fg) = Inr (g_range_vkey_commitment g) \<and>
     rollupConfigHash v (fg_proxy fg) = Inr (g_rollup_config_hash g) \<and>
     g_index g = i \<and> g_address g = fg_proxy fg \<and> g_parent_index g = cd_parentIndex cd \<and>
     g_proposal_status g = cd_status cd \<and> g_deadline g = cd_deadline cd \<and>
     \<not> g_should_attempt_to_resolve g \<and> \<not> g_should_attempt_to_close_game g \<and>
     \<not> g_should_attempt_to_claim_bond g \<and> (good \<longleftrightarrow> respected \<and> root = claim))"

lemma chain_game_unique:
  assumes "chain_game cfg l2 v i g good" and "chain_game cfg l2 v i g' good'"
  shows "g = g' \<and> good = good'"
  using assms unfolding chain_game_def by (elim exE conjE) simp

lemma chain_game_index: "chain_game cfg l2 v i g good \<Longrightarrow> g_index g = i"
  by (auto simp: chain_game_def)

lemma read_game_cases:
  assumes "read_game cfg l2 v i = Inr (res, x)"
  obtains (valid) g where "x = Some g" "res = ValidGame (g_address g) (g_deadline g)" "chain_game cfg l2 v i g True"
  | (other_type) fg where "x = None" "res = UnsupportedType (fg_proxy fg)" "gameAtIndex v i = Inr fg"
      "fg_gameType fg \<noteq> cfg_game_type cfg"
  | (other_registry) fg a where "x = None" "res = UnsupportedAnchorStateRegistry (fg_proxy fg)"
      "gameAtIndex v i = Inr fg" "fg_gameType fg = cfg_game_type cfg"
      "anchorStateRegistry v (fg_proxy fg) = Inr a" "a \<noteq> cfg_registry cfg"
  | (invalid) g where "x = None" "res = InvalidGame i" "chain_game cfg l2 v i g False"
proof -
  from assms obtain fg where fg: "gameAtIndex v i = Inr fg"
    by (auto simp: read_game_def result_simps)
  show thesis
  proof (cases "fg_gameType fg = cfg_game_type cfg")
    case False
    with fg assms show ?thesis by (intro other_type) (simp_all add: read_game_def Let_def)
  next
    case ty: True
    with fg assms obtain a where a: "anchorStateRegistry v (fg_proxy fg) = Inr a"
      by (auto simp: read_game_def Let_def result_simps)
    show ?thesis
    proof (cases "a = cfg_registry cfg")
      case False
      with fg ty a assms show ?thesis by (intro other_registry) (simp_all add: read_game_def Let_def)
    next
      case True
      with fg ty a assms obtain l2b root claim resp st cd agg rg roll where
        reads: "l2BlockNumber v (fg_proxy fg) = Inr l2b" "compute_output_root_at_block l2 l2b = Inr root"
          "rootClaim v (fg_proxy fg) = Inr claim" "wasRespectedGameTypeWhenCreated v (fg_proxy fg) = Inr resp"
          "status_of v (fg_proxy fg) = Inr st" "claimData v (fg_proxy fg) = Inr cd"
          "aggregationVkey v (fg_proxy fg) = Inr agg" "rangeVkeyCommitment v (fg_proxy fg) = Inr rg"
          "rollupConfigHash v (fg_proxy fg) = Inr roll"
        by (auto simp: read_game_def Let_def result_simps)
      define g where "g = \<lparr> g_index = i, g_address = fg_proxy fg, g_parent_index = cd_parentIndex cd, g_l2_block = l2b,
              g_status = st, g_proposal_status = cd_status cd, g_deadline = cd_deadline cd,
              g_should_attempt_to_resolve = False, g_should_attempt_to_close_game = False,
              g_should_attempt_to_claim_bond = False, g_aggregation_vkey = agg,
              g_range_vkey_commitment = rg, g_rollup_config_hash = roll \<rparr>"
      have cg: "chain_game cfg l2 v i g (resp \<and> root = claim)"
        using fg ty a True reads by (simp add: chain_game_def g_def)
      have "read_game cfg l2 v i = Inr (if resp \<and> root = claim then (ValidGame (g_address g) (g_deadline g), Some g) else (InvalidGame i, None))"
        using fg ty a True reads by (simp add: read_game_def Let_def g_def)
      with assms cg show ?thesis
        using valid [of g] invalid [of g] by (cases "resp \<and> root = claim") simp_all
    qed
  qed
qed

text \<open>The valid games the walk sees (cached, or read for the first time); the deadline of the anchor game as
  known when the walk has come down to \<open>b\<close>; and the two reasons to stop at index \<open>i\<close>: the anchor game is of
  another type, or the game's deadline is too far from the anchor's.\<close>

definition known_game :: "proposer_config \<Rightarrow> l2_view \<Rightarrow> l1_view \<Rightarrow> game_map \<Rightarrow> u256 \<Rightarrow> game \<Rightarrow> bool" where
  "known_game cfg l2 v gs i g \<longleftrightarrow> hm_get gs i = Some g \<or> hm_get gs i = None \<and> chain_game cfg l2 v i g True"

definition anchor_seen ::
  "proposer_config \<Rightarrow> l2_view \<Rightarrow> l1_view \<Rightarrow> game_map \<Rightarrow> address \<Rightarrow> u256 \<Rightarrow> nat \<Rightarrow> u64 \<Rightarrow> bool" where
  "anchor_seen cfg l2 v gs anchor latest b d \<longleftrightarrow> (\<exists>j g. b \<le> unat j \<and> j \<le> latest \<and>
     known_game cfg l2 v gs j g \<and> g_address g = anchor \<and> d = g_deadline g \<and>
     (\<forall>k g'. b \<le> unat k \<and> k < j \<and> known_game cfg l2 v gs k g' \<longrightarrow> g_address g' \<noteq> anchor))"

definition stop_reason ::
  "proposer_config \<Rightarrow> l2_view \<Rightarrow> l1_view \<Rightarrow> game_map \<Rightarrow> address \<Rightarrow> u256 \<Rightarrow> u256 \<Rightarrow> bool" where
  "stop_reason cfg l2 v gs anchor latest i \<longleftrightarrow>
     hm_get gs i = None \<and> (\<exists>fg. gameAtIndex v i = Inr fg \<and> fg_gameType fg \<noteq> cfg_game_type cfg \<and> fg_proxy fg = anchor) \<or>
     (\<exists>g d. known_game cfg l2 v gs i g \<and> anchor_seen cfg l2 v gs anchor latest (unat i) d \<and>
        abs_diff d (g_deadline g) > MAX_GAME_DEADLINE_LAG)"

text \<open>What the walk has collected when it has come down to \<open>b\<close>.\<close>

definition walked ::
  "proposer_config \<Rightarrow> l2_view \<Rightarrow> l1_view \<Rightarrow> game_map \<Rightarrow> address \<Rightarrow> u256 \<Rightarrow> nat \<Rightarrow> walk_acc \<Rightarrow> bool" where
  "walked cfg l2 v gs anchor latest b w \<longleftrightarrow>
     (\<forall>g. g \<in> set (w_fetched w) \<longleftrightarrow> (\<exists>i. b \<le> unat i \<and> i \<le> latest \<and> hm_get gs i = None \<and> chain_game cfg l2 v i g True)) \<and>
     (\<forall>i. i \<in> set (w_invalid w) \<longleftrightarrow> b \<le> unat i \<and> i \<le> latest \<and> hm_get gs i = None \<and> (\<exists>g. chain_game cfg l2 v i g False)) \<and>
     (\<forall>d. w_anchor_deadline w = Some d \<longleftrightarrow> anchor_seen cfg l2 v gs anchor latest b d) \<and>
     (\<forall>i. b \<le> unat i \<and> i \<le> latest \<longrightarrow> (\<exists>x. load_game cfg l2 v gs i = Inr x))"

lemma known_game_unique: "known_game cfg l2 v gs i g \<Longrightarrow> known_game cfg l2 v gs i g' \<Longrightarrow> g = g'"
  by (auto simp: known_game_def dest: chain_game_unique)

lemma unat_ge_iff: "unat i \<le> unat j \<longleftrightarrow> j = i \<or> Suc (unat i) \<le> unat j" for i j :: u256
  unfolding word_unat_eq_iff by arith

lemma anchor_seen_step:
  assumes "i \<le> latest"
  shows "anchor_seen cfg l2 v gs anchor latest (unat i) d \<longleftrightarrow>
    (\<exists>g. known_game cfg l2 v gs i g \<and> g_address g = anchor \<and> d = g_deadline g) \<or>
    (\<forall>g. known_game cfg l2 v gs i g \<longrightarrow> g_address g \<noteq> anchor) \<and> anchor_seen cfg l2 v gs anchor latest (Suc (unat i)) d"
  (is "?L \<longleftrightarrow> ?A \<or> ?B")
proof
  assume ?L
  then obtain j g where j: "unat i \<le> unat j" "j \<le> latest" "known_game cfg l2 v gs j g" "g_address g = anchor" "d = g_deadline g"
    and low: "\<And>k g'. unat i \<le> unat k \<Longrightarrow> k < j \<Longrightarrow> known_game cfg l2 v gs k g' \<Longrightarrow> g_address g' \<noteq> anchor"
    unfolding anchor_seen_def by blast
  show "?A \<or> ?B"
  proof (cases "j = i")
    case True
    with j show ?thesis by blast
  next
    case False
    with j(1) have "Suc (unat i) \<le> unat j" using unat_ge_iff by blast
    moreover have "i < j" using calculation by (simp add: word_less_nat_alt)
    ultimately show ?thesis using j low unfolding anchor_seen_def by (metis Suc_leD order_refl)
  qed
next
  assume "?A \<or> ?B"
  then show ?L
  proof
    assume ?A
    with assms show ?L unfolding anchor_seen_def
      by (metis leD order_refl word_less_nat_alt)
  next
    assume ?B
    then obtain j g where j: "Suc (unat i) \<le> unat j" "j \<le> latest" "known_game cfg l2 v gs j g" "g_address g = anchor" "d = g_deadline g"
      and low: "\<And>k g'. Suc (unat i) \<le> unat k \<Longrightarrow> k < j \<Longrightarrow> known_game cfg l2 v gs k g' \<Longrightarrow> g_address g' \<noteq> anchor"
      and here: "\<And>g. known_game cfg l2 v gs i g \<Longrightarrow> g_address g \<noteq> anchor"
      unfolding anchor_seen_def by blast
    have "g_address g' \<noteq> anchor" if "unat i \<le> unat k" "k < j" "known_game cfg l2 v gs k g'" for k g'
      using that low here unat_ge_iff by metis
    with j show ?L unfolding anchor_seen_def by (metis Suc_leD)
  qed
qed

text \<open>Extending what was walked by one index.\<close>

lemma walked_extend:
  assumes "walked cfg l2 v gs anchor latest (Suc (unat i)) w" and "i \<le> latest"
    and "load_game cfg l2 v gs i = Inr x"
    and "\<And>g. g \<in> set (w_fetched w') \<longleftrightarrow> g \<in> set (w_fetched w) \<or> hm_get gs i = None \<and> chain_game cfg l2 v i g True"
    and "\<And>j. j \<in> set (w_invalid w') \<longleftrightarrow> j \<in> set (w_invalid w) \<or> j = i \<and> hm_get gs i = None \<and> (\<exists>g. chain_game cfg l2 v i g False)"
    and "\<And>d. w_anchor_deadline w' = Some d \<longleftrightarrow>
      (\<exists>g. known_game cfg l2 v gs i g \<and> g_address g = anchor \<and> d = g_deadline g) \<or>
      (\<forall>g. known_game cfg l2 v gs i g \<longrightarrow> g_address g \<noteq> anchor) \<and> w_anchor_deadline w = Some d"
  shows "walked cfg l2 v gs anchor latest (unat i) w'"
proof -
  have w: "\<And>g. g \<in> set (w_fetched w) \<longleftrightarrow> (\<exists>i'. Suc (unat i) \<le> unat i' \<and> i' \<le> latest \<and> hm_get gs i' = None \<and> chain_game cfg l2 v i' g True)"
    "\<And>j. j \<in> set (w_invalid w) \<longleftrightarrow> Suc (unat i) \<le> unat j \<and> j \<le> latest \<and> hm_get gs j = None \<and> (\<exists>g. chain_game cfg l2 v j g False)"
    "\<And>d. w_anchor_deadline w = Some d \<longleftrightarrow> anchor_seen cfg l2 v gs anchor latest (Suc (unat i)) d"
    "\<And>j. Suc (unat i) \<le> unat j \<Longrightarrow> j \<le> latest \<Longrightarrow> \<exists>x. load_game cfg l2 v gs j = Inr x"
    using assms(1) unfolding walked_def by simp_all
  show ?thesis unfolding walked_def
  proof (intro conjI allI impI)
    fix g show "g \<in> set (w_fetched w') \<longleftrightarrow> (\<exists>j. unat i \<le> unat j \<and> j \<le> latest \<and> hm_get gs j = None \<and> chain_game cfg l2 v j g True)"
      unfolding assms(4) w(1) unat_ge_iff [of i] using assms(2) by auto
  next
    fix j show "j \<in> set (w_invalid w') \<longleftrightarrow> unat i \<le> unat j \<and> j \<le> latest \<and> hm_get gs j = None \<and> (\<exists>g. chain_game cfg l2 v j g False)"
      unfolding assms(5) w(2) unat_ge_iff [of i] using assms(2) by auto
  next
    fix d show "w_anchor_deadline w' = Some d \<longleftrightarrow> anchor_seen cfg l2 v gs anchor latest (unat i) d"
      unfolding assms(6) w(3) anchor_seen_step [OF assms(2)] ..
  next
    fix j assume "unat i \<le> unat j \<and> j \<le> latest"
    then show "\<exists>x. load_game cfg l2 v gs j = Inr x"
      using w(4) assms(3) unat_ge_iff [of i j] by blast
  qed
qed

lemma walk_step_walked:
  assumes w: "walked cfg l2 v gs anchor latest (Suc (unat i)) w" and le: "i \<le> latest"
    and step: "walk_step cfg l2 v gs anchor i w = Inr (stop, w')"
  shows "walked cfg l2 v gs anchor latest (unat i) w' \<and> (stop \<longleftrightarrow> stop_reason cfg l2 v gs anchor latest i)"
proof -
  have was_valid: ?thesis
    if known: "known_game cfg l2 v gs i g" and load: "load_game cfg l2 v gs i = Inr x"
      and fetched: "\<And>y. y \<in> set (w_fetched w') \<longleftrightarrow> y \<in> set (w_fetched w) \<or> hm_get gs i = None \<and> y = g"
      and invalid: "w_invalid w' = w_invalid w"
      and anchor: "w_anchor_deadline w' = (if g_address g = anchor then Some (g_deadline g) else w_anchor_deadline w)"
      and stop: "stop \<longleftrightarrow> (case w_anchor_deadline w' of Some d \<Rightarrow> abs_diff d (g_deadline g) > MAX_GAME_DEADLINE_LAG | None \<Rightarrow> False)"
    for g x
  proof -
    have only: "known_game cfg l2 v gs i y \<longleftrightarrow> y = g" for y
      using known known_game_unique by blast
    have fresh: "hm_get gs i = None \<Longrightarrow> chain_game cfg l2 v i y good \<longleftrightarrow> y = g \<and> good" for y good
      using known chain_game_unique [of cfg l2 v i g True y good] by (auto simp: known_game_def)
    have no_type: "\<not> (hm_get gs i = None \<and> gameAtIndex v i = Inr fg \<and> fg_gameType fg \<noteq> cfg_game_type cfg)" for fg
      using known by (auto simp: known_game_def chain_game_def)
    have w': "walked cfg l2 v gs anchor latest (unat i) w'"
      by (rule walked_extend [OF w le load]) (use fresh in \<open>auto simp: fetched invalid anchor only\<close>)
    then have seen: "w_anchor_deadline w' = Some d \<longleftrightarrow> anchor_seen cfg l2 v gs anchor latest (unat i) d" for d
      by (simp add: walked_def)
    have "stop \<longleftrightarrow> stop_reason cfg l2 v gs anchor latest i"
      using no_type unfolding stop stop_reason_def only seen [symmetric] by (auto split: option.split)
    with w' show ?thesis ..
  qed
  have not_valid: ?thesis
    if unknown: "\<And>g. \<not> known_game cfg l2 v gs i g" and load: "load_game cfg l2 v gs i = Inr x"
      and fetched: "w_fetched w' = w_fetched w" and anchor: "w_anchor_deadline w' = w_anchor_deadline w"
      and invalid: "\<And>j. j \<in> set (w_invalid w') \<longleftrightarrow> j \<in> set (w_invalid w) \<or>
        j = i \<and> hm_get gs i = None \<and> (\<exists>g. chain_game cfg l2 v i g False)"
      and stop: "stop \<longleftrightarrow> (\<exists>fg. gameAtIndex v i = Inr fg \<and> fg_gameType fg \<noteq> cfg_game_type cfg \<and> fg_proxy fg = anchor)"
    for x
  proof
    have new: "hm_get gs i = None" "\<And>g. \<not> chain_game cfg l2 v i g True"
      using unknown by (cases "hm_get gs i"; auto simp: known_game_def)+
    show "walked cfg l2 v gs anchor latest (unat i) w'"
      by (rule walked_extend [OF w le load]) (simp_all add: fetched anchor invalid unknown new)
    show "stop \<longleftrightarrow> stop_reason cfg l2 v gs anchor latest i"
      by (simp add: stop stop_reason_def new unknown)
  qed
  show ?thesis
  proof (cases "hm_get gs i")
    case (Some g)
    then have load: "load_game cfg l2 v gs i = Inr (AlreadyExists, None)" by (simp add: load_game_def)
    with Some step show ?thesis
      by (intro was_valid [of g]) (auto simp: walk_step_def known_game_def Let_def split: option.splits)
  next
    case None
    then have load: "load_game cfg l2 v gs i = read_game cfg l2 v i" by (simp add: load_game_def)
    with step obtain res x where rd: "read_game cfg l2 v i = Inr (res, x)"
      by (auto simp: walk_step_def result_simps)
    from rd show ?thesis
    proof (cases rule: read_game_cases)
      case (valid g)
      with None load rd step show ?thesis
        by (intro was_valid [of g]) (auto simp: walk_step_def known_game_def Let_def split: option.splits)
    next
      case (other_type fg)
      with None load rd step show ?thesis
        by (intro not_valid) (auto simp: walk_step_def known_game_def chain_game_def Let_def)
    next
      case (other_registry fg a)
      with None load rd step show ?thesis
        by (intro not_valid) (auto simp: walk_step_def known_game_def chain_game_def Let_def)
    next
      case (invalid g)
      have "\<not> chain_game cfg l2 v i g' True" for g' using chain_game_unique [OF invalid(3)] by blast
      moreover have "\<not> (gameAtIndex v i = Inr fg \<and> fg_gameType fg \<noteq> cfg_game_type cfg)" for fg
        using invalid(3) by (auto simp: chain_game_def)
      ultimately show ?thesis using None load rd step invalid
        by (intro not_valid) (auto simp: walk_step_def known_game_def Let_def)
    qed
  qed
qed

lemma walk_step_error: "walk_step cfg l2 v gs anchor i w = Inl e \<longleftrightarrow> load_game cfg l2 v gs i = Inl e"
proof (cases "load_game cfg l2 v gs i")
  case (Inr rg)
  obtain res g where rg: "rg = (res, g)" by (cases rg)
  with Inr show ?thesis
    by (cases res) (auto simp: walk_step_def load_game_def Let_def result_simps split: option.splits if_splits
      elim: read_game_cases)
qed (simp add: walk_step_def)

text \<open>A walk that succeeds ends at the old cursor or at the first reason to stop; one that fails does so at
  an index it had to read.\<close>

lemma walk_walked:
  assumes "cursor_pos cur \<le> cursor_pos idx" and "cursor_pos idx \<le> Suc (unat latest)"
    and "walked cfg l2 v gs anchor latest (cursor_pos idx) w"
    and "\<forall>i. cursor_pos idx \<le> unat i \<and> i \<le> latest \<longrightarrow> \<not> stop_reason cfg l2 v gs anchor latest i"
  shows "case walk cfg l2 v gs anchor cur idx w of
      Inl e \<Rightarrow> \<exists>i. cursor_pos cur \<le> unat i \<and> i \<le> latest \<and> load_game cfg l2 v gs i = Inl e \<and>
        (\<forall>j. i < j \<and> j \<le> latest \<longrightarrow> \<not> stop_reason cfg l2 v gs anchor latest j)
    | Inr w' \<Rightarrow> \<exists>b. cursor_pos cur \<le> b \<and> walked cfg l2 v gs anchor latest b w' \<and>
        (\<forall>j. b < unat j \<and> j \<le> latest \<longrightarrow> \<not> stop_reason cfg l2 v gs anchor latest j) \<and>
        (b = cursor_pos cur \<and> (\<forall>i. unat i = b \<and> i \<le> latest \<longrightarrow> \<not> stop_reason cfg l2 v gs anchor latest i) \<or>
         (\<exists>i. unat i = b \<and> i \<le> latest \<and> stop_reason cfg l2 v gs anchor latest i))"
  using assms
proof (induction cfg l2 v gs anchor cur idx w rule: walk.induct)
  case (1 cfg l2 v gs anchor cur idx w)
  show ?case
  proof (cases "idx = cur")
    case True
    with "1.prems"(3,4) show ?thesis
      by (auto simp: walk.simps intro!: exI [of _ "cursor_pos cur"])
  next
    case False
    then have "cursor_pos cur < cursor_pos idx" using "1.prems"(1) by (simp add: cursor_pos_inj le_less)
    then obtain i where i: "cursor_index idx = Some i" by (auto simp: cursor_pos_def split: option.splits)
    have pos: "cursor_pos idx = Suc (unat i)" "cursor_pos (step_back idx) = unat i"
      using i cursor_pos_step_back by (auto simp: cursor_pos_def)
    have le: "cursor_pos cur \<le> unat i" "i \<le> latest"
      using \<open>cursor_pos cur < cursor_pos idx\<close> "1.prems"(2) pos by (simp_all add: word_le_nat_alt)
    have above: "\<not> stop_reason cfg l2 v gs anchor latest j" if "i < j" "j \<le> latest" for j
      using "1.prems"(4) that pos by (simp add: word_less_nat_alt)
    show ?thesis
    proof (cases "walk_step cfg l2 v gs anchor i w")
      case (Inl e)
      then have "walk cfg l2 v gs anchor cur idx w = Inl e" using False i by (simp add: walk.simps)
      moreover have "load_game cfg l2 v gs i = Inl e" using Inl walk_step_error by blast
      ultimately show ?thesis using le above by auto
    next
      case (Inr sw)
      obtain stop w1 where sw: "sw = (stop, w1)" by (cases sw)
      have w1: "walked cfg l2 v gs anchor latest (unat i) w1"
        and stop: "stop \<longleftrightarrow> stop_reason cfg l2 v gs anchor latest i"
        using walk_step_walked [OF "1.prems"(3) [unfolded pos] le(2) Inr [unfolded sw]] by auto
      show ?thesis
      proof (cases stop)
        case True
        then have "walk cfg l2 v gs anchor cur idx w = Inr w1" using False i Inr sw by (simp add: walk.simps)
        with w1 stop True le above show ?thesis
          by (auto intro!: exI [of _ "unat i"] simp: word_less_nat_alt)
      next
        case no: False
        then have eq: "walk cfg l2 v gs anchor cur idx w = walk cfg l2 v gs anchor cur (step_back idx) w1"
          using False i Inr sw by (simp add: walk.simps [of _ _ _ _ _ _ idx])
        have "\<forall>j. cursor_pos (step_back idx) \<le> unat j \<and> j \<le> latest \<longrightarrow> \<not> stop_reason cfg l2 v gs anchor latest j"
          using above stop no unfolding pos by (metis le_less word_less_nat_alt word_unat_eq_iff)
        from "1.IH" [OF False i Inr sw [symmetric] no _ _ _ this] show ?thesis
          unfolding eq using le w1 "1.prems"(2) by (simp add: pos)
      qed
    qed
  qed
qed

section \<open>The refresh\<close>

text \<open>What the refresh promises of a game it keeps: the fields and flags it has to carry, as a function
  of the chain at the pinned block.\<close>

definition refreshed ::
  "proposer_config \<Rightarrow> l1_view \<Rightarrow> u64 \<Rightarrow> address \<Rightarrow> bool \<Rightarrow>
   game_status \<Rightarrow> proposal_status \<Rightarrow> u64 \<Rightarrow> bool \<Rightarrow> bool \<Rightarrow> bool \<Rightarrow> bool" where
  "refreshed cfg v now addr owned s ps d r c b \<longleftrightarrow>
     (case (claimData v addr, status_of v addr, isGameFinalized v addr) of
        (Inr cd, Inr st, Inr fin) \<Rightarrow>
          s = st \<and> ps = cd_status cd \<and> d = cd_deadline cd \<and> s \<in> {IN_PROGRESS, DEFENDER_WINS} \<and>
          (r \<longleftrightarrow> s = IN_PROGRESS \<and> gameType_of v addr = Inr (cfg_game_type cfg) \<and>
                 is_parent_resolved (cd_parentIndex cd) v = Inr True \<and> is_game_over ps now d \<and>
                 (case gameCreator v addr of
                    Inr creator \<Rightarrow> is_own_game ps creator (cd_prover cd) (cfg_signer cfg) | Inl _ \<Rightarrow> False)) \<and>
          (c \<longleftrightarrow> s = DEFENDER_WINS \<and> fin \<and> owned \<and> bondDistributionMode v addr = Inr BOND_DISTRIBUTION_MODE_UNDECIDED) \<and>
          (b \<longleftrightarrow> s = DEFENDER_WINS \<and> fin \<and> \<not> c \<and>
                 (case credit v addr (cfg_signer cfg) of Inr x \<Rightarrow> x > 0 | Inl _ \<Rightarrow> False))
      | _ \<Rightarrow> False)"

lemma in_progress_action_refreshed:
  assumes "in_progress_action cfg v now idx addr cd = Inr a"
    and "claimData v addr = Inr cd" "status_of v addr = Inr IN_PROGRESS" "isGameFinalized v addr = Inr fin"
  shows "\<exists>r. a = Update idx IN_PROGRESS (cd_status cd) (cd_deadline cd) r False False \<and>
     refreshed cfg v now addr owned IN_PROGRESS (cd_status cd) (cd_deadline cd) r False False"
  using assms by (auto simp: in_progress_action_def refreshed_def result_simps)

lemma defender_wins_action_refreshed:
  assumes "defender_wins_action cfg v anchor idx addr owned cd fin p = (Inr a, p')"
    and "claimData v addr = Inr cd" "status_of v addr = Inr DEFENDER_WINS" "isGameFinalized v addr = Inr fin"
  shows "a = Remove idx \<or> (\<exists>c b. a = Update idx DEFENDER_WINS (cd_status cd) (cd_deadline cd) False c b \<and>
     refreshed cfg v now addr owned DEFENDER_WINS (cd_status cd) (cd_deadline cd) False c b)"
proof (cases fin)
  case False
  with assms show ?thesis by (auto simp: defender_wins_action_def refreshed_def Let_def)
next
  case True
  with assms(1) obtain mode where mode: "bondDistributionMode v addr = Inr mode"
    by (auto simp: defender_wins_action_def Let_def split: sum.splits)
  show ?thesis
  proof (cases "owned \<and> mode = BOND_DISTRIBUTION_MODE_UNDECIDED")
    case True
    with \<open>fin\<close> mode assms show ?thesis by (auto simp: defender_wins_action_def refreshed_def Let_def split: sum.splits)
  next
    case False
    with \<open>fin\<close> mode assms show ?thesis
      by (auto simp: defender_wins_action_def refreshed_def Let_def split: sum.splits if_splits)
  qed
qed

lemma game_action_refreshed:
  assumes "game_action cfg v now anchor (idx, addr, owned) p = (Inr a, p')"
  shows "a = Remove idx \<or> a = RemoveSubtree idx \<or>
    (\<exists>s ps d r c b. a = Update idx s ps d r c b \<and> refreshed cfg v now addr owned s ps d r c b)"
proof -
  from assms obtain cd st fin where view: "claimData v addr = Inr cd" "status_of v addr = Inr st"
    "isGameFinalized v addr = Inr fin"
    by (auto simp: game_action_def split: sum.splits)
  show ?thesis
  proof (cases st)
    case IN_PROGRESS
    with assms view have "in_progress_action cfg v now idx addr cd = Inr a" by (simp add: game_action_def)
    with in_progress_action_refreshed view IN_PROGRESS show ?thesis by metis
  next
    case DEFENDER_WINS
    with assms view have "defender_wins_action cfg v anchor idx addr owned cd fin p = (Inr a, p')"
      by (simp add: game_action_def)
    with defender_wins_action_refreshed view DEFENDER_WINS show ?thesis by metis
  qed (use assms view in \<open>simp_all add: game_action_def\<close>)
qed

lemma collect_actions_all2:
  "collect_actions f xs s = (Inr as, s') \<Longrightarrow> list_all2 (\<lambda>x a. \<exists>t t'. f x t = (Inr a, t')) xs as"
  by (induction xs arbitrary: s as) (fastforce simp: seq_eq_Inr)+

lemma update_game_update [simp]:
  "update_game s ps d r c b (update_game s' ps' d' r' c' b' g) = update_game s ps d r c b g"
  by (simp add: update_game_def)

lemma apply_action_get:
  "hm_get (ps_games (p_state (apply_action snap a p))) k = Some g' \<Longrightarrow>
   \<exists>g. hm_get (ps_games (p_state p)) k = Some g \<and> a \<noteq> Remove k \<and> a \<noteq> RemoveSubtree k \<and>
     (g' = g \<and> (\<forall>s ps d r c b. a \<noteq> Update k s ps d r c b) \<or>
      (\<exists>s ps d r c b. a = Update k s ps d r c b \<and> g' = update_game s ps d r c b g))"
proof (cases a)
  case (RemoveSubtree i)
  assume "hm_get (ps_games (p_state (apply_action snap a p))) k = Some g'"
  then show ?thesis
    using RemoveSubtree
    by (auto simp: apply_action_def Let_def remove_subtree_def remove_games_get set_descendants_of split: if_splits)
qed (auto simp: apply_action_def split: option.splits if_splits)

lemma apply_actions_get:
  "hm_get (ps_games (p_state (fold (apply_action snap) as p))) k = Some g' \<Longrightarrow>
   \<exists>g. hm_get (ps_games (p_state p)) k = Some g \<and> Remove k \<notin> set as \<and> RemoveSubtree k \<notin> set as \<and>
     (g' = g \<and> (\<forall>s ps d r c b. Update k s ps d r c b \<notin> set as) \<or>
      (\<exists>s ps d r c b. Update k s ps d r c b \<in> set as \<and> g' = update_game s ps d r c b g))"
proof (induction as arbitrary: p)
  case Nil
  then show ?case by simp
next
  case (Cons a as)
  have "hm_get (ps_games (p_state (fold (apply_action snap) as (apply_action snap a p)))) k = Some g'"
    using Cons.prems by simp
  from Cons.IH [OF this] obtain g1 where
    g1: "hm_get (ps_games (p_state (apply_action snap a p))) k = Some g1"
    and rest: "Remove k \<notin> set as" "RemoveSubtree k \<notin> set as"
    "g' = g1 \<and> (\<forall>s ps d r c b. Update k s ps d r c b \<notin> set as) \<or>
      (\<exists>s ps d r c b. Update k s ps d r c b \<in> set as \<and> g' = update_game s ps d r c b g1)"
    by blast
  from apply_action_get [OF g1] obtain g where
    g: "hm_get (ps_games (p_state p)) k = Some g" "a \<noteq> Remove k" "a \<noteq> RemoveSubtree k"
    "g1 = g \<and> (\<forall>s ps d r c b. a \<noteq> Update k s ps d r c b) \<or>
      (\<exists>s ps d r c b. a = Update k s ps d r c b \<and> g1 = update_game s ps d r c b g)" by blast
  from rest(3) show ?case
  proof
    assume "g' = g1 \<and> (\<forall>s ps d r c b. Update k s ps d r c b \<notin> set as)"
    with g rest(1,2) show ?thesis by auto
  next
    assume "\<exists>s ps d r c b. Update k s ps d r c b \<in> set as \<and> g' = update_game s ps d r c b g1"
    then obtain s ps d r c b where u: "Update k s ps d r c b \<in> set as" "g' = update_game s ps d r c b g1" by blast
    with g(4) have "g' = update_game s ps d r c b g" by auto
    with u g rest(1,2) show ?thesis by (metis list.set_intros(2) set_ConsD)
  qed
qed

text \<open>The refresh leaves the cache itself alone until all calls have succeeded.\<close>

lemma collect_game_actions_state:
  assumes "collect_actions (game_action cfg v now anchor) xs p = (r, p')"
  shows "p_state p' = p_state p"
proof -
  have "keeps (\<lambda>q. p_state q = p_state p) (collect_actions (game_action cfg v now anchor) xs)"
    by (intro keeps_intros) simp_all
  from keepsD [OF this refl assms] show ?thesis .
qed

definition game_refreshed :: "proposer_config \<Rightarrow> l1_view \<Rightarrow> u64 \<Rightarrow> game \<Rightarrow> bool" where
  "game_refreshed cfg v now g \<longleftrightarrow>
     refreshed cfg v now (g_address g) (is_owned g (cfg_identity cfg)) (g_status g) (g_proposal_status g)
       (g_deadline g) (g_should_attempt_to_resolve g) (g_should_attempt_to_close_game g)
       (g_should_attempt_to_claim_bond g)"

lemma game_refreshed_update:
  "refreshed cfg v now (g_address g) (is_owned g (cfg_identity cfg)) s ps d r c b \<Longrightarrow>
   game_refreshed cfg v now (update_game s ps d r c b g)"
  by (simp add: game_refreshed_def update_game_def is_owned_def)

lemma refresh_games_refreshed:
  assumes wf: "p_wf p" and run: "refresh_games cfg v snap now anchor p = (Inr (), p')"
    and get: "hm_get (ps_games (p_state p')) k = Some g'"
  shows "game_refreshed cfg v now g'"
proof -
  let ?xs = "map (\<lambda>g. (g_index g, g_address g, is_owned g (cfg_identity cfg))) (hm_values (ps_games (p_state p)))"
  from run obtain as p1 where
    as: "collect_actions (game_action cfg v now anchor) ?xs p = (Inr as, p1)"
    and p': "p' = fold (apply_action snap) as p1"
    by (auto simp: refresh_games_def seq_eq_Inr)
  have keyed: "games_keyed (ps_games (p_state p))" using wf by simp
  from apply_actions_get [OF get [unfolded p'], unfolded collect_game_actions_state [OF as]] obtain g where
    g: "hm_get (ps_games (p_state p)) k = Some g" "Remove k \<notin> set as" "RemoveSubtree k \<notin> set as"
    "g' = g \<and> (\<forall>s ps d r c b. Update k s ps d r c b \<notin> set as) \<or>
      (\<exists>s ps d r c b. Update k s ps d r c b \<in> set as \<and> g' = update_game s ps d r c b g)"
    by blast
  have x: "(k, g_address g, is_owned g (cfg_identity cfg)) \<in> set ?xs"
    using games_keyedD [OF keyed g(1)] hm_get_imp_value [OF g(1)] by force
  have uniq: "addr = g_address g \<and> owned = is_owned g (cfg_identity cfg)"
    if "(k, addr, owned) \<in> set ?xs" for addr owned
    using that g(1) games_keyed_value [OF keyed] by force
  have spec: "refreshed cfg v now (g_address g) (is_owned g (cfg_identity cfg)) s ps d r c b"
    if upd: "Update k s ps d r c b \<in> set as" for s ps d r c b
  proof -
    from list_all2_member2 [OF collect_actions_all2 [OF as] upd] obtain x t t' where
      x: "x \<in> set ?xs" "game_action cfg v now anchor x t = (Inr (Update k s ps d r c b), t')" by blast
    obtain i addr owned where "x = (i, addr, owned)" by (cases x)
    with game_action_refreshed x have "i = k \<and> refreshed cfg v now addr owned s ps d r c b" by blast
    with uniq x(1) \<open>x = (i, addr, owned)\<close> show ?thesis by blast
  qed
  have "\<exists>a \<in> set as. \<exists>t t'. game_action cfg v now anchor (k, g_address g, is_owned g (cfg_identity cfg)) t = (Inr a, t')"
    by (rule list_all2_member1 [OF collect_actions_all2 [OF as] x])
  with game_action_refreshed g(2,3) have "\<exists>s ps d r c b. Update k s ps d r c b \<in> set as" by metis
  with g(4) spec show ?thesis by (metis game_refreshed_update)
qed

section \<open>Committing a pass\<close>

lemma commit_game_get [simp]:
  "hm_get (ps_games (commit_game g st)) k = (if k = g_index g then Some g else hm_get (ps_games st) k)"
  by (simp add: commit_game_def)

lemma commit_games_get:
  assumes "\<forall>x \<in> set xs. \<forall>y \<in> set xs. g_index x = g_index y \<longrightarrow> x = y"
  shows "hm_get (ps_games (fold commit_game xs st)) k =
    (case List.find (\<lambda>x. g_index x = k) xs of Some x \<Rightarrow> Some x | None \<Rightarrow> hm_get (ps_games st) k)"
  using assms
proof (induction xs arbitrary: st)
  case Nil
  then show ?case by simp
next
  case (Cons x xs)
  then have IH: "hm_get (ps_games (fold commit_game xs (commit_game x st))) k =
      (case List.find (\<lambda>x. g_index x = k) xs of Some x \<Rightarrow> Some x | None \<Rightarrow> hm_get (ps_games (commit_game x st)) k)"
    by (simp add: Cons.IH)
  show ?case
  proof (cases "List.find (\<lambda>x. g_index x = k) xs")
    case None
    with IH show ?thesis by simp
  next
    case (Some y)
    then have "y \<in> set xs" "g_index y = k" by (auto dest: find_SomeD)
    with Cons.prems Some IH show ?thesis by auto
  qed
qed

lemma remove_subtrees_cursor [simp]: "ps_cursor (fold (\<lambda>i. remove_subtree i b) is st) = ps_cursor st"
  by (induction "is" arbitrary: st) (simp_all add: remove_subtree_def)

lemma commit_pass_cursor [simp]: "ps_cursor (commit_pass snap c w st) = c"
  by (simp add: commit_pass_def Let_def)

text \<open>The parent relation of a set of games.\<close>

definition parent_rel :: "(u256 \<Rightarrow> game \<Rightarrow> bool) \<Rightarrow> (u256 \<times> u256) set" where
  "parent_rel m = {(u256_of_u32 (g_parent_index g), k) | k g. m k g}"

lemma child_rel_parent_rel:
  assumes "games_keyed gs"
  shows "child_rel gs = parent_rel (\<lambda>k g. hm_get gs k = Some g)"
  using games_keyed_value [OF assms] games_keyedD [OF assms] hm_get_imp_value [of gs]
  unfolding child_rel_def parent_rel_def by (auto simp del: set_map)

text \<open>Removing a subtree and then another one removes what was reachable from either at the start.\<close>

lemma reach_without:
  assumes closed: "r `` R \<subseteq> R"
  shows "R \<union> {(i, j) \<in> r. j \<notin> R}\<^sup>* `` A = R \<union> r\<^sup>* `` A"
proof
  show "R \<union> {(i, j) \<in> r. j \<notin> R}\<^sup>* `` A \<subseteq> R \<union> r\<^sup>* `` A"
    using rtrancl_mono [of "{(i, j) \<in> r. j \<notin> R}" r] by blast
  have "k \<in> R \<or> (a, k) \<in> {(i, j) \<in> r. j \<notin> R}\<^sup>*" if "(a, k) \<in> r\<^sup>*" for a k
    using that by (induction rule: rtrancl_induct) (use closed in \<open>auto intro: rtrancl_into_rtrancl\<close>)
  then show "R \<union> r\<^sup>* `` A \<subseteq> R \<union> {(i, j) \<in> r. j \<notin> R}\<^sup>* `` A" by blast
qed

lemma remove_subtrees_exact:
  "state_wf st \<Longrightarrow>
   hm_get (ps_games (fold (\<lambda>i. remove_subtree i b) xs st)) k =
     (if k \<in> (child_rel (ps_games st))\<^sup>* `` set xs then None else hm_get (ps_games st) k) \<and>
   hm_get (ps_removed_games (fold (\<lambda>i. remove_subtree i b) xs st)) k =
     (if k \<in> (child_rel (ps_games st))\<^sup>* `` set xs \<and> hm_get (ps_games st) k \<noteq> None then Some b
      else hm_get (ps_removed_games st) k)"
proof (induction xs arbitrary: st)
  case (Cons i xs)
  let ?st = "remove_subtree i b st" let ?R = "(child_rel (ps_games st))\<^sup>* `` {i}"
  have wf: "state_wf ?st" using Cons.prems by (rule wf_intros)
  have get: "hm_get (ps_games ?st) k = (if k \<in> ?R then None else hm_get (ps_games st) k)"
    "hm_get (ps_removed_games ?st) k = (if k \<in> ?R \<and> hm_get (ps_games st) k \<noteq> None then Some b else hm_get (ps_removed_games st) k)" for k
    by (simp_all add: remove_subtree_def remove_games_get set_descendants_of)
  have rel: "child_rel (ps_games ?st) = {(x, y) \<in> child_rel (ps_games st). y \<notin> ?R}"
    unfolding child_rel_parent_rel [OF state_wf_games [OF wf]] child_rel_parent_rel [OF state_wf_games [OF Cons.prems]]
      parent_rel_def get by (auto split: if_splits)
  have "?R \<union> (child_rel (ps_games ?st))\<^sup>* `` set xs = ?R \<union> (child_rel (ps_games st))\<^sup>* `` set xs"
    unfolding rel by (rule reach_without) (auto intro: rtrancl_into_rtrancl)
  then have all: "k \<in> (child_rel (ps_games st))\<^sup>* `` set (i # xs) \<longleftrightarrow> k \<in> ?R \<or> k \<in> (child_rel (ps_games ?st))\<^sup>* `` set xs" for k
    by auto
  show ?case unfolding all using Cons.IH [OF wf] get by auto
qed simp

lemma commit_games_removed:
  "hm_get (ps_removed_games (fold commit_game xs st)) k =
     (if \<exists>x \<in> set xs. g_index x = k then None else hm_get (ps_removed_games st) k)"
  by (induction xs arbitrary: st) (auto simp: commit_game_def)

text \<open>The games the pass ends with before the invalid subtrees are taken out.\<close>

definition pass_game ::
  "proposer_config \<Rightarrow> l2_view \<Rightarrow> l1_view \<Rightarrow> game_map \<Rightarrow> u256 \<Rightarrow> nat \<Rightarrow> u256 \<Rightarrow> game \<Rightarrow> bool" where
  "pass_game cfg l2 v gs latest b k g \<longleftrightarrow>
     hm_get gs k = Some g \<or> hm_get gs k = None \<and> b \<le> unat k \<and> k \<le> latest \<and> chain_game cfg l2 v k g True"

definition under_invalid ::
  "proposer_config \<Rightarrow> l2_view \<Rightarrow> l1_view \<Rightarrow> game_map \<Rightarrow> u256 \<Rightarrow> nat \<Rightarrow> u256 set" where
  "under_invalid cfg l2 v gs latest b =
     (parent_rel (pass_game cfg l2 v gs latest b))\<^sup>* ``
       {i. b \<le> unat i \<and> i \<le> latest \<and> hm_get gs i = None \<and> (\<exists>g. chain_game cfg l2 v i g False)}"

lemma commit_fetched_get:
  assumes "walked cfg l2 v (ps_games st) anchor latest b w"
  shows "hm_get (ps_games (fold commit_game (w_fetched w) st)) k = Some g \<longleftrightarrow> pass_game cfg l2 v (ps_games st) latest b k g"
proof -
  have fetched: "x \<in> set (w_fetched w) \<longleftrightarrow> (\<exists>i. b \<le> unat i \<and> i \<le> latest \<and> hm_get (ps_games st) i = None \<and> chain_game cfg l2 v i x True)" for x
    using assms by (simp add: walked_def)
  have uniq: "\<forall>x \<in> set (w_fetched w). \<forall>y \<in> set (w_fetched w). g_index x = g_index y \<longrightarrow> x = y"
    unfolding Ball_def fetched using chain_game_unique chain_game_index by metis
  have at: "x \<in> set (w_fetched w) \<and> g_index x = k \<longleftrightarrow> b \<le> unat k \<and> k \<le> latest \<and> hm_get (ps_games st) k = None \<and> chain_game cfg l2 v k x True" for x
    unfolding fetched using chain_game_index by metis
  show ?thesis
  proof (cases "List.find (\<lambda>x. g_index x = k) (w_fetched w)")
    case None
    then have "\<not> (x \<in> set (w_fetched w) \<and> g_index x = k)" for x by (auto simp: find_None_iff)
    then show ?thesis unfolding commit_games_get [OF uniq] None pass_game_def at by auto
  next
    case (Some x)
    from find_SomeD [OF this] have x: "b \<le> unat k" "k \<le> latest" "hm_get (ps_games st) k = None" "chain_game cfg l2 v k x True"
      using at [of x] by simp_all
    then show ?thesis
      using chain_game_unique [OF x(4), of g True] unfolding commit_games_get [OF uniq] Some pass_game_def by auto
  qed
qed

lemma commit_pass_exact:
  assumes wf: "state_wf st" and w: "walked cfg l2 v (ps_games st) anchor latest b w"
  defines "pass \<equiv> pass_game cfg l2 v (ps_games st) latest b" and "bad \<equiv> under_invalid cfg l2 v (ps_games st) latest b"
  shows "(\<forall>k g. hm_get (ps_games (commit_pass snap c w st)) k = Some g \<longleftrightarrow> k \<notin> bad \<and> pass k g) \<and>
    (\<forall>k. hm_get (ps_removed_games (commit_pass snap c w st)) k =
      (if \<exists>g. pass k g then if k \<in> bad then Some snap
         else if hm_get (ps_games st) k = None then None else hm_get (ps_removed_games st) k
       else hm_get (ps_removed_games st) k))"
proof -
  let ?st = "(fold commit_game (w_fetched w) st)\<lparr> ps_cursor := c \<rparr>"
  have wf1: "state_wf ?st" using wf by (simp add: wf_intros)
  have get: "hm_get (ps_games ?st) k = Some g \<longleftrightarrow> pass k g" for k g
    using commit_fetched_get [OF w] unfolding pass_def by simp
  then have none: "hm_get (ps_games ?st) k \<noteq> None \<longleftrightarrow> (\<exists>g. pass k g)" for k by auto
  have "child_rel (ps_games ?st) = parent_rel pass"
    unfolding child_rel_parent_rel [OF state_wf_games [OF wf1]] get ..
  moreover have "set (w_invalid w) = {i. b \<le> unat i \<and> i \<le> latest \<and> hm_get (ps_games st) i = None \<and> (\<exists>g. chain_game cfg l2 v i g False)}"
    using w by (auto simp: walked_def)
  ultimately have bad: "(child_rel (ps_games ?st))\<^sup>* `` set (w_invalid w) = bad"
    unfolding bad_def under_invalid_def pass_def by simp
  have fetched: "(\<exists>x \<in> set (w_fetched w). g_index x = k) \<longleftrightarrow> hm_get (ps_games st) k = None \<and> (\<exists>g. pass k g)" for k
    using w chain_game_index unfolding walked_def pass_def pass_game_def by (metis option.discI)
  have removed: "hm_get (ps_removed_games ?st) k = (if hm_get (ps_games st) k = None \<and> (\<exists>g. pass k g) then None else hm_get (ps_removed_games st) k)" for k
    by (simp add: commit_games_removed fetched)
  have final: "hm_get (ps_games (commit_pass snap c w st)) k = (if k \<in> bad then None else hm_get (ps_games ?st) k)"
    "hm_get (ps_removed_games (commit_pass snap c w st)) k =
      (if k \<in> bad \<and> (\<exists>g. pass k g) then Some snap else hm_get (ps_removed_games ?st) k)" for k
    using remove_subtrees_exact [OF wf1, of snap "w_invalid w" k, unfolded bad none] by (simp_all add: commit_pass_def)
  have "hm_get (ps_games (commit_pass snap c w st)) k = Some g \<longleftrightarrow> k \<notin> bad \<and> pass k g" for k g
    unfolding final using get by simp
  moreover have "hm_get (ps_removed_games (commit_pass snap c w st)) k =
      (if \<exists>g. pass k g then if k \<in> bad then Some snap
         else if hm_get (ps_games st) k = None then None else hm_get (ps_removed_games st) k
       else hm_get (ps_removed_games st) k)" for k
    unfolding final removed by auto
  ultimately show ?thesis by blast
qed

lemma load_game_ok: "(\<exists>x. load_game cfg l2 v gs i = Inr x) \<longleftrightarrow> hm_get gs i \<noteq> None \<or> (\<exists>x. read_game cfg l2 v i = Inr x)"
  and load_game_failed: "load_game cfg l2 v gs i = Inl e \<longleftrightarrow> hm_get gs i = None \<and> read_game cfg l2 v i = Inl e"
  by (auto simp: load_game_def)

lemma walked_start: "walked cfg l2 v gs anchor latest (Suc (unat latest)) walk_start"
proof -
  have "\<not> (Suc (unat latest) \<le> unat i \<and> i \<le> latest)" for i by (simp add: word_le_nat_alt)
  then show ?thesis by (auto simp: walked_def anchor_seen_def walk_start_def)
qed

lemma prune_future_None: "hm_get (ps_games (p_state (prune_future snap None p))) k = None"
proof -
  have "k \<in> set (hm_keys (ps_games (p_state p))) \<or> hm_get (ps_games (p_state p)) k = None"
    using dom_hm_get [of "ps_games (p_state p)"] by (metis domIff)
  then show ?thesis
    by (auto simp: prune_future_def future_games_def Let_def remove_games_get simp del: set_map)
qed

lemma sync_games_refreshed:
  assumes wf: "p_wf p" and run: "sync_games cfg l2 v1 v2 snap now p = (Inr (), p')"
    and get: "hm_get (ps_games (p_state p')) k = Some g"
  shows "game_refreshed cfg v2 now g"
proof -
  from run obtain m where m: "fetch_latest_game_index v1 = Inr m"
    by (auto simp: sync_games_def split: sum.splits)
  show ?thesis
  proof (cases m)
    case None
    with m run have "p' = upd_state (\<lambda>st. st\<lparr> ps_cursor := cursor_none \<rparr>) (prune_future snap None p)"
      by (simp add: sync_games_def)
    with get prune_future_None [of snap p k] show ?thesis by simp
  next
    case (Some latest)
    with m run obtain aa p1 where "load_new_games cfg l2 v1 snap (cursor_from latest) aa (prune_future snap m p) = (Inr (), p1)"
      and refresh: "refresh_games cfg v2 snap now aa p1 = (Inr (), p')"
      by (auto simp: sync_games_def seq_eq_Inr split: sum.splits)
    then have "p_wf p1"
      using keepsD [OF keeps_load_new_games prune_future_wf [OF wf]] by blast
    from refresh_games_refreshed [OF this refresh get] show ?thesis .
  qed
qed

section \<open>Properties\<close>

text \<open>C2: a successful \<open>sync_games\<close> leaves in the cache only games refreshed from the pinned block: status,
  proposal status and deadline are those on chain, the game is in progress or won by the defender, and
  each of the flags for resolving, closing and claiming is set exactly under its documented
  condition. In particular a game is never flagged for two of the three tasks at once.\<close>

theorem sync_games_flags:
  assumes wf: "p_wf p" and run: "sync_games cfg l2 v1 v2 snap now p = (Inr (), p')"
    and get: "hm_get (ps_games (p_state p')) k = Some g"
  shows "game_refreshed cfg v2 now g \<and>
     \<not> (g_should_attempt_to_close_game g \<and> g_should_attempt_to_claim_bond g) \<and>
     \<not> (g_should_attempt_to_resolve g \<and> (g_should_attempt_to_close_game g \<or> g_should_attempt_to_claim_bond g))"
  using sync_games_refreshed [OF assms]
  by (auto simp: game_refreshed_def refreshed_def split: sum.splits prod.splits)

text \<open>C3: loading new games is all or nothing, and its effect is exact. If a call fails, the proposer is
  unchanged and the failure is that of reading an uncached index between the old cursor and the latest
  one, with no reason to stop above it. If it succeeds, only the cache changes: the cursor is the latest
  index, and for some index \<open>b\<close>, which is the old cursor or the highest reason to stop (the anchor game
  is of another type, or a game's deadline lies more than \<open>MAX_GAME_DEADLINE_LAG\<close> from the anchor's),
  every index from \<open>b\<close> up is cached or was read; the cached games are then the old ones and all
  valid games read in that range, less everything at or below an invalid game of the range; what is taken
  out that way is recorded as removed at the snapshot, and a game newly read loses its record.\<close>

theorem load_new_games_complete:
  assumes wf: "p_wf p" and run: "load_new_games cfg l2 v snap (cursor_from latest) anchor p = (r, p')"
  shows "let st = p_state p; gs = ps_games st; st' = p_state p';
      start = cursor_pos (start_cursor (cursor_from latest) (ps_cursor st))
    in case r of
      Inl e \<Rightarrow> p' = p \<and> (\<exists>i \<le> latest. start \<le> unat i \<and> hm_get gs i = None \<and> read_game cfg l2 v i = Inl e \<and>
        (\<forall>j. i < j \<and> j \<le> latest \<longrightarrow> \<not> stop_reason cfg l2 v gs anchor latest j))
    | Inr _ \<Rightarrow> p' = p\<lparr> p_state := st' \<rparr> \<and> ps_cursor st' = cursor_from latest \<and>
        (\<exists>b \<ge> start. (b = start \<or> (\<exists>i \<le> latest. unat i = b \<and> stop_reason cfg l2 v gs anchor latest i)) \<and>
          (\<forall>i \<le> latest. b < unat i \<longrightarrow> \<not> stop_reason cfg l2 v gs anchor latest i) \<and>
          (\<forall>i \<le> latest. b \<le> unat i \<longrightarrow> hm_get gs i \<noteq> None \<or> (\<exists>x. read_game cfg l2 v i = Inr x)) \<and>
          (\<forall>k g. hm_get (ps_games st') k = Some g \<longleftrightarrow>
             k \<notin> under_invalid cfg l2 v gs latest b \<and> pass_game cfg l2 v gs latest b k g) \<and>
          (\<forall>k. hm_get (ps_removed_games st') k =
            (if \<exists>g. pass_game cfg l2 v gs latest b k g
             then if k \<in> under_invalid cfg l2 v gs latest b then Some snap
               else if hm_get gs k = None then None else hm_get (ps_removed_games st) k
             else hm_get (ps_removed_games st) k)))"
proof -
  let ?st = "p_state p" let ?cur = "start_cursor (cursor_from latest) (ps_cursor ?st)"
  note walk = walk_walked [OF start_cursor_le [of "cursor_from latest" "ps_cursor ?st"], of latest cfg l2 v "ps_games ?st" anchor walk_start]
  have none: "\<forall>i. cursor_pos (cursor_from latest) \<le> unat i \<and> i \<le> latest \<longrightarrow> \<not> stop_reason cfg l2 v (ps_games ?st) anchor latest i"
    by (auto simp: word_le_nat_alt)
  show ?thesis
  proof (cases "walk cfg l2 v (ps_games ?st) anchor ?cur (cursor_from latest) walk_start")
    case (Inl e)
    with run have r: "r = Inl e" "p' = p" by (auto simp: load_new_games_def)
    from walk [OF _ _ none] walked_start Inl show ?thesis
      unfolding r Let_def by (simp add: load_game_failed) blast
  next
    case (Inr w)
    with run have r: "r = Inr ()" and p': "p' = p\<lparr> p_state := commit_pass snap (cursor_from latest) w ?st \<rparr>"
      by (auto simp: load_new_games_def)
    from walk [OF _ _ none] walked_start Inr obtain b where
      b: "cursor_pos ?cur \<le> b" "walked cfg l2 v (ps_games ?st) anchor latest b w"
        "\<forall>j. b < unat j \<and> j \<le> latest \<longrightarrow> \<not> stop_reason cfg l2 v (ps_games ?st) anchor latest j"
        "b = cursor_pos ?cur \<or> (\<exists>i. unat i = b \<and> i \<le> latest \<and> stop_reason cfg l2 v (ps_games ?st) anchor latest i)"
      by (simp only: sum.case cursor_pos_from) blast
    have loads: "\<forall>i \<le> latest. b \<le> unat i \<longrightarrow> hm_get (ps_games ?st) i \<noteq> None \<or> (\<exists>x. read_game cfg l2 v i = Inr x)"
      using b(2) unfolding walked_def load_game_ok by blast
    note commit = commit_pass_exact [OF wf b(2), of snap "cursor_from latest"]
    have st': "p_state p' = commit_pass snap (cursor_from latest) w ?st" by (simp add: p')
    show ?thesis unfolding r Let_def sum.case st'
      using p' b(1,3,4) loads commit by (intro conjI exI [of _ b]) (simp_all, blast)
  qed
qed

section \<open>Witnesses\<close>

text \<open>A factory with two games at the addresses 1 and 2: the first won by the defender and finalized, the
  second in progress on top of it.\<close>

definition sample_config :: proposer_config where
  "sample_config = \<lparr> cfg_game_type = 42, cfg_sync_l1_confirmations = 2, cfg_proposal_interval_in_blocks = 10,
     cfg_fast_finality_mode = False, cfg_fast_finality_proving_limit = 1, cfg_max_concurrent_defense_tasks = 2,
     cfg_signer = 9, cfg_registry = 77,
     cfg_identity = \<lparr> id_aggregation_vkey = 1, id_range_vkey_commitment = 2, id_rollup_config_hash = 3 \<rparr> \<rparr>"

definition sample_proposer :: proposer where
  "sample_proposer = \<lparr> p_state = proposer_state_default, p_l1_sync = l1_sync_state_default,
     p_creation_guard = creation_guard_default, p_close_game_failures = [], p_tasks = [], p_next_task_id = 1,
     p_init_bond = Some 1, p_contract_params = Some \<lparr> max_challenge_duration = 600, max_prove_duration = 300 \<rparr>,
     p_sent = [] \<rparr>"

definition sample_snapshot :: block_num_hash where
  "sample_snapshot = \<lparr> bn_number = 8, bn_hash = 108 \<rparr>"

definition sample_sync :: "unit result \<times> proposer" where
  "sample_sync = sync_games sample_config sample_l2 sample_view sample_view sample_snapshot 2000 sample_proposer"

lemma sample_proposer_wf: "p_wf sample_proposer"
  by code_simp

lemma sample_sync_ok: "fst sample_sync = Inr ()"
  by code_simp

text \<open>The first game is flagged for closing, the second for resolving.\<close>

theorem sync_games_flags_witness:
  "\<exists>g0 g1. hm_get (ps_games (p_state (snd sample_sync))) 0 = Some g0 \<and> g_should_attempt_to_close_game g0 \<and>
     hm_get (ps_games (p_state (snd sample_sync))) 1 = Some g1 \<and> g_should_attempt_to_resolve g1 \<and>
     game_refreshed sample_config sample_view 2000 g0 \<and> game_refreshed sample_config sample_view 2000 g1"
proof -
  have run: "sync_games sample_config sample_l2 sample_view sample_view sample_snapshot 2000 sample_proposer
      = (Inr (), snd sample_sync)"
    using sample_sync_ok prod.collapse [of sample_sync] by (simp add: sample_sync_def)
  have "map_option g_should_attempt_to_close_game (hm_get (ps_games (p_state (snd sample_sync))) 0) = Some True"
    by code_simp
  then obtain g0 where g0: "hm_get (ps_games (p_state (snd sample_sync))) 0 = Some g0" "g_should_attempt_to_close_game g0"
    by auto
  have "map_option g_should_attempt_to_resolve (hm_get (ps_games (p_state (snd sample_sync))) 1) = Some True"
    by code_simp
  then obtain g1 where g1: "hm_get (ps_games (p_state (snd sample_sync))) 1 = Some g1" "g_should_attempt_to_resolve g1"
    by auto
  from g0 g1 sync_games_flags [OF sample_proposer_wf run g0(1)] sync_games_flags [OF sample_proposer_wf run g1(1)]
  show ?thesis by blast
qed

theorem load_new_games_complete_witness:
  "let p' = snd (load_new_games sample_config sample_l2 sample_view sample_snapshot (cursor_from 1) 0 sample_proposer)
   in ps_cursor (p_state p') = cursor_from 1 \<and>
      (\<exists>b. \<forall>k g. hm_get (ps_games (p_state p')) k = Some g \<longleftrightarrow>
         k \<notin> under_invalid sample_config sample_l2 sample_view [] 1 b \<and> pass_game sample_config sample_l2 sample_view [] 1 b k g)"
proof -
  let ?run = "load_new_games sample_config sample_l2 sample_view sample_snapshot (cursor_from 1) 0 sample_proposer"
  have ok: "fst ?run = Inr ()" by code_simp
  have gs: "ps_games (p_state sample_proposer) = []" by code_simp
  show ?thesis
    using load_new_games_complete [OF sample_proposer_wf prod.collapse [of ?run, symmetric]]
    unfolding ok gs Let_def sum.case by blast
qed

end
