(* ===== verification/SyncState.thy ===== *)
theory SyncState
  imports SyncGames
begin

text \<open>
  \<open>sync_state\<close> of \<open>fault-proof/src/proposer.rs\<close>: choosing the confirmed L1 header, deciding whether the
  cache belongs to its chain, reconciling the creation guard, rebuilding the cache after a reorg,
  and the ordered passes over games, anchor and canonical head.

  The environment of one call is \<open>sync_env\<close>: the L1 node when the call starts and when it prunes at the
  end, and its answers at a block hash in each phase. The L1 sync lock is held throughout, as it is by
  the commit of a game creation, so a call is one atomic step of the proposer's shared state.
\<close>

record sync_env =
  se_rpc :: l1_rpc
  se_rpc_end :: l1_rpc
  se_at_latest :: "b256 \<Rightarrow> l1_view"
  se_at_rebuild :: "b256 \<Rightarrow> l1_view"
  se_at_games :: "b256 \<Rightarrow> l1_view"
  se_at_refresh :: "b256 \<Rightarrow> l1_view"
  se_at_anchor :: "b256 \<Rightarrow> l1_view"
  se_l2 :: l2_view

section \<open>The operations\<close>

definition sync_anchor_game :: "l1_view \<Rightarrow> (proposer, unit) handler" where
  "sync_anchor_game v =
     seq (lift (anchorGame v)) (\<lambda>anchor_address.
     write_st (upd_state (\<lambda>st.
       if anchor_address = 0 then st\<lparr> ps_anchor_game := None \<rparr>
       else case List.find (\<lambda>(_, g). g_address g = anchor_address) (ps_games st) of
              Some (_, g) \<Rightarrow> st\<lparr> ps_anchor_game := Some g \<rparr>
            | None \<Rightarrow> st\<lparr> ps_anchor_game := None \<rparr>)))"

definition compute_canonical_head :: "proposer_state \<Rightarrow> proposer_state" where
  "compute_canonical_head st = (case select_canonical_head st of
       Some h \<Rightarrow> st\<lparr> ps_canonical_head_index := Some (g_index h), ps_canonical_head_l2_block := Some (g_l2_block h) \<rparr>
     | None \<Rightarrow> st\<lparr> ps_canonical_head_index := None \<rparr>)"

definition latest_header :: "l1_rpc \<Rightarrow> header result" where
  "latest_header rpc = try_bind (get_block_latest rpc) (ok_or ''Failed to fetch latest L1 block'')"

definition confirmed_header :: "proposer_config \<Rightarrow> l1_rpc \<Rightarrow> header \<Rightarrow> header result" where
  "confirmed_header cfg rpc latest =
     (if cfg_sync_l1_confirmations cfg = 0 then Inr latest
      else try_bind (get_block_by_number rpc (saturating_sub (hd_number latest) (cfg_sync_l1_confirmations cfg)))
             (ok_or ''Confirmed L1 block is unavailable; retrying sync''))"

text \<open>The pair \<open>(rebuild, unchanged)\<close>.\<close>

definition sync_decision :: "l1_rpc \<Rightarrow> l1_sync_state \<Rightarrow> u64 \<Rightarrow> header \<Rightarrow> (bool \<times> bool) result" where
  "sync_decision rpc sync confirmed_number confirmed = (case sync_block sync of
       None \<Rightarrow> Inr (True, False)
     | Some (previous_number, previous_hash) \<Rightarrow>
         if confirmed_number < previous_number then Inr (True, False)
         else try_bind (if confirmed_number = previous_number then Inr (hd_hash confirmed)
                        else try_bind (l1_ancestor rpc confirmed previous_number) (\<lambda>h. Inr (hd_hash h)))
              (\<lambda>canonical_hash.
                let rebuild = (canonical_hash \<noteq> previous_hash)
                in Inr (rebuild, \<not> rebuild \<and> confirmed_number = previous_number \<and> sync_complete sync)))"

definition reconcile_guard ::
  "proposer_config \<Rightarrow> (b256 \<Rightarrow> l1_view) \<Rightarrow> header \<Rightarrow> creation_guard \<Rightarrow> (proposer, unit) handler" where
  "reconcile_guard cfg at_latest latest created = (case guard_observation created of
       None \<Rightarrow> ret ()
     | Some observation \<Rightarrow>
         if hd_number latest \<ge> gc_observed_l1_block observation then
           seq (lift (factory_games (at_latest (hd_hash latest)) (cfg_game_type cfg)
                        (gc_output_root observation) (gc_extra_data observation))) (\<lambda>addr.
           let reconciled = (if addr = 0 then creation_guard_default
                 else created\<lparr> guard_address := addr,
                   guard_observation := Some (observation\<lparr> gc_observed_l1_block := hd_number latest \<rparr>) \<rparr>)
           in write_st (\<lambda>p. if p_creation_guard p = created then p\<lparr> p_creation_guard := reconciled \<rparr> else p))
         else ret ())"

fun rebuild_games ::
  "proposer_config \<Rightarrow> l2_view \<Rightarrow> l1_view \<Rightarrow> u256 option \<Rightarrow> block_num_hash \<Rightarrow> u256 list \<Rightarrow>
   game_map \<Rightarrow> (u256, block_num_hash) hashmap \<Rightarrow> (game_map \<times> (u256, block_num_hash) hashmap) result" where
  "rebuild_games cfg l2 v latest_index snap [] games removed = Inr (games, removed)"
| "rebuild_games cfg l2 v latest_index snap (idx # idxs) games removed =
     try_bind (if (case latest_index of Some latest \<Rightarrow> idx \<le> latest | None \<Rightarrow> False)
               then try_bind (read_game cfg l2 v idx) (\<lambda>(_, g). Inr g) else Inr None) (\<lambda>g.
     case g of
       Some game \<Rightarrow> rebuild_games cfg l2 v latest_index snap idxs (hm_insert idx game games) removed
     | None \<Rightarrow> rebuild_games cfg l2 v latest_index snap idxs games (hm_insert idx snap removed))"

definition rebuild_indices :: "proposer_state \<Rightarrow> u256 list" where
  "rebuild_indices st = remdups (hm_keys (ps_games st) @ hm_keys (ps_removed_games st))"

definition rebuild_state ::
  "proposer_config \<Rightarrow> l2_view \<Rightarrow> l1_rpc \<Rightarrow> l1_view \<Rightarrow> header \<Rightarrow> block_num_hash \<Rightarrow> (proposer, unit) handler" where
  "rebuild_state cfg l2 rpc v confirmed snap =
     seq (on_state (prune_finalized_removals rpc confirmed)) (\<lambda>_.
     seq (lift (getAnchorRoot v)) (\<lambda>(_, anchor_l2_block).
     seq (lift (fetch_latest_game_index v)) (\<lambda>latest_index.
     seq (read_st (\<lambda>p. rebuild_indices (p_state p))) (\<lambda>idxs.
     seq (lift (rebuild_games cfg l2 v latest_index snap idxs [] [])) (\<lambda>(games, removed).
     write_st (\<lambda>p. p\<lparr> p_state := proposer_state_default\<lparr> ps_games := games, ps_removed_games := removed,
                                  ps_canonical_head_l2_block := Some anchor_l2_block \<rparr>,
                       p_close_game_failures := [] \<rparr>))))))"

definition sync_passes ::
  "proposer_config \<Rightarrow> sync_env \<Rightarrow> header \<Rightarrow> block_num_hash \<Rightarrow> (proposer, unit) handler" where
  "sync_passes cfg env confirmed snap =
     seq (write_st (\<lambda>p. p\<lparr> p_l1_sync := \<lparr> sync_block = Some (bn_number snap, bn_hash snap), sync_complete = False \<rparr> \<rparr>)) (\<lambda>_.
     seq (sync_games cfg (se_l2 env) (se_at_games env (bn_hash snap)) (se_at_refresh env (bn_hash snap)) snap
            (hd_timestamp confirmed)) (\<lambda>_.
     seq (sync_anchor_game (se_at_anchor env (bn_hash snap))) (\<lambda>_.
     seq (write_st (upd_state compute_canonical_head)) (\<lambda>_.
     seq (on_state (prune_finalized_removals (se_rpc_end env) confirmed)) (\<lambda>_.
     write_st (\<lambda>p. p\<lparr> p_l1_sync := (p_l1_sync p)\<lparr> sync_complete := True \<rparr> \<rparr>))))))"

definition sync_state :: "proposer_config \<Rightarrow> sync_env \<Rightarrow> (proposer, unit) handler" where
  "sync_state cfg env =
     seq (read_st p_l1_sync) (\<lambda>sync.
     seq (read_st p_creation_guard) (\<lambda>created.
     seq (lift (latest_header (se_rpc env))) (\<lambda>latest.
     let confirmed_number = saturating_sub (hd_number latest) (cfg_sync_l1_confirmations cfg) in
     seq (lift (confirmed_header cfg (se_rpc env) latest)) (\<lambda>confirmed.
     let snap = \<lparr> bn_number = confirmed_number, bn_hash = hd_hash confirmed \<rparr> in
     seq (lift (sync_decision (se_rpc env) sync confirmed_number confirmed)) (\<lambda>(rebuild, unchanged).
     seq (reconcile_guard cfg (se_at_latest env) latest created) (\<lambda>_.
     if unchanged then ret () else
     seq (if rebuild then rebuild_state cfg (se_l2 env) (se_rpc env) (se_at_rebuild env (hd_hash confirmed)) confirmed snap
          else ret ()) (\<lambda>_.
     sync_passes cfg env confirmed snap)))))))"

section \<open>Well-formedness\<close>

lemma keeps_on_state [keeps_intros]: "keeps state_wf m \<Longrightarrow> keeps p_wf (on_state m)"
  by (auto simp: keeps_def on_state_def split: prod.splits)

lemma find_pair_SomeD: "List.find P m = Some (k, g) \<Longrightarrow> (k, g) \<in> set m \<and> P (k, g)"
  by (rule find_SomeD)

lemma keeps_sync_anchor_game [keeps_intros]: "keeps p_wf (sync_anchor_game v)"
  unfolding sync_anchor_game_def
  by (intro keeps_intros keeps_write) (auto split: option.splits)

lemma compute_canonical_head_wf [wf_intros]: "state_wf st \<Longrightarrow> state_wf (compute_canonical_head st)"
  by (simp add: compute_canonical_head_def split: option.splits)

lemma read_game_index: "read_game cfg l2 v i = Inr (res, Some g) \<Longrightarrow> g_index g = i"
  by (auto simp: read_game_def Let_def result_simps split: if_splits)

definition rebuild_ok :: "u256 list \<Rightarrow> game_map \<Rightarrow> (u256, block_num_hash) hashmap \<Rightarrow> bool" where
  "rebuild_ok idxs gs rm \<longleftrightarrow> games_keyed gs \<and> hm_wf rm \<and>
     (\<forall>k. k \<in> set idxs \<longrightarrow> hm_get gs k = None \<and> hm_get rm k = None) \<and>
     (\<forall>k g. hm_get gs k = Some g \<longrightarrow> hm_get rm k = None)"

lemma rebuild_games_ok:
  "rebuild_games cfg l2 v m snap idxs gs rm = Inr (gs', rm') \<Longrightarrow> distinct idxs \<Longrightarrow> rebuild_ok idxs gs rm \<Longrightarrow>
   games_keyed gs' \<and> hm_wf rm' \<and> (\<forall>k g. hm_get gs' k = Some g \<longrightarrow> hm_get rm' k = None)"
proof (induction cfg l2 v m snap idxs gs rm rule: rebuild_games.induct)
  case (1 cfg l2 v m snap gs rm)
  then show ?case by (auto simp: rebuild_ok_def)
next
  case (2 cfg l2 v m snap i idxs gs rm)
  from "2.prems"(1) obtain g where
    g: "(if (case m of Some latest \<Rightarrow> i \<le> latest | None \<Rightarrow> False)
         then try_bind (read_game cfg l2 v i) (\<lambda>(_, g). Inr g) else Inr None) = Inr g"
    and rest: "(case g of Some game \<Rightarrow> rebuild_games cfg l2 v m snap idxs (hm_insert i game gs) rm
       | None \<Rightarrow> rebuild_games cfg l2 v m snap idxs gs (hm_insert i snap rm)) = Inr (gs', rm')"
    by (auto simp: result_simps)
  show ?case
  proof (cases g)
    case None
    have "rebuild_ok idxs gs (hm_insert i snap rm)"
      using "2.prems"(2,3) by (auto simp: rebuild_ok_def intro: wf_intros)
    with "2.IH"(1) [OF g None] rest None "2.prems"(2) show ?thesis by simp
  next
    case (Some game)
    with g have "g_index game = i" by (auto simp: result_simps dest: read_game_index split: if_splits)
    then have "rebuild_ok idxs (hm_insert i game gs) rm"
      using "2.prems"(2,3) by (auto simp: rebuild_ok_def intro: wf_intros)
    with "2.IH"(2) [OF g Some] rest Some "2.prems"(2) show ?thesis by simp
  qed
qed

lemma rebuilt_wf:
  assumes "rebuild_games cfg l2 v m snap (rebuild_indices st) [] [] = Inr (gs, rm)"
  shows "state_wf (proposer_state_default\<lparr> ps_games := gs, ps_removed_games := rm \<rparr>)"
proof -
  have "rebuild_ok (rebuild_indices st) [] []" by (simp add: rebuild_ok_def)
  from rebuild_games_ok [OF assms _ this] show ?thesis by (simp add: state_wf_iff rebuild_indices_def)
qed

lemma keeps_rebuild_state [keeps_intros]: "keeps p_wf (rebuild_state cfg l2 rpc v h snap)"
  unfolding keeps_def rebuild_state_def
proof (intro allI impI)
  fix p assume "p_wf p"
  show "p_wf (snd (seq (on_state (prune_finalized_removals rpc h)) (\<lambda>_.
     seq (lift (getAnchorRoot v)) (\<lambda>(_, anchor_l2_block).
     seq (lift (fetch_latest_game_index v)) (\<lambda>latest_index.
     seq (read_st (\<lambda>p. rebuild_indices (p_state p))) (\<lambda>idxs.
     seq (lift (rebuild_games cfg l2 v latest_index snap idxs [] [])) (\<lambda>(games, removed).
     write_st (\<lambda>p. p\<lparr> p_state := proposer_state_default\<lparr> ps_games := games, ps_removed_games := removed,
                                  ps_canonical_head_l2_block := Some anchor_l2_block \<rparr>,
                       p_close_game_failures := [] \<rparr>)))))) p))"
  proof -
    obtain r q where q: "on_state (prune_finalized_removals rpc h) p = (r, q)" by fastforce
    have "p_wf q" by (rule keepsD [OF keeps_on_state [OF keeps_prune_finalized] \<open>p_wf p\<close> q])
    then show ?thesis
      by (auto simp: seq_def q rebuilt_wf split: sum.splits prod.splits)
  qed
qed

lemma keeps_reconcile_guard [keeps_intros]:
  assumes "\<And>p g. I p \<Longrightarrow> I (p\<lparr> p_creation_guard := g \<rparr>)"
  shows "keeps I (reconcile_guard cfg at latest created)"
  unfolding reconcile_guard_def Let_def by (intro keeps_intros keeps_write) (simp add: assms)

lemma keeps_sync_passes [keeps_intros]: "keeps p_wf (sync_passes cfg env h snap)"
  unfolding sync_passes_def by (intro keeps_intros keeps_write) (simp_all add: wf_intros)

lemma keeps_sync_state [keeps_intros]: "keeps p_wf (sync_state cfg env)"
  unfolding sync_state_def Let_def by (intro keeps_intros) simp_all

section \<open>What each phase leaves alone\<close>

lemma select_canonical_head_cong:
  assumes "ps_games st = ps_games st'" and "ps_anchor_game st = ps_anchor_game st'"
  shows "select_canonical_head st = select_canonical_head st'"
proof -
  have "anchor_head st = anchor_head st'" "override_head st = override_head st'"
    by (simp_all add: fun_eq_iff anchor_head_def override_head_def override_roots_def assms)
  then show ?thesis unfolding select_canonical_head_def assms by (simp only:)
qed

lemma select_compute_canonical_head [simp]:
  "select_canonical_head (compute_canonical_head st) = select_canonical_head st"
  by (rule select_canonical_head_cong) (simp_all add: compute_canonical_head_def split: option.splits)

lemma compute_canonical_head_index:
  "ps_canonical_head_index (compute_canonical_head st) = map_option g_index (select_canonical_head st)"
  by (simp add: compute_canonical_head_def split: option.splits)

lemma prune_frame:
  "on_state (prune_finalized_removals rpc h) p = (r, p') \<Longrightarrow>
   ps_games (p_state p') = ps_games (p_state p) \<and> ps_anchor_game (p_state p') = ps_anchor_game (p_state p) \<and>
   ps_canonical_head_index (p_state p') = ps_canonical_head_index (p_state p) \<and>
   ps_canonical_head_l2_block (p_state p') = ps_canonical_head_l2_block (p_state p) \<and>
   ps_cursor (p_state p') = ps_cursor (p_state p) \<and> p_l1_sync p' = p_l1_sync p \<and>
   p_creation_guard p' = p_creation_guard p \<and> p_sent p' = p_sent p"
  by (auto simp: on_state_def prune_finalized_removals_def split: prod.splits sum.splits)

lemma keeps_sync_games_marker:
  "keeps (\<lambda>p. p_l1_sync p = s) (sync_games cfg l2 v1 v2 snap now)"
proof -
  have act: "p_l1_sync (apply_action b a p) = p_l1_sync p" for a b p
    by (cases a) (auto simp: apply_action_def Let_def split: option.splits)
  have "p_l1_sync (fold (apply_action b) as p) = p_l1_sync p" for as b p
    by (induction as arbitrary: p) (simp_all add: act)
  then show ?thesis
    unfolding sync_games_def load_new_games_def refresh_games_def
    by (intro keeps_intros keeps_write) (simp_all add: prune_future_def Let_def)
qed

lemma sync_games_marker:
  "sync_games cfg l2 v1 v2 snap now p = (r, p') \<Longrightarrow> p_l1_sync p' = p_l1_sync p"
  by (rule keepsD [OF keeps_sync_games_marker refl])

lemma sync_anchor_game_frame:
  "sync_anchor_game v p = (r, p') \<Longrightarrow> ps_games (p_state p') = ps_games (p_state p) \<and> p_l1_sync p' = p_l1_sync p"
  by (auto simp: sync_anchor_game_def split: sum.splits option.splits)

lemma reconcile_guard_frame:
  "reconcile_guard cfg at latest created p = (r, p') \<Longrightarrow> p_state p' = p_state p \<and> p_l1_sync p' = p_l1_sync p"
proof -
  assume run: "reconcile_guard cfg at latest created p = (r, p')"
  have "keeps (\<lambda>q. p_state q = p_state p \<and> p_l1_sync q = p_l1_sync p) (reconcile_guard cfg at latest created)"
    by (intro keeps_intros) simp_all
  from keepsD [OF this _ run] show ?thesis by simp
qed

lemma rebuild_state_error:
  "rebuild_state cfg l2 rpc v h snap p = (Inl e, p') \<Longrightarrow>
   ps_games (p_state p') = ps_games (p_state p) \<and> ps_cursor (p_state p') = ps_cursor (p_state p) \<and>
   p_l1_sync p' = p_l1_sync p"
  by (auto simp: rebuild_state_def seq_def dest!: prune_frame split: prod.splits sum.splits)

lemma sync_passes_incomplete:
  "sync_passes cfg env h snap p = (Inl e, p') \<Longrightarrow> sync_complete (p_l1_sync p') = False"
proof -
  let ?s = "\<lparr> sync_block = Some (bn_number snap, bn_hash snap), sync_complete = False \<rparr>"
  assume run: "sync_passes cfg env h snap p = (Inl e, p')"
  have "p_l1_sync p' = ?s"
    using run unfolding sync_passes_def seq_simps
    by (auto simp: seq_def dest!: sync_games_marker prune_frame sync_anchor_game_frame
        split: prod.splits sum.splits)
  then show ?thesis by simp
qed

lemma sync_passes_ok:
  assumes wf: "p_wf p" and run: "sync_passes cfg env h snap p = (Inr (), p')"
  shows "p_l1_sync p' = \<lparr> sync_block = Some (bn_number snap, bn_hash snap), sync_complete = True \<rparr> \<and>
    (\<forall>k g. hm_get (ps_games (p_state p')) k = Some g \<longrightarrow>
       game_refreshed cfg (se_at_refresh env (bn_hash snap)) (hd_timestamp h) g) \<and>
    ps_canonical_head_index (p_state p') = map_option g_index (select_canonical_head (p_state p'))"
proof -
  let ?s = "\<lparr> sync_block = Some (bn_number snap, bn_hash snap), sync_complete = False \<rparr>"
  let ?p0 = "p\<lparr> p_l1_sync := ?s \<rparr>"
  from run obtain p1 p2 p3 where
    games: "sync_games cfg (se_l2 env) (se_at_games env (bn_hash snap)) (se_at_refresh env (bn_hash snap)) snap
              (hd_timestamp h) ?p0 = (Inr (), p1)"
    and anchor: "sync_anchor_game (se_at_anchor env (bn_hash snap)) p1 = (Inr (), p2)"
    and prune: "on_state (prune_finalized_removals (se_rpc_end env) h) (upd_state compute_canonical_head p2) = (Inr (), p3)"
    and p': "p' = p3\<lparr> p_l1_sync := (p_l1_sync p3)\<lparr> sync_complete := True \<rparr> \<rparr>"
    by (auto simp: sync_passes_def seq_eq_Inr)
  have marker: "p_l1_sync p1 = ?s" using sync_games_marker [OF games] by simp
  note frame = sync_anchor_game_frame [OF anchor] prune_frame [OF prune]
  have same: "ps_games (p_state p') = ps_games (p_state p1)"
    using frame by (simp add: p' compute_canonical_head_def split: option.splits)
  have "select_canonical_head (p_state p') = select_canonical_head (compute_canonical_head (p_state p2))"
    by (rule select_canonical_head_cong) (use frame in \<open>simp_all add: p'\<close>)
  then have "ps_canonical_head_index (p_state p') = map_option g_index (select_canonical_head (p_state p'))"
    using frame by (simp add: p' compute_canonical_head_index)
  moreover have "game_refreshed cfg (se_at_refresh env (bn_hash snap)) (hd_timestamp h) g"
    if "hm_get (ps_games (p_state p')) k = Some g" for k g
    using sync_games_refreshed [OF _ games, of k g] that wf same by simp
  ultimately show ?thesis using marker frame by (simp add: p')
qed

section \<open>Properties\<close>

text \<open>\<open>sync_state\<close> keeps the cache well formed on every path, failures included: games are stored
  under their own index, no index is stored twice, and no index is both cached and recorded as
  removed.\<close>

theorem sync_state_invariant:
  "state_wf (p_state p) \<Longrightarrow> state_wf (p_state (snd (sync_state cfg env p)))"
  using keeps_sync_state by (simp add: keeps_def)

text \<open>C1: when \<open>sync_state\<close> succeeds, the sync marker is complete and names the confirmed block. Either
  that block had been synced completely before and the cache is untouched, or every cached game has
  been refreshed from it and the canonical head is the one \<open>select_canonical_head\<close> picks from the
  refreshed cache.\<close>

theorem sync_state_success:
  assumes wf: "state_wf (p_state p)" and run: "sync_state cfg env p = (Inr (), p')"
  shows "\<exists>latest confirmed. latest_header (se_rpc env) = Inr latest \<and>
     confirmed_header cfg (se_rpc env) latest = Inr confirmed \<and>
     p_l1_sync p' = \<lparr> sync_block = Some (saturating_sub (hd_number latest) (cfg_sync_l1_confirmations cfg), hd_hash confirmed),
                     sync_complete = True \<rparr> \<and>
     (p_l1_sync p' = p_l1_sync p \<and> p_state p' = p_state p \<or>
      (\<forall>k g. hm_get (ps_games (p_state p')) k = Some g \<longrightarrow>
         game_refreshed cfg (se_at_refresh env (hd_hash confirmed)) (hd_timestamp confirmed) g) \<and>
      ps_canonical_head_index (p_state p') = map_option g_index (select_canonical_head (p_state p')))"
proof -
  from run obtain latest confirmed rebuild unchanged p1 where
    latest: "latest_header (se_rpc env) = Inr latest"
    and confirmed: "confirmed_header cfg (se_rpc env) latest = Inr confirmed"
    and dec: "sync_decision (se_rpc env) (p_l1_sync p) (saturating_sub (hd_number latest) (cfg_sync_l1_confirmations cfg)) confirmed
               = Inr (rebuild, unchanged)"
    and guard: "reconcile_guard cfg (se_at_latest env) latest (p_creation_guard p) p = (Inr (), p1)"
    and rest: "(if unchanged then ret () else
        seq (if rebuild then rebuild_state cfg (se_l2 env) (se_rpc env) (se_at_rebuild env (hd_hash confirmed)) confirmed
               \<lparr> bn_number = saturating_sub (hd_number latest) (cfg_sync_l1_confirmations cfg), bn_hash = hd_hash confirmed \<rparr>
             else ret ()) (\<lambda>_. sync_passes cfg env confirmed
               \<lparr> bn_number = saturating_sub (hd_number latest) (cfg_sync_l1_confirmations cfg), bn_hash = hd_hash confirmed \<rparr>)) p1
        = (Inr (), p')"
    by (auto simp: sync_state_def Let_def seq_eq_Inr simp del: seq_simps)
  let ?n = "saturating_sub (hd_number latest) (cfg_sync_l1_confirmations cfg)"
  let ?snap = "\<lparr> bn_number = ?n, bn_hash = hd_hash confirmed \<rparr>"
  note frame = reconcile_guard_frame [OF guard]
  show ?thesis
  proof (cases unchanged)
    case True
    then have "p_l1_sync p = \<lparr> sync_block = Some (?n, hd_hash confirmed), sync_complete = True \<rparr>"
      using dec by (auto simp: sync_decision_def Let_def result_simps split: option.splits if_splits)
    with True rest frame latest confirmed show ?thesis by auto
  next
    case False
    with rest obtain p2 where
      p2: "(if rebuild then rebuild_state cfg (se_l2 env) (se_rpc env) (se_at_rebuild env (hd_hash confirmed)) confirmed ?snap
            else ret ()) p1 = (Inr (), p2)"
      and passes: "sync_passes cfg env confirmed ?snap p2 = (Inr (), p')"
      by (auto simp: seq_eq_Inr)
    have "p_wf p1" using wf frame by simp
    then have "p_wf p2" using p2 keepsD [OF keeps_rebuild_state] by (auto split: if_splits)
    from sync_passes_ok [OF this passes] latest confirmed show ?thesis by auto
  qed
qed

text \<open>C27: a failed \<open>sync_state\<close> is retried in full. Either the marker says that the snapshot is not
  complete, or the failure came before anything was discarded: marker, cached games and cursor are
  what they were.\<close>

theorem sync_state_failure:
  assumes run: "sync_state cfg env p = (Inl e, p')"
  shows "sync_complete (p_l1_sync p') = False \<or>
     p_l1_sync p' = p_l1_sync p \<and> ps_games (p_state p') = ps_games (p_state p) \<and>
     ps_cursor (p_state p') = ps_cursor (p_state p)"
  using run unfolding sync_state_def Let_def
  by (auto simp: seq_def dest!: reconcile_guard_frame rebuild_state_error sync_passes_incomplete
      split: sum.splits prod.splits if_splits)

text \<open>the cache survives a sync without a rebuild only if the block it was read at is the confirmed
  block itself or one of its ancestors, hash included; a snapshot is skipped only if it is the very
  block that was synced completely.\<close>

theorem sync_decision_sound:
  assumes "sync_decision rpc sync n confirmed = Inr (False, unchanged)"
  shows "\<exists>n' hash. sync_block sync = Some (n', hash) \<and> n' \<le> n \<and>
     (n' = n \<and> hd_hash confirmed = hash \<or>
      (\<exists>a. ancestor rpc confirmed a \<and> hd_number a = n' \<and> hd_hash a = hash)) \<and>
     (unchanged \<longleftrightarrow> n' = n \<and> sync_complete sync)"
  using assms
  by (auto simp: sync_decision_def Let_def result_simps l1_ancestor_eq split: option.splits if_splits)

text \<open>a rebuild is forced when there is no synced block, when the confirmed height moved backwards, and
  when the synced block is not on the chain of the confirmed header.\<close>

theorem sync_decision_rebuild:
  assumes "sync_decision rpc sync n confirmed = Inr (True, unchanged)"
  shows "\<not> unchanged \<and> (case sync_block sync of None \<Rightarrow> True | Some (n', hash) \<Rightarrow>
     n < n' \<or> n = n' \<and> hd_hash confirmed \<noteq> hash \<or>
     (\<exists>a. ancestor rpc confirmed a \<and> hd_number a = n' \<and> hd_hash a \<noteq> hash))"
  using assms
  by (auto simp: sync_decision_def Let_def result_simps l1_ancestor_eq split: option.splits if_splits)

text \<open>\<open>reconcile_guard\<close> touches the creation guard only when the tip is at least as high as the last
  observation of the created game. It is cleared only if the factory has no such game at that tip;
  otherwise it follows the game to its current address and keeps protecting the same L2 block.\<close>

theorem reconcile_guard_safe:
  assumes run: "reconcile_guard cfg at latest (p_creation_guard p) p = (r, p')"
    and changed: "p_creation_guard p' \<noteq> p_creation_guard p"
  shows "\<exists>obs addr. guard_observation (p_creation_guard p) = Some obs \<and>
     gc_observed_l1_block obs \<le> hd_number latest \<and>
     factory_games (at (hd_hash latest)) (cfg_game_type cfg) (gc_output_root obs) (gc_extra_data obs) = Inr addr \<and>
     (if addr = 0 then p_creation_guard p' = creation_guard_default
      else guard_l2_block (p_creation_guard p') = guard_l2_block (p_creation_guard p) \<and>
           guard_address (p_creation_guard p') = addr \<and>
           guard_observation (p_creation_guard p') = Some (obs\<lparr> gc_observed_l1_block := hd_number latest \<rparr>))"
proof -
  from run changed obtain obs where obs: "guard_observation (p_creation_guard p) = Some obs"
    "gc_observed_l1_block obs \<le> hd_number latest"
    by (auto simp: reconcile_guard_def split: option.splits if_splits)
  moreover from this run changed obtain addr where
    "factory_games (at (hd_hash latest)) (cfg_game_type cfg) (gc_output_root obs) (gc_extra_data obs) = Inr addr"
    by (auto simp: reconcile_guard_def Let_def split: sum.splits)
  ultimately show ?thesis using run by (intro exI [of _ obs] exI [of _ addr]) (auto simp: reconcile_guard_def Let_def)
qed

section \<open>Witnesses\<close>

definition sample_env :: sync_env where
  "sample_env = \<lparr> se_rpc = sample_rpc, se_rpc_end = sample_rpc, se_at_latest = (\<lambda>_. sample_view),
     se_at_rebuild = (\<lambda>_. sample_view), se_at_games = (\<lambda>_. sample_view), se_at_refresh = (\<lambda>_. sample_view),
     se_at_anchor = (\<lambda>_. sample_view), se_l2 = sample_l2 \<rparr>"

definition sample_synced :: "unit result \<times> proposer" where
  "sample_synced = sync_state sample_config sample_env sample_proposer"

lemma sample_synced_ok: "fst sample_synced = Inr ()"
  by code_simp

theorem sync_state_invariant_witness:
  "fst sample_synced = Inr () \<and> ps_games (p_state (snd sample_synced)) \<noteq> [] \<and> state_wf (p_state (snd sample_synced))"
proof -
  have "ps_games (p_state (snd sample_synced)) \<noteq> []" by code_simp
  then show ?thesis
    using sync_state_invariant [OF sample_proposer_wf, of sample_config sample_env] sample_synced_ok
    unfolding sample_synced_def by blast
qed

theorem sync_state_success_witness:
  "sync_complete (p_l1_sync (snd sample_synced)) = True \<and> sync_block (p_l1_sync (snd sample_synced)) = Some (8, 108)"
proof -
  have run: "sync_state sample_config sample_env sample_proposer = (Inr (), snd sample_synced)"
    using sample_synced_ok prod.collapse [of sample_synced] by (simp add: sample_synced_def)
  have "sync_block (p_l1_sync (snd sample_synced)) = Some (8, 108)" by code_simp
  with sync_state_success [OF sample_proposer_wf run] show ?thesis by force
qed

theorem sync_state_failure_witness:
  "sync_complete (p_l1_sync (snd (sync_state sample_config
      (sample_env\<lparr> se_at_refresh := (\<lambda>_. sample_view\<lparr> claimData := (\<lambda>_. Inl (Err ''timeout'')) \<rparr>) \<rparr>) sample_proposer))) = False"
proof -
  let ?env = "sample_env\<lparr> se_at_refresh := (\<lambda>_. sample_view\<lparr> claimData := (\<lambda>_. Inl (Err ''timeout'')) \<rparr>) \<rparr>"
  let ?run = "sync_state sample_config ?env sample_proposer"
  have "fst ?run = Inl (Err ''timeout'')" by code_simp
  then have "?run = (Inl (Err ''timeout''), snd ?run)" by (metis prod.collapse)
  moreover have "p_l1_sync (snd ?run) \<noteq> p_l1_sync sample_proposer" by code_simp
  ultimately show ?thesis using sync_state_failure by blast
qed

theorem sync_decision_sound_witness:
  "sync_decision sample_rpc \<lparr> sync_block = Some (6, 106), sync_complete = True \<rparr> 8 (sample_header 8) = Inr (False, False) \<and>
   (\<exists>a. ancestor sample_rpc (sample_header 8) a \<and> hd_number a = 6 \<and> hd_hash a = 106)"
proof -
  have run: "sync_decision sample_rpc \<lparr> sync_block = Some (6, 106), sync_complete = True \<rparr> 8 (sample_header 8) = Inr (False, False)"
    by code_simp
  from sync_decision_sound [OF this] run show ?thesis by auto
qed

theorem sync_decision_rebuild_witness:
  "sync_decision sample_rpc \<lparr> sync_block = Some (6, 1), sync_complete = True \<rparr> 8 (sample_header 8) = Inr (True, False) \<and>
   (\<exists>a. ancestor sample_rpc (sample_header 8) a \<and> hd_number a = 6 \<and> hd_hash a \<noteq> 1)"
proof -
  have run: "sync_decision sample_rpc \<lparr> sync_block = Some (6, 1), sync_complete = True \<rparr> 8 (sample_header 8) = Inr (True, False)"
    by code_simp
  from sync_decision_rebuild [OF this] run show ?thesis by auto
qed

definition sample_guarded :: proposer where
  "sample_guarded = sample_proposer\<lparr> p_creation_guard := \<lparr> guard_l2_block = 30, guard_address = 5,
     guard_observation = Some \<lparr> gc_observed_l1_block = 9, gc_output_root = 7, gc_extra_data = [] \<rparr> \<rparr> \<rparr>"

theorem reconcile_guard_safe_witness:
  "p_creation_guard (snd (reconcile_guard sample_config (\<lambda>_. sample_view) (sample_header 10) (p_creation_guard sample_guarded) sample_guarded))
     = creation_guard_default"
proof -
  let ?run = "reconcile_guard sample_config (\<lambda>_. sample_view) (sample_header 10) (p_creation_guard sample_guarded) sample_guarded"
  have "p_creation_guard (snd ?run) \<noteq> p_creation_guard sample_guarded" by code_simp
  from reconcile_guard_safe [OF prod.collapse [of ?run, symmetric] this]
  show ?thesis by (auto simp: sample_view_def)
qed

end
