(* ===== verification/ProposerTasks.thy ===== *)
theory ProposerTasks
  imports SyncState
begin

text \<open>
  The work the proposer schedules after a sync (\<open>fault-proof/src/proposer.rs\<close>): deciding on and
  creating a game, defending challenged games, resolving, closing and claiming, the table of
  running tasks, and one turn of the main loop.

  A task is spawned by an entry in the table; the body of the task (\<open>handle_game_creation\<close>,
  \<open>resolve_games\<close>, \<open>close_games\<close>, \<open>claim_bonds\<close>) is a handler of its own that runs concurrently. Proving
  itself is outside the model. \<open>task_env\<close> collects what the handlers get from outside: the L1 node at
  \<open>latest\<close>, the clock, the highest provable L2 block, the L2 node, the signer, and the packed ABI
  encoding of the extra data.
\<close>

record task_env =
  te_view :: l1_view
  te_now :: "u64 result"
  te_max_provable :: "u64 result"
  te_l2 :: l2_view
  te_send :: sender
  te_pack :: "u256 \<Rightarrow> u32 \<Rightarrow> u8 list"

definition submit :: "sender \<Rightarrow> l1_tx \<Rightarrow> (proposer, receipt) handler" where
  "submit snd_tx tx p =
     (case send_checked snd_tx (p_sent p) tx of (r, sent) \<Rightarrow> (r, p\<lparr> p_sent := sent \<rparr>))"

section \<open>Resolving, claiming, closing\<close>

definition submit_resolution_transaction :: "task_env \<Rightarrow> game \<Rightarrow> (proposer, unit) handler" where
  "submit_resolution_transaction env g =
     seq (submit (te_send env) (Tx_resolve (g_address g))) (\<lambda>_. ret ())"

definition submit_close_game_transaction :: "proposer_config \<Rightarrow> task_env \<Rightarrow> game \<Rightarrow> (proposer, unit) handler" where
  "submit_close_game_transaction cfg env g =
     seq (lift (close_game_transaction (te_view env) (g_address g) (cfg_signer cfg))) (\<lambda>tx.
     seq (submit (te_send env) tx) (\<lambda>_. ret ()))"

definition submit_bond_claim_transaction :: "proposer_config \<Rightarrow> task_env \<Rightarrow> game \<Rightarrow> (proposer, unit) handler" where
  "submit_bond_claim_transaction cfg env g =
     seq (lift (claim_credit_transaction (te_view env) (g_address g) (cfg_signer cfg))) (\<lambda>tx.
     seq (submit (te_send env) tx) (\<lambda>_. ret ()))"

definition owned_games :: "proposer_config \<Rightarrow> (game \<Rightarrow> bool) \<Rightarrow> proposer \<Rightarrow> game list" where
  "owned_games cfg flag p =
     filter flag (filter (\<lambda>g. is_owned g (cfg_identity cfg)) (hm_values (ps_games (p_state p))))"

definition resolve_games :: "proposer_config \<Rightarrow> task_env \<Rightarrow> (proposer, unit) handler" where
  "resolve_games cfg env =
     seq (read_st (owned_games cfg g_should_attempt_to_resolve)) (\<lambda>candidates.
     for_each (\<lambda>g.
       case status_of (te_view env) (g_address g) of
         Inr status \<Rightarrow> if status \<noteq> IN_PROGRESS then ret ()
                       else seq (attempt (submit_resolution_transaction env g)) (\<lambda>_. ret ())
       | Inl _ \<Rightarrow> seq (attempt (submit_resolution_transaction env g)) (\<lambda>_. ret ())) candidates)"

definition claim_bonds :: "proposer_config \<Rightarrow> task_env \<Rightarrow> (proposer, unit) handler" where
  "claim_bonds cfg env =
     seq (read_st (owned_games cfg g_should_attempt_to_claim_bond)) (\<lambda>candidates.
     for_each (\<lambda>g.
       case credit (te_view env) (g_address g) (cfg_signer cfg) of
         Inr amount \<Rightarrow> if amount = 0 then ret ()
                       else seq (attempt (submit_bond_claim_transaction cfg env g)) (\<lambda>_. ret ())
       | Inl _ \<Rightarrow> seq (attempt (submit_bond_claim_transaction cfg env g)) (\<lambda>_. ret ())) candidates)"

definition close_failures :: "proposer \<Rightarrow> address \<Rightarrow> u8" where
  "close_failures p addr = (case hm_get (p_close_game_failures p) addr of None \<Rightarrow> 0 | Some n \<Rightarrow> n)"

definition record_close_failure :: "address \<Rightarrow> proposer \<Rightarrow> proposer" where
  "record_close_failure addr p =
     p\<lparr> p_close_game_failures := hm_insert addr (saturating_add (close_failures p addr) 1) (p_close_game_failures p) \<rparr>"

definition close_one_game :: "proposer_config \<Rightarrow> task_env \<Rightarrow> game \<Rightarrow> (proposer, unit) handler" where
  "close_one_game cfg env g =
     seq (read_st (\<lambda>p. close_failures p (g_address g))) (\<lambda>failure_count.
     if failure_count \<ge> MAX_CLOSE_GAME_FAILURES then ret () else
     seq (attempt (submit_close_game_transaction cfg env g)) (\<lambda>res.
     case res of
       Inl _ \<Rightarrow> write_st (record_close_failure (g_address g))
     | Inr _ \<Rightarrow> write_st (\<lambda>p. p\<lparr> p_close_game_failures := hm_remove (g_address g) (p_close_game_failures p) \<rparr>)))"

definition close_games :: "proposer_config \<Rightarrow> task_env \<Rightarrow> (proposer, unit) handler" where
  "close_games cfg env =
     seq (read_st (owned_games cfg g_should_attempt_to_close_game)) (\<lambda>candidates.
     for_each (close_one_game cfg env) candidates)"

section \<open>Proving tasks\<close>

definition is_proving :: "task_info \<Rightarrow> bool" where
  "is_proving t = (case t of GameProving _ _ \<Rightarrow> True | _ \<Rightarrow> False)"

definition is_defending :: "task_info \<Rightarrow> bool" where
  "is_defending t = (case t of GameProving _ d \<Rightarrow> d | _ \<Rightarrow> False)"

definition count_active_proving_tasks :: "proposer \<Rightarrow> u64" where
  "count_active_proving_tasks p = of_nat (length (filter is_proving (hm_values (p_tasks p))))"

definition count_active_defense_tasks :: "proposer \<Rightarrow> u64" where
  "count_active_defense_tasks p = of_nat (length (filter is_defending (hm_values (p_tasks p))))"

definition has_active_proving_for_game :: "address \<Rightarrow> proposer \<Rightarrow> bool" where
  "has_active_proving_for_game addr p =
     list_ex (\<lambda>t. case t of GameProving a _ \<Rightarrow> a = addr | _ \<Rightarrow> False) (hm_values (p_tasks p))"

text \<open>\<open>std::mem::discriminant\<close>.\<close>

fun same_kind :: "task_info \<Rightarrow> task_info \<Rightarrow> bool" where
  "same_kind (GameCreation _) (GameCreation _) = True"
| "same_kind (GameProving _ _) (GameProving _ _) = True"
| "same_kind GameResolution GameResolution = True"
| "same_kind GameClose GameClose = True"
| "same_kind BondClaim BondClaim = True"
| "same_kind _ _ = False"

definition has_active_task_of_type :: "task_info \<Rightarrow> proposer \<Rightarrow> bool" where
  "has_active_task_of_type t p = list_ex (same_kind t) (hm_values (p_tasks p))"

text \<open>\<open>next_task_id.fetch_add(1)\<close> wraps; inserting the entry is a separate step.\<close>

definition fresh_task_id :: "(proposer, u64) handler" where
  "fresh_task_id p = (Inr (p_next_task_id p), p\<lparr> p_next_task_id := p_next_task_id p + 1 \<rparr>)"

definition insert_task :: "u64 \<Rightarrow> task_info \<Rightarrow> (proposer, unit) handler" where
  "insert_task tid info = write_st (\<lambda>p. p\<lparr> p_tasks := hm_insert tid info (p_tasks p) \<rparr>)"

definition should_skip_proving ::
  "proposer_config \<Rightarrow> task_env \<Rightarrow> address \<Rightarrow> u64 option \<Rightarrow> bool \<Rightarrow> proposer \<Rightarrow> bool result" where
  "should_skip_proving cfg env addr deadline defense p =
     (case List.find (\<lambda>g. g_address g = addr) (hm_values (ps_games (p_state p))) of
        None \<Rightarrow> Inr True
      | Some g \<Rightarrow>
          if \<not> is_owned g (cfg_identity cfg) then Inr True
          else if (case claimData (te_view env) addr of
                     Inr cd \<Rightarrow> cd_status cd \<in> {UnchallengedAndValidProofProvided, ChallengedAndValidProofProvided, Resolved}
                   | Inl _ \<Rightarrow> False) then Inr True
          else (case deadline of
              None \<Rightarrow> Inr False
            | Some d \<Rightarrow>
                try_bind (te_now env) (\<lambda>now.
                try_bind (ok_or ''contract_params must be set via try_init'' (p_contract_params p)) (\<lambda>params.
                let max_duration = (if defense then max_prove_duration params else max_challenge_duration params)
                in Inr (check_deadline_status now d max_duration = Passed)))))"

definition spawn_game_proving_task ::
  "proposer_config \<Rightarrow> task_env \<Rightarrow> address \<Rightarrow> bool \<Rightarrow> u64 option \<Rightarrow> (proposer, bool) handler" where
  "spawn_game_proving_task cfg env addr defense deadline =
     seq (\<lambda>p. (should_skip_proving cfg env addr deadline defense p, p)) (\<lambda>skip.
     if skip then ret False else
     seq fresh_task_id (\<lambda>task_id.
     seq (lift (startingBlockNumber (te_view env) addr)) (\<lambda>starting.
     seq (lift (l2BlockNumber (te_view env) addr)) (\<lambda>l2_block.
     seq (lift (to_u64 starting)) (\<lambda>start_block.
     seq (lift (to_u64 l2_block)) (\<lambda>end_block.
     seq (insert_task task_id (GameProving addr defense)) (\<lambda>_.
     ret True)))))))"

fun defend ::
  "proposer_config \<Rightarrow> task_env \<Rightarrow> (u256 \<times> address \<times> u64) list \<Rightarrow> u64 \<Rightarrow> bool \<Rightarrow> (proposer, bool) handler" where
  "defend cfg env [] active spawned = ret spawned"
| "defend cfg env ((idx, addr, deadline) # cands) active spawned =
     (if active \<ge> cfg_max_concurrent_defense_tasks cfg then ret spawned
      else seq (read_st (has_active_proving_for_game addr)) (\<lambda>busy.
           if busy then defend cfg env cands active spawned
           else seq (spawn_game_proving_task cfg env addr True (Some deadline)) (\<lambda>ok.
                if ok then defend cfg env cands (active + 1) True
                else defend cfg env cands active spawned)))"

definition defense_candidates :: "game_map \<Rightarrow> (u256 \<times> address \<times> u64) list" where
  "defense_candidates gs =
     sort_key (\<lambda>(_, _, deadline). deadline)
       (map (\<lambda>g. (g_index g, g_address g, g_deadline g))
         (filter (\<lambda>g. g_proposal_status g = Challenged) (filter (\<lambda>g. g_status g = IN_PROGRESS) (hm_values gs))))"

definition spawn_game_defense_tasks :: "proposer_config \<Rightarrow> task_env \<Rightarrow> (proposer, bool) handler" where
  "spawn_game_defense_tasks cfg env =
     seq (read_st (\<lambda>p. defense_candidates (ps_games (p_state p)))) (\<lambda>candidates.
     seq (read_st count_active_defense_tasks) (\<lambda>active.
     defend cfg env candidates active False))"

section \<open>Creating games\<close>

definition on_chain_vkeys_match :: "proposer_config \<Rightarrow> l1_view \<Rightarrow> bool result" where
  "on_chain_vkeys_match cfg v =
     try_bind (game_impl v (cfg_game_type cfg)) (\<lambda>impl.
     try_bind (aggregationVkey v impl) (\<lambda>agg.
     try_bind (rangeVkeyCommitment v impl) (\<lambda>range.
     try_bind (rollupConfigHash v impl) (\<lambda>rollup.
     Inr (agg = id_aggregation_vkey (cfg_identity cfg) \<and> range = id_range_vkey_commitment (cfg_identity cfg) \<and>
          rollup = id_rollup_config_hash (cfg_identity cfg))))))"

fun resume_proving ::
  "proposer_config \<Rightarrow> task_env \<Rightarrow> (address \<times> u64) list \<Rightarrow> u64 \<Rightarrow> (proposer, u64) handler" where
  "resume_proving cfg env [] active = ret active"
| "resume_proving cfg env ((addr, deadline) # games) active =
     (if active \<ge> cfg_fast_finality_proving_limit cfg then ret active
      else (case gameCreator (te_view env) addr of
          Inl _ \<Rightarrow> resume_proving cfg env games active
        | Inr creator \<Rightarrow>
            if creator \<noteq> cfg_signer cfg then resume_proving cfg env games active
            else seq (attempt (spawn_game_proving_task cfg env addr False (Some deadline))) (\<lambda>res.
                 resume_proving cfg env games (if res = Inr True then active + 1 else active))))"

definition unproven_games :: "proposer \<Rightarrow> (address \<times> u64) list" where
  "unproven_games p =
     map (\<lambda>g. (g_address g, g_deadline g))
       (filter (\<lambda>g. \<not> has_active_proving_for_game (g_address g) p)
         (filter (\<lambda>g. g_status g = IN_PROGRESS \<and> g_proposal_status g = Unchallenged)
           (hm_values (ps_games (p_state p)))))"

text \<open>The fast-finality prelude: returns whether creation may go on.\<close>

definition fast_finality_gate :: "proposer_config \<Rightarrow> task_env \<Rightarrow> (proposer, bool) handler" where
  "fast_finality_gate cfg env =
     (if \<not> cfg_fast_finality_mode cfg then ret True
      else seq (read_st count_active_proving_tasks) (\<lambda>active.
           seq (if active < cfg_fast_finality_proving_limit cfg
                then seq (read_st unproven_games) (\<lambda>games. resume_proving cfg env games active)
                else ret active) (\<lambda>active.
           ret (active < cfg_fast_finality_proving_limit cfg))))"

definition parent_game_index :: "proposer_state \<Rightarrow> u32 result" where
  "parent_game_index st = (case ps_canonical_head_index st of
       None \<Rightarrow> Inr u32_MAX
     | Some idx \<Rightarrow> if map_option g_index (ps_anchor_game st) = Some idx then Inr u32_MAX else to_u32 idx)"

definition no_creation :: "bool \<times> u256 \<times> u32" where
  "no_creation = (False, 0, u32_MAX)"

definition should_create_game :: "proposer_config \<Rightarrow> task_env \<Rightarrow> (proposer, bool \<times> u256 \<times> u32) handler" where
  "should_create_game cfg env =
     seq (fast_finality_gate cfg env) (\<lambda>go.
     if \<not> go then ret no_creation else
     seq (lift (respectedGameType (te_view env))) (\<lambda>respected.
     if cfg_game_type cfg \<noteq> respected then ret no_creation else
     seq (lift (on_chain_vkeys_match cfg (te_view env))) (\<lambda>keys_match.
     if \<not> keys_match then ret no_creation else
     seq (read_st p_state) (\<lambda>st.
     case ps_canonical_head_l2_block st of
       None \<Rightarrow> ret no_creation
     | Some head_block \<Rightarrow>
         seq (lift (parent_game_index st)) (\<lambda>parent.
         let next_block = head_block + u256_of_u64 (cfg_proposal_interval_in_blocks cfg) in
         seq (read_st (\<lambda>p. guard_l2_block (p_creation_guard p))) (\<lambda>last_created.
         seq (if last_created > 0 then seq (lift (to_u64 next_block)) (\<lambda>n. ret (n \<le> last_created)) else ret False) (\<lambda>guarded.
         if guarded then ret no_creation else
         seq (lift (te_max_provable env)) (\<lambda>max_provable.
         ret (u256_of_u64 max_provable \<ge> next_block, next_block, parent)))))))))"

definition create_game :: "proposer_config \<Rightarrow> task_env \<Rightarrow> b256 \<Rightarrow> u8 list \<Rightarrow> (proposer, address \<times> u64) handler" where
  "create_game cfg env output_root extra_data =
     seq (read_st p_init_bond) (\<lambda>bond.
     seq (lift (ok_or ''init_bond must be set via startup_validations'' bond)) (\<lambda>init_bond.
     seq (submit (te_send env) (Tx_create (cfg_game_type cfg) output_root extra_data init_bond)) (\<lambda>receipt.
     seq (lift (ok_or ''Could not find DisputeGameCreated event in transaction receipt logs'' (rc_created receipt))) (\<lambda>game_address.
     seq (if cfg_fast_finality_mode cfg
          then seq (attempt (spawn_game_proving_task cfg env game_address False None)) (\<lambda>_. ret ()) else ret ()) (\<lambda>_.
     seq (lift (ok_or ''Creation receipt has no L1 block'' (rc_block_number receipt))) (\<lambda>l1_block.
     ret (game_address, l1_block)))))))"

text \<open>
  The search for a free L2 block: the first computation and the \<open>while\<close> loop of
  \<open>handle_game_creation\<close>. It ends because an output root exists only for blocks that fit a \<open>u64\<close>.
\<close>

lemma compute_output_root_fits: "compute_output_root_at_block l2 n = Inr r \<Longrightarrow> unat n < 2 ^ 64"
proof -
  assume "compute_output_root_at_block l2 n = Inr r"
  then obtain m where "checked_l2_block_number n = Inr m"
    unfolding compute_output_root_at_block_def try_bind_eq_Inr by blast
  then have "unat n = unat m" by (simp only: checked_l2_block_number_Inr)
  then show ?thesis using unat_u64_bound [of m] by (simp only:)
qed

lemma unat_add_one_u256: "unat (n :: u256) < 2 ^ 64 \<Longrightarrow> unat (n + 1) = unat n + 1"
  by (subst unat_plus_if') simp

function find_free_block ::
  "proposer_config \<Rightarrow> task_env \<Rightarrow> u32 \<Rightarrow> u256 \<Rightarrow> (u256 \<times> b256 \<times> u8 list) result" where
  "find_free_block cfg env parent n =
     try_bind (compute_output_root_at_block (te_l2 env) n) (\<lambda>output_root.
     try_bind (factory_games (te_view env) (cfg_game_type cfg) output_root (te_pack env n parent)) (\<lambda>existing.
     if existing \<noteq> 0 then find_free_block cfg env parent (n + 1)
     else Inr (n, output_root, te_pack env n parent)))"
  by pat_completeness auto
termination
proof (relation "measure (\<lambda>(_, _, _, n). 2 ^ 64 - unat n)", goal_cases)
  case 1
  then show ?case by simp
next
  case (2 cfg env parent n root addr)
  then have "unat n < 2 ^ 64" by (blast dest: compute_output_root_fits)
  then have "unat (n + 1) = unat n + 1" by (rule unat_add_one_u256)
  with \<open>unat n < 2 ^ 64\<close> show ?case by simp
qed

declare find_free_block.simps [simp del]

definition commit_creation :: "u64 \<Rightarrow> address \<Rightarrow> u64 \<Rightarrow> b256 \<Rightarrow> u8 list \<Rightarrow> proposer \<Rightarrow> proposer" where
  "commit_creation l2_block game_address l1_block output_root extra_data p =
     (let p1 = (if (case sync_block (p_l1_sync p) of Some (number, _) \<Rightarrow> number \<ge> l1_block | None \<Rightarrow> False)
                then p\<lparr> p_state := (p_state p)\<lparr> ps_cursor := cursor_none \<rparr>,
                        p_l1_sync := (p_l1_sync p)\<lparr> sync_complete := False \<rparr> \<rparr>
                else p)
      in p1\<lparr> p_creation_guard := \<lparr> guard_l2_block = l2_block, guard_address = game_address,
              guard_observation = Some \<lparr> gc_observed_l1_block = l1_block, gc_output_root = output_root,
                                         gc_extra_data = extra_data \<rparr> \<rparr> \<rparr>)"

definition handle_game_creation :: "proposer_config \<Rightarrow> task_env \<Rightarrow> u256 \<Rightarrow> u32 \<Rightarrow> (proposer, unit) handler" where
  "handle_game_creation cfg env next_block parent =
     seq (lift (find_free_block cfg env parent next_block)) (\<lambda>(n, output_root, extra_data).
     seq (create_game cfg env output_root extra_data) (\<lambda>(game_address, l1_block).
     seq (lift (to_u64 n)) (\<lambda>l2_block.
     write_st (commit_creation l2_block game_address l1_block output_root extra_data))))"

section \<open>The task table and the main loop\<close>

definition spawn_game_creation_task :: "proposer_config \<Rightarrow> task_env \<Rightarrow> (proposer, bool) handler" where
  "spawn_game_creation_task cfg env =
     seq (should_create_game cfg env) (\<lambda>(should_create, next_block, parent).
     if \<not> should_create then ret False else
     seq fresh_task_id (\<lambda>task_id.
     seq (insert_task task_id (GameCreation next_block)) (\<lambda>_. ret True)))"

definition spawn_simple_task :: "task_info \<Rightarrow> (proposer, unit) handler" where
  "spawn_simple_task info = seq fresh_task_id (\<lambda>task_id. insert_task task_id info)"

definition unless_active :: "task_info \<Rightarrow> (proposer, 'a) handler \<Rightarrow> (proposer, unit) handler" where
  "unless_active t m =
     seq (read_st (has_active_task_of_type t)) (\<lambda>active.
     if active then ret () else seq (attempt m) (\<lambda>_. ret ()))"

definition spawn_pending_operations :: "proposer_config \<Rightarrow> task_env \<Rightarrow> (proposer, unit) handler" where
  "spawn_pending_operations cfg env =
     seq (unless_active (GameCreation 0) (spawn_game_creation_task cfg env)) (\<lambda>_.
     seq (attempt (spawn_game_defense_tasks cfg env)) (\<lambda>_.
     seq (unless_active GameResolution (spawn_simple_task GameResolution)) (\<lambda>_.
     seq (unless_active GameClose (spawn_simple_task GameClose)) (\<lambda>_.
     unless_active BondClaim (spawn_simple_task BondClaim)))))"

definition handle_completed_tasks :: "(u64 \<Rightarrow> bool) \<Rightarrow> (proposer, unit) handler" where
  "handle_completed_tasks finished =
     write_st (\<lambda>p. p\<lparr> p_tasks := fold hm_remove (filter finished (hm_keys (p_tasks p))) (p_tasks p) \<rparr>)"

text \<open>One turn of \<open>run\<close>: nothing is scheduled after a failed sync. Backups are a separate component.\<close>

definition run_turn :: "proposer_config \<Rightarrow> sync_env \<Rightarrow> task_env \<Rightarrow> (u64 \<Rightarrow> bool) \<Rightarrow> (proposer, unit) handler" where
  "run_turn cfg senv env finished =
     seq (attempt (sync_state cfg senv)) (\<lambda>synced.
     case synced of
       Inl _ \<Rightarrow> ret ()
     | Inr _ \<Rightarrow> seq (attempt (handle_completed_tasks finished)) (\<lambda>_.
                seq (attempt (spawn_pending_operations cfg env)) (\<lambda>_. ret ())))"

section \<open>What is sent\<close>

lemma submit_eq:
  "submit f tx p = (try_bind (external (f (p_sent p) tx)) (\<lambda>r. if rc_status r then Inr r else revert_error),
                    p\<lparr> p_sent := p_sent p @ [tx] \<rparr>)"
  by (simp add: submit_def send_checked_def)

lemma calm_submit: "calm (submit f tx)"
  using send_checked_calm by (auto simp: calm_def submit_def split: prod.splits) (metis fst_conv)

lemma calm_submits:
  "calm (submit_resolution_transaction env g)" "calm (submit_close_game_transaction cfg env g)"
  "calm (submit_bond_claim_transaction cfg env g)"
  unfolding submit_resolution_transaction_def submit_close_game_transaction_def submit_bond_claim_transaction_def
  by (intro calm_seq calm_submit calm_ret;
      simp add: calm_def close_game_transaction_calm claim_credit_transaction_calm)+

definition send_all :: "l1_tx list \<Rightarrow> proposer \<Rightarrow> proposer" where
  "send_all txs p = p\<lparr> p_sent := p_sent p @ txs \<rparr>"

lemma send_all_simps [simp]:
  "send_all [] p = p" "send_all ys (send_all xs p) = send_all (xs @ ys) p"
  "p_state (send_all xs p) = p_state p"
  by (simp_all add: send_all_def)

lemma for_each_send:
  assumes "\<And>g p. F g p = (Inr (), send_all (case tx g of None \<Rightarrow> [] | Some t \<Rightarrow> [t]) p)"
  shows "for_each F gs p = (Inr (), send_all (List.map_filter tx gs) p)"
proof (induction gs arbitrary: p)
  case Nil
  then show ?case by (simp add: List.map_filter_simps)
next
  case (Cons g gs)
  then show ?case by (simp add: seq_def assms List.map_filter_simps split: option.splits)
qed

definition resolution_tx :: "task_env \<Rightarrow> game \<Rightarrow> l1_tx option" where
  "resolution_tx env g = (case status_of (te_view env) (g_address g) of
       Inr IN_PROGRESS \<Rightarrow> Some (Tx_resolve (g_address g))
     | Inr _ \<Rightarrow> None
     | Inl _ \<Rightarrow> Some (Tx_resolve (g_address g)))"

definition claim_tx :: "proposer_config \<Rightarrow> task_env \<Rightarrow> game \<Rightarrow> l1_tx option" where
  "claim_tx cfg env g =
     (if credit (te_view env) (g_address g) (cfg_signer cfg) = Inr 0 then None
      else case estimateClaimCredit (te_view env) (g_address g) (cfg_signer cfg) of
             Inl _ \<Rightarrow> None
           | Inr gas \<Rightarrow> Some (Tx_claimCredit (g_address g) (cfg_signer cfg) gas))"

lemma submit_resolution_state:
  "snd (submit_resolution_transaction env g p) = send_all [Tx_resolve (g_address g)] p"
  by (simp add: submit_resolution_transaction_def snd_seq_ret submit_eq send_all_def)

lemma submit_bond_claim_state:
  "snd (submit_bond_claim_transaction cfg env g p) = send_all
     (case estimateClaimCredit (te_view env) (g_address g) (cfg_signer cfg) of
        Inl _ \<Rightarrow> [] | Inr gas \<Rightarrow> [Tx_claimCredit (g_address g) (cfg_signer cfg) gas]) p"
  by (auto simp: submit_bond_claim_transaction_def claim_credit_transaction_def with_context_def snd_seq_ret
      submit_eq send_all_def split: sum.splits err.splits)

lemma resolve_games_eq:
  "resolve_games cfg env p =
     (Inr (), send_all (List.map_filter (resolution_tx env) (owned_games cfg g_should_attempt_to_resolve p)) p)"
  unfolding resolve_games_def seq_simps
  by (rule for_each_send)
     (auto simp: resolution_tx_def attempt_seq_ret calm_submits submit_resolution_state split: sum.splits game_status.splits)

lemma claim_bonds_eq:
  "claim_bonds cfg env p =
     (Inr (), send_all (List.map_filter (claim_tx cfg env) (owned_games cfg g_should_attempt_to_claim_bond p)) p)"
  unfolding claim_bonds_def seq_simps
  by (rule for_each_send) (auto simp: claim_tx_def attempt_seq_ret calm_submits submit_bond_claim_state split: sum.splits)

section \<open>Closing\<close>

definition close_attempt :: "proposer_config \<Rightarrow> task_env \<Rightarrow> game \<Rightarrow> proposer \<Rightarrow> bool \<times> proposer" where
  "close_attempt cfg env g p =
     (case estimateCloseGame (te_view env) (g_address g) (cfg_signer cfg) of
        Inl _ \<Rightarrow> (False, p)
      | Inr gas \<Rightarrow>
          let tx = Tx_closeGame (g_address g) (cfg_signer cfg) gas
          in (case te_send env (p_sent p) tx of Inl _ \<Rightarrow> False | Inr r \<Rightarrow> rc_status r, send_all [tx] p))"

lemma submit_close_attempt:
  "submit_close_game_transaction cfg env g p = (r, p') \<Longrightarrow>
   close_attempt cfg env g p = ((\<exists>u. r = Inr u), p')"
  by (auto simp: submit_close_game_transaction_def close_game_transaction_def close_attempt_def with_context_def
      seq_def submit_eq send_all_def revert_error_def Let_def try_bind_def external_def split: sum.splits err.splits if_splits)

lemma close_one_game_eq:
  "close_one_game cfg env g p =
     (if close_failures p (g_address g) \<ge> MAX_CLOSE_GAME_FAILURES then (Inr (), p)
      else case close_attempt cfg env g p of
             (True, p1) \<Rightarrow> (Inr (), p1\<lparr> p_close_game_failures := hm_remove (g_address g) (p_close_game_failures p1) \<rparr>)
           | (False, p1) \<Rightarrow> (Inr (), record_close_failure (g_address g) p1))"
proof -
  obtain r p' where run: "submit_close_game_transaction cfg env g p = (r, p')" by fastforce
  show ?thesis
    using submit_close_attempt [OF run]
    by (cases r) (auto simp: close_one_game_def attempt_calm [OF calm_submits(2)] seq_def run)
qed

lemma close_failures_send_all [simp]: "close_failures (send_all txs p) a = close_failures p a"
  by (simp add: close_failures_def send_all_def)

lemma close_attempt_failures: "close_failures (snd (close_attempt cfg env g p)) a = close_failures p a"
  by (simp add: close_attempt_def Let_def split: sum.splits)

lemma close_failures_record:
  "close_failures (record_close_failure a p) b = (if b = a then saturating_add (close_failures p a) 1 else close_failures p b)"
  by (simp add: record_close_failure_def close_failures_def)

section \<open>The task table\<close>

definition task_count :: "(task_info \<Rightarrow> bool) \<Rightarrow> proposer \<Rightarrow> nat" where
  "task_count P p = length (filter P (hm_values (p_tasks p)))"

definition proving_addresses :: "proposer \<Rightarrow> address list" where
  "proving_addresses p =
     List.map_filter (\<lambda>t. case t of GameProving a _ \<Rightarrow> Some a | _ \<Rightarrow> None) (hm_values (p_tasks p))"

text \<open>Task ids are handed out in order; \<open>room\<close> ids are left before the counter wraps.\<close>

definition tasks_ok :: "nat \<Rightarrow> proposer \<Rightarrow> bool" where
  "tasks_ok room p \<longleftrightarrow> hm_wf (p_tasks p) \<and> (\<forall>tid \<in> set (hm_keys (p_tasks p)). tid < p_next_task_id p) \<and>
     unat (p_next_task_id p) + room < 2 ^ 64"

lemma has_active_proving_iff: "has_active_proving_for_game a p \<longleftrightarrow> a \<in> set (proving_addresses p)"
  by (auto simp: has_active_proving_for_game_def proving_addresses_def list_ex_iff set_map_filter_option
      split: task_info.splits)

lemma tasks_ok_fresh: "tasks_ok room p \<Longrightarrow> p_next_task_id p \<notin> set (hm_keys (p_tasks p))"
  by (auto simp: tasks_ok_def)

lemma tasks_ok_count:
  assumes "tasks_ok room p"
  shows "task_count P p < 2 ^ 64"
proof -
  have "unat ` set (hm_keys (p_tasks p)) \<subseteq> {..< unat (p_next_task_id p)}"
    using assms by (auto simp: tasks_ok_def word_less_nat_alt)
  then have "card (unat ` set (hm_keys (p_tasks p))) \<le> unat (p_next_task_id p)"
    using card_mono [of "{..< unat (p_next_task_id p)}"] by simp
  moreover have "card (unat ` set (hm_keys (p_tasks p))) = length (p_tasks p)"
  proof -
    have "inj_on unat (set (hm_keys (p_tasks p)))" by (rule inj_onI) (simp add: word_unat_eq_iff)
    then have "card (unat ` set (hm_keys (p_tasks p))) = card (set (hm_keys (p_tasks p)))" by (rule card_image)
    also have "\<dots> = length (hm_keys (p_tasks p))"
      using assms by (intro distinct_card) (simp add: tasks_ok_def hm_wf_def)
    finally show ?thesis by simp
  qed
  ultimately have "length (p_tasks p) \<le> unat (p_next_task_id p)" by simp
  moreover have "task_count P p \<le> length (p_tasks p)"
    using length_filter_le [of P "hm_values (p_tasks p)"] by (simp add: task_count_def)
  ultimately show ?thesis using unat_u64_bound [of "p_next_task_id p"] by linarith
qed

lemma count_active_defense_unat:
  "tasks_ok room p \<Longrightarrow> unat (count_active_defense_tasks p) = task_count is_defending p"
  using tasks_ok_count [of room p is_defending]
  by (simp add: count_active_defense_tasks_def task_count_def unsigned_of_nat take_bit_nat_eq_self_iff)

text \<open>The effect of spawning a proving task, on each outcome.\<close>

definition spawned :: "task_info \<Rightarrow> proposer \<Rightarrow> proposer" where
  "spawned t p = p\<lparr> p_next_task_id := p_next_task_id p + 1, p_tasks := hm_insert (p_next_task_id p) t (p_tasks p) \<rparr>"

lemma spawn_game_proving_task_cases:
  assumes "spawn_game_proving_task cfg env a d dl p = (r, p')"
  shows "(r = Inr True \<and> should_skip_proving cfg env a dl d p = Inr False \<and> p' = spawned (GameProving a d) p) \<or>
     (r = Inr False \<and> p' = p) \<or>
     (\<exists>e. r = Inl e) \<and> (p' = p \<or> p' = p\<lparr> p_next_task_id := p_next_task_id p + 1 \<rparr>)"
proof (cases "should_skip_proving cfg env a dl d p")
  case (Inl e)
  with assms have "r = Inl e \<and> p' = p" by (simp add: spawn_game_proving_task_def seq_def)
  then show ?thesis by blast
next
  case (Inr skip)
  with assms show ?thesis
    by (cases skip)
       (auto simp: spawn_game_proving_task_def seq_def fresh_task_id_def insert_task_def spawned_def split: sum.splits)
qed

lemma tasks_ok_spawned:
  assumes "tasks_ok (Suc room) p"
  shows "tasks_ok room (spawned t p) \<and> hm_values (p_tasks (spawned t p)) = hm_values (p_tasks p) @ [t]"
proof -
  have lt: "unat (p_next_task_id p) + 1 < 2 ^ 64" using assms by (simp add: tasks_ok_def)
  then have next_id: "unat (p_next_task_id p + 1) = unat (p_next_task_id p) + 1"
    by (subst unat_plus_if') simp
  have fresh: "hm_insert (p_next_task_id p) t (p_tasks p) = p_tasks p @ [(p_next_task_id p, t)]"
    by (rule hm_insert_fresh [OF tasks_ok_fresh [OF assms]])
  have wf: "hm_wf (hm_insert (p_next_task_id p) t (p_tasks p))"
    using assms by (intro wf_intros) (simp add: tasks_ok_def)
  show ?thesis
    using assms next_id wf fresh by (auto simp: tasks_ok_def spawned_def word_less_nat_alt)
qed

lemma tasks_ok_skip_id: "tasks_ok (Suc room) p \<Longrightarrow> tasks_ok room (p\<lparr> p_next_task_id := p_next_task_id p + 1 \<rparr>)"
proof -
  assume ok: "tasks_ok (Suc room) p"
  then have "unat (p_next_task_id p + 1) = unat (p_next_task_id p) + 1"
    by (subst unat_plus_if') (simp add: tasks_ok_def)
  with ok show ?thesis by (auto simp: tasks_ok_def word_less_nat_alt)
qed

lemma tasks_ok_mono: "tasks_ok room p \<Longrightarrow> room' \<le> room \<Longrightarrow> tasks_ok room' p"
  by (simp add: tasks_ok_def)

lemma proving_addresses_spawned:
  "tasks_ok (Suc room) p \<Longrightarrow> proving_addresses (spawned (GameProving a d) p) = proving_addresses p @ [a]"
  using tasks_ok_spawned [of room p "GameProving a d"]
  by (simp add: proving_addresses_def List.map_filter_def)

lemma defending_spawned:
  "tasks_ok (Suc room) p \<Longrightarrow> task_count is_defending (spawned (GameProving a True) p) = Suc (task_count is_defending p)"
  using tasks_ok_spawned [of room p "GameProving a True"]
  by (simp add: task_count_def is_defending_def)

lemma should_skip_proving_no:
  assumes "should_skip_proving cfg env a (Some d) defense p = Inr False"
  shows "(\<exists>g \<in> set (hm_values (ps_games (p_state p))). g_address g = a \<and> is_owned g (cfg_identity cfg)) \<and>
    (\<forall>cd. claimData (te_view env) a = Inr cd \<longrightarrow>
       cd_status cd \<notin> {UnchallengedAndValidProofProvided, ChallengedAndValidProofProvided, Resolved}) \<and>
    (\<exists>now. te_now env = Inr now \<and> now < d)"
proof -
  from assms obtain g where find: "List.find (\<lambda>g. g_address g = a) (hm_values (ps_games (p_state p))) = Some g"
    by (auto simp: should_skip_proving_def split: option.splits)
  from find_SomeD [OF this] have g: "g \<in> set (hm_values (ps_games (p_state p)))" "g_address g = a"
    by simp_all
  have owned: "is_owned g (cfg_identity cfg)"
    and cd: "\<not> (case claimData (te_view env) a of
                     Inr cd \<Rightarrow> cd_status cd \<in> {UnchallengedAndValidProofProvided, ChallengedAndValidProofProvided, Resolved}
                   | Inl _ \<Rightarrow> False)"
    and now: "\<exists>now. te_now env = Inr now \<and> now < d"
    using assms unfolding should_skip_proving_def find
    by (auto simp: try_bind_eq_Inr check_deadline_status_def Let_def split: if_splits)
  from g owned cd now show ?thesis by (auto split: sum.splits)
qed

text \<open>What defending promises, for one list of candidates.\<close>

definition defended :: "proposer_config \<Rightarrow> task_env \<Rightarrow> (u256 \<times> address \<times> u64) list \<Rightarrow> proposer \<Rightarrow> proposer \<Rightarrow> bool" where
  "defended cfg env cands p p' \<longleftrightarrow>
     task_count is_defending p' \<le> max (task_count is_defending p) (unat (cfg_max_concurrent_defense_tasks cfg)) \<and>
     (distinct (proving_addresses p) \<longrightarrow> distinct (proving_addresses p')) \<and>
     p_state p' = p_state p \<and>
     (\<forall>t \<in> set (hm_values (p_tasks p')) - set (hm_values (p_tasks p)). \<exists>idx a dl. t = GameProving a True \<and>
        (idx, a, dl) \<in> set cands \<and> should_skip_proving cfg env a (Some dl) True p = Inr False)"

lemma should_skip_proving_frame:
  "p_state q = p_state p \<Longrightarrow> p_contract_params q = p_contract_params p \<Longrightarrow>
   should_skip_proving cfg env a dl d q = should_skip_proving cfg env a dl d p"
  unfolding should_skip_proving_def by (simp only:)

lemma defended_refl: "defended cfg env cands p p"
  by (simp add: defended_def)

lemma defended_spawn:
  assumes ok: "tasks_ok (Suc room) p" and free: "\<not> has_active_proving_for_game a p"
    and skip: "should_skip_proving cfg env a (Some dl) True p = Inr False"
    and lt: "task_count is_defending p < unat (cfg_max_concurrent_defense_tasks cfg)"
    and rest: "defended cfg env cands (spawned (GameProving a True) p) p'"
  shows "defended cfg env ((idx, a, dl) # cands) p p'"
proof -
  have frame: "should_skip_proving cfg env b dl' True (spawned t p) = should_skip_proving cfg env b dl' True p" for b dl' t
    by (rule should_skip_proving_frame) (simp_all add: spawned_def)
  have vals: "set (hm_values (p_tasks (spawned (GameProving a True) p))) = insert (GameProving a True) (set (hm_values (p_tasks p)))"
    using tasks_ok_spawned [OF ok, of "GameProving a True"] by (metis Un_insert_right list.set(1,2) set_append sup_bot_right)
  have count: "task_count is_defending p' \<le> max (task_count is_defending p) (unat (cfg_max_concurrent_defense_tasks cfg))"
    using rest lt by (simp add: defended_def defending_spawned [OF ok])
  have dist: "distinct (proving_addresses p) \<longrightarrow> distinct (proving_addresses p')"
    using rest free by (simp add: defended_def proving_addresses_spawned [OF ok] has_active_proving_iff)
  have state: "p_state p' = p_state p" using rest by (simp add: defended_def spawned_def)
  have "\<exists>idx' b dl'. t = GameProving b True \<and> (idx', b, dl') \<in> set ((idx, a, dl) # cands) \<and>
          should_skip_proving cfg env b (Some dl') True p = Inr False"
    if t: "t \<in> set (hm_values (p_tasks p'))" "t \<notin> set (hm_values (p_tasks p))" for t
  proof (cases "t = GameProving a True")
    case True
    with skip show ?thesis by auto
  next
    case False
    with t rest vals obtain idx' b dl' where "t = GameProving b True" "(idx', b, dl') \<in> set cands"
      "should_skip_proving cfg env b (Some dl') True (spawned (GameProving a True) p) = Inr False"
      unfolding defended_def by blast
    with frame show ?thesis by auto
  qed
  with count dist state show ?thesis by (simp add: defended_def)
qed

lemma defended_weaken: "defended cfg env cands p p' \<Longrightarrow> defended cfg env (c # cands) p p'"
  unfolding defended_def list.set(2) by blast

lemma defend_defended:
  assumes "defend cfg env cands active sp p = (r, p')" and "tasks_ok (length cands) p"
    and "unat active = task_count is_defending p"
  shows "defended cfg env cands p p'"
  using assms
proof (induction cands arbitrary: active sp p)
  case Nil
  then show ?case by (simp add: defended_refl)
next
  case (Cons c cands)
  obtain idx a dl where c: "c = (idx, a, dl)" by (cases c)
  have ok: "tasks_ok (Suc (length cands)) p" using Cons.prems(2) by simp
  show ?case
  proof (cases "active \<ge> cfg_max_concurrent_defense_tasks cfg")
    case True
    with Cons.prems(1) c show ?thesis by (simp add: defended_refl)
  next
    case False
    then have lt: "task_count is_defending p < unat (cfg_max_concurrent_defense_tasks cfg)"
      using Cons.prems(3) by (simp add: word_le_nat_alt)
    show ?thesis
    proof (cases "has_active_proving_for_game a p")
      case True
      with False Cons.prems(1) c have "defend cfg env cands active sp p = (r, p')" by simp
      from Cons.IH [OF this tasks_ok_mono [OF ok] Cons.prems(3)] show ?thesis by (simp add: defended_weaken)
    next
      case free: False
      obtain r1 p1 where sp: "spawn_game_proving_task cfg env a True (Some dl) p = (r1, p1)" by fastforce
      from spawn_game_proving_task_cases [OF sp] consider
        (spawned) "r1 = Inr True" "should_skip_proving cfg env a (Some dl) True p = Inr False" "p1 = spawned (GameProving a True) p"
        | (skipped) "r1 = Inr False" "p1 = p"
        | (failed) e where "r1 = Inl e" "p1 = p \<or> p1 = p\<lparr> p_next_task_id := p_next_task_id p + 1 \<rparr>" by blast
      then show ?thesis
      proof cases
        case spawned
        have "unat (active + 1) = task_count is_defending p1"
        proof -
          have "unat active + 1 < 2 ^ 64"
            using lt Cons.prems(3) unat_u64_bound [of "cfg_max_concurrent_defense_tasks cfg"] by linarith
          then have "unat (active + 1) = unat active + 1" by (subst unat_plus_if') simp
          then show ?thesis using Cons.prems(3) by (simp add: spawned defending_spawned [OF ok])
        qed
        moreover have "defend cfg env cands (active + 1) True p1 = (r, p')"
          using Cons.prems(1) False free sp spawned c by (simp add: seq_def)
        moreover have "tasks_ok (length cands) p1" using tasks_ok_spawned [OF ok] by (simp add: spawned)
        ultimately have "defended cfg env cands p1 p'" using Cons.IH by blast
        with defended_spawn [OF ok free spawned(2) lt] show ?thesis by (simp add: spawned c)
      next
        case skipped
        have "defend cfg env cands active sp p = (r, p')"
          using Cons.prems(1) False free sp skipped c by (simp add: seq_def)
        from Cons.IH [OF this tasks_ok_mono [OF ok] Cons.prems(3)] show ?thesis by (simp add: defended_weaken)
      next
        case failed
        then have "p' = p1" using Cons.prems(1) False free sp c by (simp add: seq_def)
        with failed(2) show ?thesis
          by (auto simp: defended_def task_count_def proving_addresses_def)
      qed
    qed
  qed
qed

section \<open>Creation\<close>

lemma find_free_block_sound:
  "find_free_block cfg env parent n = Inr (m, root, extra) \<Longrightarrow>
   unat n \<le> unat m \<and> unat m < 2 ^ 64 \<and> extra = te_pack env m parent \<and>
   compute_output_root_at_block (te_l2 env) m = Inr root \<and>
   factory_games (te_view env) (cfg_game_type cfg) root extra = Inr 0 \<and>
   (\<forall>k. unat n \<le> unat k \<and> unat k < unat m \<longrightarrow>
      (\<exists>r a. compute_output_root_at_block (te_l2 env) k = Inr r \<and>
             factory_games (te_view env) (cfg_game_type cfg) r (te_pack env k parent) = Inr a \<and> a \<noteq> 0))"
proof (induction cfg env parent n rule: find_free_block.induct)
  case (1 cfg env parent n)
  from "1.prems" obtain r a where
    r: "compute_output_root_at_block (te_l2 env) n = Inr r"
    and a: "factory_games (te_view env) (cfg_game_type cfg) r (te_pack env n parent) = Inr a"
    and rest: "(if a \<noteq> 0 then find_free_block cfg env parent (n + 1) else Inr (n, r, te_pack env n parent)) = Inr (m, root, extra)"
    by (subst (asm) find_free_block.simps) (auto simp: try_bind_eq_Inr)
  have fits: "unat n < 2 ^ 64" by (rule compute_output_root_fits [OF r])
  show ?case
  proof (cases "a = 0")
    case True
    with rest r a fits show ?thesis by auto
  next
    case False
    then have free: "find_free_block cfg env parent (n + 1) = Inr (m, root, extra)" using rest by simp
    have suc: "unat (n + 1) = unat n + 1" by (rule unat_add_one_u256 [OF fits])
    have IH: "unat (n + 1) \<le> unat m \<and> unat m < 2 ^ 64 \<and> extra = te_pack env m parent \<and>
       compute_output_root_at_block (te_l2 env) m = Inr root \<and>
       factory_games (te_view env) (cfg_game_type cfg) root extra = Inr 0 \<and>
       (\<forall>k. unat (n + 1) \<le> unat k \<and> unat k < unat m \<longrightarrow>
          (\<exists>r a. compute_output_root_at_block (te_l2 env) k = Inr r \<and>
                 factory_games (te_view env) (cfg_game_type cfg) r (te_pack env k parent) = Inr a \<and> a \<noteq> 0))"
      by (rule "1.IH" [OF r a False free])
    have "\<exists>r a. compute_output_root_at_block (te_l2 env) k = Inr r \<and>
             factory_games (te_view env) (cfg_game_type cfg) r (te_pack env k parent) = Inr a \<and> a \<noteq> 0"
      if "unat n \<le> unat k" "unat k < unat m" for k
    proof (cases "k = n")
      case True
      with r a False show ?thesis by blast
    next
      case False
      then have "unat n \<noteq> unat k" by (metis word_unat_eq_iff)
      with that suc IH show ?thesis by simp
    qed
    with IH suc show ?thesis by (intro conjI) auto
  qed
qed

lemma commit_creation_guard: "guard_l2_block (p_creation_guard (commit_creation b a l r x p)) = b"
  by (simp add: commit_creation_def Let_def)

text \<open>What a positive decision rests on.\<close>

definition creation_ok :: "proposer_config \<Rightarrow> task_env \<Rightarrow> proposer \<Rightarrow> u256 \<Rightarrow> u32 \<Rightarrow> bool" where
  "creation_ok cfg env p n parent \<longleftrightarrow>
     respectedGameType (te_view env) = Inr (cfg_game_type cfg) \<and>
     on_chain_vkeys_match cfg (te_view env) = Inr True \<and>
     map_option (\<lambda>b. b + u256_of_u64 (cfg_proposal_interval_in_blocks cfg)) (ps_canonical_head_l2_block (p_state p)) = Some n \<and>
     parent_game_index (p_state p) = Inr parent \<and>
     (guard_l2_block (p_creation_guard p) = 0 \<or> unat (guard_l2_block (p_creation_guard p)) < unat n) \<and>
     (case te_max_provable env of Inr m \<Rightarrow> unat n \<le> unat m | Inl _ \<Rightarrow> False)"

definition same_but_tasks :: "proposer \<Rightarrow> proposer \<Rightarrow> bool" where
  "same_but_tasks p q \<longleftrightarrow> p_state q = p_state p \<and> p_creation_guard q = p_creation_guard p \<and>
     p_l1_sync q = p_l1_sync p \<and> p_sent q = p_sent p \<and> p_close_game_failures q = p_close_game_failures p"

lemma same_but_tasks_refl: "same_but_tasks p p"
  by (simp add: same_but_tasks_def)

lemma keeps_same_but_tasks_proving: "keeps (same_but_tasks p) (spawn_game_proving_task cfg env a d dl)"
  unfolding keeps_def
proof (intro allI impI)
  fix q assume "same_but_tasks p q"
  moreover obtain r q' where "spawn_game_proving_task cfg env a d dl q = (r, q')" by fastforce
  ultimately show "same_but_tasks p (snd (spawn_game_proving_task cfg env a d dl q))"
    using spawn_game_proving_task_cases [of cfg env a d dl q r q']
    by (auto simp: same_but_tasks_def spawned_def)
qed

lemma keeps_resume_proving:
  "(\<And>a dl. keeps I (spawn_game_proving_task cfg env a False dl)) \<Longrightarrow> keeps I (resume_proving cfg env gs n)"
  by (induction gs arbitrary: n) (auto intro!: keeps_intros split: sum.split)

lemma keeps_fast_finality_gate:
  "(\<And>a dl. keeps I (spawn_game_proving_task cfg env a False dl)) \<Longrightarrow> keeps I (fast_finality_gate cfg env)"
  unfolding fast_finality_gate_def by (intro keeps_intros keeps_resume_proving) auto

lemma u256_le_u64: "u256_of_u64 m \<ge> n \<longleftrightarrow> unat n \<le> unat m"
  by (simp add: word_le_nat_alt)

lemma should_create_game_ok:
  assumes "should_create_game cfg env p = (Inr (True, n, parent), p')"
  shows "creation_ok cfg env p n parent"
proof -
  from assms obtain q where gate: "fast_finality_gate cfg env p = (Inr True, q)"
    by (auto simp: should_create_game_def no_creation_def seq_eq_Inr split: if_splits)
  have same: "same_but_tasks p q"
    by (rule keepsD [OF keeps_fast_finality_gate [OF keeps_same_but_tasks_proving] same_but_tasks_refl gate])
  then have st: "p_state q = p_state p" and guard: "p_creation_guard q = p_creation_guard p"
    by (simp_all add: same_but_tasks_def)
  show ?thesis
    using assms unfolding should_create_game_def seq_def [of "fast_finality_gate cfg env"] gate prod.case sum.case
    by (auto simp: creation_ok_def no_creation_def st guard Let_def to_u64_eq_Inr unat_ucast_u64 u256_le_u64
        word_le_nat_alt word_less_nat_alt unat_eq_0 seq_eq_Inr split: sum.splits option.splits if_splits)
qed

text \<open>A creation between \<open>p\<close> and \<open>p'\<close> for block \<open>m\<close>: the one transaction sent carries its output root and its
  packed number.\<close>

definition created_at :: "proposer_config \<Rightarrow> task_env \<Rightarrow> u32 \<Rightarrow> u256 \<Rightarrow> proposer \<Rightarrow> proposer \<Rightarrow> bool" where
  "created_at cfg env parent m p p' \<longleftrightarrow> (\<exists>root bond.
     compute_output_root_at_block (te_l2 env) m = Inr root \<and>
     p_sent p' = p_sent p @ [Tx_create (cfg_game_type cfg) root (te_pack env m parent) bond])"

lemma commit_creation_sent [simp]: "p_sent (commit_creation b a l r x p) = p_sent p"
  by (auto simp: commit_creation_def Let_def split: option.splits)

lemma create_game_sent:
  assumes "create_game cfg env root extra p = (Inr x, p')"
  shows "\<exists>bond. p_sent p' = p_sent p @ [Tx_create (cfg_game_type cfg) root extra bond]"
proof -
  from assms obtain bond q r1 where sub: "submit (te_send env) (Tx_create (cfg_game_type cfg) root extra bond) p = (Inr r1, q)"
    and rest: "q = p' \<or> (\<exists>a u. attempt (spawn_game_proving_task cfg env a False None) q = (Inr u, p'))"
    unfolding create_game_def by (auto simp: seq_eq_Inr simp del: seq_simps split: if_splits) blast
  have keeps: "keeps (same_but_tasks q) (attempt (spawn_game_proving_task cfg env a False None))" for a
    by (intro keeps_intros keeps_same_but_tasks_proving)
  from rest have "same_but_tasks q p'"
    by (elim disjE exE) (simp add: same_but_tasks_refl, rule keepsD [OF keeps same_but_tasks_refl])
  then have "p_sent p' = p_sent q" by (simp add: same_but_tasks_def)
  with sub show ?thesis by (auto simp: submit_eq)
qed

lemma handle_game_creation_created:
  assumes "handle_game_creation cfg env n parent p = (Inr (), p')"
  obtains m where "n \<le> m" "fits_u64 m" "created_at cfg env parent m p p'"
    "guard_l2_block (p_creation_guard p') = ucast m"
proof -
  from assms obtain m root extra x addr l1 q where
    find: "find_free_block cfg env parent n = Inr (m, root, extra)" and fits: "fits_u64 m"
    and create: "create_game cfg env root extra p = (Inr x, q)"
    and p': "p' = commit_creation (ucast m) addr l1 root extra q"
    unfolding handle_game_creation_def
    by (auto simp: seq_eq_Inr to_u64_eq_Inr simp del: seq_simps split: prod.splits)
  from find_free_block_sound [OF find] create_game_sent [OF create] fits that [of m] show thesis
    by (auto simp: created_at_def p' commit_creation_guard word_le_nat_alt)
qed

section \<open>The proposer as a system of steps\<close>

text \<open>
  A turn of the main loop and the bodies of the running tasks interleave; each may fail at any point
  and then keeps what it had written.
\<close>

inductive proposer_step :: "proposer_config \<Rightarrow> proposer \<Rightarrow> proposer \<Rightarrow> bool" for cfg where
  turn: "proposer_step cfg p (snd (run_turn cfg senv env finished p))"
| creating: "GameCreation n \<in> set (hm_values (p_tasks p)) \<Longrightarrow>
    proposer_step cfg p (snd (handle_game_creation cfg env n parent p))"
| resolving: "GameResolution \<in> set (hm_values (p_tasks p)) \<Longrightarrow> proposer_step cfg p (snd (resolve_games cfg env p))"
| closing: "GameClose \<in> set (hm_values (p_tasks p)) \<Longrightarrow> proposer_step cfg p (snd (close_games cfg env p))"
| claiming: "BondClaim \<in> set (hm_values (p_tasks p)) \<Longrightarrow> proposer_step cfg p (snd (claim_bonds cfg env p))"

inductive_cases proposer_stepE: "proposer_step cfg p q"

definition single_kinds :: "task_info list" where
  "single_kinds = [GameCreation 0, GameResolution, GameClose, BondClaim]"

definition proposer_inv :: "proposer \<Rightarrow> bool" where
  "proposer_inv p \<longleftrightarrow> p_wf p \<and> list_all (\<lambda>k. task_count (same_kind k) p \<le> 1) single_kinds"

definition proposer_start :: "proposer \<Rightarrow> bool" where
  "proposer_start p \<longleftrightarrow> p_wf p \<and> p_tasks p = []"

lemma task_count_insert:
  "task_count P (p\<lparr> p_tasks := hm_insert tid t (p_tasks p) \<rparr>) \<le> task_count P p + (if P t then 1 else 0)"
  using hm_insert_count [of P tid t "p_tasks p"] by (simp add: task_count_def)

lemma task_count_remove: "task_count P (p\<lparr> p_tasks := fold hm_remove ks (p_tasks p) \<rparr>) \<le> task_count P p"
  using hm_remove_all_count [of P ks "p_tasks p"] by (simp add: task_count_def)

lemma task_count_frame [simp]: "task_count P (p\<lparr> p_next_task_id := n \<rparr>) = task_count P p"
  by (simp add: task_count_def)

abbreviation count_le :: "task_info \<Rightarrow> nat \<Rightarrow> proposer \<Rightarrow> bool" where
  "count_le k n p \<equiv> task_count (same_kind k) p \<le> n"

lemma keeps_count_insert:
  assumes "\<not> same_kind k t"
  shows "keeps (count_le k n) (insert_task tid t)"
  unfolding insert_task_def
proof (rule keeps_write)
  fix p assume "count_le k n p"
  with task_count_insert [of "same_kind k" tid t p] assms
  show "count_le k n (p\<lparr> p_tasks := hm_insert tid t (p_tasks p) \<rparr>)" by simp
qed

lemma keeps_fresh_task_id: "(\<And>p n. I p \<Longrightarrow> I (p\<lparr> p_next_task_id := n \<rparr>)) \<Longrightarrow> keeps I fresh_task_id"
  by (simp add: keeps_def fresh_task_id_def)

lemma not_same_kind_proving: "k \<in> set single_kinds \<Longrightarrow> \<not> same_kind k (GameProving a d)"
  by (auto simp: single_kinds_def)

lemma keeps_count_proving: "k \<in> set single_kinds \<Longrightarrow> keeps (count_le k n) (spawn_game_proving_task cfg env a d dl)"
  unfolding spawn_game_proving_task_def
  by (intro keeps_intros keeps_fresh_task_id keeps_count_insert not_same_kind_proving) (simp_all add: keeps_def)

lemma keeps_count_defend: "k \<in> set single_kinds \<Longrightarrow> keeps (count_le k n) (defend cfg env cs active sp)"
  by (induction cs arbitrary: active sp) (auto intro!: keeps_intros keeps_count_proving)

lemma keeps_count_should_create: "k \<in> set single_kinds \<Longrightarrow> keeps (count_le k n) (should_create_game cfg env)"
  unfolding should_create_game_def Let_def
  by (intro keeps_intros keeps_fast_finality_gate keeps_count_proving)

text \<open>Spawning under the guard of \<open>has_active_task_of_type\<close>: none before, hence at most one after.\<close>

lemma count_zero_iff: "\<not> has_active_task_of_type k p \<longleftrightarrow> task_count (same_kind k) p = 0"
  by (simp add: has_active_task_of_type_def task_count_def list_ex_iff filter_empty_conv)

lemma keeps_unless_active:
  assumes "\<And>p. I p \<Longrightarrow> \<not> has_active_task_of_type t p \<Longrightarrow> I (snd (m p))"
  shows "keeps I (unless_active t m)"
  using assms by (auto simp: keeps_def unless_active_def snd_attempt_seq_ret)

lemma spawn_simple_count:
  "task_count P (snd (spawn_simple_task t p)) \<le> task_count P p + (if P t then 1 else 0)"
  using task_count_insert [of P "p_next_task_id p" t "p\<lparr> p_next_task_id := p_next_task_id p + 1 \<rparr>"]
  by (simp add: spawn_simple_task_def seq_def fresh_task_id_def insert_task_def)

lemma keeps_spawn_simple:
  assumes "k \<in> set single_kinds" and "t \<in> set single_kinds"
  shows "keeps (count_le k 1) (unless_active t (spawn_simple_task t))"
proof (rule keeps_unless_active)
  fix p assume le: "count_le k 1 p" and "\<not> has_active_task_of_type t p"
  then have "task_count (same_kind t) p = 0" by (simp add: count_zero_iff)
  then have "same_kind k t \<Longrightarrow> task_count (same_kind k) p = 0"
    using assms by (cases "k = t") (auto simp: single_kinds_def)
  with le spawn_simple_count [of "same_kind k" t p] show "count_le k 1 (snd (spawn_simple_task t p))"
    by (cases "same_kind k t") auto
qed

lemma keeps_spawn_creation:
  assumes "k \<in> set single_kinds"
  shows "keeps (count_le k 1) (unless_active (GameCreation 0) (spawn_game_creation_task cfg env))"
proof (rule keeps_unless_active)
  fix p assume le: "count_le k 1 p" and "\<not> has_active_task_of_type (GameCreation 0) p"
  then have zero: "task_count (same_kind (GameCreation 0)) p = 0" by (simp add: count_zero_iff)
  obtain r q where run: "should_create_game cfg env p = (r, q)" by fastforce
  have q: "count_le k n q" if "count_le k n p" for n
    by (rule keepsD [OF keeps_count_should_create [OF assms] that run])
  have ins: "task_count (same_kind k) (q\<lparr> p_next_task_id := i, p_tasks := hm_insert j (GameCreation b) (p_tasks q) \<rparr>)
      \<le> task_count (same_kind k) q + (if same_kind k (GameCreation b) then 1 else 0)" for i j b
    using task_count_insert [of "same_kind k" j "GameCreation b" "q\<lparr> p_next_task_id := i \<rparr>"] by simp
  have bound: "task_count (same_kind k) q + (if same_kind k (GameCreation b) then 1 else 0) \<le> 1" for b
    using q [of 0] q [OF le] zero assms by (auto simp: single_kinds_def)
  show "count_le k 1 (snd (spawn_game_creation_task cfg env p))"
    using q [OF le] order_trans [OF ins bound]
    by (auto simp: spawn_game_creation_task_def seq_def run fresh_task_id_def insert_task_def split: sum.splits)
qed

lemma keeps_spawn_pending:
  assumes "k \<in> set single_kinds"
  shows "keeps (count_le k 1) (spawn_pending_operations cfg env)"
  unfolding spawn_pending_operations_def spawn_game_defense_tasks_def
  by (intro keeps_intros keeps_spawn_creation keeps_spawn_simple keeps_count_defend assms)
     (simp_all add: single_kinds_def)

lemma keeps_sync_state_frame:
  assumes st: "\<And>p x. I p \<Longrightarrow> I (p\<lparr> p_state := x \<rparr>)" and sync: "\<And>p x. I p \<Longrightarrow> I (p\<lparr> p_l1_sync := x \<rparr>)"
    and guard: "\<And>p x. I p \<Longrightarrow> I (p\<lparr> p_creation_guard := x \<rparr>)" and fails: "\<And>p x. I p \<Longrightarrow> I (p\<lparr> p_close_game_failures := x \<rparr>)"
  shows "keeps I (sync_state cfg senv)"
proof -
  have act: "I p \<Longrightarrow> I (apply_action b a p)" for a b p
    by (cases a) (auto simp: apply_action_def Let_def intro!: st guard split: option.splits)
  have acts: "I p \<Longrightarrow> I (fold (apply_action b) as p)" for as b p
    by (induction as arbitrary: p) (simp_all add: act)
  have on: "keeps I (on_state m)" for m :: "(proposer_state, 'b) handler"
    by (auto simp: keeps_def on_state_def intro: st split: prod.splits)
  have prune: "I p \<Longrightarrow> I (prune_future b m p)" for b m p
    using guard [OF st [of p]] st [of p] by (auto simp: prune_future_def Let_def)
  have games: "keeps I (sync_games cfg l2 v1 v2 snap now)" for l2 v1 v2 snap now
    unfolding sync_games_def load_new_games_def refresh_games_def
    by (intro keeps_intros keeps_write) (auto intro: prune acts st fails)
  have anchor: "keeps I (sync_anchor_game v)" for v
    unfolding sync_anchor_game_def by (intro keeps_intros keeps_write) (auto intro: st)
  show ?thesis
    unfolding sync_state_def Let_def rebuild_state_def sync_passes_def
    by (intro keeps_intros keeps_write on games anchor) (auto intro: st sync guard fails)
qed

lemma keeps_sync_state_tasks: "keeps (\<lambda>p. p_tasks p = ts) (sync_state cfg senv)"
  by (rule keeps_sync_state_frame) simp_all

text \<open>Scheduling touches the task table only.\<close>

lemma keeps_unless_active_gen [keeps_intros]: "keeps I m \<Longrightarrow> keeps I (unless_active t m)"
  unfolding unless_active_def by (intro keeps_intros)

lemma keeps_scheduling:
  assumes "\<And>p n. I p \<Longrightarrow> I (p\<lparr> p_next_task_id := n \<rparr>)" and "\<And>p ts. I p \<Longrightarrow> I (p\<lparr> p_tasks := ts \<rparr>)"
  shows "keeps I (spawn_game_proving_task cfg env a d dl)" and "keeps I (defend cfg env cs active sp)"
    and "keeps I (spawn_pending_operations cfg env)"
proof -
  show proving: "keeps I (spawn_game_proving_task cfg env a d dl)" for a d dl
    unfolding spawn_game_proving_task_def insert_task_def
    by (intro keeps_intros keeps_write keeps_fresh_task_id) (simp_all add: keeps_def assms)
  show defend: "keeps I (defend cfg env cs active sp)" for cs active sp
    by (induction cs arbitrary: active sp) (auto intro!: keeps_intros proving)
  show "keeps I (spawn_pending_operations cfg env)"
    unfolding spawn_pending_operations_def spawn_game_creation_task_def should_create_game_def Let_def
      spawn_game_defense_tasks_def spawn_simple_task_def insert_task_def
    by (intro keeps_intros keeps_write keeps_fresh_task_id keeps_fast_finality_gate proving defend)
       (simp_all add: assms)
qed

lemma keeps_run_turn: "keeps proposer_inv (run_turn cfg senv env finished)"
proof -
  have inv: "keeps proposer_inv m"
    if "keeps p_wf m" "\<And>k. k \<in> set single_kinds \<Longrightarrow> keeps (count_le k 1) m" for m :: "(proposer, 'b) handler"
    using that by (simp add: proposer_inv_def keeps_def list_all_iff)
  have sync: "keeps proposer_inv (sync_state cfg senv)"
  proof (rule inv [OF keeps_sync_state])
    fix k show "keeps (count_le k 1) (sync_state cfg senv)"
      using keeps_sync_state_tasks [of _ cfg senv] by (simp add: keeps_def task_count_def)
  qed
  have done_wf: "keeps p_wf (handle_completed_tasks finished)"
    unfolding handle_completed_tasks_def by (rule keeps_write) simp
  have done_count: "keeps (count_le k 1) (handle_completed_tasks finished)" for k
    unfolding handle_completed_tasks_def
    by (rule keeps_write) (rule order_trans [OF task_count_remove])
  have spawn_wf: "keeps p_wf (spawn_pending_operations cfg env)"
    by (rule keeps_scheduling) simp_all
  show ?thesis
    unfolding run_turn_def
    by (intro keeps_intros sync inv [OF done_wf done_count] inv [OF spawn_wf keeps_spawn_pending])
qed

lemma handle_game_creation_inv:
  assumes "proposer_inv p"
  shows "proposer_inv (snd (handle_game_creation cfg env n parent p))"
proof -
  have tc: "task_count P (commit_creation b a l r x q) = task_count P q" for P b a l r x q
    by (auto simp: commit_creation_def Let_def task_count_def split: option.splits)
  have wf: "p_wf (commit_creation b a l r x q) = p_wf q" for b a l r x q
    by (auto simp: commit_creation_def Let_def split: option.splits)
  have sub: "keeps I (submit f tx)" if "\<And>q xs. I q \<Longrightarrow> I (q\<lparr> p_sent := xs \<rparr>)" for I f tx
    using that by (simp add: keeps_def submit_eq)
  have "keeps p_wf (handle_game_creation cfg env n parent)"
    unfolding handle_game_creation_def create_game_def
    by (intro keeps_intros keeps_write sub keeps_scheduling) (simp_all add: wf)
  moreover have "keeps (count_le k 1) (handle_game_creation cfg env n parent)" if "k \<in> set single_kinds" for k
    unfolding handle_game_creation_def create_game_def
    by (intro keeps_intros keeps_write sub keeps_count_proving that) (simp_all add: tc, simp add: task_count_def)
  ultimately show ?thesis using assms by (simp add: proposer_inv_def keeps_def list_all_iff)
qed

lemma proposer_inv_send_all [simp]: "proposer_inv (send_all txs p) = proposer_inv p"
  by (simp add: proposer_inv_def send_all_def task_count_def)

lemma proposer_inv_failures [simp]: "proposer_inv (p\<lparr> p_close_game_failures := f \<rparr>) = proposer_inv p"
  by (simp add: proposer_inv_def task_count_def)

lemma keeps_close_games: "keeps proposer_inv (close_games cfg env)"
proof -
  have "keeps proposer_inv (close_one_game cfg env g)" for g
    by (auto simp: keeps_def close_one_game_eq close_attempt_def Let_def record_close_failure_def
        split: prod.splits bool.splits sum.splits)
  then show ?thesis unfolding close_games_def by (intro keeps_intros)
qed

lemma proposer_step_inv:
  assumes "proposer_inv p" and "proposer_step cfg p q"
  shows "proposer_inv q"
  using assms(2)
proof cases
  case (turn senv env finished)
  with keeps_run_turn assms(1) show ?thesis by (simp add: keeps_def)
next
  case (creating n env parent)
  with handle_game_creation_inv assms(1) show ?thesis by simp
next
  case (closing env)
  with keeps_close_games assms(1) show ?thesis by (simp add: keeps_def)
qed (use assms(1) in \<open>simp_all add: resolve_games_eq claim_bonds_eq\<close>)

interpretation proposer_system: step_system proposer_start "proposer_step cfg" proposer_inv for cfg
proof unfold_locales
  fix p assume "proposer_start p"
  then show "proposer_inv p" by (simp add: proposer_start_def proposer_inv_def task_count_def list_all_iff)
qed (rule proposer_step_inv)

section \<open>Close transactions over a run\<close>

text \<open>
  The same steps as events, so that a run is a list: a turn, or the body of a task. The number of close
  transactions sent for one game is bounded over a whole run. Its failure counter grows with each
  failed attempt and is lowered only by a turn: a rebuild of the cache clears all counters, and a sync that
  finds the game closed removes its own.
\<close>

datatype proposer_event =
    Ev_turn sync_env task_env "u64 \<Rightarrow> bool"
  | Ev_create task_env u256 u32
  | Ev_resolve task_env
  | Ev_close task_env
  | Ev_claim task_env

fun perform :: "proposer_config \<Rightarrow> proposer_event \<Rightarrow> proposer \<Rightarrow> proposer" where
  "perform cfg (Ev_turn senv env finished) p = snd (run_turn cfg senv env finished p)"
| "perform cfg (Ev_create env n parent) p = snd (handle_game_creation cfg env n parent p)"
| "perform cfg (Ev_resolve env) p = snd (resolve_games cfg env p)"
| "perform cfg (Ev_close env) p = snd (close_games cfg env p)"
| "perform cfg (Ev_claim env) p = snd (claim_bonds cfg env p)"

fun enabled :: "proposer_event \<Rightarrow> proposer \<Rightarrow> bool" where
  "enabled (Ev_turn _ _ _) p = True"
| "enabled (Ev_create env n parent) p = (GameCreation n \<in> set (hm_values (p_tasks p)))"
| "enabled (Ev_resolve env) p = (GameResolution \<in> set (hm_values (p_tasks p)))"
| "enabled (Ev_close env) p = (GameClose \<in> set (hm_values (p_tasks p)))"
| "enabled (Ev_claim env) p = (BondClaim \<in> set (hm_values (p_tasks p)))"

lemma proposer_step_iff: "proposer_step cfg p q \<longleftrightarrow> (\<exists>ev. enabled ev p \<and> q = perform cfg ev p)"
proof
  assume "proposer_step cfg p q"
  then show "\<exists>ev. enabled ev p \<and> q = perform cfg ev p"
    by cases (metis enabled.simps perform.simps)+
next
  assume "\<exists>ev. enabled ev p \<and> q = perform cfg ev p"
  then obtain ev where "enabled ev p" "q = perform cfg ev p" by blast
  then show "proposer_step cfg p q"
    by (cases ev) (simp_all only: enabled.simps perform.simps proposer_step.intros)
qed

fun perform_all :: "proposer_config \<Rightarrow> proposer_event list \<Rightarrow> proposer \<Rightarrow> proposer" where
  "perform_all cfg [] p = p"
| "perform_all cfg (ev # evs) p = perform_all cfg evs (perform cfg ev p)"

definition closes_game :: "address \<Rightarrow> l1_tx \<Rightarrow> bool" where
  "closes_game a tx \<longleftrightarrow> (case tx of Tx_closeGame b _ _ \<Rightarrow> b = a | _ \<Rightarrow> False)"

definition close_txs :: "address \<Rightarrow> proposer \<Rightarrow> nat" where
  "close_txs a p = length (filter (closes_game a) (p_sent p))"

definition never_closed_by :: "address \<Rightarrow> proposer_event \<Rightarrow> bool" where
  "never_closed_by a ev \<longleftrightarrow> (case ev of
       Ev_close env \<Rightarrow> \<forall>sent signer gas r. te_send env sent (Tx_closeGame a signer gas) = Inr r \<longrightarrow> \<not> rc_status r
     | _ \<Rightarrow> True)"

fun counter_resets :: "proposer_config \<Rightarrow> address \<Rightarrow> proposer_event list \<Rightarrow> proposer \<Rightarrow> nat" where
  "counter_resets cfg a [] p = 0"
| "counter_resets cfg a (ev # evs) p =
     (if close_failures (perform cfg ev p) a < close_failures p a then 1 else 0) +
     counter_resets cfg a evs (perform cfg ev p)"

definition close_budget :: "address \<Rightarrow> proposer \<Rightarrow> nat" where
  "close_budget a p = 5 - unat (close_failures p a)"

lemma close_txs_send_all [simp]: "close_txs a (send_all txs p) = close_txs a p + length (filter (closes_game a) txs)"
  by (simp add: close_txs_def send_all_def)

lemma close_budget_send_all [simp]: "close_budget a (send_all txs p) = close_budget a p"
  by (simp add: close_budget_def)

lemma close_attempt_cases:
  "\<exists>txs. snd (close_attempt cfg env g p) = send_all txs p \<and> length txs \<le> 1 \<and>
     (\<forall>tx \<in> set txs. \<exists>gas. tx = Tx_closeGame (g_address g) (cfg_signer cfg) gas)"
proof (cases "estimateCloseGame (te_view env) (g_address g) (cfg_signer cfg)")
  case (Inl e)
  then show ?thesis by (intro exI [of _ "[]"]) (simp add: close_attempt_def)
next
  case (Inr gas)
  then show ?thesis
    by (intro exI [of _ "[Tx_closeGame (g_address g) (cfg_signer cfg) gas]"]) (simp add: close_attempt_def Let_def)
qed

lemma close_one_game_budget:
  assumes never: "never_closed_by a (Ev_close env)" and p': "p' = snd (close_one_game cfg env g p)"
  shows "close_txs a p' + close_budget a p' \<le> close_txs a p + close_budget a p \<and>
    close_failures p a \<le> close_failures p' a"
proof (cases "close_failures p (g_address g) \<ge> MAX_CLOSE_GAME_FAILURES")
  case True
  with p' show ?thesis by (simp add: close_one_game_eq)
next
  case False
  obtain txs where txs: "snd (close_attempt cfg env g p) = send_all txs p" "length txs \<le> 1"
    "\<forall>tx \<in> set txs. \<exists>gas. tx = Tx_closeGame (g_address g) (cfg_signer cfg) gas"
    using close_attempt_cases by blast
  show ?thesis
  proof (cases "g_address g = a")
    case True
    have "\<not> fst (close_attempt cfg env g p)"
      using never True by (auto simp: close_attempt_def never_closed_by_def Let_def split: sum.splits)
    with False p' txs(1) have "p' = record_close_failure (g_address g) (send_all txs p)"
      by (cases "close_attempt cfg env g p") (auto simp: close_one_game_eq)
    then have p': "p' = record_close_failure a (send_all txs p)" by (simp add: True)
    have lt: "unat (close_failures p a) < 5"
      using False True by (simp add: MAX_CLOSE_GAME_FAILURES_def word_le_nat_alt)
    then have cf: "unat (close_failures p' a) = Suc (unat (close_failures p a))"
      by (simp add: p' close_failures_record unat_saturating_add)
    have "close_txs a p' \<le> Suc (close_txs a p)"
      using le_trans [OF length_filter_le [of "closes_game a" txs] txs(2)]
      by (simp add: p' record_close_failure_def close_txs_def send_all_def)
    with cf lt show ?thesis by (simp add: close_budget_def word_le_nat_alt)
  next
    case other: False
    have "filter (closes_game a) txs = []"
      using txs(3) other by (auto simp: filter_empty_conv closes_game_def)
    moreover have "p' = record_close_failure (g_address g) (send_all txs p) \<or>
        p' = (send_all txs p)\<lparr> p_close_game_failures := hm_remove (g_address g) (p_close_game_failures (send_all txs p)) \<rparr>"
      using False p' txs(1) by (cases "close_attempt cfg env g p") (auto simp: close_one_game_eq split: bool.splits)
    ultimately show ?thesis using other
      by (auto simp: close_txs_def close_budget_def close_failures_def record_close_failure_def send_all_def)
  qed
qed

lemma close_games_budget:
  assumes "never_closed_by a (Ev_close env)" and "p' = snd (close_games cfg env p)"
  shows "close_txs a p' + close_budget a p' \<le> close_txs a p + close_budget a p"
proof -
  have "keeps (\<lambda>q. close_txs a q + close_budget a q \<le> n) (close_one_game cfg env g)" for g n
    unfolding keeps_def using close_one_game_budget [OF assms(1) refl] by (meson order_trans)
  then have "keeps (\<lambda>q. close_txs a q + close_budget a q \<le> n) (close_games cfg env)" for n
    unfolding close_games_def by (intro keeps_intros)
  then show ?thesis by (simp add: keeps_def assms(2))
qed

text \<open>The other events send no close transaction.\<close>

lemma run_turn_sent: "p_sent (snd (run_turn cfg senv env finished p)) = p_sent p"
proof -
  have "keeps (\<lambda>q. p_sent q = p_sent p) (run_turn cfg senv env finished)"
    unfolding run_turn_def handle_completed_tasks_def
    by (intro keeps_intros keeps_write keeps_sync_state_frame keeps_scheduling) simp_all
  then show ?thesis by (simp add: keeps_def)
qed

lemma handle_game_creation_budget:
  "close_txs a (snd (handle_game_creation cfg env n parent p)) = close_txs a p \<and>
   close_budget a (snd (handle_game_creation cfg env n parent p)) = close_budget a p"
proof -
  let ?I = "\<lambda>q. close_txs a q = close_txs a p \<and> close_budget a q = close_budget a p"
  have sub: "keeps ?I (submit f (Tx_create t r x b))" for f t r x b
    by (simp add: keeps_def submit_eq close_txs_def close_budget_def close_failures_def closes_game_def)
  have commit: "?I q \<Longrightarrow> ?I (commit_creation b a' l r x q)" for b a' l r x q
    by (auto simp: commit_creation_def Let_def close_txs_def close_budget_def close_failures_def split: option.splits)
  have "keeps ?I (handle_game_creation cfg env n parent)"
    unfolding handle_game_creation_def create_game_def
    by (intro keeps_intros keeps_write sub commit keeps_scheduling)
       (simp_all add: close_txs_def close_budget_def close_failures_def)
  then show ?thesis by (simp add: keeps_def)
qed

lemma perform_budget:
  assumes "never_closed_by a ev"
  shows "close_txs a (perform cfg ev p) + close_budget a (perform cfg ev p)
    \<le> close_txs a p + close_budget a p + (if close_failures (perform cfg ev p) a < close_failures p a then 5 else 0)"
proof (cases ev)
  case (Ev_turn senv env finished)
  have txs: "close_txs a (perform cfg ev p) = close_txs a p"
    by (simp add: Ev_turn close_txs_def run_turn_sent)
  show ?thesis
    unfolding txs close_budget_def word_less_nat_alt by arith
next
  case (Ev_create env n parent)
  then show ?thesis by (simp add: handle_game_creation_budget)
next
  case (Ev_resolve env)
  have "\<not> closes_game a tx" if "resolution_tx env g = Some tx" for g tx
    using that by (cases "status_of (te_view env) (g_address g)")
      (auto simp: resolution_tx_def closes_game_def split: game_status.splits)
  then have "\<forall>tx \<in> set (List.map_filter (resolution_tx env) gs). \<not> closes_game a tx" for gs
    by (auto simp: set_map_filter_option)
  then have "filter (closes_game a) (List.map_filter (resolution_tx env) gs) = []" for gs
    by (simp add: filter_empty_conv)
  then show ?thesis by (simp add: Ev_resolve resolve_games_eq)
next
  case (Ev_close env)
  then show ?thesis using close_games_budget [OF assms [unfolded Ev_close] refl, of cfg p] by simp
next
  case (Ev_claim env)
  have "\<not> closes_game a tx" if "claim_tx cfg env g = Some tx" for g tx
    using that by (cases "estimateClaimCredit (te_view env) (g_address g) (cfg_signer cfg)")
      (auto simp: claim_tx_def closes_game_def split: if_splits)
  then have "\<forall>tx \<in> set (List.map_filter (claim_tx cfg env) gs). \<not> closes_game a tx" for gs
    by (auto simp: set_map_filter_option)
  then have "filter (closes_game a) (List.map_filter (claim_tx cfg env) gs) = []" for gs
    by (simp add: filter_empty_conv)
  then show ?thesis by (simp add: Ev_claim claim_bonds_eq)
qed

lemma perform_all_budget:
  "list_all (never_closed_by a) evs \<Longrightarrow>
   close_txs a (perform_all cfg evs p) + close_budget a (perform_all cfg evs p)
     \<le> close_txs a p + close_budget a p + 5 * counter_resets cfg a evs p"
proof (induction evs arbitrary: p)
  case (Cons ev evs)
  let ?p = "perform cfg ev p"
  have "close_txs a (perform_all cfg evs ?p) + close_budget a (perform_all cfg evs ?p)
      \<le> close_txs a ?p + close_budget a ?p + 5 * counter_resets cfg a evs ?p"
    using Cons by simp
  moreover have "close_txs a ?p + close_budget a ?p
      \<le> close_txs a p + close_budget a p + (if close_failures ?p a < close_failures p a then 5 else 0)"
    using Cons.prems by (intro perform_budget) simp
  ultimately show ?case by (simp split: if_splits)
qed simp

section \<open>Properties\<close>

text \<open>C4: in every state the proposer can reach, whatever the order in which turns and task bodies run and
  whatever calls fail, the cache is well formed and there is at most one task each for creating a
  game, resolving, closing and claiming.\<close>

theorem proposer_reachable_safe:
  assumes "proposer_start p" and "(proposer_step cfg)\<^sup>*\<^sup>* p q"
  shows "state_wf (p_state q) \<and> task_count (same_kind (GameCreation n)) q \<le> 1 \<and>
     task_count (same_kind GameResolution) q \<le> 1 \<and> task_count (same_kind GameClose) q \<le> 1 \<and>
     task_count (same_kind BondClaim) q \<le> 1"
proof -
  have "same_kind (GameCreation n) = same_kind (GameCreation 0)"
    by (rule ext) (case_tac x; simp)
  then show ?thesis
    using proposer_system.reachable_inv [OF assms] by (simp add: proposer_inv_def single_kinds_def)
qed

text \<open>C30: spawning defense tasks respects the limit on concurrent defenses, never starts a second proof for a
  game that is already being proven, and starts one only for a cached game that is in progress and
  challenged, whose address is that of a game with the proposer's own keys, for which \<open>claimData\<close> does not
  answer that it is proven or resolved (a failed call does not hold the defense back), and whose deadline
  is still ahead on the clock. The cached games are defended in the order of their deadlines.\<close>

theorem spawn_game_defense_tasks_safe:
  assumes ok: "tasks_ok (length (defense_candidates (ps_games (p_state p)))) p"
    and run: "spawn_game_defense_tasks cfg env p = (r, p')"
  shows "task_count is_defending p' \<le> max (task_count is_defending p) (unat (cfg_max_concurrent_defense_tasks cfg)) \<and>
     (distinct (proving_addresses p) \<longrightarrow> distinct (proving_addresses p')) \<and>
     sorted (map (\<lambda>(_, _, d). d) (defense_candidates (ps_games (p_state p)))) \<and>
     (\<forall>t \<in> set (hm_values (p_tasks p')) - set (hm_values (p_tasks p)). \<exists>g \<in> set (hm_values (ps_games (p_state p))).
        t = GameProving (g_address g) True \<and> g_status g = IN_PROGRESS \<and> g_proposal_status g = Challenged \<and>
        (\<exists>g' \<in> set (hm_values (ps_games (p_state p))). g_address g' = g_address g \<and> is_owned g' (cfg_identity cfg)) \<and>
        (\<forall>cd. claimData (te_view env) (g_address g) = Inr cd \<longrightarrow>
           cd_status cd \<notin> {UnchallengedAndValidProofProvided, ChallengedAndValidProofProvided, Resolved}) \<and>
        (\<exists>now. te_now env = Inr now \<and> now < g_deadline g))"
proof -
  have "defend cfg env (defense_candidates (ps_games (p_state p))) (count_active_defense_tasks p) False p = (r, p')"
    using run by (simp add: spawn_game_defense_tasks_def)
  from defend_defended [OF this ok count_active_defense_unat [OF ok]]
  have d: "defended cfg env (defense_candidates (ps_games (p_state p))) p p'" .
  have started: "\<exists>g \<in> set (hm_values (ps_games (p_state p))).
        t = GameProving (g_address g) True \<and> g_status g = IN_PROGRESS \<and> g_proposal_status g = Challenged \<and>
        (\<exists>g' \<in> set (hm_values (ps_games (p_state p))). g_address g' = g_address g \<and> is_owned g' (cfg_identity cfg)) \<and>
        (\<forall>cd. claimData (te_view env) (g_address g) = Inr cd \<longrightarrow>
           cd_status cd \<notin> {UnchallengedAndValidProofProvided, ChallengedAndValidProofProvided, Resolved}) \<and>
        (\<exists>now. te_now env = Inr now \<and> now < g_deadline g)"
    if t: "t \<in> set (hm_values (p_tasks p')) - set (hm_values (p_tasks p))" for t
  proof -
    from t d obtain i a dl where t': "t = GameProving a True" "(i, a, dl) \<in> set (defense_candidates (ps_games (p_state p)))"
      "should_skip_proving cfg env a (Some dl) True p = Inr False" unfolding defended_def by blast
    then obtain g where g: "g \<in> set (hm_values (ps_games (p_state p)))" "a = g_address g" "dl = g_deadline g"
      "g_status g = IN_PROGRESS" "g_proposal_status g = Challenged" by (auto simp: defense_candidates_def)
    with t'(1) should_skip_proving_no [OF t'(3) [unfolded g(2,3)]] show ?thesis
      by (intro bexI [OF _ g(1)]) (simp only:, simp)
  qed
  have sorted: "sorted (map (\<lambda>(_, _, d). d) (defense_candidates (ps_games (p_state p))))"
    unfolding defense_candidates_def by (rule sorted_sort_key)
  have "task_count is_defending p' \<le> max (task_count is_defending p) (unat (cfg_max_concurrent_defense_tasks cfg))"
    and "distinct (proving_addresses p) \<longrightarrow> distinct (proving_addresses p')"
    using d by (simp_all add: defended_def)
  with sorted started show ?thesis by (intro conjI ballI)
qed

text \<open>\<open>should_create_game\<close> answers yes only if the proposer's game type is the respected one, the keys
  registered on chain are its own, the proposed block is the canonical head plus the interval, it is
  provable, it lies above the block of the last created game, and the parent is the canonical head (or
  none, when the head is the anchor).\<close>

theorem should_create_game_sound:
  assumes "should_create_game cfg env p = (Inr (True, n, parent), p')"
  shows "respectedGameType (te_view env) = Inr (cfg_game_type cfg) \<and> on_chain_vkeys_match cfg (te_view env) = Inr True \<and>
     (\<exists>b m. ps_canonical_head_l2_block (p_state p) = Some b \<and> n = b + u256_of_u64 (cfg_proposal_interval_in_blocks cfg) \<and>
            te_max_provable env = Inr m \<and> unat n \<le> unat m) \<and>
     (guard_l2_block (p_creation_guard p) = 0 \<or> unat (guard_l2_block (p_creation_guard p)) < unat n) \<and>
     (case ps_canonical_head_index (p_state p) of
        None \<Rightarrow> parent = u32_MAX
      | Some h \<Rightarrow> if map_option g_index (ps_anchor_game (p_state p)) = Some h then parent = u32_MAX
                  else u256_of_u32 parent = h)"
proof -
  have fits: "fits_u32 h \<Longrightarrow> u256_of_u32 (ucast h) = h" for h :: u256
    by (metis unat_u256_of_u32 unat_ucast_u32 word_unat_eq_iff)
  from should_create_game_ok [OF assms] show ?thesis
    by (auto simp: creation_ok_def parent_game_index_def to_u32_def fits split: option.splits sum.splits if_splits)
qed

text \<open>the search for a free block of \<open>handle_game_creation\<close> always ends, and what it returns is the
  first L2 block at or above the requested one for which the factory has no game with that output
  root and parent.\<close>

theorem find_free_block_first:
  assumes "find_free_block cfg env parent n = Inr (m, root, extra)"
  shows "unat n \<le> unat m \<and> extra = te_pack env m parent \<and>
     compute_output_root_at_block (te_l2 env) m = Inr root \<and>
     factory_games (te_view env) (cfg_game_type cfg) root extra = Inr 0 \<and>
     (\<forall>k. unat n \<le> unat k \<and> unat k < unat m \<longrightarrow>
        (\<exists>r a. compute_output_root_at_block (te_l2 env) k = Inr r \<and>
               factory_games (te_view env) (cfg_game_type cfg) r (te_pack env k parent) = Inr a \<and> a \<noteq> 0))"
  using find_free_block_sound [OF assms] by blast

text \<open>C5: no block is proposed twice under one creation guard. If a game was created on request of block
  \<open>n\<close>, the guard it left still stands, the proposer then decides for \<open>n'\<close>, however far its cache lags
  behind, and that creation succeeds too, then the blocks \<open>m\<close> and \<open>m'\<close> the two transactions really
  propose (the search for a free block may have moved past the requested ones) satisfy
  \<open>n \<le> m < n' \<le> m'\<close>.\<close>

theorem creation_guard_prevents_duplicates:
  assumes "handle_game_creation cfg env n parent p = (Inr (), p')" and "0 < n"
    and "p_creation_guard q = p_creation_guard p'"
    and "should_create_game cfg env' q = (Inr (True, n', parent'), q')"
    and "handle_game_creation cfg env'' n' parent' q1 = (Inr (), q2)"
  shows "\<exists>m m'. created_at cfg env parent m p p' \<and> created_at cfg env'' parent' m' q1 q2 \<and>
     n \<le> m \<and> m < n' \<and> n' \<le> m'"
proof -
  from handle_game_creation_created [OF assms(1)] obtain m where
    m: "n \<le> m" "fits_u64 m" "created_at cfg env parent m p p'" "guard_l2_block (p_creation_guard p') = ucast m" .
  from handle_game_creation_created [OF assms(5)] obtain m' where
    m': "n' \<le> m'" "created_at cfg env'' parent' m' q1 q2" .
  have guard: "unat (guard_l2_block (p_creation_guard q)) = unat m"
    by (simp only: assms(3) m(4) unat_ucast_u64 [OF m(2)])
  have "0 < unat m" using assms(2) m(1) by (simp add: word_less_nat_alt word_le_nat_alt)
  with guard have "guard_l2_block (p_creation_guard q) \<noteq> 0" by auto
  with should_create_game_ok [OF assms(4)] guard have "m < n'"
    by (simp add: creation_ok_def word_less_nat_alt)
  with m m' show ?thesis by blast
qed

text \<open>resolving sends exactly one resolve transaction for each owned game flagged for it whose latest
  status is not known to be resolved, in cache order; it always succeeds and changes nothing else.\<close>

theorem resolve_games_sends:
  "resolve_games cfg env p =
     (Inr (), p\<lparr> p_sent := p_sent p @ List.map_filter (resolution_tx env) (owned_games cfg g_should_attempt_to_resolve p) \<rparr>)"
  by (simp add: resolve_games_eq send_all_def)

text \<open>claiming sends exactly one claim for each owned game flagged for it whose credit is not known to
  be zero and whose gas could be estimated, and changes nothing else.\<close>

theorem claim_bonds_sends:
  "claim_bonds cfg env p =
     (Inr (), p\<lparr> p_sent := p_sent p @ List.map_filter (claim_tx cfg env) (owned_games cfg g_should_attempt_to_claim_bond p) \<rparr>)"
  by (simp add: claim_bonds_eq send_all_def)

text \<open>C31: in every run of the proposer, whatever the order of turns and task bodies, in which no close
  transaction of the game at address \<open>a\<close> is included successfully, at most
  \<open>MAX_CLOSE_GAME_FAILURES\<close> close transactions are sent for it, and as many again for each time its
  failure counter is lowered (a rebuild of the cache clears it, a sync that finds the game closed removes
  it). A restart of the process, which begins with empty counters, is a new run.\<close>

theorem close_attempts_bounded:
  assumes "list_all (never_closed_by a) evs"
  shows "close_txs a (perform_all cfg evs p)
    \<le> close_txs a p + unat MAX_CLOSE_GAME_FAILURES * (1 + counter_resets cfg a evs p)"
proof -
  have "close_budget a p \<le> 5" by (simp add: close_budget_def)
  with perform_all_budget [OF assms, of cfg p] show ?thesis by (simp add: MAX_CLOSE_GAME_FAILURES_def)
qed

section \<open>Witnesses\<close>

definition sample_receipt :: receipt where
  "sample_receipt = \<lparr> rc_status = True, rc_transaction_hash = 1, rc_block_number = Some 9, rc_created = Some 5 \<rparr>"

text \<open>The factory already has a game at block 20.\<close>

definition sample_task_env :: task_env where
  "sample_task_env = \<lparr> te_view = sample_view\<lparr> factory_games := (\<lambda>_ _ x. Inr (if x = [20] then 3 else 0)) \<rparr>,
     te_now = Inr 500, te_max_provable = Inr 100, te_l2 = sample_l2, te_send = (\<lambda>_ _. Inr sample_receipt),
     te_pack = (\<lambda>n _. [ucast n]) \<rparr>"

definition sample_at_head :: "u256 \<Rightarrow> proposer \<Rightarrow> proposer" where
  "sample_at_head b p = p\<lparr> p_state := (p_state p)\<lparr> ps_canonical_head_l2_block := Some b \<rparr> \<rparr>"

definition sample_creation :: "unit result \<times> proposer" where
  "sample_creation = handle_game_creation sample_config sample_task_env 20 u32_MAX (sample_at_head 10 sample_proposer)"

theorem find_free_block_first_witness:
  "find_free_block sample_config sample_task_env u32_MAX 20 = Inr (21, 7, [21]) \<and>
   factory_games (te_view sample_task_env) (cfg_game_type sample_config) 7 [21] = Inr 0"
proof -
  have run: "find_free_block sample_config sample_task_env u32_MAX 20 = Inr (21, 7, [21])" by code_simp
  from find_free_block_first [OF this] run show ?thesis by blast
qed

theorem creation_guard_prevents_duplicates_witness:
  "\<exists>m m'. created_at sample_config sample_task_env u32_MAX m (sample_at_head 10 sample_proposer) (snd sample_creation) \<and>
     created_at sample_config sample_task_env u32_MAX m' sample_proposer
       (snd (handle_game_creation sample_config sample_task_env 30 u32_MAX sample_proposer)) \<and>
     20 \<le> m \<and> m < 30 \<and> 30 \<le> m'"
proof -
  let ?q = "sample_at_head 20 (snd sample_creation)"
  let ?again = "handle_game_creation sample_config sample_task_env 30 u32_MAX sample_proposer"
  have "fst sample_creation = Inr ()" by code_simp
  then have run: "handle_game_creation sample_config sample_task_env 20 u32_MAX (sample_at_head 10 sample_proposer)
      = (Inr (), snd sample_creation)"
    using prod.collapse [of sample_creation] by (simp add: sample_creation_def)
  have "fst ?again = Inr ()" by code_simp
  then have again: "?again = (Inr (), snd ?again)" by (metis prod.collapse)
  have "fst (should_create_game sample_config sample_task_env ?q) = Inr (True, 30, u32_MAX)" by code_simp
  then have dec: "should_create_game sample_config sample_task_env ?q
      = (Inr (True, 30, u32_MAX), snd (should_create_game sample_config sample_task_env ?q))"
    by (metis prod.collapse)
  have guard: "p_creation_guard ?q = p_creation_guard (snd sample_creation)" by (simp add: sample_at_head_def)
  have pos: "(0 :: u256) < 20" by simp
  show ?thesis by (rule creation_guard_prevents_duplicates [OF run pos guard dec again])
qed

theorem should_create_game_sound_witness:
  "fst (should_create_game sample_config sample_task_env (sample_at_head 10 sample_proposer)) = Inr (True, 20, u32_MAX) \<and>
   respectedGameType (te_view sample_task_env) = Inr 42"
proof -
  let ?run = "should_create_game sample_config sample_task_env (sample_at_head 10 sample_proposer)"
  have dec: "fst ?run = Inr (True, 20, u32_MAX)" by code_simp
  then have "?run = (Inr (True, 20, u32_MAX), snd ?run)" by (metis prod.collapse)
  from should_create_game_sound [OF this] dec show ?thesis by (simp add: sample_config_def)
qed

text \<open>Two challenged games, the second with the earlier deadline; the limit is two tasks.\<close>

definition sample_challenged :: proposer where
  "sample_challenged = sample_proposer\<lparr> p_state := proposer_state_default\<lparr> ps_games :=
     [(1, (sample_game 1 0 20)\<lparr> g_proposal_status := Challenged \<rparr>),
      (2, (sample_game 2 1 30)\<lparr> g_proposal_status := Challenged, g_deadline := 900 \<rparr>)] \<rparr> \<rparr>"

theorem spawn_game_defense_tasks_safe_witness:
  "proving_addresses (snd (spawn_game_defense_tasks sample_config sample_task_env sample_challenged)) = [3, 2] \<and>
   task_count is_defending (snd (spawn_game_defense_tasks sample_config sample_task_env sample_challenged)) \<le> 2"
proof -
  let ?run = "spawn_game_defense_tasks sample_config sample_task_env sample_challenged"
  have ok: "tasks_ok (length (defense_candidates (ps_games (p_state sample_challenged)))) sample_challenged"
    by (simp add: tasks_ok_def sample_challenged_def sample_proposer_def defense_candidates_def)
  have "proving_addresses (snd ?run) = [3, 2]" by code_simp
  moreover have "task_count is_defending sample_challenged = 0" by code_simp
  moreover have "unat (cfg_max_concurrent_defense_tasks sample_config) = 2" by (simp add: sample_config_def)
  ultimately show ?thesis
    using spawn_game_defense_tasks_safe [OF ok prod.collapse [of ?run, symmetric]] by simp
qed

theorem proposer_reachable_safe_witness:
  "task_count (same_kind GameResolution) (snd (run_turn sample_config sample_env sample_task_env (\<lambda>_. False) sample_proposer)) = 1 \<and>
   state_wf (p_state (snd (run_turn sample_config sample_env sample_task_env (\<lambda>_. False) sample_proposer)))"
proof -
  have start: "proposer_start sample_proposer" by code_simp
  have "(proposer_step sample_config)\<^sup>*\<^sup>* sample_proposer
      (snd (run_turn sample_config sample_env sample_task_env (\<lambda>_. False) sample_proposer))"
    by (rule r_into_rtranclp [of "proposer_step sample_config"]) (rule turn)
  from proposer_reachable_safe [OF start this]
  have "state_wf (p_state (snd (run_turn sample_config sample_env sample_task_env (\<lambda>_. False) sample_proposer)))" by blast
  moreover have "task_count (same_kind GameResolution) (snd (run_turn sample_config sample_env sample_task_env (\<lambda>_. False) sample_proposer)) = 1"
    by code_simp
  ultimately show ?thesis by blast
qed

definition sample_failing_env :: task_env where
  "sample_failing_env = sample_task_env\<lparr> te_send := (\<lambda>_ _. Inr (sample_receipt\<lparr> rc_status := False \<rparr>)) \<rparr>"

definition sample_closing :: "proposer_event list" where
  "sample_closing = Ev_turn sample_env sample_task_env (\<lambda>_. False) # replicate 7 (Ev_close sample_failing_env)"

theorem close_attempts_bounded_witness:
  "close_txs 1 (perform_all sample_config sample_closing sample_proposer) = 5 \<and>
   close_txs 1 (perform_all sample_config sample_closing sample_proposer)
     \<le> unat MAX_CLOSE_GAME_FAILURES * (1 + counter_resets sample_config 1 sample_closing sample_proposer)"
proof -
  have never: "list_all (never_closed_by 1) sample_closing"
    by (simp add: sample_closing_def list_all_iff never_closed_by_def sample_failing_env_def)
  have "close_txs 1 sample_proposer = 0" by (simp add: close_txs_def sample_proposer_def)
  moreover have "close_txs 1 (perform_all sample_config sample_closing sample_proposer) = 5"
    by code_simp
  ultimately show ?thesis using close_attempts_bounded [OF never, of sample_config sample_proposer] by simp
qed

end
