(* ===== verification/Startup.thy ===== *)
theory Startup
  imports ProposerTasks
begin

text \<open>
  Starting and restarting the proposer: \<open>fault-proof/src/backup.rs\<close> (\<open>ProposerBackup\<close>) and, in
  \<open>fault-proof/src/proposer.rs\<close>, \<open>to_backup\<close>, \<open>from_backup\<close>, \<open>try_restore\<close>, \<open>backup\<close>, \<open>startup_validations\<close>,
  \<open>init_state\<close> and \<open>try_init\<close>.

  JSON serialization is code of another crate: \<open>to_json\<close> and \<open>of_json\<close> are parameters on an arbitrary type
  of documents. What is used of them is that parsing undoes printing, except that the field marked
  \<open>#[serde(skip)]\<close> comes back as its default.
\<close>

section \<open>Backups\<close>

definition BACKUP_VERSION :: u32 where
  "BACKUP_VERSION = 1"

record proposer_backup =
  b_version :: u32
  b_cursor :: "u256 option"
  b_games :: "game list"
  b_anchor_game_index :: "u256 option"
  b_removed_games :: "(u256, block_num_hash) hashmap"
  b_last_created_game_l2_block :: u64
  b_last_created_game_address :: address
  b_last_created_game_observation :: "game_creation option"

definition backup_new :: "u256 option \<Rightarrow> game list \<Rightarrow> u256 option \<Rightarrow> proposer_backup" where
  "backup_new c gs anchor_index = \<lparr> b_version = BACKUP_VERSION, b_cursor = c, b_games = gs,
     b_anchor_game_index = anchor_index, b_removed_games = [], b_last_created_game_l2_block = 0,
     b_last_created_game_address = 0, b_last_created_game_observation = None \<rparr>"

definition backup_validate :: "proposer_backup \<Rightarrow> unit result" where
  "backup_validate b =
     try_bind (case b_cursor b of
         Some c \<Rightarrow> if b_games b = [] \<and> b_removed_games b = [] \<and> c > 0
                   then Inl (Err ''cursor exists but no games'') else Inr ()
       | None \<Rightarrow> Inr ()) (\<lambda>_.
     case b_anchor_game_index b of
       Some anchor_idx \<Rightarrow> if \<not> list_ex (\<lambda>g. g_index g = anchor_idx) (b_games b)
                          then Inl (Err ''anchor game index references non-existent game'') else Inr ()
     | None \<Rightarrow> Inr ())"

text \<open>The document in the file, if the file can be read.\<close>

definition backup_load :: "('j \<Rightarrow> proposer_backup option) \<Rightarrow> 'j option \<Rightarrow> proposer_backup option" where
  "backup_load of_json file = (case file of
       None \<Rightarrow> None
     | Some json \<Rightarrow> (case of_json json of
           None \<Rightarrow> None
         | Some b \<Rightarrow> if b_version b \<noteq> BACKUP_VERSION then None
                     else (case backup_validate b of Inl _ \<Rightarrow> None | Inr _ \<Rightarrow> Some b)))"

definition to_backup :: "proposer_state \<Rightarrow> proposer_backup" where
  "to_backup st = (backup_new (cursor_index (ps_cursor st)) (hm_values (ps_games st))
       (map_option g_index (ps_anchor_game st)))\<lparr> b_removed_games := ps_removed_games st \<rparr>"

definition from_backup :: "proposer_backup \<Rightarrow> proposer_state" where
  "from_backup b =
     (let gs = fold (\<lambda>g. hm_insert (g_index g) g) (b_games b) []
      in \<lparr> ps_anchor_game = (case b_anchor_game_index b of None \<Rightarrow> None | Some i \<Rightarrow> hm_get gs i),
           ps_canonical_head_index = None, ps_canonical_head_l2_block = None,
           ps_cursor = (case b_cursor b of None \<Rightarrow> cursor_none | Some i \<Rightarrow> cursor_from i),
           ps_games = gs, ps_removed_games = b_removed_games b \<rparr>)"

definition try_restore ::
  "('j \<Rightarrow> proposer_backup option) \<Rightarrow> 'j option \<Rightarrow> (proposer_state \<times> u64 \<times> address \<times> game_creation option) option" where
  "try_restore of_json file = (case backup_load of_json file of
       None \<Rightarrow> None
     | Some b \<Rightarrow> Some (from_backup b, b_last_created_game_l2_block b, b_last_created_game_address b,
                       b_last_created_game_observation b))"

definition make_backup :: "proposer \<Rightarrow> proposer_backup" where
  "make_backup p = (to_backup (p_state p))\<lparr>
     b_last_created_game_l2_block := guard_l2_block (p_creation_guard p),
     b_last_created_game_address := guard_address (p_creation_guard p),
     b_last_created_game_observation := guard_observation (p_creation_guard p) \<rparr>"

section \<open>Startup\<close>

definition validate_anchor_state_registry :: "proposer_config \<Rightarrow> l1_view \<Rightarrow> unit result" where
  "validate_anchor_state_registry cfg v =
     try_bind (game_impl v (cfg_game_type cfg)) (\<lambda>impl.
     try_bind (anchorStateRegistry v impl) (\<lambda>expected.
     if cfg_registry cfg \<noteq> expected then Inl (Err ''Anchor state registry address mismatch'') else Inr ()))"

definition validate_anchor_l2_block :: "u256 \<Rightarrow> u64 result \<Rightarrow> unit result" where
  "validate_anchor_l2_block anchor_l2_block max_provable =
     try_bind max_provable (\<lambda>m.
     if anchor_l2_block > u256_of_u64 m then Inl (Err ''Contract misconfiguration detected'') else Inr ())"

definition startup_validations ::
  "proposer_config \<Rightarrow> l1_view \<Rightarrow> u64 result \<Rightarrow> (u256 \<times> u256 \<times> contract_params) result" where
  "startup_validations cfg v max_provable =
     try_bind (validate_anchor_state_registry cfg v) (\<lambda>_.
     try_bind (getAnchorRoot v) (\<lambda>(_, anchor_l2_block).
     try_bind (validate_anchor_l2_block anchor_l2_block max_provable) (\<lambda>_.
     try_bind (fetch_init_bond v (cfg_game_type cfg)) (\<lambda>init_bond.
     try_bind (game_impl v (cfg_game_type cfg)) (\<lambda>impl.
     try_bind (maxChallengeDuration v impl) (\<lambda>challenge.
     try_bind (maxProveDuration v impl) (\<lambda>prove.
     Inr (anchor_l2_block, init_bond, \<lparr> max_challenge_duration = challenge, max_prove_duration = prove \<rparr>))))))))"

text \<open>
  The backup path: \<open>None\<close> if not configured; otherwise the outcome of the directory and write checks and
  the content of the file.
\<close>

record 'j backup_path =
  bp_checks :: "unit result"
  bp_file :: "'j option"

definition restore_from :: "(proposer_state \<times> u64 \<times> address \<times> game_creation option) \<Rightarrow> proposer \<Rightarrow> proposer" where
  "restore_from = (\<lambda>(restored, l2, addr, obs) p. p\<lparr>
     p_creation_guard := \<lparr> guard_l2_block = l2, guard_address = addr, guard_observation = obs \<rparr>,
     p_state := (p_state p)\<lparr> ps_cursor := ps_cursor restored, ps_games := ps_games restored,
       ps_removed_games := ps_removed_games restored, ps_anchor_game := ps_anchor_game restored \<rparr> \<rparr>)"

definition init_state ::
  "('j \<Rightarrow> proposer_backup option) \<Rightarrow> 'j backup_path option \<Rightarrow> u256 \<Rightarrow> u256 \<Rightarrow> contract_params \<Rightarrow> (proposer, unit) handler" where
  "init_state of_json path anchor_l2_block init_bond params =
     seq (write_st (upd_state (\<lambda>st. st\<lparr> ps_canonical_head_l2_block := Some anchor_l2_block \<rparr>))) (\<lambda>_.
     seq (read_st p_init_bond) (\<lambda>bond.
     if bond \<noteq> None then fail (Err ''init_bond must not already be set'') else
     seq (write_st (\<lambda>p. p\<lparr> p_init_bond := Some init_bond \<rparr>)) (\<lambda>_.
     seq (read_st p_contract_params) (\<lambda>ps.
     if ps \<noteq> None then fail (Err ''contract_params must not already be set'') else
     seq (write_st (\<lambda>p. p\<lparr> p_contract_params := Some params \<rparr>)) (\<lambda>_.
     case path of
       None \<Rightarrow> ret ()
     | Some bp \<Rightarrow> seq (lift (bp_checks bp)) (\<lambda>_.
         case try_restore of_json (bp_file bp) of
           None \<Rightarrow> ret ()
         | Some r \<Rightarrow> write_st (restore_from r)))))))"

record 'j startup_env =
  st_view :: l1_view
  st_max_provable :: "u64 result"
  st_path :: "'j backup_path option"

definition validate_and_init ::
  "proposer_config \<Rightarrow> ('j \<Rightarrow> proposer_backup option) \<Rightarrow> 'j startup_env \<Rightarrow> (proposer, unit) handler" where
  "validate_and_init cfg of_json env =
     seq (lift (startup_validations cfg (st_view env) (st_max_provable env))) (\<lambda>(anchor_l2_block, init_bond, params).
     init_state of_json (st_path env) anchor_l2_block init_bond params)"

text \<open>The retry loop, over the environments of the successive attempts: \<open>True\<close> once an attempt succeeds.\<close>

fun try_init ::
  "proposer_config \<Rightarrow> ('j \<Rightarrow> proposer_backup option) \<Rightarrow> 'j startup_env list \<Rightarrow> proposer \<Rightarrow> bool \<times> proposer" where
  "try_init cfg of_json [] p = (False, p)"
| "try_init cfg of_json (env # envs) p = (case validate_and_init cfg of_json env p of
       (Inr _, p') \<Rightarrow> (True, p')
     | (Inl _, p') \<Rightarrow> try_init cfg of_json envs p')"

section \<open>Restoring what was saved\<close>

definition serde_skip :: "proposer_backup \<Rightarrow> proposer_backup" where
  "serde_skip b = b\<lparr> b_games := map (\<lambda>g. g\<lparr> g_should_attempt_to_close_game := False \<rparr>) (b_games b) \<rparr>"

definition unflag :: "game \<Rightarrow> game" where
  "unflag g = g\<lparr> g_should_attempt_to_close_game := False \<rparr>"

definition json_roundtrip :: "(proposer_backup \<Rightarrow> 'j) \<Rightarrow> ('j \<Rightarrow> proposer_backup option) \<Rightarrow> bool" where
  "json_roundtrip to_json of_json \<longleftrightarrow> (\<forall>b. of_json (to_json b) = Some (serde_skip b))"

lemma insert_all_distinct:
  "distinct (map g_index gs) \<Longrightarrow> g_index ` set gs \<inter> fst ` set m = {} \<Longrightarrow>
   fold (\<lambda>g. hm_insert (g_index g) g) gs m = m @ map (\<lambda>g. (g_index g, g)) gs"
proof (induction gs arbitrary: m)
  case Nil
  then show ?case by simp
next
  case (Cons g gs)
  then have "hm_insert (g_index g) g m = m @ [(g_index g, g)]" by (intro hm_insert_fresh) auto
  moreover have "fold (\<lambda>g. hm_insert (g_index g) g) gs (m @ [(g_index g, g)]) = (m @ [(g_index g, g)]) @ map (\<lambda>g. (g_index g, g)) gs"
    using Cons.prems by (intro Cons.IH) auto
  ultimately show ?case by simp
qed

lemma games_keyed_map:
  assumes "games_keyed gs" and "\<And>g. g_index (f g) = g_index g"
  shows "map (\<lambda>g. (g_index g, g)) (map f (hm_values gs)) = map (\<lambda>(k, g). (k, f g)) gs"
  using assms by (auto simp: games_keyed_def)

lemma from_backup_unflag:
  assumes "games_keyed (ps_games st)"
  shows "ps_games (from_backup (serde_skip (to_backup st))) = map (\<lambda>(k, g). (k, unflag g)) (ps_games st)"
proof -
  have idx: "map g_index (map unflag (hm_values (ps_games st))) = hm_keys (ps_games st)"
    using assms by (auto simp: games_keyed_def unflag_def)
  have "distinct (map g_index (map unflag (hm_values (ps_games st))))"
    unfolding idx using assms by (simp add: games_keyed_def hm_wf_def)
  from insert_all_distinct [OF this, of "[]"] games_keyed_map [OF assms, of unflag]
  show ?thesis
    by (simp add: from_backup_def Let_def serde_skip_def to_backup_def backup_new_def unflag_def [abs_def])
qed

lemma map_of_map_snd: "map_of (map (\<lambda>(k, g). (k, f g)) m) k = map_option f (map_of m k)"
  by (induction m) auto

lemma from_backup_anchor:
  "ps_anchor_game (from_backup b) =
     (case b_anchor_game_index b of None \<Rightarrow> None | Some i \<Rightarrow> hm_get (ps_games (from_backup b)) i)"
  by (simp add: from_backup_def Let_def split: option.split)

lemma try_init_failed:
  "fst (validate_and_init cfg of_json env p) = Inl e \<Longrightarrow>
   try_init cfg of_json (env # envs) p = try_init cfg of_json envs (snd (validate_and_init cfg of_json env p))"
  by (cases "validate_and_init cfg of_json env p") simp

section \<open>Properties\<close>

text \<open>C32: a proposer that was backed up comes back as it was. If the cache is well formed, the anchor is one
  of the cached games and some game is cached (or recorded as removed), then restoring the file
  written by a backup gives the same cursor, removal records and creation guard, the same games under
  the same indices up to the close flag that is not persisted, and the same anchor up to that flag;
  the canonical head is left to the next sync.\<close>

theorem backup_roundtrip:
  assumes json: "json_roundtrip to_json of_json" and wf: "state_wf (p_state p)"
    and anchor: "\<forall>a. ps_anchor_game (p_state p) = Some a \<longrightarrow> hm_get (ps_games (p_state p)) (g_index a) = Some a"
    and nonempty: "ps_games (p_state p) \<noteq> [] \<or> ps_removed_games (p_state p) \<noteq> []"
  shows "try_restore of_json (Some (to_json (make_backup p))) =
    Some ((p_state p)\<lparr> ps_anchor_game := map_option unflag (ps_anchor_game (p_state p)),
            ps_canonical_head_index := None, ps_canonical_head_l2_block := None,
            ps_games := map (\<lambda>(k, g). (k, unflag g)) (ps_games (p_state p)) \<rparr>,
          guard_l2_block (p_creation_guard p), guard_address (p_creation_guard p), guard_observation (p_creation_guard p))"
proof -
  let ?st = "p_state p" let ?b = "serde_skip (make_backup p)"
  have same: "from_backup ?b = from_backup (serde_skip (to_backup ?st))"
    by (simp add: from_backup_def make_backup_def serde_skip_def Let_def)
  have games: "ps_games (from_backup ?b) = map (\<lambda>(k, g). (k, unflag g)) (ps_games ?st)"
    unfolding same using wf by (intro from_backup_unflag) simp
  have "backup_validate ?b = Inr ()"
  proof -
    have "list_ex (\<lambda>g. g_index g = g_index a) (b_games ?b)" if "ps_anchor_game ?st = Some a" for a
      using anchor that hm_get_imp_value [of "ps_games ?st" "g_index a" a]
      by (force simp: list_ex_iff serde_skip_def make_backup_def to_backup_def backup_new_def)
    then show ?thesis
      using nonempty
      by (auto simp: backup_validate_def serde_skip_def make_backup_def to_backup_def backup_new_def split: option.splits)
  qed
  moreover have "of_json (to_json (make_backup p)) = Some ?b" using json by (simp add: json_roundtrip_def)
  ultimately have restored: "try_restore of_json (Some (to_json (make_backup p))) =
      Some (from_backup ?b, guard_l2_block (p_creation_guard p), guard_address (p_creation_guard p), guard_observation (p_creation_guard p))"
    by (simp add: try_restore_def backup_load_def) (simp add: serde_skip_def make_backup_def to_backup_def backup_new_def)
  have "ps_anchor_game (from_backup ?b) = map_option unflag (ps_anchor_game ?st)"
  proof -
    have "b_anchor_game_index ?b = map_option g_index (ps_anchor_game ?st)"
      by (simp add: serde_skip_def make_backup_def to_backup_def backup_new_def)
    with anchor show ?thesis
      by (cases "ps_anchor_game ?st") (simp_all add: from_backup_anchor games map_of_map_snd)
  qed
  moreover have "ps_cursor (from_backup ?b) = ps_cursor ?st"
    by (cases "ps_cursor ?st")
       (simp add: from_backup_def Let_def serde_skip_def make_backup_def to_backup_def backup_new_def
          cursor_none_def cursor_from_def split: option.splits)
  moreover have "ps_canonical_head_index (from_backup ?b) = None" "ps_canonical_head_l2_block (from_backup ?b) = None"
    "ps_removed_games (from_backup ?b) = ps_removed_games ?st"
    by (simp_all add: from_backup_def Let_def serde_skip_def make_backup_def to_backup_def backup_new_def)
  ultimately show ?thesis unfolding restored using games by (simp add: proposer_state.equality)
qed

text \<open>a file that does not parse, has another version, points its cursor into nothing or names an anchor
  it does not hold is never restored.\<close>

theorem try_restore_validates:
  assumes "try_restore of_json file = Some (st, l2, addr, obs)"
  shows "\<exists>json b. file = Some json \<and> of_json json = Some b \<and> b_version b = BACKUP_VERSION \<and> st = from_backup b \<and>
     (b_games b = [] \<and> b_removed_games b = [] \<longrightarrow> (case b_cursor b of None \<Rightarrow> True | Some c \<Rightarrow> c = 0)) \<and>
     (\<forall>i. b_anchor_game_index b = Some i \<longrightarrow> i \<in> g_index ` set (b_games b))"
proof -
  from assms obtain json b where jb: "file = Some json" "of_json json = Some b" "b_version b = BACKUP_VERSION" "st = from_backup b"
    and val: "backup_validate b = Inr ()"
    by (auto simp: try_restore_def backup_load_def split: option.splits if_splits sum.splits)
  from val have "b_games b = [] \<and> b_removed_games b = [] \<longrightarrow> (case b_cursor b of None \<Rightarrow> True | Some c \<Rightarrow> c = 0)"
    by (auto simp: backup_validate_def result_simps word_gt_0 split: option.splits if_splits)
  moreover from val have "\<forall>i. b_anchor_game_index b = Some i \<longrightarrow> i \<in> g_index ` set (b_games b)"
    by (auto simp: backup_validate_def result_simps list_ex_iff split: option.splits if_splits)
  ultimately show ?thesis using jb by blast
qed

text \<open>C33: initialization is not retryable past its first write: once \<open>init_state\<close> has stored the bond, every
  later attempt fails, whatever the environment. A proposer whose backup directory is not ready at the
  first attempt therefore never leaves \<open>try_init\<close>.\<close>

theorem try_init_stuck:
  assumes "p_init_bond p \<noteq> None"
  shows "fst (try_init cfg of_json envs p) = False"
  using assms
proof (induction envs arbitrary: p)
  case Nil
  then show ?case by simp
next
  case (Cons env envs)
  obtain r p' where run: "validate_and_init cfg of_json env p = (r, p')" by fastforce
  then have "(\<exists>e. r = Inl e) \<and> p_init_bond p' = p_init_bond p"
    using Cons.prems by (auto simp: validate_and_init_def init_state_def split: sum.splits)
  with Cons run show ?case by auto
qed

section \<open>Witnesses\<close>

definition sample_saved :: proposer where
  "sample_saved = sample_proposer\<lparr> p_state := sample_state \<rparr>"

lemma sample_json: "json_roundtrip id (\<lambda>b. Some (serde_skip b))"
  by (simp add: json_roundtrip_def)

theorem backup_roundtrip_witness:
  "(case try_restore (\<lambda>b. Some (serde_skip b)) (Some (id (make_backup sample_saved))) of
      None \<Rightarrow> False
    | Some (st, _) \<Rightarrow> hm_keys (ps_games st) = [0, 1, 2, 3] \<and> ps_anchor_game st = Some (unflag (sample_game 0 u32_MAX 10)))"
proof -
  have wf: "state_wf (p_state sample_saved)" by code_simp
  have anchor: "\<forall>a. ps_anchor_game (p_state sample_saved) = Some a \<longrightarrow> hm_get (ps_games (p_state sample_saved)) (g_index a) = Some a"
    by (simp add: sample_saved_def sample_state_def sample_game_def)
  have ne: "ps_games (p_state sample_saved) \<noteq> [] \<or> ps_removed_games (p_state sample_saved) \<noteq> []"
    by (simp add: sample_saved_def sample_state_def)
  show ?thesis
    unfolding backup_roundtrip [OF sample_json wf anchor ne] by (simp add: sample_saved_def sample_state_def)
qed

theorem try_restore_validates_witness:
  "try_restore (\<lambda>b. Some (serde_skip b)) (Some (make_backup sample_saved)) \<noteq> None \<and>
   b_version (serde_skip (make_backup sample_saved)) = BACKUP_VERSION"
proof -
  have "try_restore (\<lambda>b. Some (serde_skip b)) (Some (make_backup sample_saved)) \<noteq> None" by code_simp
  then obtain r where r: "try_restore (\<lambda>b. Some (serde_skip b)) (Some (make_backup sample_saved)) = Some r"
    by blast
  obtain st l2 addr obs where "r = (st, l2, addr, obs)" by (cases r)
  with r have run: "try_restore (\<lambda>b. Some (serde_skip b)) (Some (make_backup sample_saved)) = Some (st, l2, addr, obs)"
    by (simp only:)
  have "b_version (serde_skip (make_backup sample_saved)) = BACKUP_VERSION"
    using try_restore_validates [OF run] by (elim exE conjE) (simp only: option.inject)
  with r show ?thesis by (simp only: option.distinct simp_thms)
qed

text \<open>The directory is missing at the first attempt and present at the next two.\<close>

definition sample_startup :: "unit result \<Rightarrow> proposer_backup startup_env" where
  "sample_startup checks = \<lparr> st_view = sample_view, st_max_provable = Inr 100,
     st_path = Some \<lparr> bp_checks = checks, bp_file = None \<rparr> \<rparr>"

definition sample_new :: proposer where
  "sample_new = sample_proposer\<lparr> p_init_bond := None, p_contract_params := None \<rparr>"

theorem try_init_stuck_witness:
  "fst (try_init sample_config Some [sample_startup (Inl (Err ''missing'')), sample_startup (Inr ()), sample_startup (Inr ())] sample_new) = False \<and>
   fst (try_init sample_config Some [sample_startup (Inr ())] sample_new) = True"
proof -
  let ?first = "validate_and_init sample_config Some (sample_startup (Inl (Err ''missing''))) sample_new"
  have bond: "p_init_bond (snd ?first) \<noteq> None" by code_simp
  have "fst ?first = Inl (Err ''missing'')" by code_simp
  then have "fst (try_init sample_config Some [sample_startup (Inl (Err ''missing'')), sample_startup (Inr ()), sample_startup (Inr ())] sample_new)
      = fst (try_init sample_config Some [sample_startup (Inr ()), sample_startup (Inr ())] (snd ?first))"
    by (simp only: try_init_failed)
  also have "\<dots> = False" by (rule try_init_stuck [OF bond])
  finally have "fst (try_init sample_config Some [sample_startup (Inl (Err ''missing'')), sample_startup (Inr ()), sample_startup (Inr ())] sample_new) = False" .
  moreover have "fst (try_init sample_config Some [sample_startup (Inr ())] sample_new) = True" by code_simp
  ultimately show ?thesis by blast
qed

end
