(* ===== verification/Strings.thy ===== *)
theory Strings
  imports Prelude
begin

text \<open>
  The string functions of the Rust standard library that the components use: ASCII case, substrings, prefixes and suffixes, trimming, and
  decimal numbers, with the round trip between printing and parsing a number.
\<close>

section \<open>Case, substrings and white space\<close>

definition ascii_lower :: "char \<Rightarrow> char" where
  "ascii_lower c = (let n = of_char c :: nat in if 65 \<le> n \<and> n \<le> 90 then char_of (n + 32) else c)"

definition to_ascii_lowercase :: "string \<Rightarrow> string" where
  "to_ascii_lowercase s = map ascii_lower s"

fun contains :: "string \<Rightarrow> string \<Rightarrow> bool" where
  "contains [] sub = (sub = [])"
| "contains (c # s) sub = (take (length sub) (c # s) = sub \<or> contains s sub)"

definition is_whitespace :: "char \<Rightarrow> bool" where
  "is_whitespace c = (let n = of_char c :: nat in n = 32 \<or> 9 \<le> n \<and> n \<le> 13)"

definition trim :: "string \<Rightarrow> string" where
  "trim s = rev (dropWhile is_whitespace (rev (dropWhile is_whitespace s)))"

definition trim_end_matches :: "char \<Rightarrow> string \<Rightarrow> string" where
  "trim_end_matches c s = rev (dropWhile (\<lambda>x. x = c) (rev s))"

section \<open>Decimal numbers, prefixes and suffixes\<close>

definition digit :: "nat \<Rightarrow> char" where
  "digit n = char_of (48 + n)"

fun show_nat :: "nat \<Rightarrow> string" where
  "show_nat n = (if n < 10 then [digit n] else show_nat (n div 10) @ [digit (n mod 10)])"

declare show_nat.simps [simp del]

fun parse_digits :: "nat \<Rightarrow> string \<Rightarrow> nat option" where
  "parse_digits acc [] = Some acc"
| "parse_digits acc (c # cs) =
     (let d = of_char c :: nat in if 48 \<le> d \<and> d < 58 then parse_digits (acc * 10 + (d - 48)) cs else None)"

text \<open>\<open>str::parse::<u64>\<close>: an optional plus sign, at least one digit, and a value that fits.\<close>

definition parse_u64 :: "string \<Rightarrow> u64 option" where
  "parse_u64 s =
     (let ds = (case s of c # cs \<Rightarrow> if c = CHR ''+'' then cs else s | [] \<Rightarrow> []) in
      if ds = [] then None else
      case parse_digits 0 ds of None \<Rightarrow> None | Some n \<Rightarrow> if n < 2 ^ 64 then Some (of_nat n) else None)"

lemma parse_u64_code [code]:
  "parse_u64 s =
     (let ds = (case s of c # cs \<Rightarrow> if c = CHR ''+'' then cs else s | [] \<Rightarrow> []) in
      if ds = [] then None else
      case parse_digits 0 ds of None \<Rightarrow> None | Some n \<Rightarrow> if int n < 18446744073709551616 then Some (of_nat n) else None)"
proof -
  have "int n < 18446744073709551616 \<longleftrightarrow> n < 2 ^ 64" for n
    using of_nat_less_iff [of n "2 ^ 64", where 'a = int] by simp
  then show ?thesis by (simp only: parse_u64_def)
qed

definition strip_prefix :: "string \<Rightarrow> string \<Rightarrow> string option" where
  "strip_prefix p s = (if take (length p) s = p then Some (drop (length p) s) else None)"

definition strip_suffix :: "string \<Rightarrow> string \<Rightarrow> string option" where
  "strip_suffix p s = map_option rev (strip_prefix (rev p) (rev s))"

text \<open>Hexadecimal digits in lower case.\<close>

definition hex_digit :: "nat \<Rightarrow> char" where
  "hex_digit n = ''0123456789abcdef'' ! (n mod 16)"

section \<open>Printing and parsing\<close>

lemma parse_digits_append: "parse_digits acc (xs @ ys) = (case parse_digits acc xs of None \<Rightarrow> None | Some n \<Rightarrow> parse_digits n ys)"
  by (induction acc xs rule: parse_digits.induct) (auto simp: Let_def)

lemma digit_code: "n < 10 \<Longrightarrow> (of_char (digit n) :: nat) = 48 + n"
  by (simp add: digit_def)

lemma show_nat_digits:
  "(\<forall>c \<in> set (show_nat n). 48 \<le> (of_char c :: nat) \<and> (of_char c :: nat) < 58) \<and> show_nat n \<noteq> [] \<and> parse_digits 0 (show_nat n) = Some n"
proof (induction n rule: show_nat.induct)
  case (1 n)
  show ?case
  proof (cases "n < 10")
    case True
    then show ?thesis by (simp add: show_nat.simps [of n] digit_code Let_def)
  next
    case False
    then show ?thesis using 1 by (auto simp: show_nat.simps [of n] digit_code Let_def parse_digits_append)
  qed
qed

lemma takeWhile_stop: "\<forall>c \<in> set xs. P c \<Longrightarrow> \<not> P y \<Longrightarrow> takeWhile P (xs @ y # ys) = xs"
  by (induction xs) auto

lemma show_nat_chars: "c \<in> set (show_nat n) \<Longrightarrow> c \<noteq> CHR ''-'' \<and> c \<noteq> CHR ''+''"
  using show_nat_digits [of n] by fastforce

end
