(* ===== verification/Validator.thy ===== *)
theory Validator
  imports L1Chain Strings
begin

text \<open>
  Deciding whether a claim is wrong: \<open>fault-proof/src/game_validator.rs\<close> (the trait, its request and
  verdicts) and \<open>fault-proof/src/op_stack_game_validator.rs\<close> (the validator backed by an op-node and its
  execution node). The locale \<open>game_validator\<close> is the contract of the trait as the challenger uses it:
  a verdict of invalidity is backed by evidence, everything that goes wrong in getting the evidence is
  a verdict of unavailability. The OP Stack validator interprets it.
\<close>

section \<open>Requests and verdicts\<close>

record game_validation_request =
  vr_game_index :: u256
  vr_game_address :: address
  vr_l1_head :: b256
  vr_l2_block_number :: u256
  vr_output_root :: b256
  vr_deadline :: u64
  vr_now_timestamp :: u64

datatype invalid_reason = L2BlockNumberOverflow | ClaimAheadOfLocalSafeHead | OutputRootMismatch

datatype unavailable_reason =
    ValidationPending
  | OpNodeBehind
  | ExecutionNodeBehind
  | ExecutionHistoryMissing
  | ExecutionStateUnavailable
  | SafeDBDisabled
  | SafeDBHistoryMissing
  | L1CanonicalHashMismatch
  | OpNodeExecutionMismatch
  | RpcFailure string

datatype game_validation = Valid | Invalid invalid_reason | Unavailable unavailable_reason

definition is_invalid :: "game_validation \<Rightarrow> bool" where
  "is_invalid v = (case v of Invalid _ \<Rightarrow> True | _ \<Rightarrow> False)"

definition is_unavailable :: "game_validation \<Rightarrow> bool" where
  "is_unavailable v = (case v of Unavailable _ \<Rightarrow> True | _ \<Rightarrow> False)"

definition classify_computed_output_root :: "b256 \<Rightarrow> b256 \<Rightarrow> game_validation" where
  "classify_computed_output_root expected computed =
     (if computed = expected then Valid else Invalid OutputRootMismatch)"

definition initial_game_validation :: "u256 \<Rightarrow> game_validation" where
  "initial_game_validation l2_block_number = (case checked_l2_block_number l2_block_number of
       Inl _ \<Rightarrow> Invalid L2BlockNumberOverflow
     | Inr _ \<Rightarrow> Unavailable ValidationPending)"

section \<open>The nodes\<close>

record block_info =
  bi_number :: u64
  bi_hash :: b256

record sync_status =
  ss_current_l1 :: block_info
  ss_head_l1 :: block_info

record safe_head_response =
  sh_l1_block :: block_info
  sh_safe_head :: block_info

text \<open>
  The L1 node, the execution node and the op-node. Calls that the validator repeats carry the number of
  the call, since the answers may change in between.
\<close>

record validator_env =
  ve_l1_by_hash :: "b256 \<Rightarrow> header option result"
  ve_l1_by_number :: "nat \<Rightarrow> u64 \<Rightarrow> header option result"
  ve_sync_status :: "nat \<Rightarrow> sync_status result"
  ve_safe_head_at_l1 :: "u64 \<Rightarrow> safe_head_response result"
  ve_l2_by_number :: "nat \<Rightarrow> u64 \<Rightarrow> block_info option result"
  ve_l2_latest :: "block_info option result"
  ve_l2 :: l2_view
  ve_rollup_chain_ids :: "(u64 \<times> u64) result"
  ve_l1_chain_id :: "u64 result"
  ve_l2_chain_id :: "u64 result"

section \<open>Classifying errors\<close>

definition rpc_unavailable :: "err \<Rightarrow> unavailable_reason" where
  "rpc_unavailable e = RpcFailure (to_string e)"

definition classify_safe_db_error :: "err \<Rightarrow> unavailable_reason" where
  "classify_safe_db_error e =
     (let message = to_string e; lowercase = to_ascii_lowercase message in
      if contains lowercase ''method not found'' \<or> contains lowercase ''does not exist'' \<or>
         contains lowercase ''safe head database not enabled'' \<or>
         (contains lowercase ''safedb'' \<and> contains lowercase ''not enabled'')
      then SafeDBDisabled
      else if contains lowercase ''not found'' then SafeDBHistoryMissing
      else RpcFailure message)"

definition is_state_unavailable_error :: "err \<Rightarrow> bool" where
  "is_state_unavailable_error e =
     (let message = to_ascii_lowercase (to_string e)
      in contains message ''missing trie node'' \<or> contains message ''state is not available'' \<or>
         contains message ''historical state'')"

section \<open>The OP Stack validator\<close>

definition safe_db_record_is_at_or_before :: "u64 \<Rightarrow> u64 \<Rightarrow> bool" where
  "safe_db_record_is_at_or_before record_l1 requested_l1 \<longleftrightarrow> record_l1 \<le> requested_l1"

definition op_node_watermarks_are_usable :: "u64 \<Rightarrow> u64 \<Rightarrow> u64 \<Rightarrow> bool" where
  "op_node_watermarks_are_usable first_number second_number game_l1 \<longleftrightarrow>
     first_number > game_l1 \<and> second_number \<ge> first_number"

definition classify_claim_height :: "u64 \<Rightarrow> u64 \<Rightarrow> game_validation option" where
  "classify_claim_height claim_l2 safe_l2 =
     (if claim_l2 > safe_l2 then Some (Invalid ClaimAheadOfLocalSafeHead) else None)"

definition validate_rollup_chain_ids :: "u64 \<Rightarrow> u64 \<Rightarrow> u64 \<Rightarrow> u64 \<Rightarrow> unit result" where
  "validate_rollup_chain_ids rollup_l1 rollup_l2 l1_rpc l2_rpc =
     (if rollup_l1 \<noteq> l1_rpc then Inl (Err ''op-node rollup L1 chain ID does not match L1_RPC chain ID'')
      else if rollup_l2 \<noteq> l2_rpc then Inl (Err ''op-node rollup L2 chain ID does not match L2_RPC chain ID'')
      else Inr ())"

definition validate_canonical_l1_block ::
  "validator_env \<Rightarrow> nat \<Rightarrow> u64 \<Rightarrow> b256 \<Rightarrow> unavailable_reason + unit" where
  "validate_canonical_l1_block env k number expected_hash =
     try_bind (map_err rpc_unavailable (ve_l1_by_number env k number)) (\<lambda>h.
     try_bind (ok_or_err L1CanonicalHashMismatch h) (\<lambda>header.
     if hd_hash header \<noteq> expected_hash then Inl L1CanonicalHashMismatch else Inr ()))"

definition validate_safe_head_response ::
  "validator_env \<Rightarrow> u64 \<Rightarrow> safe_head_response \<Rightarrow> unavailable_reason + unit" where
  "validate_safe_head_response env requested_l1 response =
     (if \<not> safe_db_record_is_at_or_before (bi_number (sh_l1_block response)) requested_l1
      then Inl L1CanonicalHashMismatch else
      try_bind (validate_canonical_l1_block env 2 (bi_number (sh_l1_block response)) (bi_hash (sh_l1_block response))) (\<lambda>_.
      try_bind (map_err rpc_unavailable (ve_l2_by_number env 0 (bi_number (sh_safe_head response)))) (\<lambda>h.
      try_bind (ok_or_err OpNodeExecutionMismatch h) (\<lambda>l2_header.
      if bi_hash l2_header \<noteq> bi_hash (sh_safe_head response) then Inl OpNodeExecutionMismatch else Inr ()))))"

definition validate_node_pairing :: "validator_env \<Rightarrow> unit result" where
  "validate_node_pairing env =
     try_bind (with_context ''Failed to fetch op-node rollup config'' (ve_rollup_chain_ids env)) (\<lambda>(rollup_l1, rollup_l2).
     try_bind (ve_l1_chain_id env) (\<lambda>l1.
     try_bind (ve_l2_chain_id env) (\<lambda>l2.
     try_bind (validate_rollup_chain_ids rollup_l1 rollup_l2 l1 l2) (\<lambda>_.
     try_bind (with_context ''Failed to fetch op-node sync status'' (ve_sync_status env 0)) (\<lambda>status.
     try_bind (ok_or ''op-node has not processed an L1 block yet'' (checked_sub (bi_number (ss_current_l1 status)) 1)) (\<lambda>processed_l1.
     try_bind (with_context ''SafeDB is unavailable at processed L1 block'' (ve_safe_head_at_l1 env processed_l1)) (\<lambda>safe_head.
     map_err (\<lambda>_. Err ''Invalid SafeDB startup response'') (validate_safe_head_response env processed_l1 safe_head))))))))"

definition historical_local_safe_head ::
  "validator_env \<Rightarrow> game_validation_request \<Rightarrow> unavailable_reason + u64" where
  "historical_local_safe_head env request =
     try_bind (map_err rpc_unavailable (ve_l1_by_hash env (vr_l1_head request))) (\<lambda>h.
     try_bind (ok_or_err L1CanonicalHashMismatch h) (\<lambda>game_l1_header.
     let game_l1 = hd_number game_l1_header in
     try_bind (validate_canonical_l1_block env 0 game_l1 (vr_l1_head request)) (\<lambda>_.
     try_bind (map_err rpc_unavailable (ve_sync_status env 0)) (\<lambda>first_status.
     let first_l1 = ss_current_l1 first_status in
     try_bind (validate_canonical_l1_block env 1 (bi_number first_l1) (bi_hash first_l1)) (\<lambda>_.
     if bi_number first_l1 \<le> game_l1 then Inl OpNodeBehind else
     try_bind (map_err classify_safe_db_error (ve_safe_head_at_l1 env game_l1)) (\<lambda>safe_head.
     try_bind (validate_safe_head_response env game_l1 safe_head) (\<lambda>_.
     try_bind (map_err rpc_unavailable (ve_sync_status env 1)) (\<lambda>second_status.
     let second_l1 = ss_current_l1 second_status in
     try_bind (validate_canonical_l1_block env 3 (bi_number second_l1) (bi_hash second_l1)) (\<lambda>_.
     if \<not> op_node_watermarks_are_usable (bi_number first_l1) (bi_number second_l1) game_l1 then Inl OpNodeBehind
     else Inr (bi_number (sh_safe_head safe_head)))))))))))"

definition classify_execution_unavailability :: "validator_env \<Rightarrow> u64 \<Rightarrow> err \<Rightarrow> unavailable_reason" where
  "classify_execution_unavailability env claim_l2 root_error = (case ve_l2_latest env of
       Inr None \<Rightarrow> ExecutionNodeBehind
     | Inl e \<Rightarrow> rpc_unavailable e
     | Inr (Some latest) \<Rightarrow>
         if bi_number latest < claim_l2 then ExecutionNodeBehind
         else (case ve_l2_by_number env 1 claim_l2 of
             Inr None \<Rightarrow> ExecutionHistoryMissing
           | Inl e \<Rightarrow> rpc_unavailable e
           | Inr (Some _) \<Rightarrow> if is_state_unavailable_error root_error then ExecutionStateUnavailable
                             else RpcFailure (to_string root_error)))"

definition op_stack_validate :: "validator_env \<Rightarrow> game_validation_request \<Rightarrow> game_validation" where
  "op_stack_validate env request = (case checked_l2_block_number (vr_l2_block_number request) of
       Inl _ \<Rightarrow> Invalid L2BlockNumberOverflow
     | Inr claim_l2 \<Rightarrow> (case historical_local_safe_head env request of
           Inl reason \<Rightarrow> Unavailable reason
         | Inr safe_l2 \<Rightarrow> (case classify_claim_height claim_l2 safe_l2 of
               Some validation \<Rightarrow> validation
             | None \<Rightarrow> (case compute_output_root_at_block (ve_l2 env) (vr_l2_block_number request) of
                   Inr computed \<Rightarrow> classify_computed_output_root (vr_output_root request) computed
                 | Inl e \<Rightarrow> Unavailable (classify_execution_unavailability env claim_l2 e)))))"

section \<open>The contract of a validator\<close>

locale game_validator =
  fixes validate :: "game_validation_request \<Rightarrow> game_validation"
    and refuted :: "game_validation_request \<Rightarrow> bool"
  assumes invalid_refuted: "validate r = Invalid reason \<Longrightarrow> refuted r"
begin

lemma is_invalid_refuted: "is_invalid (validate r) \<Longrightarrow> refuted r"
  by (cases "validate r") (auto simp: is_invalid_def dest: invalid_refuted)

end

text \<open>
  The evidence of the OP Stack validator. The safe head of the game's L1 origin is trusted only if the
  origin is canonical, the op-node has processed it completely before and after the query, the SafeDB
  record is not later than the origin and canonical, and the execution node has the safe block.
\<close>

definition safe_head_evidence :: "validator_env \<Rightarrow> game_validation_request \<Rightarrow> u64 \<Rightarrow> bool" where
  "safe_head_evidence env r safe_l2 \<longleftrightarrow>
     (\<exists>origin h0 s0 s1 resp hr l2h.
        ve_l1_by_hash env (vr_l1_head r) = Inr (Some origin) \<and>
        ve_l1_by_number env 0 (hd_number origin) = Inr (Some h0) \<and> hd_hash h0 = vr_l1_head r \<and>
        ve_sync_status env 0 = Inr s0 \<and> ve_sync_status env 1 = Inr s1 \<and>
        hd_number origin < bi_number (ss_current_l1 s0) \<and>
        bi_number (ss_current_l1 s0) \<le> bi_number (ss_current_l1 s1) \<and>
        ve_safe_head_at_l1 env (hd_number origin) = Inr resp \<and>
        bi_number (sh_l1_block resp) \<le> hd_number origin \<and>
        ve_l1_by_number env 2 (bi_number (sh_l1_block resp)) = Inr (Some hr) \<and> hd_hash hr = bi_hash (sh_l1_block resp) \<and>
        ve_l2_by_number env 0 (bi_number (sh_safe_head resp)) = Inr (Some l2h) \<and> bi_hash l2h = bi_hash (sh_safe_head resp) \<and>
        safe_l2 = bi_number (sh_safe_head resp))"

definition op_stack_refuted :: "validator_env \<Rightarrow> game_validation_request \<Rightarrow> bool" where
  "op_stack_refuted env r \<longleftrightarrow> \<not> fits_u64 (vr_l2_block_number r) \<or>
     (\<exists>safe_l2. safe_head_evidence env r safe_l2 \<and>
        (unat safe_l2 < unat (vr_l2_block_number r) \<or>
         (\<exists>c. compute_output_root_at_block (ve_l2 env) (vr_l2_block_number r) = Inr c \<and> c \<noteq> vr_output_root r)))"

lemma validate_canonical_Inr [result_simps]:
  "validate_canonical_l1_block env k n hash = Inr u \<longleftrightarrow> (\<exists>h. ve_l1_by_number env k n = Inr (Some h) \<and> hd_hash h = hash)"
  unfolding validate_canonical_l1_block_def try_bind_eq_Inr map_err_eq_Inr ok_or_err_eq_Inr by auto

lemma historical_safe_head_evidence:
  assumes "historical_local_safe_head env r = Inr safe_l2"
  shows "safe_head_evidence env r safe_l2"
proof -
  from assms obtain origin h0 s0 s1 resp where
    o: "ve_l1_by_hash env (vr_l1_head r) = Inr (Some origin)"
      "ve_l1_by_number env 0 (hd_number origin) = Inr (Some h0)" "hd_hash h0 = vr_l1_head r"
    and s: "ve_sync_status env 0 = Inr s0" "ve_sync_status env 1 = Inr s1"
      "op_node_watermarks_are_usable (bi_number (ss_current_l1 s0)) (bi_number (ss_current_l1 s1)) (hd_number origin)"
    and resp: "ve_safe_head_at_l1 env (hd_number origin) = Inr resp"
      "validate_safe_head_response env (hd_number origin) resp = Inr ()" "safe_l2 = bi_number (sh_safe_head resp)"
    unfolding historical_local_safe_head_def Let_def try_bind_eq_Inr map_err_eq_Inr ok_or_err_eq_Inr validate_canonical_Inr
    by (auto split: if_splits simp: try_bind_eq_Inr map_err_eq_Inr validate_canonical_Inr)
  from resp(2) obtain hr l2h where "bi_number (sh_l1_block resp) \<le> hd_number origin"
    "ve_l1_by_number env 2 (bi_number (sh_l1_block resp)) = Inr (Some hr)" "hd_hash hr = bi_hash (sh_l1_block resp)"
    "ve_l2_by_number env 0 (bi_number (sh_safe_head resp)) = Inr (Some l2h)" "bi_hash l2h = bi_hash (sh_safe_head resp)"
    unfolding validate_safe_head_response_def
    by (auto split: if_splits simp: try_bind_eq_Inr map_err_eq_Inr ok_or_err_eq_Inr validate_canonical_Inr safe_db_record_is_at_or_before_def)
  with o s resp show ?thesis
    unfolding safe_head_evidence_def op_node_watermarks_are_usable_def by blast
qed

lemma op_stack_validate_refuted:
  assumes "op_stack_validate env r = Invalid reason"
  shows "op_stack_refuted env r"
proof (cases "checked_l2_block_number (vr_l2_block_number r)")
  case (Inl e)
  then show ?thesis by (simp add: op_stack_refuted_def checked_l2_block_number_def split: if_splits)
next
  case (Inr claim)
  then have claim: "unat (vr_l2_block_number r) = unat claim" by (simp add: checked_l2_block_number_Inr)
  from assms Inr obtain safe where safe: "historical_local_safe_head env r = Inr safe"
    by (auto simp: op_stack_validate_def split: sum.splits)
  with assms Inr have "safe < claim \<or> (\<exists>c. compute_output_root_at_block (ve_l2 env) (vr_l2_block_number r) = Inr c \<and> c \<noteq> vr_output_root r)"
    by (auto simp: op_stack_validate_def classify_claim_height_def classify_computed_output_root_def
        split: sum.splits if_splits)
  with historical_safe_head_evidence [OF safe] claim show ?thesis
    unfolding op_stack_refuted_def by (auto simp: word_less_nat_alt)
qed

interpretation op_stack: game_validator "op_stack_validate env" "op_stack_refuted env" for env
  by unfold_locales (rule op_stack_validate_refuted)

section \<open>Properties\<close>

text \<open>C26: the OP Stack validator calls a claim invalid only on evidence: the block number does not fit, or the
  op-node's safe head for the game's canonical L1 origin (established as above) is below the claimed
  block, or the locally computed output root differs. No failed, missing or inconsistent answer of a
  node ever makes a claim invalid.\<close>

theorem op_stack_invalid_needs_evidence:
  assumes "op_stack_validate env r = Invalid reason"
  shows "\<not> fits_u64 (vr_l2_block_number r) \<or>
     (\<exists>safe_l2. safe_head_evidence env r safe_l2 \<and>
        (unat safe_l2 < unat (vr_l2_block_number r) \<or>
         (\<exists>c. compute_output_root_at_block (ve_l2 env) (vr_l2_block_number r) = Inr c \<and> c \<noteq> vr_output_root r)))"
  using op_stack.invalid_refuted [OF assms] by (simp only: op_stack_refuted_def)

section \<open>Witnesses\<close>

definition sample_validator :: validator_env where
  "sample_validator = \<lparr> ve_l1_by_hash = (\<lambda>h. Inr (Some (sample_header 7))),
     ve_l1_by_number = (\<lambda>_ n. Inr (Some (sample_header n))),
     ve_sync_status = (\<lambda>_. Inr \<lparr> ss_current_l1 = \<lparr> bi_number = 9, bi_hash = 109 \<rparr>, ss_head_l1 = \<lparr> bi_number = 10, bi_hash = 110 \<rparr> \<rparr>),
     ve_safe_head_at_l1 = (\<lambda>_. Inr \<lparr> sh_l1_block = \<lparr> bi_number = 6, bi_hash = 106 \<rparr>, sh_safe_head = \<lparr> bi_number = 50, bi_hash = 5 \<rparr> \<rparr>),
     ve_l2_by_number = (\<lambda>_ n. Inr (Some \<lparr> bi_number = n, bi_hash = 5 \<rparr>)),
     ve_l2_latest = Inr (Some \<lparr> bi_number = 60, bi_hash = 6 \<rparr>),
     ve_l2 = \<lparr> get_header_by_number = (\<lambda>_. Inr (Some \<lparr> h_state_root = 1, h_hash = 2, h_withdrawals_root = Some 3 \<rparr>)),
               get_proof_storage_hash = (\<lambda>_ _. Inr 4), EMPTY_ROOT_HASH = 0, keccak_L2Output = (\<lambda>_ _ _ _. 7) \<rparr>,
     ve_rollup_chain_ids = Inr (1, 42220), ve_l1_chain_id = Inr 1, ve_l2_chain_id = Inr 42220 \<rparr>"

definition sample_request :: "u256 \<Rightarrow> b256 \<Rightarrow> game_validation_request" where
  "sample_request n root = \<lparr> vr_game_index = 0, vr_game_address = 1, vr_l1_head = 107, vr_l2_block_number = n,
     vr_output_root = root, vr_deadline = 1000, vr_now_timestamp = 10 \<rparr>"

theorem op_stack_invalid_needs_evidence_witness:
  "op_stack_validate sample_validator (sample_request 40 8) = Invalid OutputRootMismatch \<and>
   op_stack_validate sample_validator (sample_request 40 7) = Valid \<and>
   (\<exists>safe_l2. safe_head_evidence sample_validator (sample_request 40 8) safe_l2)"
proof -
  have bad: "op_stack_validate sample_validator (sample_request 40 8) = Invalid OutputRootMismatch" by code_simp
  moreover have "op_stack_validate sample_validator (sample_request 40 7) = Valid" by code_simp
  moreover have "fits_u64 (vr_l2_block_number (sample_request 40 8))" by code_simp
  ultimately show ?thesis using op_stack_invalid_needs_evidence [OF bad] by blast
qed

end
