(* ===== verification/Challenger.thy ===== *)
theory Challenger
  imports Validator
begin

text \<open>
  The challenger (\<open>fault-proof/src/challenger.rs\<close>): its cache, one synchronization pass (pinned snapshot,
  discovery, refresh of each game), and the handlers that challenge, resolve, close and claim after a
  fresh look at the latest block.

  The validator of the trait \<open>GameValidator\<close> is the argument \<open>validate\<close>; contracts and nodes are views as in
  the proposer. The random choice of the testing mode that challenges valid games is the boolean
  \<open>roll\<close>: whether the mode is on and the dice fell for it.
\<close>

section \<open>State\<close>

record cgame =
  cg_index :: u256
  cg_address :: address
  cg_parent_index :: u32
  cg_l2_block_number :: u256
  cg_output_root :: b256
  cg_l1_head :: b256
  cg_deadline :: u64
  cg_validation :: game_validation
  cg_status :: game_status
  cg_proposal_status :: proposal_status
  cg_should_attempt_to_challenge :: bool
  cg_should_attempt_to_resolve :: bool
  cg_should_attempt_to_close_game :: bool
  cg_should_attempt_to_claim_bond :: bool

type_synonym cgame_map = "(u256, cgame) hashmap"

record challenger_state =
  cs_cursor :: "u256 option"
  cs_games :: cgame_map
  cs_pending_discoveries :: "u256 list"

record challenger_config =
  cc_game_type :: u32
  cc_anchor_state_registry_address :: address
  cc_registry :: address
  cc_sync_l1_confirmations :: u64
  cc_disable_monitor_only :: bool
  cc_signer :: address

record challenger =
  c_state :: challenger_state
  c_challenger_bond :: "u256 option"
  c_close_game_failures :: "(address, u8) hashmap"
  c_highest_accepted_l1_block :: u64
  c_sent :: "l1_tx list"

definition challenger_state_new :: challenger_state where
  "challenger_state_new = \<lparr> cs_cursor = None, cs_games = [], cs_pending_discoveries = [] \<rparr>"

definition new_challenger :: challenger where
  "new_challenger = \<lparr> c_state = challenger_state_new, c_challenger_bond = None, c_close_game_failures = [],
     c_highest_accepted_l1_block = 0, c_sent = [] \<rparr>"

abbreviation upd_cs :: "(challenger_state \<Rightarrow> challenger_state) \<Rightarrow> challenger \<Rightarrow> challenger" where
  "upd_cs f c \<equiv> c\<lparr> c_state := f (c_state c) \<rparr>"

definition validation_request :: "cgame \<Rightarrow> u64 \<Rightarrow> game_validation_request" where
  "validation_request g now = \<lparr> vr_game_index = cg_index g, vr_game_address = cg_address g, vr_l1_head = cg_l1_head g,
     vr_l2_block_number = cg_l2_block_number g, vr_output_root = cg_output_root g, vr_deadline = cg_deadline g,
     vr_now_timestamp = now \<rparr>"

definition clear_action_flags :: "cgame \<Rightarrow> cgame" where
  "clear_action_flags g = g\<lparr> cg_should_attempt_to_challenge := False, cg_should_attempt_to_resolve := False,
     cg_should_attempt_to_close_game := False, cg_should_attempt_to_claim_bond := False \<rparr>"

definition requires_validation :: "cgame \<Rightarrow> bool" where
  "requires_validation g \<longleftrightarrow> cg_status g = IN_PROGRESS \<and> cg_proposal_status g = Unchallenged \<and>
     is_unavailable (cg_validation g)"

definition record_discovery_attempt :: "u256 \<Rightarrow> bool \<Rightarrow> challenger_state \<Rightarrow> challenger_state" where
  "record_discovery_attempt idx failed st =
     st\<lparr> cs_cursor := Some idx,
         cs_pending_discoveries := (if failed then List.insert idx (cs_pending_discoveries st)
                                    else cs_pending_discoveries st) \<rparr>"

definition record_game_sync_failure :: "u256 \<Rightarrow> challenger_state \<Rightarrow> challenger_state" where
  "record_game_sync_failure idx st = (case hm_get (cs_games st) idx of
       None \<Rightarrow> st
     | Some g \<Rightarrow> st\<lparr> cs_games := hm_insert idx (clear_action_flags g) (cs_games st) \<rparr>)"

section \<open>Startup\<close>

definition c_startup_validations :: "challenger_config \<Rightarrow> l1_view \<Rightarrow> unit result \<Rightarrow> u256 result" where
  "c_startup_validations cfg v validator_startup =
     try_bind (game_impl v (cc_game_type cfg)) (\<lambda>impl.
     try_bind (anchorStateRegistry v impl) (\<lambda>expected.
     if cc_registry cfg \<noteq> expected then Inl (Err ''Anchor state registry address mismatch'') else
     try_bind (challengerBond v impl) (\<lambda>bond.
     try_bind validator_startup (\<lambda>_. Inr bond))))"

definition c_validate_and_init :: "challenger_config \<Rightarrow> l1_view \<Rightarrow> unit result \<Rightarrow> (challenger, unit) handler" where
  "c_validate_and_init cfg v validator_startup =
     seq (lift (c_startup_validations cfg v validator_startup)) (\<lambda>bond.
     seq (read_st c_challenger_bond) (\<lambda>b.
     if b \<noteq> None then fail (Panic ''challenger_bond must not already be set'')
     else write_st (\<lambda>c. c\<lparr> c_challenger_bond := Some bond \<rparr>)))"

text \<open>The retry loop, over what the successive attempts see: \<open>True\<close> once an attempt succeeds.\<close>

fun c_try_init :: "challenger_config \<Rightarrow> (l1_view \<times> unit result) list \<Rightarrow> (challenger, bool) handler" where
  "c_try_init cfg [] = ret False"
| "c_try_init cfg ((v, validator_startup) # envs) =
     seq (attempt (c_validate_and_init cfg v validator_startup)) (\<lambda>res.
     case res of Inr _ \<Rightarrow> ret True | Inl _ \<Rightarrow> c_try_init cfg envs)"

section \<open>The snapshot\<close>

definition confirmed_l1_number :: "u64 \<Rightarrow> u64 \<Rightarrow> u64" where
  "confirmed_l1_number latest_number confirmations = saturating_sub latest_number confirmations"

definition confirmed_l1_head_regressed :: "u64 \<Rightarrow> u64 \<Rightarrow> bool" where
  "confirmed_l1_head_regressed confirmed_number highest_accepted \<longleftrightarrow> confirmed_number < highest_accepted"

record l1_sync_snapshot =
  snap_confirmed_number :: u64
  snap_pinned_hash :: b256
  snap_latest_timestamp :: u64

definition l1_sync_snapshot_of :: "challenger_config \<Rightarrow> l1_rpc \<Rightarrow> u64 \<Rightarrow> l1_sync_snapshot result" where
  "l1_sync_snapshot_of cfg rpc highest_accepted =
     try_bind (get_block_latest rpc) (\<lambda>lb.
     try_bind (ok_or ''Failed to fetch latest L1 block'' lb) (\<lambda>latest.
     let confirmed_number = confirmed_l1_number (hd_number latest) (cc_sync_l1_confirmations cfg) in
     if confirmed_l1_head_regressed confirmed_number highest_accepted
     then Inl (Err ''L1 confirmed head moved backwards'') else
     try_bind (if confirmed_number = hd_number latest then Inr (hd_hash latest)
               else try_bind (get_block_by_number rpc confirmed_number) (\<lambda>cb.
                    try_bind (ok_or ''Confirmed L1 block is unavailable on this backend'' cb) (\<lambda>b. Inr (hd_hash b)))) (\<lambda>hash.
     Inr \<lparr> snap_confirmed_number = confirmed_number, snap_pinned_hash = hash, snap_latest_timestamp = hd_timestamp latest \<rparr>)))"

section \<open>Discovery\<close>

definition c_fetch_game :: "challenger_config \<Rightarrow> l1_view \<Rightarrow> u256 \<Rightarrow> cgame option result" where
  "c_fetch_game cfg v idx =
     try_bind (gameAtIndex v idx) (\<lambda>fg.
     let addr = fg_proxy fg in
     try_bind (gameType_of v addr) (\<lambda>game_type.
     if game_type \<noteq> cc_game_type cfg then Inr None else
     try_bind (anchorStateRegistry v addr) (\<lambda>asr.
     if asr \<noteq> cc_anchor_state_registry_address cfg then Inr None else
     try_bind (wasRespectedGameTypeWhenCreated v addr) (\<lambda>was_respected.
     if \<not> was_respected then Inr None else
     try_bind (l2BlockNumber v addr) (\<lambda>l2_block_number.
     try_bind (rootClaim v addr) (\<lambda>output_root.
     try_bind (l1Head v addr) (\<lambda>l1_head.
     try_bind (claimData v addr) (\<lambda>cd.
     try_bind (status_of v addr) (\<lambda>status.
     Inr (Some \<lparr> cg_index = idx, cg_address = addr, cg_parent_index = cd_parentIndex cd,
       cg_l2_block_number = l2_block_number, cg_output_root = output_root, cg_l1_head = l1_head,
       cg_deadline = cd_deadline cd, cg_validation = initial_game_validation l2_block_number, cg_status = status,
       cg_proposal_status = cd_status cd, cg_should_attempt_to_challenge = False, cg_should_attempt_to_resolve = False,
       cg_should_attempt_to_close_game = False, cg_should_attempt_to_claim_bond = False \<rparr>))))))))))"

definition insert_fetched :: "u256 \<Rightarrow> cgame option \<Rightarrow> challenger_state \<Rightarrow> challenger_state" where
  "insert_fetched idx g st = (case g of None \<Rightarrow> st | Some x \<Rightarrow> st\<lparr> cs_games := hm_insert idx x (cs_games st) \<rparr>)"

definition retry_discovery :: "challenger_config \<Rightarrow> l1_view \<Rightarrow> u256 \<Rightarrow> challenger_state \<Rightarrow> challenger_state" where
  "retry_discovery cfg v idx st = (case c_fetch_game cfg v idx of
       Inl _ \<Rightarrow> st
     | Inr g \<Rightarrow> (insert_fetched idx g st)\<lparr> cs_pending_discoveries := removeAll idx (cs_pending_discoveries st) \<rparr>)"

definition retry_discoveries :: "challenger_config \<Rightarrow> l1_view \<Rightarrow> challenger_state \<Rightarrow> challenger_state" where
  "retry_discoveries cfg v st = fold (retry_discovery cfg v) (cs_pending_discoveries st) st"

definition discover_one :: "challenger_config \<Rightarrow> l1_view \<Rightarrow> u256 \<Rightarrow> challenger_state \<Rightarrow> challenger_state" where
  "discover_one cfg v idx st = (case c_fetch_game cfg v idx of
       Inl _ \<Rightarrow> record_discovery_attempt idx True st
     | Inr g \<Rightarrow> record_discovery_attempt idx False (insert_fetched idx g st))"

text \<open>
  \<open>while next_index <= latest_index\<close>. The increment wraps at the last index of a \<open>U256\<close>, which the factory
  cannot have: the latest index is the number of games minus one. The model stops there.
\<close>

function discover :: "challenger_config \<Rightarrow> l1_view \<Rightarrow> u256 \<Rightarrow> u256 \<Rightarrow> challenger_state \<Rightarrow> challenger_state" where
  "discover cfg v latest idx st =
     (if idx \<le> latest
      then (if idx = - 1 then discover_one cfg v idx st else discover cfg v latest (idx + 1) (discover_one cfg v idx st))
      else st)"
  by pat_completeness auto
termination
proof (relation "measure (\<lambda>(cfg, v, latest, idx, st). 2 ^ 256 - unat idx)", goal_cases)
  case 1
  then show ?case by simp
next
  case (2 cfg v latest idx st)
  then have "unat (idx + 1) = Suc (unat idx)" by (intro unat_add_one)
  moreover have "unat idx < 2 ^ LENGTH(256)" by (rule unsigned_less)
  ultimately show ?case by simp
qed

declare discover.simps [simp del]

definition discover_new :: "challenger_config \<Rightarrow> l1_view \<Rightarrow> (challenger, unit) handler" where
  "discover_new cfg v =
     seq (lift (fetch_latest_game_index v)) (\<lambda>latest.
     case latest of
       None \<Rightarrow> ret ()
     | Some latest_index \<Rightarrow> write_st (upd_cs (\<lambda>st.
         discover cfg v latest_index (case cs_cursor st of None \<Rightarrow> 0 | Some c \<Rightarrow> c + 1) st)))"

section \<open>Refreshing a game\<close>

datatype cgame_action = CUpdate cgame | CRemove u256

definition c_validate_game :: "(game_validation_request \<Rightarrow> game_validation) \<Rightarrow> cgame \<Rightarrow> u64 \<Rightarrow> game_validation" where
  "c_validate_game validate g now = (case checked_l2_block_number (cg_l2_block_number g) of
       Inl _ \<Rightarrow> Invalid L2BlockNumberOverflow
     | Inr _ \<Rightarrow> validate (validation_request g now))"

definition sync_unchallenged ::
  "(game_validation_request \<Rightarrow> game_validation) \<Rightarrow> l1_view \<Rightarrow> u64 \<Rightarrow> cgame \<Rightarrow> cgame result" where
  "sync_unchallenged validate v now g =
     (if now \<ge> cg_deadline g then Inr g
      else let g1 = (if is_unavailable (cg_validation g) then g\<lparr> cg_validation := c_validate_game validate g now \<rparr> else g) in
           try_bind (if is_invalid (cg_validation g1) then Inr False
                     else is_parent_challenger_wins (cg_parent_index g1) v) (\<lambda>parent_lost.
           Inr (g1\<lparr> cg_should_attempt_to_challenge := (is_invalid (cg_validation g1) \<or> parent_lost) \<rparr>)))"

definition sync_challenged :: "challenger_config \<Rightarrow> l1_view \<Rightarrow> u64 \<Rightarrow> claim_data \<Rightarrow> cgame \<Rightarrow> cgame result" where
  "sync_challenged cfg v now cd g =
     try_bind (if now \<ge> cg_deadline g \<and> cd_counteredBy cd = cc_signer cfg
               then is_parent_resolved (cg_parent_index g) v else Inr False) (\<lambda>resolve.
     Inr (g\<lparr> cg_should_attempt_to_resolve := resolve \<rparr>))"

definition sync_challenger_wins ::
  "challenger_config \<Rightarrow> l1_view \<Rightarrow> claim_data \<Rightarrow> cgame \<Rightarrow> (challenger, cgame_action) handler" where
  "sync_challenger_wins cfg v cd g =
     seq (lift (isGameFinalized v (cg_address g))) (\<lambda>is_finalized.
     if \<not> is_finalized then ret (CUpdate g) else
     seq (lift (bondDistributionMode v (cg_address g))) (\<lambda>mode.
     if mode = BOND_DISTRIBUTION_MODE_UNDECIDED then
       (if cd_counteredBy cd \<noteq> cc_signer cfg
        then seq (write_st (\<lambda>c. c\<lparr> c_close_game_failures := hm_remove (cg_address g) (c_close_game_failures c) \<rparr>)) (\<lambda>_.
             ret (CRemove (cg_index g)))
        else ret (CUpdate (g\<lparr> cg_should_attempt_to_close_game := True \<rparr>)))
     else
       seq (write_st (\<lambda>c. c\<lparr> c_close_game_failures := hm_remove (cg_address g) (c_close_game_failures c) \<rparr>)) (\<lambda>_.
       seq (lift (credit v (cg_address g) (cc_signer cfg))) (\<lambda>amount.
       if amount = 0 then ret (CRemove (cg_index g))
       else ret (CUpdate (g\<lparr> cg_should_attempt_to_claim_bond := True \<rparr>))))))"

definition c_sync_game ::
  "challenger_config \<Rightarrow> (game_validation_request \<Rightarrow> game_validation) \<Rightarrow> l1_view \<Rightarrow> u64 \<Rightarrow> cgame \<Rightarrow> (challenger, cgame_action) handler" where
  "c_sync_game cfg validate v now game =
     seq (lift (status_of v (cg_address game))) (\<lambda>status.
     seq (lift (claimData v (cg_address game))) (\<lambda>cd.
     let g = clear_action_flags (game\<lparr> cg_status := status, cg_proposal_status := cd_status cd, cg_deadline := cd_deadline cd \<rparr>) in
     case status of
       IN_PROGRESS \<Rightarrow>
         seq (lift (case cg_proposal_status g of
                 Unchallenged \<Rightarrow> sync_unchallenged validate v now g
               | Challenged \<Rightarrow> sync_challenged cfg v now cd g
               | _ \<Rightarrow> Inr g)) (\<lambda>g'. ret (CUpdate g'))
     | CHALLENGER_WINS \<Rightarrow> sync_challenger_wins cfg v cd g
     | DEFENDER_WINS \<Rightarrow> ret (CRemove (cg_index g))
     | GameStatus_Invalid \<Rightarrow> fail (Panic ''Unexpected game status'')))"

text \<open>
  The loop over the cached games: a failure of one game (a panic excepted, which unwinds) only clears that
  game's flags and the loop goes on; the actions of the others are collected.
\<close>

fun sync_each ::
  "challenger_config \<Rightarrow> (game_validation_request \<Rightarrow> game_validation) \<Rightarrow> l1_view \<Rightarrow> u64 \<Rightarrow> cgame list \<Rightarrow>
   cgame_action list \<Rightarrow> (challenger, cgame_action list) handler" where
  "sync_each cfg validate v now [] acts = ret acts"
| "sync_each cfg validate v now (g # gs) acts =
     seq (attempt (c_sync_game cfg validate v now g)) (\<lambda>res.
     case res of
       Inr act \<Rightarrow> sync_each cfg validate v now gs (acts @ [act])
     | Inl (Panic m) \<Rightarrow> fail (Panic m)
     | Inl (Err m) \<Rightarrow> seq (write_st (upd_cs (record_game_sync_failure (cg_index g)))) (\<lambda>_.
                      sync_each cfg validate v now gs acts))"

definition c_apply_action :: "cgame_action \<Rightarrow> challenger_state \<Rightarrow> challenger_state" where
  "c_apply_action act st = (case act of
       CUpdate g \<Rightarrow> st\<lparr> cs_games := hm_insert (cg_index g) g (cs_games st) \<rparr>
     | CRemove idx \<Rightarrow> st\<lparr> cs_games := hm_remove idx (cs_games st) \<rparr>)"

record challenger_env =
  ce_rpc :: l1_rpc
  ce_at_discovery :: "b256 \<Rightarrow> l1_view"
  ce_at_refresh :: "b256 \<Rightarrow> l1_view"
  ce_validate :: "game_validation_request \<Rightarrow> game_validation"

definition c_refresh ::
  "challenger_config \<Rightarrow> (game_validation_request \<Rightarrow> game_validation) \<Rightarrow> l1_view \<Rightarrow> u64 \<Rightarrow> (challenger, unit) handler" where
  "c_refresh cfg validate v now =
     seq (read_st (\<lambda>c. hm_values (cs_games (c_state c)))) (\<lambda>games.
     seq (sync_each cfg validate v now games []) (\<lambda>actions.
     write_st (upd_cs (fold c_apply_action actions))))"

definition c_sync_state :: "challenger_config \<Rightarrow> challenger_env \<Rightarrow> (challenger, unit) handler" where
  "c_sync_state cfg env =
     seq (read_st c_highest_accepted_l1_block) (\<lambda>highest.
     seq (lift (l1_sync_snapshot_of cfg (ce_rpc env) highest)) (\<lambda>snap.
     seq (write_st (\<lambda>c. c\<lparr> c_highest_accepted_l1_block := snap_confirmed_number snap \<rparr>)) (\<lambda>_.
     let v = ce_at_discovery env (snap_pinned_hash snap) in
     seq (write_st (upd_cs (retry_discoveries cfg v))) (\<lambda>_.
     seq (discover_new cfg v) (\<lambda>_.
     c_refresh cfg (ce_validate env) (ce_at_refresh env (snap_pinned_hash snap)) (snap_latest_timestamp snap))))))"

section \<open>Acting on flags\<close>

text \<open>
  What the handlers see of the chain: the node at the moment of the action, and the signer. The latest block is
  fetched anew for the preflight of each game, on a flagged game and on the malicious candidate (\<open>True\<close>), and once
  more to choose that candidate.
\<close>

record action_env =
  ae_latest :: "bool \<Rightarrow> u256 \<Rightarrow> header option result"
  ae_latest_scan :: "header option result"
  ae_at :: "b256 \<Rightarrow> l1_view"
  ae_view :: l1_view
  ae_send :: sender

definition c_submit :: "sender \<Rightarrow> l1_tx \<Rightarrow> (challenger, receipt) handler" where
  "c_submit snd_tx tx c = (case send_checked snd_tx (c_sent c) tx of (r, sent) \<Rightarrow> (r, c\<lparr> c_sent := sent \<rparr>))"

definition challenge_preflight_ready :: "game_status \<Rightarrow> proposal_status \<Rightarrow> u64 \<Rightarrow> u64 \<Rightarrow> bool" where
  "challenge_preflight_ready status proposal_status latest_timestamp deadline \<longleftrightarrow>
     status = IN_PROGRESS \<and> proposal_status = Unchallenged \<and> latest_timestamp < deadline"

definition challenge_preflight :: "action_env \<Rightarrow> bool \<Rightarrow> cgame \<Rightarrow> bool result" where
  "challenge_preflight env malicious g =
     try_bind (ae_latest env malicious (cg_index g)) (\<lambda>lb.
     try_bind (ok_or ''Failed to fetch latest L1 block for action preflight'' lb) (\<lambda>latest.
     let v = ae_at env (hd_hash latest) in
     try_bind (status_of v (cg_address g)) (\<lambda>status.
     try_bind (claimData v (cg_address g)) (\<lambda>cd.
     Inr (challenge_preflight_ready status (cd_status cd) (hd_timestamp latest) (cd_deadline cd))))))"

definition resolution_still_pending :: "action_env \<Rightarrow> cgame \<Rightarrow> bool result" where
  "resolution_still_pending env g = try_bind (status_of (ae_view env) (cg_address g)) (\<lambda>s. Inr (s = IN_PROGRESS))"

definition claim_credit_available :: "action_env \<Rightarrow> cgame \<Rightarrow> address \<Rightarrow> bool result" where
  "claim_credit_available env g recipient =
     try_bind (credit (ae_view env) (cg_address g) recipient) (\<lambda>amount. Inr (amount > 0))"

definition submit_challenge_transaction_unchecked :: "action_env \<Rightarrow> cgame \<Rightarrow> bool \<Rightarrow> (challenger, unit) handler" where
  "submit_challenge_transaction_unchecked env g submit_enabled =
     seq (read_st c_challenger_bond) (\<lambda>b.
     seq (lift (ok_or ''challenger_bond must be set via startup_validations'' b)) (\<lambda>bond.
     if \<not> submit_enabled then ret ()
     else seq (c_submit (ae_send env) (Tx_challenge (cg_address g) bond)) (\<lambda>_. ret ())))"

definition submit_challenge_transaction :: "action_env \<Rightarrow> cgame \<Rightarrow> bool \<Rightarrow> (challenger, unit) handler" where
  "submit_challenge_transaction env g submit_enabled =
     seq (lift (challenge_preflight env False g)) (\<lambda>ready.
     if \<not> ready then fail (Err ''Challenge is no longer eligible at the latest L1 head'')
     else submit_challenge_transaction_unchecked env g submit_enabled)"

definition clear_challenge_flag :: "u256 \<Rightarrow> challenger_state \<Rightarrow> challenger_state" where
  "clear_challenge_flag idx st = (case hm_get (cs_games st) idx of
       None \<Rightarrow> st
     | Some g \<Rightarrow> st\<lparr> cs_games := hm_insert idx (g\<lparr> cg_should_attempt_to_challenge := False \<rparr>) (cs_games st) \<rparr>)"

definition challenge_one :: "challenger_config \<Rightarrow> action_env \<Rightarrow> bool \<Rightarrow> cgame \<Rightarrow> (challenger, unit) handler" where
  "challenge_one cfg env malicious g = (case challenge_preflight env malicious g of
       Inl _ \<Rightarrow> ret ()
     | Inr False \<Rightarrow> ret ()
     | Inr True \<Rightarrow>
         seq (attempt (submit_challenge_transaction_unchecked env g (cc_disable_monitor_only cfg))) (\<lambda>res.
         case res of
           Inl _ \<Rightarrow> ret ()
         | Inr _ \<Rightarrow> write_st (upd_cs (clear_challenge_flag (cg_index g)))))"

definition malicious_candidate :: "u64 \<Rightarrow> challenger_state \<Rightarrow> cgame option" where
  "malicious_candidate now st =
     min_by_key cg_index (filter (\<lambda>g. cg_validation g = Valid \<and> cg_status g = IN_PROGRESS \<and>
       cg_proposal_status g = Unchallenged \<and> cg_deadline g > now) (hm_values (cs_games st)))"

definition malicious_challenge :: "challenger_config \<Rightarrow> action_env \<Rightarrow> (challenger, unit) handler" where
  "malicious_challenge cfg env = (case ae_latest_scan env of
       Inl _ \<Rightarrow> ret ()
     | Inr None \<Rightarrow> ret ()
     | Inr (Some latest) \<Rightarrow>
         seq (read_st (\<lambda>c. malicious_candidate (hd_timestamp latest) (c_state c))) (\<lambda>cand.
         case cand of
           None \<Rightarrow> ret ()
         | Some g \<Rightarrow> challenge_one cfg env True g))"

definition handle_game_challenging :: "challenger_config \<Rightarrow> action_env \<Rightarrow> bool \<Rightarrow> (challenger, unit) handler" where
  "handle_game_challenging cfg env roll =
     seq (read_st (\<lambda>c. filter cg_should_attempt_to_challenge (hm_values (cs_games (c_state c))))) (\<lambda>candidates.
     seq (for_each (challenge_one cfg env False) candidates) (\<lambda>_.
     if roll then malicious_challenge cfg env else ret ()))"

definition c_submit_resolution_unchecked :: "action_env \<Rightarrow> cgame \<Rightarrow> (challenger, unit) handler" where
  "c_submit_resolution_unchecked env g = seq (c_submit (ae_send env) (Tx_resolve (cg_address g))) (\<lambda>_. ret ())"

definition c_submit_resolution_transaction :: "action_env \<Rightarrow> cgame \<Rightarrow> (challenger, unit) handler" where
  "c_submit_resolution_transaction env g =
     seq (lift (resolution_still_pending env g)) (\<lambda>pending.
     if \<not> pending then fail (Err ''Game is no longer in progress on L1'') else c_submit_resolution_unchecked env g)"

definition handle_game_resolution :: "action_env \<Rightarrow> (challenger, unit) handler" where
  "handle_game_resolution env =
     seq (read_st (\<lambda>c. filter cg_should_attempt_to_resolve (hm_values (cs_games (c_state c))))) (\<lambda>candidates.
     for_each (\<lambda>g. if resolution_still_pending env g = Inr True
                   then seq (attempt (c_submit_resolution_unchecked env g)) (\<lambda>_. ret ()) else ret ()) candidates)"

definition c_submit_close_game_transaction :: "challenger_config \<Rightarrow> action_env \<Rightarrow> cgame \<Rightarrow> (challenger, unit) handler" where
  "c_submit_close_game_transaction cfg env g =
     seq (lift (close_game_transaction (ae_view env) (cg_address g) (cc_signer cfg))) (\<lambda>tx.
     seq (c_submit (ae_send env) tx) (\<lambda>_. ret ()))"

definition c_close_failures :: "challenger \<Rightarrow> address \<Rightarrow> u8" where
  "c_close_failures c addr = (case hm_get (c_close_game_failures c) addr of None \<Rightarrow> 0 | Some n \<Rightarrow> n)"

definition c_close_one :: "challenger_config \<Rightarrow> action_env \<Rightarrow> cgame \<Rightarrow> (challenger, unit) handler" where
  "c_close_one cfg env g =
     seq (read_st (\<lambda>c. c_close_failures c (cg_address g))) (\<lambda>failure_count.
     if failure_count \<ge> MAX_CLOSE_GAME_FAILURES then ret () else
     seq (attempt (c_submit_close_game_transaction cfg env g)) (\<lambda>res.
     case res of
       Inl _ \<Rightarrow> write_st (\<lambda>c. c\<lparr> c_close_game_failures :=
                  hm_insert (cg_address g) (saturating_add (c_close_failures c (cg_address g)) 1) (c_close_game_failures c) \<rparr>)
     | Inr _ \<Rightarrow> write_st (\<lambda>c. c\<lparr> c_close_game_failures := hm_remove (cg_address g) (c_close_game_failures c) \<rparr>)))"

definition handle_game_closing :: "challenger_config \<Rightarrow> action_env \<Rightarrow> (challenger, unit) handler" where
  "handle_game_closing cfg env =
     seq (read_st (\<lambda>c. filter cg_should_attempt_to_close_game (hm_values (cs_games (c_state c))))) (\<lambda>candidates.
     for_each (c_close_one cfg env) candidates)"

definition c_submit_bond_claim_transaction :: "challenger_config \<Rightarrow> action_env \<Rightarrow> cgame \<Rightarrow> (challenger, unit) handler" where
  "c_submit_bond_claim_transaction cfg env g =
     seq (lift (claim_credit_transaction (ae_view env) (cg_address g) (cc_signer cfg))) (\<lambda>tx.
     seq (c_submit (ae_send env) tx) (\<lambda>_. ret ()))"

definition handle_bond_claiming :: "challenger_config \<Rightarrow> action_env \<Rightarrow> (challenger, unit) handler" where
  "handle_bond_claiming cfg env =
     seq (read_st (\<lambda>c. filter cg_should_attempt_to_claim_bond (hm_values (cs_games (c_state c))))) (\<lambda>candidates.
     for_each (\<lambda>g. if claim_credit_available env g (cc_signer cfg) = Inr True
                   then seq (attempt (c_submit_bond_claim_transaction cfg env g)) (\<lambda>_. ret ()) else ret ()) candidates)"

text \<open>One turn of \<open>run\<close>: nothing is done after a failed sync, and the failure of one handler does not keep
  the next from running.\<close>

definition c_run_turn :: "challenger_config \<Rightarrow> challenger_env \<Rightarrow> action_env \<Rightarrow> bool \<Rightarrow> (challenger, unit) handler" where
  "c_run_turn cfg env aenv roll =
     seq (attempt (c_sync_state cfg env)) (\<lambda>synced.
     case synced of
       Inl _ \<Rightarrow> ret ()
     | Inr _ \<Rightarrow>
         seq (attempt (handle_game_challenging cfg aenv roll)) (\<lambda>_.
         seq (attempt (handle_game_resolution aenv)) (\<lambda>_.
         seq (attempt (handle_game_closing cfg aenv)) (\<lambda>_.
         seq (attempt (handle_bond_claiming cfg aenv)) (\<lambda>_. ret ())))))"

section \<open>Startup can be retried\<close>

lemma c_validate_and_init_unset:
  assumes "c_challenger_bond c = None"
  shows "c_validate_and_init cfg v s c = (case c_startup_validations cfg v s of
     Inl e \<Rightarrow> (Inl e, c) | Inr b \<Rightarrow> (Inr (), c\<lparr> c_challenger_bond := Some b \<rparr>))"
  using assms by (simp add: c_validate_and_init_def split: sum.split)

text \<open>A failed startup attempt leaves the challenger as it was, so the retry loop ends at the first attempt whose validations
  pass, with the bond that attempt read, whatever failed before it.\<close>

theorem c_try_init_first_success:
  assumes "c_challenger_bond c = None" "c_startup_validations cfg v s = Inr b"
    and "\<forall>(v', s') \<in> set failing. \<exists>m. c_startup_validations cfg v' s' = Inl (Err m)"
  shows "c_try_init cfg (failing @ (v, s) # rest) c = (Inr True, c\<lparr> c_challenger_bond := Some b \<rparr>)"
  using assms(3)
proof (induction failing)
  case Nil
  then show ?case using assms(1,2) by (simp add: seq_def attempt_def c_validate_and_init_unset)
next
  case (Cons env failing)
  obtain v' s' where env: "env = (v', s')" by (cases env)
  with Cons.prems obtain m where "c_startup_validations cfg v' s' = Inl (Err m)" by auto
  then have "c_validate_and_init cfg v' s' c = (Inl (Err m), c)" using assms(1) by (simp add: c_validate_and_init_unset)
  with Cons env show ?case by (simp add: seq_def attempt_def)
qed

section \<open>What a refreshed game carries\<close>

definition ckeyed :: "cgame_map \<Rightarrow> bool" where
  "ckeyed gs \<longleftrightarrow> hm_wf gs \<and> (\<forall>k g. hm_get gs k = Some g \<longrightarrow> cg_index g = k)"

text \<open>Each flag with the conditions under which it may be set, as a function of the pinned block.\<close>

definition cflags_ok :: "challenger_config \<Rightarrow> l1_view \<Rightarrow> u64 \<Rightarrow> cgame \<Rightarrow> bool" where
  "cflags_ok cfg v now g \<longleftrightarrow>
     (cg_should_attempt_to_challenge g \<or> cg_should_attempt_to_resolve g \<or> cg_should_attempt_to_close_game g \<or>
      cg_should_attempt_to_claim_bond g \<longrightarrow> (\<exists>cd. claimData v (cg_address g) = Inr cd \<and>
        status_of v (cg_address g) = Inr (cg_status g) \<and> cg_proposal_status g = cd_status cd \<and>
        cg_deadline g = cd_deadline cd \<and>
        (cg_should_attempt_to_challenge g \<longrightarrow>
           cg_status g = IN_PROGRESS \<and> cd_status cd = Unchallenged \<and> now < cd_deadline cd \<and>
           (is_invalid (cg_validation g) \<or> is_parent_challenger_wins (cg_parent_index g) v = Inr True)) \<and>
        (cg_should_attempt_to_resolve g \<longrightarrow>
           cg_status g = IN_PROGRESS \<and> cd_status cd = Challenged \<and> cd_deadline cd \<le> now \<and>
           cd_counteredBy cd = cc_signer cfg \<and> is_parent_resolved (cg_parent_index g) v = Inr True) \<and>
        (cg_should_attempt_to_close_game g \<longrightarrow>
           cg_status g = CHALLENGER_WINS \<and> isGameFinalized v (cg_address g) = Inr True \<and>
           bondDistributionMode v (cg_address g) = Inr BOND_DISTRIBUTION_MODE_UNDECIDED \<and>
           cd_counteredBy cd = cc_signer cfg) \<and>
        (cg_should_attempt_to_claim_bond g \<longrightarrow>
           cg_status g = CHALLENGER_WINS \<and> isGameFinalized v (cg_address g) = Inr True \<and>
           (\<exists>m. bondDistributionMode v (cg_address g) = Inr m \<and> m \<noteq> BOND_DISTRIBUTION_MODE_UNDECIDED) \<and>
           (\<exists>x. credit v (cg_address g) (cc_signer cfg) = Inr x \<and> x \<noteq> 0))))"

definition same_claim :: "cgame \<Rightarrow> cgame \<Rightarrow> bool" where
  "same_claim g h \<longleftrightarrow> cg_index h = cg_index g \<and> cg_address h = cg_address g \<and> cg_parent_index h = cg_parent_index g \<and>
     cg_l2_block_number h = cg_l2_block_number g \<and> cg_output_root h = cg_output_root g \<and> cg_l1_head h = cg_l1_head g"

text \<open>A game's verdict is either the one it had, or the one just obtained for its own claim.\<close>

definition verdict_step :: "(game_validation_request \<Rightarrow> game_validation) \<Rightarrow> cgame \<Rightarrow> cgame \<Rightarrow> bool" where
  "verdict_step validate g h \<longleftrightarrow> cg_validation h = cg_validation g \<or>
     (\<exists>r. cg_validation h = validate r \<and> vr_l1_head r = cg_l1_head g \<and> vr_l2_block_number r = cg_l2_block_number g \<and>
          vr_output_root r = cg_output_root g) \<or> \<not> fits_u64 (cg_l2_block_number g)"

lemma c_validate_game_step: "verdict_step validate g (g\<lparr> cg_validation := c_validate_game validate g now \<rparr>)"
  by (auto simp: verdict_step_def c_validate_game_def validation_request_def checked_l2_block_number_def)

definition prepared :: "cgame \<Rightarrow> game_status \<Rightarrow> claim_data \<Rightarrow> cgame" where
  "prepared game status cd =
     clear_action_flags (game\<lparr> cg_status := status, cg_proposal_status := cd_status cd, cg_deadline := cd_deadline cd \<rparr>)"

lemma prepared_simps [simp]:
  "cg_index (prepared g s cd) = cg_index g" "cg_address (prepared g s cd) = cg_address g"
  "cg_parent_index (prepared g s cd) = cg_parent_index g" "cg_l2_block_number (prepared g s cd) = cg_l2_block_number g"
  "cg_output_root (prepared g s cd) = cg_output_root g" "cg_l1_head (prepared g s cd) = cg_l1_head g"
  "cg_validation (prepared g s cd) = cg_validation g" "cg_status (prepared g s cd) = s"
  "cg_proposal_status (prepared g s cd) = cd_status cd" "cg_deadline (prepared g s cd) = cd_deadline cd"
  "\<not> cg_should_attempt_to_challenge (prepared g s cd)" "\<not> cg_should_attempt_to_resolve (prepared g s cd)"
  "\<not> cg_should_attempt_to_close_game (prepared g s cd)" "\<not> cg_should_attempt_to_claim_bond (prepared g s cd)"
  by (simp_all add: prepared_def clear_action_flags_def)

lemma prepared_ok: "cflags_ok cfg v now (prepared g s cd)" "same_claim g (prepared g s cd)"
  "verdict_step validate g (prepared g s cd)"
  by (simp_all add: cflags_ok_def same_claim_def verdict_step_def)

definition sync_result_ok ::
  "challenger_config \<Rightarrow> (game_validation_request \<Rightarrow> game_validation) \<Rightarrow> l1_view \<Rightarrow> u64 \<Rightarrow> cgame \<Rightarrow> cgame \<Rightarrow> bool" where
  "sync_result_ok cfg validate v now g h \<longleftrightarrow> cflags_ok cfg v now h \<and> same_claim g h \<and> verdict_step validate g h"

lemma sync_unchallenged_ok:
  assumes "sync_unchallenged validate v now (prepared g IN_PROGRESS cd) = Inr h"
    and "status_of v (cg_address g) = Inr IN_PROGRESS" "cd_status cd = Unchallenged" "claimData v (cg_address g) = Inr cd"
  shows "sync_result_ok cfg validate v now g h"
proof (cases "now \<ge> cd_deadline cd")
  case True
  with assms(1) have "h = prepared g IN_PROGRESS cd" by (simp add: sync_unchallenged_def)
  then show ?thesis by (simp add: sync_result_ok_def prepared_ok)
next
  case False
  let ?p = "prepared g IN_PROGRESS cd"
  let ?g1 = "if is_unavailable (cg_validation ?p) then ?p\<lparr> cg_validation := c_validate_game validate ?p now \<rparr> else ?p"
  from False assms(1) obtain lost where
    lost: "(if is_invalid (cg_validation ?g1) then Inr False else is_parent_challenger_wins (cg_parent_index ?g1) v) = Inr lost"
    and h: "h = ?g1\<lparr> cg_should_attempt_to_challenge := (is_invalid (cg_validation ?g1) \<or> lost) \<rparr>"
    by (auto simp: sync_unchallenged_def Let_def try_bind_eq_Inr simp del: prepared_simps(7))
  have par: "cg_parent_index ?g1 = cg_parent_index g" by simp
  have "verdict_step validate g ?g1"
    using c_validate_game_step [of validate ?p now] by (auto simp: verdict_step_def)
  then have "verdict_step validate g h" by (simp add: h verdict_step_def)
  moreover have "same_claim g h" by (simp add: h same_claim_def)
  moreover have "cflags_ok cfg v now h"
    using lost False assms(2-4) par by (auto simp: h cflags_ok_def split: if_splits)
  ultimately show ?thesis by (simp add: sync_result_ok_def)
qed

lemma sync_challenged_ok:
  assumes "sync_challenged cfg v now cd (prepared g IN_PROGRESS cd) = Inr h"
    and "status_of v (cg_address g) = Inr IN_PROGRESS" "cd_status cd = Challenged" "claimData v (cg_address g) = Inr cd"
  shows "sync_result_ok cfg validate v now g h"
proof -
  let ?p = "prepared g IN_PROGRESS cd"
  from assms(1) obtain resolve where
    r: "(if now \<ge> cg_deadline ?p \<and> cd_counteredBy cd = cc_signer cfg then is_parent_resolved (cg_parent_index ?p) v else Inr False) = Inr resolve"
    and h: "h = ?p\<lparr> cg_should_attempt_to_resolve := resolve \<rparr>"
    unfolding sync_challenged_def try_bind_eq_Inr by auto
  then show ?thesis
    using assms(2-4) by (auto simp: sync_result_ok_def cflags_ok_def same_claim_def verdict_step_def split: if_splits)
qed

lemma sync_challenger_wins_ok:
  assumes "sync_challenger_wins cfg v cd (prepared g CHALLENGER_WINS cd) c = (Inr (CUpdate h), c')"
    and "status_of v (cg_address g) = Inr CHALLENGER_WINS" "claimData v (cg_address g) = Inr cd"
  shows "sync_result_ok cfg validate v now g h"
  using assms
  by (auto simp: sync_challenger_wins_def sync_result_ok_def cflags_ok_def same_claim_def verdict_step_def
      split: sum.splits if_splits)

lemma c_sync_game_ok:
  assumes "c_sync_game cfg validate v now g c = (Inr (CUpdate h), c')"
  shows "sync_result_ok cfg validate v now g h"
proof -
  from assms obtain status cd where view: "status_of v (cg_address g) = Inr status" "claimData v (cg_address g) = Inr cd"
    by (auto simp: c_sync_game_def split: sum.splits)
  show ?thesis
  proof (cases status)
    case IN_PROGRESS
    with assms view have "(case cd_status cd of
          Unchallenged \<Rightarrow> sync_unchallenged validate v now (prepared g IN_PROGRESS cd)
        | Challenged \<Rightarrow> sync_challenged cfg v now cd (prepared g IN_PROGRESS cd)
        | _ \<Rightarrow> Inr (prepared g IN_PROGRESS cd)) = Inr h"
      by (auto simp: c_sync_game_def prepared_def [symmetric] Let_def split: sum.splits)
    with view IN_PROGRESS sync_unchallenged_ok sync_challenged_ok show ?thesis
      by (cases "cd_status cd") (auto simp: sync_result_ok_def prepared_ok)
  next
    case CHALLENGER_WINS
    with assms view have "sync_challenger_wins cfg v cd (prepared g CHALLENGER_WINS cd) c = (Inr (CUpdate h), c')"
      by (simp add: c_sync_game_def prepared_def [symmetric] Let_def)
    with view CHALLENGER_WINS sync_challenger_wins_ok show ?thesis by metis
  qed (use assms view in \<open>simp_all add: c_sync_game_def prepared_def [symmetric] Let_def\<close>)
qed

lemma c_sync_game_frame:
  "keeps (\<lambda>c. c_state c = st \<and> c_sent c = sent \<and> c_challenger_bond c = bond \<and> c_highest_accepted_l1_block c = n)
     (c_sync_game cfg validate v now g)"
  unfolding c_sync_game_def sync_challenger_wins_def Let_def
  by (intro keeps_intros keeps_write) (auto split: game_status.split intro!: keeps_intros keeps_write)

section \<open>What a pass over the cache leaves\<close>

definition action_index :: "cgame_action \<Rightarrow> u256" where
  "action_index act = (case act of CUpdate g \<Rightarrow> cg_index g | CRemove idx \<Rightarrow> idx)"

lemma c_sync_game_index:
  assumes "c_sync_game cfg validate v now g c = (Inr act, c')"
  shows "action_index act = cg_index g"
proof (cases act)
  case (CUpdate h)
  with assms have "same_claim g h" using c_sync_game_ok sync_result_ok_def by metis
  with CUpdate show ?thesis by (simp add: action_index_def same_claim_def)
next
  case (CRemove idx)
  with assms show ?thesis
    by (auto simp: action_index_def c_sync_game_def sync_challenger_wins_def clear_action_flags_def Let_def
        split: sum.splits game_status.splits if_splits)
qed

lemma clear_action_flags_idem [simp]: "clear_action_flags (clear_action_flags g) = clear_action_flags g"
  by (simp add: clear_action_flags_def)

lemma cs_games_record_failure:
  "hm_get (cs_games (record_game_sync_failure idx st)) k =
     (if k = idx then map_option clear_action_flags (hm_get (cs_games st) k) else hm_get (cs_games st) k)"
  by (auto simp: record_game_sync_failure_def split: option.splits)

text \<open>The entry of an index after the loop: its flags may have been cleared, nothing else changes.\<close>

definition kept_or_cleared :: "cgame_map \<Rightarrow> cgame_map \<Rightarrow> u256 \<Rightarrow> bool" where
  "kept_or_cleared gs hs k \<longleftrightarrow> hm_get hs k = hm_get gs k \<or> hm_get hs k = map_option clear_action_flags (hm_get gs k)"

definition cleared_at :: "cgame_map \<Rightarrow> cgame_map \<Rightarrow> u256 \<Rightarrow> bool" where
  "cleared_at gs hs k \<longleftrightarrow> hm_get hs k = map_option clear_action_flags (hm_get gs k)"

lemma kept_trans:
  assumes "kept_or_cleared gs hs k" "kept_or_cleared hs js k"
  shows "kept_or_cleared gs js k" "cleared_at gs hs k \<Longrightarrow> cleared_at gs js k" "cleared_at hs js k \<Longrightarrow> cleared_at gs js k"
  using assms by (auto simp: kept_or_cleared_def cleared_at_def option.map_comp comp_def)

abbreviation cgames :: "challenger \<Rightarrow> cgame_map" where
  "cgames c \<equiv> cs_games (c_state c)"

abbreviation act_ok :: "challenger_config \<Rightarrow> (game_validation_request \<Rightarrow> game_validation) \<Rightarrow> l1_view \<Rightarrow> u64 \<Rightarrow> cgame \<Rightarrow> cgame_action \<Rightarrow> bool" where
  "act_ok cfg validate v now g act \<equiv> action_index act = cg_index g \<and>
     (\<forall>h. act = CUpdate h \<longrightarrow> sync_result_ok cfg validate v now g h)"

lemma sync_each_spec:
  assumes "sync_each cfg validate v now gs acts c = (Inr acts', c')"
  shows "\<exists>new. acts' = acts @ new \<and> (\<forall>act \<in> set new. \<exists>g \<in> set gs. act_ok cfg validate v now g act) \<and>
     (\<forall>g \<in> set gs. (\<exists>act \<in> set new. action_index act = cg_index g) \<or> cleared_at (cgames c) (cgames c') (cg_index g)) \<and>
     (\<forall>k. kept_or_cleared (cgames c) (cgames c') k)"
  using assms
proof (induction gs arbitrary: acts c)
  case Nil
  then show ?case by (auto simp: kept_or_cleared_def)
next
  case (Cons g gs)
  let ?m = "c_sync_game cfg validate v now g"
  obtain r c1 where m: "?m c = (r, c1)" by (cases "?m c")
  from c_sync_game_frame [of "c_state c" "c_sent c" "c_challenger_bond c" "c_highest_accepted_l1_block c" cfg validate v now g] m
  have st: "c_state c1 = c_state c" by (auto simp: keeps_def dest!: spec [of _ c])
  show ?case
  proof (cases r)
    case (Inr act)
    with Cons.prems m have "sync_each cfg validate v now gs (acts @ [act]) c1 = (Inr acts', c')"
      by (simp add: seq_def attempt_def)
    from Cons.IH [OF this] obtain new where new: "acts' = (acts @ [act]) @ new"
      "\<forall>act \<in> set new. \<exists>g \<in> set gs. act_ok cfg validate v now g act"
      "\<forall>g \<in> set gs. (\<exists>act \<in> set new. action_index act = cg_index g) \<or> cleared_at (cgames c) (cgames c') (cg_index g)"
      "\<forall>k. kept_or_cleared (cgames c) (cgames c') k"
      unfolding st by blast
    have "act_ok cfg validate v now g act"
      using m Inr c_sync_game_index c_sync_game_ok by metis
    with new show ?thesis by (intro exI [of _ "act # new"]) auto
  next
    case (Inl e)
    with Cons.prems m obtain msg where e: "e = Err msg" by (cases e) (auto simp: seq_def attempt_def)
    define c2 where "c2 = upd_cs (record_game_sync_failure (cg_index g)) c1"
    from Cons.prems m Inl e have "sync_each cfg validate v now gs acts c2 = (Inr acts', c')"
      by (simp add: seq_def attempt_def c2_def)
    from Cons.IH [OF this] obtain new where new: "acts' = acts @ new"
      "\<forall>act \<in> set new. \<exists>g \<in> set gs. act_ok cfg validate v now g act"
      "\<forall>g \<in> set gs. (\<exists>act \<in> set new. action_index act = cg_index g) \<or> cleared_at (cgames c2) (cgames c') (cg_index g)"
      "\<forall>k. kept_or_cleared (cgames c2) (cgames c') k"
      by blast
    have fst: "kept_or_cleared (cgames c) (cgames c2) k" "cleared_at (cgames c) (cgames c2) (cg_index g)" for k
      by (simp_all add: c2_def st cs_games_record_failure kept_or_cleared_def cleared_at_def)
    with new(4) kept_trans [of "cgames c" "cgames c2" _ "cgames c'"] new show ?thesis
      by (intro exI [of _ new]) (auto 0 3)
  qed
qed

lemma fold_actions_get:
  assumes "hm_get (cs_games (fold c_apply_action acts st)) k = Some g"
  shows "(CUpdate g \<in> set acts \<and> cg_index g = k) \<or> (hm_get (cs_games st) k = Some g \<and> (\<forall>act \<in> set acts. action_index act \<noteq> k))"
  using assms
proof (induction acts arbitrary: st)
  case (Cons act acts)
  then have "(CUpdate g \<in> set acts \<and> cg_index g = k) \<or>
    (hm_get (cs_games (c_apply_action act st)) k = Some g \<and> (\<forall>act \<in> set acts. action_index act \<noteq> k))" by simp
  then show ?case
    by (cases act) (auto simp: c_apply_action_def action_index_def split: if_splits)
qed simp

lemma cleared_flags_ok: "cflags_ok cfg v now (clear_action_flags g)" "same_claim g (clear_action_flags g)"
  "cg_validation (clear_action_flags g) = cg_validation g"
  by (simp_all add: cflags_ok_def clear_action_flags_def same_claim_def)

lemma refresh_pass_ok:
  assumes "ckeyed (cgames c)" "sync_each cfg validate v now (hm_values (cgames c)) [] c = (Inr acts, c1)"
    and "hm_get (cs_games (fold c_apply_action acts (c_state c1))) k = Some h"
  shows "\<exists>g. hm_get (cgames c) k = Some g \<and> sync_result_ok cfg validate v now g h"
proof -
  obtain new where new: "acts = [] @ new" "\<forall>act \<in> set new. \<exists>g \<in> set (hm_values (cgames c)). act_ok cfg validate v now g act"
    "\<forall>g \<in> set (hm_values (cgames c)). (\<exists>act \<in> set new. action_index act = cg_index g) \<or> cleared_at (cgames c) (cgames c1) (cg_index g)"
    "\<forall>k. kept_or_cleared (cgames c) (cgames c1) k"
    using sync_each_spec [OF assms(2)] by blast
  from fold_actions_get [OF assms(3)] show ?thesis
  proof
    assume upd: "CUpdate h \<in> set acts \<and> cg_index h = k"
    then obtain g where g: "g \<in> set (hm_values (cgames c))" "sync_result_ok cfg validate v now g h"
      using new(1,2) by (metis append_Nil)
    then obtain k' where "hm_get (cgames c) k' = Some g" using assms(1) hm_value_imp_get by (fastforce simp: ckeyed_def)
    moreover have "cg_index h = cg_index g" using g(2) by (simp add: sync_result_ok_def same_claim_def)
    ultimately show ?thesis using g(2) upd assms(1) by (metis ckeyed_def)
  next
    assume keep: "hm_get (cgames c1) k = Some h \<and> (\<forall>act \<in> set acts. action_index act \<noteq> k)"
    with new(4) obtain g where g: "hm_get (cgames c) k = Some g"
      unfolding kept_or_cleared_def by (metis map_option_eq_Some)
    then have "g \<in> set (hm_values (cgames c))" by (rule hm_get_imp_value)
    moreover from g assms(1) have "cg_index g = k" by (simp add: ckeyed_def)
    ultimately have "cleared_at (cgames c) (cgames c1) k" using new(1,3) keep by force
    with g keep have "h = clear_action_flags g" by (simp add: cleared_at_def)
    with g show ?thesis by (simp add: sync_result_ok_def cleared_flags_ok verdict_step_def)
  qed
qed

section \<open>Verdicts are backed by evidence\<close>

text \<open>
  \<open>evidence l1_head l2_block root\<close>: what a trusted validator may refute. The contract of the validator is
  the locale \<open>game_validator\<close> at \<open>request_refuted evidence\<close>.
\<close>

type_synonym evidence = "b256 \<Rightarrow> u256 \<Rightarrow> b256 \<Rightarrow> bool"

definition request_refuted :: "evidence \<Rightarrow> game_validation_request \<Rightarrow> bool" where
  "request_refuted evidence r \<longleftrightarrow> \<not> fits_u64 (vr_l2_block_number r) \<or>
     evidence (vr_l1_head r) (vr_l2_block_number r) (vr_output_root r)"

definition claim_refuted :: "evidence \<Rightarrow> cgame \<Rightarrow> bool" where
  "claim_refuted evidence g \<longleftrightarrow> \<not> fits_u64 (cg_l2_block_number g) \<or>
     evidence (cg_l1_head g) (cg_l2_block_number g) (cg_output_root g)"

definition verdicts_backed :: "evidence \<Rightarrow> challenger_state \<Rightarrow> bool" where
  "verdicts_backed evidence st \<longleftrightarrow> ckeyed (cs_games st) \<and>
     (\<forall>k g. hm_get (cs_games st) k = Some g \<longrightarrow> is_invalid (cg_validation g) \<longrightarrow> claim_refuted evidence g)"

lemma verdicts_backed_insert:
  assumes "verdicts_backed evidence st" "is_invalid (cg_validation g) \<Longrightarrow> claim_refuted evidence g" "cg_index g = k"
  shows "verdicts_backed evidence (st\<lparr> cs_games := hm_insert k g (cs_games st) \<rparr>)"
  using assms by (auto simp: verdicts_backed_def ckeyed_def intro: wf_intros)

lemma verdicts_backed_remove:
  "verdicts_backed evidence st \<Longrightarrow> verdicts_backed evidence (st\<lparr> cs_games := hm_remove k (cs_games st) \<rparr>)"
  by (auto simp: verdicts_backed_def ckeyed_def intro: wf_intros)

lemma verdicts_backed_get:
  "verdicts_backed evidence st \<Longrightarrow> hm_get (cs_games st) k = Some g \<Longrightarrow>
   cg_index g = k \<and> (is_invalid (cg_validation g) \<longrightarrow> claim_refuted evidence g)"
  by (simp add: verdicts_backed_def ckeyed_def)

lemma verdicts_backed_clear:
  assumes "verdicts_backed evidence st"
  shows "verdicts_backed evidence (record_game_sync_failure idx st)" "verdicts_backed evidence (clear_challenge_flag idx st)"
proof -
  have r: "claim_refuted evidence (clear_action_flags g) = claim_refuted evidence g"
    "cg_index (clear_action_flags g) = cg_index g"
    "claim_refuted evidence (g\<lparr> cg_should_attempt_to_challenge := False \<rparr>) = claim_refuted evidence g" for g
    by (simp_all add: claim_refuted_def clear_action_flags_def)
  show "verdicts_backed evidence (record_game_sync_failure idx st)" "verdicts_backed evidence (clear_challenge_flag idx st)"
    using assms verdicts_backed_get [OF assms]
    by (auto simp: record_game_sync_failure_def clear_challenge_flag_def r cleared_flags_ok split: option.split
        intro!: verdicts_backed_insert)
qed

lemma c_fetch_game_fresh:
  assumes "c_fetch_game cfg v idx = Inr (Some g)"
  shows "cg_index g = idx" "is_invalid (cg_validation g) \<Longrightarrow> claim_refuted evidence g"
  using assms unfolding c_fetch_game_def
  by (auto simp: try_bind_eq_Inr Let_def initial_game_validation_def is_invalid_def claim_refuted_def
      checked_l2_block_number_def split: if_splits sum.splits)

lemma verdicts_backed_fetched:
  assumes "c_fetch_game cfg v idx = Inr g" "verdicts_backed evidence st"
  shows "verdicts_backed evidence (insert_fetched idx g st)"
  using assms c_fetch_game_fresh by (auto simp: insert_fetched_def split: option.split intro!: verdicts_backed_insert)

lemma verdicts_backed_frame [simp]:
  "verdicts_backed evidence (st\<lparr> cs_cursor := x \<rparr>) = verdicts_backed evidence st"
  "verdicts_backed evidence (st\<lparr> cs_pending_discoveries := p \<rparr>) = verdicts_backed evidence st"
  by (simp_all add: verdicts_backed_def)

lemma verdicts_backed_retry:
  assumes "verdicts_backed evidence st"
  shows "verdicts_backed evidence (retry_discoveries cfg v st)"
proof -
  have "verdicts_backed evidence (fold (retry_discovery cfg v) idxs st)" for idxs
    using assms by (induction idxs arbitrary: st)
      (auto simp: retry_discovery_def verdicts_backed_fetched split: sum.split)
  then show ?thesis by (simp add: retry_discoveries_def)
qed

lemma verdicts_backed_discover:
  "verdicts_backed evidence st \<Longrightarrow> verdicts_backed evidence (discover cfg v latest idx st)"
proof (induction cfg v latest idx st rule: discover.induct)
  case (1 cfg v latest idx st)
  have "verdicts_backed evidence (discover_one cfg v idx st)"
    using 1(2) verdicts_backed_fetched [of cfg v idx _ evidence st]
    by (auto simp: discover_one_def record_discovery_attempt_def split: sum.split)
  with 1 show ?case by (subst discover.simps) auto
qed

lemma verdict_step_backed:
  assumes "game_validator validate (request_refuted evidence)" "verdict_step validate g h" "same_claim g h"
    and "is_invalid (cg_validation g) \<longrightarrow> claim_refuted evidence g" "is_invalid (cg_validation h)"
  shows "claim_refuted evidence h"
proof -
  have "claim_refuted evidence g"
    using assms(2) unfolding verdict_step_def
  proof (elim disjE exE conjE)
    fix r assume r: "cg_validation h = validate r" "vr_l1_head r = cg_l1_head g" "vr_l2_block_number r = cg_l2_block_number g"
      "vr_output_root r = cg_output_root g"
    with assms(5) have "request_refuted evidence r" using game_validator.is_invalid_refuted [OF assms(1)] by simp
    with r show ?thesis by (simp add: request_refuted_def claim_refuted_def)
  qed (use assms in \<open>auto simp: claim_refuted_def\<close>)
  with assms(3) show ?thesis by (simp add: claim_refuted_def same_claim_def)
qed

lemma verdicts_backed_actions:
  assumes "verdicts_backed evidence st" "\<forall>h. CUpdate h \<in> set acts \<longrightarrow> is_invalid (cg_validation h) \<longrightarrow> claim_refuted evidence h"
  shows "verdicts_backed evidence (fold c_apply_action acts st)"
  using assms
proof (induction acts arbitrary: st)
  case (Cons act acts)
  then have "verdicts_backed evidence (c_apply_action act st)"
    by (cases act) (auto simp: c_apply_action_def intro: verdicts_backed_insert verdicts_backed_remove)
  with Cons show ?case by simp
qed simp

section \<open>A whole turn\<close>

definition backed :: "evidence \<Rightarrow> challenger \<Rightarrow> bool" where
  "backed evidence c \<longleftrightarrow> verdicts_backed evidence (c_state c)"

lemma keeps_case_err [keeps_intros]:
  "(\<And>m. e = Err m \<Longrightarrow> keeps I (f m)) \<Longrightarrow> (\<And>m. e = Panic m \<Longrightarrow> keeps I (f' m)) \<Longrightarrow>
   keeps I (case e of Err m \<Rightarrow> f m | Panic m \<Rightarrow> f' m)"
  by (cases e) auto

lemma c_sync_game_backed: "keeps (backed evidence) (c_sync_game cfg validate v now g)"
  using c_sync_game_frame unfolding keeps_def backed_def by metis

lemma sync_each_backed: "keeps (backed evidence) (sync_each cfg validate v now gs acts)"
proof (induction gs arbitrary: acts)
  case (Cons g gs)
  show ?case unfolding sync_each.simps
    by (intro keeps_intros keeps_write c_sync_game_backed Cons.IH) (simp add: backed_def verdicts_backed_clear)
qed (auto intro: keeps_intros)

lemma sync_each_frame:
  "keeps (\<lambda>c. c_sent c = sent \<and> c_challenger_bond c = bond) (sync_each cfg validate v now gs acts)"
proof (induction gs arbitrary: acts)
  case (Cons g gs)
  have "keeps (\<lambda>c. c_sent c = sent \<and> c_challenger_bond c = bond) (c_sync_game cfg validate v now g)"
    using c_sync_game_frame unfolding keeps_def by metis
  then show ?case unfolding sync_each.simps by (intro keeps_intros keeps_write Cons.IH) simp_all
qed (auto intro: keeps_intros)

lemma c_refresh_success:
  assumes "c_refresh cfg validate v now c = (Inr (), c')"
  obtains acts c1 where "sync_each cfg validate v now (hm_values (cgames c)) [] c = (Inr acts, c1)"
    "c' = upd_cs (fold c_apply_action acts) c1"
  using assms by (auto simp: c_refresh_def seq_eq_Inr simp del: seq_simps)

lemma c_refresh_result:
  assumes "c_refresh cfg validate v now c = (Inr (), c')" "backed evidence c" "hm_get (cgames c') k = Some h"
  obtains g where "sync_result_ok cfg validate v now g h" "hm_get (cgames c) k = Some g"
proof -
  obtain acts c1 where e: "sync_each cfg validate v now (hm_values (cgames c)) [] c = (Inr acts, c1)"
    "c' = upd_cs (fold c_apply_action acts) c1"
    by (rule c_refresh_success [OF assms(1)])
  from assms(2) have keyed: "ckeyed (cgames c)" by (simp add: backed_def verdicts_backed_def)
  from assms(3) e(2) have "hm_get (cs_games (fold c_apply_action acts (c_state c1))) k = Some h" by simp
  from refresh_pass_ok [OF keyed e(1) this] show thesis by (elim exE conjE) (rule that)
qed

lemma sync_each_updates:
  assumes "sync_each cfg validate v now gs [] c = (Inr acts, c')" "CUpdate h \<in> set acts"
  obtains g where "g \<in> set gs" "sync_result_ok cfg validate v now g h"
proof -
  obtain new where "acts = [] @ new" "\<forall>act \<in> set new. \<exists>g \<in> set gs. act_ok cfg validate v now g act"
    using sync_each_spec [OF assms(1)] by blast
  with assms(2) that show thesis by auto
qed

lemma c_refresh_backed:
  assumes "game_validator validate (request_refuted evidence)"
  shows "keeps (backed evidence) (c_refresh cfg validate v now)"
  unfolding keeps_def
proof (intro allI impI)
  fix c assume c: "backed evidence c"
  let ?loop = "sync_each cfg validate v now (hm_values (cgames c)) []"
  obtain r c1 where e: "?loop c = (r, c1)" by (cases "?loop c")
  have c1: "backed evidence c1" using keepsD [OF sync_each_backed c e] .
  show "backed evidence (snd (c_refresh cfg validate v now c))"
  proof (cases r)
    case (Inr acts)
    have "claim_refuted evidence h" if upd: "CUpdate h \<in> set acts" and wrong: "is_invalid (cg_validation h)" for h
    proof -
      obtain g where g: "g \<in> set (hm_values (cgames c))" "sync_result_ok cfg validate v now g h"
        by (rule sync_each_updates [OF e [unfolded Inr] upd])
      then obtain k where "hm_get (cgames c) k = Some g"
        using c hm_value_imp_get by (fastforce simp: backed_def verdicts_backed_def ckeyed_def)
      then have "is_invalid (cg_validation g) \<longrightarrow> claim_refuted evidence g"
        using c verdicts_backed_get unfolding backed_def by blast
      with g(2) wrong verdict_step_backed [OF assms] show ?thesis by (auto simp: sync_result_ok_def)
    qed
    with c1 e Inr show ?thesis by (auto simp: c_refresh_def seq_def backed_def intro: verdicts_backed_actions)
  qed (use c1 e in \<open>simp add: c_refresh_def seq_def\<close>)
qed

lemma discover_new_backed: "keeps (backed evidence) (discover_new cfg v)"
  unfolding discover_new_def by (intro keeps_intros keeps_write) (simp add: backed_def verdicts_backed_discover)

lemma c_sync_state_backed:
  assumes "game_validator (ce_validate env) (request_refuted evidence)"
  shows "keeps (backed evidence) (c_sync_state cfg env)"
  unfolding c_sync_state_def Let_def
  by (intro keeps_intros keeps_write discover_new_backed c_refresh_backed [OF assms])
    (simp_all add: backed_def verdicts_backed_retry)

lemma c_sync_state_frame: "keeps (\<lambda>c. c_sent c = sent \<and> c_challenger_bond c = bond) (c_sync_state cfg env)"
  unfolding c_sync_state_def discover_new_def c_refresh_def Let_def
  by (intro keeps_intros keeps_write sync_each_frame) simp_all

text \<open>The refresh starts from a cache with backed verdicts, at the snapshot taken at the start of the pass.\<close>

lemma c_sync_state_success:
  assumes "c_sync_state cfg env c = (Inr (), c')" "backed evidence c"
  obtains snap c1 where
    "l1_sync_snapshot_of cfg (ce_rpc env) (c_highest_accepted_l1_block c) = Inr snap" "backed evidence c1"
    "c_refresh cfg (ce_validate env) (ce_at_refresh env (snap_pinned_hash snap)) (snap_latest_timestamp snap) c1 = (Inr (), c')"
proof -
  from assms(1) obtain snap where snap: "l1_sync_snapshot_of cfg (ce_rpc env) (c_highest_accepted_l1_block c) = Inr snap"
    by (auto simp: c_sync_state_def split: sum.splits)
  let ?v = "ce_at_discovery env (snap_pinned_hash snap)"
  define c0 where "c0 = upd_cs (retry_discoveries cfg ?v) (c\<lparr> c_highest_accepted_l1_block := snap_confirmed_number snap \<rparr>)"
  from assms(1) snap have "seq (discover_new cfg ?v) (\<lambda>_. c_refresh cfg (ce_validate env)
      (ce_at_refresh env (snap_pinned_hash snap)) (snap_latest_timestamp snap)) c0 = (Inr (), c')"
    by (simp add: c_sync_state_def Let_def c0_def)
  then obtain c1 where d: "discover_new cfg ?v c0 = (Inr (), c1)" and
    rest: "c_refresh cfg (ce_validate env) (ce_at_refresh env (snap_pinned_hash snap)) (snap_latest_timestamp snap) c1 = (Inr (), c')"
    by (auto simp: seq_eq_Inr simp del: seq_simps)
  have "backed evidence c0" using assms(2) by (simp add: c0_def backed_def verdicts_backed_retry)
  then have "backed evidence c1" using keepsD [OF discover_new_backed _ d] by blast
  with snap rest that show thesis by blast
qed

text \<open>C15: After a successful pass every cached game is filed under its own index and carries an action flag only under
  that action's conditions at the pinned block. The cached status, proposal status and deadline of a flagged game are those
  \<open>status\<close> and \<open>claimData\<close> return there. A challenge flag stands only on a game that is in progress, unchallenged and before its
  deadline by the latest timestamp, with an invalid verdict or a losing parent; a resolve flag only on a game in progress this
  signer challenged, whose deadline passed and whose parent is resolved; close and claim flags only on games the challenger
  won and that are finalized, the one while their bonds are undecided and this signer challenged them, the other when this
  signer has credit.\<close>

theorem c_sync_state_flags:
  assumes "ckeyed (cgames c)" "c_sync_state cfg env c = (Inr (), c')" "hm_get (cgames c') k = Some g"
  shows "\<exists>snap. l1_sync_snapshot_of cfg (ce_rpc env) (c_highest_accepted_l1_block c) = Inr snap \<and> cg_index g = k \<and>
     cflags_ok cfg (ce_at_refresh env (snap_pinned_hash snap)) (snap_latest_timestamp snap) g"
proof -
  have b: "backed (\<lambda>_ _ _. True) c" using assms(1) by (simp add: backed_def verdicts_backed_def claim_refuted_def)
  obtain snap c1 where s: "l1_sync_snapshot_of cfg (ce_rpc env) (c_highest_accepted_l1_block c) = Inr snap"
    "backed (\<lambda>_ _ _. True) c1"
    "c_refresh cfg (ce_validate env) (ce_at_refresh env (snap_pinned_hash snap)) (snap_latest_timestamp snap) c1 = (Inr (), c')"
    by (rule c_sync_state_success [OF assms(2) b])
  obtain g0 where "sync_result_ok cfg (ce_validate env) (ce_at_refresh env (snap_pinned_hash snap)) (snap_latest_timestamp snap) g0 g"
    "hm_get (cgames c1) k = Some g0"
    by (rule c_refresh_result [OF s(3,2) assms(3)])
  moreover then have "cg_index g0 = k" using s(2) verdicts_backed_get unfolding backed_def by blast
  ultimately show ?thesis using s(1) by (auto simp: sync_result_ok_def same_claim_def)
qed

section \<open>Challenges are honest\<close>

definition challenge_allowed :: "challenger_config \<Rightarrow> action_env \<Rightarrow> u256 option \<Rightarrow> cgame list \<Rightarrow> l1_tx \<Rightarrow> bool" where
  "challenge_allowed cfg aenv bond games tx = (case tx of
       Tx_challenge a b \<Rightarrow> cc_disable_monitor_only cfg \<and> bond = Some b \<and>
         (\<exists>g \<in> set games. cg_address g = a \<and> challenge_preflight aenv False g = Inr True)
     | _ \<Rightarrow> True)"

text \<open>What the handlers of a turn keep: the log grows by allowed transactions, verdicts stay backed.\<close>

definition turn_inv ::
  "challenger_config \<Rightarrow> action_env \<Rightarrow> evidence \<Rightarrow> u256 option \<Rightarrow> cgame list \<Rightarrow> l1_tx list \<Rightarrow> challenger \<Rightarrow> bool" where
  "turn_inv cfg aenv evidence bond games sent c \<longleftrightarrow> backed evidence c \<and> c_challenger_bond c = bond \<and>
     (\<exists>new. c_sent c = sent @ new \<and> list_all (challenge_allowed cfg aenv bond games) new)"

lemma turn_inv_submit:
  assumes "challenge_allowed cfg aenv bond games tx"
  shows "keeps (turn_inv cfg aenv evidence bond games sent) (c_submit snd_tx tx)"
  unfolding keeps_def turn_inv_def
proof (intro allI impI)
  fix c assume c: "backed evidence c \<and> c_challenger_bond c = bond \<and>
    (\<exists>new. c_sent c = sent @ new \<and> list_all (challenge_allowed cfg aenv bond games) new)"
  then obtain new where "c_sent c = sent @ new" "list_all (challenge_allowed cfg aenv bond games) new" by blast
  with c assms show "backed evidence (snd (c_submit snd_tx tx c)) \<and> c_challenger_bond (snd (c_submit snd_tx tx c)) = bond \<and>
    (\<exists>new. c_sent (snd (c_submit snd_tx tx c)) = sent @ new \<and> list_all (challenge_allowed cfg aenv bond games) new)"
    by (auto simp: c_submit_def send_checked_def backed_def intro!: exI [of _ "new @ [tx]"])
qed

lemma turn_inv_frame:
  "turn_inv cfg aenv evidence bond games sent (c\<lparr> c_close_game_failures := f \<rparr>) = turn_inv cfg aenv evidence bond games sent c"
  by (simp add: turn_inv_def backed_def)

lemma turn_inv_clear:
  "turn_inv cfg aenv evidence bond games sent c \<Longrightarrow> turn_inv cfg aenv evidence bond games sent (upd_cs (clear_challenge_flag idx) c)"
  by (simp add: turn_inv_def backed_def verdicts_backed_clear)

lemma submit_challenge_inv:
  assumes "g \<in> set games" "challenge_preflight aenv False g = Inr True"
  shows "keeps (turn_inv cfg aenv evidence bond games sent) (submit_challenge_transaction_unchecked aenv g (cc_disable_monitor_only cfg))"
  unfolding keeps_def
proof (intro allI impI)
  fix c assume c: "turn_inv cfg aenv evidence bond games sent c"
  then have bond: "c_challenger_bond c = bond" by (simp add: turn_inv_def)
  show "turn_inv cfg aenv evidence bond games sent
      (snd (submit_challenge_transaction_unchecked aenv g (cc_disable_monitor_only cfg) c))"
  proof (cases bond)
    case (Some b)
    show ?thesis
    proof (cases "cc_disable_monitor_only cfg")
      case True
      with Some assms have "challenge_allowed cfg aenv bond games (Tx_challenge (cg_address g) b)"
        by (auto simp: challenge_allowed_def)
      from turn_inv_submit [OF this]
      have "keeps (turn_inv cfg aenv evidence bond games sent) (seq (c_submit (ae_send aenv) (Tx_challenge (cg_address g) b)) (\<lambda>_. ret ()))"
        by (intro keeps_intros)
      with c bond Some True show ?thesis
        by (simp add: submit_challenge_transaction_unchecked_def keeps_def)
    qed (use c bond Some in \<open>simp add: submit_challenge_transaction_unchecked_def\<close>)
  qed (use c bond in \<open>simp add: submit_challenge_transaction_unchecked_def\<close>)
qed

lemma challenge_one_inv:
  assumes "g \<in> set games"
  shows "keeps (turn_inv cfg aenv evidence bond games sent) (challenge_one cfg aenv False g)"
proof (cases "challenge_preflight aenv False g = Inr True")
  case True
  then show ?thesis unfolding challenge_one_def
    by (simp, intro keeps_intros keeps_write submit_challenge_inv [OF assms True]) (simp add: turn_inv_clear)
next
  case False
  then show ?thesis
    by (auto simp: challenge_one_def split: sum.split bool.split intro: keeps_intros)
qed

lemma keeps_lift_seq: "(\<And>x. r = Inr x \<Longrightarrow> keeps I (f x)) \<Longrightarrow> keeps I (seq (lift r) f)"
  by (cases r) (auto simp: keeps_def)

lemma other_submits_inv:
  "keeps (turn_inv cfg aenv evidence bond games sent) (handle_game_resolution aenv)"
  "keeps (turn_inv cfg aenv evidence bond games sent) (handle_game_closing cfg aenv)"
  "keeps (turn_inv cfg aenv evidence bond games sent) (handle_bond_claiming cfg aenv)"
proof -
  have allowed: "challenge_allowed cfg aenv bond games (Tx_resolve a)"
    "close_game_transaction v a s = Inr tx \<Longrightarrow> challenge_allowed cfg aenv bond games tx"
    "claim_credit_transaction v a s = Inr tx \<Longrightarrow> challenge_allowed cfg aenv bond games tx" for a v s tx
    by (auto simp: challenge_allowed_def close_game_transaction_def claim_credit_transaction_def try_bind_eq_Inr)
  have "keeps (turn_inv cfg aenv evidence bond games sent) (c_submit_resolution_unchecked aenv g)" for g
    unfolding c_submit_resolution_unchecked_def by (intro keeps_intros turn_inv_submit allowed)
  then show "keeps (turn_inv cfg aenv evidence bond games sent) (handle_game_resolution aenv)"
    unfolding handle_game_resolution_def by (intro keeps_intros)
  have lifted: "keeps (turn_inv cfg aenv evidence bond games sent) (seq (lift r) (\<lambda>tx. seq (c_submit snd_tx tx) (\<lambda>_. ret ())))"
    if "\<And>tx. r = Inr tx \<Longrightarrow> challenge_allowed cfg aenv bond games tx" for r snd_tx
    by (rule keeps_lift_seq) (intro keeps_intros turn_inv_submit that)
  have "keeps (turn_inv cfg aenv evidence bond games sent) (c_submit_close_game_transaction cfg aenv g)" for g
    unfolding c_submit_close_game_transaction_def by (rule lifted) (rule allowed(2))
  then show "keeps (turn_inv cfg aenv evidence bond games sent) (handle_game_closing cfg aenv)"
    unfolding handle_game_closing_def c_close_one_def by (intro keeps_intros keeps_write) (simp_all add: turn_inv_frame)
  have "keeps (turn_inv cfg aenv evidence bond games sent) (c_submit_bond_claim_transaction cfg aenv g)" for g
    unfolding c_submit_bond_claim_transaction_def by (rule lifted) (rule allowed(3))
  then show "keeps (turn_inv cfg aenv evidence bond games sent) (handle_bond_claiming cfg aenv)"
    unfolding handle_bond_claiming_def by (intro keeps_intros)
qed

lemma turn_inv_start: "backed evidence c \<Longrightarrow> turn_inv cfg aenv evidence (c_challenger_bond c) games (c_sent c) c"
  by (simp add: turn_inv_def)

lemma handle_challenging_inv:
  assumes "turn_inv cfg aenv evidence bond games sent c"
    and "set (filter cg_should_attempt_to_challenge (hm_values (cgames c))) \<subseteq> set games"
  shows "turn_inv cfg aenv evidence bond games sent (snd (handle_game_challenging cfg aenv False c))"
proof -
  let ?cands = "filter cg_should_attempt_to_challenge (hm_values (cgames c))"
  have "keeps (turn_inv cfg aenv evidence bond games sent) (seq (for_each (challenge_one cfg aenv False) ?cands) (\<lambda>_. ret ()))"
    using assms(2) by (intro keeps_intros challenge_one_inv) blast
  with assms(1) show ?thesis by (simp add: handle_game_challenging_def keeps_def)
qed

lemma handlers_after_challenging_inv:
  "keeps (turn_inv cfg aenv evidence bond games sent)
     (seq (attempt (handle_game_resolution aenv)) (\<lambda>_. seq (attempt (handle_game_closing cfg aenv)) (\<lambda>_.
      seq (attempt (handle_bond_claiming cfg aenv)) (\<lambda>_. ret ()))))"
  by (intro keeps_intros other_submits_inv)

lemma snd_attempt [simp]: "snd (attempt m s) = snd (m s)"
  by (auto simp: attempt_def split: prod.splits sum.splits err.splits)

lemma snd_seq_attempt:
  assumes "I (snd (m s))" "\<And>r. keeps I (f r)"
  shows "I (snd (seq (attempt m) f s))"
proof -
  obtain r t where at: "attempt m s = (r, t)" by (cases "attempt m s")
  then have "I t" using assms(1) snd_attempt [of m s] by simp
  then show ?thesis using assms(2) by (cases r) (simp_all add: seq_def at keeps_def)
qed

lemma c_run_turn_inv:
  fixes cfg :: challenger_config
  assumes "game_validator (ce_validate env) (request_refuted evidence)" "backed evidence c"
  defines "c1 \<equiv> snd (c_sync_state cfg env c)"
  shows "turn_inv cfg aenv evidence (c_challenger_bond c)
     (if fst (c_sync_state cfg env c) = Inr () then filter cg_should_attempt_to_challenge (hm_values (cgames c1)) else [])
     (c_sent c) (snd (c_run_turn cfg env aenv False c))"
proof -
  have c1: "backed evidence c1" using c_sync_state_backed [OF assms(1)] assms(2) by (simp add: c1_def keeps_def)
  have "c_sent c1 = c_sent c \<and> c_challenger_bond c1 = c_challenger_bond c"
    using c_sync_state_frame unfolding c1_def keeps_def by blast
  with turn_inv_start [OF c1] have start: "turn_inv cfg aenv evidence (c_challenger_bond c) games (c_sent c) c1" for games
    by metis
  obtain r where eq: "c_sync_state cfg env c = (r, c1)" unfolding c1_def by (metis prod.collapse)
  show ?thesis
  proof (cases r)
    case (Inl e)
    then have "snd (c_run_turn cfg env aenv False c) = c1"
      by (cases e) (simp_all add: c_run_turn_def seq_def attempt_def eq)
    with start show ?thesis by (simp add: eq Inl)
  next
    case (Inr u)
    then have run: "c_run_turn cfg env aenv False c = seq (attempt (handle_game_challenging cfg aenv False)) (\<lambda>_.
       seq (attempt (handle_game_resolution aenv)) (\<lambda>_. seq (attempt (handle_game_closing cfg aenv)) (\<lambda>_.
       seq (attempt (handle_bond_claiming cfg aenv)) (\<lambda>_. ret ())))) c1"
      by (simp add: c_run_turn_def seq_def [of "attempt (c_sync_state cfg env)"] attempt_def [of "c_sync_state cfg env"] eq)
    show ?thesis unfolding run eq fst_conv Inr
      by (rule snd_seq_attempt [OF _ handlers_after_challenging_inv])
        (rule handle_challenging_inv [OF start], simp)
  qed
qed

lemma c_run_turn_backed:
  assumes "game_validator (ce_validate env) (request_refuted evidence)"
  shows "keeps (backed evidence) (c_run_turn cfg env aenv False)"
  using c_run_turn_inv [OF assms] by (simp add: keeps_def turn_inv_def)

text \<open>The challenger as a system of turns, each with its own view of the nodes and a validator that keeps the contract.\<close>

definition challenger_init :: "challenger \<Rightarrow> bool" where
  "challenger_init c \<longleftrightarrow> c_state c = challenger_state_new"

inductive challenger_turn :: "challenger_config \<Rightarrow> evidence \<Rightarrow> challenger \<Rightarrow> challenger \<Rightarrow> bool" for cfg evidence where
  turn: "game_validator (ce_validate env) (request_refuted evidence) \<Longrightarrow> c_run_turn cfg env aenv False c = (r, c') \<Longrightarrow>
    challenger_turn cfg evidence c c'"

inductive_cases challenger_turnE: "challenger_turn cfg evidence c c'"

interpretation challenger_system: step_system challenger_init "challenger_turn cfg evidence" "backed evidence" for cfg evidence
proof unfold_locales
  fix c assume "challenger_init c"
  then show "backed evidence c"
    by (simp add: challenger_init_def backed_def verdicts_backed_def challenger_state_new_def ckeyed_def)
next
  fix c c' assume "backed evidence c" "challenger_turn cfg evidence c c'"
  then show "backed evidence c'" using c_run_turn_backed by (elim challenger_turnE) (metis keepsD)
qed

text \<open>What a challenge rests on, for a validator with any evidence.\<close>

lemma challenges_backed:
  assumes "challenger_init c0" "(challenger_turn cfg evidence)\<^sup>*\<^sup>* c0 c"
    and "game_validator (ce_validate env) (request_refuted evidence)" "c_run_turn cfg env aenv False c = (r, c')"
  shows "\<exists>new. c_sent c' = c_sent c @ new \<and> (\<forall>a b. Tx_challenge a b \<in> set new \<longrightarrow>
     cc_disable_monitor_only cfg \<and> c_challenger_bond c = Some b \<and>
     (\<exists>snap c1 g. l1_sync_snapshot_of cfg (ce_rpc env) (c_highest_accepted_l1_block c) = Inr snap \<and>
        c_sync_state cfg env c = (Inr (), c1) \<and> hm_get (cgames c1) (cg_index g) = Some g \<and> cg_address g = a \<and>
        snap_latest_timestamp snap < cg_deadline g \<and> challenge_preflight aenv False g = Inr True \<and>
        (claim_refuted evidence g \<or>
         is_parent_challenger_wins (cg_parent_index g) (ce_at_refresh env (snap_pinned_hash snap)) = Inr True)))"
proof -
  have c: "backed evidence c" using challenger_system.reachable_inv assms(1,2) by blast
  let ?c1 = "snd (c_sync_state cfg env c)"
  let ?ok = "fst (c_sync_state cfg env c) = Inr ()"
  let ?cands = "if ?ok then filter cg_should_attempt_to_challenge (hm_values (cgames ?c1)) else []"
  have c1: "backed evidence ?c1" using c_sync_state_backed [OF assms(3)] c by (simp add: keeps_def)
  obtain new where new: "c_sent c' = c_sent c @ new" "list_all (challenge_allowed cfg aenv (c_challenger_bond c) ?cands) new"
    using c_run_turn_inv [OF assms(3) c, of cfg aenv] assms(4) by (auto simp: turn_inv_def)
  have "cc_disable_monitor_only cfg \<and> c_challenger_bond c = Some b \<and>
     (\<exists>snap c1 g. l1_sync_snapshot_of cfg (ce_rpc env) (c_highest_accepted_l1_block c) = Inr snap \<and>
        c_sync_state cfg env c = (Inr (), c1) \<and> hm_get (cgames c1) (cg_index g) = Some g \<and> cg_address g = a \<and>
        snap_latest_timestamp snap < cg_deadline g \<and> challenge_preflight aenv False g = Inr True \<and>
        (claim_refuted evidence g \<or>
         is_parent_challenger_wins (cg_parent_index g) (ce_at_refresh env (snap_pinned_hash snap)) = Inr True))"
    if "Tx_challenge a b \<in> set new" for a b
  proof -
    from new(2) that have tx: "challenge_allowed cfg aenv (c_challenger_bond c) ?cands (Tx_challenge a b)" by (auto simp: list_all_iff)
    then obtain g where g: "g \<in> set ?cands" "cg_address g = a" "challenge_preflight aenv False g = Inr True"
      by (auto simp: challenge_allowed_def)
    then have ok: ?ok and flag: "cg_should_attempt_to_challenge g" and val: "g \<in> set (hm_values (cgames ?c1))"
      by (simp_all split: if_splits)
    from ok have sync: "c_sync_state cfg env c = (Inr (), ?c1)" by (metis prod.collapse)
    from val c1 obtain k where k: "hm_get (cgames ?c1) k = Some g"
      using hm_value_imp_get by (fastforce simp: backed_def verdicts_backed_def ckeyed_def)
    obtain snap m where s: "l1_sync_snapshot_of cfg (ce_rpc env) (c_highest_accepted_l1_block c) = Inr snap" "backed evidence m"
      "c_refresh cfg (ce_validate env) (ce_at_refresh env (snap_pinned_hash snap)) (snap_latest_timestamp snap) m = (Inr (), ?c1)"
      by (rule c_sync_state_success [OF sync c])
    obtain g0 where "sync_result_ok cfg (ce_validate env) (ce_at_refresh env (snap_pinned_hash snap)) (snap_latest_timestamp snap) g0 g"
      by (rule c_refresh_result [OF s(3,2) k])
    with flag have "snap_latest_timestamp snap < cg_deadline g \<and> (is_invalid (cg_validation g) \<or>
        is_parent_challenger_wins (cg_parent_index g) (ce_at_refresh env (snap_pinned_hash snap)) = Inr True)"
      by (auto simp: sync_result_ok_def cflags_ok_def)
    moreover have "cg_index g = k" "is_invalid (cg_validation g) \<longrightarrow> claim_refuted evidence g"
      using verdicts_backed_get c1 k unfolding backed_def by blast+
    moreover have "cc_disable_monitor_only cfg" "c_challenger_bond c = Some b" using tx by (simp_all add: challenge_allowed_def)
    ultimately show ?thesis using s(1) sync k g(2,3) by blast
  qed
  with new(1) show ?thesis by blast
qed

text \<open>
  The challenger with the OP Stack validator, the only one the program ships. \<open>V\<close> are the answers the nodes gave to
  the validations of the run; each request may see other answers. The evidence is a refutation by one of them.
\<close>

definition op_stack_evidence :: "validator_env set \<Rightarrow> evidence" where
  "op_stack_evidence V l1_head l2_block root \<longleftrightarrow> (\<exists>venv \<in> V. \<exists>r. vr_l1_head r = l1_head \<and>
     vr_l2_block_number r = l2_block \<and> vr_output_root r = root \<and> op_stack_refuted venv r)"

definition op_stack_env :: "validator_env set \<Rightarrow> challenger_env \<Rightarrow> bool" where
  "op_stack_env V env \<longleftrightarrow> (\<exists>answers. (\<forall>r. answers r \<in> V) \<and> ce_validate env = (\<lambda>r. op_stack_validate (answers r) r))"

inductive op_stack_turn :: "challenger_config \<Rightarrow> validator_env set \<Rightarrow> challenger \<Rightarrow> challenger \<Rightarrow> bool" for cfg V where
  turn: "op_stack_env V env \<Longrightarrow> c_run_turn cfg env aenv False c = (r, c') \<Longrightarrow> op_stack_turn cfg V c c'"

lemma op_stack_env_validator:
  assumes "op_stack_env V env"
  shows "game_validator (ce_validate env) (request_refuted (op_stack_evidence V))"
proof -
  from assms obtain answers where V: "\<And>r. answers r \<in> V" and validate: "ce_validate env = (\<lambda>r. op_stack_validate (answers r) r)"
    by (auto simp: op_stack_env_def)
  show ?thesis
  proof
    fix r reason assume "ce_validate env r = Invalid reason"
    then have "op_stack_refuted (answers r) r" unfolding validate by (rule op_stack.invalid_refuted)
    with V show "request_refuted (op_stack_evidence V) r" unfolding request_refuted_def op_stack_evidence_def by blast
  qed
qed

lemma op_stack_turns:
  assumes "(op_stack_turn cfg V)\<^sup>*\<^sup>* c c'"
  shows "(challenger_turn cfg (op_stack_evidence V))\<^sup>*\<^sup>* c c'"
proof -
  have "op_stack_turn cfg V \<le> challenger_turn cfg (op_stack_evidence V)"
    by (auto elim!: op_stack_turn.cases intro: challenger_turn.turn [OF op_stack_env_validator])
  from rtranclp_mono [OF this] assms show ?thesis by blast
qed

lemma claim_refuted_op_stack:
  assumes "claim_refuted (op_stack_evidence V) g"
  shows "\<not> fits_u64 (cg_l2_block_number g) \<or> (\<exists>venv \<in> V. \<exists>r safe_l2. vr_l1_head r = cg_l1_head g \<and>
     safe_head_evidence venv r safe_l2 \<and> (unat safe_l2 < unat (cg_l2_block_number g) \<or>
       (\<exists>root. compute_output_root_at_block (ve_l2 venv) (cg_l2_block_number g) = Inr root \<and> root \<noteq> cg_output_root g)))"
  using assms unfolding claim_refuted_def op_stack_evidence_def op_stack_refuted_def by metis

lemma challenge_preflight_yes:
  assumes "challenge_preflight aenv m g = Inr True"
  shows "\<exists>latest cd. ae_latest aenv m (cg_index g) = Inr (Some latest) \<and>
     status_of (ae_at aenv (hd_hash latest)) (cg_address g) = Inr IN_PROGRESS \<and>
     claimData (ae_at aenv (hd_hash latest)) (cg_address g) = Inr cd \<and> cd_status cd = Unchallenged \<and>
     hd_timestamp latest < cd_deadline cd"
proof -
  from assms obtain lb where lb: "ae_latest aenv m (cg_index g) = Inr lb"
    by (auto simp: challenge_preflight_def try_bind_eq_Inr)
  with assms obtain latest where "lb = Some latest" by (cases lb) (auto simp: challenge_preflight_def)
  with lb assms show ?thesis
    by (auto simp: challenge_preflight_def challenge_preflight_ready_def Let_def try_bind_eq_Inr)
qed

text \<open>C14: A challenger with the OP Stack validator sends, outside its malicious testing mode, a challenge only when it may
  send and with its bond, and only for a game in its cache after the pass of that turn, before its deadline by
  the pass's latest timestamp, whose parent the challenger has won at the pinned block or whose claim is refuted by
  answers the nodes gave during the run: the block number does not fit, the safe head established for the game's L1 origin is below
  the claimed block, or the output root the execution node gives for that block is another one. At the latest block,
  fetched again for this game, the game was in progress, unchallenged and before its deadline.\<close>

theorem challenger_honest:
  assumes "challenger_init c0" "(op_stack_turn cfg V)\<^sup>*\<^sup>* c0 c"
    and "op_stack_env V env" "c_run_turn cfg env aenv False c = (r, c')"
  shows "\<exists>new. c_sent c' = c_sent c @ new \<and> (\<forall>a b. Tx_challenge a b \<in> set new \<longrightarrow>
     cc_disable_monitor_only cfg \<and> c_challenger_bond c = Some b \<and>
     (\<exists>snap c1 g. l1_sync_snapshot_of cfg (ce_rpc env) (c_highest_accepted_l1_block c) = Inr snap \<and>
        c_sync_state cfg env c = (Inr (), c1) \<and> hm_get (cgames c1) (cg_index g) = Some g \<and> cg_address g = a \<and>
        snap_latest_timestamp snap < cg_deadline g \<and>
        (\<exists>latest cd. ae_latest aenv False (cg_index g) = Inr (Some latest) \<and>
           status_of (ae_at aenv (hd_hash latest)) a = Inr IN_PROGRESS \<and>
           claimData (ae_at aenv (hd_hash latest)) a = Inr cd \<and> cd_status cd = Unchallenged \<and>
           hd_timestamp latest < cd_deadline cd) \<and>
        (is_parent_challenger_wins (cg_parent_index g) (ce_at_refresh env (snap_pinned_hash snap)) = Inr True \<or>
         \<not> fits_u64 (cg_l2_block_number g) \<or>
         (\<exists>venv \<in> V. \<exists>r safe_l2. vr_l1_head r = cg_l1_head g \<and> safe_head_evidence venv r safe_l2 \<and>
            (unat safe_l2 < unat (cg_l2_block_number g) \<or>
             (\<exists>root. compute_output_root_at_block (ve_l2 venv) (cg_l2_block_number g) = Inr root \<and>
                root \<noteq> cg_output_root g))))))"
proof -
  from challenges_backed [OF assms(1) op_stack_turns [OF assms(2)] op_stack_env_validator [OF assms(3)] assms(4)]
  obtain new where sent: "c_sent c' = c_sent c @ new" and each: "\<And>a b. Tx_challenge a b \<in> set new \<Longrightarrow>
     cc_disable_monitor_only cfg \<and> c_challenger_bond c = Some b \<and>
     (\<exists>snap c1 g. l1_sync_snapshot_of cfg (ce_rpc env) (c_highest_accepted_l1_block c) = Inr snap \<and>
        c_sync_state cfg env c = (Inr (), c1) \<and> hm_get (cgames c1) (cg_index g) = Some g \<and> cg_address g = a \<and>
        snap_latest_timestamp snap < cg_deadline g \<and> challenge_preflight aenv False g = Inr True \<and>
        (claim_refuted (op_stack_evidence V) g \<or>
         is_parent_challenger_wins (cg_parent_index g) (ce_at_refresh env (snap_pinned_hash snap)) = Inr True))"
    by blast
  show ?thesis
  proof (intro exI [of _ new] conjI allI impI sent)
    fix a b assume tx: "Tx_challenge a b \<in> set new"
    from each [OF tx] obtain snap c1 g where
      b: "cc_disable_monitor_only cfg" "c_challenger_bond c = Some b" and
      g: "l1_sync_snapshot_of cfg (ce_rpc env) (c_highest_accepted_l1_block c) = Inr snap"
        "c_sync_state cfg env c = (Inr (), c1)" "hm_get (cgames c1) (cg_index g) = Some g" "cg_address g = a"
        "snap_latest_timestamp snap < cg_deadline g" and pre: "challenge_preflight aenv False g = Inr True"
      and why: "claim_refuted (op_stack_evidence V) g \<or>
         is_parent_challenger_wins (cg_parent_index g) (ce_at_refresh env (snap_pinned_hash snap)) = Inr True"
      by (elim conjE exE) (rule that)
    show "cc_disable_monitor_only cfg" "c_challenger_bond c = Some b" by (rule b)+
    note latest = challenge_preflight_yes [OF pre, unfolded g(4)]
    have refuted: "is_parent_challenger_wins (cg_parent_index g) (ce_at_refresh env (snap_pinned_hash snap)) = Inr True \<or>
         \<not> fits_u64 (cg_l2_block_number g) \<or>
         (\<exists>venv \<in> V. \<exists>r safe_l2. vr_l1_head r = cg_l1_head g \<and> safe_head_evidence venv r safe_l2 \<and>
            (unat safe_l2 < unat (cg_l2_block_number g) \<or>
             (\<exists>root. compute_output_root_at_block (ve_l2 venv) (cg_l2_block_number g) = Inr root \<and> root \<noteq> cg_output_root g)))"
      using why claim_refuted_op_stack by blast
    show "\<exists>snap c1 g. l1_sync_snapshot_of cfg (ce_rpc env) (c_highest_accepted_l1_block c) = Inr snap \<and>
        c_sync_state cfg env c = (Inr (), c1) \<and> hm_get (cgames c1) (cg_index g) = Some g \<and> cg_address g = a \<and>
        snap_latest_timestamp snap < cg_deadline g \<and>
        (\<exists>latest cd. ae_latest aenv False (cg_index g) = Inr (Some latest) \<and>
           status_of (ae_at aenv (hd_hash latest)) a = Inr IN_PROGRESS \<and>
           claimData (ae_at aenv (hd_hash latest)) a = Inr cd \<and> cd_status cd = Unchallenged \<and>
           hd_timestamp latest < cd_deadline cd) \<and>
        (is_parent_challenger_wins (cg_parent_index g) (ce_at_refresh env (snap_pinned_hash snap)) = Inr True \<or>
         \<not> fits_u64 (cg_l2_block_number g) \<or>
         (\<exists>venv \<in> V. \<exists>r safe_l2. vr_l1_head r = cg_l1_head g \<and> safe_head_evidence venv r safe_l2 \<and>
            (unat safe_l2 < unat (cg_l2_block_number g) \<or>
             (\<exists>root. compute_output_root_at_block (ve_l2 venv) (cg_l2_block_number g) = Inr root \<and> root \<noteq> cg_output_root g))))"
      by (intro exI [of _ snap] exI [of _ c1] exI [of _ g] conjI g latest refuted)
  qed
qed

section \<open>No game is missed\<close>

definition fetched_entry :: "challenger_config \<Rightarrow> l1_view \<Rightarrow> u256 \<Rightarrow> cgame option \<Rightarrow> cgame option" where
  "fetched_entry cfg v k old = (case c_fetch_game cfg v k of Inr (Some g) \<Rightarrow> Some g | _ \<Rightarrow> old)"

definition fetch_fails :: "challenger_config \<Rightarrow> l1_view \<Rightarrow> u256 \<Rightarrow> bool" where
  "fetch_fails cfg v k = (case c_fetch_game cfg v k of Inl _ \<Rightarrow> True | Inr _ \<Rightarrow> False)"

lemma retry_discovery_effect:
  "hm_get (cs_games (retry_discovery cfg v idx st)) k =
     (if k = idx then fetched_entry cfg v k (hm_get (cs_games st) k) else hm_get (cs_games st) k)"
  "k \<in> set (cs_pending_discoveries (retry_discovery cfg v idx st)) \<longleftrightarrow>
     k \<in> set (cs_pending_discoveries st) \<and> (k = idx \<longrightarrow> fetch_fails cfg v k)"
  by (auto simp: retry_discovery_def insert_fetched_def fetched_entry_def fetch_fails_def split: sum.splits option.splits)

lemma fetched_entry_idem [simp]: "fetched_entry cfg v k (fetched_entry cfg v k x) = fetched_entry cfg v k x"
  by (simp add: fetched_entry_def split: sum.split option.split)

lemma retry_fold_effect:
  "hm_get (cs_games (fold (retry_discovery cfg v) idxs st)) k =
     (if k \<in> set idxs then fetched_entry cfg v k (hm_get (cs_games st) k) else hm_get (cs_games st) k)"
  "k \<in> set (cs_pending_discoveries (fold (retry_discovery cfg v) idxs st)) \<longleftrightarrow>
     k \<in> set (cs_pending_discoveries st) \<and> (k \<in> set idxs \<longrightarrow> fetch_fails cfg v k)"
  by (induction idxs arbitrary: st) (auto simp: retry_discovery_effect)

lemma retry_discoveries_effect:
  "hm_get (cs_games (retry_discoveries cfg v st)) k =
     (if k \<in> set (cs_pending_discoveries st) then fetched_entry cfg v k (hm_get (cs_games st) k) else hm_get (cs_games st) k)"
  "k \<in> set (cs_pending_discoveries (retry_discoveries cfg v st)) \<longleftrightarrow> k \<in> set (cs_pending_discoveries st) \<and> fetch_fails cfg v k"
  by (auto simp: retry_discoveries_def retry_fold_effect)

lemma retry_cursor [simp]: "cs_cursor (retry_discoveries cfg v st) = cs_cursor st"
proof -
  have "cs_cursor (fold (retry_discovery cfg v) idxs st) = cs_cursor st" for idxs
    by (induction idxs arbitrary: st) (simp_all add: retry_discovery_def insert_fetched_def split: sum.split option.split)
  then show ?thesis by (simp add: retry_discoveries_def)
qed

lemma discover_one_effect:
  "hm_get (cs_games (discover_one cfg v idx st)) k =
     (if k = idx then fetched_entry cfg v k (hm_get (cs_games st) k) else hm_get (cs_games st) k)"
  "k \<in> set (cs_pending_discoveries (discover_one cfg v idx st)) \<longleftrightarrow>
     k \<in> set (cs_pending_discoveries st) \<or> (k = idx \<and> fetch_fails cfg v k)"
  "cs_cursor (discover_one cfg v idx st) = Some idx"
  by (auto simp: discover_one_def record_discovery_attempt_def insert_fetched_def fetched_entry_def fetch_fails_def
      split: sum.splits option.splits)

lemma succ_le_iff: "idx \<noteq> - 1 \<Longrightarrow> idx + 1 \<le> k \<longleftrightarrow> idx < k" for idx k :: u256
  by (simp add: word_le_nat_alt word_less_nat_alt unat_add_one Suc_le_eq)

lemma discover_effect:
  "hm_get (cs_games (discover cfg v latest idx st)) k =
     (if idx \<le> k \<and> k \<le> latest then fetched_entry cfg v k (hm_get (cs_games st) k) else hm_get (cs_games st) k) \<and>
   (k \<in> set (cs_pending_discoveries (discover cfg v latest idx st)) \<longleftrightarrow>
     k \<in> set (cs_pending_discoveries st) \<or> (idx \<le> k \<and> k \<le> latest \<and> fetch_fails cfg v k)) \<and>
   cs_cursor (discover cfg v latest idx st) = (if idx \<le> latest then Some latest else cs_cursor st)"
proof (induction cfg v latest idx st rule: discover.induct)
  case (1 cfg v latest idx st)
  consider "\<not> idx \<le> latest" | "idx \<le> latest" "idx = - 1" | "idx \<le> latest" "idx \<noteq> - 1" by blast
  then show ?case
  proof cases
    case 1
    then show ?thesis by (subst (1 2 3) discover.simps) auto
  next
    case 2
    then have "latest = - 1" by (simp add: word_order.extremum_unique)
    moreover from 2 have "discover cfg v latest idx st = discover_one cfg v idx st" by (subst discover.simps) simp
    moreover have "- 1 \<le> k \<longleftrightarrow> k = - 1" by (simp add: word_order.extremum_unique)
    ultimately show ?thesis using 2 by (auto simp: discover_one_effect)
  next
    case 3
    then have eq: "discover cfg v latest idx st = discover cfg v latest (idx + 1) (discover_one cfg v idx st)"
      by (simp add: discover.simps [of cfg v latest idx st])
    show ?thesis
      using "1.IH" [OF 3] 3 unfolding eq discover_one_effect succ_le_iff [OF 3(2)]
      by (cases "k = idx") (auto simp: order.order_iff_strict)
  qed
qed

text \<open>C16: No factory index is lost by discovery. After the retries and the scan up to the latest index, the cursor is
  that index; an index that was waiting or lies between the old cursor and the latest index is in the cache as it was read
  if it belongs to this challenger, and waits for a retry if and only if reading it failed; every other entry is as it was.\<close>

theorem discovery_complete:
  assumes "fetch_latest_game_index v = Inr (Some latest)"
    and "discover_new cfg v (upd_cs (retry_discoveries cfg v) c) = (Inr (), c')"
    and "start = (case cs_cursor (c_state c) of None \<Rightarrow> 0 | Some i \<Rightarrow> i + 1)" "start \<le> latest"
  shows "cs_cursor (c_state c') = Some latest \<and>
    hm_get (cgames c') k =
      (if k \<in> set (cs_pending_discoveries (c_state c)) \<or> (start \<le> k \<and> k \<le> latest)
       then fetched_entry cfg v k (hm_get (cgames c) k) else hm_get (cgames c) k) \<and>
    (k \<in> set (cs_pending_discoveries (c_state c')) \<longleftrightarrow>
      (k \<in> set (cs_pending_discoveries (c_state c)) \<or> (start \<le> k \<and> k \<le> latest)) \<and> fetch_fails cfg v k)"
proof -
  have c': "c_state c' = discover cfg v latest start (retry_discoveries cfg v (c_state c))"
    using assms(1-3) by (auto simp: discover_new_def)
  note eff = discover_effect [of cfg v latest start "retry_discoveries cfg v (c_state c)" k]
  show ?thesis using eff assms(4) by (auto simp: c' retry_discoveries_effect)
qed

section \<open>Witnesses\<close>

definition sample_challenger_config :: challenger_config where
  "sample_challenger_config = \<lparr> cc_game_type = 42, cc_anchor_state_registry_address = 77, cc_registry = 77,
     cc_sync_l1_confirmations = 2, cc_disable_monitor_only = True, cc_signer = 9 \<rparr>"

text \<open>An execution node whose output root is 8 where the sample games claim 7.\<close>

definition sample_refuting_validator :: validator_env where
  "sample_refuting_validator = sample_validator\<lparr> ve_l2 := (ve_l2 sample_validator)\<lparr> keccak_L2Output := (\<lambda>_ _ _ _. 8) \<rparr> \<rparr>"

definition sample_challenger_env :: challenger_env where
  "sample_challenger_env = \<lparr> ce_rpc = sample_rpc, ce_at_discovery = (\<lambda>_. sample_view\<lparr> l1Head := (\<lambda>_. Inr 107) \<rparr>), ce_at_refresh = (\<lambda>_. sample_view),
     ce_validate = op_stack_validate sample_refuting_validator \<rparr>"

definition sample_action_env :: action_env where
  "sample_action_env = \<lparr> ae_latest = (\<lambda>_ _. Inr (Some (sample_header 10))), ae_latest_scan = Inr (Some (sample_header 10)), ae_at = (\<lambda>_. sample_view), ae_view = sample_view,
     ae_send = (\<lambda>_ _. Inr \<lparr> rc_status = True, rc_transaction_hash = 1, rc_block_number = Some 9, rc_created = None \<rparr>) \<rparr>"

definition sample_challenger :: challenger where
  "sample_challenger = new_challenger\<lparr> c_challenger_bond := Some 3 \<rparr>"

abbreviation sample_turn :: "unit result \<times> challenger" where
  "sample_turn \<equiv> c_run_turn sample_challenger_config sample_challenger_env sample_action_env False sample_challenger"

lemma sample_op_stack_env: "op_stack_env {sample_refuting_validator} sample_challenger_env"
  unfolding op_stack_env_def sample_challenger_env_def
  by (intro exI [of _ "\<lambda>_. sample_refuting_validator"]) simp

theorem c_try_init_first_success_witness:
  "c_try_init sample_challenger_config [(sample_view, Inl (Err ''down'')), (sample_view, Inr ())] new_challenger =
     (Inr True, new_challenger\<lparr> c_challenger_bond := Some 3 \<rparr>)"
proof -
  have "c_challenger_bond new_challenger = None" by code_simp
  moreover have "c_startup_validations sample_challenger_config sample_view (Inr ()) = Inr 3" by code_simp
  moreover have "c_startup_validations sample_challenger_config sample_view (Inl (Err ''down'')) = Inl (Err ''down'')" by code_simp
  ultimately show ?thesis
    using c_try_init_first_success [of new_challenger sample_challenger_config sample_view "Inr ()" 3
      "[(sample_view, Inl (Err ''down''))]" "[]"] by simp
qed

theorem challenger_honest_witness:
  "c_sent (snd sample_turn) = [Tx_challenge 2 3] \<and> c_challenger_bond sample_challenger = Some 3 \<and>
   cc_disable_monitor_only sample_challenger_config"
proof -
  have sent: "c_sent (snd sample_turn) = [Tx_challenge 2 3]" by code_simp
  have empty: "c_sent sample_challenger = []" by code_simp
  have init: "challenger_init sample_challenger" by (simp add: challenger_init_def sample_challenger_def new_challenger_def)
  obtain r c' where run: "sample_turn = (r, c')" by (cases sample_turn)
  show ?thesis
    using challenger_honest [OF init rtranclp.rtrancl_refl sample_op_stack_env run] sent empty run by auto
qed

theorem c_sync_state_flags_witness:
  "\<exists>g. hm_get (cgames (snd (c_sync_state sample_challenger_config sample_challenger_env sample_challenger))) 1 = Some g \<and>
     cg_should_attempt_to_challenge g \<and> cflags_ok sample_challenger_config sample_view 120 g"
proof -
  let ?run = "c_sync_state sample_challenger_config sample_challenger_env sample_challenger"
  have "fst ?run = Inr ()" by code_simp
  then have run: "?run = (Inr (), snd ?run)" by (metis prod.collapse)
  have keyed: "ckeyed (cgames sample_challenger)"
    by (simp add: sample_challenger_def new_challenger_def challenger_state_new_def ckeyed_def)
  have "map_option cg_should_attempt_to_challenge (hm_get (cgames (snd ?run)) 1) = Some True" by code_simp
  then obtain g where g: "hm_get (cgames (snd ?run)) 1 = Some g" "cg_should_attempt_to_challenge g" by auto
  have "map_sum (\<lambda>_. ()) snap_latest_timestamp (l1_sync_snapshot_of sample_challenger_config (ce_rpc sample_challenger_env)
      (c_highest_accepted_l1_block sample_challenger)) = Inr 120" by code_simp
  with c_sync_state_flags [OF keyed run g(1)] g show ?thesis by (auto simp: sample_challenger_env_def)
qed

theorem discovery_complete_witness:
  "cs_cursor (c_state (snd (discover_new sample_challenger_config sample_view
     (upd_cs (retry_discoveries sample_challenger_config sample_view) sample_challenger)))) = Some 1"
proof -
  let ?run = "discover_new sample_challenger_config sample_view
     (upd_cs (retry_discoveries sample_challenger_config sample_view) sample_challenger)"
  have "fst ?run = Inr ()" by code_simp
  then have run: "?run = (Inr (), snd ?run)" by (metis prod.collapse)
  have "fetch_latest_game_index sample_view = Inr (Some 1)" by code_simp
  moreover have "cs_cursor (c_state sample_challenger) = None" by code_simp
  ultimately show ?thesis using discovery_complete [OF _ run, of 1 0 0] by simp
qed

end
