(* ===== verification/Ranges.thy ===== *)
theory Ranges
  imports Prelude
begin

text \<open>
  Cutting ranges of blocks into the pieces that are proved one by one:

  \<^item> \<open>RangeSplitCount::split\<close> of \<open>fault-proof/src/config.rs\<close> (the pieces of one game's range);
  \<^item> \<open>split_range_basic\<close> and the loop of \<open>split_range_based_on_safe_heads\<close> of \<open>utils/host/src/block_range.rs\<close>;
  \<^item> \<open>find_gaps\<close>, \<open>merge_ranges\<close>, \<open>get_ranges_to_prove_by_blocks\<close> and \<open>get_ranges_to_prove_by_gas\<close> of
    \<open>validity/src/utils.rs\<close>.

  A pair \<open>(a, b)\<close> is the proving range of the blocks \<open>a + 1, \<dots>, b\<close>: \<open>a\<close> is the agreed block, \<open>b\<close> the claimed one.
  The contract all splitters share, pieces that follow on each other from the first block to the last,
  is the predicate \<open>chained\<close>; the locale \<open>range_splitter\<close> derives from it what the callers rely on, and each
  splitter interprets it.

  The validity sources keep block numbers as \<open>i64\<close>. They are integers here, and the sums and differences that
  could leave the type are reduced by \<open>i64\<close>. A loop that may not end returns an option; \<open>None\<close> is divergence.
\<close>

section \<open>Chains of ranges\<close>

fun chained :: "'a::linorder \<Rightarrow> 'a \<Rightarrow> ('a \<times> 'a) list \<Rightarrow> bool" where
  "chained s e [] \<longleftrightarrow> s = e"
| "chained s e ((a, b) # rs) \<longleftrightarrow> a = s \<and> a < b \<and> chained b e rs"

lemma chained_le: "chained s e rs \<Longrightarrow> s \<le> e"
  by (induction s e rs rule: chained.induct) auto

lemma chained_less: "chained s e rs \<Longrightarrow> rs \<noteq> [] \<Longrightarrow> s < e"
  by (cases rs) (auto, meson chained_le less_le_trans)

lemma chained_append: "chained s m rs \<Longrightarrow> chained m e rs' \<Longrightarrow> chained s e (rs @ rs')"
  by (induction s m rs rule: chained.induct) auto

lemma chained_snoc: "chained s m rs \<Longrightarrow> m < e \<Longrightarrow> chained s e (rs @ [(m, e)])"
  by (rule chained_append) auto

lemma chained_bounds: "chained s e rs \<Longrightarrow> (a, b) \<in> set rs \<Longrightarrow> s \<le> a \<and> a < b \<and> b \<le> e"
proof (induction s e rs rule: chained.induct)
  case (2 s e p q rs)
  then have "q \<le> e" "s < q" by (auto dest: chained_le)
  with 2 show ?case by fastforce
qed simp

lemma chained_covers: "chained s e rs \<Longrightarrow> s < x \<Longrightarrow> x \<le> e \<Longrightarrow> \<exists>(a, b) \<in> set rs. a < x \<and> x \<le> b"
proof (induction s e rs rule: chained.induct)
  case (2 s e a b rs)
  then show ?case by (cases "x \<le> b") auto
qed auto

lemma chained_unique:
  assumes "chained s e rs" "(a, b) \<in> set rs" "(c, d) \<in> set rs" "a < x" "x \<le> b" "c < x" "x \<le> d"
  shows "(a, b) = (c, d)"
  using assms
proof (induction s e rs rule: chained.induct)
  case (2 s e p q rs)
  then have "chained q e rs" by simp
  then have "q \<le> u" if "(u, w) \<in> set rs" for u w using that chained_bounds by blast
  then have "\<not> (u < x \<and> x \<le> q)" if "(u, w) \<in> set rs" for u w using that by (meson leD le_less_trans)
  with 2 show ?case by auto
qed auto

lemma chained_disjoint: "chained s e rs \<Longrightarrow> sorted_wrt (\<lambda>(a, b) (c, d). b \<le> c) rs"
proof (induction s e rs rule: chained.induct)
  case (2 s e a b rs)
  then have "b \<le> c" if "(c, d) \<in> set rs" for c d using that chained_bounds by fastforce
  with 2 show ?case by auto
qed auto

text \<open>The contract of a splitter: where it accepts its arguments, the pieces are a chain.\<close>

locale range_splitter =
  fixes split :: "'a::linorder \<Rightarrow> 'a \<Rightarrow> ('a \<times> 'a) list option"
    and accepts :: "'a \<Rightarrow> 'a \<Rightarrow> bool"
  assumes split_chained: "accepts s e \<Longrightarrow> \<exists>rs. split s e = Some rs \<and> chained s e rs"
begin

lemma accepts_le: "accepts s e \<Longrightarrow> s \<le> e"
  using split_chained chained_le by blast

lemma split_covers:
  assumes "accepts s e" "split s e = Some rs"
  shows "s < x \<and> x \<le> e \<longleftrightarrow> (\<exists>(a, b) \<in> set rs. a < x \<and> x \<le> b)"
  using split_chained [OF assms(1)] assms(2) chained_covers chained_bounds by fastforce

lemma split_exactly_once:
  assumes "accepts s e" "split s e = Some rs" "s < x" "x \<le> e"
  shows "\<exists>!r. r \<in> set rs \<and> fst r < x \<and> x \<le> snd r"
proof -
  have "chained s e rs" using split_chained [OF assms(1)] assms(2) by auto
  with chained_covers [OF this assms(3,4)] chained_unique [OF this] show ?thesis by (auto 0 4)
qed

end

section \<open>Splitting the range of a game\<close>

record range_split_count =
  rsc_count :: u8

definition RangeSplitCount_MAX :: u8 where
  "RangeSplitCount_MAX = 16"

definition range_split_count_new :: "u8 \<Rightarrow> range_split_count result" where
  "range_split_count_new n =
     (if n = 0 \<or> n > RangeSplitCount_MAX then Inl (Err ''range splits must be between 1 and 16'')
      else Inr \<lparr> rsc_count = n \<rparr>)"

definition range_split_count_one :: range_split_count where
  "range_split_count_one = \<lparr> rsc_count = 1 \<rparr>"

definition range_split_count_to_usize :: "range_split_count \<Rightarrow> u64" where
  "range_split_count_to_usize c = ucast (rsc_count c)"

definition range_split_count_try_from :: "u64 \<Rightarrow> range_split_count result" where
  "range_split_count_try_from n =
     (if n < 256 then range_split_count_new (ucast n) else Inl (Err ''range splits must be between 1 and 16''))"

definition div_ceil :: "u64 \<Rightarrow> u64 \<Rightarrow> u64" where
  "div_ceil a b = (let d = a div b in if a mod b > 0 then d + 1 else d)"

fun split_loop :: "u64 \<Rightarrow> u64 \<Rightarrow> nat \<Rightarrow> u64 \<Rightarrow> (u64 \<times> u64) list" where
  "split_loop step end 0 cur = []"
| "split_loop step end (Suc n) cur =
     (if cur \<ge> end then []
      else let nxt = min (saturating_add cur step) end in (cur, nxt) # split_loop step end n nxt)"

definition range_split :: "range_split_count \<Rightarrow> u64 \<Rightarrow> u64 \<Rightarrow> (u64 \<times> u64) list result" where
  "range_split c start end =
     try_bind (ok_or ''end block is not greater than start block'' (checked_sub end start)) (\<lambda>total.
     if total = 0 then Inl (Err ''start block equals end block; nothing to prove'') else
     let splits = range_split_count_to_usize c in
     if splits = 1 then Inr [(start, end)] else
     let segments = min splits total; step = div_ceil total segments
     in Inr (split_loop step end (unat segments) start))"

lemma split_loop_chained:
  assumes "cur \<le> end" "unat end \<le> unat cur + n * unat step"
  shows "chained cur end (split_loop step end n cur)"
  using assms
proof (induction n arbitrary: cur)
  case 0
  then show ?case by (simp add: word_le_nat_alt word_unat_eq_iff)
next
  case (Suc n)
  show ?case
  proof (cases "cur \<ge> end")
    case True
    with Suc.prems show ?thesis by simp
  next
    case False
    let ?nxt = "min (saturating_add cur step) end"
    have e: "unat end < 2 ^ 64" by (rule unat_u64_bound)
    have nxt: "unat ?nxt = min (unat cur + unat step) (unat end)"
      using e by (auto simp: min_def word_le_nat_alt unat_saturating_add)
    have "unat end \<le> unat cur + unat step + n * unat step" using Suc.prems(2) by simp
    then have "unat end \<le> unat ?nxt + n * unat step" unfolding nxt by linarith
    moreover have "step \<noteq> 0" using Suc.prems(2) False by (auto simp: word_le_nat_alt)
    then have "0 < unat step" by (simp add: unat_gt_0)
    then have "cur < ?nxt" using False nxt by (auto simp: word_less_nat_alt word_le_nat_alt)
    ultimately show ?thesis using False Suc.IH [of ?nxt] by (simp add: Let_def)
  qed
qed

lemma split_loop_length: "length (split_loop step end n cur) \<le> n"
  by (induction n arbitrary: cur) (auto simp: Let_def)

lemma div_ceil_covers: "b \<noteq> 0 \<Longrightarrow> unat a \<le> unat b * unat (div_ceil a b)"
proof -
  assume b: "b \<noteq> 0"
  then have ub: "0 < unat b" by (simp add: unat_gt_0)
  have "unat (div_ceil a b) = unat a div unat b + (if unat a mod unat b > 0 then 1 else 0)"
  proof (cases "a mod b > 0")
    case True
    then have m: "unat a mod unat b > 0" by (simp add: word_less_nat_alt unat_mod)
    have "unat a div unat b < unat a"
    proof (cases "unat b = 1")
      case False
      then have "1 < unat b" using ub by simp
      moreover have "0 < unat a" using m by (cases "unat a") auto
      ultimately show ?thesis by (rule div_less_dividend)
    qed (use m in simp)
    then have "a div b \<noteq> - 1"
      using unsigned_less [where 'a = nat, of a] by (auto simp: word_unat_eq_iff unat_div unsigned_minus_1_eq_mask mask_eq_exp_minus_1)
    then show ?thesis using True m by (simp add: div_ceil_def unat_add_one unat_div)
  next
    case False
    then have "unat a mod unat b = 0" by (simp add: word_less_nat_alt unat_mod)
    with False show ?thesis by (simp add: div_ceil_def unat_div)
  qed
  moreover have "x \<le> y * (x div y + (if x mod y > 0 then 1 else 0))" if "0 < y" for x y :: nat
  proof -
    have eq: "x = y * (x div y) + x mod y" by simp
    show ?thesis
    proof (cases "x mod y = 0")
      case True
      with eq show ?thesis by simp
    next
      case False
      have "x mod y < y" using that by simp
      with eq have "x \<le> y * (x div y) + y" by linarith
      with False show ?thesis by (simp add: distrib_left)
    qed
  qed
  ultimately show ?thesis using ub by simp
qed

lemma range_split_Inr:
  assumes "rsc_count c \<noteq> 0" "start < end"
  shows "\<exists>rs. range_split c start end = Inr rs \<and> chained start end rs \<and> length rs \<le> unat (rsc_count c) \<and> rs \<noteq> []"
proof -
  let ?total = "end - start" let ?splits = "range_split_count_to_usize c"
  have t: "unat ?total = unat end - unat start" using assms(2) by (simp add: unat_sub)
  then have tpos: "?total \<noteq> 0" using assms(2) by (auto simp: word_less_nat_alt)
  have s: "unat ?splits = unat (rsc_count c)"
    using unsigned_less [where 'a = nat, of "rsc_count c"]
    by (simp add: range_split_count_to_usize_def unsigned_ucast_eq take_bit_nat_eq_self_iff)
  then have spos: "?splits \<noteq> 0" using assms(1) by (auto simp: unat_eq_0 [symmetric] simp del: unat_eq_0)
  have le: "start \<le> end" using assms(2) by simp
  show ?thesis
  proof (cases "?splits = 1")
    case True
    then have "unat (rsc_count c) = 1" using s by simp
    then show ?thesis using True assms(2) tpos le by (simp add: range_split_def checked_sub_def)
  next
    case False
    let ?seg = "min ?splits ?total"
    let ?rs = "split_loop (div_ceil ?total ?seg) end (unat ?seg) start"
    have seg: "?seg \<noteq> 0" using spos tpos by (simp add: min_def)
    from div_ceil_covers [OF seg, of ?total] have "unat end \<le> unat start + unat ?seg * unat (div_ceil ?total ?seg)"
      unfolding t by linarith
    then have ch: "chained start end ?rs" using le by (intro split_loop_chained)
    moreover have "?rs \<noteq> []" using ch assms(2) by (cases ?rs) auto
    moreover have "length ?rs \<le> unat (rsc_count c)"
      using split_loop_length [of "div_ceil ?total ?seg" "end" "unat ?seg" start] s
      by (simp add: min_def word_le_nat_alt split: if_splits)
    ultimately show ?thesis
      using False tpos le by (intro exI [of _ ?rs]) (simp add: range_split_def checked_sub_def Let_def)
  qed
qed

definition result_option :: "'a result \<Rightarrow> 'a option" where
  "result_option r = (case r of Inl _ \<Rightarrow> None | Inr x \<Rightarrow> Some x)"

interpretation game_split: range_splitter "\<lambda>s e. result_option (range_split c s e)" "\<lambda>s e. rsc_count c \<noteq> 0 \<and> s < e" for c
  by unfold_locales (use range_split_Inr in \<open>fastforce simp: result_option_def\<close>)

section \<open>Spans of the scripts and of the host\<close>

partial_function (option) split_range_basic :: "u64 \<Rightarrow> u64 \<Rightarrow> u64 \<Rightarrow> (u64 \<times> u64) list option" where
  "split_range_basic current_start end max_range_size =
     (if current_start < end
      then let current_end = min (current_start + max_range_size) end
           in Option.bind (split_range_basic current_end end max_range_size) (\<lambda>rs. Some ((current_start, current_end) # rs))
      else Some [])"

declare split_range_basic.simps [code]

lemma split_range_basic_chained:
  assumes "0 < m" "unat e + unat m < 2 ^ 64" "s \<le> e"
  shows "\<exists>rs. split_range_basic s e m = Some rs \<and> chained s e rs \<and> (\<forall>(a, b) \<in> set rs. unat b - unat a \<le> unat m)"
  using assms(3)
proof (induction "unat e - unat s" arbitrary: s rule: less_induct)
  case less
  show ?case
  proof (cases "s < e")
    case False
    then have "split_range_basic s e m = Some []" by (simp add: split_range_basic.simps [of s])
    moreover have "chained s e []" using False less.prems by simp
    ultimately show ?thesis by fastforce
  next
    case True
    let ?c = "min (s + m) e"
    have "unat (s + m) = unat s + unat m"
      using True assms(2) by (simp add: word_less_nat_alt unat_plus_if')
    then have c: "unat ?c = min (unat s + unat m) (unat e)" by (auto simp: min_def word_le_nat_alt)
    have m: "0 < unat m" using assms(1) by (simp add: word_less_nat_alt)
    have lt: "s < ?c" using True m c by (simp add: word_less_nat_alt)
    have "unat e - unat ?c < unat e - unat s" using True m c by (simp add: word_less_nat_alt)
    from less.hyps [OF this] obtain rs where rs: "split_range_basic ?c e m = Some rs" "chained ?c e rs"
      "\<forall>(a, b) \<in> set rs. unat b - unat a \<le> unat m" by auto
    have "split_range_basic s e m = Some ((s, ?c) # rs)"
      using True rs(1) by (simp add: split_range_basic.simps [of s] Let_def)
    moreover have "unat ?c - unat s \<le> unat m" using c by simp
    ultimately show ?thesis using rs(2,3) lt by simp
  qed
qed

interpretation basic_split: range_splitter "\<lambda>s e. split_range_basic s e m" "\<lambda>s e. 0 < m \<and> unat e + unat m < 2 ^ 64 \<and> s \<le> e" for m
  by unfold_locales (use split_range_basic_chained in blast)

text \<open>
  The loop of \<open>split_range_based_on_safe_heads\<close> over the sorted, distinct safe heads (what the node reports for the L1
  blocks in question). The inner \<open>while\<close> cuts the span up to a safe head into pieces of the maximal size.
\<close>

partial_function (option) safe_head_pieces :: "u64 \<Rightarrow> u64 \<Rightarrow> u64 \<Rightarrow> (u64 \<times> u64) list option" where
  "safe_head_pieces max_range_size target range_start =
     (if range_start + max_range_size < target
      then Option.bind (safe_head_pieces max_range_size target (range_start + max_range_size))
             (\<lambda>rs. Some ((range_start, range_start + max_range_size) # rs))
      else Some [(range_start, target)])"

declare safe_head_pieces.simps [code]

fun split_at_safe_heads :: "u64 \<Rightarrow> u64 \<Rightarrow> u64 \<Rightarrow> u64 list \<Rightarrow> (u64 \<times> u64) list option" where
  "split_at_safe_heads l2_end max_range_size current_l2_start [] = Some []"
| "split_at_safe_heads l2_end max_range_size current_l2_start (safe_head # safe_heads) =
     (if safe_head > current_l2_start \<and> current_l2_start < l2_end
      then Option.bind (safe_head_pieces max_range_size (min l2_end safe_head) current_l2_start) (\<lambda>rs.
           Option.bind (split_at_safe_heads l2_end max_range_size safe_head safe_heads) (\<lambda>rs'. Some (rs @ rs')))
      else split_at_safe_heads l2_end max_range_size current_l2_start safe_heads)"

lemma safe_head_pieces_chained:
  assumes "0 < m" "unat t + unat m < 2 ^ 64" "s < t"
  shows "\<exists>rs. safe_head_pieces m t s = Some rs \<and> chained s t rs \<and> (\<forall>(a, b) \<in> set rs. unat b - unat a \<le> unat m)"
  using assms(3)
proof (induction "unat t - unat s" arbitrary: s rule: less_induct)
  case less
  have m: "0 < unat m" using assms(1) by (simp add: word_less_nat_alt)
  have sm: "unat (s + m) = unat s + unat m"
    using less.prems assms(2) by (simp add: word_less_nat_alt unat_plus_if')
  show ?case
  proof (cases "s + m < t")
    case False
    then have "unat t - unat s \<le> unat m" using sm by (simp add: word_less_nat_alt)
    with False less.prems show ?thesis by (simp add: safe_head_pieces.simps [of m t s])
  next
    case True
    have "unat t - unat (s + m) < unat t - unat s" using sm m less.prems by (simp add: word_less_nat_alt)
    from less.hyps [OF this True] obtain rs where rs: "safe_head_pieces m t (s + m) = Some rs" "chained (s + m) t rs"
      "\<forall>(a, b) \<in> set rs. unat b - unat a \<le> unat m" by auto
    have "safe_head_pieces m t s = Some ((s, s + m) # rs)"
      using True rs(1) by (simp add: safe_head_pieces.simps [of m t s])
    moreover have "s < s + m" using sm m by (simp add: word_less_nat_alt)
    ultimately show ?thesis using rs(2,3) sm by simp
  qed
qed

text \<open>Past the end nothing more is produced.\<close>

lemma split_at_safe_heads_done: "l2_end \<le> s \<Longrightarrow> split_at_safe_heads l2_end m s hs = Some []"
  by (induction hs) auto

lemma split_at_safe_heads_chained:
  assumes "0 < m" "unat l2_end + unat m < 2 ^ 64" "s < l2_end" "\<exists>h \<in> set hs. l2_end \<le> h" "sorted hs"
  shows "\<exists>rs. split_at_safe_heads l2_end m s hs = Some rs \<and> chained s l2_end rs \<and> (\<forall>(a, b) \<in> set rs. unat b - unat a \<le> unat m)"
  using assms(3-5)
proof (induction hs arbitrary: s)
  case (Cons h hs)
  show ?case
  proof (cases "h > s")
    case False
    with Cons show ?thesis by auto
  next
    case True
    let ?t = "min l2_end h"
    have "s < ?t" "unat ?t + unat m < 2 ^ 64" using True Cons.prems(1) assms(2) by (auto simp: min_def word_le_nat_alt)
    then obtain rs where rs: "safe_head_pieces m ?t s = Some rs" "chained s ?t rs" "\<forall>(a, b) \<in> set rs. unat b - unat a \<le> unat m"
      using safe_head_pieces_chained assms(1) by blast
    show ?thesis
    proof (cases "h < l2_end")
      case True
      with Cons.prems have "\<exists>h \<in> set hs. l2_end \<le> h" "sorted hs" by auto
      then obtain rs' where "split_at_safe_heads l2_end m h hs = Some rs'" "chained h l2_end rs'"
        "\<forall>(a, b) \<in> set rs'. unat b - unat a \<le> unat m" using Cons.IH True by blast
      moreover have "?t = h" using True by simp
      ultimately show ?thesis using rs \<open>h > s\<close> Cons.prems(1) chained_append by fastforce
    next
      case False
      then have "?t = l2_end" by simp
      with rs \<open>h > s\<close> Cons.prems(1) False show ?thesis by (simp add: split_at_safe_heads_done)
    qed
  qed
qed simp

section \<open>Gaps between recorded ranges\<close>

text \<open>Reduction to the type \<open>i64\<close>.\<close>

definition i64 :: "int \<Rightarrow> int" where
  "i64 x = (x + 2 ^ 63) mod 2 ^ 64 - 2 ^ 63"

lemma i64_id: "- (2 ^ 63) \<le> x \<Longrightarrow> x < 2 ^ 63 \<Longrightarrow> i64 x = x"
  by (simp add: i64_def)

type_synonym range = "int \<times> int"

fun raw_gaps :: "int \<Rightarrow> int \<Rightarrow> range list \<Rightarrow> range list" where
  "raw_gaps current_start overall_end [] = (if current_start < overall_end then [(current_start, overall_end)] else [])"
| "raw_gaps current_start overall_end ((start, end) # ranges) =
     (if current_start < start then [(current_start, start)] else []) @
     raw_gaps (max end current_start) overall_end ranges"

definition sort_ranges :: "range list \<Rightarrow> range list" where
  "sort_ranges rs = sort_key fst (sort_key snd rs)"

fun merge_loop :: "range \<Rightarrow> range list \<Rightarrow> range list" where
  "merge_loop current [] = [current]"
| "merge_loop current (rng # ranges) =
     (if fst rng \<le> snd current then merge_loop (fst current, max (snd current) (snd rng)) ranges
      else current # merge_loop rng ranges)"

definition merge_ranges :: "range list \<Rightarrow> range list" where
  "merge_ranges ranges = (case sort_ranges ranges of [] \<Rightarrow> [] | r # rs \<Rightarrow> merge_loop r rs)"

definition find_gaps :: "int \<Rightarrow> int \<Rightarrow> range list \<Rightarrow> range list" where
  "find_gaps overall_start overall_end ranges = merge_ranges (raw_gaps overall_start overall_end ranges)"

definition in_range :: "int \<Rightarrow> range \<Rightarrow> bool" where
  "in_range b r \<longleftrightarrow> fst r \<le> b \<and> b < snd r"

definition in_ranges :: "int \<Rightarrow> range list \<Rightarrow> bool" where
  "in_ranges b rs \<longleftrightarrow> (\<exists>r \<in> set rs. in_range b r)"

lemma in_ranges_simps [simp]:
  "\<not> in_ranges b []" "in_ranges b (r # rs) \<longleftrightarrow> in_range b r \<or> in_ranges b rs"
  "in_ranges b (rs @ rs') \<longleftrightarrow> in_ranges b rs \<or> in_ranges b rs'"
  by (auto simp: in_ranges_def)

text \<open>Ranges in order, none empty, none touching the next.\<close>

fun separated :: "range list \<Rightarrow> bool" where
  "separated [] \<longleftrightarrow> True"
| "separated (r # rs) \<longleftrightarrow> fst r < snd r \<and> (\<forall>r' \<in> set rs. snd r < fst r') \<and> separated rs"

lemma merge_loop_starts: "sorted (map fst rs) \<Longrightarrow> (\<forall>r \<in> set rs. fst current \<le> fst r) \<Longrightarrow> r' \<in> set (merge_loop current rs) \<Longrightarrow> fst current \<le> fst r'"
proof (induction current rs rule: merge_loop.induct)
  case (2 current rng ranges)
  then show ?case by (force split: if_splits)
qed simp

lemma merge_loop_spec:
  assumes "sorted (map fst rs)" "\<forall>r \<in> set (current # rs). fst r < snd r" "\<forall>r \<in> set rs. fst current \<le> fst r"
  shows "separated (merge_loop current rs) \<and> (in_ranges b (merge_loop current rs) \<longleftrightarrow> in_ranges b (current # rs))"
  using assms
proof (induction current rs rule: merge_loop.induct)
  case (2 current rng ranges)
  show ?case
  proof (cases "fst rng \<le> snd current")
    case True
    let ?c = "(fst current, max (snd current) (snd rng))"
    have "separated (merge_loop ?c ranges) \<and> (in_ranges b (merge_loop ?c ranges) \<longleftrightarrow> in_ranges b (?c # ranges))"
      using 2 True by auto
    moreover have "in_range b ?c \<longleftrightarrow> in_range b current \<or> in_range b rng"
      using True "2.prems" by (auto simp: in_range_def)
    ultimately show ?thesis using True by simp
  next
    case False
    have "\<forall>r \<in> set ranges. fst rng \<le> fst r" using "2.prems"(1) by auto
    with 2 False have ih: "separated (merge_loop rng ranges)"
      "in_ranges b (merge_loop rng ranges) \<longleftrightarrow> in_ranges b (rng # ranges)" by auto
    have "snd current < fst r'" if "r' \<in> set (merge_loop rng ranges)" for r'
      using merge_loop_starts [OF _ \<open>\<forall>r \<in> set ranges. fst rng \<le> fst r\<close> that] False "2.prems"(1) by simp
    with ih False "2.prems" show ?thesis by simp
  qed
qed auto

lemma merge_ranges_spec:
  assumes "\<forall>r \<in> set rs. fst r < snd r"
  shows "separated (merge_ranges rs) \<and> (in_ranges b (merge_ranges rs) \<longleftrightarrow> in_ranges b rs)"
proof (cases "sort_ranges rs")
  case Nil
  then have "rs = []" unfolding sort_ranges_def by (metis length_0_conv length_sort)
  then show ?thesis by (simp add: merge_ranges_def sort_ranges_def)
next
  case (Cons r rs')
  have set: "set (sort_ranges rs) = set rs" by (simp add: sort_ranges_def)
  have "sorted (map fst (sort_ranges rs))" unfolding sort_ranges_def by (rule sorted_sort_key)
  with Cons have "sorted (map fst rs')" "\<forall>q \<in> set rs'. fst r \<le> fst q" by auto
  moreover have "\<forall>q \<in> set (r # rs'). fst q < snd q" using assms set Cons by auto
  ultimately have "separated (merge_loop r rs') \<and> (in_ranges b (merge_loop r rs') \<longleftrightarrow> in_ranges b (r # rs'))"
    using merge_loop_spec by blast
  moreover have "in_ranges b (r # rs') \<longleftrightarrow> in_ranges b rs" using set Cons by (auto simp: in_ranges_def)
  ultimately show ?thesis by (simp add: merge_ranges_def Cons)
qed

lemma raw_gaps_nonempty: "r \<in> set (raw_gaps s e rs) \<Longrightarrow> fst r < snd r"
  by (induction s e rs rule: raw_gaps.induct) (auto split: if_splits)

lemma raw_gaps_cover:
  assumes "sorted (map fst rs)"
  shows "in_ranges b (raw_gaps s e rs) \<longleftrightarrow> s \<le> b \<and> (b < e \<or> (\<exists>r \<in> set rs. b < fst r)) \<and> \<not> in_ranges b rs"
  using assms
proof (induction s e rs rule: raw_gaps.induct)
  case (2 s e a c rs)
  then have later: "\<forall>r \<in> set rs. a \<le> fst r" and ih: "in_ranges b (raw_gaps (max c s) e rs) \<longleftrightarrow>
    max c s \<le> b \<and> (b < e \<or> (\<exists>r \<in> set rs. b < fst r)) \<and> \<not> in_ranges b rs" by auto
  from later have none: "b < a \<Longrightarrow> \<not> in_ranges b rs" by (force simp: in_ranges_def in_range_def)
  show ?case
  proof (cases "b < a")
    case True
    then show ?thesis using ih none by (auto simp: in_range_def)
  next
    case False
    then show ?thesis using ih by (auto simp: in_range_def)
  qed
qed (auto simp: in_range_def)

section \<open>Ranges to prove, by number of blocks\<close>

partial_function (option) blocks_loop :: "int \<Rightarrow> int \<Rightarrow> int \<Rightarrow> range list option" where
  "blocks_loop range_proof_interval end current_start =
     (if current_start < end
      then let current_end = min (i64 (current_start + range_proof_interval)) end
           in Option.bind (blocks_loop range_proof_interval end current_end) (\<lambda>rs. Some ((current_start, current_end) # rs))
      else Some [])"

declare blocks_loop.simps [code]

fun blocks_all :: "int \<Rightarrow> range list \<Rightarrow> range list option" where
  "blocks_all range_proof_interval [] = Some []"
| "blocks_all range_proof_interval ((start, end) # disjoint_ranges) =
     Option.bind (blocks_loop range_proof_interval end start) (\<lambda>rs.
     Option.bind (blocks_all range_proof_interval disjoint_ranges) (\<lambda>rs'. Some (rs @ rs')))"

definition pop_short :: "int \<Rightarrow> range list \<Rightarrow> range list" where
  "pop_short range_proof_interval rs =
     (if rs \<noteq> [] \<and> i64 (snd (last rs) - fst (last rs)) < range_proof_interval then butlast rs else rs)"

definition get_ranges_to_prove_by_blocks :: "range list \<Rightarrow> int \<Rightarrow> range list option" where
  "get_ranges_to_prove_by_blocks disjoint_ranges range_proof_interval =
     map_option (pop_short range_proof_interval) (blocks_all range_proof_interval disjoint_ranges)"

text \<open>Block numbers for which the arithmetic below stays inside \<open>i64\<close>.\<close>

definition block_range :: "int \<Rightarrow> range \<Rightarrow> bool" where
  "block_range slack r \<longleftrightarrow> 0 \<le> fst r \<and> fst r \<le> snd r \<and> snd r + slack < 2 ^ 63"

lemma blocks_loop_chained:
  assumes "0 < k" "0 \<le> s" "s \<le> e" "e + k < 2 ^ 63"
  shows "\<exists>rs. blocks_loop k e s = Some rs \<and> chained s e rs \<and> (\<forall>(a, b) \<in> set rs. b - a \<le> k)"
  using assms(2,3)
proof (induction "nat (e - s)" arbitrary: s rule: less_induct)
  case less
  show ?case
  proof (cases "s < e")
    case False
    then have "blocks_loop k e s = Some []" by (simp add: blocks_loop.simps [of k e s])
    moreover have "chained s e []" using False less.prems by simp
    ultimately show ?thesis by fastforce
  next
    case True
    let ?c = "min (s + k) e"
    have i: "i64 (s + k) = s + k" using True less.prems assms by (intro i64_id) auto
    have "nat (e - ?c) < nat (e - s)" "0 \<le> ?c" "?c \<le> e" using True less.prems assms(1) by auto
    from less.hyps [OF this] obtain rs where rs: "blocks_loop k e ?c = Some rs" "chained ?c e rs" "\<forall>(a, b) \<in> set rs. b - a \<le> k"
      by blast
    have "blocks_loop k e s = Some ((s, ?c) # rs)"
      using True rs(1) by (simp add: blocks_loop.simps [of k e s] i)
    then show ?thesis using rs(2,3) True assms(1) by auto
  qed
qed

interpretation blocks_split: range_splitter "\<lambda>s e. blocks_loop k e s" "\<lambda>s e. 0 < k \<and> 0 \<le> s \<and> s \<le> e \<and> e + k < 2 ^ 63" for k
  by unfold_locales (use blocks_loop_chained in blast)

text \<open>The pieces of several ranges, one chain per range.\<close>

inductive pieces_of :: "(range \<Rightarrow> bool) \<Rightarrow> range list \<Rightarrow> range list \<Rightarrow> bool" for ok where
  no_ranges: "pieces_of ok [] []"
| next_range: "chained s e rs \<Longrightarrow> list_all ok rs \<Longrightarrow> pieces_of ok ranges rs' \<Longrightarrow> pieces_of ok ((s, e) # ranges) (rs @ rs')"

lemma pieces_of_covers: "pieces_of ok ranges rs \<Longrightarrow> (\<exists>(s, e) \<in> set ranges. s < x \<and> x \<le> e) \<longleftrightarrow> (\<exists>(a, b) \<in> set rs. a < x \<and> x \<le> b)"
proof (induction rule: pieces_of.induct)
  case (next_range s e rs ranges rs')
  have "s < x \<and> x \<le> e \<longleftrightarrow> (\<exists>(a, b) \<in> set rs. a < x \<and> x \<le> b)"
    using chained_covers [OF next_range.hyps(1)] chained_bounds [OF next_range.hyps(1)] by fastforce
  with next_range.IH show ?case by auto
qed simp

lemma pieces_of_ok: "pieces_of ok ranges rs \<Longrightarrow> list_all ok rs"
  by (induction rule: pieces_of.induct) auto

lemma pieces_of_nonempty: "pieces_of ok ranges rs \<Longrightarrow> (a, b) \<in> set rs \<Longrightarrow> a < b"
  by (induction rule: pieces_of.induct) (auto dest: chained_bounds)

lemma pieces_of_bounds: "pieces_of ok ranges rs \<Longrightarrow> (a, b) \<in> set rs \<Longrightarrow> \<exists>(s, e) \<in> set ranges. s \<le> a \<and> b \<le> e"
  by (induction rule: pieces_of.induct) (auto dest: chained_bounds)

text \<open>Pieces of separated ranges never overlap.\<close>

lemma pieces_of_disjoint:
  "pieces_of ok ranges rs \<Longrightarrow> sorted_wrt (\<lambda>r r'. snd r \<le> fst r') ranges \<Longrightarrow> sorted_wrt (\<lambda>r r'. snd r \<le> fst r') rs"
proof (induction rule: pieces_of.induct)
  case (next_range s e rs ranges rs')
  have "snd r \<le> fst r'" if r: "r \<in> set rs" and r': "r' \<in> set rs'" for r r'
  proof -
    have "snd r \<le> e" using chained_bounds [OF next_range.hyps(1)] r by (metis prod.collapse)
    moreover obtain s' e' where "(s', e') \<in> set ranges" "s' \<le> fst r'"
      using pieces_of_bounds [OF next_range.hyps(3)] r' by (metis (no_types, lifting) case_prodE prod.collapse)
    ultimately show ?thesis using next_range.prems by force
  qed
  moreover have "sorted_wrt (\<lambda>r r'. snd r \<le> fst r') rs"
    by (rule sorted_wrt_mono_rel [OF _ chained_disjoint [OF next_range.hyps(1)]]) auto
  ultimately show ?case using next_range by (simp add: sorted_wrt_append)
qed simp

lemma blocks_all_pieces:
  assumes "0 < k" "\<forall>r \<in> set ranges. block_range k r"
  shows "\<exists>rs. blocks_all k ranges = Some rs \<and> pieces_of (\<lambda>(a, b). b - a \<le> k) ranges rs"
  using assms(2)
proof (induction ranges)
  case (Cons r ranges)
  obtain s e where r: "r = (s, e)" by (cases r)
  from Cons obtain rs' where "blocks_all k ranges = Some rs'" "pieces_of (\<lambda>(a, b). b - a \<le> k) ranges rs'" by auto
  moreover from Cons.prems r have "0 \<le> s" "s \<le> e" "e + k < 2 ^ 63" by (auto simp: block_range_def)
  then obtain rs where "blocks_loop k e s = Some rs" "chained s e rs" "\<forall>(a, b) \<in> set rs. b - a \<le> k"
    using blocks_loop_chained assms(1) by blast
  ultimately show ?case using r by (auto intro!: pieces_of.intros simp: list_all_iff)
qed (auto intro: pieces_of.intros)

text \<open>With a zero interval the loop never ends on a range that is not empty.\<close>

lemma blocks_loop_diverges:
  assumes "s < e" "- (2 ^ 63) \<le> s" "s < 2 ^ 63"
  shows "blocks_loop 0 e s = None"
proof -
  have "k = 0 \<longrightarrow> - (2 ^ 63) \<le> s' \<longrightarrow> s' < 2 ^ 63 \<longrightarrow> \<not> s' < e'" if "blocks_loop k e' s' = Some rs" for k e' s' rs
    using that
  proof (rule blocks_loop.raw_induct [where P = "\<lambda>k e s rs. k = 0 \<longrightarrow> - (2 ^ 63) \<le> s \<longrightarrow> s < 2 ^ 63 \<longrightarrow> \<not> s < e", rotated])
    fix loop and k e s :: int and rs :: "range list"
    assume IH: "\<And>k e s rs. loop k e s = Some rs \<Longrightarrow> k = 0 \<longrightarrow> - (2 ^ 63) \<le> s \<longrightarrow> s < 2 ^ 63 \<longrightarrow> \<not> s < e"
      and body: "(if s < e then let current_end = min (i64 (s + k)) e
          in Option.bind (loop k e current_end) (\<lambda>rs. Some ((s, current_end) # rs)) else Some []) = Some rs"
    show "k = 0 \<longrightarrow> - (2 ^ 63) \<le> s \<longrightarrow> s < 2 ^ 63 \<longrightarrow> \<not> s < e"
    proof (intro impI notI)
      assume a: "k = 0" "- (2 ^ 63) \<le> s" "s < 2 ^ 63" "s < e"
      then have "i64 (s + k) = s" by (simp add: i64_id)
      with body a obtain rs' where "loop k e s = Some rs'" by (auto simp: bind_eq_Some_conv)
      from IH [OF this] a show False by simp
    qed
  qed
  with assms show ?thesis by (cases "blocks_loop 0 e s") auto
qed

section \<open>Ranges to prove, by gas\<close>

record l2_block_data =
  ld_block_number :: u64
  ld_transaction_count :: u64
  ld_gas_used :: u64
  ld_total_l1_fees :: "128 word"
  ld_total_tx_fees :: "128 word"

definition gas_cut :: "u64 \<Rightarrow> int \<Rightarrow> int \<Rightarrow> u64 \<Rightarrow> int \<Rightarrow> u64 \<Rightarrow> bool" where
  "gas_cut evm_gas_limit range_proof_interval current_start accumulated_gas block_num gas_used \<longleftrightarrow>
     (accumulated_gas > 0 \<and> accumulated_gas + gas_used > evm_gas_limit) \<or>
     (range_proof_interval > 0 \<and> i64 (block_num - current_start) > range_proof_interval)"

fun gas_blocks ::
  "(int \<Rightarrow> l2_block_data option) \<Rightarrow> u64 \<Rightarrow> int \<Rightarrow> int \<Rightarrow> u64 \<Rightarrow> int list \<Rightarrow> (range list \<times> int) result" where
  "gas_blocks block_infos evm_gas_limit range_proof_interval current_start accumulated_gas [] = Inr ([], current_start)"
| "gas_blocks block_infos evm_gas_limit range_proof_interval current_start accumulated_gas (block_num # block_nums) =
     try_bind (ok_or ''Missing BlockInfo'' (block_infos block_num)) (\<lambda>block_info.
     if i64 (uint (ld_block_number block_info)) \<noteq> block_num then Inl (Err ''BlockInfo has inconsistent block number'') else
     if gas_cut evm_gas_limit range_proof_interval current_start accumulated_gas block_num (ld_gas_used block_info)
     then try_bind (gas_blocks block_infos evm_gas_limit range_proof_interval (block_num - 1) (ld_gas_used block_info) block_nums)
            (\<lambda>(rs, cur). Inr ((current_start, block_num - 1) # rs, cur))
     else gas_blocks block_infos evm_gas_limit range_proof_interval current_start
            (accumulated_gas + ld_gas_used block_info) block_nums)"

definition gas_range :: "(int \<Rightarrow> l2_block_data option) \<Rightarrow> u64 \<Rightarrow> int \<Rightarrow> range \<Rightarrow> range list result" where
  "gas_range block_infos evm_gas_limit range_proof_interval r =
     try_bind (gas_blocks block_infos evm_gas_limit range_proof_interval (fst r) 0 [i64 (fst r + 1)..snd r]) (\<lambda>(rs, cur).
     Inr (rs @ (if cur < snd r then [(cur, snd r)] else [])))"

definition pop_empty :: "range list \<Rightarrow> range list" where
  "pop_empty rs = (if rs \<noteq> [] \<and> \<not> fst (last rs) < snd (last rs) then butlast rs else rs)"

definition get_ranges_to_prove_by_gas ::
  "range list \<Rightarrow> u64 \<Rightarrow> int \<Rightarrow> (int \<Rightarrow> l2_block_data option) \<Rightarrow> range list result" where
  "get_ranges_to_prove_by_gas disjoint_ranges evm_gas_limit range_proof_interval block_infos =
     try_bind (try_map (gas_range block_infos evm_gas_limit range_proof_interval) disjoint_ranges) (\<lambda>rss.
     Inr (pop_empty (concat rss)))"

definition gas_of :: "(int \<Rightarrow> l2_block_data option) \<Rightarrow> int \<Rightarrow> nat" where
  "gas_of block_infos n = (case block_infos n of None \<Rightarrow> 0 | Some d \<Rightarrow> unat (ld_gas_used d))"

definition gas_sum :: "(int \<Rightarrow> l2_block_data option) \<Rightarrow> range \<Rightarrow> nat" where
  "gas_sum block_infos r = sum (gas_of block_infos) {fst r <.. snd r}"

text \<open>A piece is acceptable if its gas is within the limit, or only its last block uses gas; and if it has no more
  blocks than the interval allows.\<close>

definition gas_ok :: "(int \<Rightarrow> l2_block_data option) \<Rightarrow> u64 \<Rightarrow> int \<Rightarrow> range \<Rightarrow> bool" where
  "gas_ok block_infos limit interval r \<longleftrightarrow>
     (gas_sum block_infos r \<le> unat limit \<or> gas_sum block_infos (fst r, snd r - 1) = 0) \<and>
     (interval > 0 \<longrightarrow> snd r - fst r \<le> interval)"

definition infos_complete :: "(int \<Rightarrow> l2_block_data option) \<Rightarrow> range \<Rightarrow> bool" where
  "infos_complete block_infos r \<longleftrightarrow> (\<forall>n. fst r < n \<and> n \<le> snd r \<longrightarrow>
     (\<exists>d. block_infos n = Some d \<and> uint (ld_block_number d) = n))"

lemma gas_sum_snoc: "a \<le> m \<Longrightarrow> gas_sum infos (a, m + 1) = gas_sum infos (a, m) + gas_of infos (m + 1)"
proof -
  assume "a \<le> m"
  then have "{a <.. m + 1} = Set.insert (m + 1) {a <.. m}" by auto
  then show ?thesis by (simp add: gas_sum_def)
qed

lemma gas_sum_empty [simp]: "gas_sum infos (a, a) = 0"
  by (simp add: gas_sum_def)

lemma gas_sum_mono: "a \<le> a' \<Longrightarrow> b' \<le> b \<Longrightarrow> gas_sum infos (a', b') \<le> gas_sum infos (a, b)"
  unfolding gas_sum_def by (rule sum_mono2) auto

lemma gas_blocks_spec:
  assumes "infos_complete infos (s, e)" "gas_sum infos (s, e) < 2 ^ 64" "0 \<le> s" "e < 2 ^ 63"
    and "s \<le> cur" "cur \<le> m" "m \<le> e" "unat acc = gas_sum infos (cur, m)" "cur < m \<Longrightarrow> gas_ok infos limit k (cur, m)"
  shows "\<exists>rs cur'. gas_blocks infos limit k cur acc [m + 1..e] = Inr (rs, cur') \<and> chained cur cur' rs \<and>
    list_all (gas_ok infos limit k) rs \<and> cur' \<le> e \<and> (cur' < e \<longrightarrow> gas_ok infos limit k (cur', e))"
  using assms(5-9)
proof (induction "nat (e - m)" arbitrary: m cur acc)
  case 0
  then have "m = e" by simp
  with 0 show ?case by simp
next
  case (Suc d)
  then have lt: "m < e" by simp
  then have list: "[m + 1..e] = (m + 1) # [m + 1 + 1..e]" by (simp add: upto_rec1)
  obtain info where info: "infos (m + 1) = Some info" "uint (ld_block_number info) = m + 1"
    using assms(1)[unfolded infos_complete_def, rule_format, of "m + 1"] lt Suc.prems by auto
  have num: "i64 (m + 1) = m + 1" "i64 (m + 1 - cur) = m + 1 - cur"
    using lt Suc.prems assms(3,4) by (auto intro!: i64_id)
  have gas: "gas_of infos (m + 1) = unat (ld_gas_used info)" by (simp add: gas_of_def info)
  have d: "d = nat (e - (m + 1))" using Suc.hyps(2) by simp
  show ?case
  proof (cases "gas_cut limit k cur acc (m + 1) (ld_gas_used info)")
    case True
    have cm: "cur < m"
    proof (rule ccontr)
      assume "\<not> cur < m"
      then have "cur = m" using Suc.prems by simp
      with Suc.prems have "acc = 0" by (simp add: unat_eq_0 [symmetric] del: unat_eq_0)
      with True \<open>cur = m\<close> num show False by (simp add: gas_cut_def)
    qed
    have sum1: "unat (ld_gas_used info) = gas_sum infos (m, m + 1)" using gas_sum_snoc [of m m infos] gas by simp
    have ok1: "gas_ok infos limit k (m, m + 1)" by (simp add: gas_ok_def)
    obtain rs cur' where "gas_blocks infos limit k m (ld_gas_used info) [m + 1 + 1..e] = Inr (rs, cur')" "chained m cur' rs"
      "list_all (gas_ok infos limit k) rs" "cur' \<le> e" "cur' < e \<longrightarrow> gas_ok infos limit k (cur', e)"
      using Suc.hyps(1) [OF d, of m "ld_gas_used info"] Suc.prems lt sum1 ok1 by auto
    with True cm Suc.prems(5) info num show ?thesis by (simp add: list)
  next
    case False
    have "gas_sum infos (cur, m + 1) \<le> gas_sum infos (s, e)" using Suc.prems lt by (intro gas_sum_mono) auto
    then have small: "gas_sum infos (cur, m + 1) < 2 ^ 64" using assms(2) by simp
    have "gas_sum infos (cur, m + 1) = unat acc + unat (ld_gas_used info)"
      using gas_sum_snoc [of cur m infos] Suc.prems gas by simp
    with small have acc: "unat (acc + ld_gas_used info) = gas_sum infos (cur, m + 1)" by (simp add: unat_plus_if')
    have ok: "gas_ok infos limit k (cur, m + 1)"
      using False Suc.prems(4) acc num
      by (auto simp: gas_ok_def gas_cut_def not_less word_le_nat_alt unat_eq_0 [symmetric] word_less_nat_alt simp del: unat_eq_0)
    obtain rs cur' where "gas_blocks infos limit k cur (acc + ld_gas_used info) [m + 1 + 1..e] = Inr (rs, cur')" "chained cur cur' rs"
      "list_all (gas_ok infos limit k) rs" "cur' \<le> e" "cur' < e \<longrightarrow> gas_ok infos limit k (cur', e)"
      using Suc.hyps(1) [OF d, of cur "acc + ld_gas_used info"] Suc.prems lt acc ok by auto
    with False info num show ?thesis by (simp add: list)
  qed
qed

lemma gas_range_chained:
  assumes "infos_complete infos (s, e)" "gas_sum infos (s, e) < 2 ^ 64" "0 \<le> s" "s \<le> e" "e + 1 < 2 ^ 63"
  shows "\<exists>rs. gas_range infos limit k (s, e) = Inr rs \<and> chained s e rs \<and> list_all (gas_ok infos limit k) rs"
proof -
  obtain rs cur where rs: "gas_blocks infos limit k s 0 [s + 1..e] = Inr (rs, cur)" "chained s cur rs"
    "list_all (gas_ok infos limit k) rs" "cur \<le> e" "cur < e \<longrightarrow> gas_ok infos limit k (cur, e)"
    using gas_blocks_spec [OF assms(1-3), of s s 0 limit k] assms(4,5) by auto
  have "i64 (s + 1) = s + 1" using assms(3-5) by (intro i64_id) auto
  then have "gas_range infos limit k (s, e) = Inr (rs @ (if cur < e then [(cur, e)] else []))"
    using rs(1) by (simp add: gas_range_def)
  then show ?thesis using rs chained_snoc by (cases "cur < e") auto
qed

interpretation gas_split: range_splitter "\<lambda>s e. result_option (gas_range infos limit k (s, e))"
  "\<lambda>s e. infos_complete infos (s, e) \<and> gas_sum infos (s, e) < 2 ^ 64 \<and> 0 \<le> s \<and> s \<le> e \<and> e + 1 < 2 ^ 63" for infos limit k
proof unfold_locales
  fix s e :: int
  assume "infos_complete infos (s, e) \<and> gas_sum infos (s, e) < 2 ^ 64 \<and> 0 \<le> s \<and> s \<le> e \<and> e + 1 < 2 ^ 63"
  then obtain rs where "gas_range infos limit k (s, e) = Inr rs" "chained s e rs" using gas_range_chained by blast
  then show "\<exists>rs. result_option (gas_range infos limit k (s, e)) = Some rs \<and> chained s e rs" by (simp add: result_option_def)
qed

lemma gas_all_pieces:
  assumes "\<forall>r \<in> set ranges. infos_complete infos r \<and> gas_sum infos r < 2 ^ 64 \<and> block_range 1 r"
  shows "\<exists>rss. try_map (gas_range infos limit k) ranges = Inr rss \<and> pieces_of (gas_ok infos limit k) ranges (concat rss)"
  using assms
proof (induction ranges)
  case (Cons r ranges)
  obtain s e where r: "r = (s, e)" by (cases r)
  from Cons obtain rss where "try_map (gas_range infos limit k) ranges = Inr rss" "pieces_of (gas_ok infos limit k) ranges (concat rss)"
    by auto
  moreover obtain rs where "gas_range infos limit k (s, e) = Inr rs" "chained s e rs" "list_all (gas_ok infos limit k) rs"
    using gas_range_chained [of infos s e limit k] Cons.prems r by (auto simp: block_range_def)
  ultimately show ?case using r by (auto intro: pieces_of.intros)
qed (auto intro: pieces_of.intros)

lemma pop_empty_pieces: "pieces_of ok ranges rs \<Longrightarrow> pop_empty rs = rs"
  unfolding pop_empty_def using pieces_of_nonempty [of ok ranges rs] last_in_set [of rs] by (metis prod.collapse)

section \<open>Properties\<close>

text \<open>Splitting a game's range. A count accepted by \<open>try_from\<close> splits every range with \<open>start < end\<close>, and only those:
  the pieces follow on each other from \<open>start\<close> to \<open>end\<close>, none is empty, there are at most as many as the count says, and every
  block of \<open>(start, end]\<close> is proved by exactly one of them.\<close>

theorem range_split_exact:
  assumes "range_split_count_try_from n = Inr c"
  shows "if start < end
    then \<exists>rs. range_split c start end = Inr rs \<and> chained start end rs \<and> rs \<noteq> [] \<and> length rs \<le> unat n \<and>
           (\<forall>x. start < x \<and> x \<le> end \<longrightarrow> (\<exists>!r. r \<in> set rs \<and> fst r < x \<and> x \<le> snd r))
    else \<exists>m. range_split c start end = Inl (Err m)"
proof -
  from assms have n: "n < 256" "rsc_count c = ucast n" "rsc_count c \<noteq> 0"
    by (auto simp: range_split_count_try_from_def range_split_count_new_def split: if_splits)
  have "unat (ucast n :: u8) = unat n"
    using n(1) by (simp add: unsigned_ucast_eq take_bit_nat_eq_self_iff word_less_nat_alt)
  with n have count: "unat (rsc_count c) = unat n" by simp
  show ?thesis
  proof (cases "start < end")
    case True
    then obtain rs where rs: "range_split c start end = Inr rs" "chained start end rs" "length rs \<le> unat n" "rs \<noteq> []"
      using range_split_Inr [OF n(3)] count by auto
    moreover have "\<exists>!r. r \<in> set rs \<and> fst r < x \<and> x \<le> snd r" if "start < x" "x \<le> end" for x
      using game_split.split_exactly_once [of c start "end" rs x] rs(1) n(3) True that by (simp add: result_option_def)
    ultimately show ?thesis using True by auto
  next
    case False
    then show ?thesis by (cases "start = end") (auto simp: range_split_def checked_sub_def)
  qed
qed

theorem range_split_exact_witness:
  "range_split \<lparr> rsc_count = 4 \<rparr> 0 9 = Inr [(0, 3), (3, 6), (6, 9)] \<and>
   (\<exists>!r. r \<in> set [(0, 3), (3, 6), (6 :: u64, 9 :: u64)] \<and> fst r < 5 \<and> 5 \<le> snd r)"
proof -
  have "range_split_count_try_from 4 = Inr \<lparr> rsc_count = 4 \<rparr>" by code_simp
  from range_split_exact [OF this, of 0 9] obtain rs where
    "range_split \<lparr> rsc_count = 4 \<rparr> 0 9 = Inr rs" "\<forall>x. 0 < x \<and> x \<le> 9 \<longrightarrow> (\<exists>!r. r \<in> set rs \<and> fst r < x \<and> x \<le> snd r)"
    by auto
  moreover have eq: "range_split \<lparr> rsc_count = 4 \<rparr> 0 9 = Inr [(0, 3), (3, 6), (6, 9)]" by code_simp
  ultimately have "\<forall>x. 0 < x \<and> x \<le> 9 \<longrightarrow> (\<exists>!r. r \<in> set [(0, 3), (3, 6), (6 :: u64, 9 :: u64)] \<and> fst r < x \<and> x \<le> snd r)"
    by (simp only: sum.inject)
  from spec [OF this, of 5] eq show ?thesis by simp
qed

text \<open>Gaps. For recorded ranges sorted by their start, whatever their overlaps, \<open>find_gaps\<close> returns exactly the blocks
  from the overall start on that no recorded range contains and that lie before the overall end or before the start of some
  recorded range; the gaps are in order, not empty, and no two of them touch.\<close>

theorem find_gaps_exact:
  assumes "sorted (map fst ranges)"
  shows "separated (find_gaps overall_start overall_end ranges) \<and>
    (in_ranges b (find_gaps overall_start overall_end ranges) \<longleftrightarrow>
       overall_start \<le> b \<and> (b < overall_end \<or> (\<exists>r \<in> set ranges. b < fst r)) \<and> \<not> in_ranges b ranges)"
  using merge_ranges_spec [of "raw_gaps overall_start overall_end ranges" b] raw_gaps_nonempty
    raw_gaps_cover [OF assms, of b overall_start overall_end]
  unfolding find_gaps_def by blast

theorem find_gaps_exact_witness:
  "find_gaps 1 10 [(2, 5), (7, 9)] = [(1, 2), (5, 7), (9, 10)] \<and> in_ranges 6 (find_gaps 1 10 [(2, 5), (7, 9)])"
proof -
  have "find_gaps 1 10 [(2, 5), (7, 9)] = [(1, 2), (5, 7), (9, 10)]" by code_simp
  moreover have "sorted (map fst [(2, 5), (7 :: int, 9 :: int)])" by simp
  from find_gaps_exact [OF this, of 1 10 6] have "in_ranges 6 (find_gaps 1 10 [(2, 5), (7, 9)])"
    by (simp add: in_range_def)
  ultimately show ?thesis by blast
qed

text \<open>Splitting by blocks. With a positive interval the loop ends and its pieces follow on each other through each of
  the given ranges, none longer than the interval; only the very last piece is dropped, and only if it is shorter than the
  interval. With an interval of zero the loop never ends as soon as one range is not empty.\<close>

theorem get_ranges_to_prove_by_blocks_correct:
  assumes "\<forall>r \<in> set ranges. block_range k r" "0 \<le> k"
  shows "if 0 < k
    then \<exists>rs. pieces_of (\<lambda>(a, b). b - a \<le> k) ranges rs \<and>
           get_ranges_to_prove_by_blocks ranges k =
             Some (if rs \<noteq> [] \<and> snd (last rs) - fst (last rs) < k then butlast rs else rs)
    else (\<exists>r \<in> set ranges. fst r < snd r) \<longrightarrow> get_ranges_to_prove_by_blocks ranges k = None"
proof (cases "0 < k")
  case True
  then obtain rs where rs: "blocks_all k ranges = Some rs" "pieces_of (\<lambda>(a, b). b - a \<le> k) ranges rs"
    using blocks_all_pieces assms(1) by blast
  have "i64 (snd (last rs) - fst (last rs)) = snd (last rs) - fst (last rs)" if "rs \<noteq> []"
  proof -
    obtain a b where ab: "last rs = (a, b)" by (cases "last rs")
    then have mem: "(a, b) \<in> set rs" using that last_in_set by metis
    obtain s e where "(s, e) \<in> set ranges" "s \<le> a" "b \<le> e" using pieces_of_bounds [OF rs(2) mem] by auto
    moreover then have "block_range k (s, e)" using assms(1) by blast
    ultimately show ?thesis using ab pieces_of_nonempty [OF rs(2) mem] True by (auto simp: block_range_def intro!: i64_id)
  qed
  then have "pop_short k rs = (if rs \<noteq> [] \<and> snd (last rs) - fst (last rs) < k then butlast rs else rs)"
    by (cases "rs = []") (simp_all add: pop_short_def)
  then have "get_ranges_to_prove_by_blocks ranges k = Some (if rs \<noteq> [] \<and> snd (last rs) - fst (last rs) < k then butlast rs else rs)"
    by (simp add: get_ranges_to_prove_by_blocks_def rs(1))
  with rs(2) show ?thesis unfolding if_P [OF True] by blast
next
  case False
  then have k: "k = 0" using assms(2) by simp
  have "blocks_all 0 ranges = None" if "r \<in> set ranges" "fst r < snd r" for r
    using assms(1) that unfolding k
  proof (induction ranges)
    case (Cons q ranges)
    obtain s e where q: "q = (s, e)" by (cases q)
    show ?case
    proof (cases "s < e")
      case True
      then have "blocks_loop 0 e s = None" using Cons.prems q by (intro blocks_loop_diverges) (auto simp: block_range_def)
      then show ?thesis by (simp add: q)
    next
      case False
      with Cons q have "blocks_all 0 ranges = None" by auto
      then show ?thesis by (simp add: q bind_eq_None_conv)
    qed
  qed simp
  with False k show ?thesis by (auto simp: get_ranges_to_prove_by_blocks_def)
qed

theorem get_ranges_to_prove_by_blocks_correct_witness:
  "get_ranges_to_prove_by_blocks [(0, 50), (100, 200), (200, 210)] 25 =
     Some [(0, 25), (25, 50), (100, 125), (125, 150), (150, 175), (175, 200)] \<and>
   get_ranges_to_prove_by_blocks [(0, 50)] 0 = None"
proof -
  have "get_ranges_to_prove_by_blocks [(0, 50), (100, 200), (200, 210)] 25 =
     Some [(0, 25), (25, 50), (100, 125), (125, 150), (150, 175), (175, 200)]" by code_simp
  moreover have "\<forall>r \<in> set [(0, 50)]. block_range 0 r" by (simp add: block_range_def)
  from get_ranges_to_prove_by_blocks_correct [OF this] have "get_ranges_to_prove_by_blocks [(0, 50)] 0 = None" by simp
  ultimately show ?thesis by blast
qed

text \<open>Splitting by gas. If the data of every block in the ranges is present and consistent, the pieces follow on each
  other through each of the ranges; each piece stays within the gas limit, unless it is one block that needs more (after
  blocks without gas), and has no more blocks than a positive interval allows.\<close>

theorem get_ranges_to_prove_by_gas_correct:
  assumes "\<forall>r \<in> set ranges. infos_complete infos r \<and> gas_sum infos r < 2 ^ 64 \<and> block_range 1 r"
  shows "\<exists>rs. get_ranges_to_prove_by_gas ranges limit k infos = Inr rs \<and> pieces_of (gas_ok infos limit k) ranges rs"
  using gas_all_pieces [OF assms, of limit k] pop_empty_pieces by (auto simp: get_ranges_to_prove_by_gas_def)

definition sample_infos :: "int \<Rightarrow> l2_block_data option" where
  "sample_infos n = Some \<lparr> ld_block_number = word_of_int n, ld_transaction_count = 1, ld_gas_used = 30,
     ld_total_l1_fees = 0, ld_total_tx_fees = 0 \<rparr>"

theorem get_ranges_to_prove_by_gas_correct_witness:
  "get_ranges_to_prove_by_gas [(0, 4)] 100 600 sample_infos = Inr [(0, 3), (3, 4)] \<and>
   pieces_of (gas_ok sample_infos 100 600) [(0, 4)] [(0, 3), (3, 4)]"
proof -
  have "infos_complete sample_infos (0, 4)"
    by (auto simp: infos_complete_def sample_infos_def unsigned_of_int take_bit_int_eq_self_iff)
  moreover have "gas_sum sample_infos (0, 4) = 120" by (simp add: gas_sum_def gas_of_def sample_infos_def)
  ultimately have "\<forall>r \<in> set [(0, 4)]. infos_complete sample_infos r \<and> gas_sum sample_infos r < 2 ^ 64 \<and> block_range 1 r"
    by (simp add: block_range_def)
  from get_ranges_to_prove_by_gas_correct [OF this, of 100 600]
  obtain rs where "get_ranges_to_prove_by_gas [(0, 4)] 100 600 sample_infos = Inr rs" "pieces_of (gas_ok sample_infos 100 600) [(0, 4)] rs"
    by blast
  moreover have "get_ranges_to_prove_by_gas [(0, 4)] 100 600 sample_infos = Inr [(0, 3), (3, 4)]" by code_simp
  ultimately show ?thesis by simp
qed

end
