(* ===== verification/Requests.thy ===== *)
theory Requests
  imports Ranges HashMaps
begin

text \<open>
  The proof requests of the validity proposer and the database they live in: \<open>validity/src/db/types.rs\<close> and
  \<open>validity/src/db/client.rs\<close>.

  \<^item> The table \<open>requests\<close> is a list of rows in insertion order. A row has the fields of \<open>OPSuccinctRequest\<close> and the two columns
    that struct leaves out, \<open>l1_head_block_hash\<close> and \<open>invalidated_at\<close>. Columns that hold the bytes of a hash or an address are of that
    type. Where a query leaves the order of rows open (equal sort keys, \<open>LIMIT\<close> without \<open>ORDER BY\<close>), rows come in
    table order.
  \<^item> A call of the database is one atomic step. It may fail, with no effect, and it reads the clock: \<open>db_env\<close> gives the
    fault and the time of the n-th call. A transaction is one call.
  \<^item> Block numbers, chain ids and counts are the integers of the \<open>BIGINT\<close> columns.
\<close>

section \<open>Rows\<close>

datatype request_status =
  Unrequested | WitnessGeneration | Execution | Prove | Complete | Relayed | Failed | Cancelled | Invalidated

datatype request_type = Range | Aggregation

datatype request_mode = Real | Mock

text \<open>\<open>status as i16\<close> and back; an unknown number is a panic.\<close>

definition status_as_i16 :: "request_status \<Rightarrow> int" where
  "status_as_i16 s = (case s of Unrequested \<Rightarrow> 0 | WitnessGeneration \<Rightarrow> 1 | Execution \<Rightarrow> 2 | Prove \<Rightarrow> 3 | Complete \<Rightarrow> 4 |
     Relayed \<Rightarrow> 5 | Failed \<Rightarrow> 6 | Cancelled \<Rightarrow> 7 | Invalidated \<Rightarrow> 8)"

definition status_from_i16 :: "int \<Rightarrow> request_status result" where
  "status_from_i16 n =
     (if n = 0 then Inr Unrequested else if n = 1 then Inr WitnessGeneration else if n = 2 then Inr Execution
      else if n = 3 then Inr Prove else if n = 4 then Inr Complete else if n = 5 then Inr Relayed
      else if n = 6 then Inr Failed else if n = 7 then Inr Cancelled else if n = 8 then Inr Invalidated
      else Inl (Panic ''Invalid request status''))"

definition type_from_i16 :: "int \<Rightarrow> request_type result" where
  "type_from_i16 n = (if n = 0 then Inr Range else if n = 1 then Inr Aggregation else Inl (Panic ''Invalid request type''))"

definition mode_from_i16 :: "int \<Rightarrow> request_mode result" where
  "mode_from_i16 n = (if n = 0 then Inr Real else if n = 1 then Inr Mock else Inl (Panic ''Invalid request mode''))"

text \<open>The JSON form of a cluster handle: the proof id and the id of its output artifact.\<close>

record cluster_proof_handle_json =
  cj_proof_id :: string
  cj_proof_output_id :: string

record request =
  rq_id :: int
  rq_status :: request_status
  rq_type :: request_type
  rq_mode :: request_mode
  rq_start_block :: int
  rq_end_block :: int
  rq_created_at :: int
  rq_updated_at :: int
  rq_proof_request_id :: "b256 option"
  rq_proof_request_time :: "int option"
  rq_checkpointed_l1_block_number :: "int option"
  rq_checkpointed_l1_block_hash :: "b256 option"
  rq_execution_statistics :: "string option"
  rq_witnessgen_duration :: "int option"
  rq_execution_duration :: "int option"
  rq_prove_duration :: "int option"
  rq_range_vkey_commitment :: b256
  rq_aggregation_vkey_hash :: "b256 option"
  rq_rollup_config_hash :: b256
  rq_relay_tx_hash :: "b256 option"
  rq_proof :: "u8 list option"
  rq_total_nb_transactions :: int
  rq_total_eth_gas_used :: int
  rq_total_l1_fees :: int
  rq_total_tx_fees :: int
  rq_l1_chain_id :: int
  rq_l2_chain_id :: int
  rq_contract_address :: "address option"
  rq_prover_address :: "address option"
  rq_l1_head_block_number :: "int option"
  rq_cluster_proof_handle :: "cluster_proof_handle_json option"
  rq_l1_head_block_hash :: "b256 option"
  rq_invalidated_at :: "int option"

record commitment_config =
  cc_range_vkey_commitment :: b256
  cc_agg_vkey_hash :: b256
  cc_rollup_config_hash :: b256

text \<open>\<open>OPSuccinctRequest::default()\<close> at the time the constructors give.\<close>

definition request_default :: "int \<Rightarrow> request" where
  "request_default now = \<lparr> rq_id = 0, rq_status = Unrequested, rq_type = Range, rq_mode = Real, rq_start_block = 0, rq_end_block = 0,
     rq_created_at = now, rq_updated_at = now, rq_proof_request_id = None, rq_proof_request_time = None,
     rq_checkpointed_l1_block_number = None, rq_checkpointed_l1_block_hash = None, rq_execution_statistics = None,
     rq_witnessgen_duration = None, rq_execution_duration = None, rq_prove_duration = None, rq_range_vkey_commitment = 0,
     rq_aggregation_vkey_hash = None, rq_rollup_config_hash = 0, rq_relay_tx_hash = None, rq_proof = None,
     rq_total_nb_transactions = 0, rq_total_eth_gas_used = 0, rq_total_l1_fees = 0, rq_total_tx_fees = 0,
     rq_l1_chain_id = 0, rq_l2_chain_id = 0, rq_contract_address = None, rq_prover_address = None,
     rq_l1_head_block_number = None, rq_cluster_proof_handle = None, rq_l1_head_block_hash = None, rq_invalidated_at = None \<rparr>"

text \<open>The totals are sums of \<open>u64\<close> and \<open>u128\<close> values; the first two are then cast to \<open>i64\<close>.\<close>

definition new_range_request ::
  "int \<Rightarrow> request_mode \<Rightarrow> int \<Rightarrow> int \<Rightarrow> b256 \<Rightarrow> b256 \<Rightarrow> l2_block_data list \<Rightarrow> int \<Rightarrow> int \<Rightarrow> request" where
  "new_range_request now mode start_block end_block range_vkey rollup_hash block_data l1 l2 =
     (request_default now) \<lparr>
       rq_mode := mode, rq_start_block := start_block, rq_end_block := end_block,
       rq_range_vkey_commitment := range_vkey, rq_rollup_config_hash := rollup_hash,
       rq_total_nb_transactions := i64 (uint (sum_list (map ld_transaction_count block_data))),
       rq_total_eth_gas_used := i64 (uint (sum_list (map ld_gas_used block_data))),
       rq_total_l1_fees := uint (sum_list (map ld_total_l1_fees block_data)),
       rq_total_tx_fees := uint (sum_list (map ld_total_tx_fees block_data)),
       rq_l1_chain_id := l1, rq_l2_chain_id := l2 \<rparr>"

definition new_agg_request ::
  "int \<Rightarrow> request_mode \<Rightarrow> int \<Rightarrow> int \<Rightarrow> b256 \<Rightarrow> b256 \<Rightarrow> b256 \<Rightarrow> int \<Rightarrow> int \<Rightarrow> int \<Rightarrow> b256 \<Rightarrow> address \<Rightarrow> request" where
  "new_agg_request now mode start_block end_block range_vkey agg_vkey rollup_hash l1 l2 checkpoint_number checkpoint_hash prover =
     (request_default now) \<lparr>
       rq_type := Aggregation, rq_mode := mode, rq_start_block := start_block, rq_end_block := end_block,
       rq_checkpointed_l1_block_number := Some checkpoint_number, rq_checkpointed_l1_block_hash := Some checkpoint_hash,
       rq_range_vkey_commitment := range_vkey, rq_aggregation_vkey_hash := Some agg_vkey, rq_rollup_config_hash := rollup_hash,
       rq_l1_chain_id := l1, rq_l2_chain_id := l2, rq_prover_address := Some prover, rq_l1_head_block_number := None \<rparr>"

section \<open>The database\<close>

record db =
  db_rows :: "request list"
  db_next_id :: int
  db_chain_locks :: "(int \<times> int, int) hashmap"
  db_calls :: nat

record db_env =
  db_fault :: "nat \<Rightarrow> string option"
  db_now :: "nat \<Rightarrow> int"

definition db_call :: "db_env \<Rightarrow> (int \<Rightarrow> (db, 'a) handler) \<Rightarrow> (db, 'a) handler" where
  "db_call env f d =
     (let n = db_calls d; d' = d\<lparr>db_calls := Suc n\<rparr> in
      case db_fault env n of Some m \<Rightarrow> (Inl (Err m), d') | None \<Rightarrow> f (db_now env n) d')"

definition select_where :: "db_env \<Rightarrow> (request \<Rightarrow> bool) \<Rightarrow> (db, request list) handler" where
  "select_where env p = db_call env (\<lambda>_. read_st (\<lambda>d. filter p (db_rows d)))"

definition update_rows :: "(request \<Rightarrow> bool) \<Rightarrow> (request \<Rightarrow> request) \<Rightarrow> db \<Rightarrow> db" where
  "update_rows p f d = d\<lparr>db_rows := map (\<lambda>r. if p r then f r else r) (db_rows d)\<rparr>"

definition count_rows :: "(request \<Rightarrow> bool) \<Rightarrow> db \<Rightarrow> nat" where
  "count_rows p d = length (filter p (db_rows d))"

text \<open>\<open>UPDATE requests SET ... WHERE p\<close>, with the number of rows affected.\<close>

definition update_where :: "db_env \<Rightarrow> (request \<Rightarrow> bool) \<Rightarrow> (int \<Rightarrow> request \<Rightarrow> request) \<Rightarrow> (db, nat) handler" where
  "update_where env p f = db_call env (\<lambda>now.
     seq (read_st (count_rows p)) (\<lambda>n.
     seq (write_st (update_rows p (f now))) (\<lambda>_. ret n)))"

definition for_commitment :: "commitment_config \<Rightarrow> int \<Rightarrow> int \<Rightarrow> request \<Rightarrow> bool" where
  "for_commitment c l1 l2 r \<longleftrightarrow>
     rq_range_vkey_commitment r = cc_range_vkey_commitment c \<and> rq_rollup_config_hash r = cc_rollup_config_hash c \<and>
     rq_l1_chain_id r = l1 \<and> rq_l2_chain_id r = l2"

definition for_agg_commitment :: "commitment_config \<Rightarrow> int \<Rightarrow> int \<Rightarrow> request \<Rightarrow> bool" where
  "for_agg_commitment c l1 l2 r \<longleftrightarrow> for_commitment c l1 l2 r \<and> rq_aggregation_vkey_hash r = Some (cc_agg_vkey_hash c)"

abbreviation valid :: "request \<Rightarrow> bool" where
  "valid r \<equiv> rq_invalidated_at r = None"

definition blocks_of :: "request \<Rightarrow> range" where
  "blocks_of r = (rq_start_block r, rq_end_block r)"

definition head_option :: "'a list \<Rightarrow> 'a option" where
  "head_option xs = (case xs of [] \<Rightarrow> None | x # _ \<Rightarrow> Some x)"

section \<open>Chain locks\<close>

definition add_chain_lock :: "db_env \<Rightarrow> int \<Rightarrow> int \<Rightarrow> (db, unit) handler" where
  "add_chain_lock env l1 l2 = db_call env (\<lambda>now. write_st (\<lambda>d. d\<lparr>db_chain_locks := hm_insert (l1, l2) now (db_chain_locks d)\<rparr>))"

definition is_chain_locked :: "db_env \<Rightarrow> int \<Rightarrow> int \<Rightarrow> int \<Rightarrow> (db, bool) handler" where
  "is_chain_locked env l1 l2 interval = db_call env (\<lambda>now. read_st (\<lambda>d.
     case hm_get (db_chain_locks d) (l1, l2) of None \<Rightarrow> False | Some locked_at \<Rightarrow> locked_at > now - interval))"

definition update_chain_lock :: "db_env \<Rightarrow> int \<Rightarrow> int \<Rightarrow> (db, unit) handler" where
  "update_chain_lock env l1 l2 = db_call env (\<lambda>now. write_st (\<lambda>d.
     case hm_get (db_chain_locks d) (l1, l2) of None \<Rightarrow> d
     | Some _ \<Rightarrow> d\<lparr>db_chain_locks := hm_insert (l1, l2) now (db_chain_locks d)\<rparr>))"

section \<open>Inserting\<close>

text \<open>The columns an insert does not name are \<open>NULL\<close>; the id is the next of the sequence.\<close>

definition inserted_row :: "int \<Rightarrow> request \<Rightarrow> request" where
  "inserted_row i req = req\<lparr>rq_id := i, rq_cluster_proof_handle := None, rq_l1_head_block_hash := None, rq_invalidated_at := None\<rparr>"

definition add_row :: "request \<Rightarrow> db \<Rightarrow> db" where
  "add_row req d = d\<lparr>db_rows := db_rows d @ [inserted_row (db_next_id d) req], db_next_id := db_next_id d + 1\<rparr>"

definition insert_request :: "db_env \<Rightarrow> request \<Rightarrow> (db, int) handler" where
  "insert_request env req = db_call env (\<lambda>_. seq (read_st db_next_id) (\<lambda>i. seq (write_st (add_row req)) (\<lambda>_. ret i)))"

definition insert_requests :: "db_env \<Rightarrow> request list \<Rightarrow> (db, unit) handler" where
  "insert_requests env requests = db_call env (\<lambda>_. write_st (fold add_row requests))"

section \<open>Queries\<close>

definition fetch_failed_request_count_by_block_range ::
  "db_env \<Rightarrow> int \<Rightarrow> int \<Rightarrow> int \<Rightarrow> int \<Rightarrow> commitment_config \<Rightarrow> (db, int) handler" where
  "fetch_failed_request_count_by_block_range env start_block end_block l1 l2 c =
     seq (select_where env (\<lambda>r. rq_start_block r = start_block \<and> rq_end_block r = end_block \<and> rq_status r = Failed \<and>
            for_commitment c l1 l2 r)) (\<lambda>rs. ret (int (length rs)))"

definition fetch_highest_end_block_for_range_request ::
  "db_env \<Rightarrow> request_status list \<Rightarrow> commitment_config \<Rightarrow> int \<Rightarrow> int \<Rightarrow> (db, int option) handler" where
  "fetch_highest_end_block_for_range_request env statuses c l1 l2 =
     seq (select_where env (\<lambda>r. for_commitment c l1 l2 r \<and> rq_status r \<in> set statuses \<and> rq_type r = Range \<and> valid r)) (\<lambda>rs.
     ret (head_option (rev (sort (map rq_end_block rs)))))"

definition fetch_ranges_after_block ::
  "db_env \<Rightarrow> request_status list \<Rightarrow> int \<Rightarrow> commitment_config \<Rightarrow> int \<Rightarrow> int \<Rightarrow> (db, range list) handler" where
  "fetch_ranges_after_block env statuses latest c l1 l2 =
     seq (select_where env (\<lambda>r. for_commitment c l1 l2 r \<and> rq_status r \<in> set statuses \<and> rq_type r = Range \<and> valid r \<and>
            rq_start_block r \<ge> latest)) (\<lambda>rs. ret (map blocks_of rs))"

definition fetch_request_count :: "db_env \<Rightarrow> request_status \<Rightarrow> commitment_config \<Rightarrow> int \<Rightarrow> int \<Rightarrow> (db, int) handler" where
  "fetch_request_count env status c l1 l2 =
     seq (select_where env (\<lambda>r. for_commitment c l1 l2 r \<and> rq_status r = status)) (\<lambda>rs. ret (int (length rs)))"

definition fetch_requests_by_status ::
  "db_env \<Rightarrow> request_status \<Rightarrow> commitment_config \<Rightarrow> int \<Rightarrow> int \<Rightarrow> (db, request list) handler" where
  "fetch_requests_by_status env status c l1 l2 = select_where env (\<lambda>r. for_commitment c l1 l2 r \<and> rq_status r = status)"

definition fetch_request :: "db_env \<Rightarrow> int \<Rightarrow> (db, request) handler" where
  "fetch_request env i = seq (select_where env (\<lambda>r. rq_id r = i)) (\<lambda>rs. lift (ok_or ''RowNotFound'' (head_option rs)))"

definition complete_range_in :: "int \<Rightarrow> int \<Rightarrow> commitment_config \<Rightarrow> int \<Rightarrow> int \<Rightarrow> request \<Rightarrow> bool" where
  "complete_range_in start_block end_block c l1 l2 r \<longleftrightarrow>
     for_commitment c l1 l2 r \<and> rq_status r = Complete \<and> rq_type r = Range \<and> valid r \<and>
     rq_start_block r \<ge> start_block \<and> rq_end_block r \<le> end_block"

definition get_consecutive_complete_range_proofs ::
  "db_env \<Rightarrow> int \<Rightarrow> int \<Rightarrow> commitment_config \<Rightarrow> int \<Rightarrow> int \<Rightarrow> (db, request list) handler" where
  "get_consecutive_complete_range_proofs env start_block end_block c l1 l2 =
     seq (select_where env (complete_range_in start_block end_block c l1 l2)) (\<lambda>rs. ret (sort_key rq_start_block rs))"

text \<open>The walk of \<open>get_complete_aggregation_range_proofs\<close> over the proofs found.\<close>

fun check_contiguous :: "int \<Rightarrow> request list \<Rightarrow> int result" where
  "check_contiguous next_block [] = Inr next_block"
| "check_contiguous next_block (proof # proofs) =
     try_bind (ensure (rq_start_block proof = next_block \<and> rq_end_block proof > rq_start_block proof)
        ''Aggregation range proofs are not contiguous'') (\<lambda>_.
     check_contiguous (rq_end_block proof) proofs)"

definition get_complete_aggregation_range_proofs ::
  "db_env \<Rightarrow> int \<Rightarrow> int \<Rightarrow> commitment_config \<Rightarrow> int \<Rightarrow> int \<Rightarrow> (db, request list) handler" where
  "get_complete_aggregation_range_proofs env start_block end_block c l1 l2 =
     seq (lift (ensure (start_block < end_block) ''Aggregation range must be nonempty'')) (\<lambda>_.
     seq (get_consecutive_complete_range_proofs env start_block end_block c l1 l2) (\<lambda>proofs.
     seq (lift (check_contiguous start_block proofs)) (\<lambda>next_block.
     seq (lift (ensure (next_block = end_block) ''Aggregation range proofs do not cover'')) (\<lambda>_.
     ret proofs))))"

text \<open>SQL's \<open>MAX\<close> ignores \<open>NULL\<close> and is \<open>NULL\<close> over no value.\<close>

definition max_option :: "int option list \<Rightarrow> int option" where
  "max_option xs = (case List.map_filter (\<lambda>x. x) xs of [] \<Rightarrow> None | y # ys \<Rightarrow> Some (fold max ys y))"

definition get_max_l1_head_block_number_for_range ::
  "db_env \<Rightarrow> int \<Rightarrow> int \<Rightarrow> commitment_config \<Rightarrow> int \<Rightarrow> int \<Rightarrow> (db, int option) handler" where
  "get_max_l1_head_block_number_for_range env start_block end_block c l1 l2 =
     seq (select_where env (complete_range_in start_block end_block c l1 l2)) (\<lambda>rs.
     ret (max_option (map rq_l1_head_block_number rs)))"

definition reusable_checkpoint :: "request \<Rightarrow> (b256 \<times> int) option" where
  "reusable_checkpoint r =
     (case (rq_checkpointed_l1_block_hash r, rq_checkpointed_l1_block_number r) of (Some h, Some n) \<Rightarrow> Some (h, n) | _ \<Rightarrow> None)"

definition fetch_reusable_agg_checkpoint ::
  "db_env \<Rightarrow> int \<Rightarrow> int \<Rightarrow> commitment_config \<Rightarrow> int \<Rightarrow> int \<Rightarrow> (db, (b256 \<times> int) option) handler" where
  "fetch_reusable_agg_checkpoint env start_block end_block c l1 l2 =
     seq (select_where env (\<lambda>r. for_agg_commitment c l1 l2 r \<and> rq_type r = Aggregation \<and> rq_start_block r = start_block \<and>
            rq_end_block r = end_block \<and> rq_status r \<in> {Failed, Invalidated} \<and>
            rq_checkpointed_l1_block_hash r \<noteq> None \<and> rq_checkpointed_l1_block_number r \<noteq> None)) (\<lambda>rs.
     ret (Option.bind (head_option rs) reusable_checkpoint))"

definition active_statuses :: "request_status list" where
  "active_statuses = [Unrequested, WitnessGeneration, Execution, Prove, Complete]"

definition fetch_active_agg_proofs_count :: "db_env \<Rightarrow> int \<Rightarrow> commitment_config \<Rightarrow> int \<Rightarrow> int \<Rightarrow> (db, int) handler" where
  "fetch_active_agg_proofs_count env start_block c l1 l2 =
     seq (select_where env (\<lambda>r. for_agg_commitment c l1 l2 r \<and> rq_status r \<in> set active_statuses \<and> valid r \<and>
            rq_type r = Aggregation \<and> rq_start_block r = start_block)) (\<lambda>rs. ret (int (length rs)))"

definition fetch_unrequested_agg_proof :: "db_env \<Rightarrow> int \<Rightarrow> commitment_config \<Rightarrow> int \<Rightarrow> int \<Rightarrow> (db, request option) handler" where
  "fetch_unrequested_agg_proof env latest c l1 l2 =
     seq (select_where env (\<lambda>r. for_agg_commitment c l1 l2 r \<and> rq_status r = Unrequested \<and> valid r \<and>
            rq_type r = Aggregation \<and> rq_start_block r \<ge> latest)) (\<lambda>rs. ret (head_option (sort_key rq_start_block rs)))"

definition fetch_first_unrequested_range_proof ::
  "db_env \<Rightarrow> int \<Rightarrow> commitment_config \<Rightarrow> int \<Rightarrow> int \<Rightarrow> (db, request option) handler" where
  "fetch_first_unrequested_range_proof env latest c l1 l2 =
     seq (select_where env (\<lambda>r. for_commitment c l1 l2 r \<and> rq_status r = Unrequested \<and> valid r \<and> rq_type r = Range \<and>
            rq_start_block r \<ge> latest)) (\<lambda>rs. ret (head_option (sort_key rq_start_block rs)))"

definition completed_range :: "commitment_config \<Rightarrow> int \<Rightarrow> int \<Rightarrow> int \<Rightarrow> request \<Rightarrow> bool" where
  "completed_range c latest l1 l2 r \<longleftrightarrow>
     for_commitment c l1 l2 r \<and> rq_status r = Complete \<and> valid r \<and> rq_type r = Range \<and> rq_start_block r \<ge> latest"

definition fetch_completed_ranges :: "db_env \<Rightarrow> commitment_config \<Rightarrow> int \<Rightarrow> int \<Rightarrow> int \<Rightarrow> (db, range list) handler" where
  "fetch_completed_ranges env c latest l1 l2 =
     seq (select_where env (completed_range c latest l1 l2)) (\<lambda>rs. ret (map blocks_of (sort_key rq_start_block rs)))"

definition fetch_completed_range_metadata ::
  "db_env \<Rightarrow> commitment_config \<Rightarrow> int \<Rightarrow> int \<Rightarrow> int \<Rightarrow> (db, request list) handler" where
  "fetch_completed_range_metadata env c latest l1 l2 =
     seq (select_where env (completed_range c latest l1 l2)) (\<lambda>rs. ret (sort_key rq_start_block rs))"

definition fetch_missing_range_metadata ::
  "db_env \<Rightarrow> commitment_config \<Rightarrow> int \<Rightarrow> int \<Rightarrow> int \<Rightarrow> nat \<Rightarrow> (db, request list) handler" where
  "fetch_missing_range_metadata env c latest l1 l2 limit =
     seq (select_where env (\<lambda>r. completed_range c latest l1 l2 r \<and>
            (rq_l1_head_block_number r = None \<or> rq_l1_head_block_hash r = None))) (\<lambda>rs.
     ret (take limit (sort_key rq_start_block rs)))"

definition is_request_invalidated :: "db_env \<Rightarrow> int \<Rightarrow> (db, bool) handler" where
  "is_request_invalidated env i = seq (fetch_request env i) (\<lambda>r. ret (\<not> valid r))"

definition fetch_completed_agg_proof_after_block ::
  "db_env \<Rightarrow> int \<Rightarrow> commitment_config \<Rightarrow> int \<Rightarrow> int \<Rightarrow> (db, request option) handler" where
  "fetch_completed_agg_proof_after_block env latest c l1 l2 =
     seq (select_where env (\<lambda>r. for_agg_commitment c l1 l2 r \<and> rq_status r = Complete \<and> valid r \<and> rq_type r = Aggregation \<and>
            rq_start_block r = latest)) (\<lambda>rs. ret (head_option (sort_key rq_start_block rs)))"

definition get_mock_aggregation_proof_by_request_id ::
  "db_env \<Rightarrow> int \<Rightarrow> commitment_config \<Rightarrow> int \<Rightarrow> int \<Rightarrow> (db, u8 list) handler" where
  "get_mock_aggregation_proof_by_request_id env i c l1 l2 =
     seq (select_where env (\<lambda>r. rq_id r = i \<and> rq_mode r = Mock \<and> rq_type r = Aggregation \<and> rq_status r = Complete \<and>
            for_agg_commitment c l1 l2 r)) (\<lambda>rs.
     lift (ok_or ''RowNotFound'' (Option.bind (head_option rs) rq_proof)))"

section \<open>Updates\<close>

abbreviation with_id :: "int \<Rightarrow> request \<Rightarrow> bool" where
  "with_id i r \<equiv> rq_id r = i"

definition set_status :: "request_status \<Rightarrow> int \<Rightarrow> request \<Rightarrow> request" where
  "set_status s now r = r\<lparr>rq_status := s, rq_updated_at := now\<rparr>"

definition update_l1_head :: "db_env \<Rightarrow> int \<Rightarrow> int \<Rightarrow> b256 \<Rightarrow> (db, nat) handler" where
  "update_l1_head env i number hash = update_where env (with_id i) (\<lambda>now r.
     r\<lparr>rq_l1_head_block_number := Some number, rq_l1_head_block_hash := Some hash, rq_updated_at := now\<rparr>)"

text \<open>Admission: the rows in progress of the request's chain and commitment are counted under an advisory lock and the new
  status is committed in the same transaction.\<close>

definition in_group :: "request \<Rightarrow> request \<Rightarrow> bool" where
  "in_group req r \<longleftrightarrow> rq_l1_chain_id r = rq_l1_chain_id req \<and> rq_l2_chain_id r = rq_l2_chain_id req \<and>
     rq_range_vkey_commitment r = rq_range_vkey_commitment req \<and> rq_rollup_config_hash r = rq_rollup_config_hash req"

definition witnesses_of :: "request \<Rightarrow> db \<Rightarrow> nat" where
  "witnesses_of req = count_rows (\<lambda>r. rq_status r = WitnessGeneration \<and> in_group req r)"

definition in_progress_of :: "request \<Rightarrow> db \<Rightarrow> nat" where
  "in_progress_of req = count_rows (\<lambda>r. rq_status r \<in> {WitnessGeneration, Execution, Prove} \<and> in_group req r)"

definition startable :: "int \<Rightarrow> request \<Rightarrow> bool" where
  "startable i r \<longleftrightarrow> rq_id r = i \<and> rq_status r = Unrequested \<and> valid r"

definition admit_request :: "db_env \<Rightarrow> request \<Rightarrow> int \<Rightarrow> u64 \<Rightarrow> u64 \<Rightarrow> (db, bool) handler" where
  "admit_request env request i max_witnesses max_proofs =
     db_call env (\<lambda>now.
       seq (read_st (\<lambda>d. (witnesses_of request d, in_progress_of request d))) (\<lambda>(witnesses, active).
       if witnesses \<ge> unat max_witnesses \<or> active \<ge> unat max_proofs then ret False else
       seq (read_st (count_rows (startable i))) (\<lambda>n.
       seq (write_st (update_rows (startable i) (set_status WitnessGeneration now))) (\<lambda>_.
       ret (n = 1)))))"

definition try_start_witness_generation :: "db_env \<Rightarrow> int \<Rightarrow> u64 \<Rightarrow> u64 \<Rightarrow> (db, bool) handler" where
  "try_start_witness_generation env i max_witnesses max_proofs =
     seq (fetch_request env i) (\<lambda>request. admit_request env request i max_witnesses max_proofs)"

definition finish_invalidated_request :: "db_env \<Rightarrow> int \<Rightarrow> (db, bool) handler" where
  "finish_invalidated_request env i =
     seq (update_where env (\<lambda>r. rq_id r = i \<and> \<not> valid r \<and> rq_status r \<noteq> Invalidated) (set_status Invalidated)) (\<lambda>n. ret (n = 1))"

definition stale_range :: "int list \<Rightarrow> request \<Rightarrow> bool" where
  "stale_range ids r \<longleftrightarrow> rq_id r \<in> set ids \<and> rq_type r = Range \<and> rq_status r = Complete \<and> valid r"

definition stale_agg :: "int list \<Rightarrow> commitment_config \<Rightarrow> int \<Rightarrow> int \<Rightarrow> db \<Rightarrow> request \<Rightarrow> bool" where
  "stale_agg ids c l1 l2 d agg \<longleftrightarrow>
     rq_type agg = Aggregation \<and> rq_status agg \<in> set active_statuses \<and> valid agg \<and> for_agg_commitment c l1 l2 agg \<and>
     (\<exists>stale \<in> set (db_rows d). rq_id stale \<in> set ids \<and> rq_start_block agg \<le> rq_start_block stale \<and>
        rq_end_block stale \<le> rq_end_block agg)"

definition invalidate_agg :: "int \<Rightarrow> request \<Rightarrow> request" where
  "invalidate_agg now r = r\<lparr>rq_status := (if rq_status r \<in> {Unrequested, Complete} then Invalidated else rq_status r),
     rq_invalidated_at := Some now, rq_updated_at := now\<rparr>"

definition invalidate_range :: "int \<Rightarrow> request \<Rightarrow> request" where
  "invalidate_range now r = r\<lparr>rq_status := Invalidated, rq_invalidated_at := Some now, rq_updated_at := now\<rparr>"

definition invalidate_noncanonical_ranges ::
  "db_env \<Rightarrow> int list \<Rightarrow> commitment_config \<Rightarrow> int \<Rightarrow> int \<Rightarrow> (db, nat \<times> nat) handler" where
  "invalidate_noncanonical_ranges env ids c l1 l2 =
     (if ids = [] then ret (0, 0) else
      db_call env (\<lambda>now.
        seq (read_st (count_rows (stale_range ids))) (\<lambda>range_count.
        seq (write_st (update_rows (stale_range ids) (invalidate_range now))) (\<lambda>_.
        seq (read_st (\<lambda>d. count_rows (stale_agg ids c l1 l2 d) d)) (\<lambda>agg_count.
        seq (write_st (\<lambda>d. update_rows (stale_agg ids c l1 l2 d) (invalidate_agg now) d)) (\<lambda>_.
        ret (range_count, agg_count)))))))"

definition update_prove_duration :: "db_env \<Rightarrow> int \<Rightarrow> (db, nat) handler" where
  "update_prove_duration env i = update_where env (with_id i) (\<lambda>now r.
     r\<lparr>rq_prove_duration := map_option (\<lambda>t. now - t) (rq_proof_request_time r)\<rparr>)"

definition update_proof_to_complete :: "db_env \<Rightarrow> int \<Rightarrow> u8 list \<Rightarrow> (db, bool) handler" where
  "update_proof_to_complete env i proof =
     seq (update_where env (\<lambda>r. rq_id r = i \<and> rq_status r \<in> {Execution, Prove} \<and> valid r)
            (\<lambda>now r. set_status Complete now (r\<lparr>rq_proof := Some proof\<rparr>))) (\<lambda>n. ret (n = 1))"

definition update_witnessgen_duration :: "db_env \<Rightarrow> int \<Rightarrow> int \<Rightarrow> (db, nat) handler" where
  "update_witnessgen_duration env i duration = update_where env (with_id i) (\<lambda>now r.
     r\<lparr>rq_witnessgen_duration := Some duration, rq_updated_at := now\<rparr>)"

definition update_request_status :: "db_env \<Rightarrow> int \<Rightarrow> request_status \<Rightarrow> (db, nat) handler" where
  "update_request_status env i new_status = update_where env (with_id i) (set_status new_status)"

definition update_request_to_prove :: "db_env \<Rightarrow> int \<Rightarrow> b256 \<Rightarrow> (db, nat) handler" where
  "update_request_to_prove env i proof_id = update_where env (with_id i) (\<lambda>now r.
     set_status Prove now (r\<lparr>rq_proof_request_id := Some proof_id, rq_proof_request_time := Some now\<rparr>))"

definition update_request_to_prove_cluster :: "db_env \<Rightarrow> int \<Rightarrow> cluster_proof_handle_json \<Rightarrow> (db, nat) handler" where
  "update_request_to_prove_cluster env i handle = update_where env (with_id i) (\<lambda>now r.
     set_status Prove now (r\<lparr>rq_cluster_proof_handle := Some handle, rq_proof_request_time := Some now\<rparr>))"

definition update_request_to_relayed :: "db_env \<Rightarrow> int \<Rightarrow> b256 \<Rightarrow> address \<Rightarrow> (db, bool) handler" where
  "update_request_to_relayed env i tx_hash contract =
     seq (update_where env (\<lambda>r. rq_id r = i \<and> rq_status r = Complete \<and> valid r)
            (\<lambda>now r. set_status Relayed now (r\<lparr>rq_relay_tx_hash := Some tx_hash, rq_contract_address := Some contract\<rparr>))) (\<lambda>n.
     ret (n = 1))"

definition insert_execution_statistics :: "db_env \<Rightarrow> int \<Rightarrow> string \<Rightarrow> int \<Rightarrow> (db, nat) handler" where
  "insert_execution_statistics env i statistics duration = update_where env (with_id i) (\<lambda>_ r.
     r\<lparr>rq_execution_statistics := Some statistics, rq_execution_duration := Some duration\<rparr>)"

definition cancel_all_requests_with_statuses :: "db_env \<Rightarrow> request_status list \<Rightarrow> int \<Rightarrow> int \<Rightarrow> (db, nat) handler" where
  "cancel_all_requests_with_statuses env statuses l1 l2 =
     update_where env (\<lambda>r. rq_status r \<in> set statuses \<and> rq_l1_chain_id r = l1 \<and> rq_l2_chain_id r = l2)
       (\<lambda>_ r. r\<lparr>rq_status := Cancelled\<rparr>)"

definition delete_all_requests_with_statuses :: "db_env \<Rightarrow> request_status list \<Rightarrow> int \<Rightarrow> int \<Rightarrow> (db, unit) handler" where
  "delete_all_requests_with_statuses env statuses l1 l2 = db_call env (\<lambda>_. write_st (\<lambda>d.
     d\<lparr>db_rows := filter (\<lambda>r. \<not> (rq_status r \<in> set statuses \<and> valid r \<and> rq_l1_chain_id r = l1 \<and> rq_l2_chain_id r = l2)) (db_rows d)\<rparr>))"

definition cancel_prove_requests_with_different_commitment_config ::
  "db_env \<Rightarrow> commitment_config \<Rightarrow> int \<Rightarrow> int \<Rightarrow> (db, nat) handler" where
  "cancel_prove_requests_with_different_commitment_config env c l1 l2 =
     update_where env (\<lambda>r. rq_status r = Prove \<and>
         (rq_range_vkey_commitment r \<noteq> cc_range_vkey_commitment c \<or> rq_rollup_config_hash r \<noteq> cc_rollup_config_hash c) \<and>
         rq_l1_chain_id r = l1 \<and> rq_l2_chain_id r = l2)
       (\<lambda>_ r. r\<lparr>rq_status := Cancelled\<rparr>)"

section \<open>The requests as a state machine\<close>

text \<open>
  The rules below are the writes of the proposer and of its proof tasks, in any order and with any arguments the callers may
  use: an inserted request is a new one, and \<open>update_request_status\<close> sets only the three statuses the sources pass. Every
  call that may fail is one rule: a failed call is a step that leaves the rows alone. Admission is the transaction alone, for a
  request that was read before and is still of the row's chain and commitment. The parameter is the configured
  bound on witness generation.
\<close>

definition fresh_request :: "request \<Rightarrow> bool" where
  "fresh_request r \<longleftrightarrow> rq_status r = Unrequested \<and> rq_proof r = None \<and> rq_relay_tx_hash r = None \<and>
     (rq_type r = Aggregation \<longrightarrow> rq_checkpointed_l1_block_number r \<noteq> None \<and> rq_checkpointed_l1_block_hash r \<noteq> None \<and>
        rq_prover_address r \<noteq> None)"

inductive db_step :: "u64 \<Rightarrow> db \<Rightarrow> db \<Rightarrow> bool" for max_witnesses where
  idle: "db_rows d' = db_rows d \<Longrightarrow> db_next_id d' = db_next_id d \<Longrightarrow> db_step max_witnesses d d'"
| insert: "fresh_request req \<Longrightarrow> db_step max_witnesses d (snd (insert_request env req d))"
| insert_all: "\<forall>req \<in> set reqs. fresh_request req \<Longrightarrow> db_step max_witnesses d (snd (insert_requests env reqs d))"
| l1_head: "db_step max_witnesses d (snd (update_l1_head env i number hash d))"
| start: "\<forall>r \<in> set (db_rows d). rq_id r = i \<longrightarrow> in_group request r \<Longrightarrow>
    db_step max_witnesses d (snd (admit_request env request i max_witnesses max_proofs d))"
| finish: "db_step max_witnesses d (snd (finish_invalidated_request env i d))"
| invalidate: "db_step max_witnesses d (snd (invalidate_noncanonical_ranges env ids c l1 l2 d))"
| prove_duration: "db_step max_witnesses d (snd (update_prove_duration env i d))"
| complete: "db_step max_witnesses d (snd (update_proof_to_complete env i proof d))"
| witnessgen_duration: "db_step max_witnesses d (snd (update_witnessgen_duration env i duration d))"
| status: "s \<in> {Execution, Failed, Cancelled} \<Longrightarrow> db_step max_witnesses d (snd (update_request_status env i s d))"
| prove: "db_step max_witnesses d (snd (update_request_to_prove env i proof_id d))"
| prove_cluster: "db_step max_witnesses d (snd (update_request_to_prove_cluster env i handle d))"
| relayed: "db_step max_witnesses d (snd (update_request_to_relayed env i tx contract d))"
| statistics: "db_step max_witnesses d (snd (insert_execution_statistics env i stats duration d))"
| cancel: "db_step max_witnesses d (snd (cancel_prove_requests_with_different_commitment_config env c l1 l2 d))"
| cancel_all: "db_step max_witnesses d (snd (cancel_all_requests_with_statuses env statuses l1 l2 d))"
| delete: "db_step max_witnesses d (snd (delete_all_requests_with_statuses env statuses l1 l2 d))"

definition row_ok :: "request \<Rightarrow> bool" where
  "row_ok r \<longleftrightarrow>
     (\<not> valid r \<longrightarrow> rq_status r \<notin> {Unrequested, Complete, Relayed}) \<and>
     (rq_status r \<in> {Complete, Relayed} \<longrightarrow> rq_proof r \<noteq> None) \<and>
     (rq_status r = Relayed \<longrightarrow> rq_relay_tx_hash r \<noteq> None) \<and>
     (rq_type r = Aggregation \<longrightarrow> rq_checkpointed_l1_block_number r \<noteq> None \<and> rq_checkpointed_l1_block_hash r \<noteq> None \<and>
        rq_prover_address r \<noteq> None)"

definition db_ok :: "u64 \<Rightarrow> db \<Rightarrow> bool" where
  "db_ok max_witnesses d \<longleftrightarrow>
     distinct (map rq_id (db_rows d)) \<and> (\<forall>r \<in> set (db_rows d). rq_id r < db_next_id d) \<and>
     (\<forall>r \<in> set (db_rows d). row_ok r) \<and>
     (\<forall>req. witnesses_of req d \<le> unat max_witnesses)"

text \<open>Updates row by row: what each may do to one row.\<close>

definition tame :: "(request \<Rightarrow> request) \<Rightarrow> bool" where
  "tame g \<longleftrightarrow> (\<forall>r. row_ok r \<longrightarrow> row_ok (g r) \<and> rq_id (g r) = rq_id r \<and> in_group r (g r) \<and> (\<not> valid r \<longrightarrow> \<not> valid (g r)))"

definition starts_none :: "(request \<Rightarrow> request) \<Rightarrow> bool" where
  "starts_none g \<longleftrightarrow> (\<forall>r. rq_status (g r) = WitnessGeneration \<longrightarrow> rq_status r = WitnessGeneration)"

lemma in_group_trans: "in_group r r' \<Longrightarrow> in_group req r' \<longleftrightarrow> in_group req r"
  by (auto simp: in_group_def)

lemma witnesses_of_map:
  assumes "starts_none g" "\<forall>r \<in> set rs. in_group r (g r)"
  shows "length (filter (\<lambda>r. rq_status r = WitnessGeneration \<and> in_group req r) (map g rs)) \<le>
         length (filter (\<lambda>r. rq_status r = WitnessGeneration \<and> in_group req r) rs)"
  using assms(2)
proof (induction rs)
  case (Cons r rs)
  have "rq_status (g r) = WitnessGeneration \<and> in_group req (g r) \<Longrightarrow> rq_status r = WitnessGeneration \<and> in_group req r"
    using assms(1) Cons.prems in_group_trans [of r "g r" req] by (auto simp: starts_none_def)
  with Cons show ?case by auto
qed simp

lemma db_ok_map:
  assumes "db_ok mw d" "tame g" "starts_none g" "db_rows d' = map g (db_rows d)" "db_next_id d' = db_next_id d"
  shows "db_ok mw d'"
proof -
  have rows: "\<forall>r \<in> set (db_rows d). row_ok (g r) \<and> rq_id (g r) = rq_id r \<and> in_group r (g r)"
    using assms(1,2) by (auto simp: db_ok_def tame_def)
  then have "map (rq_id \<circ> g) (db_rows d) = map rq_id (db_rows d)" by simp
  then have "distinct (map (rq_id \<circ> g) (db_rows d))" using assms(1) unfolding db_ok_def by (simp only:)
  moreover have "witnesses_of req d' \<le> unat mw" for req
  proof -
    have "witnesses_of req d' \<le> witnesses_of req d"
      unfolding witnesses_of_def count_rows_def assms(4) using assms(3) rows by (intro witnesses_of_map) auto
    also have "\<dots> \<le> unat mw" using assms(1) by (simp add: db_ok_def)
    finally show ?thesis .
  qed
  ultimately show ?thesis using assms rows by (auto simp: db_ok_def)
qed

lemma db_ok_same: "db_ok mw d \<Longrightarrow> db_rows d' = db_rows d \<Longrightarrow> db_next_id d' = db_next_id d \<Longrightarrow> db_ok mw d'"
  by (simp add: db_ok_def witnesses_of_def count_rows_def)

lemma update_where_rows:
  "\<exists>now b. db_rows (snd (update_where env p f d)) = map (\<lambda>r. if b \<and> p r then f now r else r) (db_rows d)"
  "db_next_id (snd (update_where env p f d)) = db_next_id d"
proof -
  have "db_rows (snd (update_where env p f d)) =
      map (\<lambda>r. if db_fault env (db_calls d) = None \<and> p r then f (db_now env (db_calls d)) r else r) (db_rows d)"
    by (auto simp: update_where_def db_call_def update_rows_def Let_def split: option.splits)
  then show "\<exists>now b. db_rows (snd (update_where env p f d)) = map (\<lambda>r. if b \<and> p r then f now r else r) (db_rows d)" by blast
  show "db_next_id (snd (update_where env p f d)) = db_next_id d"
    by (auto simp: update_where_def db_call_def update_rows_def Let_def split: option.splits)
qed

definition gentle :: "(request \<Rightarrow> bool) \<Rightarrow> (int \<Rightarrow> request \<Rightarrow> request) \<Rightarrow> bool" where
  "gentle p f \<longleftrightarrow> (\<forall>r now. p r \<longrightarrow> rq_id (f now r) = rq_id r \<and> in_group r (f now r) \<and> (row_ok r \<longrightarrow> row_ok (f now r)) \<and>
     (\<not> valid r \<longrightarrow> \<not> valid (f now r)) \<and> (rq_status (f now r) = WitnessGeneration \<longrightarrow> rq_status r = WitnessGeneration))"

lemma gentle_tame: "gentle p f \<Longrightarrow> tame (\<lambda>r. if b \<and> p r then f now r else r) \<and> starts_none (\<lambda>r. if b \<and> p r then f now r else r)"
  by (auto simp: gentle_def tame_def starts_none_def in_group_def)

lemma db_ok_update_where:
  assumes "db_ok mw d" "gentle p f"
  shows "db_ok mw (snd (update_where env p f d))"
proof -
  obtain now b where "db_rows (snd (update_where env p f d)) = map (\<lambda>r. if b \<and> p r then f now r else r) (db_rows d)"
    using update_where_rows by blast
  moreover have "tame (\<lambda>r. if b \<and> p r then f now r else r)" "starts_none (\<lambda>r. if b \<and> p r then f now r else r)"
    using gentle_tame [OF assms(2)] by blast+
  ultimately show ?thesis using db_ok_map assms(1) update_where_rows(2) by blast
qed

declare snd_seq_ret [simp]

named_theorems gentle_intros \<open>updates that keep the rows well formed\<close>

lemma gentle_rules [gentle_intros]:
  "gentle (with_id i) (\<lambda>now r. r\<lparr>rq_l1_head_block_number := n, rq_l1_head_block_hash := h, rq_updated_at := now\<rparr>)"
  "gentle (\<lambda>r. rq_id r = i \<and> \<not> valid r \<and> rq_status r \<noteq> Invalidated) (set_status Invalidated)"
  "gentle (with_id i) (\<lambda>now r. r\<lparr>rq_prove_duration := map_option (\<lambda>t. now - t) (rq_proof_request_time r)\<rparr>)"
  "gentle (\<lambda>r. rq_id r = i \<and> rq_status r \<in> {Execution, Prove} \<and> valid r) (\<lambda>now r. set_status Complete now (r\<lparr>rq_proof := Some proof\<rparr>))"
  "gentle (with_id i) (\<lambda>now r. r\<lparr>rq_witnessgen_duration := dur, rq_updated_at := now\<rparr>)"
  "s \<in> {Execution, Failed, Cancelled} \<Longrightarrow> gentle (with_id i) (set_status s)"
  "gentle (with_id i) (\<lambda>now r. set_status Prove now (r\<lparr>rq_proof_request_id := pid, rq_proof_request_time := Some now\<rparr>))"
  "gentle (with_id i) (\<lambda>now r. set_status Prove now (r\<lparr>rq_cluster_proof_handle := ch, rq_proof_request_time := Some now\<rparr>))"
  "gentle (\<lambda>r. rq_id r = i \<and> rq_status r = Complete \<and> valid r)
     (\<lambda>now r. set_status Relayed now (r\<lparr>rq_relay_tx_hash := Some tx, rq_contract_address := ca\<rparr>))"
  "gentle (with_id i) (\<lambda>_ r. r\<lparr>rq_execution_statistics := st, rq_execution_duration := ed\<rparr>)"
  "gentle p (\<lambda>_ r. r\<lparr>rq_status := Cancelled\<rparr>)"
  "gentle (stale_range ids) invalidate_range"
  "gentle (stale_agg ids c l1 l2 d) invalidate_agg"
  by (auto simp: gentle_def row_ok_def set_status_def in_group_def invalidate_range_def invalidate_agg_def stale_range_def
    stale_agg_def active_statuses_def)

lemma db_ok_add_row:
  assumes "db_ok mw d" "fresh_request req"
  shows "db_ok mw (add_row req d)"
proof -
  have "row_ok (inserted_row (db_next_id d) req)" using assms(2) by (auto simp: fresh_request_def row_ok_def inserted_row_def)
  moreover have "witnesses_of q (add_row req d) = witnesses_of q d" for q
    using assms(2) by (simp add: witnesses_of_def count_rows_def add_row_def inserted_row_def fresh_request_def)
  moreover have "rq_id (inserted_row (db_next_id d) req) = db_next_id d" by (simp add: inserted_row_def)
  ultimately show ?thesis using assms(1) by (auto simp: db_ok_def add_row_def)
qed

lemma db_ok_add_rows: "db_ok mw d \<Longrightarrow> \<forall>req \<in> set reqs. fresh_request req \<Longrightarrow> db_ok mw (fold add_row reqs d)"
  by (induction reqs arbitrary: d) (auto intro: db_ok_add_row)

lemma db_call_cases:
  assumes "db_call env f d = (r, d')"
  obtains m where "r = Inl (Err m)" "d' = d\<lparr>db_calls := Suc (db_calls d)\<rparr>"
    | now where "f now (d\<lparr>db_calls := Suc (db_calls d)\<rparr>) = (r, d')" "db_fault env (db_calls d) = None" "now = db_now env (db_calls d)"
  using assms by (auto simp: db_call_def Let_def split: option.splits)

lemma keeps_db_call:
  assumes "\<And>d. I d \<Longrightarrow> I (d\<lparr>db_calls := Suc (db_calls d)\<rparr>)" "\<And>now. keeps I (f now)"
  shows "keeps I (db_call env f)"
  unfolding keeps_def
proof (intro allI impI)
  fix d assume I: "I d"
  show "I (snd (db_call env f d))"
    using assms(1) [OF I] assms(2) by (auto simp: db_call_def Let_def keeps_def split: option.splits)
qed

lemma keeps_db_ok_call: "(\<And>now. keeps (db_ok mw) (f now)) \<Longrightarrow> keeps (db_ok mw) (db_call env f)"
  by (rule keeps_db_call) (auto elim: db_ok_same)

lemma select_where_db: "db_rows (snd (select_where env p d)) = db_rows d" "db_next_id (snd (select_where env p d)) = db_next_id d"
  by (simp_all add: select_where_def db_call_def Let_def split: option.splits)

lemma keeps_select [keeps_intros]: "keeps (db_ok mw) (select_where env p)"
  by (auto simp: keeps_def intro: db_ok_same select_where_db)

lemma keeps_fetch_request [keeps_intros]: "keeps (db_ok mw) (fetch_request env i)"
  unfolding fetch_request_def by (intro keeps_intros)

lemma count_one:
  assumes "distinct (map rq_id rs)" "\<And>r. p r \<Longrightarrow> rq_id r = i"
  shows "length (filter p rs) \<le> 1"
proof (rule ccontr)
  assume "\<not> length (filter p rs) \<le> 1"
  then obtain x y zs where xy: "filter p rs = x # y # zs" by (cases "filter p rs" rule: remdups_adj.cases) auto
  have "distinct (map rq_id (filter p rs))" using assms(1) by (rule distinct_map_filter)
  moreover have "list_all p (filter p rs)" by (simp add: list_all_iff)
  then have "p x" "p y" using xy by simp_all
  ultimately show False using assms(2) [of x] assms(2) [of y] xy by simp
qed

lemma count_started:
  assumes "distinct (map rq_id rs)" "\<And>r. p r \<Longrightarrow> rq_id r = i"
  shows "length (filter q (map (\<lambda>r. if p r then f r else r) rs)) \<le> Suc (length (filter q rs))"
proof -
  have "length (filter q (map (\<lambda>r. if p r then f r else r) rs)) \<le> length (filter q rs) + length (filter p rs)"
    by (induction rs) auto
  moreover have "length (filter p rs) \<le> 1" using assms by (rule count_one)
  ultimately show ?thesis by simp
qed

lemma admit_request_rows:
  assumes "admit_request env request i mw mp d = (r, d')"
  shows "db_next_id d' = db_next_id d \<and> (db_rows d' = db_rows d \<or>
    witnesses_of request d < unat mw \<and> in_progress_of request d < unat mp \<and>
    (\<exists>now. db_rows d' = map (\<lambda>r. if startable i r then set_status WitnessGeneration now r else r) (db_rows d)))"
  using assms unfolding admit_request_def
proof (cases rule: db_call_cases)
  case (2 now)
  then show ?thesis
    by (auto simp: witnesses_of_def in_progress_of_def count_rows_def update_rows_def not_le split: if_splits)
qed simp

lemma tame_start: "tame (\<lambda>r. if startable i r then set_status WitnessGeneration now r else r)"
  by (auto simp: tame_def startable_def set_status_def row_ok_def in_group_def)

lemma db_ok_admit:
  assumes "db_ok mw d" "\<forall>r \<in> set (db_rows d). rq_id r = i \<longrightarrow> in_group request r"
  shows "db_ok mw (snd (admit_request env request i mw mp d))"
proof -
  obtain x d' where run: "admit_request env request i mw mp d = (x, d')" by fastforce
  from admit_request_rows [OF run] consider "db_rows d' = db_rows d" "db_next_id d' = db_next_id d"
    | now where "witnesses_of request d < unat mw" "db_next_id d' = db_next_id d"
      "db_rows d' = map (\<lambda>r. if startable i r then set_status WitnessGeneration now r else r) (db_rows d)" by blast
  then have "db_ok mw d'"
  proof cases
    case 1
    then show ?thesis using assms(1) db_ok_same by blast
  next
    case (2 now)
    let ?g = "\<lambda>r. if startable i r then set_status WitnessGeneration now r else r"
    have rows: "\<forall>r \<in> set (db_rows d). row_ok (?g r) \<and> rq_id (?g r) = rq_id r \<and> in_group r (?g r)"
      using assms(1) tame_start [of i now] unfolding db_ok_def tame_def by blast
    have ids: "map rq_id (map ?g (db_rows d)) = map rq_id (db_rows d)" using rows by auto
    have "witnesses_of q d' \<le> unat mw" for q
    proof (cases "in_group q request")
      case True
      then have "in_group q r \<longleftrightarrow> in_group request r" for r by (auto simp: in_group_def)
      then have q: "witnesses_of q = witnesses_of request" by (simp add: witnesses_of_def)
      have "witnesses_of request d' \<le> Suc (witnesses_of request d)"
        unfolding witnesses_of_def count_rows_def 2(3)
        by (rule count_started [where i = i]) (use assms(1) in \<open>auto simp: db_ok_def startable_def\<close>)
      with 2(1) q show ?thesis by simp
    next
      case False
      have "filter (\<lambda>r. rq_status r = WitnessGeneration \<and> in_group q r) (map ?g rs) =
          filter (\<lambda>r. rq_status r = WitnessGeneration \<and> in_group q r) rs" if "set rs \<subseteq> set (db_rows d)" for rs
        using that False assms(2) by (induction rs) (auto simp: startable_def set_status_def in_group_def)
      then have "witnesses_of q d' = witnesses_of q d" by (simp add: witnesses_of_def count_rows_def 2(3))
      then show ?thesis using assms(1) by (simp add: db_ok_def)
    qed
    moreover have "distinct (map rq_id (db_rows d'))" using assms(1) unfolding 2(3) ids db_ok_def by blast
    ultimately show ?thesis using assms(1) rows 2(2,3) by (auto simp: db_ok_def)
  qed
  with run show ?thesis by simp
qed

lemma invalidate_rows:
  assumes "invalidate_noncanonical_ranges env ids c l1 l2 d = (r, d')"
  shows "db_next_id d' = db_next_id d \<and> (db_rows d' = db_rows d \<and> (ids = [] \<or> (\<exists>e. r = Inl e)) \<or>
    (\<exists>now dm. db_rows dm = map (\<lambda>r. if stale_range ids r then invalidate_range now r else r) (db_rows d) \<and>
       db_next_id dm = db_next_id d \<and>
       db_rows d' = map (\<lambda>r. if stale_agg ids c l1 l2 dm r then invalidate_agg now r else r) (db_rows dm)))"
proof (cases "ids = []")
  case True
  with assms show ?thesis by (simp add: invalidate_noncanonical_ranges_def)
next
  case False
  with assms have "db_call env (\<lambda>now.
        seq (read_st (count_rows (stale_range ids))) (\<lambda>range_count.
        seq (write_st (update_rows (stale_range ids) (invalidate_range now))) (\<lambda>_.
        seq (read_st (\<lambda>d. count_rows (stale_agg ids c l1 l2 d) d)) (\<lambda>agg_count.
        seq (write_st (\<lambda>d. update_rows (stale_agg ids c l1 l2 d) (invalidate_agg now) d)) (\<lambda>_.
        ret (range_count, agg_count)))))) d = (r, d')" by (simp add: invalidate_noncanonical_ranges_def)
  then show ?thesis
  proof (cases rule: db_call_cases)
    case (2 now)
    let ?d = "d\<lparr>db_calls := Suc (db_calls d)\<rparr>"
    let ?dm = "update_rows (stale_range ids) (invalidate_range now) ?d"
    have "db_rows ?dm = map (\<lambda>r. if stale_range ids r then invalidate_range now r else r) (db_rows d)"
      "db_next_id ?dm = db_next_id d" by (simp_all add: update_rows_def)
    moreover have "d' = update_rows (stale_agg ids c l1 l2 ?dm) (invalidate_agg now) ?dm" using 2(1) by auto
    then have "db_next_id d' = db_next_id d"
      "db_rows d' = map (\<lambda>r. if stale_agg ids c l1 l2 ?dm r then invalidate_agg now r else r) (db_rows ?dm)"
      by (simp_all add: update_rows_def)
    ultimately show ?thesis by blast
  qed simp
qed

lemma db_ok_gentle_map:
  assumes "db_ok mw d" "gentle p f" "db_rows d' = map (\<lambda>r. if p r then f now r else r) (db_rows d)" "db_next_id d' = db_next_id d"
  shows "db_ok mw d'"
proof -
  let ?g = "\<lambda>r. if p r then f now r else r"
  have "tame ?g" "starts_none ?g" using gentle_tame [OF assms(2), of True now] by simp_all
  with assms show ?thesis by (intro db_ok_map [of mw d ?g d'])
qed

lemma db_ok_invalidate:
  assumes "db_ok mw d"
  shows "db_ok mw (snd (invalidate_noncanonical_ranges env ids c l1 l2 d))"
proof -
  obtain x d' where run: "invalidate_noncanonical_ranges env ids c l1 l2 d = (x, d')" by fastforce
  from invalidate_rows [OF run] consider "db_rows d' = db_rows d" "db_next_id d' = db_next_id d"
    | now dm where "db_rows dm = map (\<lambda>r. if stale_range ids r then invalidate_range now r else r) (db_rows d)"
      "db_next_id dm = db_next_id d" "db_next_id d' = db_next_id d"
      "db_rows d' = map (\<lambda>r. if stale_agg ids c l1 l2 dm r then invalidate_agg now r else r) (db_rows dm)" by blast
  then have "db_ok mw d'"
  proof cases
    case (2 now dm)
    have "db_ok mw dm" using assms gentle_rules(12) 2(1,2) by (rule db_ok_gentle_map)
    then show ?thesis using gentle_rules(13) 2(4) by (rule db_ok_gentle_map) (simp add: 2)
  qed (use assms db_ok_same in blast)
  with run show ?thesis by simp
qed

lemma db_ok_delete: "db_ok mw d \<Longrightarrow> db_ok mw (snd (delete_all_requests_with_statuses env statuses l1 l2 d))"
proof -
  assume ok: "db_ok mw d"
  have f: "db_ok mw (d\<lparr>db_rows := filter P (db_rows d), db_calls := n\<rparr>)" for P n
  proof -
    have "length (filter Q (filter P rs)) \<le> length (filter Q rs)" for Q and rs :: "request list"
      by (induction rs) auto
    then have "witnesses_of q (d\<lparr>db_rows := filter P (db_rows d), db_calls := n\<rparr>) \<le> witnesses_of q d" for q
      by (simp add: witnesses_of_def count_rows_def)
    then have "witnesses_of q (d\<lparr>db_rows := filter P (db_rows d), db_calls := n\<rparr>) \<le> unat mw" for q
      using ok by (meson db_ok_def le_trans)
    then show ?thesis using ok unfolding db_ok_def by (auto intro: distinct_map_filter)
  qed
  let ?keep = "\<lambda>r. \<not> (rq_status r \<in> set statuses \<and> valid r \<and> rq_l1_chain_id r = l1 \<and> rq_l2_chain_id r = l2)"
  have "db_ok mw (d\<lparr>db_calls := n, db_rows := filter ?keep (db_rows d)\<rparr>)" for n
    by (rule db_ok_same [OF f [where P = ?keep and n = 0]]) simp_all
  moreover have "db_ok mw (d\<lparr>db_calls := n\<rparr>)" for n by (rule db_ok_same [OF ok]) simp_all
  ultimately show ?thesis
    by (simp add: delete_all_requests_with_statuses_def db_call_def Let_def split: option.splits del: de_Morgan_conj)
qed

lemmas row_updates = update_l1_head_def finish_invalidated_request_def update_prove_duration_def update_proof_to_complete_def
  update_witnessgen_duration_def update_request_status_def update_request_to_prove_def update_request_to_prove_cluster_def
  update_request_to_relayed_def insert_execution_statistics_def cancel_prove_requests_with_different_commitment_config_def
  cancel_all_requests_with_statuses_def

lemma db_ok_step: "db_step mw d d' \<Longrightarrow> db_ok mw d \<Longrightarrow> db_ok mw d'"
proof (induction rule: db_step.induct)
  case (idle d' d)
  then show ?case by (metis db_ok_same)
next
  case (insert req d env)
  have "keeps (db_ok mw) (insert_request env req)"
    unfolding insert_request_def using insert(1) by (intro keeps_db_ok_call keeps_intros keeps_write db_ok_add_row)
  with insert(2) show ?case by (simp add: keeps_def)
next
  case (insert_all reqs d env)
  have "keeps (db_ok mw) (insert_requests env reqs)"
    unfolding insert_requests_def using insert_all(1) by (intro keeps_db_ok_call keeps_intros keeps_write db_ok_add_rows)
  with insert_all(2) show ?case by (simp add: keeps_def)
next
  case (start d i request env max_proofs)
  then show ?case by (intro db_ok_admit)
next
  case (invalidate d env ids c l1 l2)
  then show ?case by (rule db_ok_invalidate)
next
  case (delete d env statuses l1 l2)
  then show ?case by (rule db_ok_delete)
qed (simp_all only: row_updates snd_seq_ret db_ok_update_where gentle_rules)

text \<open>Every step changes rows tamely, drops only rows that are not invalidated, and appends rows.\<close>

lemma tame_id: "tame (\<lambda>r. r)"
  by (simp add: tame_def in_group_def)

lemma tame_comp: "tame g \<Longrightarrow> tame h \<Longrightarrow> tame (\<lambda>r. h (g r))"
  unfolding tame_def in_group_def by metis

definition row_change :: "db \<Rightarrow> db \<Rightarrow> bool" where
  "row_change d d' \<longleftrightarrow> (\<exists>g keep added. tame g \<and> (\<forall>r. \<not> valid r \<longrightarrow> keep r) \<and> db_rows d' = filter keep (map g (db_rows d)) @ added)"

lemma row_change_map: "tame g \<Longrightarrow> db_rows d' = map g (db_rows d) \<Longrightarrow> row_change d d'"
  unfolding row_change_def by (intro exI [of _ g] exI [of _ "\<lambda>_. True"] exI [of _ "[]"]) simp

lemma row_change_same: "db_rows d' = db_rows d \<Longrightarrow> row_change d d'"
  by (rule row_change_map [OF tame_id]) simp

lemma row_change_append: "db_rows d' = db_rows d @ added \<Longrightarrow> row_change d d'"
  unfolding row_change_def using tame_id by (intro exI [of _ "\<lambda>r. r"] exI [of _ "\<lambda>_. True"] exI [of _ added]) simp

lemma row_change_update: "gentle p f \<Longrightarrow> row_change d (snd (update_where env p f d))"
  using update_where_rows(1) [of env p f d] gentle_tame row_change_map by (metis (no_types, lifting))

lemma row_change_db_call:
  assumes "\<And>now. row_change (d\<lparr>db_calls := Suc (db_calls d)\<rparr>) (snd (f now (d\<lparr>db_calls := Suc (db_calls d)\<rparr>)))"
  shows "row_change d (snd (db_call env f d))"
proof (cases "db_fault env (db_calls d)")
  case None
  with assms [of "db_now env (db_calls d)"] show ?thesis by (simp add: db_call_def Let_def row_change_def)
next
  case (Some m)
  then show ?thesis by (intro row_change_same) (simp add: db_call_def Let_def)
qed

lemma fold_add_row_rows: "\<exists>added. db_rows (fold add_row reqs d) = db_rows d @ added"
proof (induction reqs arbitrary: d)
  case (Cons req reqs)
  from Cons [of "add_row req d"] show ?case by (auto simp: add_row_def)
qed simp

lemma db_step_row_change: "db_step mw d d' \<Longrightarrow> row_change d d'"
proof (induction rule: db_step.induct)
  case (idle d' d)
  then show ?case by (intro row_change_same)
next
  case (insert req d env)
  show ?case unfolding insert_request_def by (intro row_change_db_call) (simp add: row_change_append add_row_def)
next
  case (insert_all reqs d env)
  show ?case unfolding insert_requests_def
    by (intro row_change_db_call) (use fold_add_row_rows row_change_append in fastforce)
next
  case (start d i request env max_proofs)
  obtain x d' where run: "admit_request env request i mw max_proofs d = (x, d')" by fastforce
  show ?case using admit_request_rows [OF run] row_change_same row_change_map [OF tame_start] run by auto
next
  case (invalidate d env ids c l1 l2)
  obtain x d' where run: "invalidate_noncanonical_ranges env ids c l1 l2 d = (x, d')" by fastforce
  from invalidate_rows [OF run] consider "db_rows d' = db_rows d"
    | now dm where "db_rows dm = map (\<lambda>r. if stale_range ids r then invalidate_range now r else r) (db_rows d)"
      "db_rows d' = map (\<lambda>r. if stale_agg ids c l1 l2 dm r then invalidate_agg now r else r) (db_rows dm)" by blast
  then have "row_change d d'"
  proof cases
    case (2 now dm)
    let ?g = "\<lambda>r. if stale_range ids r then invalidate_range now r else r"
    let ?h = "\<lambda>r. if stale_agg ids c l1 l2 dm r then invalidate_agg now r else r"
    have "tame ?g" "tame ?h" using gentle_tame [OF gentle_rules(12), of True] gentle_tame [OF gentle_rules(13), of True] by simp_all
    then have "tame (\<lambda>r. ?h (?g r))" by (rule tame_comp)
    moreover have "db_rows d' = map (\<lambda>r. ?h (?g r)) (db_rows d)" using 2 by (simp add: comp_def)
    ultimately show ?thesis by (rule row_change_map)
  qed (rule row_change_same)
  with run show ?case by simp
next
  case (delete d env statuses l1 l2)
  show ?case unfolding delete_all_requests_with_statuses_def
  proof (intro row_change_db_call)
    fix now
    let ?d = "d\<lparr>db_calls := Suc (db_calls d)\<rparr>"
    let ?keep = "\<lambda>r. \<not> (rq_status r \<in> set statuses \<and> valid r \<and> rq_l1_chain_id r = l1 \<and> rq_l2_chain_id r = l2)"
    show "row_change ?d (snd (write_st (\<lambda>d. d\<lparr>db_rows := filter ?keep (db_rows d)\<rparr>) ?d))"
      unfolding row_change_def using tame_id by (intro exI [of _ "\<lambda>r. r"] exI [of _ ?keep] exI [of _ "[]"]) simp
  qed
qed (simp_all only: row_updates snd_seq_ret row_change_update gentle_rules)

lemma row_change_invalid:
  assumes "row_change d d'" "r \<in> set (db_rows d)" "row_ok r" "\<not> valid r"
  shows "\<exists>r' \<in> set (db_rows d'). rq_id r' = rq_id r \<and> \<not> valid r'"
proof -
  from assms(1) obtain g keep added where g: "tame g" "\<forall>r. \<not> valid r \<longrightarrow> keep r"
    "db_rows d' = filter keep (map g (db_rows d)) @ added" unfolding row_change_def by blast
  with assms(3,4) have "rq_id (g r) = rq_id r" "\<not> valid (g r)" unfolding tame_def by blast+
  moreover have "g r \<in> set (db_rows d')" using g assms(2) \<open>\<not> valid (g r)\<close> by simp
  ultimately show ?thesis by blast
qed

section \<open>Reachable databases\<close>

definition db_init :: "db \<Rightarrow> bool" where
  "db_init d \<longleftrightarrow> db_rows d = []"

lemma db_ok_init: "db_init d \<Longrightarrow> db_ok mw d"
  by (simp add: db_init_def db_ok_def witnesses_of_def count_rows_def)

interpretation requests: step_system db_init "db_step mw" "db_ok mw" for mw
  by unfold_locales (simp_all add: db_ok_init db_ok_step)

lemma invalid_stays:
  assumes "(db_step mw)\<^sup>*\<^sup>* d d'" "db_ok mw d" "r \<in> set (db_rows d)" "\<not> valid r"
  shows "\<exists>r' \<in> set (db_rows d'). rq_id r' = rq_id r \<and> \<not> valid r'"
  using assms(1)
proof (induction rule: rtranclp_induct)
  case base
  from assms show ?case by blast
next
  case (step x y)
  then obtain r' where r': "r' \<in> set (db_rows x)" "rq_id r' = rq_id r" "\<not> valid r'" by blast
  have "db_ok mw x" using requests.steps_inv step(1) assms(2) by blast
  then have "row_ok r'" using r' by (simp add: db_ok_def)
  from row_change_invalid [OF db_step_row_change [OF step(2)] r'(1) this r'(3)] r'(2) show ?case by metis
qed

lemma status_roundtrip: "status_from_i16 (status_as_i16 s) = Inr s"
  by (cases s) (simp_all add: status_as_i16_def status_from_i16_def)

lemma check_contiguous_chained:
  "check_contiguous s ps = Inr e \<longleftrightarrow> chained s e (map blocks_of ps)"
  by (induction ps arbitrary: s) (auto simp: try_bind_eq_Inr ensure_eq_Inr blocks_of_def)

lemma select_where_Inr:
  "select_where env p d = (Inr rs, d') \<Longrightarrow> rs = filter p (db_rows d) \<and> db_rows d' = db_rows d"
  by (auto simp: select_where_def db_call_def Let_def split: option.splits)

lemma select_where_ok:
  "db_fault env (db_calls d) = None \<Longrightarrow> select_where env p d = (Inr (filter p (db_rows d)), d\<lparr>db_calls := Suc (db_calls d)\<rparr>)"
  by (simp add: select_where_def db_call_def Let_def)

lemma head_option_Some: "head_option xs = Some x \<Longrightarrow> x \<in> set xs"
  by (auto simp: head_option_def split: list.splits)

lemma fetch_request_Inr:
  "fetch_request env i d = (Inr r, d') \<Longrightarrow> r \<in> set (db_rows d) \<and> rq_id r = i \<and> db_rows d' = db_rows d \<and> db_next_id d' = db_next_id d"
proof -
  assume "fetch_request env i d = (Inr r, d')"
  then obtain rs where rs: "select_where env (with_id i) d = (Inr rs, d')" "head_option rs = Some r"
    by (auto simp: fetch_request_def seq_eq_Inr ok_or_eq_Inr)
  from select_where_Inr [OF rs(1)] have "rs = filter (with_id i) (db_rows d)" "db_rows d' = db_rows d" by blast+
  moreover have "db_next_id d' = db_next_id d" using select_where_db(2) [of env "with_id i" d] rs(1) by simp
  ultimately show ?thesis using head_option_Some [OF rs(2)] by simp
qed

lemma distinct_id_unique: "distinct (map rq_id rs) \<Longrightarrow> r \<in> set rs \<Longrightarrow> r' \<in> set rs \<Longrightarrow> rq_id r = rq_id r' \<Longrightarrow> r = r'"
  by (metis distinct_map inj_onD)

lemma fetch_request_db: "db_rows (snd (fetch_request env i d)) = db_rows d"
  using select_where_db(1) [of env "with_id i" d] by (auto simp: fetch_request_def seq_def split: prod.splits sum.splits)

text \<open>A row that can start is the only one of its id.\<close>

lemma startable_only:
  assumes "distinct (map rq_id rs)" "count_rows (startable i) d = 1" "db_rows d = rs" "r \<in> set rs" "rq_id r = i"
  shows "startable i r \<and> (\<forall>x \<in> set rs. startable i x \<longleftrightarrow> rq_id x = i)"
proof -
  from assms(2,3) obtain x where "filter (startable i) rs = [x]" by (auto simp: count_rows_def length_Suc_conv)
  then have "x \<in> set (filter (startable i) rs)" by simp
  then have "x \<in> set rs" "startable i x" by auto
  then have "x = r" using assms(1,4,5) distinct_id_unique by (auto simp: startable_def)
  then have "startable i r" using \<open>startable i x\<close> by simp
  moreover have "startable i y \<longleftrightarrow> rq_id y = i" if "y \<in> set rs" for y
    using that assms(1,4,5) distinct_id_unique [of rs y r] \<open>startable i r\<close> by (auto simp: startable_def)
  ultimately show ?thesis by blast
qed

lemma admit_request_result:
  assumes "admit_request env r i mw mp d = (res, d')" "distinct (map rq_id (db_rows d))" "r \<in> set (db_rows d)" "rq_id r = i"
  shows "(res \<noteq> Inr True \<longrightarrow> db_rows d' = db_rows d) \<and>
    (res = Inr True \<longrightarrow> (\<exists>now. startable i r \<and>
       db_rows d' = map (\<lambda>x. if rq_id x = i then set_status WitnessGeneration now x else x) (db_rows d) \<and>
       witnesses_of r d' \<le> unat mw \<and> in_progress_of r d' \<le> unat mp))"
  using assms(1) unfolding admit_request_def
proof (cases rule: db_call_cases)
  case (2 now)
  let ?d = "d\<lparr>db_calls := Suc (db_calls d)\<rparr>"
  have same: "witnesses_of r ?d = witnesses_of r d" "in_progress_of r ?d = in_progress_of r d"
      "count_rows (startable i) ?d = count_rows (startable i) d"
    by (simp_all add: witnesses_of_def in_progress_of_def count_rows_def)
  show ?thesis
  proof (cases "witnesses_of r d \<ge> unat mw \<or> in_progress_of r d \<ge> unat mp")
    case True
    then show ?thesis using 2(1) same by auto
  next
    case False
    let ?g = "\<lambda>x. if startable i x then set_status WitnessGeneration now x else x"
    have res: "res = Inr (count_rows (startable i) d = 1)" "db_rows d' = map ?g (db_rows d)"
      using 2(1) same False by (auto simp: update_rows_def)
    have le: "witnesses_of r d' \<le> Suc (witnesses_of r d)" "in_progress_of r d' \<le> Suc (in_progress_of r d)"
      unfolding witnesses_of_def in_progress_of_def count_rows_def res(2)
      using assms(2) by (rule count_started, simp add: startable_def)+
    show ?thesis
    proof (cases "count_rows (startable i) d = 1")
      case True
      note only = startable_only [OF assms(2) True refl assms(3,4)]
      then have "map ?g (db_rows d) = map (\<lambda>x. if rq_id x = i then set_status WitnessGeneration now x else x) (db_rows d)" by simp
      with res True only le False show ?thesis by auto
    next
      case n1: False
      have "length (filter (startable i) (db_rows d)) \<le> 1"
        using count_one [OF assms(2), of "startable i" i] by (auto simp: startable_def)
      with n1 have "filter (startable i) (db_rows d) = []" by (simp add: count_rows_def le_Suc_eq)
      then have "\<forall>x \<in> set (db_rows d). \<not> startable i x" by (simp add: filter_empty_conv)
      then have "map ?g (db_rows d) = db_rows d" by (simp add: map_idI)
      with res n1 show ?thesis by simp
    qed
  qed
qed simp

text \<open>The second update of an invalidation sees the same aggregations as the state before the first.\<close>

lemma invalidate_twice:
  assumes "db_rows dm = map (\<lambda>r. if stale_range ids r then invalidate_range now r else r) (db_rows d)"
  shows "(let r' = if stale_range ids r then invalidate_range now r else r in
            if stale_agg ids c l1 l2 dm r' then invalidate_agg now r' else r') =
         (if stale_range ids r then invalidate_range now r else if stale_agg ids c l1 l2 d r then invalidate_agg now r else r)"
proof -
  let ?g = "\<lambda>r. if stale_range ids r then invalidate_range now r else r"
  have "rq_id (?g x) = rq_id x" "rq_start_block (?g x) = rq_start_block x" "rq_end_block (?g x) = rq_end_block x" for x
    by (simp_all add: invalidate_range_def)
  then have "stale_agg ids c l1 l2 dm agg \<longleftrightarrow> stale_agg ids c l1 l2 d agg" for agg
    unfolding stale_agg_def assms by (simp only: set_map bex_simps)
  moreover have "\<not> stale_agg ids c l1 l2 d (invalidate_range now r)" by (simp add: stale_agg_def invalidate_range_def)
  ultimately show ?thesis by (simp add: Let_def)
qed

section \<open>Properties\<close>

text \<open>C7: The table of requests stays well formed under every interleaving of the writes of the proposer and its proof tasks.
  Ids are unique; an invalidated request is never queued, complete or relayed; a complete or relayed request has its
  proof, a relayed one its transaction, and an aggregation request its checkpoint and prover address; and for each chain and
  commitment at most the configured number of requests is in witness generation.\<close>

theorem requests_reachable_ok:
  assumes "db_init d" "(db_step mw)\<^sup>*\<^sup>* d d'"
  shows "distinct (map rq_id (db_rows d')) \<and> (\<forall>req. witnesses_of req d' \<le> unat mw) \<and>
    (\<forall>r \<in> set (db_rows d').
      (\<not> valid r \<longrightarrow> rq_status r \<notin> {Unrequested, Complete, Relayed}) \<and>
      (rq_status r \<in> {Complete, Relayed} \<longrightarrow> rq_proof r \<noteq> None) \<and>
      (rq_status r = Relayed \<longrightarrow> rq_relay_tx_hash r \<noteq> None) \<and>
      (rq_type r = Aggregation \<longrightarrow> rq_checkpointed_l1_block_number r \<noteq> None \<and> rq_checkpointed_l1_block_hash r \<noteq> None \<and>
         rq_prover_address r \<noteq> None))"
proof -
  from assms have "db_ok mw d'" by (rule requests.reachable_inv)
  then show ?thesis unfolding db_ok_def row_ok_def by blast
qed

text \<open>Invalidation is final. Once a request is invalidated it stays in the table and invalidated whatever the proposer and its
  tasks do, and it is never again queued, complete or relayed.\<close>

theorem invalidation_final:
  assumes "db_init d" "(db_step mw)\<^sup>*\<^sup>* d d'" "r \<in> set (db_rows d')" "\<not> valid r" "(db_step mw)\<^sup>*\<^sup>* d' d''"
  shows "\<exists>r' \<in> set (db_rows d''). rq_id r' = rq_id r \<and> \<not> valid r' \<and> rq_status r' \<notin> {Unrequested, Complete, Relayed}"
proof -
  from assms(1,2) have ok: "db_ok mw d'" by (rule requests.reachable_inv)
  obtain r' where r': "r' \<in> set (db_rows d'')" "rq_id r' = rq_id r" "\<not> valid r'" using invalid_stays [OF assms(5) ok assms(3,4)] by blast
  have "db_ok mw d''" using assms(5) ok by (rule requests.steps_inv)
  then have "row_ok r'" using r'(1) by (simp add: db_ok_def)
  with r' show ?thesis unfolding row_ok_def by blast
qed

text \<open>C8: Admission respects the capacities. \<open>try_start_witness_generation\<close> changes nothing unless it returns true; then the
  request was queued and valid, is in witness generation now, no other row changed, and for its chain and commitment neither the
  requests in witness generation nor the requests in progress exceed their bounds.\<close>

theorem try_start_within_capacity:
  assumes "try_start_witness_generation env i mw mp d = (res, d')" "distinct (map rq_id (db_rows d))"
  shows "(res \<noteq> Inr True \<longrightarrow> db_rows d' = db_rows d) \<and>
    (res = Inr True \<longrightarrow> (\<exists>r now. r \<in> set (db_rows d) \<and> startable i r \<and>
       db_rows d' = map (\<lambda>x. if rq_id x = i then set_status WitnessGeneration now x else x) (db_rows d) \<and>
       witnesses_of r d' \<le> unat mw \<and> in_progress_of r d' \<le> unat mp))"
proof (cases "fetch_request env i d")
  case (Pair x d1)
  show ?thesis
  proof (cases x)
    case (Inl e)
    have "db_rows d1 = db_rows d" using fetch_request_db Pair by (metis snd_conv)
    moreover have "res = Inl e" "d' = d1" using Pair Inl assms(1) by (simp_all add: try_start_witness_generation_def seq_def)
    ultimately show ?thesis by simp
  next
    case (Inr r)
    with Pair have r: "r \<in> set (db_rows d)" "rq_id r = i" "db_rows d1 = db_rows d" using fetch_request_Inr [of env i d r d1] by auto
    have run: "admit_request env r i mw mp d1 = (res, d')"
      using assms(1) Pair Inr by (simp add: try_start_witness_generation_def seq_def)
    have "(res \<noteq> Inr True \<longrightarrow> db_rows d' = db_rows d1) \<and> (res = Inr True \<longrightarrow> (\<exists>now. startable i r \<and>
        db_rows d' = map (\<lambda>x. if rq_id x = i then set_status WitnessGeneration now x else x) (db_rows d1) \<and>
        witnesses_of r d' \<le> unat mw \<and> in_progress_of r d' \<le> unat mp))"
      by (rule admit_request_result [OF run]) (use r assms(2) in simp_all)
    then show ?thesis unfolding r(3) using r(1) by blast
  qed
qed

text \<open>Invalidation takes everything with it that depends on a stale range. After a successful
  \<open>invalidate_noncanonical_ranges\<close> the completed ranges named are invalidated; every active aggregation of the commitment that spans a
  named range is invalidated, at once when it was queued or complete and else as soon as its task ends; no other row changes.\<close>

theorem invalidate_cascades:
  assumes "invalidate_noncanonical_ranges env ids c l1 l2 d = (Inr counts, d')"
  shows "\<exists>now. db_rows d' = map (\<lambda>r. if stale_range ids r then invalidate_range now r
      else if stale_agg ids c l1 l2 d r then invalidate_agg now r else r) (db_rows d)"
proof -
  from invalidate_rows [OF assms(1)] consider "db_rows d' = db_rows d" "ids = []"
    | now dm where "db_rows dm = map (\<lambda>r. if stale_range ids r then invalidate_range now r else r) (db_rows d)"
      "db_rows d' = map (\<lambda>r. if stale_agg ids c l1 l2 dm r then invalidate_agg now r else r) (db_rows dm)"
    by blast
  then show ?thesis
  proof cases
    case 1
    then have "\<not> stale_range ids r" "\<not> stale_agg ids c l1 l2 d r" for r by (simp_all add: stale_range_def stale_agg_def)
    with 1 show ?thesis by simp
  next
    case (2 now dm)
    show ?thesis unfolding 2(2) unfolding 2(1) list.map_comp comp_def using invalidate_twice [OF 2(1), unfolded Let_def]
      by (intro exI [of _ now]) (simp only:)
  qed
qed

text \<open>The range proofs of an aggregation tile it. \<open>get_complete_aggregation_range_proofs\<close> returns proofs exactly when the complete, valid range
  proofs inside the requested blocks, in order, follow on each other from its first to its last block.\<close>

theorem aggregation_proofs_exact:
  assumes "db_fault env (db_calls d) = None"
  shows "fst (get_complete_aggregation_range_proofs env s e c l1 l2 d) = Inr ps \<longleftrightarrow>
    s < e \<and> ps = sort_key rq_start_block (filter (complete_range_in s e c l1 l2) (db_rows d)) \<and> chained s e (map blocks_of ps)"
proof (cases "s < e")
  case True
  let ?ps = "sort_key rq_start_block (filter (complete_range_in s e c l1 l2) (db_rows d))"
  have "get_complete_aggregation_range_proofs env s e c l1 l2 d =
      (try_bind (check_contiguous s ?ps) (\<lambda>n. try_bind (ensure (n = e) ''Aggregation range proofs do not cover'') (\<lambda>_. Inr ?ps)),
       d\<lparr>db_calls := Suc (db_calls d)\<rparr>)"
    using True assms
    by (auto simp: get_complete_aggregation_range_proofs_def get_consecutive_complete_range_proofs_def select_where_ok seq_def
      split: sum.splits)
  then show ?thesis using True check_contiguous_chained [of s ?ps] by (auto simp: try_bind_eq_Inr ensure_eq_Inr)
next
  case False
  then show ?thesis by (simp add: get_complete_aggregation_range_proofs_def)
qed

section \<open>Witnesses\<close>

definition sample_db_env :: db_env where
  "sample_db_env = \<lparr> db_fault = (\<lambda>_. None), db_now = int \<rparr>"

definition sample_db :: db where
  "sample_db = \<lparr> db_rows = [], db_next_id = 1, db_chain_locks = [], db_calls = 0 \<rparr>"

definition sample_commitment :: commitment_config where
  "sample_commitment = \<lparr> cc_range_vkey_commitment = 7, cc_agg_vkey_hash = 8, cc_rollup_config_hash = 9 \<rparr>"

definition sample_request :: "int \<Rightarrow> int \<Rightarrow> request" where
  "sample_request s e = new_range_request 0 Real s e 7 9 [] 1 2"

text \<open>One range request, proved; then its L1 head turns out not to be canonical.\<close>

definition sample_queued :: db where
  "sample_queued = snd (insert_request sample_db_env (sample_request 0 10) sample_db)"

definition sample_started :: db where
  "sample_started = snd (admit_request sample_db_env (sample_request 0 10) 1 1 5 sample_queued)"

definition sample_proving :: db where
  "sample_proving = snd (update_request_to_prove sample_db_env 1 77 sample_started)"

definition sample_complete :: db where
  "sample_complete = snd (update_proof_to_complete sample_db_env 1 [1, 2] sample_proving)"

definition sample_invalidated :: db where
  "sample_invalidated = snd (invalidate_noncanonical_ranges sample_db_env [1] sample_commitment 1 2 sample_complete)"

lemma sample_steps: "(db_step 1)\<^sup>*\<^sup>* sample_db sample_complete" "(db_step 1)\<^sup>*\<^sup>* sample_db sample_invalidated"
proof -
  have "fresh_request (sample_request 0 10)" by code_simp
  then have "db_step 1 sample_db sample_queued" unfolding sample_queued_def by (rule db_step.insert)
  moreover have "\<forall>r \<in> set (db_rows sample_queued). rq_id r = 1 \<longrightarrow> in_group (sample_request 0 10) r" by code_simp
  then have "db_step 1 sample_queued sample_started" unfolding sample_started_def by (rule db_step.start)
  moreover have "db_step 1 sample_started sample_proving" unfolding sample_proving_def by (rule db_step.prove)
  moreover have "db_step 1 sample_proving sample_complete" unfolding sample_complete_def by (rule db_step.complete)
  ultimately show c: "(db_step 1)\<^sup>*\<^sup>* sample_db sample_complete" by (meson converse_rtranclp_into_rtranclp rtranclp.rtrancl_refl)
  have "db_step 1 sample_complete sample_invalidated" unfolding sample_invalidated_def by (rule db_step.invalidate)
  with c show "(db_step 1)\<^sup>*\<^sup>* sample_db sample_invalidated" by (rule rtranclp.rtrancl_into_rtrancl)
qed

lemma sample_init: "db_init sample_db"
  by (simp add: db_init_def sample_db_def)

theorem requests_reachable_ok_witness:
  "map (\<lambda>r. (rq_id r, rq_status r)) (db_rows sample_complete) = [(1, Complete)] \<and> witnesses_of (sample_request 0 10) sample_complete \<le> 1"
proof
  show "map (\<lambda>r. (rq_id r, rq_status r)) (db_rows sample_complete) = [(1, Complete)]" by code_simp
  from requests_reachable_ok [OF sample_init sample_steps(1)] show "witnesses_of (sample_request 0 10) sample_complete \<le> 1" by simp
qed

theorem invalidation_final_witness:
  "\<exists>r \<in> set (db_rows (snd (update_request_to_prove sample_db_env 1 78 sample_invalidated))).
     rq_id r = 1 \<and> \<not> valid r \<and> rq_status r \<notin> {Unrequested, Complete, Relayed}"
proof -
  have "list_ex (\<lambda>r. rq_id r = 1 \<and> \<not> valid r) (db_rows sample_invalidated)" by code_simp
  then obtain r where r: "r \<in> set (db_rows sample_invalidated)" "rq_id r = 1" "\<not> valid r" by (auto simp: list_ex_iff)
  have "(db_step 1)\<^sup>*\<^sup>* sample_invalidated (snd (update_request_to_prove sample_db_env 1 78 sample_invalidated))"
    by (intro r_into_rtranclp db_step.prove)
  from invalidation_final [OF sample_init sample_steps(2) r(1,3) this] show ?thesis by (simp only: r(2))
qed

theorem try_start_within_capacity_witness:
  "try_start_witness_generation sample_db_env 1 1 5 sample_queued =
     (Inr True, snd (try_start_witness_generation sample_db_env 1 1 5 sample_queued)) \<and>
   in_progress_of (hd (db_rows sample_queued)) (snd (try_start_witness_generation sample_db_env 1 1 5 sample_queued)) \<le> 5"
proof -
  let ?d = "snd (try_start_witness_generation sample_db_env 1 1 5 sample_queued)"
  have run: "try_start_witness_generation sample_db_env 1 1 5 sample_queued = (Inr True, ?d)"
    by (rule prod_eqI, code_simp) simp
  have "distinct (map rq_id (db_rows sample_queued))" by code_simp
  from try_start_within_capacity [OF run this] obtain r where "r \<in> set (db_rows sample_queued)" "in_progress_of r ?d \<le> unat (5 :: u64)"
    by blast
  moreover have "db_rows sample_queued = [hd (db_rows sample_queued)]" by code_simp
  then have "r = hd (db_rows sample_queued)" if "r \<in> set (db_rows sample_queued)" for r
    using that by (metis empty_iff list.set(1) set_ConsD)
  ultimately have "in_progress_of (hd (db_rows sample_queued)) ?d \<le> unat (5 :: u64)" by blast
  with run show ?thesis by simp
qed

theorem invalidate_cascades_witness:
  "\<exists>now. db_rows sample_invalidated = map (\<lambda>r. if stale_range [1] r then invalidate_range now r
      else if stale_agg [1] sample_commitment 1 2 sample_complete r then invalidate_agg now r else r) (db_rows sample_complete)"
proof -
  have "invalidate_noncanonical_ranges sample_db_env [1] sample_commitment 1 2 sample_complete = (Inr (1, 0), sample_invalidated)"
    unfolding sample_invalidated_def by (rule prod_eqI, code_simp) simp
  then show ?thesis by (rule invalidate_cascades)
qed

theorem aggregation_proofs_exact_witness:
  "fst (get_complete_aggregation_range_proofs sample_db_env 0 10 sample_commitment 1 2 sample_complete) =
     Inr (db_rows sample_complete)"
proof -
  have "db_fault sample_db_env (db_calls sample_complete) = None" by code_simp
  moreover have "db_rows sample_complete =
      sort_key rq_start_block (filter (complete_range_in 0 10 sample_commitment 1 2) (db_rows sample_complete))" by code_simp
  moreover have "chained 0 10 (map blocks_of (db_rows sample_complete))" by code_simp
  ultimately show ?thesis by (simp only: aggregation_proofs_exact) simp
qed

end
