(* ===== verification/Programs.thy ===== *)
theory Programs
  imports HashMaps
begin

text \<open>
  The programs that run inside the proof system, and what the host prepares for them:

  \<^item> \<open>programs/aggregation/src/main.rs\<close>: the aggregation program, as \<open>aggregate\<close>;
  \<^item> \<open>programs/range/utils/src/lib.rs\<close>, \<open>utils/client/src/witness/executor.rs\<close> and \<open>utils/client/src/client.rs\<close>: the frame of the
    range program around derivation and execution;
  \<^item> \<open>utils/client/src/witness/preimage_store.rs\<close>, \<open>witness/mod.rs\<close> and \<open>oracle/blob_provider.rs\<close>: the witness data;
  \<^item> the L1 header queries of \<open>utils/host/src/fetcher.rs\<close> that assemble the headers for an aggregation.

  Hash functions, proof verification, serialization, KZG verification, boot-info loading and the derivation pipeline belong
  to other crates: they are arguments. A failed \<open>assert!\<close>, \<open>unwrap\<close> or \<open>expect\<close> of a program is a panic, which means that no
  proof exists for that input.
\<close>

section \<open>Boot infos\<close>

record boot_info_struct =
  bis_l1Head :: b256
  bis_l2PreRoot :: b256
  bis_l2PostRoot :: b256
  bis_l2BlockNumber :: u64
  bis_rollupConfigHash :: b256

record aggregation_inputs =
  ai_boot_infos :: "boot_info_struct list"
  ai_latest_l1_checkpoint_head :: b256
  ai_multi_block_vkey :: "u32 list"
  ai_prover_address :: address

record aggregation_outputs =
  ao_l1Head :: b256
  ao_l2PreRoot :: b256
  ao_l2PostRoot :: b256
  ao_l2BlockNumber :: u64
  ao_rollupConfigHash :: b256
  ao_multiBlockVKey :: b256
  ao_proverAddress :: address

text \<open>An L1 header as the consensus layer encodes it; the fields no program reads are its content.\<close>

record consensus_header =
  ch_number :: u64
  ch_parent_hash :: b256
  ch_content :: "u8 list"

section \<open>The aggregation program\<close>

text \<open>The code of other crates: header hashing, the digest of a serialized boot info, the recursive verifier (which
  returns or panics), and the byte form of a verification key.\<close>

record agg_env =
  hash_slow :: "consensus_header \<Rightarrow> b256"
  pv_digest :: "boot_info_struct \<Rightarrow> b256"
  verify_sp1_proof :: "u32 list \<Rightarrow> b256 \<Rightarrow> unit result"
  words_to_bytes_be :: "u32 list \<Rightarrow> b256"

definition assert_that :: "bool \<Rightarrow> string \<Rightarrow> unit result" where
  "assert_that b m = (if b then Inr () else Inl (Panic m))"

fun check_windows :: "boot_info_struct list \<Rightarrow> unit result" where
  "check_windows (prev # cur # rest) =
     try_bind (assert_that (bis_l2PostRoot prev = bis_l2PreRoot cur) ''l2PostRoot = l2PreRoot'') (\<lambda>_.
     try_bind (assert_that (bis_rollupConfigHash prev = bis_rollupConfigHash cur) ''rollupConfigHash'') (\<lambda>_.
     check_windows (cur # rest)))"
| "check_windows _ = Inr ()"

fun verify_all :: "agg_env \<Rightarrow> u32 list \<Rightarrow> boot_info_struct list \<Rightarrow> unit result" where
  "verify_all env vkey [] = Inr ()"
| "verify_all env vkey (b # bs) = try_bind (verify_sp1_proof env vkey (pv_digest env b)) (\<lambda>_. verify_all env vkey bs)"

definition l1_heads_map :: "boot_info_struct list \<Rightarrow> (b256, bool) hashmap" where
  "l1_heads_map bs = fold (\<lambda>b m. hm_insert (bis_l1Head b) False m) bs []"

fun walk_headers :: "agg_env \<Rightarrow> b256 \<Rightarrow> (b256, bool) hashmap \<Rightarrow> consensus_header list \<Rightarrow> (b256, bool) hashmap result" where
  "walk_headers env current_hash m [] = Inr m"
| "walk_headers env current_hash m (h # hs) =
     try_bind (assert_that (current_hash = hash_slow env h) ''current_hash = header.hash_slow()'') (\<lambda>_.
     walk_headers env (ch_parent_hash h)
       (case hm_get m current_hash of None \<Rightarrow> m | Some _ \<Rightarrow> hm_insert current_hash True m) hs)"

definition aggregate :: "agg_env \<Rightarrow> aggregation_inputs \<Rightarrow> consensus_header list \<Rightarrow> aggregation_outputs result" where
  "aggregate env inputs headers =
     (let bs = ai_boot_infos inputs in
      try_bind (assert_that (bs \<noteq> []) ''boot_infos not empty'') (\<lambda>_.
      try_bind (check_windows bs) (\<lambda>_.
      try_bind (verify_all env (ai_multi_block_vkey inputs) bs) (\<lambda>_.
      try_bind (walk_headers env (ai_latest_l1_checkpoint_head inputs) (l1_heads_map bs) (rev headers)) (\<lambda>found.
      try_bind (assert_that (\<forall>b \<in> set (hm_values found). b) ''l1 head not found in the provided header chain'') (\<lambda>_.
      let first_boot_info = hd bs; last_boot_info = last bs in
      Inr \<lparr> ao_l1Head = ai_latest_l1_checkpoint_head inputs, ao_l2PreRoot = bis_l2PreRoot first_boot_info,
            ao_l2PostRoot = bis_l2PostRoot last_boot_info, ao_l2BlockNumber = bis_l2BlockNumber last_boot_info,
            ao_rollupConfigHash = bis_rollupConfigHash last_boot_info,
            ao_multiBlockVKey = words_to_bytes_be env (ai_multi_block_vkey inputs),
            ao_proverAddress = ai_prover_address inputs \<rparr>))))))"

section \<open>Headers for an aggregation\<close>

text \<open>\<open>get_l1_header\<close> by hash and by number, as the fetcher calls it.\<close>

record l1_headers =
  l1_header_by_hash :: "b256 \<Rightarrow> consensus_header result"
  l1_header_by_number :: "u64 \<Rightarrow> consensus_header result"

fun earliest_loop :: "l1_headers \<Rightarrow> u64 \<Rightarrow> consensus_header option \<Rightarrow> boot_info_struct list \<Rightarrow> consensus_header option result" where
  "earliest_loop rpc earliest_num earliest [] = Inr earliest"
| "earliest_loop rpc earliest_num earliest (b # bs) =
     try_bind (l1_header_by_hash rpc (bis_l1Head b)) (\<lambda>h.
     if ch_number h < earliest_num then earliest_loop rpc (ch_number h) (Some h) bs
     else earliest_loop rpc earliest_num earliest bs)"

definition get_earliest_l1_head_in_batch :: "l1_headers \<Rightarrow> boot_info_struct list \<Rightarrow> consensus_header result" where
  "get_earliest_l1_head_in_batch rpc bs =
     try_bind (earliest_loop rpc (- 1) None bs) (\<lambda>h.
     case h of None \<Rightarrow> Inl (Panic ''called Option::unwrap() on a None value'') | Some x \<Rightarrow> Inr x)"

fun latest_loop :: "l1_headers \<Rightarrow> u64 \<Rightarrow> consensus_header option \<Rightarrow> boot_info_struct list \<Rightarrow> consensus_header option result" where
  "latest_loop rpc latest_num latest [] = Inr latest"
| "latest_loop rpc latest_num latest (b # bs) =
     try_bind (l1_header_by_hash rpc (bis_l1Head b)) (\<lambda>h.
     if ch_number h > latest_num then latest_loop rpc (ch_number h) (Some h) bs
     else latest_loop rpc latest_num latest bs)"

definition get_latest_l1_head_in_batch :: "l1_headers \<Rightarrow> boot_info_struct list \<Rightarrow> consensus_header result" where
  "get_latest_l1_head_in_batch rpc bs =
     try_bind (latest_loop rpc 0 None bs) (\<lambda>h. ok_or ''Failed to get latest L1 header'' h)"

definition u64_range :: "u64 \<Rightarrow> u64 \<Rightarrow> u64 list" where
  "u64_range start end = map of_nat [unat start ..< Suc (unat end)]"

definition fetch_headers_in_range :: "l1_headers \<Rightarrow> u64 \<Rightarrow> u64 \<Rightarrow> consensus_header list result" where
  "fetch_headers_in_range rpc start end = try_map (l1_header_by_number rpc) (u64_range start end)"

definition get_header_preimages :: "l1_headers \<Rightarrow> boot_info_struct list \<Rightarrow> b256 \<Rightarrow> consensus_header list result" where
  "get_header_preimages rpc boot_infos checkpoint_block_hash =
     try_bind (get_earliest_l1_head_in_batch rpc boot_infos) (\<lambda>start_header.
     try_bind (l1_header_by_hash rpc checkpoint_block_hash) (\<lambda>latest_header.
     fetch_headers_in_range rpc (ch_number start_header) (ch_number latest_header)))"

text \<open>The inputs the host writes for the aggregation program: only compressed proofs are accepted.\<close>

datatype sp1_proof = Core | Compressed | Plonk | Groth16

definition get_agg_proof_stdin ::
  "sp1_proof list \<Rightarrow> boot_info_struct list \<Rightarrow> consensus_header list \<Rightarrow> u32 list \<Rightarrow> b256 \<Rightarrow> address \<Rightarrow>
   (aggregation_inputs \<times> consensus_header list) result" where
  "get_agg_proof_stdin proofs boot_infos headers vkey checkpoint prover =
     (if \<exists>p \<in> set proofs. p \<noteq> Compressed then Inl (Err ''Invalid proof passed as compressed proof!'')
      else Inr (\<lparr> ai_boot_infos = boot_infos, ai_latest_l1_checkpoint_head = checkpoint, ai_multi_block_vkey = vkey,
                  ai_prover_address = prover \<rparr>, headers))"

section \<open>What an aggregation proves\<close>

text \<open>Boot infos that follow on each other, from one root to another, under one configuration.\<close>

fun sequential :: "b256 \<Rightarrow> b256 \<Rightarrow> b256 \<Rightarrow> boot_info_struct list \<Rightarrow> bool" where
  "sequential cfg pre post [] \<longleftrightarrow> pre = post"
| "sequential cfg pre post (b # bs) \<longleftrightarrow>
     bis_rollupConfigHash b = cfg \<and> bis_l2PreRoot b = pre \<and> sequential cfg (bis_l2PostRoot b) post bs"

lemma assert_that_Inr [simp, result_simps]: "assert_that b m = Inr u \<longleftrightarrow> b"
  by (simp add: assert_that_def)

lemma check_windows_sequential:
  "check_windows (b # bs) = Inr u \<longleftrightarrow> sequential (bis_rollupConfigHash b) (bis_l2PreRoot b) (bis_l2PostRoot (last (b # bs))) (b # bs)"
proof (induction bs arbitrary: b)
  case (Cons c bs)
  have "check_windows (b # c # bs) = Inr u \<longleftrightarrow>
      bis_l2PostRoot b = bis_l2PreRoot c \<and> bis_rollupConfigHash b = bis_rollupConfigHash c \<and> check_windows (c # bs) = Inr u"
    by (simp add: try_bind_eq_Inr)
  also have "\<dots> \<longleftrightarrow> bis_l2PostRoot b = bis_l2PreRoot c \<and> bis_rollupConfigHash b = bis_rollupConfigHash c \<and>
      sequential (bis_rollupConfigHash c) (bis_l2PreRoot c) (bis_l2PostRoot (last (c # bs))) (c # bs)"
    by (simp only: Cons.IH)
  also have "\<dots> \<longleftrightarrow> sequential (bis_rollupConfigHash b) (bis_l2PreRoot b) (bis_l2PostRoot (last (b # c # bs))) (b # c # bs)"
    (is "?l \<longleftrightarrow> ?r")
  proof
    assume ?l
    then show ?r by simp
  next
    assume ?r
    then have "bis_rollupConfigHash c = bis_rollupConfigHash b" "bis_l2PreRoot c = bis_l2PostRoot b"
      "sequential (bis_rollupConfigHash b) (bis_l2PostRoot c) (bis_l2PostRoot (last (c # bs))) bs" by simp_all
    then show ?l by simp
  qed
  finally show ?case .
qed simp

lemma verify_all_Inr: "verify_all env vkey bs = Inr u \<longleftrightarrow> (\<forall>b \<in> set bs. verify_sp1_proof env vkey (pv_digest env b) = Inr ())"
  by (induction bs) (auto simp: try_bind_eq_Inr)

lemma l1_heads_fold:
  "hm_wf m \<Longrightarrow> hm_wf (fold (\<lambda>b m. hm_insert (bis_l1Head b) False m) bs m) \<and>
   hm_get (fold (\<lambda>b m. hm_insert (bis_l1Head b) False m) bs m) k = (if k \<in> bis_l1Head ` set bs then Some False else hm_get m k)"
proof (induction bs arbitrary: m)
  case (Cons b bs)
  have "hm_wf (hm_insert (bis_l1Head b) False m)" using Cons.prems by (rule hm.invar_insert)
  from Cons.IH [OF this] show ?case by auto
qed simp

lemma l1_heads_map_get:
  "hm_wf (l1_heads_map bs)" "hm_get (l1_heads_map bs) k = (if k \<in> bis_l1Head ` set bs then Some False else None)"
  using l1_heads_fold [of "[]" bs k] by (auto simp: l1_heads_map_def)

text \<open>Headers, newest first, in which every parent hash is the hash of the next header.\<close>

fun hash_linked :: "(consensus_header \<Rightarrow> b256) \<Rightarrow> b256 \<Rightarrow> consensus_header list \<Rightarrow> bool" where
  "hash_linked hash tip [] \<longleftrightarrow> True"
| "hash_linked hash tip (h # hs) \<longleftrightarrow> hash h = tip \<and> hash_linked hash (ch_parent_hash h) hs"

lemma walk_headers_Inr:
  assumes "hm_wf m"
  shows "walk_headers env tip m hs = Inr m' \<Longrightarrow> hash_linked (hash_slow env) tip hs \<and> hm_wf m' \<and>
    (\<forall>k. hm_get m' k = (if hm_get m k \<noteq> None \<and> k \<in> hash_slow env ` set hs then Some True else hm_get m k))"
  using assms
proof (induction hs arbitrary: tip m)
  case (Cons h hs)
  let ?m = "case hm_get m tip of None \<Rightarrow> m | Some _ \<Rightarrow> hm_insert tip True m"
  have wf: "hm_wf ?m" using Cons.prems(2) hm.invar_insert [OF Cons.prems(2)] by (cases "hm_get m tip") simp_all
  from Cons.prems(1) have tip: "tip = hash_slow env h" and "walk_headers env (ch_parent_hash h) ?m hs = Inr m'"
    by (auto simp: try_bind_eq_Inr)
  from Cons.IH [OF this(2) wf] tip show ?case by (auto split: option.splits)
qed auto

lemma walk_headers_linked: "hash_linked (hash_slow env) tip hs \<Longrightarrow> \<exists>m'. walk_headers env tip m hs = Inr m'"
  by (induction hs arbitrary: tip m) (auto simp: try_bind_eq_Inr)

definition agg_accepts :: "agg_env \<Rightarrow> aggregation_inputs \<Rightarrow> consensus_header list \<Rightarrow> bool" where
  "agg_accepts env inputs headers \<longleftrightarrow>
     (let bs = ai_boot_infos inputs in bs \<noteq> [] \<and>
      sequential (bis_rollupConfigHash (hd bs)) (bis_l2PreRoot (hd bs)) (bis_l2PostRoot (last bs)) bs \<and>
      (\<forall>b \<in> set bs. verify_sp1_proof env (ai_multi_block_vkey inputs) (pv_digest env b) = Inr ()) \<and>
      hash_linked (hash_slow env) (ai_latest_l1_checkpoint_head inputs) (rev headers) \<and>
      bis_l1Head ` set bs \<subseteq> hash_slow env ` set headers)"

lemma all_found_iff:
  assumes "hm_wf m" "\<And>k. hm_get m k = (if k \<in> A then Some (k \<in> B) else None)"
  shows "(\<forall>b \<in> set (hm_values m). b) \<longleftrightarrow> A \<subseteq> B"
proof
  assume all: "\<forall>b \<in> set (hm_values m). b"
  show "A \<subseteq> B"
  proof
    fix k assume "k \<in> A"
    with assms(2) have "hm_get m k = Some (k \<in> B)" by simp
    then have "(k \<in> B) \<in> set (hm_values m)" by (rule hm_get_imp_value)
    with all show "k \<in> B" by blast
  qed
next
  assume sub: "A \<subseteq> B"
  show "\<forall>b \<in> set (hm_values m). b"
  proof
    fix b assume "b \<in> set (hm_values m)"
    then obtain k where "(k, b) \<in> set m" by auto
    then have "hm_get m k = Some b" using hm_value_imp_get assms(1) by fast
    with assms(2) sub show b by (auto split: if_splits)
  qed
qed

definition agg_output :: "agg_env \<Rightarrow> aggregation_inputs \<Rightarrow> aggregation_outputs" where
  "agg_output env inputs = \<lparr> ao_l1Head = ai_latest_l1_checkpoint_head inputs,
     ao_l2PreRoot = bis_l2PreRoot (hd (ai_boot_infos inputs)), ao_l2PostRoot = bis_l2PostRoot (last (ai_boot_infos inputs)),
     ao_l2BlockNumber = bis_l2BlockNumber (last (ai_boot_infos inputs)),
     ao_rollupConfigHash = bis_rollupConfigHash (last (ai_boot_infos inputs)),
     ao_multiBlockVKey = words_to_bytes_be env (ai_multi_block_vkey inputs), ao_proverAddress = ai_prover_address inputs \<rparr>"

lemma aggregate_iff:
  "aggregate env inputs headers = Inr out \<longleftrightarrow> agg_accepts env inputs headers \<and> out = agg_output env inputs"
proof -
  let ?bs = "ai_boot_infos inputs" and ?tip = "ai_latest_l1_checkpoint_head inputs"
  let ?walk = "walk_headers env ?tip (l1_heads_map ?bs) (rev headers)"
  let ?heads = "bis_l1Head ` set ?bs" and ?hashes = "hash_slow env ` set headers"
  have found: "(\<forall>b \<in> set (hm_values m). b) \<longleftrightarrow> ?heads \<subseteq> ?hashes" if "?walk = Inr m" for m
  proof (rule all_found_iff)
    note spec = walk_headers_Inr [OF l1_heads_map_get(1) that]
    then show "hm_wf m" by blast
    show "hm_get m k = (if k \<in> ?heads then Some (k \<in> ?hashes) else None)" for k
      using spec by (auto simp: l1_heads_map_get(2))
  qed
  have walk: "(\<exists>m. ?walk = Inr m \<and> (\<forall>b \<in> set (hm_values m). b)) \<longleftrightarrow>
    hash_linked (hash_slow env) ?tip (rev headers) \<and> ?heads \<subseteq> ?hashes"
    using found walk_headers_linked [of env ?tip "rev headers" "l1_heads_map ?bs"] walk_headers_Inr [OF l1_heads_map_get(1)] by blast
  have windows: "check_windows ?bs = Inr () \<longleftrightarrow>
    sequential (bis_rollupConfigHash (hd ?bs)) (bis_l2PreRoot (hd ?bs)) (bis_l2PostRoot (last ?bs)) ?bs" if "?bs \<noteq> []"
    using check_windows_sequential [of "hd ?bs" "tl ?bs"] that by simp
  have "aggregate env inputs headers = Inr out \<longleftrightarrow> ?bs \<noteq> [] \<and> check_windows ?bs = Inr () \<and>
      verify_all env (ai_multi_block_vkey inputs) ?bs = Inr () \<and> (\<exists>m. ?walk = Inr m \<and> (\<forall>b \<in> set (hm_values m). b)) \<and>
      out = agg_output env inputs"
    unfolding aggregate_def agg_output_def Let_def try_bind_eq_Inr assert_that_Inr by auto
  then show ?thesis
    unfolding walk verify_all_Inr agg_accepts_def Let_def using windows by blast
qed

section \<open>The host prepares what the program accepts\<close>

text \<open>An L1 node on one chain: \<open>chain i\<close> is the header of height \<open>i\<close>, up to the head.\<close>

definition canonical_rpc :: "(consensus_header \<Rightarrow> b256) \<Rightarrow> l1_headers \<Rightarrow> (nat \<Rightarrow> consensus_header) \<Rightarrow> nat \<Rightarrow> bool" where
  "canonical_rpc hash rpc chain head \<longleftrightarrow> head < 2 ^ 64 - 1 \<and>
     (\<forall>i \<le> head. l1_header_by_number rpc (of_nat i) = Inr (chain i) \<and> l1_header_by_hash rpc (hash (chain i)) = Inr (chain i) \<and>
        ch_number (chain i) = of_nat i) \<and>
     (\<forall>i < head. ch_parent_hash (chain (Suc i)) = hash (chain i))"

lemma unat_of_nat_u64: "i < 2 ^ 64 \<Longrightarrow> unat (of_nat i :: u64) = i"
  by (simp add: unsigned_of_nat take_bit_nat_eq_self_iff)

lemma canonical_rpcD:
  assumes "canonical_rpc hash rpc chain head" "i \<le> head"
  shows "l1_header_by_number rpc (of_nat i) = Inr (chain i)" "l1_header_by_hash rpc (hash (chain i)) = Inr (chain i)"
    "ch_number (chain i) = of_nat i" "unat (ch_number (chain i)) = i" "ch_number (chain i) < - 1"
proof -
  from assms show num: "l1_header_by_number rpc (of_nat i) = Inr (chain i)" "l1_header_by_hash rpc (hash (chain i)) = Inr (chain i)"
    "ch_number (chain i) = of_nat i" by (auto simp: canonical_rpc_def)
  have i: "i < 2 ^ 64 - 1" using assms by (auto simp: canonical_rpc_def)
  then show u: "unat (ch_number (chain i)) = i" using num(3) unat_of_nat_u64 [of i] by simp
  show "ch_number (chain i) < - 1"
    using i u by (simp add: word_less_nat_alt unsigned_minus_1_eq_mask mask_eq_exp_minus_1)
qed

lemma fetch_canonical:
  assumes "canonical_rpc hash rpc chain head" "e \<le> head" "s \<le> e"
  shows "fetch_headers_in_range rpc (of_nat s) (of_nat e) = Inr (map chain [s..<Suc e])"
proof -
  have "head < 2 ^ 64" using assms(1) by (simp add: canonical_rpc_def)
  then have r: "u64_range (of_nat s) (of_nat e) = map of_nat [s..<Suc e]"
    using assms(2,3) by (simp add: u64_range_def unat_of_nat_u64)
  have "list_all2 (\<lambda>x y. l1_header_by_number rpc x = Inr y) (map of_nat [s..<Suc e]) (map chain [s..<Suc e])"
    unfolding list_all2_map1 list_all2_map2
    by (rule list_all2_all_nthI) (use canonical_rpcD(1) [OF assms(1)] assms(2,3) in \<open>auto simp del: upt_Suc of_nat_add\<close>)
  then show ?thesis by (simp add: fetch_headers_in_range_def try_map_eq_Inr r)
qed

lemma hash_linked_canonical:
  assumes "canonical_rpc hash rpc chain head" "e \<le> head" "s \<le> e"
  shows "hash_linked hash (hash (chain e)) (rev (map chain [s..<Suc e]))"
  using assms(2,3)
proof (induction e)
  case (Suc e)
  show ?case
  proof (cases "s \<le> e")
    case True
    have "ch_parent_hash (chain (Suc e)) = hash (chain e)" using assms(1) Suc.prems by (simp add: canonical_rpc_def)
    with Suc True show ?thesis by simp
  qed (use Suc.prems in simp)
qed simp

lemma earliest_canonical:
  assumes "canonical_rpc hash rpc chain head" "\<forall>b \<in> set bs. \<exists>i \<le> c. bis_l1Head b = hash (chain i)" "c \<le> head"
    and "bs \<noteq> [] \<or> e \<noteq> None" "case e of None \<Rightarrow> num = - 1 | Some h \<Rightarrow> (\<exists>j \<le> c. h = chain j \<and> num = of_nat j)"
  shows "\<exists>j \<le> c. earliest_loop rpc num e bs = Inr (Some (chain j)) \<and>
     (\<forall>b \<in> set bs. \<exists>i. j \<le> i \<and> i \<le> c \<and> bis_l1Head b = hash (chain i)) \<and> unat (ch_number (chain j)) \<le> unat num"
  using assms(2,4,5)
proof (induction bs arbitrary: num e)
  case Nil
  then obtain j where "e = Some (chain j)" "j \<le> c" "num = of_nat j" by auto
  moreover have "unat (ch_number (chain j)) \<le> unat num"
    using calculation canonical_rpcD(3) [OF assms(1)] assms(3) by simp
  ultimately show ?case by auto
next
  case (Cons b bs)
  then obtain i where i: "i \<le> c" "bis_l1Head b = hash (chain i)" by auto
  have ih: "i \<le> head" using i assms(3) by simp
  have get: "l1_header_by_hash rpc (bis_l1Head b) = Inr (chain i)" using canonical_rpcD(2) [OF assms(1) ih] i by simp
  show ?case
  proof (cases "ch_number (chain i) < num")
    case True
    from Cons.IH [of "Some (chain i)" "ch_number (chain i)"] Cons.prems i canonical_rpcD(3) [OF assms(1) ih]
    obtain j where j: "j \<le> c" "earliest_loop rpc (ch_number (chain i)) (Some (chain i)) bs = Inr (Some (chain j))"
      "\<forall>b \<in> set bs. \<exists>i. j \<le> i \<and> i \<le> c \<and> bis_l1Head b = hash (chain i)" "unat (ch_number (chain j)) \<le> unat (ch_number (chain i))"
      by auto
    moreover have "j \<le> i" using j canonical_rpcD(4) [OF assms(1)] ih assms(3) by (metis le_trans)
    moreover have "unat (ch_number (chain j)) \<le> unat num" using j(4) True by (simp add: word_less_nat_alt)
    moreover have "earliest_loop rpc num e (b # bs) = Inr (Some (chain j))" using True get j(2) by simp
    ultimately show ?thesis using i by (intro exI [of _ j]) auto
  next
    case False
    have "e \<noteq> None" using Cons.prems(3) False canonical_rpcD(5) [OF assms(1) ih] by (auto split: option.splits)
    then obtain j0 where "e = Some (chain j0)" "j0 \<le> c" "num = of_nat j0" using Cons.prems(3) by auto
    from Cons.IH [of e num] Cons.prems \<open>e \<noteq> None\<close>
    obtain j where j: "j \<le> c" "earliest_loop rpc num e bs = Inr (Some (chain j))"
      "\<forall>b \<in> set bs. \<exists>i. j \<le> i \<and> i \<le> c \<and> bis_l1Head b = hash (chain i)" "unat (ch_number (chain j)) \<le> unat num" by auto
    have "unat (ch_number (chain j)) \<le> unat (ch_number (chain i))" using j(4) False by (simp add: word_less_nat_alt)
    then have "j \<le> i" using canonical_rpcD(4) [OF assms(1)] ih j(1) assms(3) by (metis le_trans)
    moreover have "earliest_loop rpc num e (b # bs) = Inr (Some (chain j))" using False get j(2) by simp
    ultimately show ?thesis using i j by (intro exI [of _ j]) auto
  qed
qed

lemma get_header_preimages_canonical:
  assumes "canonical_rpc hash rpc chain head" "c \<le> head" "bs \<noteq> []" "\<forall>b \<in> set bs. \<exists>i \<le> c. bis_l1Head b = hash (chain i)"
  shows "\<exists>j \<le> c. get_header_preimages rpc bs (hash (chain c)) = Inr (map chain [j..<Suc c]) \<and>
     (\<forall>b \<in> set bs. \<exists>i. j \<le> i \<and> i \<le> c \<and> bis_l1Head b = hash (chain i))"
proof -
  obtain j where j: "j \<le> c" "earliest_loop rpc (- 1) None bs = Inr (Some (chain j))"
    "\<forall>b \<in> set bs. \<exists>i. j \<le> i \<and> i \<le> c \<and> bis_l1Head b = hash (chain i)"
    using earliest_canonical [OF assms(1,4,2), of None "- 1"] assms(3) by auto
  have "ch_number (chain j) = of_nat j" "ch_number (chain c) = of_nat c"
    using canonical_rpcD(3) [OF assms(1)] j(1) assms(2) by auto
  then have "get_header_preimages rpc bs (hash (chain c)) = Inr (map chain [j..<Suc c])"
    using j(2) fetch_canonical [OF assms(1,2) j(1)] canonical_rpcD(2) [OF assms(1,2)]
    by (simp add: get_header_preimages_def get_earliest_l1_head_in_batch_def)
  with j show ?thesis by blast
qed

section \<open>Preimages\<close>

datatype preimage_key_type = Local | Keccak256 | GlobalGeneric | Sha256 | BlobKey | Precompile

text \<open>Keys and hash functions are those of other crates: the type of a key, and the key for a hash.\<close>

record 'k preimage_env =
  key_type_of :: "'k \<Rightarrow> preimage_key_type"
  key_new :: "b256 \<Rightarrow> preimage_key_type \<Rightarrow> 'k"
  keccak256 :: "u8 list \<Rightarrow> b256"
  sha256 :: "u8 list \<Rightarrow> b256"

type_synonym 'k preimage_store = "('k, u8 list) hashmap"

definition check_preimage :: "'k preimage_env \<Rightarrow> 'k \<Rightarrow> u8 list \<Rightarrow> unit result" where
  "check_preimage env key value =
     (let check = (\<lambda>expected_hash. if key \<noteq> key_new env expected_hash (key_type_of env key)
                                   then Inl (Err ''InvalidPreimageKey'') else Inr ()) in
      case key_type_of env key of
        Keccak256 \<Rightarrow> check (keccak256 env value)
      | Sha256 \<Rightarrow> check (sha256 env value)
      | Local \<Rightarrow> Inr ()
      | GlobalGeneric \<Rightarrow> Inr ()
      | Precompile \<Rightarrow> Inl (Panic ''Precompile not supported in zkVM'')
      | BlobKey \<Rightarrow> Inl (Panic ''Blob keys validated in blob witness''))"

fun check_preimages :: "'k preimage_env \<Rightarrow> 'k preimage_store \<Rightarrow> unit result" where
  "check_preimages env [] = Inr ()"
| "check_preimages env ((key, value) # rest) = try_bind (check_preimage env key value) (\<lambda>_. check_preimages env rest)"

definition save_preimage :: "'k preimage_env \<Rightarrow> 'k \<Rightarrow> u8 list \<Rightarrow> ('k preimage_store, unit) handler" where
  "save_preimage env key value =
     seq (lift (check_preimage env key value)) (\<lambda>_.
     seq (read_st (\<lambda>st. hm_get st key)) (\<lambda>old.
     case old of
       None \<Rightarrow> write_st (hm_insert key value)
     | Some v \<Rightarrow> if v \<noteq> value then fail (Err ''cannot overwrite key'') else ret ()))"

definition get_preimage :: "'k preimage_store \<Rightarrow> 'k \<Rightarrow> u8 list result" where
  "get_preimage st key = ok_or ''InvalidPreimageKey'' (hm_get st key)"

definition get_exact :: "'k preimage_store \<Rightarrow> 'k \<Rightarrow> nat \<Rightarrow> u8 list result" where
  "get_exact st key len =
     try_bind (get_preimage st key) (\<lambda>v. if length v \<noteq> len then Inl (Panic ''copy_from_slice'') else Inr v)"

definition authentic :: "'k preimage_env \<Rightarrow> 'k preimage_store \<Rightarrow> bool" where
  "authentic env st \<longleftrightarrow> hm_wf st \<and> (\<forall>key v. hm_get st key = Some v \<longrightarrow> check_preimage env key v = Inr ())"

lemma check_preimages_Inr: "check_preimages env st = Inr u \<longleftrightarrow> (\<forall>(key, v) \<in> set st. check_preimage env key v = Inr ())"
  by (induction st) (auto simp: try_bind_eq_Inr)

lemma check_preimages_authentic: "hm_wf st \<Longrightarrow> check_preimages env st = Inr () \<Longrightarrow> authentic env st"
  unfolding authentic_def check_preimages_Inr by (fastforce dest: map_of_SomeD)

lemma check_preimage_keccak:
  "check_preimage env key v = Inr () \<Longrightarrow> key_type_of env key = Keccak256 \<Longrightarrow> key = key_new env (keccak256 env v) Keccak256"
  by (simp add: check_preimage_def split: if_splits)

section \<open>Blobs\<close>

record 'blob blob_data =
  bd_blobs :: "'blob list"
  bd_commitments :: "u8 list list"
  bd_proofs :: "u8 list list"

record 'blob kzg_env =
  kzg_to_versioned_hash :: "u8 list \<Rightarrow> b256"
  verify_blob_kzg_proof_batch :: "'blob list \<Rightarrow> u8 list list \<Rightarrow> u8 list list \<Rightarrow> bool result"

type_synonym 'blob blob_store = "(b256 \<times> 'blob) list"

definition blob_store_from :: "'blob kzg_env \<Rightarrow> 'blob blob_data \<Rightarrow> 'blob blob_store result" where
  "blob_store_from env d =
     (let versioned_blobs = rev (zip (map (kzg_to_versioned_hash env) (bd_commitments d)) (bd_blobs d)) in
      if bd_blobs d = [] \<and> bd_commitments d = [] \<and> bd_proofs d = [] then Inr versioned_blobs
      else case verify_blob_kzg_proof_batch env (bd_blobs d) (bd_commitments d) (bd_proofs d) of
             Inr True \<Rightarrow> Inr versioned_blobs
           | Inr False \<Rightarrow> Inl (Panic ''KZG proof verification failed: invalid proofs'')
           | Inl _ \<Rightarrow> Inl (Panic ''KZG proof verification error''))"

fun get_and_validate_blobs :: "b256 list \<Rightarrow> ('blob blob_store, 'blob list) handler" where
  "get_and_validate_blobs [] = ret []"
| "get_and_validate_blobs (hash # hashes) =
     seq (read_st (\<lambda>st. st)) (\<lambda>st.
     if st = [] then fail (Panic ''called Option::unwrap() on a None value'') else
     seq (write_st butlast) (\<lambda>_.
     seq (get_and_validate_blobs hashes) (\<lambda>blobs.
     ret (if hash = fst (last st) then snd (last st) # blobs else blobs))))"

lemma get_and_validate_blobs_rev:
  "get_and_validate_blobs hashes (rev st) =
     (if length hashes \<le> length st
      then (Inr (map (snd \<circ> snd) (filter (\<lambda>(h, h', b). h = h') (zip hashes st))), rev (drop (length hashes) st))
      else (Inl (Panic ''called Option::unwrap() on a None value''), []))"
proof (induction hashes arbitrary: st)
  case (Cons h hs)
  show ?case
  proof (cases st)
    case (Cons x xs)
    then show ?thesis using Cons.IH [of xs] by (cases x) (auto simp: seq_def butlast_append)
  qed simp
qed simp

section \<open>The range program\<close>

record 'cfg boot_info =
  bo_l1_head :: b256
  bo_agreed_l2_output_root :: b256
  bo_claimed_l2_output_root :: b256
  bo_claimed_l2_block_number :: u64
  bo_rollup_config :: 'cfg

text \<open>
  Boot loading, the chain providers, the cursor, the pipeline and the driver are code of other crates. \<open>hash_config\<close> is the SHA-256 of
  the serialized configuration.
\<close>

record ('k, 'cfg, 'esp, 'cur, 'pipe, 'blob) range_env =
  load_boot :: "'k preimage_store \<Rightarrow> ('cfg boot_info \<times> 'esp) result"
  output_key :: "b256 \<Rightarrow> 'k"
  safe_head_number :: "'k preimage_store \<Rightarrow> b256 \<Rightarrow> u64 result"
  new_pipeline_cursor :: "'k preimage_store \<Rightarrow> 'cfg \<Rightarrow> b256 \<Rightarrow> b256 \<Rightarrow> 'cur result"
  create_pipeline :: "'cfg \<Rightarrow> 'esp \<Rightarrow> 'cur \<Rightarrow> 'k preimage_store \<Rightarrow> 'blob blob_store \<Rightarrow> 'pipe result"
  advance_to_target :: "'cfg \<Rightarrow> 'cur \<Rightarrow> 'pipe \<Rightarrow> u64 \<Rightarrow> (u64 \<times> b256) result"
  hash_config :: "'cfg \<Rightarrow> b256"

definition b256_of_bytes :: "u8 list \<Rightarrow> b256" where
  "b256_of_bytes bs = foldl (\<lambda>a b. a * 256 + ucast b) 0 bs"

definition fetch_safe_head_hash :: "(b256 \<Rightarrow> 'k) \<Rightarrow> 'k preimage_store \<Rightarrow> b256 \<Rightarrow> b256 result" where
  "fetch_safe_head_hash key oracle agreed =
     try_bind (get_exact oracle (key agreed) 128) (\<lambda>output_preimage. Inr (b256_of_bytes (drop 96 output_preimage)))"

definition get_inputs_for_pipeline ::
  "('k, 'cfg, 'esp, 'cur, 'pipe, 'blob) range_env \<Rightarrow> 'k preimage_store \<Rightarrow> ('cfg boot_info \<times> 'esp \<times> 'cur) result" where
  "get_inputs_for_pipeline env oracle =
     try_bind (load_boot env oracle) (\<lambda>(boot, espresso).
     try_bind (fetch_safe_head_hash (output_key env) oracle (bo_agreed_l2_output_root boot)) (\<lambda>safe_head_hash.
     try_bind (safe_head_number env oracle safe_head_hash) (\<lambda>safe_number.
     if bo_claimed_l2_block_number boot < safe_number then Inl (Err ''Claimed L2 block number is less than the safe head'') else
     try_bind (new_pipeline_cursor env oracle (bo_rollup_config boot) safe_head_hash (bo_agreed_l2_output_root boot)) (\<lambda>cursor.
     Inr (boot, espresso, cursor)))))"

definition ensure_derived_block_matches_claim :: "u64 \<Rightarrow> u64 \<Rightarrow> unit result" where
  "ensure_derived_block_matches_claim safe_head claimed =
     ensure (safe_head = claimed) ''Derived safe head L2 block does not match claimed L2 block number''"

definition run_executor ::
  "('k, 'cfg, 'esp, 'cur, 'pipe, 'blob) range_env \<Rightarrow> 'cfg boot_info \<Rightarrow> 'pipe \<Rightarrow> 'cur \<Rightarrow> 'cfg boot_info result" where
  "run_executor env boot pipeline cursor =
     try_bind (advance_to_target env (bo_rollup_config boot) cursor pipeline (bo_claimed_l2_block_number boot)) (\<lambda>(safe_head, output_root).
     if output_root \<noteq> bo_claimed_l2_output_root boot then Inl (Err ''Failed to validate L2 block with claimed output root'') else
     try_bind (ensure_derived_block_matches_claim safe_head (bo_claimed_l2_block_number boot)) (\<lambda>_. Inr boot))"

definition boot_info_struct_from :: "('cfg \<Rightarrow> b256) \<Rightarrow> 'cfg boot_info \<Rightarrow> boot_info_struct" where
  "boot_info_struct_from hash_cfg boot = \<lparr> bis_l1Head = bo_l1_head boot, bis_l2PreRoot = bo_agreed_l2_output_root boot,
     bis_l2PostRoot = bo_claimed_l2_output_root boot, bis_l2BlockNumber = bo_claimed_l2_block_number boot,
     bis_rollupConfigHash = hash_cfg (bo_rollup_config boot) \<rparr>"

text \<open>\<open>.unwrap()\<close>: an error of a fallible step is a panic of the program.\<close>

definition unwrap :: "'a result \<Rightarrow> 'a result" where
  "unwrap r = (case r of Inl e \<Rightarrow> Inl (Panic (to_string e)) | Inr x \<Rightarrow> Inr x)"

definition run_range_program ::
  "('k, 'cfg, 'esp, 'cur, 'pipe, 'blob) range_env \<Rightarrow> 'k preimage_store \<Rightarrow> 'blob blob_store \<Rightarrow> boot_info_struct result" where
  "run_range_program env oracle beacon =
     try_bind (unwrap (get_inputs_for_pipeline env oracle)) (\<lambda>(boot, espresso, cursor).
     try_bind (unwrap (create_pipeline env (bo_rollup_config boot) espresso cursor oracle beacon)) (\<lambda>pipeline.
     try_bind (unwrap (run_executor env boot pipeline cursor)) (\<lambda>boot'.
     Inr (boot_info_struct_from (hash_config env) boot'))))"

definition get_oracle_and_blob_provider ::
  "'k preimage_env \<Rightarrow> 'blob kzg_env \<Rightarrow> 'k preimage_store \<Rightarrow> 'blob blob_data \<Rightarrow> ('k preimage_store \<times> 'blob blob_store) result" where
  "get_oracle_and_blob_provider penv kenv st d =
     try_bind (unwrap (check_preimages penv st)) (\<lambda>_.
     try_bind (blob_store_from kenv d) (\<lambda>beacon. Inr (st, beacon)))"

text \<open>A range program as its \<open>main\<close> composes it (Ethereum DA): read the witness, check it, run.\<close>

definition range_main ::
  "'k preimage_env \<Rightarrow> 'blob kzg_env \<Rightarrow> ('k, 'cfg, 'esp, 'cur, 'pipe, 'blob) range_env \<Rightarrow> 'k preimage_store \<Rightarrow> 'blob blob_data \<Rightarrow>
   boot_info_struct result" where
  "range_main penv kenv env st d =
     try_bind (unwrap (get_oracle_and_blob_provider penv kenv st d)) (\<lambda>(oracle, beacon).
     run_range_program env oracle beacon)"

lemma unwrap_Inr [result_simps]: "unwrap r = Inr x \<longleftrightarrow> r = Inr x"
  by (cases r) (auto simp: unwrap_def)

section \<open>Properties\<close>

lemma sequential_ends:
  "sequential cfg pre post bs \<Longrightarrow> bs \<noteq> [] \<Longrightarrow>
   bis_rollupConfigHash (hd bs) = cfg \<and> bis_l2PreRoot (hd bs) = pre \<and> bis_l2PostRoot (last bs) = post"
  by (induction cfg pre post bs rule: sequential.induct) (auto split: if_splits)

text \<open>C34: The aggregation program commits an output exactly for the inputs it should accept: at least one boot info; boot infos
  that follow on each other root by root under one rollup configuration; a valid range proof for each of them under the given
  key; headers linked by hash down from the checkpointed L1 head, among which is the L1 head of every boot info. The output is
  the first pre-root, the last post-root, block number and configuration, the checkpoint, the key and the prover.\<close>

theorem aggregate_exact:
  "aggregate env inputs headers = Inr out \<longleftrightarrow> agg_accepts env inputs headers \<and> out = agg_output env inputs"
  by (rule aggregate_iff)

lemma host_headers_accepted:
  assumes "canonical_rpc (hash_slow env) rpc chain head" "c \<le> head" "ai_boot_infos inputs \<noteq> []"
    and "ai_latest_l1_checkpoint_head inputs = hash_slow env (chain c)"
    and "\<forall>b \<in> set (ai_boot_infos inputs). \<exists>i \<le> c. bis_l1Head b = hash_slow env (chain i)"
    and "sequential cfg pre post (ai_boot_infos inputs)"
    and "\<forall>b \<in> set (ai_boot_infos inputs). verify_sp1_proof env (ai_multi_block_vkey inputs) (pv_digest env b) = Inr ()"
  shows "\<exists>headers. get_header_preimages rpc (ai_boot_infos inputs) (ai_latest_l1_checkpoint_head inputs) = Inr headers \<and>
    aggregate env inputs headers = Inr (agg_output env inputs) \<and>
    ao_l2PreRoot (agg_output env inputs) = pre \<and> ao_l2PostRoot (agg_output env inputs) = post"
proof -
  let ?bs = "ai_boot_infos inputs"
  obtain j where j: "j \<le> c" "get_header_preimages rpc ?bs (hash_slow env (chain c)) = Inr (map chain [j..<Suc c])"
    "\<forall>b \<in> set ?bs. \<exists>i. j \<le> i \<and> i \<le> c \<and> bis_l1Head b = hash_slow env (chain i)"
    using get_header_preimages_canonical [OF assms(1,2,3,5)] by blast
  have roots: "bis_rollupConfigHash (hd ?bs) = cfg" "bis_l2PreRoot (hd ?bs) = pre" "bis_l2PostRoot (last ?bs) = post"
    using assms(3,6) sequential_ends [of cfg pre post ?bs] by auto
  have heads: "bis_l1Head ` set ?bs \<subseteq> hash_slow env ` set (map chain [j..<Suc c])"
  proof
    fix k assume "k \<in> bis_l1Head ` set ?bs"
    then obtain i where "j \<le> i" "i \<le> c" "k = hash_slow env (chain i)" using j(3) by auto
    then show "k \<in> hash_slow env ` set (map chain [j..<Suc c])" by (auto simp del: upt_Suc)
  qed
  have "agg_accepts env inputs (map chain [j..<Suc c])"
    unfolding agg_accepts_def Let_def roots
    using assms(3,4,6,7) heads hash_linked_canonical [OF assms(1,2) j(1)] by simp
  then have "aggregate env inputs (map chain [j..<Suc c]) = Inr (agg_output env inputs)" by (simp add: aggregate_iff)
  with j(2) assms(4) roots show ?thesis by (auto simp: agg_output_def)
qed

text \<open>The host's headers make the program accept. On an L1 node that serves one chain, if the L1 heads of the boot infos are
  blocks of that chain not above the checkpointed block, the boot infos are sequential and their proofs verify, then
  the headers assembled by \<open>get_header_preimages\<close> are accepted by the aggregation program.\<close>

theorem agg_witness_accepted:
  assumes "canonical_rpc (hash_slow env) rpc chain head" "c \<le> head" "ai_boot_infos inputs \<noteq> []"
    and "ai_latest_l1_checkpoint_head inputs = hash_slow env (chain c)"
    and "\<forall>b \<in> set (ai_boot_infos inputs). \<exists>i \<le> c. bis_l1Head b = hash_slow env (chain i)"
    and "sequential cfg pre post (ai_boot_infos inputs)"
    and "\<forall>b \<in> set (ai_boot_infos inputs). verify_sp1_proof env (ai_multi_block_vkey inputs) (pv_digest env b) = Inr ()"
  shows "\<exists>headers. get_header_preimages rpc (ai_boot_infos inputs) (ai_latest_l1_checkpoint_head inputs) = Inr headers \<and>
    aggregate env inputs headers = Inr (agg_output env inputs) \<and>
    ao_l2PreRoot (agg_output env inputs) = pre \<and> ao_l2PostRoot (agg_output env inputs) = post"
  using assms by (rule host_headers_accepted)

text \<open>C35: A range program that commits has derived what it commits. Its witness passed the preimage checks; the agreed
  pre-root's preimage names a safe head not above the claimed block; and the driver, run to the claimed block on the pipeline
  built from this witness, ended at exactly the committed block number with exactly the committed post-root.\<close>

theorem range_program_sound:
  assumes "range_main penv kenv env st d = Inr b" "hm_wf st"
  shows "authentic penv st \<and> (\<exists>boot espresso cursor pipeline beacon outp n.
     blob_store_from kenv d = Inr beacon \<and> load_boot env st = Inr (boot, espresso) \<and>
     b = boot_info_struct_from (hash_config env) boot \<and>
     hm_get st (output_key env (bis_l2PreRoot b)) = Some outp \<and> length outp = 128 \<and>
     safe_head_number env st (b256_of_bytes (drop 96 outp)) = Inr n \<and> n \<le> bis_l2BlockNumber b \<and>
     create_pipeline env (bo_rollup_config boot) espresso cursor st beacon = Inr pipeline \<and>
     advance_to_target env (bo_rollup_config boot) cursor pipeline (bis_l2BlockNumber b) =
       Inr (bis_l2BlockNumber b, bis_l2PostRoot b))"
proof -
  from assms(1) obtain beacon where w: "check_preimages penv st = Inr ()" "blob_store_from kenv d = Inr beacon"
    "run_range_program env st beacon = Inr b"
    by (auto simp: range_main_def get_oracle_and_blob_provider_def try_bind_eq_Inr unwrap_Inr)
  from w(3) obtain boot espresso cursor pipeline where
    i: "get_inputs_for_pipeline env st = Inr (boot, espresso, cursor)"
    and p: "create_pipeline env (bo_rollup_config boot) espresso cursor st beacon = Inr pipeline"
    and r: "run_executor env boot pipeline cursor = Inr boot"
    and b: "b = boot_info_struct_from (hash_config env) boot"
    by (auto simp: run_range_program_def run_executor_def try_bind_eq_Inr unwrap_Inr split: if_splits prod.splits)
  from i obtain hash n where s: "load_boot env st = Inr (boot, espresso)"
    "fetch_safe_head_hash (output_key env) st (bo_agreed_l2_output_root boot) = Inr hash"
    "safe_head_number env st hash = Inr n" "n \<le> bo_claimed_l2_block_number boot"
    by (auto simp: get_inputs_for_pipeline_def try_bind_eq_Inr not_less split: if_splits prod.splits)
  from s(2) obtain outp where o: "hm_get st (output_key env (bo_agreed_l2_output_root boot)) = Some outp"
    "length outp = 128" "hash = b256_of_bytes (drop 96 outp)"
    by (auto simp: fetch_safe_head_hash_def get_exact_def get_preimage_def try_bind_eq_Inr ok_or_eq_Inr split: if_splits)
  from r have a: "advance_to_target env (bo_rollup_config boot) cursor pipeline (bo_claimed_l2_block_number boot) =
      Inr (bo_claimed_l2_block_number boot, bo_claimed_l2_output_root boot)"
    by (auto simp: run_executor_def try_bind_eq_Inr ensure_derived_block_matches_claim_def ensure_eq_Inr split: if_splits prod.splits)
  have "authentic penv st" using w(1) assms(2) by (intro check_preimages_authentic)
  moreover have "bis_l2PreRoot b = bo_agreed_l2_output_root boot" "bis_l2BlockNumber b = bo_claimed_l2_block_number boot"
    "bis_l2PostRoot b = bo_claimed_l2_output_root boot" by (simp_all add: b boot_info_struct_from_def)
  ultimately show ?thesis using w(2) s(1,3,4) o p a b by metis
qed

text \<open>The preimage store stays authentic. Saving a preimage either fails and changes nothing, or the value
  matches its key, is found under it afterwards, and no entry that was there has changed.\<close>

theorem save_preimage_authentic:
  assumes "authentic env st" "save_preimage env key value st = (r, st')"
  shows "authentic env st' \<and> (case r of
      Inl _ \<Rightarrow> st' = st
    | Inr _ \<Rightarrow> check_preimage env key value = Inr () \<and> get_preimage st' key = Inr value \<and>
        (\<forall>k v. hm_get st k = Some v \<longrightarrow> hm_get st' k = Some v))"
proof (cases "check_preimage env key value")
  case (Inl e)
  with assms(2) have "r = Inl e" "st' = st" by (simp_all add: save_preimage_def seq_def)
  with assms(1) show ?thesis by simp
next
  case (Inr u)
  show ?thesis
  proof (cases "hm_get st key")
    case None
    with Inr assms(2) have "r = Inr ()" "st' = hm_insert key value st" by (auto simp: save_preimage_def)
    moreover have "hm_wf (hm_insert key value st)" using assms(1) by (intro hm.invar_insert) (simp add: authentic_def)
    ultimately show ?thesis using assms(1) Inr None by (auto simp: authentic_def get_preimage_def)
  next
    case (Some v)
    have "r = (if v \<noteq> value then Inl (Err ''cannot overwrite key'') else Inr ())" "st' = st"
      using Inr Some assms(2) by (auto simp: save_preimage_def split: if_splits)
    with Inr Some assms(1) show ?thesis by (simp add: get_preimage_def)
  qed
qed

text \<open>Blobs are served from verified data only, in order. If the store was built, then asking for the versioned hashes of the first
  \<open>n\<close> commitments returns the first \<open>n\<close> blobs; and whatever is asked, every blob returned is a blob of the witness whose
  commitment has a requested versioned hash.\<close>

theorem blob_store_serves:
  assumes "blob_store_from env d = Inr st" "length (bd_blobs d) = length (bd_commitments d)" "n \<le> length (bd_blobs d)"
  shows "fst (get_and_validate_blobs (map (kzg_to_versioned_hash env) (take n (bd_commitments d))) st) = Inr (take n (bd_blobs d)) \<and>
    (\<forall>hashes blobs. fst (get_and_validate_blobs hashes st) = Inr blobs \<longrightarrow> (\<forall>b \<in> set blobs.
       \<exists>i < length (bd_blobs d). bd_blobs d ! i = b \<and> kzg_to_versioned_hash env (bd_commitments d ! i) \<in> set hashes))"
proof -
  let ?vh = "kzg_to_versioned_hash env" let ?vs = "zip (map ?vh (bd_commitments d)) (bd_blobs d)"
  have st: "st = rev ?vs"
    using assms(1) by (auto simp: blob_store_from_def Let_def split: if_splits sum.splits bool.splits)
  have "filter (\<lambda>(h, h', b). h = h') (zip (map ?vh (take n cs)) (zip (map ?vh cs) bs)) =
      zip (map ?vh (take n cs)) (zip (map ?vh (take n cs)) (take n bs))" if "length bs = length cs" for cs and bs :: "'a list"
    using that by (induction cs bs arbitrary: n rule: list_induct2') (auto split: nat.splits simp: take_Cons)
  with assms(2,3) have 1: "fst (get_and_validate_blobs (map ?vh (take n (bd_commitments d))) st) = Inr (take n (bd_blobs d))"
    by (simp add: st get_and_validate_blobs_rev map_map [symmetric] map_snd_zip del: map_map)
  have "\<exists>i < length (bd_blobs d). bd_blobs d ! i = b \<and> ?vh (bd_commitments d ! i) \<in> set hashes"
    if "fst (get_and_validate_blobs hashes st) = Inr blobs" "b \<in> set blobs" for hashes blobs b
  proof -
    from that obtain h where "(h, h, b) \<in> set (zip hashes ?vs)"
      by (auto simp: st get_and_validate_blobs_rev split: if_splits)
    then have "h \<in> set hashes" "(h, b) \<in> set ?vs" by (auto dest: set_zip_leftD set_zip_rightD)
    then show ?thesis using assms(2) by (auto simp: in_set_zip)
  qed
  with 1 show ?thesis by blast
qed

section \<open>Witnesses\<close>

text \<open>An L1 chain of three blocks whose header hash is the number plus a hundred.\<close>

definition sample_chain :: "nat \<Rightarrow> consensus_header" where
  "sample_chain n = \<lparr> ch_number = of_nat n, ch_parent_hash = of_nat (99 + n), ch_content = [] \<rparr>"

definition sample_agg_env :: agg_env where
  "sample_agg_env = \<lparr> hash_slow = (\<lambda>h. ucast (ch_number h) + 100), pv_digest = bis_l2PostRoot,
     verify_sp1_proof = (\<lambda>vkey digest. if digest = 0 then Inl (Panic ''proof'') else Inr ()), words_to_bytes_be = (\<lambda>_. 7) \<rparr>"

definition sample_l1_headers :: l1_headers where
  "sample_l1_headers = \<lparr>
     l1_header_by_hash = (\<lambda>h. if h \<in> {100, 101, 102} then Inr (sample_chain (unat (h - 100))) else Inl (Err ''missing'')),
     l1_header_by_number = (\<lambda>n. if n \<le> 2 then Inr (sample_chain (unat n)) else Inl (Err ''missing'')) \<rparr>"

definition sample_boot :: "b256 \<Rightarrow> b256 \<Rightarrow> b256 \<Rightarrow> u64 \<Rightarrow> boot_info_struct" where
  "sample_boot l1 pre post n = \<lparr> bis_l1Head = l1, bis_l2PreRoot = pre, bis_l2PostRoot = post, bis_l2BlockNumber = n,
     bis_rollupConfigHash = 5 \<rparr>"

definition sample_agg_inputs :: aggregation_inputs where
  "sample_agg_inputs = \<lparr> ai_boot_infos = [sample_boot 101 10 11 50, sample_boot 100 11 12 60],
     ai_latest_l1_checkpoint_head = 102, ai_multi_block_vkey = [1, 2], ai_prover_address = 3 \<rparr>"

lemma up_to_2: "(\<forall>i \<le> (2::nat). P i) \<longleftrightarrow> P 0 \<and> P 1 \<and> P 2" "(\<forall>i < (2::nat). P i) \<longleftrightarrow> P 0 \<and> P 1"
  by (auto simp: numeral_2_eq_2 le_Suc_eq less_Suc_eq)

lemma sample_canonical: "canonical_rpc (hash_slow sample_agg_env) sample_l1_headers sample_chain 2"
proof -
  have "\<forall>i \<in> set [0, 1, 2]. l1_header_by_number sample_l1_headers (of_nat i) = Inr (sample_chain i) \<and>
      l1_header_by_hash sample_l1_headers (hash_slow sample_agg_env (sample_chain i)) = Inr (sample_chain i) \<and>
      ch_number (sample_chain i) = of_nat i"
    by code_simp
  then show ?thesis unfolding canonical_rpc_def up_to_2 by (auto simp: sample_chain_def sample_agg_env_def)
qed

theorem agg_witness_accepted_witness:
  "\<exists>headers. get_header_preimages sample_l1_headers (ai_boot_infos sample_agg_inputs) 102 = Inr headers \<and>
    aggregate sample_agg_env sample_agg_inputs headers = Inr (agg_output sample_agg_env sample_agg_inputs) \<and>
    ao_l2PreRoot (agg_output sample_agg_env sample_agg_inputs) = 10 \<and>
    ao_l2PostRoot (agg_output sample_agg_env sample_agg_inputs) = 12"
proof -
  have "\<forall>b \<in> set (ai_boot_infos sample_agg_inputs). \<exists>i \<le> 2. bis_l1Head b = hash_slow sample_agg_env (sample_chain i)"
    by code_simp
  moreover have "sequential 5 10 12 (ai_boot_infos sample_agg_inputs)" by code_simp
  moreover have "\<forall>b \<in> set (ai_boot_infos sample_agg_inputs).
      verify_sp1_proof sample_agg_env (ai_multi_block_vkey sample_agg_inputs) (pv_digest sample_agg_env b) = Inr ()" by code_simp
  moreover have "ai_boot_infos sample_agg_inputs \<noteq> []" by code_simp
  moreover have "ai_latest_l1_checkpoint_head sample_agg_inputs = hash_slow sample_agg_env (sample_chain 2)" by code_simp
  moreover have "ai_latest_l1_checkpoint_head sample_agg_inputs = 102" by code_simp
  ultimately show ?thesis using agg_witness_accepted [OF sample_canonical order.refl] by metis
qed

text \<open>A witness with one agreed output root, whose preimage ends in the safe head hash 9, and one claim.\<close>

definition sample_preimage_env :: "b256 preimage_env" where
  "sample_preimage_env = \<lparr> key_type_of = (\<lambda>k. if k < 10 then Local else Keccak256), key_new = (\<lambda>h t. h),
     keccak256 = (\<lambda>v. of_nat (length v)), sha256 = (\<lambda>v. 0) \<rparr>"

definition sample_preimage :: "u8 list" where
  "sample_preimage = replicate 127 0 @ [9]"

definition sample_kzg_env :: "string kzg_env" where
  "sample_kzg_env = \<lparr> kzg_to_versioned_hash = (\<lambda>c. of_nat (length c)),
     verify_blob_kzg_proof_batch = (\<lambda>bs cs ps. Inr (length bs = length cs \<and> length cs = length ps)) \<rparr>"

definition sample_blob_data :: "string blob_data" where
  "sample_blob_data = \<lparr> bd_blobs = [''one'', ''two''], bd_commitments = [[1], [1, 2]], bd_proofs = [[0], [0]] \<rparr>"

definition sample_range_env :: "(b256, unit, unit, u64, unit, string) range_env" where
  "sample_range_env = \<lparr>
     load_boot = (\<lambda>st. Inr (\<lparr> bo_l1_head = 1, bo_agreed_l2_output_root = 128, bo_claimed_l2_output_root = 31,
       bo_claimed_l2_block_number = 20, bo_rollup_config = () \<rparr>, ())),
     output_key = (\<lambda>h. h), safe_head_number = (\<lambda>st h. if h = 9 then Inr 12 else Inl (Err ''unknown header'')),
     new_pipeline_cursor = (\<lambda>st cfg h r. Inr 12), create_pipeline = (\<lambda>cfg e cur st b. Inr ()),
     advance_to_target = (\<lambda>cfg cur p n. Inr (n, ucast (cur + 19))), hash_config = (\<lambda>_. 5) \<rparr>"

theorem range_program_sound_witness:
  "range_main sample_preimage_env sample_kzg_env sample_range_env [(128, sample_preimage)] sample_blob_data =
     Inr (sample_boot 1 128 31 20) \<and> authentic sample_preimage_env [(128, sample_preimage)]"
proof
  show run: "range_main sample_preimage_env sample_kzg_env sample_range_env [(128, sample_preimage)] sample_blob_data =
     Inr (sample_boot 1 128 31 20)" by code_simp
  have "hm_wf [(128 :: b256, sample_preimage)]" by code_simp
  from range_program_sound [OF run this] show "authentic sample_preimage_env [(128, sample_preimage)]" ..
qed

theorem save_preimage_authentic_witness:
  "authentic sample_preimage_env [(3, []), (128, sample_preimage)] \<and>
   get_preimage [(3 :: b256, []), (128, sample_preimage)] 128 = Inr sample_preimage"
proof -
  have a: "authentic sample_preimage_env [(3, [])]" by (intro check_preimages_authentic) code_simp+
  have s: "save_preimage sample_preimage_env 128 sample_preimage [(3, [])] = (Inr (), [(3, []), (128, sample_preimage)])" by code_simp
  from save_preimage_authentic [OF a s] show ?thesis by simp
qed

theorem blob_store_serves_witness:
  "fst (get_and_validate_blobs [1] (rev [(1, ''one''), (2, ''two'')])) = Inr [''one'']"
proof -
  have "blob_store_from sample_kzg_env sample_blob_data = Inr (rev [(1, ''one''), (2, ''two'')])" by code_simp
  moreover have "length (bd_blobs sample_blob_data) = length (bd_commitments sample_blob_data)" by code_simp
  moreover have "1 \<le> length (bd_blobs sample_blob_data)" by code_simp
  moreover have "map (kzg_to_versioned_hash sample_kzg_env) (take 1 (bd_commitments sample_blob_data)) = [1]" by code_simp
  moreover have "take 1 (bd_blobs sample_blob_data) = [''one'']" by code_simp
  ultimately show ?thesis using blob_store_serves by metis
qed

end
