(* ===== verification/ProofRequester.thy ===== *)
theory ProofRequester
  imports Requests Programs
begin

text \<open>
  The proof requester of the validity proposer, \<open>validity/src/proof_requester.rs\<close>: witness generation, submission to the prover network, to
  a cluster or to the mock executor, and the treatment of failed requests.

  The state is shared with the proposer (\<open>Validity\<close>): the database, the handles of cluster proofs, the table of proof tasks
  and the transactions sent to L1. What the host, the L1 and L2 nodes, the provers and the proof format answer are
  arguments (\<open>requester_env\<close>). Metrics and logs are left out. \<open>make_proof_request\<close> is the body of a task; it interleaves with the
  proposer's loop between its database calls, and \<open>db_trace\<close> states that every handler, at every interleaving, only makes steps of the
  state machine of \<open>Requests\<close>.
\<close>

section \<open>State and environment\<close>

record cluster_proof_request =
  cp_proof_id :: string
  cp_proof_output_id :: string
  cp_deadline :: int

record cluster_proof_handle =
  ch_proof_request :: cluster_proof_request
  ch_consecutive_poll_failures :: u32

text \<open>A transaction of the proposer, with the arguments of the call.\<close>

datatype validity_tx =
  CheckpointBlockHash u256
| ProposeL2Output b256 b256 u256 u256 "u8 list" address
| DgfProposeL2Output b256 b256 u256 u256 "u8 list" address u256

text \<open>A proof task has the request it was started for and, once it has ended, the result its handle yields (a panic is a join error).\<close>

record vstate =
  v_db :: db
  v_handles :: "(int, cluster_proof_handle) hashmap"
  v_tasks :: "(int, unit result option \<times> request) hashmap"
  v_txs :: "validity_tx list"

datatype stdin = RangeStdin "u8 list" | AggStdin aggregation_inputs "consensus_header list"

text \<open>Of an execution status the sources only test whether it is \<open>Unexecutable\<close>.\<close>

datatype execution_status = Unexecutable | OtherExecutionStatus

record requester_config =
  rc_commitments :: commitment_config
  rc_range_vk_hash :: "u32 list"
  rc_network_prover :: bool
  rc_mock :: bool
  rc_cluster :: bool
  rc_cluster_config :: bool

record requester_env =
  re_db :: db_env
  re_now :: int
  host_fetch :: "u64 \<Rightarrow> u64 \<Rightarrow> u8 list result"
  host_l1_head_hash :: "u8 list \<Rightarrow> b256 option"
  host_run :: "u8 list \<Rightarrow> u8 list result"
  re_l1 :: l1_headers
  get_l2_block_data_range :: "u64 \<Rightarrow> u64 \<Rightarrow> l2_block_data list result"
  re_l1_chain_id :: "u64 result"
  re_l2_chain_id :: "u64 result"
  deserialize_proof :: "u8 list \<Rightarrow> (sp1_proof \<times> boot_info_struct) result"
  network_prove_range :: "stdin \<Rightarrow> b256 result"
  network_prove_agg :: "stdin \<Rightarrow> b256 result"
  cluster_submit_range_proof :: "stdin \<Rightarrow> cluster_proof_request result"
  cluster_submit_agg_proof :: "stdin \<Rightarrow> cluster_proof_request result"
  execute_range :: "stdin \<Rightarrow> (u8 list \<times> string) result"
  execute_agg :: "stdin \<Rightarrow> (u8 list \<times> string) result"
  witnessgen_secs :: int
  execution_secs :: int

definition on_db :: "(db, 'a) handler \<Rightarrow> (vstate, 'a) handler" where
  "on_db m s = (case m (v_db s) of (r, d) \<Rightarrow> (r, s\<lparr>v_db := d\<rparr>))"

definition as_u64 :: "int \<Rightarrow> u64" where
  "as_u64 x = word_of_int x"

definition as_i64 :: "u64 \<Rightarrow> int" where
  "as_i64 x = i64 (uint x)"

definition create_range_request ::
  "requester_env \<Rightarrow> request_mode \<Rightarrow> int \<Rightarrow> int \<Rightarrow> b256 \<Rightarrow> b256 \<Rightarrow> int \<Rightarrow> int \<Rightarrow> request result" where
  "create_range_request env mode start_block end_block range_vkey rollup_hash l1 l2 =
     try_bind (get_l2_block_data_range env (as_u64 start_block) (as_u64 end_block)) (\<lambda>block_data.
     Inr (new_range_request (re_now env) mode start_block end_block range_vkey rollup_hash block_data l1 l2))"

section \<open>Requesting proofs\<close>

definition requester_new :: "requester_config \<Rightarrow> requester_config result" where
  "requester_new cfg =
     try_bind (ensure (\<not> (rc_mock cfg \<and> rc_cluster cfg)) ''mock and cluster modes are mutually exclusive'') (\<lambda>_.
     try_bind (ensure (\<not> rc_cluster cfg \<or> rc_cluster_config cfg) ''cluster mode requires cluster_config'') (\<lambda>_. Inr cfg))"

definition is_synchronous_proving :: "requester_config \<Rightarrow> bool" where
  "is_synchronous_proving cfg = rc_mock cfg"

definition submit_cluster_proof :: "requester_env \<Rightarrow> request \<Rightarrow> cluster_proof_request result \<Rightarrow> (vstate, unit) handler" where
  "submit_cluster_proof env req submit_result =
     seq (lift submit_result) (\<lambda>pr.
     seq (on_db (update_request_to_prove_cluster (re_db env) (rq_id req)
            \<lparr> cj_proof_id = cp_proof_id pr, cj_proof_output_id = cp_proof_output_id pr \<rparr>)) (\<lambda>_.
     write_st (\<lambda>s. s\<lparr>v_handles := hm_insert (rq_id req) \<lparr> ch_proof_request = pr, ch_consecutive_poll_failures = 0 \<rparr> (v_handles s)\<rparr>)))"

definition range_proof_witnessgen :: "requester_env \<Rightarrow> request \<Rightarrow> (vstate, stdin) handler" where
  "range_proof_witnessgen env req =
     seq (lift (host_fetch env (as_u64 (rq_start_block req)) (as_u64 (rq_end_block req)))) (\<lambda>host_args.
     seq (case host_l1_head_hash env host_args of
            None \<Rightarrow> ret ()
          | Some l1_head \<Rightarrow>
              seq (lift (l1_header_by_hash (re_l1 env) l1_head)) (\<lambda>header.
              seq (on_db (update_l1_head (re_db env) (rq_id req) (as_i64 (ch_number header)) l1_head)) (\<lambda>_. ret ()))) (\<lambda>_.
     seq (lift (host_run env host_args)) (\<lambda>witness. ret (RangeStdin witness))))"

definition read_range_proof :: "requester_env \<Rightarrow> request \<Rightarrow> (sp1_proof \<times> boot_info_struct) result" where
  "read_range_proof env p =
     try_bind (ok_or ''Range proof is missing proof data.'' (rq_proof p)) (deserialize_proof env)"

definition agg_proof_witnessgen ::
  "requester_config \<Rightarrow> requester_env \<Rightarrow> int \<Rightarrow> int \<Rightarrow> b256 \<Rightarrow> int \<Rightarrow> int \<Rightarrow> address \<Rightarrow> (vstate, stdin) handler" where
  "agg_proof_witnessgen cfg env start_block end_block checkpoint_hash l1 l2 prover =
     seq (on_db (get_complete_aggregation_range_proofs (re_db env) start_block end_block (rc_commitments cfg) l1 l2)) (\<lambda>range_proofs.
     seq (lift (try_map (read_range_proof env) range_proofs)) (\<lambda>read.
     let boot_infos = map snd read; proofs = map fst read in
     seq (lift (get_header_preimages (re_l1 env) boot_infos checkpoint_hash)) (\<lambda>headers.
     seq (lift (get_agg_proof_stdin proofs boot_infos headers (rc_range_vk_hash cfg) checkpoint_hash prover)) (\<lambda>(inputs, headers).
     ret (AggStdin inputs headers)))))"

definition request_range_proof :: "requester_config \<Rightarrow> requester_env \<Rightarrow> stdin \<Rightarrow> b256 result" where
  "request_range_proof cfg env stdin =
     try_bind (ensure (rc_network_prover cfg) ''network_prover required for request_range_proof'') (\<lambda>_. network_prove_range env stdin)"

definition request_agg_proof :: "requester_config \<Rightarrow> requester_env \<Rightarrow> stdin \<Rightarrow> b256 result" where
  "request_agg_proof cfg env stdin =
     try_bind (ensure (rc_network_prover cfg) ''network_prover required for request_agg_proof'') (\<lambda>_. network_prove_agg env stdin)"

text \<open>An execution yields the bytes of the mock proof and the statistics as JSON.\<close>

definition generate_mock_range_proof :: "requester_config \<Rightarrow> requester_env \<Rightarrow> request \<Rightarrow> stdin \<Rightarrow> (vstate, u8 list) handler" where
  "generate_mock_range_proof cfg env req stdin =
     seq (lift (ensure (rc_network_prover cfg) ''network_prover required for generate_mock_range_proof'')) (\<lambda>_.
     seq (lift (execute_range env stdin)) (\<lambda>(proof, statistics).
     seq (on_db (insert_execution_statistics (re_db env) (rq_id req) statistics (execution_secs env))) (\<lambda>_.
     ret proof)))"

definition generate_mock_agg_proof :: "requester_config \<Rightarrow> requester_env \<Rightarrow> request \<Rightarrow> stdin \<Rightarrow> (vstate, u8 list) handler" where
  "generate_mock_agg_proof cfg env req stdin =
     seq (lift (ensure (rc_network_prover cfg) ''network_prover required for generate_mock_agg_proof'')) (\<lambda>_.
     seq (lift (execute_agg env stdin)) (\<lambda>(proof, statistics).
     seq (on_db (insert_execution_statistics (re_db env) (rq_id req) statistics (execution_secs env))) (\<lambda>_.
     ret proof)))"

section \<open>Failed and cancelled requests\<close>

text \<open>Division of an \<open>i64\<close> by two truncates towards zero.\<close>

definition mid_block :: "int \<Rightarrow> int \<Rightarrow> int" where
  "mid_block start_block end_block = (let x = i64 (start_block + end_block) in if x \<ge> 0 then x div 2 else - ((- x) div 2))"

definition split_request :: "requester_config \<Rightarrow> requester_env \<Rightarrow> request \<Rightarrow> u64 \<Rightarrow> u64 \<Rightarrow> request list result" where
  "split_request cfg env req l1_chain_id l2_chain_id =
     (let mid = mid_block (rq_start_block req) (rq_end_block req);
          create = (\<lambda>s e. create_range_request env (rq_mode req) s e (cc_range_vkey_commitment (rc_commitments cfg))
            (cc_rollup_config_hash (rc_commitments cfg)) (as_i64 l1_chain_id) (as_i64 l2_chain_id)) in
      try_bind (create (rq_start_block req) mid) (\<lambda>first.
      try_bind (create mid (rq_end_block req)) (\<lambda>second.
      Inr [first, second])))"

definition handle_failed_request ::
  "requester_config \<Rightarrow> requester_env \<Rightarrow> request \<Rightarrow> execution_status \<Rightarrow> (vstate, unit) handler" where
  "handle_failed_request cfg env req execution_status =
     seq (on_db (is_request_invalidated (re_db env) (rq_id req))) (\<lambda>invalidated.
     if invalidated then seq (on_db (finish_invalidated_request (re_db env) (rq_id req))) (\<lambda>_. ret ()) else
     seq (on_db (update_request_status (re_db env) (rq_id req) Failed)) (\<lambda>_.
     seq (lift (re_l1_chain_id env)) (\<lambda>l1_chain_id.
     seq (lift (re_l2_chain_id env)) (\<lambda>l2_chain_id.
     if i64 (rq_end_block req - rq_start_block req) > 1 \<and> rq_type req = Range then
       seq (on_db (fetch_failed_request_count_by_block_range (re_db env) (rq_start_block req) (rq_end_block req)
              (rq_l1_chain_id req) (rq_l2_chain_id req) (rc_commitments cfg))) (\<lambda>num_failed_requests.
       if num_failed_requests > 2 \<or> execution_status = Unexecutable then
         seq (lift (split_request cfg env req l1_chain_id l2_chain_id)) (\<lambda>new_requests.
         on_db (insert_requests (re_db env) new_requests))
       else ret ())
     else ret ()))))"

definition handle_cancelled_request :: "requester_env \<Rightarrow> request \<Rightarrow> (vstate, unit) handler" where
  "handle_cancelled_request env req = seq (on_db (update_request_status (re_db env) (rq_id req) Cancelled)) (\<lambda>_. ret ())"

section \<open>The body of a proof task\<close>

definition generate_proof_stdin :: "requester_config \<Rightarrow> requester_env \<Rightarrow> request \<Rightarrow> (vstate, stdin) handler" where
  "generate_proof_stdin cfg env req =
     (case rq_type req of
        Range \<Rightarrow> range_proof_witnessgen env req
      | Aggregation \<Rightarrow>
          seq (lift (ok_or ''Aggregation proof has no checkpointed block.'' (rq_checkpointed_l1_block_hash req))) (\<lambda>checkpoint_hash.
          seq (lift (ok_or ''Prover address must be set for aggregation proofs.'' (rq_prover_address req))) (\<lambda>prover.
          agg_proof_witnessgen cfg env (rq_start_block req) (rq_end_block req) checkpoint_hash
            (rq_l1_chain_id req) (rq_l2_chain_id req) prover)))"

definition store_completed_proof :: "requester_env \<Rightarrow> int \<Rightarrow> u8 list \<Rightarrow> (vstate, unit) handler" where
  "store_completed_proof env i proof =
     seq (on_db (update_proof_to_complete (re_db env) i proof)) (\<lambda>stored.
     if stored then ret () else
     seq (on_db (finish_invalidated_request (re_db env) i)) (\<lambda>finished.
     if finished then ret () else fail (Err ''Request could not transition to Complete'')))"

text \<open>The end of \<open>make_proof_request\<close>: three ways to a prover for each type of request.\<close>

definition dispatch_range_proof :: "requester_config \<Rightarrow> requester_env \<Rightarrow> request \<Rightarrow> stdin \<Rightarrow> (vstate, unit) handler" where
  "dispatch_range_proof cfg env req stdin =
     (if rc_mock cfg then
        seq (generate_mock_range_proof cfg env req stdin) (\<lambda>proof_bytes. store_completed_proof env (rq_id req) proof_bytes)
      else if rc_cluster cfg then
        seq (lift (ensure (rc_cluster_config cfg) ''cluster_config required for cluster range proof'')) (\<lambda>_.
        submit_cluster_proof env req (cluster_submit_range_proof env stdin))
      else
        seq (lift (request_range_proof cfg env stdin)) (\<lambda>proof_id.
        seq (on_db (update_request_to_prove (re_db env) (rq_id req) proof_id)) (\<lambda>_. ret ())))"

definition dispatch_agg_proof :: "requester_config \<Rightarrow> requester_env \<Rightarrow> request \<Rightarrow> stdin \<Rightarrow> (vstate, unit) handler" where
  "dispatch_agg_proof cfg env req stdin =
     (if rc_mock cfg then
        seq (generate_mock_agg_proof cfg env req stdin) (\<lambda>proof_bytes. store_completed_proof env (rq_id req) proof_bytes)
      else if rc_cluster cfg then
        seq (lift (ensure (rc_cluster_config cfg) ''cluster_config required for cluster agg proof'')) (\<lambda>_.
        submit_cluster_proof env req (cluster_submit_agg_proof env stdin))
      else
        seq (lift (request_agg_proof cfg env stdin)) (\<lambda>proof_id.
        seq (on_db (update_request_to_prove (re_db env) (rq_id req) proof_id)) (\<lambda>_. ret ())))"

definition make_proof_request :: "requester_config \<Rightarrow> requester_env \<Rightarrow> request \<Rightarrow> u64 \<Rightarrow> u64 \<Rightarrow> (vstate, unit) handler" where
  "make_proof_request cfg env req max_witnesses max_proofs =
     seq (on_db (try_start_witness_generation (re_db env) (rq_id req) max_witnesses max_proofs)) (\<lambda>started.
     if \<not> started then ret () else
     seq (generate_proof_stdin cfg env req) (\<lambda>stdin.
     seq (on_db (update_witnessgen_duration (re_db env) (rq_id req) (witnessgen_secs env))) (\<lambda>_.
     seq (on_db (is_request_invalidated (re_db env) (rq_id req))) (\<lambda>invalidated.
     if invalidated then seq (on_db (finish_invalidated_request (re_db env) (rq_id req))) (\<lambda>_. ret ()) else
     seq (if rc_mock cfg then seq (on_db (update_request_status (re_db env) (rq_id req) Execution)) (\<lambda>_. ret ()) else ret ()) (\<lambda>_.
     case rq_type req of Range \<Rightarrow> dispatch_range_proof cfg env req stdin | Aggregation \<Rightarrow> dispatch_agg_proof cfg env req stdin)))))"

section \<open>Every handler is a run of the state machine\<close>

text \<open>\<open>db_steps\<close> for a call of the database, \<open>db_trace\<close> for a handler of the proposer: whatever the outcome, the database has made steps of
  \<open>db_step\<close>. The rules follow the structure of the handlers.\<close>

named_theorems trace_intros \<open>handlers that only make steps of the request state machine\<close>

definition db_steps :: "u64 \<Rightarrow> (db, 'a) handler \<Rightarrow> bool" where
  "db_steps mw m \<longleftrightarrow> (\<forall>d. db_ok mw d \<longrightarrow> (db_step mw)\<^sup>*\<^sup>* d (snd (m d)))"

definition db_trace :: "u64 \<Rightarrow> (vstate, 'a) handler \<Rightarrow> bool" where
  "db_trace mw m \<longleftrightarrow> (\<forall>s. db_ok mw (v_db s) \<longrightarrow> (db_step mw)\<^sup>*\<^sup>* (v_db s) (v_db (snd (m s))))"

lemma db_steps_step: "(\<And>d. db_step mw d (snd (m d))) \<Longrightarrow> db_steps mw m"
  by (simp add: db_steps_def r_into_rtranclp)

lemma db_steps_idle: "(\<And>d. db_rows (snd (m d)) = db_rows d \<and> db_next_id (snd (m d)) = db_next_id d) \<Longrightarrow> db_steps mw m"
  by (intro db_steps_step db_step.idle) auto

lemma db_steps_basic: "db_steps mw (ret x)" "db_steps mw (fail e)" "db_steps mw (lift r)" "db_steps mw (read_st g)"
  by (simp_all add: db_steps_def)

lemma db_steps_seq:
  assumes "db_steps mw m" "\<And>x. db_steps mw (f x)"
  shows "db_steps mw (seq m f)"
  unfolding db_steps_def
proof (intro allI impI)
  fix d assume ok: "db_ok mw d"
  show "(db_step mw)\<^sup>*\<^sup>* d (snd (seq m f d))"
  proof (cases "m d")
    case (Pair r d')
    with assms(1) ok have 1: "(db_step mw)\<^sup>*\<^sup>* d d'" by (auto simp: db_steps_def dest: spec [of _ d])
    show ?thesis
    proof (cases r)
      case (Inr x)
      have "(db_step mw)\<^sup>*\<^sup>* d' (snd (f x d'))" using assms(2) requests.steps_inv [OF 1 ok] by (simp add: db_steps_def)
      with 1 have "(db_step mw)\<^sup>*\<^sup>* d (snd (f x d'))" by (rule rtranclp_trans)
      with Pair Inr show ?thesis by (simp add: seq_def)
    qed (use 1 Pair in \<open>simp add: seq_def\<close>)
  qed
qed

lemma db_steps_select: "db_steps mw (select_where env p)"
  using select_where_db by (intro db_steps_idle) blast

lemma db_steps_if: "db_steps mw m \<Longrightarrow> db_steps mw m' \<Longrightarrow> db_steps mw (if b then m else m')"
  by simp

lemmas db_steps_intros = db_steps_basic db_steps_seq db_steps_select db_steps_if

lemma db_steps_queries [trace_intros]:
  "db_steps mw (fetch_failed_request_count_by_block_range env s e l1 l2 c)"
  "db_steps mw (fetch_ranges_after_block env sts l c l1 l2)"
  "db_steps mw (fetch_request_count env st c l1 l2)"
  "db_steps mw (fetch_requests_by_status env st c l1 l2)"
  "db_steps mw (fetch_request env i)"
  "db_steps mw (get_consecutive_complete_range_proofs env s e c l1 l2)"
  "db_steps mw (get_complete_aggregation_range_proofs env s e c l1 l2)"
  "db_steps mw (get_max_l1_head_block_number_for_range env s e c l1 l2)"
  "db_steps mw (fetch_reusable_agg_checkpoint env s e c l1 l2)"
  "db_steps mw (fetch_active_agg_proofs_count env s c l1 l2)"
  "db_steps mw (fetch_unrequested_agg_proof env l c l1 l2)"
  "db_steps mw (fetch_first_unrequested_range_proof env l c l1 l2)"
  "db_steps mw (fetch_completed_ranges env c l l1 l2)"
  "db_steps mw (fetch_completed_range_metadata env c l l1 l2)"
  "db_steps mw (fetch_missing_range_metadata env c l l1 l2 n)"
  "db_steps mw (is_request_invalidated env i)"
  "db_steps mw (fetch_completed_agg_proof_after_block env l c l1 l2)"
  "db_steps mw (get_mock_aggregation_proof_by_request_id env i c l1 l2)"
  unfolding fetch_failed_request_count_by_block_range_def fetch_ranges_after_block_def fetch_request_count_def
    fetch_requests_by_status_def fetch_request_def get_complete_aggregation_range_proofs_def get_consecutive_complete_range_proofs_def
    get_max_l1_head_block_number_for_range_def fetch_reusable_agg_checkpoint_def fetch_active_agg_proofs_count_def
    fetch_unrequested_agg_proof_def fetch_first_unrequested_range_proof_def fetch_completed_ranges_def
    fetch_completed_range_metadata_def fetch_missing_range_metadata_def is_request_invalidated_def
    fetch_completed_agg_proof_after_block_def get_mock_aggregation_proof_by_request_id_def
  by (intro db_steps_intros)+

lemma db_steps_updates [trace_intros]:
  "db_steps mw (update_l1_head env i n h)"
  "db_steps mw (finish_invalidated_request env i)"
  "db_steps mw (invalidate_noncanonical_ranges env ids c l1 l2)"
  "db_steps mw (update_prove_duration env i)"
  "db_steps mw (update_proof_to_complete env i p)"
  "db_steps mw (update_witnessgen_duration env i dur)"
  "db_steps mw (update_request_to_prove env i pid)"
  "db_steps mw (update_request_to_prove_cluster env i ch)"
  "db_steps mw (update_request_to_relayed env i tx ca)"
  "db_steps mw (insert_execution_statistics env i stats dur)"
  "db_steps mw (cancel_prove_requests_with_different_commitment_config env c l1 l2)"
  "db_steps mw (delete_all_requests_with_statuses env sts l1 l2)"
  "fresh_request req \<Longrightarrow> db_steps mw (insert_request env req)"
  "\<forall>req \<in> set reqs. fresh_request req \<Longrightarrow> db_steps mw (insert_requests env reqs)"
  "st \<in> {Execution, Failed, Cancelled} \<Longrightarrow> db_steps mw (update_request_status env i st)"
  by (rule db_steps_step, rule db_step.intros(2-), assumption?)+

lemma db_steps_locks [trace_intros]:
  "db_steps mw (add_chain_lock env l1 l2)" "db_steps mw (is_chain_locked env l1 l2 n)" "db_steps mw (update_chain_lock env l1 l2)"
  by (intro db_steps_idle; auto simp: add_chain_lock_def is_chain_locked_def update_chain_lock_def db_call_def Let_def split: option.splits)+

lemma db_steps_try_start [trace_intros]: "db_steps mw (try_start_witness_generation env i mw mp)"
  unfolding db_steps_def
proof (intro allI impI)
  fix d assume ok: "db_ok mw d"
  show "(db_step mw)\<^sup>*\<^sup>* d (snd (try_start_witness_generation env i mw mp d))"
  proof (cases "fetch_request env i d")
    case (Pair x d1)
    have same: "db_rows d1 = db_rows d" using fetch_request_db Pair by (metis snd_conv)
    have fetch: "(db_step mw)\<^sup>*\<^sup>* d d1"
      using db_steps_queries(5) [of mw env i] ok Pair by (auto simp: db_steps_def dest: spec [of _ d])
    show ?thesis
    proof (cases x)
      case (Inr r)
      with Pair have r: "r \<in> set (db_rows d1)" "rq_id r = i" using fetch_request_Inr [of env i d r d1] same by auto
      have "distinct (map rq_id (db_rows d1))" using ok same by (simp add: db_ok_def)
      then have "\<forall>y \<in> set (db_rows d1). rq_id y = i \<longrightarrow> in_group r y"
        using r distinct_id_unique by (metis in_group_def)
      then have "db_step mw d1 (snd (admit_request env r i mw mp d1))" by (rule db_step.start)
      with fetch Pair Inr show ?thesis by (simp add: try_start_witness_generation_def seq_def rtranclp.rtrancl_into_rtrancl)
    qed (use fetch Pair in \<open>simp add: try_start_witness_generation_def seq_def\<close>)
  qed
qed

lemma db_trace_on_db [trace_intros]: "db_steps mw m \<Longrightarrow> db_trace mw (on_db m)"
  by (auto simp: db_trace_def db_steps_def on_db_def split: prod.splits)

lemma db_trace_basic [trace_intros]:
  "db_trace mw (ret x)" "db_trace mw (fail e)" "db_trace mw (lift r)" "db_trace mw (read_st g)"
  by (simp_all add: db_trace_def)

lemma db_trace_write: "(\<And>s. v_db (h s) = v_db s) \<Longrightarrow> db_trace mw (write_st h)"
  by (simp add: db_trace_def)

lemma db_trace_seq [trace_intros]:
  assumes "db_trace mw m" "\<And>x. db_trace mw (f x)"
  shows "db_trace mw (seq m f)"
  unfolding db_trace_def
proof (intro allI impI)
  fix s :: vstate assume ok: "db_ok mw (v_db s)"
  show "(db_step mw)\<^sup>*\<^sup>* (v_db s) (v_db (snd (seq m f s)))"
  proof (cases "m s")
    case (Pair r s')
    with assms(1) ok have 1: "(db_step mw)\<^sup>*\<^sup>* (v_db s) (v_db s')" by (auto simp: db_trace_def dest: spec [of _ s])
    show ?thesis
    proof (cases r)
      case (Inr x)
      have "(db_step mw)\<^sup>*\<^sup>* (v_db s') (v_db (snd (f x s')))" using assms(2) requests.steps_inv [OF 1 ok] by (simp add: db_trace_def)
      with 1 have "(db_step mw)\<^sup>*\<^sup>* (v_db s) (v_db (snd (f x s')))" by (rule rtranclp_trans)
      with Pair Inr show ?thesis by (simp add: seq_def)
    qed (use 1 Pair in \<open>simp add: seq_def\<close>)
  qed
qed

lemma db_trace_attempt [trace_intros]: "db_trace mw m \<Longrightarrow> db_trace mw (attempt m)"
proof -
  have "snd (attempt m s) = snd (m s)" for s by (auto simp: attempt_def split: prod.splits sum.splits err.splits)
  then show "db_trace mw m \<Longrightarrow> db_trace mw (attempt m)" by (simp add: db_trace_def)
qed

lemma db_trace_branch [trace_intros]:
  "(b \<Longrightarrow> db_trace mw m) \<Longrightarrow> (\<not> b \<Longrightarrow> db_trace mw m') \<Longrightarrow> db_trace mw (if b then m else m')"
  "db_trace mw m \<Longrightarrow> (\<And>v. db_trace mw (f v)) \<Longrightarrow> db_trace mw (case x of None \<Rightarrow> m | Some v \<Rightarrow> f v)"
  "(\<And>e. db_trace mw (g e)) \<Longrightarrow> (\<And>v. db_trace mw (f v)) \<Longrightarrow> db_trace mw (case y of Inl e \<Rightarrow> g e | Inr v \<Rightarrow> f v)"
  "(\<And>a b. db_trace mw (h a b)) \<Longrightarrow> db_trace mw (case p of (a, b) \<Rightarrow> h a b)"
  "(t = Range \<Longrightarrow> db_trace mw m) \<Longrightarrow> (t = Aggregation \<Longrightarrow> db_trace mw m') \<Longrightarrow> db_trace mw (case t of Range \<Rightarrow> m | Aggregation \<Rightarrow> m')"
  by (simp_all split: option.splits sum.splits prod.splits request_type.splits)

lemma db_trace_for_each [trace_intros]: "(\<And>x. db_trace mw (f x)) \<Longrightarrow> db_trace mw (for_each f xs)"
  by (induction xs) (auto intro: trace_intros)

lemma fresh_new_range: "fresh_request (new_range_request now mode s e v h bd l1 l2)"
  by (simp add: fresh_request_def new_range_request_def request_default_def)

lemma fresh_new_agg: "fresh_request (new_agg_request now mode s e v a h l1 l2 n ch p)"
  by (simp add: fresh_request_def new_agg_request_def request_default_def)

lemma create_range_request_Inr:
  "create_range_request env mode s e v h l1 l2 = Inr r \<Longrightarrow>
   (\<exists>bd. r = new_range_request (re_now env) mode s e v h bd l1 l2)"
  by (auto simp: create_range_request_def try_bind_eq_Inr)

lemma split_request_Inr:
  assumes "split_request cfg env req l1 l2 = Inr rs"
  obtains first second where "rs = [first, second]" "fresh_request first" "fresh_request second"
    "blocks_of first = (rq_start_block req, mid_block (rq_start_block req) (rq_end_block req))"
    "blocks_of second = (mid_block (rq_start_block req) (rq_end_block req), rq_end_block req)"
    "rq_type first = Range" "rq_type second = Range"
  using assms fresh_new_range
  by (fastforce simp: split_request_def Let_def try_bind_eq_Inr blocks_of_def new_range_request_def request_default_def
      dest: create_range_request_Inr)

lemma db_trace_insert_split: "db_trace mw (seq (lift (split_request cfg env req l1 l2)) (\<lambda>rs. on_db (insert_requests dbe rs)))"
proof (cases "split_request cfg env req l1 l2")
  case (Inl e)
  then show ?thesis by (simp add: db_trace_def)
next
  case (Inr rs)
  then obtain a b where "rs = [a, b]" "fresh_request a" "fresh_request b" by (rule split_request_Inr)
  then have "db_trace mw (on_db (insert_requests dbe rs))" by (intro trace_intros) simp
  with Inr show ?thesis by (simp add: db_trace_def)
qed

lemma trace_handle_failed_request [trace_intros]: "db_trace mw (handle_failed_request cfg env req st)"
  unfolding handle_failed_request_def by (intro trace_intros db_trace_insert_split) simp_all

lemma trace_handle_cancelled_request [trace_intros]: "db_trace mw (handle_cancelled_request env req)"
  unfolding handle_cancelled_request_def by (intro trace_intros) simp

lemma trace_submit_cluster_proof [trace_intros]: "db_trace mw (submit_cluster_proof env req r)"
  unfolding submit_cluster_proof_def by (intro trace_intros db_trace_write) simp

lemma trace_store_completed_proof [trace_intros]: "db_trace mw (store_completed_proof env i p)"
  unfolding store_completed_proof_def by (intro trace_intros)

lemma trace_generate_proof_stdin [trace_intros]: "db_trace mw (generate_proof_stdin cfg env req)"
  unfolding generate_proof_stdin_def range_proof_witnessgen_def agg_proof_witnessgen_def Let_def by (intro trace_intros)

lemma trace_dispatch [trace_intros]: "db_trace mw (dispatch_range_proof cfg env req i)" "db_trace mw (dispatch_agg_proof cfg env req i)"
  unfolding dispatch_range_proof_def dispatch_agg_proof_def generate_mock_range_proof_def generate_mock_agg_proof_def
  by (intro trace_intros)+

lemma trace_make_proof_request [trace_intros]: "db_trace mw (make_proof_request cfg env req mw mp)"
  unfolding make_proof_request_def by (intro trace_intros) simp

section \<open>Results of the calls\<close>

lemma on_db_Inr: "on_db m s = (Inr x, s') \<longleftrightarrow> (\<exists>d. m (v_db s) = (Inr x, d) \<and> s' = s\<lparr>v_db := d\<rparr>)"
  by (auto simp: on_db_def split: prod.splits)

lemma update_where_Inr:
  assumes "update_where env p f d = (Inr n, d')"
  obtains now where "n = count_rows p d" "db_rows d' = map (\<lambda>r. if p r then f now r else r) (db_rows d)" "db_next_id d' = db_next_id d"
  using assms that [of "db_now env (db_calls d)"]
  by (auto simp: update_where_def db_call_def Let_def update_rows_def count_rows_def split: option.splits)

lemma query_Inr:
  assumes "seq (select_where env p) (\<lambda>rs. ret (f rs)) d = (Inr x, d')"
  shows "x = f (filter p (db_rows d)) \<and> db_rows d' = db_rows d \<and> db_next_id d' = db_next_id d"
  using assms by (auto simp: seq_eq_Inr select_where_def db_call_def Let_def split: option.splits)

lemma is_request_invalidated_Inr:
  assumes "is_request_invalidated env i d = (Inr b, d')"
  obtains r where "r \<in> set (db_rows d)" "rq_id r = i" "b \<longleftrightarrow> \<not> valid r" "db_rows d' = db_rows d"
proof -
  from assms obtain r where r: "fetch_request env i d = (Inr r, d')" "b \<longleftrightarrow> \<not> valid r"
    by (auto simp: is_request_invalidated_def seq_eq_Inr)
  from fetch_request_Inr [OF r(1)] r(2) that show ?thesis by blast
qed

lemma fold_add_row_pair:
  "db_rows (fold add_row [a, b] d) = db_rows d @ [inserted_row (db_next_id d) a, inserted_row (db_next_id d + 1) b]"
  by (simp add: add_row_def)

lemma blocks_of_inserted [simp]: "blocks_of (inserted_row i r) = blocks_of r" "rq_status (inserted_row i r) = rq_status r"
  "rq_type (inserted_row i r) = rq_type r" "valid (inserted_row i r)"
  by (simp_all add: blocks_of_def inserted_row_def)

lemma mid_block_between:
  assumes "0 \<le> s" "e < 2 ^ 62" "1 < e - s"
  shows "s < mid_block s e" "mid_block s e < e"
proof -
  have "i64 (s + e) = s + e" using assms by (intro i64_id) simp_all
  then have "mid_block s e = (s + e) div 2" using assms by (simp add: mid_block_def)
  then show "s < mid_block s e" "mid_block s e < e" using assms by linarith+
qed

section \<open>Properties\<close>

text \<open>A range that cannot be executed is split, and the two halves tile it. When \<open>handle_failed_request\<close> succeeds for a valid range request of more
  than one block whose execution is impossible, the request is failed, and two queued range requests are added that cover exactly
  its blocks, one after the other.\<close>

theorem failed_request_split:
  assumes "handle_failed_request cfg env req Unexecutable s = (Inr (), s')" "rq_type req = Range"
    and "0 \<le> rq_start_block req" "rq_end_block req < 2 ^ 62" "1 < rq_end_block req - rq_start_block req"
    and "\<forall>r \<in> set (db_rows (v_db s)). rq_id r = rq_id req \<longrightarrow> valid r"
  shows "\<exists>now a b. db_rows (v_db s') =
      map (\<lambda>r. if rq_id r = rq_id req then set_status Failed now r else r) (db_rows (v_db s)) @ [a, b] \<and>
    chained (rq_start_block req) (rq_end_block req) [blocks_of a, blocks_of b] \<and>
    (\<forall>r \<in> {a, b}. rq_status r = Unrequested \<and> rq_type r = Range \<and> valid r)"
proof -
  let ?i = "rq_id req"
  have i64: "i64 (rq_end_block req - rq_start_block req) = rq_end_block req - rq_start_block req" using assms by (intro i64_id) simp_all
  from assms(1) obtain inv s1 where inv: "on_db (is_request_invalidated (re_db env) ?i) s = (Inr inv, s1)"
    and rest: "(if inv then seq (on_db (finish_invalidated_request (re_db env) ?i)) (\<lambda>_. ret ()) else
      seq (on_db (update_request_status (re_db env) ?i Failed)) (\<lambda>_.
      seq (lift (re_l1_chain_id env)) (\<lambda>l1_chain_id.
      seq (lift (re_l2_chain_id env)) (\<lambda>l2_chain_id.
      seq (on_db (fetch_failed_request_count_by_block_range (re_db env) (rq_start_block req) (rq_end_block req)
             (rq_l1_chain_id req) (rq_l2_chain_id req) (rc_commitments cfg))) (\<lambda>_.
      seq (lift (split_request cfg env req l1_chain_id l2_chain_id)) (\<lambda>new_requests.
      on_db (insert_requests (re_db env) new_requests))))))) s1 = (Inr (), s')"
    unfolding handle_failed_request_def using assms(2,5) i64 by (auto simp: seq_eq_Inr cong: if_cong)
  from inv obtain d1 where d1: "is_request_invalidated (re_db env) ?i (v_db s) = (Inr inv, d1)" "s1 = s\<lparr>v_db := d1\<rparr>" by (auto simp: on_db_Inr)
  from d1(1) obtain r where r: "r \<in> set (db_rows (v_db s))" "rq_id r = ?i" "inv \<longleftrightarrow> \<not> valid r" and rows1: "db_rows d1 = db_rows (v_db s)"
    by (rule is_request_invalidated_Inr)
  have "valid r" using assms(6) r(1,2) by simp
  with r(3) have "\<not> inv" by simp
  with rest obtain n d2 l1 l2 cnt d3 rs d4 where
    d2: "update_request_status (re_db env) ?i Failed d1 = (Inr n, d2)"
    and d3: "fetch_failed_request_count_by_block_range (re_db env) (rq_start_block req) (rq_end_block req)
             (rq_l1_chain_id req) (rq_l2_chain_id req) (rc_commitments cfg) d2 = (Inr cnt, d3)"
    and rs: "split_request cfg env req l1 l2 = Inr rs" and d4: "insert_requests (re_db env) rs d3 = (Inr (), d4)" "v_db s' = d4"
    by (auto simp: seq_eq_Inr on_db_Inr d1(2) simp del: seq_simps)
  from d2 obtain now where rows2: "db_rows d2 = map (\<lambda>r. if rq_id r = ?i then set_status Failed now r else r) (db_rows d1)"
    unfolding update_request_status_def by (rule update_where_Inr)
  have rows3: "db_rows d3 = db_rows d2"
    using query_Inr [OF d3 [unfolded fetch_failed_request_count_by_block_range_def]] by simp
  from rs obtain a b where ab: "rs = [a, b]" "fresh_request a" "fresh_request b"
    "blocks_of a = (rq_start_block req, mid_block (rq_start_block req) (rq_end_block req))"
    "blocks_of b = (mid_block (rq_start_block req) (rq_end_block req), rq_end_block req)" "rq_type a = Range" "rq_type b = Range"
    by (rule split_request_Inr)
  have rows4: "\<exists>i j. db_rows d4 = db_rows d3 @ [inserted_row i a, inserted_row j b]"
    using d4(1) by (auto simp: insert_requests_def db_call_def Let_def ab(1) add_row_def split: option.splits)
  then obtain i j where "db_rows (v_db s') = map (\<lambda>r. if rq_id r = ?i then set_status Failed now r else r) (db_rows (v_db s)) @
      [inserted_row i a, inserted_row j b]" using d4(2) rows3 rows2 rows1 by auto
  moreover have "chained (rq_start_block req) (rq_end_block req) [blocks_of (inserted_row i a), blocks_of (inserted_row j b)]"
    using ab mid_block_between [OF assms(3-5)] by simp
  moreover have "rq_status a = Unrequested" "rq_status b = Unrequested" using ab(2,3) by (simp_all add: fresh_request_def)
  ultimately show ?thesis using ab(6,7) by (intro exI [of _ now] exI [of _ "inserted_row i a"] exI [of _ "inserted_row j b"]) simp
qed

section \<open>Witnesses\<close>

definition sample_requester_config :: requester_config where
  "sample_requester_config = \<lparr> rc_commitments = sample_commitment, rc_range_vk_hash = [1], rc_network_prover = True, rc_mock = False,
     rc_cluster = False, rc_cluster_config = False \<rparr>"

definition sample_requester_env :: requester_env where
  "sample_requester_env = \<lparr> re_db = sample_db_env, re_now = 0, host_fetch = (\<lambda>s e. Inr []), host_l1_head_hash = (\<lambda>_. Some 101),
     host_run = Inr, re_l1 = sample_l1_headers, get_l2_block_data_range = (\<lambda>s e. Inr []), re_l1_chain_id = Inr 1, re_l2_chain_id = Inr 2,
     deserialize_proof = (\<lambda>_. Inr (Compressed, sample_boot 101 10 11 50)), network_prove_range = (\<lambda>_. Inr 77),
     network_prove_agg = (\<lambda>_. Inr 78), cluster_submit_range_proof = (\<lambda>_. Inl (Err ''no cluster'')),
     cluster_submit_agg_proof = (\<lambda>_. Inl (Err ''no cluster'')), execute_range = (\<lambda>_. Inr ([], [])), execute_agg = (\<lambda>_. Inr ([], [])),
     witnessgen_secs = 3, execution_secs = 4 \<rparr>"

definition sample_vstate :: "db \<Rightarrow> vstate" where
  "sample_vstate d = \<lparr> v_db = d, v_handles = [], v_tasks = [], v_txs = [] \<rparr>"

theorem failed_request_split_witness:
  "\<exists>now a b. db_rows (v_db (snd (handle_failed_request sample_requester_config sample_requester_env (hd (db_rows sample_proving))
        Unexecutable (sample_vstate sample_proving)))) =
      map (\<lambda>r. if rq_id r = 1 then set_status Failed now r else r) (db_rows sample_proving) @ [a, b] \<and>
    chained 0 10 [blocks_of a, blocks_of b]"
proof -
  let ?r = "hd (db_rows sample_proving)" and ?s = "sample_vstate sample_proving"
  let ?h = "handle_failed_request sample_requester_config sample_requester_env ?r Unexecutable ?s"
  have run: "?h = (Inr (), snd ?h)" by (rule prod_eqI, code_simp) simp
  have r: "rq_type ?r = Range \<and> rq_start_block ?r = 0 \<and> rq_end_block ?r = 10 \<and> rq_id ?r = 1" by code_simp
  have v: "\<forall>r \<in> set (db_rows (v_db ?s)). rq_id r = rq_id ?r \<longrightarrow> valid r" by code_simp
  have rows: "db_rows (v_db ?s) = db_rows sample_proving" by (simp add: sample_vstate_def)
  have "\<exists>now a b. db_rows (v_db (snd ?h)) =
      map (\<lambda>r. if rq_id r = rq_id ?r then set_status Failed now r else r) (db_rows (v_db ?s)) @ [a, b] \<and>
    chained (rq_start_block ?r) (rq_end_block ?r) [blocks_of a, blocks_of b] \<and>
    (\<forall>r \<in> {a, b}. rq_status r = Unrequested \<and> rq_type r = Range \<and> valid r)"
    by (rule failed_request_split [OF run _ _ _ _ v]) (simp_all add: r)
  then show ?thesis unfolding rows using r by auto
qed

end
