(* ===== verification/Validity.thy ===== *)
theory Validity
  imports ProofRequester
begin

text \<open>
  The validity proposer, \<open>validity/src/proposer.rs\<close>: it keeps a table of range and aggregation requests ahead of the chain, drives
  their proofs, checks that completed ranges still rest on canonical L1 blocks, aggregates them and relays the aggregation on chain.

  A handler takes the answers of the nodes and of the prover network for its run (\<open>venv\<close>, which holds the requester's environment); one
  turn of the loop takes one such environment per handler. The L1 transactions that were sent are recorded in \<open>v_txs\<close>. Proof
  tasks are entries of \<open>v_tasks\<close>: the loop starts them and collects their results; their body is \<open>make_proof_request\<close>.
\<close>

section \<open>Configuration and environment\<close>

record vconfig =
  vc_requester :: requester_config
  vc_l1_chain_id :: int
  vc_l2_chain_id :: int
  vc_evm_gas_limit :: u64
  vc_range_proof_interval :: u64
  vc_submission_interval :: u64
  vc_max_concurrent_witness_gen :: u64
  vc_max_concurrent_proof_requests :: u64
  vc_proving_timeout :: u64
  vc_auction_timeout :: u64
  vc_loop_interval :: u64
  vc_agglayer :: bool
  vc_mainnet :: bool
  vc_private_stdin :: bool
  vc_dgf_address :: address
  vc_l2oo_address :: address
  vc_config_name_hash :: b256
  vc_signer_address :: address

abbreviation vc_commitments :: "vconfig \<Rightarrow> commitment_config" where
  "vc_commitments cfg \<equiv> rc_commitments (vc_requester cfg)"

abbreviation vc_mock :: "vconfig \<Rightarrow> bool" where
  "vc_mock cfg \<equiv> rc_mock (vc_requester cfg)"

text \<open>Fulfillment statuses of the prover network: the three the sources test for, and any other.\<close>

datatype fulfillment_status = Requested | Fulfilled | Unfulfillable | OtherFulfillmentStatus

record proof_status =
  ps_fulfillment :: fulfillment_status
  ps_execution :: execution_status
  ps_deadline :: u64

record proof_request_details =
  pd_fulfillment :: fulfillment_status
  pd_created_at :: u64
  pd_statistics :: string

record tx_receipt =
  tr_status :: bool
  tr_hash :: b256

record venv =
  ve_requester :: requester_env
  ve_time :: u64
  ve_utc_now :: int
  ve_hash_slow :: "consensus_header \<Rightarrow> b256"
  ve_latest_block_number :: "u256 result"
  ve_max_provable_l2_block :: "u64 result"
  ve_safe_l1_header :: "consensus_header result"
  ve_submission_interval :: "u256 result"
  ve_historic_block_hash :: "u256 \<Rightarrow> b256 result"
  ve_contract_config :: "b256 \<Rightarrow> commitment_config result"
  ve_l2_output_root :: "u64 \<Rightarrow> b256 result"
  ve_init_bond :: "u256 result"
  ve_send :: "validity_tx \<Rightarrow> tx_receipt result"
  ve_proof_status :: "b256 \<Rightarrow> (proof_status \<times> (sp1_proof \<times> u8 list) option) result option"
  ve_proof_request :: "b256 \<Rightarrow> proof_request_details option result option"
  ve_cancel_request :: "b256 \<Rightarrow> unit result option"
  ve_cluster_poll :: "cluster_proof_request \<Rightarrow> (sp1_proof \<times> u8 list) option result"
  ve_l2_safe_head_at :: "u64 \<Rightarrow> u64 result"
  ve_l2_latest_header :: "u64 result"
  ve_l2_finalized_header :: "u64 result"

abbreviation ve_db :: "venv \<Rightarrow> db_env" where
  "ve_db env \<equiv> re_db (ve_requester env)"

definition get_latest_proposed_block_number :: "venv \<Rightarrow> u64 result" where
  "get_latest_proposed_block_number env = try_bind (ve_latest_block_number env) to_u64"

text \<open>A call of the prover network that does not answer in time is \<open>None\<close>.\<close>

definition network_call_with_timeout :: "'a result option \<Rightarrow> 'a result" where
  "network_call_with_timeout answer =
     (case answer of None \<Rightarrow> Inl (Err ''Timeout'') | Some (Inl e) \<Rightarrow> Inl (Err (''Network error '' @ to_string e)) | Some (Inr x) \<Rightarrow> Inr x)"

text \<open>A transaction is recorded when it is sent, whatever comes back.\<close>

definition send_tx :: "venv \<Rightarrow> validity_tx \<Rightarrow> (vstate, tx_receipt) handler" where
  "send_tx env tx = seq (write_st (\<lambda>s. s\<lparr>v_txs := v_txs s @ [tx]\<rparr>)) (\<lambda>_. lift (ve_send env tx))"

section \<open>Pure helpers\<close>

definition auction_timed_out :: "bool \<Rightarrow> request_type \<Rightarrow> fulfillment_status \<Rightarrow> u64 \<Rightarrow> u64 \<Rightarrow> bool" where
  "auction_timed_out agglayer t status now deadline \<longleftrightarrow> \<not> (agglayer \<and> t = Aggregation) \<and> status = Requested \<and> now > deadline"

definition select_checkpoint_block_number :: "u64 \<Rightarrow> u64 option \<Rightarrow> u64" where
  "select_checkpoint_block_number safe batch_max = (case batch_max of None \<Rightarrow> safe | Some m \<Rightarrow> max m safe)"

fun contiguous_loop :: "int \<Rightarrow> bool \<Rightarrow> range list \<Rightarrow> int option result" where
  "contiguous_loop current_end found [] = Inr (if found then Some current_end else None)"
| "contiguous_loop current_end found ((start, end) # rest) =
     (if start > current_end then Inr (if found then Some current_end else None)
      else if start < current_end then Inl (Err ''Completed range overlaps the contiguous chain'')
      else if end \<le> start then Inl (Err ''Completed range is empty or reversed'')
      else contiguous_loop end True rest)"

definition highest_contiguous_end :: "int \<Rightarrow> range list \<Rightarrow> int option result" where
  "highest_contiguous_end expected_start completed = contiguous_loop expected_start False completed"

definition i64_try_from :: "u64 \<Rightarrow> int option" where
  "i64_try_from x = (if uint x < 2 ^ 63 then Some (uint x) else None)"

definition u64_try_from :: "int \<Rightarrow> u64 option" where
  "u64_try_from x = (if 0 \<le> x then Some (word_of_int x) else None)"

section \<open>New ranges\<close>

text \<open>\<open>all_block_infos\<close>: the block data of every gap, by block number; a later entry for the same number wins.\<close>

definition collect_block_infos :: "requester_env \<Rightarrow> range list \<Rightarrow> (int \<Rightarrow> l2_block_data option) result" where
  "collect_block_infos env ranges =
     try_bind (try_map (\<lambda>(s, e). get_l2_block_data_range env (as_u64 s) (as_u64 e)) (filter (\<lambda>(s, e). s < e) ranges)) (\<lambda>data.
     Inr (map_of (rev (map (\<lambda>b. (as_i64 (ld_block_number b), b)) (concat data)))))"

text \<open>The block-count split pushes a range in every turn of its loop: if it does not end, the allocation of the ranges fails.\<close>

definition ranges_to_prove :: "vconfig \<Rightarrow> requester_env \<Rightarrow> range list \<Rightarrow> range list result" where
  "ranges_to_prove cfg env disjoint_ranges =
     (if vc_evm_gas_limit cfg > 0 then
        try_bind (collect_block_infos env disjoint_ranges) (\<lambda>infos.
        get_ranges_to_prove_by_gas disjoint_ranges (vc_evm_gas_limit cfg) (as_i64 (vc_range_proof_interval cfg)) infos)
      else case get_ranges_to_prove_by_blocks disjoint_ranges (as_i64 (vc_range_proof_interval cfg)) of
             None \<Rightarrow> Inl (Panic ''capacity overflow'')
           | Some ranges \<Rightarrow> Inr ranges)"

definition request_mode_of :: "vconfig \<Rightarrow> request_mode" where
  "request_mode_of cfg = (if vc_mock cfg then Mock else Real)"

definition add_new_ranges :: "vconfig \<Rightarrow> venv \<Rightarrow> (vstate, unit) handler" where
  "add_new_ranges cfg env =
     seq (lift (get_latest_proposed_block_number env)) (\<lambda>latest.
     seq (lift (ve_max_provable_l2_block env)) (\<lambda>finalized.
     seq (on_db (fetch_ranges_after_block (ve_db env) active_statuses (as_i64 latest) (vc_commitments cfg)
            (vc_l1_chain_id cfg) (vc_l2_chain_id cfg))) (\<lambda>requests.
     let disjoint_ranges = find_gaps (as_i64 latest) (as_i64 finalized) (sort_key fst requests) in
     seq (lift (ranges_to_prove cfg (ve_requester env) disjoint_ranges)) (\<lambda>ranges.
     if ranges = [] then ret () else
     seq (lift (try_map (\<lambda>(s, e). create_range_request (ve_requester env) (request_mode_of cfg) s e
            (cc_range_vkey_commitment (vc_commitments cfg)) (cc_rollup_config_hash (vc_commitments cfg))
            (vc_l1_chain_id cfg) (vc_l2_chain_id cfg)) ranges)) (\<lambda>new_requests.
     on_db (insert_requests (ve_db env) new_requests))))))"

section \<open>Canonicality of completed ranges\<close>

definition RANGE_METADATA_HYDRATION_LIMIT :: nat where
  "RANGE_METADATA_HYDRATION_LIMIT = 100"

definition hydrated_head :: "vconfig \<Rightarrow> venv \<Rightarrow> request \<Rightarrow> (int \<times> b256) result" where
  "hydrated_head cfg env rng =
     try_bind (ok_or ''Completed range has no proof bytes'' (rq_proof rng)) (\<lambda>proof_bytes.
     try_bind (deserialize_proof (ve_requester env) proof_bytes) (\<lambda>(_, boot_info).
     try_bind (ok_or ''Completed range end block is negative'' (u64_try_from (rq_end_block rng))) (\<lambda>expected_end_block.
     try_bind (ensure (bis_l2BlockNumber boot_info = expected_end_block) ''Completed range reports another L2 block'') (\<lambda>_.
     try_bind (ensure (bis_rollupConfigHash boot_info = cc_rollup_config_hash (vc_commitments cfg))
       ''Completed range has a different rollup config hash'') (\<lambda>_.
     try_bind (case rq_l1_head_block_number rng of
                 Some number \<Rightarrow> ok_or ''Completed range L1 head number is negative'' (u64_try_from number)
               | None \<Rightarrow> try_bind (l1_header_by_hash (re_l1 (ve_requester env)) (bis_l1Head boot_info)) (\<lambda>h. Inr (ch_number h))) (\<lambda>l1_head_number.
     try_bind (ok_or ''Completed range L1 head is too large'' (i64_try_from l1_head_number)) (\<lambda>number.
     Inr (number, bis_l1Head boot_info))))))))"

definition hydrate_range :: "vconfig \<Rightarrow> venv \<Rightarrow> request \<Rightarrow> (vstate, unit) handler" where
  "hydrate_range cfg env rng =
     seq (lift (hydrated_head cfg env rng)) (\<lambda>(number, hash).
     seq (on_db (update_l1_head (ve_db env) (rq_id rng) number hash)) (\<lambda>_. ret ()))"

definition l1_head_number_of :: "request \<Rightarrow> u64 result" where
  "l1_head_number_of rng =
     try_bind (ok_or ''Completed range has no L1 head number'' (rq_l1_head_block_number rng)) (\<lambda>n.
     ok_or ''Completed range L1 head number is negative'' (u64_try_from n))"

fun fetch_canonical_hashes :: "venv \<Rightarrow> (u64, b256) hashmap \<Rightarrow> request list \<Rightarrow> (u64, b256) hashmap result" where
  "fetch_canonical_hashes env m [] = Inr m"
| "fetch_canonical_hashes env m (rng # rest) =
     try_bind (l1_head_number_of rng) (\<lambda>n.
     if hm_get m n = None then
       try_bind (l1_header_by_number (re_l1 (ve_requester env)) n) (\<lambda>header.
       fetch_canonical_hashes env (hm_insert n (ve_hash_slow env header) m) rest)
     else fetch_canonical_hashes env m rest)"

fun stale_range_ids :: "(u64, b256) hashmap \<Rightarrow> request list \<Rightarrow> int list result" where
  "stale_range_ids m [] = Inr []"
| "stale_range_ids m (rng # rest) =
     try_bind (l1_head_number_of rng) (\<lambda>n.
     try_bind (ok_or ''Completed range has no L1 head hash'' (rq_l1_head_block_hash rng)) (\<lambda>stored_hash.
     try_bind (ok_or ''Canonical L1 hash was not fetched'' (hm_get m n)) (\<lambda>canonical_hash.
     try_bind (stale_range_ids m rest) (\<lambda>ids.
     Inr (if canonical_hash \<noteq> stored_hash then rq_id rng # ids else ids)))))"

definition reconcile_completed_range_canonicality :: "vconfig \<Rightarrow> venv \<Rightarrow> (vstate, bool) handler" where
  "reconcile_completed_range_canonicality cfg env =
     seq (lift (get_latest_proposed_block_number env)) (\<lambda>latest.
     seq (on_db (fetch_missing_range_metadata (ve_db env) (vc_commitments cfg) (as_i64 latest) (vc_l1_chain_id cfg) (vc_l2_chain_id cfg)
            (RANGE_METADATA_HYDRATION_LIMIT + 1))) (\<lambda>missing.
     seq (for_each (hydrate_range cfg env) (take RANGE_METADATA_HYDRATION_LIMIT missing)) (\<lambda>_.
     if length missing > RANGE_METADATA_HYDRATION_LIMIT then ret False else
     seq (on_db (fetch_completed_range_metadata (ve_db env) (vc_commitments cfg) (as_i64 latest) (vc_l1_chain_id cfg) (vc_l2_chain_id cfg)))
       (\<lambda>completed_ranges.
     seq (lift (fetch_canonical_hashes env [] completed_ranges)) (\<lambda>canonical_hashes.
     seq (lift (stale_range_ids canonical_hashes completed_ranges)) (\<lambda>ids.
     seq (on_db (invalidate_noncanonical_ranges (ve_db env) ids (vc_commitments cfg) (vc_l1_chain_id cfg) (vc_l2_chain_id cfg))) (\<lambda>_.
     ret True)))))))"

section \<open>Proofs in progress\<close>

definition handle_terminal_proof_failure_before_request_details ::
  "request \<Rightarrow> proof_status \<Rightarrow> u64 \<Rightarrow> (request \<Rightarrow> execution_status \<Rightarrow> (vstate, unit) handler) \<Rightarrow> (vstate, 'a) handler \<Rightarrow> (vstate, 'a option) handler" where
  "handle_terminal_proof_failure_before_request_details req status current_time handle_failed request_details =
     (if current_time > ps_deadline status then seq (handle_failed req (ps_execution status)) (\<lambda>_. ret None)
      else if ps_fulfillment status \<noteq> Unfulfillable then seq request_details (\<lambda>d. ret (Some d))
      else seq (handle_failed req (ps_execution status)) (\<lambda>_. ret None))"

definition proof_to_bytes :: "sp1_proof \<times> u8 list \<Rightarrow> u8 list result" where
  "proof_to_bytes p = (case fst p of Core \<Rightarrow> Inl (Err ''Core proofs are not supported.'') | _ \<Rightarrow> Inr (snd p))"

text \<open>The branch of a fulfilled request.\<close>

definition complete_request :: "venv \<Rightarrow> request \<Rightarrow> b256 \<Rightarrow> (sp1_proof \<times> u8 list) option \<Rightarrow> (vstate, unit) handler" where
  "complete_request env req proof_request_id proof =
     seq (lift (ok_or ''Network reported Fulfilled but returned no proof'' proof)) (\<lambda>p.
     seq (lift (proof_to_bytes p)) (\<lambda>proof_bytes.
     seq (on_db (update_proof_to_complete (ve_db env) (rq_id req) proof_bytes)) (\<lambda>stored.
     seq (lift (ensure stored ''Request could not transition to Complete'')) (\<lambda>_.
     seq (on_db (update_prove_duration (ve_db env) (rq_id req))) (\<lambda>_.
     seq (lift (network_call_with_timeout (ve_proof_request env proof_request_id))) (\<lambda>details.
     case details of
       None \<Rightarrow> ret ()
     | Some d \<Rightarrow> seq (on_db (insert_execution_statistics (ve_db env) (rq_id req) (pd_statistics d) 0)) (\<lambda>_. ret ())))))))"

text \<open>The branch of an invalidated request that the network has not settled.\<close>

definition cancel_invalidated :: "vconfig \<Rightarrow> venv \<Rightarrow> request \<Rightarrow> b256 \<Rightarrow> (vstate, unit) handler" where
  "cancel_invalidated cfg env req proof_request_id =
     (if vc_mainnet cfg then
        seq (lift (network_call_with_timeout (ve_proof_request env proof_request_id))) (\<lambda>details.
        if (case details of None \<Rightarrow> False | Some d \<Rightarrow> pd_fulfillment d = Requested) then
          seq (lift (network_call_with_timeout (ve_cancel_request env proof_request_id))) (\<lambda>_.
          seq (on_db (finish_invalidated_request (ve_db env) (rq_id req))) (\<lambda>_. ret ()))
        else ret ())
      else ret ())"

definition process_proof_request_status :: "vconfig \<Rightarrow> venv \<Rightarrow> request \<Rightarrow> (vstate, unit) handler" where
  "process_proof_request_status cfg env req =
     seq (lift (ensure (rc_network_prover (vc_requester cfg)) ''network_prover required for proof status polling'')) (\<lambda>_.
     case rq_proof_request_id req of
       None \<Rightarrow> ret ()
     | Some proof_request_id \<Rightarrow>
         seq (lift (network_call_with_timeout (ve_proof_status env proof_request_id))) (\<lambda>(status, proof).
         seq (on_db (is_request_invalidated (ve_db env) (rq_id req))) (\<lambda>invalidated.
         if invalidated \<and> (ps_fulfillment status = Fulfilled \<or> ps_fulfillment status = Unfulfillable \<or> ve_time env > ps_deadline status) then
           seq (on_db (finish_invalidated_request (ve_db env) (rq_id req))) (\<lambda>_. ret ())
         else if invalidated then cancel_invalidated cfg env req proof_request_id
         else
           seq (handle_terminal_proof_failure_before_request_details req status (ve_time env)
                  (handle_failed_request (vc_requester cfg) (ve_requester env))
                  (if ps_fulfillment status = Fulfilled \<or> \<not> vc_mainnet cfg then ret None
                   else lift (network_call_with_timeout (ve_proof_request env proof_request_id)))) (\<lambda>outcome.
           case outcome of
             None \<Rightarrow> ret ()
           | Some request_details \<Rightarrow>
               if ps_fulfillment status = Fulfilled then complete_request env req proof_request_id proof
               else (case request_details of
                       None \<Rightarrow> ret ()
                     | Some d \<Rightarrow>
                         if vc_mainnet cfg \<and> auction_timed_out (vc_agglayer cfg) (rq_type req) (pd_fulfillment d) (ve_time env)
                              (pd_created_at d + vc_auction_timeout cfg) then
                           seq (lift (network_call_with_timeout (ve_cancel_request env proof_request_id))) (\<lambda>_.
                           handle_cancelled_request (ve_requester env) req)
                         else ret ())))))"

definition MAX_CONSECUTIVE_POLL_FAILURES :: u32 where
  "MAX_CONSECUTIVE_POLL_FAILURES = 3"

definition remove_handle :: "request \<Rightarrow> (vstate, unit) handler" where
  "remove_handle req = write_st (\<lambda>s. s\<lparr>v_handles := hm_remove (rq_id req) (v_handles s)\<rparr>)"

definition set_handle :: "request \<Rightarrow> cluster_proof_handle \<Rightarrow> (vstate, unit) handler" where
  "set_handle req h = write_st (\<lambda>s. s\<lparr>v_handles := hm_insert (rq_id req) h (v_handles s)\<rparr>)"

definition fail_cluster_request :: "vconfig \<Rightarrow> venv \<Rightarrow> request \<Rightarrow> (vstate, unit) handler" where
  "fail_cluster_request cfg env req =
     seq (remove_handle req) (\<lambda>_. handle_failed_request (vc_requester cfg) (ve_requester env) req OtherExecutionStatus)"

definition fail_or_finish :: "vconfig \<Rightarrow> venv \<Rightarrow> request \<Rightarrow> bool \<Rightarrow> (vstate, unit) handler" where
  "fail_or_finish cfg env req invalidated =
     (if invalidated then
        seq (remove_handle req) (\<lambda>_.
        seq (on_db (finish_invalidated_request (ve_db env) (rq_id req))) (\<lambda>_. ret ()))
      else fail_cluster_request cfg env req)"

definition reconstruct_proof_request :: "int \<Rightarrow> cluster_proof_handle_json \<Rightarrow> int \<Rightarrow> cluster_proof_request" where
  "reconstruct_proof_request now handle_json remaining =
     \<lparr> cp_proof_id = cj_proof_id handle_json, cp_proof_output_id = cj_proof_output_id handle_json, cp_deadline = now + remaining \<rparr>"

definition lookup_proof_request :: "vconfig \<Rightarrow> venv \<Rightarrow> request \<Rightarrow> (vstate, cluster_proof_request) handler" where
  "lookup_proof_request cfg env req =
     seq (read_st (\<lambda>s. hm_get (v_handles s) (rq_id req))) (\<lambda>cached.
     case cached of
       Some h \<Rightarrow> ret (ch_proof_request h)
     | None \<Rightarrow>
         seq (lift (ok_or ''Cluster proof request in Prove status has no cluster_proof_handle'' (rq_cluster_proof_handle req))) (\<lambda>handle_json.
         seq (lift (ok_or ''Cluster proof request in Prove status has no proof_request_time'' (rq_proof_request_time req))) (\<lambda>t.
         let elapsed = max (ve_utc_now env - t) 0;
             remaining = max (uint (vc_proving_timeout cfg) - elapsed) 0;
             pr = reconstruct_proof_request (ve_utc_now env) handle_json remaining in
         seq (set_handle req \<lparr> ch_proof_request = pr, ch_consecutive_poll_failures = 0 \<rparr>) (\<lambda>_. ret pr))))"

definition count_poll_failure :: "request \<Rightarrow> (vstate, bool) handler" where
  "count_poll_failure req =
     seq (read_st (\<lambda>s. hm_get (v_handles s) (rq_id req))) (\<lambda>handle.
     case handle of
       None \<Rightarrow> ret True
     | Some h \<Rightarrow>
         let h' = h\<lparr>ch_consecutive_poll_failures := ch_consecutive_poll_failures h + 1\<rparr> in
         seq (set_handle req h') (\<lambda>_. ret (ch_consecutive_poll_failures h' \<ge> MAX_CONSECUTIVE_POLL_FAILURES)))"

definition reset_poll_failures :: "request \<Rightarrow> (vstate, unit) handler" where
  "reset_poll_failures req =
     seq (read_st (\<lambda>s. hm_get (v_handles s) (rq_id req))) (\<lambda>handle.
     case handle of None \<Rightarrow> ret () | Some h \<Rightarrow> set_handle req (h\<lparr>ch_consecutive_poll_failures := 0\<rparr>))"

definition process_cluster_proof_status :: "vconfig \<Rightarrow> venv \<Rightarrow> request \<Rightarrow> (vstate, unit) handler" where
  "process_cluster_proof_status cfg env req =
     seq (lift (ensure (rc_cluster_config (vc_requester cfg)) ''cluster_config required for cluster proof polling'')) (\<lambda>_.
     seq (on_db (is_request_invalidated (ve_db env) (rq_id req))) (\<lambda>invalidated.
     if (case rq_proof_request_time req of None \<Rightarrow> False
         | Some t \<Rightarrow> max (ve_utc_now env - t) 0 > as_i64 (vc_proving_timeout cfg)) then fail_or_finish cfg env req invalidated
     else
       seq (lookup_proof_request cfg env req) (\<lambda>proof_request.
       case ve_cluster_poll env proof_request of
         Inr (Some proof) \<Rightarrow>
           if invalidated then
             seq (remove_handle req) (\<lambda>_. seq (on_db (finish_invalidated_request (ve_db env) (rq_id req))) (\<lambda>_. ret ()))
           else
             seq (lift (proof_to_bytes proof)) (\<lambda>proof_bytes.
             seq (on_db (update_proof_to_complete (ve_db env) (rq_id req) proof_bytes)) (\<lambda>stored.
             seq (lift (ensure stored ''Request could not transition to Complete'')) (\<lambda>_.
             seq (on_db (update_prove_duration (ve_db env) (rq_id req))) (\<lambda>_.
             remove_handle req))))
       | Inr None \<Rightarrow> reset_poll_failures req
       | Inl e \<Rightarrow>
           seq (count_poll_failure req) (\<lambda>should_fail.
           if should_fail then fail_or_finish cfg env req invalidated else ret ()))))"

definition handle_proving_requests :: "vconfig \<Rightarrow> venv \<Rightarrow> (vstate, unit) handler" where
  "handle_proving_requests cfg env =
     (if is_synchronous_proving (vc_requester cfg) then ret () else
      seq (on_db (fetch_requests_by_status (ve_db env) Prove (vc_commitments cfg) (vc_l1_chain_id cfg) (vc_l2_chain_id cfg))) (\<lambda>requests.
      for_each (\<lambda>req.
        if rc_cluster (vc_requester cfg) then seq (attempt (process_cluster_proof_status cfg env req)) (\<lambda>_. ret ())
        else process_proof_request_status cfg env req) requests))"

section \<open>Aggregation requests\<close>

text \<open>The checkpoint of an earlier request for the same blocks is used again only if the contract still has it and it covers the batch.\<close>

definition reuse_checkpoint :: "venv \<Rightarrow> u64 option \<Rightarrow> (b256 \<times> int) option \<Rightarrow> (b256 \<times> int) option result" where
  "reuse_checkpoint env batch_max existing =
     (case existing of
        None \<Rightarrow> Inr None
      | Some (existing_hash, existing_number) \<Rightarrow>
          try_bind (ok_or ''Existing checkpointed L1 block number is negative'' (u64_try_from existing_number)) (\<lambda>number.
          try_bind (ve_historic_block_hash env (u256_of_u64 number)) (\<lambda>onchain_hash.
          Inr (if onchain_hash = 0 then None
               else if onchain_hash \<noteq> existing_hash then None
               else if (case batch_max of None \<Rightarrow> False | Some m \<Rightarrow> number < m) then None
               else Some (existing_hash, existing_number)))))"

definition new_checkpoint :: "vconfig \<Rightarrow> venv \<Rightarrow> u64 option \<Rightarrow> (vstate, b256 \<times> int) handler" where
  "new_checkpoint cfg env batch_max =
     seq (lift (ve_safe_l1_header env)) (\<lambda>safe_header.
     let checkpoint_number = select_checkpoint_block_number (ch_number safe_header) batch_max in
     seq (lift (if checkpoint_number = ch_number safe_header then Inr safe_header
                else l1_header_by_number (re_l1 (ve_requester env)) checkpoint_number)) (\<lambda>checkpoint_header.
     seq (send_tx env (CheckpointBlockHash (u256_of_u64 (ch_number checkpoint_header)))) (\<lambda>receipt.
     if \<not> tr_status receipt then fail (Err ''Checkpoint block transaction reverted'') else
     ret (ve_hash_slow env checkpoint_header, as_i64 (ch_number checkpoint_header)))))"

definition batch_max_l1_head :: "vconfig \<Rightarrow> venv \<Rightarrow> int \<Rightarrow> int \<Rightarrow> (vstate, u64 option) handler" where
  "batch_max_l1_head cfg env start_block end_block =
     seq (on_db (get_max_l1_head_block_number_for_range (ve_db env) start_block end_block (vc_commitments cfg)
            (vc_l1_chain_id cfg) (vc_l2_chain_id cfg))) (\<lambda>m.
     lift (case m of None \<Rightarrow> Inr None
           | Some n \<Rightarrow> try_bind (ok_or ''Range proof l1_head_block_number is negative'' (u64_try_from n)) (\<lambda>x. Inr (Some x))))"

text \<open>The request for a batch that is long enough: its checkpoint, and the row.\<close>

definition request_aggregation :: "vconfig \<Rightarrow> venv \<Rightarrow> int \<Rightarrow> int \<Rightarrow> (vstate, unit) handler" where
  "request_aggregation cfg env latest highest_proven =
     (let c = vc_commitments cfg; l1 = vc_l1_chain_id cfg; l2 = vc_l2_chain_id cfg in
      seq (on_db (fetch_reusable_agg_checkpoint (ve_db env) latest highest_proven c l1 l2)) (\<lambda>existing_request.
      seq (batch_max_l1_head cfg env latest highest_proven) (\<lambda>batch_max.
      seq (lift (reuse_checkpoint env batch_max existing_request)) (\<lambda>reuse.
      seq (case reuse of Some r \<Rightarrow> ret r | None \<Rightarrow> new_checkpoint cfg env batch_max) (\<lambda>(checkpoint_hash, checkpoint_number).
      seq (on_db (insert_request (ve_db env)
             (new_agg_request (re_now (ve_requester env)) (request_mode_of cfg) latest highest_proven
                (cc_range_vkey_commitment c) (cc_agg_vkey_hash c) (cc_rollup_config_hash c) l1 l2
                checkpoint_number checkpoint_hash (vc_signer_address cfg)))) (\<lambda>_. ret ()))))))"

definition create_aggregation_proofs :: "vconfig \<Rightarrow> venv \<Rightarrow> (vstate, unit) handler" where
  "create_aggregation_proofs cfg env =
     (let c = vc_commitments cfg; l1 = vc_l1_chain_id cfg; l2 = vc_l2_chain_id cfg in
      seq (lift (get_latest_proposed_block_number env)) (\<lambda>latest_u64.
      let latest = as_i64 latest_u64 in
      seq (on_db (fetch_active_agg_proofs_count (ve_db env) latest c l1 l2)) (\<lambda>active_agg_proofs_count.
      if active_agg_proofs_count > 0 then ret () else
      seq (on_db (fetch_completed_ranges (ve_db env) c latest l1 l2)) (\<lambda>completed_range_proofs.
      seq (lift (highest_contiguous_end latest completed_range_proofs)) (\<lambda>highest.
      case highest of
        None \<Rightarrow> ret ()
      | Some highest_proven \<Rightarrow>
          seq (lift (try_bind (ve_submission_interval env) to_u64)) (\<lambda>contract_submission_interval.
          let submission_interval = as_i64 (max contract_submission_interval (vc_submission_interval cfg)) in
          if i64 (highest_proven - latest) \<ge> submission_interval then request_aggregation cfg env latest highest_proven
          else ret ()))))))"

section \<open>Starting queued proofs\<close>

fun consecutive_without_gap :: "request list \<Rightarrow> bool" where
  "consecutive_without_gap (prev # cur # rest) \<longleftrightarrow>
     \<not> rq_end_block prev < rq_start_block cur \<and> \<not> rq_end_block prev > rq_start_block cur \<and> consecutive_without_gap (cur # rest)"
| "consecutive_without_gap _ \<longleftrightarrow> True"

definition validate_aggregation_request :: "request list \<Rightarrow> request \<Rightarrow> bool" where
  "validate_aggregation_request range_proofs agg_request \<longleftrightarrow>
     range_proofs \<noteq> [] \<and> rq_start_block (hd range_proofs) = rq_start_block agg_request \<and>
     rq_end_block (last range_proofs) = rq_end_block agg_request \<and> consecutive_without_gap range_proofs"

definition get_next_unrequested_proof :: "vconfig \<Rightarrow> venv \<Rightarrow> (vstate, request option) handler" where
  "get_next_unrequested_proof cfg env =
     (let c = vc_commitments cfg; l1 = vc_l1_chain_id cfg; l2 = vc_l2_chain_id cfg in
      seq (lift (get_latest_proposed_block_number env)) (\<lambda>latest.
      let next_range = on_db (fetch_first_unrequested_range_proof (ve_db env) (as_i64 latest) c l1 l2) in
      if vc_agglayer cfg then next_range else
      seq (on_db (fetch_unrequested_agg_proof (ve_db env) (as_i64 latest) c l1 l2)) (\<lambda>unreq_agg_request.
      case unreq_agg_request of
        None \<Rightarrow> next_range
      | Some agg \<Rightarrow>
          seq (on_db (get_consecutive_complete_range_proofs (ve_db env) (rq_start_block agg) (rq_end_block agg) c l1 l2)) (\<lambda>range_proofs.
          if validate_aggregation_request range_proofs agg then ret (Some agg) else next_range))))"

definition request_queued_proofs :: "vconfig \<Rightarrow> venv \<Rightarrow> (vstate, unit) handler" where
  "request_queued_proofs cfg env =
     seq (get_next_unrequested_proof cfg env) (\<lambda>next.
     case next of
       None \<Rightarrow> ret ()
     | Some req \<Rightarrow>
         write_st (\<lambda>s. if hm_get (v_tasks s) (rq_id req) \<noteq> None then s
                       else s\<lparr>v_tasks := hm_insert (rq_id req) (None, req) (v_tasks s)\<rparr>))"

text \<open>A task runs its body when it is scheduled, and its result stays with its handle until the loop collects it. The body runs in one piece here: the
  checks \<open>make_proof_request\<close> repeats for invalidations by others in between see the table its own statements leave.\<close>

definition run_task :: "vconfig \<Rightarrow> requester_env \<Rightarrow> int \<Rightarrow> vstate \<Rightarrow> vstate" where
  "run_task cfg env i s =
     (case hm_get (v_tasks s) i of
        Some (None, req) \<Rightarrow>
          (case make_proof_request (vc_requester cfg) env req (vc_max_concurrent_witness_gen cfg) (vc_max_concurrent_proof_requests cfg) s of
             (r, s') \<Rightarrow> s'\<lparr>v_tasks := hm_insert i (Some r, req) (v_tasks s')\<rparr>)
      | _ \<Rightarrow> s)"

section \<open>External aggregation\<close>

definition SAFE_HEAD_L1_LOOKBACK :: u64 where
  "SAFE_HEAD_L1_LOOKBACK = 20"

record external_aggregation_request =
  ea_last_proven_block :: u64
  ea_requested_end_block :: u64
  ea_l1_block_number :: u64
  ea_l1_block_hash :: b256

datatype external_aggregation_error = InvalidArgument string | NotFound string | ResourceExhausted string | Internal string

type_synonym 'a external = "external_aggregation_error + 'a"

definition internal_error :: "'a result \<Rightarrow> 'a external" where
  "internal_error r = (case r of Inl e \<Rightarrow> Inl (Internal (to_string e)) | Inr x \<Rightarrow> Inr x)"

definition checked_external_block_number :: "u64 \<Rightarrow> int external" where
  "checked_external_block_number v =
     (case i64_try_from v of None \<Rightarrow> Inl (InvalidArgument ''exceeds the supported range'') | Some n \<Rightarrow> Inr n)"

definition validate_external_prover_mode :: "bool \<Rightarrow> unit result" where
  "validate_external_prover_mode is_cluster = ensure (\<not> is_cluster) ''The agglayer API requires network proof IDs''"

definition validate_checkpoint_hash :: "b256 \<Rightarrow> b256 \<Rightarrow> unit external" where
  "validate_checkpoint_hash requested canonical =
     (if requested \<noteq> canonical then Inl (InvalidArgument ''l1_block_hash does not match l1_block_number'') else Inr ())"

text \<open>A step whose error is the answer to the caller.\<close>

definition ext_seq :: "(vstate, 'a external) handler \<Rightarrow> ('a \<Rightarrow> (vstate, 'b external) handler) \<Rightarrow> (vstate, 'b external) handler" where
  "ext_seq m f = seq m (\<lambda>r. case r of Inl e \<Rightarrow> ret (Inl e) | Inr x \<Rightarrow> f x)"

definition ext_db :: "(db, 'a) handler \<Rightarrow> (vstate, 'a external) handler" where
  "ext_db m = seq (attempt (on_db m)) (\<lambda>r. ret (internal_error r))"

text \<open>\<open>request_external_aggregation\<close> up to the registration of the task.\<close>

definition request_external_aggregation :: "vconfig \<Rightarrow> venv \<Rightarrow> external_aggregation_request \<Rightarrow> (vstate, request external) handler" where
  "request_external_aggregation cfg env req =
     (let c = vc_commitments cfg; l1 = vc_l1_chain_id cfg; l2 = vc_l2_chain_id cfg in
      ext_seq (ret (checked_external_block_number (ea_last_proven_block req))) (\<lambda>last_proven_block.
      ext_seq (ret (checked_external_block_number (ea_requested_end_block req))) (\<lambda>_.
      ext_seq (ret (checked_external_block_number (ea_l1_block_number req))) (\<lambda>l1_block_number.
      ext_seq (ret (internal_error (l1_header_by_number (re_l1 (ve_requester env)) (ea_l1_block_number req)))) (\<lambda>checkpoint_header.
      ext_seq (ret (validate_checkpoint_hash (ea_l1_block_hash req) (ve_hash_slow env checkpoint_header))) (\<lambda>_.
      ext_seq (ret (internal_error (ve_l2_safe_head_at env (saturating_sub (ea_l1_block_number req) SAFE_HEAD_L1_LOOKBACK)))) (\<lambda>safe_head.
      ext_seq (ret (checked_external_block_number (min (ea_requested_end_block req) safe_head))) (\<lambda>end_block_i64.
      if end_block_i64 \<le> last_proven_block then
        ret (Inl (InvalidArgument ''Requested end block must be greater than the last proven block'')) else
      ext_seq (ext_db (get_consecutive_complete_range_proofs (ve_db env) last_proven_block end_block_i64 c l1 l2)) (\<lambda>range_proofs.
      if range_proofs = [] then ret (Inl (NotFound ''No completed range proofs found for the requested range'')) else
      let op_request = new_agg_request (re_now (ve_requester env)) (request_mode_of cfg) last_proven_block (rq_end_block (last range_proofs))
            (cc_range_vkey_commitment c) (cc_agg_vkey_hash c) (cc_rollup_config_hash c) l1 l2 l1_block_number (ea_l1_block_hash req)
            (vc_signer_address cfg) in
      if \<not> validate_aggregation_request range_proofs op_request then
        ret (Inl (InvalidArgument ''Aggregation request validation failed'')) else
      ext_seq (ext_db (insert_request (ve_db env) op_request)) (\<lambda>row_id.
      let op_request = op_request\<lparr>rq_id := row_id\<rparr> in
      seq (write_st (\<lambda>s. s\<lparr>v_tasks := hm_insert row_id (None, op_request) (v_tasks s)\<rparr>)) (\<lambda>_.
      ret (Inr op_request))))))))))))"

definition external_proof_request_id :: "db_env \<Rightarrow> int \<Rightarrow> bool \<Rightarrow> (vstate, b256 external) handler" where
  "external_proof_request_id env row_id mock =
     ext_seq (ext_db (fetch_request env row_id)) (\<lambda>stored.
     if rq_status stored = Unrequested then
       ext_seq (ext_db (update_request_status env row_id Cancelled)) (\<lambda>_.
       ret (Inl (ResourceExhausted ''Proof capacity is full; retry after an active request completes'')))
     else if mock \<and> rq_status stored = Complete then ret (Inr (word_of_int (row_id mod 2 ^ 64)))
     else ret (case rq_proof_request_id stored of
                 None \<Rightarrow> Inl (Internal ''Request ended without a proof ID'') | Some i \<Rightarrow> Inr i))"

definition get_external_mock_proof :: "vconfig \<Rightarrow> venv \<Rightarrow> int \<Rightarrow> (vstate, (u8 list) external) handler" where
  "get_external_mock_proof cfg env proof_id =
     (if \<not> vc_mock cfg then ret (Inl (InvalidArgument ''GetMockProof is only available in mock mode'')) else
      seq (attempt (on_db (get_mock_aggregation_proof_by_request_id (ve_db env) proof_id (vc_commitments cfg)
             (vc_l1_chain_id cfg) (vc_l2_chain_id cfg)))) (\<lambda>r.
      ret (case r of
             Inl e \<Rightarrow> Inl (if e = Err ''RowNotFound'' then NotFound ''Mock aggregation proof was not found'' else Internal (to_string e))
           | Inr p \<Rightarrow> Inr p)))"

section \<open>Relaying\<close>

text \<open>Block numbers of the table go to the contract as words; the columns are never negative, where \<open>U256::from\<close> would panic.\<close>

definition relay_aggregation_proof :: "vconfig \<Rightarrow> venv \<Rightarrow> request \<Rightarrow> (vstate, b256) handler" where
  "relay_aggregation_proof cfg env agg =
     seq (lift (ve_l2_output_root env (as_u64 (rq_end_block agg)))) (\<lambda>output_root.
     let arguments = (\<lambda>k. seq (lift (case rq_checkpointed_l1_block_number agg of None \<Rightarrow> Inl (Panic ''unwrap'') | Some n \<Rightarrow> Inr n)) (\<lambda>l1_block.
            seq (lift (case rq_proof agg of None \<Rightarrow> Inl (Panic ''unwrap'') | Some p \<Rightarrow> Inr p)) (\<lambda>proof. k l1_block proof))) in
     seq (if vc_dgf_address cfg \<noteq> 0 then
            seq (lift (ve_init_bond env)) (\<lambda>init_bond.
            arguments (\<lambda>l1_block proof.
              send_tx env (DgfProposeL2Output (vc_config_name_hash cfg) output_root (word_of_int (rq_end_block agg)) (word_of_int l1_block)
                proof (vc_signer_address cfg) init_bond)))
          else
            arguments (\<lambda>l1_block proof.
              send_tx env (ProposeL2Output (vc_config_name_hash cfg) output_root (word_of_int (rq_end_block agg)) (word_of_int l1_block)
                proof (vc_signer_address cfg)))) (\<lambda>receipt.
     if \<not> tr_status receipt then fail (Err ''Transaction reverted'') else ret (tr_hash receipt)))"

definition submit_agg_proofs :: "vconfig \<Rightarrow> venv \<Rightarrow> (vstate, unit) handler" where
  "submit_agg_proofs cfg env =
     seq (lift (get_latest_proposed_block_number env)) (\<lambda>latest.
     seq (on_db (fetch_completed_agg_proof_after_block (ve_db env) (as_i64 latest) (vc_commitments cfg) (vc_l1_chain_id cfg) (vc_l2_chain_id cfg)))
       (\<lambda>completed_agg_proof.
     case completed_agg_proof of
       None \<Rightarrow> ret ()
     | Some agg \<Rightarrow>
         seq (relay_aggregation_proof cfg env agg) (\<lambda>transaction_hash.
         seq (on_db (update_request_to_relayed (ve_db env) (rq_id agg) transaction_hash (vc_l2oo_address cfg))) (\<lambda>recorded.
         lift (ensure recorded ''Aggregation request changed before relay persistence'')))))"

section \<open>The loop\<close>

definition validate_contract_config :: "vconfig \<Rightarrow> venv \<Rightarrow> unit result" where
  "validate_contract_config cfg env =
     try_bind (ve_contract_config env (vc_config_name_hash cfg)) (\<lambda>contract.
     if cc_rollup_config_hash contract \<noteq> cc_rollup_config_hash (vc_commitments cfg) \<or>
        cc_agg_vkey_hash contract \<noteq> cc_agg_vkey_hash (vc_commitments cfg) \<or>
        cc_range_vkey_commitment contract \<noteq> cc_range_vkey_commitment (vc_commitments cfg)
     then Inl (Err ''Config mismatches detected.'') else Inr ())"

definition fail_orphan :: "venv \<Rightarrow> request \<Rightarrow> (vstate, unit) handler" where
  "fail_orphan env req =
     seq (read_st (\<lambda>s. hm_get (v_tasks s) (rq_id req) \<noteq> None)) (\<lambda>has_task.
     if has_task then ret () else
     seq (on_db (is_request_invalidated (ve_db env) (rq_id req))) (\<lambda>invalidated.
     if invalidated then seq (on_db (finish_invalidated_request (ve_db env) (rq_id req))) (\<lambda>_. ret ())
     else seq (on_db (update_request_status (ve_db env) (rq_id req) Failed)) (\<lambda>_. ret ())))"

definition set_orphaned_tasks_to_failed :: "vconfig \<Rightarrow> venv \<Rightarrow> (vstate, unit) handler" where
  "set_orphaned_tasks_to_failed cfg env =
     (let fetch = (\<lambda>status. on_db (fetch_requests_by_status (ve_db env) status (vc_commitments cfg) (vc_l1_chain_id cfg) (vc_l2_chain_id cfg))) in
      seq (fetch WitnessGeneration) (\<lambda>witnessgen_requests.
      seq (fetch Execution) (\<lambda>execution_requests.
      for_each (fail_orphan env) (witnessgen_requests @ execution_requests))))"

text \<open>A finished task leaves the table; an error or a panic of its body fails the request, and an error in doing so is only logged.\<close>

definition collect_task :: "vconfig \<Rightarrow> venv \<Rightarrow> int \<Rightarrow> (vstate, unit) handler" where
  "collect_task cfg env i =
     seq (read_st (\<lambda>s. hm_get (v_tasks s) i)) (\<lambda>task.
     case task of
       None \<Rightarrow> ret ()
     | Some (outcome, req) \<Rightarrow>
         seq (write_st (\<lambda>s. s\<lparr>v_tasks := hm_remove i (v_tasks s)\<rparr>)) (\<lambda>_.
         case outcome of
           Some (Inl _) \<Rightarrow>
             seq (attempt (handle_failed_request (vc_requester cfg) (ve_requester env) req OtherExecutionStatus)) (\<lambda>_. ret ())
         | _ \<Rightarrow> ret ()))"

definition finished_tasks :: "vstate \<Rightarrow> int list" where
  "finished_tasks s = map fst (filter (\<lambda>(i, outcome, req). outcome \<noteq> None) (v_tasks s))"

definition handle_ongoing_tasks :: "vconfig \<Rightarrow> venv \<Rightarrow> (vstate, unit) handler" where
  "handle_ongoing_tasks cfg env = seq (read_st finished_tasks) (\<lambda>completed. for_each (collect_task cfg env) completed)"

definition initialize_proposer :: "vconfig \<Rightarrow> venv \<Rightarrow> (vstate, unit) handler" where
  "initialize_proposer cfg env =
     seq (lift (validate_contract_config cfg env)) (\<lambda>_.
     seq (on_db (delete_all_requests_with_statuses (ve_db env) [Unrequested, Execution, WitnessGeneration]
            (vc_l1_chain_id cfg) (vc_l2_chain_id cfg))) (\<lambda>_.
     seq (on_db (cancel_prove_requests_with_different_commitment_config (ve_db env) (vc_commitments cfg)
            (vc_l1_chain_id cfg) (vc_l2_chain_id cfg))) (\<lambda>_. ret ())))"

text \<open>The metrics of a turn: the gauges are left out, but every query behind them can end the turn with an error.\<close>

definition log_proposer_metrics :: "vconfig \<Rightarrow> venv \<Rightarrow> (vstate, unit) handler" where
  "log_proposer_metrics cfg env =
     (let c = vc_commitments cfg; l1 = vc_l1_chain_id cfg; l2 = vc_l2_chain_id cfg;
          count = (\<lambda>status. on_db (fetch_request_count (ve_db env) status c l1 l2)) in
      seq (lift (get_latest_proposed_block_number env)) (\<lambda>latest.
      seq (on_db (fetch_completed_ranges (ve_db env) c (as_i64 latest) l1 l2)) (\<lambda>completed_range_proofs.
      seq (lift (highest_contiguous_end (as_i64 latest) completed_range_proofs)) (\<lambda>_.
      seq (count Unrequested) (\<lambda>_. seq (count Prove) (\<lambda>_. seq (count Execution) (\<lambda>_. seq (count WitnessGeneration) (\<lambda>_.
      seq (lift (ve_l2_latest_header env)) (\<lambda>_.
      seq (lift (ve_l2_finalized_header env)) (\<lambda>_.
      seq (lift (ve_max_provable_l2_block env)) (\<lambda>_.
      seq (lift (ve_submission_interval env)) (\<lambda>interval.
      lift (ensure (fits_u64 interval) ''try_into'')))))))))))))"

text \<open>One turn: environment \<open>k\<close> serves its \<open>k\<close>-th handler.\<close>

definition run_loop_iteration :: "vconfig \<Rightarrow> (nat \<Rightarrow> venv) \<Rightarrow> (vstate, unit) handler" where
  "run_loop_iteration cfg env =
     seq (lift (validate_contract_config cfg (env 0))) (\<lambda>_.
     seq (log_proposer_metrics cfg (env 1)) (\<lambda>_.
     seq (handle_ongoing_tasks cfg (env 2)) (\<lambda>_.
     seq (set_orphaned_tasks_to_failed cfg (env 3)) (\<lambda>_.
     seq (handle_proving_requests cfg (env 4)) (\<lambda>_.
     seq (reconcile_completed_range_canonicality cfg (env 5)) (\<lambda>canonicality_ready.
     seq (if canonicality_ready then
            seq (add_new_ranges cfg (env 6)) (\<lambda>_.
            seq (if \<not> vc_agglayer cfg then create_aggregation_proofs cfg (env 7) else ret ()) (\<lambda>_.
            seq (request_queued_proofs cfg (env 8)) (\<lambda>_.
            if \<not> vc_agglayer cfg then submit_agg_proofs cfg (env 9) else ret ())))
          else ret ()) (\<lambda>_.
     on_db (update_chain_lock (ve_db (env 10)) (vc_l1_chain_id cfg) (vc_l2_chain_id cfg)))))))))"

text \<open>\<open>Proposer::new\<close>: the checks, the chain lock and the requester. The keys of the programs come from the prover.\<close>

definition proposer_new :: "vconfig \<Rightarrow> venv \<Rightarrow> unit result \<Rightarrow> (vstate, unit) handler" where
  "proposer_new cfg env keys =
     (let is_cluster = rc_cluster (vc_requester cfg) in
      seq (lift (if vc_agglayer cfg then validate_external_prover_mode is_cluster else Inr ())) (\<lambda>_.
      seq (lift (ensure (\<not> vc_private_stdin cfg \<or> (\<not> vc_mock cfg \<and> \<not> is_cluster)) ''PRIVATE_STDIN only applies to SP1 network proof requests'')) (\<lambda>_.
      seq (on_db (is_chain_locked (ve_db env) (vc_l1_chain_id cfg) (vc_l2_chain_id cfg) (uint (vc_loop_interval cfg)))) (\<lambda>is_locked.
      if is_locked then fail (Err ''There is another proposer for the same chain connected to the database.'') else
      seq (on_db (add_chain_lock (ve_db env) (vc_l1_chain_id cfg) (vc_l2_chain_id cfg))) (\<lambda>_.
      seq (lift keys) (\<lambda>_.
      seq (lift (requester_new (vc_requester cfg))) (\<lambda>_. ret ())))))))"

section \<open>Every handler is a run of the request state machine\<close>

lemma trace_send_tx [trace_intros]: "db_trace mw (send_tx env tx)"
  unfolding send_tx_def by (intro trace_intros db_trace_write) simp

lemma trace_handles [trace_intros]: "db_trace mw (remove_handle req)" "db_trace mw (set_handle req h)"
  unfolding remove_handle_def set_handle_def by (intro db_trace_write; simp)+

lemma trace_add_new_ranges [trace_intros]: "db_trace mw (add_new_ranges cfg env)"
proof -
  have f: "db_trace mw (seq (lift (try_map (\<lambda>(s, e). create_range_request renv mode s e v h l1 l2) ranges)) (\<lambda>rs. on_db (insert_requests dbe rs)))"
    for renv mode v h l1 l2 ranges dbe
  proof (cases "try_map (\<lambda>(s, e). create_range_request renv mode s e v h l1 l2) ranges")
    case (Inr rs)
    then have "\<forall>r \<in> set rs. fresh_request r"
      using fresh_new_range by (fastforce simp: try_map_eq_Inr dest: list_all2_member2 create_range_request_Inr)
    then have "db_trace mw (on_db (insert_requests dbe rs))" by (intro trace_intros)
    with Inr show ?thesis by (simp add: db_trace_def)
  qed (simp add: db_trace_def)
  show ?thesis unfolding add_new_ranges_def Let_def by (rule f trace_intros)+
qed

lemma trace_reconcile [trace_intros]: "db_trace mw (reconcile_completed_range_canonicality cfg env)"
  unfolding reconcile_completed_range_canonicality_def hydrate_range_def by (intro trace_intros)

lemma trace_terminal [trace_intros]:
  "(\<And>r x. db_trace mw (f r x)) \<Longrightarrow> db_trace mw d \<Longrightarrow> db_trace mw (handle_terminal_proof_failure_before_request_details req st t f d)"
  unfolding handle_terminal_proof_failure_before_request_details_def by (intro trace_intros)

lemma trace_process_proof_request_status [trace_intros]: "db_trace mw (process_proof_request_status cfg env req)"
  unfolding process_proof_request_status_def complete_request_def cancel_invalidated_def by (intro trace_intros)

lemma trace_fail_or_finish [trace_intros]: "db_trace mw (fail_or_finish cfg env req b)"
  unfolding fail_or_finish_def fail_cluster_request_def by (intro trace_intros)

lemma trace_process_cluster_proof_status [trace_intros]: "db_trace mw (process_cluster_proof_status cfg env req)"
  unfolding process_cluster_proof_status_def lookup_proof_request_def count_poll_failure_def reset_poll_failures_def Let_def
  by (intro trace_intros)

lemma trace_handle_proving_requests [trace_intros]: "db_trace mw (handle_proving_requests cfg env)"
  unfolding handle_proving_requests_def by (intro trace_intros)

lemma trace_create_aggregation_proofs [trace_intros]: "db_trace mw (create_aggregation_proofs cfg env)"
  unfolding create_aggregation_proofs_def request_aggregation_def new_checkpoint_def batch_max_l1_head_def Let_def by (intro trace_intros fresh_new_agg)

lemma trace_request_queued_proofs [trace_intros]: "db_trace mw (request_queued_proofs cfg env)"
  unfolding request_queued_proofs_def get_next_unrequested_proof_def Let_def by (intro trace_intros db_trace_write) simp

lemma trace_ext [trace_intros]:
  "db_steps mw m \<Longrightarrow> db_trace mw (ext_db m)"
  "db_trace mw m' \<Longrightarrow> (\<And>x. db_trace mw (f x)) \<Longrightarrow> db_trace mw (ext_seq m' f)"
  unfolding ext_db_def ext_seq_def by (intro trace_intros; assumption)+

lemma trace_request_external_aggregation [trace_intros]: "db_trace mw (request_external_aggregation cfg env req)"
  unfolding request_external_aggregation_def Let_def by (intro trace_intros db_trace_write fresh_new_agg) simp

lemma trace_external_proof_request_id [trace_intros]: "db_trace mw (external_proof_request_id dbe i mock)"
  unfolding external_proof_request_id_def by (intro trace_intros) simp

lemma trace_get_external_mock_proof [trace_intros]: "db_trace mw (get_external_mock_proof cfg env i)"
  unfolding get_external_mock_proof_def by (intro trace_intros)

lemma trace_submit_agg_proofs [trace_intros]: "db_trace mw (submit_agg_proofs cfg env)"
  unfolding submit_agg_proofs_def relay_aggregation_proof_def Let_def by (intro trace_intros)

lemma trace_set_orphaned [trace_intros]: "db_trace mw (set_orphaned_tasks_to_failed cfg env)"
  unfolding set_orphaned_tasks_to_failed_def fail_orphan_def Let_def by (intro trace_intros) simp

lemma trace_handle_ongoing_tasks [trace_intros]: "db_trace mw (handle_ongoing_tasks cfg env)"
  unfolding handle_ongoing_tasks_def collect_task_def by (intro trace_intros db_trace_write) simp

lemma trace_initialize [trace_intros]: "db_trace mw (initialize_proposer cfg env)"
  unfolding initialize_proposer_def by (intro trace_intros)

lemma trace_log_proposer_metrics [trace_intros]: "db_trace mw (log_proposer_metrics cfg env)"
  unfolding log_proposer_metrics_def Let_def by (intro trace_intros)

lemma trace_run_loop_iteration [trace_intros]: "db_trace mw (run_loop_iteration cfg envs)"
  unfolding run_loop_iteration_def by (intro trace_intros)

lemma trace_proposer_new [trace_intros]: "db_trace mw (proposer_new cfg env keys)"
  unfolding proposer_new_def Let_def by (intro trace_intros)

lemma run_task_steps:
  assumes "db_ok (vc_max_concurrent_witness_gen cfg) (v_db s)"
  shows "(db_step (vc_max_concurrent_witness_gen cfg))\<^sup>*\<^sup>* (v_db s) (v_db (run_task cfg env i s))"
proof -
  let ?mw = "vc_max_concurrent_witness_gen cfg"
  have "(db_step ?mw)\<^sup>*\<^sup>* (v_db s) (v_db (snd (make_proof_request (vc_requester cfg) env req ?mw mp s)))" for req mp
    using trace_make_proof_request assms by (simp add: db_trace_def)
  then show ?thesis
    by (auto simp: run_task_def split: option.splits prod.splits) (metis snd_conv)
qed

text \<open>The proposer as a system: a turn of the loop, a scheduled task, the calls of the external interface, and a restart, which forgets
  tasks and handles. Each of them runs in one piece; the statements of several clients interleave in \<open>db_step\<close>.\<close>

inductive vstep :: "vconfig \<Rightarrow> vstate \<Rightarrow> vstate \<Rightarrow> bool" for cfg where
  turn: "vstep cfg s (snd (run_loop_iteration cfg envs s))"
| task: "vstep cfg s (run_task cfg env i s)"
| external_request: "vstep cfg s (snd (request_external_aggregation cfg env req s))"
| external_reply: "vstep cfg s (snd (external_proof_request_id dbe i mock s))"
| mock_proof: "vstep cfg s (snd (get_external_mock_proof cfg env i s))"
| start: "vstep cfg s (snd (proposer_new cfg env keys (s\<lparr>v_tasks := [], v_handles := []\<rparr>)))"
| restart: "vstep cfg s (snd (initialize_proposer cfg env (s\<lparr>v_tasks := [], v_handles := []\<rparr>)))"

lemma vstep_db_steps:
  assumes "vstep cfg s s'" "db_ok (vc_max_concurrent_witness_gen cfg) (v_db s)"
  shows "(db_step (vc_max_concurrent_witness_gen cfg))\<^sup>*\<^sup>* (v_db s) (v_db s')"
proof -
  let ?mw = "vc_max_concurrent_witness_gen cfg"
  have trace: "(db_step ?mw)\<^sup>*\<^sup>* (v_db s) (v_db (snd (m s)))" if "db_trace ?mw m" for m :: "(vstate, 'a) handler"
    using that assms(2) by (simp add: db_trace_def)
  have trace0: "(db_step ?mw)\<^sup>*\<^sup>* (v_db s) (v_db (snd (m (s\<lparr>v_tasks := [], v_handles := []\<rparr>))))"
    if "db_trace ?mw m" for m :: "(vstate, unit) handler"
    using that [unfolded db_trace_def, rule_format, of "s\<lparr>v_tasks := [], v_handles := []\<rparr>"] assms(2) by simp
  from assms(1) show ?thesis
    by cases (simp_all add: run_task_steps [OF assms(2)] trace0 trace_initialize trace_proposer_new,
      use assms(2) trace_run_loop_iteration trace_request_external_aggregation trace_external_proof_request_id
        trace_get_external_mock_proof in \<open>auto simp: db_trace_def\<close>)
qed

lemma validity_system_inv:
  "db_ok (vc_max_concurrent_witness_gen cfg) (v_db s) \<Longrightarrow> vstep cfg s t \<Longrightarrow> db_ok (vc_max_concurrent_witness_gen cfg) (v_db t)"
  using vstep_db_steps requests.steps_inv by blast

interpretation validity_system: step_system "\<lambda>s. db_init (v_db s)" "vstep cfg" "\<lambda>s. db_ok (vc_max_concurrent_witness_gen cfg) (v_db s)" for cfg
  by unfold_locales (auto simp: db_ok_init validity_system_inv)

end
