(* ===== verification/ValidityCorrect.thy ===== *)
theory ValidityCorrect
  imports Validity
begin

text \<open>
  Correctness of the handlers of the validity proposer (\<open>Validity\<close>): what a run that succeeds has done to the requests and which
  transactions it has sent. Each handler is decomposed once by a lemma on its successful runs; the properties at the end rest on these.
\<close>

section \<open>Lemmas on the handlers\<close>

lemma consecutive_chained:
  "consecutive_without_gap ps \<Longrightarrow> ps \<noteq> [] \<Longrightarrow> \<forall>p \<in> set ps. rq_start_block p < rq_end_block p \<Longrightarrow>
   chained (rq_start_block (hd ps)) (rq_end_block (last ps)) (map blocks_of ps)"
  by (induction ps rule: consecutive_without_gap.induct) (auto simp: blocks_of_def)

lemma chained_consecutive: "chained s e (map blocks_of ps) \<Longrightarrow> consecutive_without_gap ps"
  by (induction ps arbitrary: s rule: consecutive_without_gap.induct) (auto simp: blocks_of_def)

lemma chained_ends: "chained s e (map blocks_of ps) \<Longrightarrow> ps \<noteq> [] \<Longrightarrow> rq_start_block (hd ps) = s \<and> rq_end_block (last ps) = e"
  by (induction ps arbitrary: s) (auto simp: blocks_of_def split: if_splits)

lemma fetch_completed_agg_Inr:
  assumes "fetch_completed_agg_proof_after_block env latest c l1 l2 d = (Inr (Some agg), d')"
  shows "agg \<in> set (db_rows d) \<and> for_agg_commitment c l1 l2 agg \<and> rq_status agg = Complete \<and> valid agg \<and> rq_type agg = Aggregation \<and>
    rq_start_block agg = latest \<and> db_rows d' = db_rows d"
proof -
  note q = query_Inr [OF assms [unfolded fetch_completed_agg_proof_after_block_def]]
  from head_option_Some [OF conjunct1 [OF q, symmetric]] q show ?thesis by simp
qed

lemma fetch_completed_agg_rows: "db_rows (snd (fetch_completed_agg_proof_after_block env latest c l1 l2 d)) = db_rows d"
  by (simp add: fetch_completed_agg_proof_after_block_def select_where_def seq_def db_call_def Let_def split: option.splits)

lemma update_request_to_relayed_Inr:
  assumes "update_request_to_relayed env i h c d = (Inr True, d')"
  shows "length (filter (\<lambda>q. rq_id q = i \<and> rq_status q = Complete \<and> valid q) (db_rows d)) = 1 \<and>
    db_rows d' = map (\<lambda>q. if rq_id q = i \<and> rq_status q = Complete \<and> valid q
      then set_status Relayed (db_now env (db_calls d)) (q\<lparr>rq_relay_tx_hash := Some h, rq_contract_address := Some c\<rparr>) else q) (db_rows d)"
proof -
  let ?p = "\<lambda>q. rq_id q = i \<and> rq_status q = Complete \<and> valid q"
  from assms have "db_fault env (db_calls d) = None" "count_rows ?p (d\<lparr>db_calls := Suc (db_calls d)\<rparr>) = 1"
    "d' = update_rows ?p (\<lambda>r. set_status Relayed (db_now env (db_calls d)) (r\<lparr>rq_relay_tx_hash := Some h, rq_contract_address := Some c\<rparr>))
       (d\<lparr>db_calls := Suc (db_calls d)\<rparr>)"
    unfolding update_request_to_relayed_def update_where_def by (simp_all add: seq_eq_Inr db_call_def Let_def split: option.splits)
  then show ?thesis by (simp add: update_rows_def count_rows_def)
qed

lemma on_db_txs [simp]: "v_txs (snd (on_db m s)) = v_txs s" "v_tasks (snd (on_db m s)) = v_tasks s" "v_handles (snd (on_db m s)) = v_handles s"
  by (simp_all add: on_db_def split: prod.splits)

text \<open>The proposal that relays an aggregation.\<close>

definition proposal_of :: "vconfig \<Rightarrow> venv \<Rightarrow> request \<Rightarrow> validity_tx \<Rightarrow> bool" where
  "proposal_of cfg env agg tx \<longleftrightarrow> (\<exists>root n p bond.
     ve_l2_output_root env (as_u64 (rq_end_block agg)) = Inr root \<and> rq_checkpointed_l1_block_number agg = Some n \<and> rq_proof agg = Some p \<and>
     (if vc_dgf_address cfg \<noteq> 0
      then tx = DgfProposeL2Output (vc_config_name_hash cfg) root (word_of_int (rq_end_block agg)) (word_of_int n) p (vc_signer_address cfg) bond
      else tx = ProposeL2Output (vc_config_name_hash cfg) root (word_of_int (rq_end_block agg)) (word_of_int n) p (vc_signer_address cfg)))"

lemma relay_txs:
  "(\<exists>e. relay_aggregation_proof cfg env agg s = (Inl e, s)) \<or>
   (\<exists>tx r. proposal_of cfg env agg tx \<and> relay_aggregation_proof cfg env agg s = (r, s\<lparr>v_txs := v_txs s @ [tx]\<rparr>) \<and>
     (\<forall>h. r = Inr h \<longrightarrow> (\<exists>rc. ve_send env tx = Inr rc \<and> tr_status rc \<and> h = tr_hash rc)))"
proof (cases "ve_l2_output_root env (as_u64 (rq_end_block agg))")
  case (Inl e)
  then show ?thesis by (simp add: relay_aggregation_proof_def Let_def)
next
  case root: (Inr root)
  note u = relay_aggregation_proof_def Let_def seq_def send_tx_def
  show ?thesis
  proof (cases "rq_checkpointed_l1_block_number agg = None \<or> rq_proof agg = None \<or> (vc_dgf_address cfg \<noteq> 0 \<and> (\<exists>e. ve_init_bond env = Inl e))")
    case True
    then show ?thesis
      by (cases "ve_init_bond env"; cases "rq_checkpointed_l1_block_number agg"; cases "rq_proof agg") (auto simp: u root)
  next
    case False
    then obtain n p where np: "rq_checkpointed_l1_block_number agg = Some n" "rq_proof agg = Some p" by auto
    from False obtain bond where bond: "vc_dgf_address cfg \<noteq> 0 \<Longrightarrow> ve_init_bond env = Inr bond"
      by (cases "ve_init_bond env") auto
    let ?tx = "if vc_dgf_address cfg \<noteq> 0
      then DgfProposeL2Output (vc_config_name_hash cfg) root (word_of_int (rq_end_block agg)) (word_of_int n) p (vc_signer_address cfg) bond
      else ProposeL2Output (vc_config_name_hash cfg) root (word_of_int (rq_end_block agg)) (word_of_int n) p (vc_signer_address cfg)"
    have "proposal_of cfg env agg ?tx" using root np by (auto simp: proposal_of_def)
    moreover have "\<exists>r. relay_aggregation_proof cfg env agg s = (r, s\<lparr>v_txs := v_txs s @ [?tx]\<rparr>) \<and>
       (\<forall>h. r = Inr h \<longrightarrow> (\<exists>rc. ve_send env ?tx = Inr rc \<and> tr_status rc \<and> h = tr_hash rc))"
      using np bond by (cases "ve_send env ?tx") (auto simp: u root)
    ultimately show ?thesis by blast
  qed
qed

text \<open>The highest contiguous end is the end of a chain of completed ranges that cannot be extended.\<close>

lemma contiguous_loop_Some:
  "contiguous_loop s found rs = Inr (Some e) \<Longrightarrow>
   \<exists>pre post. rs = pre @ post \<and> chained s e pre \<and> (found \<or> pre \<noteq> []) \<and> (post = [] \<or> e < fst (hd post))"
proof (induction s found rs rule: contiguous_loop.induct)
  case (2 s found a b rest)
  show ?case
  proof (cases "a > s")
    case True
    with 2(2) show ?thesis by (intro exI [of _ "[]"] exI [of _ "(a, b) # rest"]) (auto split: if_splits)
  next
    case False
    with 2(2) have ab: "a = s" "a < b" and rest: "contiguous_loop b True rest = Inr (Some e)" by (auto split: if_splits)
    obtain pre post where "rest = pre @ post" "chained b e pre" "post = [] \<or> e < fst (hd post)"
      using 2(1) False ab rest by auto
    with ab show ?thesis by (intro exI [of _ "(a, b) # pre"] exI [of _ post]) auto
  qed
qed (auto split: if_splits)

lemma sorted_suffix_above:
  assumes "sorted (map f (pre @ post))" "post = [] \<or> x < f (hd post)" "p \<in> set post"
  shows "x < f p"
proof -
  from assms(3) obtain q qs where "post = q # qs" by (cases post) auto
  with assms show ?thesis by (force simp: sorted_append)
qed

lemma completed_chain_exact:
  assumes "chained s e (map blocks_of pre)" "sort_key rq_start_block (filter (completed_range c s l1 l2) rows) = pre @ post"
    and "post = [] \<or> e < rq_start_block (hd post)" "\<forall>r \<in> set rows. rq_start_block r < rq_end_block r"
  shows "sort_key rq_start_block (filter (complete_range_in s e c l1 l2) rows) = pre"
proof -
  let ?all = "sort_key rq_start_block (filter (completed_range c s l1 l2) rows)"
  have sub: "filter (complete_range_in s e c l1 l2) rows =
      filter (\<lambda>r. rq_end_block r \<le> e) (filter (completed_range c s l1 l2) rows)"
    by (auto simp: complete_range_in_def completed_range_def intro: filter_cong)
  have "sort_key rq_start_block (filter (complete_range_in s e c l1 l2) rows) = filter (\<lambda>r. rq_end_block r \<le> e) (pre @ post)"
    unfolding sub filter_sort [of "\<lambda>r. rq_end_block r \<le> e", symmetric] assms(2) by (rule refl)
  moreover have "rq_end_block r \<le> e" if "r \<in> set pre" for r
    using chained_bounds [OF assms(1)] that by (force simp: blocks_of_def)
  moreover have "\<not> rq_end_block r \<le> e" if r: "r \<in> set post" for r
  proof -
    have "sorted (map rq_start_block (pre @ post))" using sorted_sort_key [of rq_start_block] assms(2) by metis
    then have "e < rq_start_block r" using assms(3) r by (rule sorted_suffix_above)
    moreover have "r \<in> set rows" using r assms(2) by (metis (no_types, lifting) Un_iff filter_is_subset set_append set_sort subsetD)
    ultimately show ?thesis using assms(4) by force
  qed
  ultimately show ?thesis by simp
qed

lemma max_option_ge: "max_option xs = Some m \<Longrightarrow> Some x \<in> set xs \<Longrightarrow> x \<le> m"
proof -
  assume "max_option xs = Some m" "Some x \<in> set xs"
  then obtain y ys where y: "List.map_filter (\<lambda>x. x) xs = y # ys" "m = fold max ys y" by (auto simp: max_option_def split: list.splits)
  have "x \<in> set (List.map_filter (\<lambda>x. x) xs)" using \<open>Some x \<in> set xs\<close> by (force simp: map_filter_def)
  moreover have "fold max ys y = Max (set (y # ys))" by (simp only: Max.set_eq_fold)
  ultimately show "x \<le> m" using y by (metis List.finite_set Max_ge)
qed

lemma max_option_None: "max_option xs = None \<Longrightarrow> Some x \<notin> set xs"
  by (auto simp: max_option_def map_filter_def filter_empty_conv split: list.splits)

lemma u64_try_from_Some: "u64_try_from n = Some x \<Longrightarrow> n < 2 ^ 64 \<Longrightarrow> uint x = n"
  by (auto simp: u64_try_from_def unsigned_of_int take_bit_int_eq_self_iff split: if_splits)

lemma as_i64_small: "uint x < 2 ^ 63 \<Longrightarrow> as_i64 x = uint x"
  unfolding as_i64_def by (rule i64_id) (simp_all add: order_trans [OF _ unsigned_greater_eq])

lemma max_option_mem: "max_option xs = Some m \<Longrightarrow> Some m \<in> set xs"
proof -
  assume "max_option xs = Some m"
  then obtain y ys where y: "List.map_filter (\<lambda>x. x) xs = y # ys" "m = fold max ys y" by (auto simp: max_option_def split: list.splits)
  have "fold max ys y = Max (set (y # ys))" by (simp only: Max.set_eq_fold)
  then have "m \<in> set (List.map_filter (\<lambda>x. x) xs)" using y by (metis List.finite_set Max_in list.distinct(1) set_empty)
  then show "Some m \<in> set xs" by (auto simp: map_filter_def)
qed

lemma lift_seq_Inr: "seq (lift r) f s = (Inr y, s') \<longleftrightarrow> (\<exists>x. r = Inr x \<and> f x s = (Inr y, s'))"
  by (cases r) auto

lemma seq_on_db_Inr: "seq (on_db m) f s = (Inr y, s') \<longleftrightarrow> (\<exists>x d. m (v_db s) = (Inr x, d) \<and> f x (s\<lparr>v_db := d\<rparr>) = (Inr y, s'))"
  by (auto simp: seq_eq_Inr on_db_Inr)

lemma batch_max_Inr:
  assumes "batch_max_l1_head cfg env a b s = (Inr bm, s')"
  obtains m where "m = max_option (map rq_l1_head_block_number
      (filter (complete_range_in a b (vc_commitments cfg) (vc_l1_chain_id cfg) (vc_l2_chain_id cfg)) (db_rows (v_db s))))"
    "case m of None \<Rightarrow> bm = None | Some n \<Rightarrow> \<exists>x. u64_try_from n = Some x \<and> bm = Some x"
    "db_rows (v_db s') = db_rows (v_db s)" "v_txs s' = v_txs s"
proof -
  from assms obtain m d where m: "get_max_l1_head_block_number_for_range (ve_db env) a b (vc_commitments cfg) (vc_l1_chain_id cfg)
      (vc_l2_chain_id cfg) (v_db s) = (Inr m, d)"
    and l: "(case m of None \<Rightarrow> Inr None
       | Some n \<Rightarrow> try_bind (ok_or ''Range proof l1_head_block_number is negative'' (u64_try_from n)) (\<lambda>x. Inr (Some x))) = Inr bm"
      "s' = s\<lparr>v_db := d\<rparr>"
    by (auto simp: batch_max_l1_head_def seq_on_db_Inr)
  show ?thesis
    by (rule that [of m]) (use query_Inr [OF m [unfolded get_max_l1_head_block_number_for_range_def]] l in
      \<open>auto simp: try_bind_eq_Inr ok_or_eq_Inr split: option.splits\<close>)
qed

lemma reuse_checkpoint_Some:
  assumes "reuse_checkpoint env bm existing = Inr (Some (h, n))"
  obtains x where "u64_try_from n = Some x" "\<forall>m. bm = Some m \<longrightarrow> m \<le> x" "ve_historic_block_hash env (u256_of_u64 x) = Inr h" "h \<noteq> 0"
  using assms by (auto simp: reuse_checkpoint_def try_bind_eq_Inr ok_or_eq_Inr not_less split: option.splits if_splits prod.splits)

lemma new_checkpoint_Inr:
  assumes "new_checkpoint cfg env bm s = (Inr (h, n), s')" "\<And>k x. l1_header_by_number (re_l1 (ve_requester env)) k = Inr x \<Longrightarrow> ch_number x = k"
  obtains header where "h = ve_hash_slow env header" "n = as_i64 (ch_number header)" "\<forall>m. bm = Some m \<longrightarrow> m \<le> ch_number header"
    "db_rows (v_db s') = db_rows (v_db s)" "v_txs s' = v_txs s @ [CheckpointBlockHash (u256_of_u64 (ch_number header))]"
proof -
  from assms(1) obtain safe header where hd: "ve_safe_l1_header env = Inr safe"
    "(if select_checkpoint_block_number (ch_number safe) bm = ch_number safe then Inr safe
      else l1_header_by_number (re_l1 (ve_requester env)) (select_checkpoint_block_number (ch_number safe) bm)) = Inr header"
    and rest: "seq (send_tx env (CheckpointBlockHash (u256_of_u64 (ch_number header)))) (\<lambda>receipt.
      if \<not> tr_status receipt then fail (Err ''Checkpoint block transaction reverted'')
      else ret (ve_hash_slow env header, as_i64 (ch_number header))) s = (Inr (h, n), s')"
    by (auto simp: new_checkpoint_def Let_def lift_seq_Inr simp del: seq_simps)
  have "ch_number header = select_checkpoint_block_number (ch_number safe) bm" using hd(2) assms(2) by (auto split: if_splits)
  then have "\<forall>m. bm = Some m \<longrightarrow> m \<le> ch_number header" by (auto simp: select_checkpoint_block_number_def)
  with rest that [of header] show ?thesis by (auto simp: send_tx_def seq_eq_Inr split: if_splits)
qed

lemma as_u64_as_i64: "as_u64 (as_i64 x) = x"
proof -
  have "i64 (uint x) mod 2 ^ 64 = uint x mod 2 ^ 64" unfolding i64_def by (simp add: mod_simps)
  then have "take_bit 64 (i64 (uint x)) = take_bit 64 (uint x)" by (simp add: take_bit_eq_mod)
  then have "(word_of_int (i64 (uint x)) :: u64) = word_of_int (uint x)" unfolding word_of_int_eq_iff by simp
  then show ?thesis by (simp add: as_u64_def as_i64_def)
qed

text \<open>What the runs that succeed have done.\<close>

definition agg_row :: "vconfig \<Rightarrow> venv \<Rightarrow> int \<Rightarrow> int \<Rightarrow> int \<Rightarrow> b256 \<Rightarrow> request" where
  "agg_row cfg env latest e n h =
     new_agg_request (re_now (ve_requester env)) (request_mode_of cfg) latest e (cc_range_vkey_commitment (vc_commitments cfg))
       (cc_agg_vkey_hash (vc_commitments cfg)) (cc_rollup_config_hash (vc_commitments cfg)) (vc_l1_chain_id cfg) (vc_l2_chain_id cfg)
       n h (vc_signer_address cfg)"

lemma insert_request_Inr:
  assumes "insert_request env req d = (Inr i, d')"
  shows "db_rows d' = db_rows d @ [inserted_row i req] \<and> i = db_next_id d"
  using assms by (auto simp: insert_request_def db_call_def Let_def add_row_def split: option.splits)

lemma request_aggregation_Inr:
  assumes "request_aggregation cfg env latest e s = (Inr (), s')"
    and "\<And>k x. l1_header_by_number (re_l1 (ve_requester env)) k = Inr x \<Longrightarrow> ch_number x = k"
  obtains bm h n i x s1 s2 where
    "batch_max_l1_head cfg env latest e s1 = (Inr bm, s2)" "db_rows (v_db s1) = db_rows (v_db s)"
    "\<forall>m. bm = Some m \<longrightarrow> m \<le> x" "as_u64 n = x"
    "db_rows (v_db s') = db_rows (v_db s) @ [inserted_row i (agg_row cfg env latest e n h)]"
proof -
  let ?c = "vc_commitments cfg" and ?l1 = "vc_l1_chain_id cfg" and ?l2 = "vc_l2_chain_id cfg"
  from assms(1) obtain ex d1 bm s2 reuse h n s3 i d4 where
    1: "fetch_reusable_agg_checkpoint (ve_db env) latest e ?c ?l1 ?l2 (v_db s) = (Inr ex, d1)"
    and 2: "batch_max_l1_head cfg env latest e (s\<lparr>v_db := d1\<rparr>) = (Inr bm, s2)"
    and 3: "reuse_checkpoint env bm ex = Inr reuse"
    and 4: "(case reuse of Some r \<Rightarrow> ret r | None \<Rightarrow> new_checkpoint cfg env bm) s2 = (Inr (h, n), s3)"
    and 5: "insert_request (ve_db env) (agg_row cfg env latest e n h) (v_db s3) = (Inr i, d4)" "v_db s' = d4"
    unfolding request_aggregation_def Let_def agg_row_def
    by (auto simp: lift_seq_Inr seq_on_db_Inr seq_eq_Inr [of "batch_max_l1_head cfg env latest e"]
      seq_eq_Inr [of "case reuse of Some r \<Rightarrow> ret r | None \<Rightarrow> new_checkpoint cfg env bm" for reuse bm] simp del: seq_simps)
  have rows1: "db_rows d1 = db_rows (v_db s)" using query_Inr [OF 1 [unfolded fetch_reusable_agg_checkpoint_def]] by blast
  from 2 have rows2: "db_rows (v_db s2) = db_rows d1" by (rule batch_max_Inr) simp
  have "\<exists>x. (\<forall>m. bm = Some m \<longrightarrow> m \<le> x) \<and> (u64_try_from n = Some x \<or> n = as_i64 x) \<and> db_rows (v_db s3) = db_rows (v_db s2)"
  proof (cases reuse)
    case None
    with 4 have "new_checkpoint cfg env bm s2 = (Inr (h, n), s3)" by simp
    from this assms(2) obtain header where "h = ve_hash_slow env header" "n = as_i64 (ch_number header)"
      "\<forall>m. bm = Some m \<longrightarrow> m \<le> ch_number header" "db_rows (v_db s3) = db_rows (v_db s2)"
      "v_txs s3 = v_txs s2 @ [CheckpointBlockHash (u256_of_u64 (ch_number header))]" by (rule new_checkpoint_Inr)
    then show ?thesis by blast
  next
    case (Some r)
    with 3 4 have "reuse_checkpoint env bm ex = Inr (Some (h, n))" "s3 = s2" by auto
    from this(1) obtain x where "u64_try_from n = Some x" "\<forall>m. bm = Some m \<longrightarrow> m \<le> x"
      "ve_historic_block_hash env (u256_of_u64 x) = Inr h" "h \<noteq> 0" by (rule reuse_checkpoint_Some)
    with \<open>s3 = s2\<close> show ?thesis by blast
  qed
  then obtain x where x: "\<forall>m. bm = Some m \<longrightarrow> m \<le> x" "u64_try_from n = Some x \<or> n = as_i64 x" "db_rows (v_db s3) = db_rows (v_db s2)" by blast
  have "db_rows (v_db s') = db_rows (v_db s) @ [inserted_row i (agg_row cfg env latest e n h)]"
    using insert_request_Inr [OF 5(1)] 5(2) x(3) rows2 rows1 by simp
  moreover have "as_u64 n = x"
  proof (cases "n = as_i64 x")
    case False
    then have "u64_try_from n = Some x" using x(2) by simp
    then show ?thesis by (auto simp: u64_try_from_def as_u64_def split: if_splits)
  qed (simp add: as_u64_as_i64)
  ultimately show ?thesis using that [OF 2] rows1 x by simp
qed

lemma create_aggregation_Inr:
  assumes "create_aggregation_proofs cfg env s = (Inr (), s')" "db_rows (v_db s') \<noteq> db_rows (v_db s)"
  obtains latest e interval s1 where
    "get_latest_proposed_block_number env = Inr latest"
    "filter (\<lambda>r. for_agg_commitment (vc_commitments cfg) (vc_l1_chain_id cfg) (vc_l2_chain_id cfg) r \<and> rq_status r \<in> set active_statuses \<and>
       valid r \<and> rq_type r = Aggregation \<and> rq_start_block r = as_i64 latest) (db_rows (v_db s)) = []"
    "highest_contiguous_end (as_i64 latest) (map blocks_of (sort_key rq_start_block
       (filter (completed_range (vc_commitments cfg) (as_i64 latest) (vc_l1_chain_id cfg) (vc_l2_chain_id cfg)) (db_rows (v_db s))))) = Inr (Some e)"
    "ve_submission_interval env = Inr interval"
    "i64 (e - as_i64 latest) \<ge> as_i64 (max (ucast interval) (vc_submission_interval cfg))"
    "request_aggregation cfg env (as_i64 latest) e s1 = (Inr (), s')" "db_rows (v_db s1) = db_rows (v_db s)"
proof -
  let ?c = "vc_commitments cfg" and ?l1 = "vc_l1_chain_id cfg" and ?l2 = "vc_l2_chain_id cfg"
  from assms(1) obtain latest cnt d1 where latest: "get_latest_proposed_block_number env = Inr latest"
    and cnt: "fetch_active_agg_proofs_count (ve_db env) (as_i64 latest) ?c ?l1 ?l2 (v_db s) = (Inr cnt, d1)"
    and r1: "(if cnt > 0 then ret () else
      seq (on_db (fetch_completed_ranges (ve_db env) ?c (as_i64 latest) ?l1 ?l2)) (\<lambda>completed_range_proofs.
      seq (lift (highest_contiguous_end (as_i64 latest) completed_range_proofs)) (\<lambda>highest.
      case highest of
        None \<Rightarrow> ret ()
      | Some highest_proven \<Rightarrow>
          seq (lift (try_bind (ve_submission_interval env) to_u64)) (\<lambda>contract_submission_interval.
          if i64 (highest_proven - as_i64 latest) \<ge> as_i64 (max contract_submission_interval (vc_submission_interval cfg)) then
            request_aggregation cfg env (as_i64 latest) highest_proven
          else ret ())))) (s\<lparr>v_db := d1\<rparr>) = (Inr (), s')"
    unfolding create_aggregation_proofs_def Let_def lift_seq_Inr seq_on_db_Inr by blast
  note q1 = query_Inr [OF cnt [unfolded fetch_active_agg_proofs_count_def]]
  have "\<not> cnt > 0" using r1 assms(2) q1 by (auto split: if_splits)
  with r1 obtain crs d2 highest where
    2: "fetch_completed_ranges (ve_db env) ?c (as_i64 latest) ?l1 ?l2 d1 = (Inr crs, d2)"
    and 3: "highest_contiguous_end (as_i64 latest) crs = Inr highest"
    and r2: "(case highest of
        None \<Rightarrow> ret ()
      | Some highest_proven \<Rightarrow>
          seq (lift (try_bind (ve_submission_interval env) to_u64)) (\<lambda>contract_submission_interval.
          if i64 (highest_proven - as_i64 latest) \<ge> as_i64 (max contract_submission_interval (vc_submission_interval cfg)) then
            request_aggregation cfg env (as_i64 latest) highest_proven
          else ret ())) (s\<lparr>v_db := d2\<rparr>) = (Inr (), s')"
    by (auto simp: lift_seq_Inr seq_on_db_Inr simp del: seq_simps)
  note q2 = query_Inr [OF 2 [unfolded fetch_completed_ranges_def]]
  have rows: "db_rows (v_db (s\<lparr>v_db := d2\<rparr>)) = db_rows (v_db s)" using q1 q2 by simp
  from r2 rows assms(2) obtain e where e: "highest = Some e" by (cases highest) auto
  with r2 obtain interval where i: "ve_submission_interval env = Inr interval"
    and r3: "(if i64 (e - as_i64 latest) \<ge> as_i64 (max (ucast interval) (vc_submission_interval cfg)) then
            request_aggregation cfg env (as_i64 latest) e else ret ()) (s\<lparr>v_db := d2\<rparr>) = (Inr (), s')"
    by (auto simp: lift_seq_Inr try_bind_eq_Inr to_u64_eq_Inr simp del: seq_simps)
  show ?thesis
    by (rule that [OF latest _ _ i, of e "s\<lparr>v_db := d2\<rparr>"])
      (use q1 q2 3 e r3 rows assms(2) \<open>\<not> cnt > 0\<close> in \<open>auto split: if_splits\<close>)
qed

lemma uint_as_u64: "0 \<le> n \<Longrightarrow> n < 2 ^ 64 \<Longrightarrow> uint (as_u64 n) = n"
  by (simp add: as_u64_def unsigned_of_int take_bit_int_eq_self_iff)

text \<open>The batch maximum bounds every recorded head.\<close>

lemma batch_max_covers:
  assumes "batch_max_l1_head cfg env a b s = (Inr bm, s')" "\<forall>m. bm = Some m \<longrightarrow> m \<le> x"
    and "r \<in> set (db_rows (v_db s))" "complete_range_in a b (vc_commitments cfg) (vc_l1_chain_id cfg) (vc_l2_chain_id cfg) r"
    and "rq_l1_head_block_number r = Some k" "\<forall>r \<in> set (db_rows (v_db s)). \<forall>k. rq_l1_head_block_number r = Some k \<longrightarrow> 0 \<le> k \<and> k < 2 ^ 63"
  shows "k \<le> uint x"
proof -
  let ?rs = "filter (complete_range_in a b (vc_commitments cfg) (vc_l1_chain_id cfg) (vc_l2_chain_id cfg)) (db_rows (v_db s))"
  from assms(1) obtain m where m: "m = max_option (map rq_l1_head_block_number ?rs)"
    "case m of None \<Rightarrow> bm = None | Some n \<Rightarrow> \<exists>x. u64_try_from n = Some x \<and> bm = Some x"
    "db_rows (v_db s') = db_rows (v_db s)" "v_txs s' = v_txs s" by (rule batch_max_Inr)
  have mem: "Some k \<in> set (map rq_l1_head_block_number ?rs)" using assms(3-5) by (force intro: image_eqI [of _ _ r])
  then have "max_option (map rq_l1_head_block_number ?rs) \<noteq> None" using max_option_None by blast
  then obtain M where M: "m = Some M" unfolding m(1) by blast
  then obtain y where y: "u64_try_from M = Some y" "bm = Some y" using m(2) by auto
  have "Some M \<in> set (map rq_l1_head_block_number ?rs)" using max_option_mem m(1) M by metis
  then obtain q where "q \<in> set (db_rows (v_db s))" "rq_l1_head_block_number q = Some M" by auto
  then have "M < 2 ^ 63" using assms(6) by blast
  then have "uint y = M" using u64_try_from_Some [OF y(1)] by simp
  moreover have "k \<le> M" using max_option_ge mem m(1) M by metis
  moreover have "uint y \<le> uint x" using assms(2) y(2) by (simp add: word_le_def)
  ultimately show ?thesis by simp
qed

text \<open>The canonical hashes that were fetched, and the ranges found stale with them.\<close>

lemma fetch_canonical_Inr:
  assumes "fetch_canonical_hashes env m rs = Inr m'"
    and "\<And>n h. hm_get m n = Some h \<Longrightarrow> \<exists>header. l1_header_by_number (re_l1 (ve_requester env)) n = Inr header \<and> h = ve_hash_slow env header"
    and "hm_get m' n = Some h"
  shows "\<exists>header. l1_header_by_number (re_l1 (ve_requester env)) n = Inr header \<and> h = ve_hash_slow env header"
  using assms
proof (induction env m rs rule: fetch_canonical_hashes.induct)
  case (2 env m rng rest)
  from 2(3) obtain k where k: "l1_head_number_of rng = Inr k" by (auto simp: try_bind_eq_Inr)
  show ?case
  proof (cases "hm_get m k = None")
    case True
    with 2(3) k obtain header where header: "l1_header_by_number (re_l1 (ve_requester env)) k = Inr header"
      "fetch_canonical_hashes env (hm_insert k (ve_hash_slow env header) m) rest = Inr m'" by (auto simp: try_bind_eq_Inr)
    show ?thesis
    proof (rule 2(1) [OF k True header(1) header(2) _ 2(5)])
      fix i h' assume "hm_get (hm_insert k (ve_hash_slow env header) m) i = Some h'"
      then show "\<exists>header. l1_header_by_number (re_l1 (ve_requester env)) i = Inr header \<and> h' = ve_hash_slow env header"
        using header(1) 2(4) by (cases "i = k") simp_all
    qed
  next
    case False
    with 2(3) k have "fetch_canonical_hashes env m rest = Inr m'" by simp
    with 2(2) [OF k False] 2(4,5) show ?thesis by simp
  qed
qed simp

lemma stale_range_ids_Inr:
  assumes "stale_range_ids m rs = Inr ids" "r \<in> set rs" "rq_id r \<notin> set ids"
  obtains n h where "l1_head_number_of r = Inr n" "rq_l1_head_block_hash r = Some h" "hm_get m n = Some h"
proof -
  have "\<exists>n h. l1_head_number_of r = Inr n \<and> rq_l1_head_block_hash r = Some h \<and> hm_get m n = Some h"
    using assms
  proof (induction rs arbitrary: ids)
    case (Cons q rs)
    from Cons(2) obtain n h c ids' where q: "l1_head_number_of q = Inr n" "rq_l1_head_block_hash q = Some h" "hm_get m n = Some c"
      "stale_range_ids m rs = Inr ids'" "ids = (if c \<noteq> h then rq_id q # ids' else ids')"
      by (auto simp: try_bind_eq_Inr ok_or_eq_Inr)
    show ?case
    proof (cases "r = q")
      case True
      then have "c = h" using q(5) Cons(4) by (auto split: if_splits)
      with q(1,2,3) True show ?thesis by simp
    next
      case False
      then have "r \<in> set rs" "rq_id r \<notin> set ids'" using Cons(3,4) q(5) by (auto split: if_splits)
      with Cons(1) [OF q(4)] show ?thesis by simp
    qed
  qed simp
  then show ?thesis using that by blast
qed

lemma invalidate_keeps:
  assumes "invalidate_noncanonical_ranges env ids c l1 l2 d = (Inr counts, d')" "r \<in> set (db_rows d')" "valid r" "rq_type r = Range"
  shows "r \<in> set (db_rows d) \<and> \<not> stale_range ids r"
proof -
  from invalidate_rows [OF assms(1)] consider "db_rows d' = db_rows d" "ids = []"
    | now dm where "db_rows dm = map (\<lambda>r. if stale_range ids r then invalidate_range now r else r) (db_rows d)"
      "db_rows d' = map (\<lambda>r. if stale_agg ids c l1 l2 dm r then invalidate_agg now r else r) (db_rows dm)"
    by blast
  then show ?thesis
  proof cases
    case 1
    with assms(2) show ?thesis by (simp add: stale_range_def)
  next
    case 2
    from assms(2) 2(2) obtain q where q: "q \<in> set (db_rows dm)" "r = (if stale_agg ids c l1 l2 dm q then invalidate_agg now q else q)" by auto
    with assms(3) have "r = q" by (simp add: invalidate_agg_def split: if_splits)
    with q(1) 2(1) obtain p where p: "p \<in> set (db_rows d)" "r = (if stale_range ids p then invalidate_range now p else p)" by auto
    with assms(3) have "r = p" "\<not> stale_range ids p" by (simp_all add: invalidate_range_def split: if_splits)
    with p(1) show ?thesis by simp
  qed
qed

text \<open>The active ranges, and what adding new ones does to them.\<close>

definition active_range :: "vconfig \<Rightarrow> int \<Rightarrow> request \<Rightarrow> bool" where
  "active_range cfg latest r \<longleftrightarrow> for_commitment (vc_commitments cfg) (vc_l1_chain_id cfg) (vc_l2_chain_id cfg) r \<and>
     rq_status r \<in> set active_statuses \<and> rq_type r = Range \<and> valid r \<and> rq_start_block r \<ge> latest"

definition active_ranges :: "vconfig \<Rightarrow> int \<Rightarrow> db \<Rightarrow> range list" where
  "active_ranges cfg latest d = map blocks_of (filter (active_range cfg latest) (db_rows d))"

definition apart :: "range \<Rightarrow> range \<Rightarrow> bool" where
  "apart p q \<longleftrightarrow> snd p \<le> fst q \<or> snd q \<le> fst p"

lemma apart_blocks:
  assumes "fst p < snd p" "fst q < snd q" "\<And>b. in_range b p \<Longrightarrow> \<not> in_range b q"
  shows "apart p q"
proof -
  have "\<not> (in_range (max (fst p) (fst q)) p \<and> in_range (max (fst p) (fst q)) q)" using assms(3) by blast
  then show ?thesis using assms(1,2) unfolding apart_def in_range_def by linarith
qed

lemma fold_add_row:
  assumes "\<forall>r \<in> set rs. \<forall>i. P (inserted_row i r)"
  shows "map blocks_of (filter P (db_rows (fold add_row rs d))) = map blocks_of (filter P (db_rows d)) @ map blocks_of rs"
  using assms by (induction rs arbitrary: d) (auto simp: add_row_def blocks_of_def inserted_row_def)

lemma new_range_requests:
  assumes "try_map (\<lambda>(s, e). create_range_request env mode s e vkey rollup l1 l2) ranges = Inr reqs"
  shows "map blocks_of reqs = ranges \<and> (\<forall>r \<in> set reqs. rq_status r = Unrequested \<and> rq_type r = Range \<and>
    rq_range_vkey_commitment r = vkey \<and> rq_rollup_config_hash r = rollup \<and> rq_l1_chain_id r = l1 \<and> rq_l2_chain_id r = l2)"
  using assms
  by (induction ranges arbitrary: reqs)
    (auto simp: try_bind_eq_Inr create_range_request_def new_range_request_def request_default_def blocks_of_def)

lemma add_new_ranges_active:
  assumes "add_new_ranges cfg env s = (Inr (), s')" "get_latest_proposed_block_number env = Inr latest"
    and "ve_max_provable_l2_block env = Inr finalized"
  obtains ranges where "ranges_to_prove cfg (ve_requester env) (find_gaps (as_i64 latest) (as_i64 finalized)
      (sort_key fst (active_ranges cfg (as_i64 latest) (v_db s)))) = Inr ranges"
    "(\<forall>r \<in> set ranges. as_i64 latest \<le> fst r) \<longrightarrow>
      active_ranges cfg (as_i64 latest) (v_db s') = active_ranges cfg (as_i64 latest) (v_db s) @ ranges"
proof -
  let ?new = "\<lambda>ranges. try_map (\<lambda>(s, e). create_range_request (ve_requester env) (request_mode_of cfg) s e
            (cc_range_vkey_commitment (vc_commitments cfg)) (cc_rollup_config_hash (vc_commitments cfg))
            (vc_l1_chain_id cfg) (vc_l2_chain_id cfg)) ranges"
  from assms obtain rqs d ranges where
    q: "fetch_ranges_after_block (ve_db env) active_statuses (as_i64 latest) (vc_commitments cfg) (vc_l1_chain_id cfg) (vc_l2_chain_id cfg)
      (v_db s) = (Inr rqs, d)"
    and rs: "ranges_to_prove cfg (ve_requester env) (find_gaps (as_i64 latest) (as_i64 finalized) (sort_key fst rqs)) = Inr ranges"
    and rest: "(if ranges = [] then ret () else seq (lift (?new ranges)) (\<lambda>new_requests. on_db (insert_requests (ve_db env) new_requests)))
      (s\<lparr>v_db := d\<rparr>) = (Inr (), s')"
    unfolding add_new_ranges_def Let_def by (auto simp: lift_seq_Inr seq_on_db_Inr simp del: seq_simps cong: if_cong)
  note q' = query_Inr [OF q [unfolded fetch_ranges_after_block_def]]
  have rqs: "rqs = active_ranges cfg (as_i64 latest) (v_db s)"
    using q' unfolding active_ranges_def active_range_def by simp
  have same: "active_ranges cfg (as_i64 latest) d = active_ranges cfg (as_i64 latest) (v_db s)"
    using q' by (simp add: active_ranges_def)
  show ?thesis
  proof (rule that [of ranges], use rs rqs in simp, rule impI)
    assume start: "\<forall>r \<in> set ranges. as_i64 latest \<le> fst r"
    show "active_ranges cfg (as_i64 latest) (v_db s') = active_ranges cfg (as_i64 latest) (v_db s) @ ranges"
    proof (cases "ranges = []")
      case True
      then show ?thesis using rest same by auto
    next
      case False
      with rest obtain reqs where reqs: "?new ranges = Inr reqs" "on_db (insert_requests (ve_db env) reqs) (s\<lparr>v_db := d\<rparr>) = (Inr (), s')"
        by (auto simp: lift_seq_Inr simp del: seq_simps)
      note new = new_range_requests [OF reqs(1)]
      from reqs(2) have "db_rows (v_db s') = db_rows (fold add_row reqs (d\<lparr>db_calls := Suc (db_calls d)\<rparr>))"
        by (auto simp: on_db_Inr insert_requests_def db_call_def Let_def split: option.splits)
      moreover have "\<forall>r \<in> set reqs. \<forall>i. active_range cfg (as_i64 latest) (inserted_row i r)"
      proof (intro ballI allI)
        fix r i assume r: "r \<in> set reqs"
        then have "blocks_of r \<in> set ranges" using new by (metis image_eqI set_map)
        then have "as_i64 latest \<le> rq_start_block r" using start by (metis blocks_of_def fst_conv)
        with new r show "active_range cfg (as_i64 latest) (inserted_row i r)"
          by (simp add: active_range_def inserted_row_def for_commitment_def active_statuses_def)
      qed
      ultimately show ?thesis using new same fold_add_row [of reqs "active_range cfg (as_i64 latest)"] by (simp add: active_ranges_def)
    qed
  qed
qed

text \<open>New ranges in block mode: pieces of the gaps, all but one short last one of them.\<close>

lemma find_gaps_spec:
  "separated (find_gaps a z (sort_key fst rs)) \<and> (in_ranges b (find_gaps a z (sort_key fst rs)) \<longleftrightarrow>
     a \<le> b \<and> (b < z \<or> (\<exists>r \<in> set rs. b < fst r)) \<and> \<not> in_ranges b rs)"
proof -
  have "in_ranges b (sort_key fst rs) \<longleftrightarrow> in_ranges b rs" by (simp add: in_ranges_def)
  then show ?thesis
    using merge_ranges_spec [of "raw_gaps a z (sort_key fst rs)" b] raw_gaps_nonempty raw_gaps_cover [of "sort_key fst rs" b a z]
    unfolding find_gaps_def by (simp add: sorted_sort_key)
qed

lemma separated_ordered: "separated gs \<Longrightarrow> sorted_wrt (\<lambda>r r'. snd r \<le> fst r') gs \<and> (\<forall>g \<in> set gs. fst g < snd g)"
  by (induction gs) (auto intro: less_imp_le)

lemma gap_bounds:
  assumes "g \<in> set (find_gaps a z (sort_key fst rs))"
  shows "a \<le> fst g \<and> fst g < snd g \<and> (snd g \<le> z \<or> (\<exists>r \<in> set rs. snd g \<le> fst r))"
proof -
  let ?gs = "find_gaps a z (sort_key fst rs)"
  have ne: "fst g < snd g" using separated_ordered find_gaps_spec assms by blast
  then have "in_ranges (fst g) ?gs" "in_ranges (snd g - 1) ?gs" using assms by (auto simp: in_ranges_def in_range_def)
  then have "a \<le> fst g" "snd g - 1 < z \<or> (\<exists>r \<in> set rs. snd g - 1 < fst r)" using find_gaps_spec by blast+
  with ne show ?thesis by force
qed

lemma piece_bounds:
  assumes "pieces_of ok gs ps" "p \<in> set ps"
  obtains g where "g \<in> set gs" "fst g \<le> fst p" "snd p \<le> snd g" "fst p < snd p"
proof -
  obtain a b where p: "p = (a, b)" by (cases p)
  then have "\<exists>(s, e) \<in> set gs. s \<le> a \<and> b \<le> e" using pieces_of_bounds [OF assms(1)] assms(2) by blast
  then obtain s e where "(s, e) \<in> set gs" "s \<le> a" "b \<le> e" by auto
  with that [of "(s, e)"] pieces_of_nonempty [OF assms(1)] assms(2) p show ?thesis by simp
qed

lemma block_pieces:
  assumes "vc_evm_gas_limit cfg = 0" "0 < k" "as_i64 (vc_range_proof_interval cfg) = k" "\<forall>g \<in> set gs. block_range k g"
    and "ranges_to_prove cfg env gs = Inr ranges"
  obtains ps where "pieces_of (\<lambda>(a, b). b - a \<le> k) gs ps"
    "ranges = ps \<or> (ranges = butlast ps \<and> ps \<noteq> [] \<and> snd (last ps) - fst (last ps) < k)"
proof -
  obtain ps where ps: "blocks_all k gs = Some ps" "pieces_of (\<lambda>(a, b). b - a \<le> k) gs ps"
    using blocks_all_pieces [OF assms(2,4)] by blast
  then have "ranges = pop_short k ps" using assms(1,3,5) by (simp add: ranges_to_prove_def get_ranges_to_prove_by_blocks_def)
  moreover have "i64 (snd (last ps) - fst (last ps)) = snd (last ps) - fst (last ps)" if ne: "ps \<noteq> []"
  proof -
    obtain g where "g \<in> set gs" "fst g \<le> fst (last ps)" "snd (last ps) \<le> snd g" "fst (last ps) < snd (last ps)"
      using ps(2) last_in_set [OF ne] by (rule piece_bounds)
    with assms(2,4) show ?thesis by (intro i64_id) (auto simp: block_range_def)
  qed
  ultimately show ?thesis using that [OF ps(2)] by (auto simp: pop_short_def split: if_splits)
qed

lemma piece_in_gaps:
  assumes "pieces_of ok gs ps" "p \<in> set ps" "in_range b p"
  shows "in_ranges b gs"
proof -
  obtain g where "g \<in> set gs" "fst g \<le> fst p" "snd p \<le> snd g" "fst p < snd p" using assms(1,2) by (rule piece_bounds)
  with assms(3) show ?thesis unfolding in_ranges_def in_range_def by (intro bexI [of _ g]) auto
qed

lemma gaps_in_pieces:
  assumes "pieces_of ok gs ps" "in_ranges b gs"
  shows "in_ranges b ps"
  using pieces_of_covers [OF assms(1), of "b + 1"] assms(2) by (force simp: in_ranges_def in_range_def)

text \<open>Dropping the last of a row of pieces.\<close>

lemma butlast_pieces:
  assumes "sorted_wrt (\<lambda>r r'. snd r \<le> fst r') ps" "ps \<noteq> []" "\<forall>p \<in> set ps. fst p < snd p"
  shows "in_ranges b (butlast ps) \<longleftrightarrow> in_ranges b ps \<and> \<not> in_range b (last ps)" "in_ranges b ps \<Longrightarrow> b < snd (last ps)"
proof -
  obtain qs q where ps: "ps = qs @ [q]" using assms(2) by (cases ps rule: rev_cases) auto
  have before: "snd p \<le> fst q" if "p \<in> set qs" for p using assms(1) that by (simp add: ps sorted_wrt_append)
  have q: "fst q < snd q" using assms(3) by (simp add: ps)
  show "in_ranges b (butlast ps) \<longleftrightarrow> in_ranges b ps \<and> \<not> in_range b (last ps)"
    unfolding ps in_ranges_def in_range_def using before by fastforce
  show "in_ranges b ps \<Longrightarrow> b < snd (last ps)"
    unfolding ps in_ranges_def in_range_def using before q by fastforce
qed

section \<open>Properties\<close>

text \<open>The link to the request state machine of \<open>Requests\<close>. Whatever turns of the loop, proof tasks, calls of the external interface
  and restarts do, with whatever answers and failures of the database, the nodes and the provers, the database only ever makes steps of that
  machine, so its invariants hold. Turns and tasks run one after the other here; the invariants do not depend on that, since the
  machine takes the statements of all clients in any order.\<close>

theorem validity_refines_requests:
  assumes "(vstep cfg)\<^sup>*\<^sup>* s s'" "db_init (v_db s)"
  shows "(db_step (vc_max_concurrent_witness_gen cfg))\<^sup>*\<^sup>* (v_db s) (v_db s') \<and> db_ok (vc_max_concurrent_witness_gen cfg) (v_db s')"
proof
  let ?mw = "vc_max_concurrent_witness_gen cfg"
  from assms(2,1) show "db_ok ?mw (v_db s')" by (rule validity_system.reachable_inv)
  from assms(1) show "(db_step ?mw)\<^sup>*\<^sup>* (v_db s) (v_db s')"
  proof (induction rule: rtranclp_induct)
    case (step t u)
    have "db_ok ?mw (v_db t)" using assms(2) step(1) by (rule validity_system.reachable_inv)
    with step(2) have "(db_step ?mw)\<^sup>*\<^sup>* (v_db t) (v_db u)" by (rule vstep_db_steps)
    with step(3) show ?case by (rule rtranclp_trans)
  qed simp
qed

text \<open>C6: Aggregations are sound when they are created. If \<open>create_aggregation_proofs\<close> adds a request, no active valid aggregation started at that block;
  the completed valid ranges inside it tile it exactly, from the latest proposed block to its end, so that its witness can be
  assembled; and its checkpoint is not below the recorded L1 head of any of them.\<close>

theorem create_aggregation_sound:
  assumes "create_aggregation_proofs cfg env s = (Inr (), s')" "db_rows (v_db s') \<noteq> db_rows (v_db s)"
    and "\<forall>r \<in> set (db_rows (v_db s)). rq_start_block r < rq_end_block r"
    and "\<forall>r \<in> set (db_rows (v_db s)). \<forall>k. rq_l1_head_block_number r = Some k \<longrightarrow> 0 \<le> k \<and> k < 2 ^ 63"
    and "\<forall>k x. l1_header_by_number (re_l1 (ve_requester env)) k = Inr x \<longrightarrow> ch_number x = k"
  shows "\<exists>latest e n h i. get_latest_proposed_block_number env = Inr latest \<and>
    db_rows (v_db s') = db_rows (v_db s) @ [inserted_row i (agg_row cfg env (as_i64 latest) e n h)] \<and>
    (\<forall>r \<in> set (db_rows (v_db s)). for_agg_commitment (vc_commitments cfg) (vc_l1_chain_id cfg) (vc_l2_chain_id cfg) r \<and>
       rq_type r = Aggregation \<and> valid r \<and> rq_start_block r = as_i64 latest \<longrightarrow> rq_status r \<notin> set active_statuses) \<and>
    chained (as_i64 latest) e (map blocks_of (sort_key rq_start_block
      (filter (complete_range_in (as_i64 latest) e (vc_commitments cfg) (vc_l1_chain_id cfg) (vc_l2_chain_id cfg)) (db_rows (v_db s))))) \<and>
    (\<forall>r \<in> set (db_rows (v_db s)). \<forall>k. complete_range_in (as_i64 latest) e (vc_commitments cfg) (vc_l1_chain_id cfg) (vc_l2_chain_id cfg) r \<and>
       rq_l1_head_block_number r = Some k \<longrightarrow> k \<le> uint (as_u64 n))"
proof -
  let ?c = "vc_commitments cfg" and ?l1 = "vc_l1_chain_id cfg" and ?l2 = "vc_l2_chain_id cfg" and ?R = "db_rows (v_db s)"
  obtain latest e interval s1 where latest: "get_latest_proposed_block_number env = Inr latest"
    and none: "filter (\<lambda>r. for_agg_commitment ?c ?l1 ?l2 r \<and> rq_status r \<in> set active_statuses \<and>
       valid r \<and> rq_type r = Aggregation \<and> rq_start_block r = as_i64 latest) ?R = []"
    and high: "highest_contiguous_end (as_i64 latest)
       (map blocks_of (sort_key rq_start_block (filter (completed_range ?c (as_i64 latest) ?l1 ?l2) ?R))) = Inr (Some e)"
    and "ve_submission_interval env = Inr interval" "i64 (e - as_i64 latest) \<ge> as_i64 (max (ucast interval) (vc_submission_interval cfg))"
    and req: "request_aggregation cfg env (as_i64 latest) e s1 = (Inr (), s')" and R1: "db_rows (v_db s1) = ?R"
    using assms(1,2) by (rule create_aggregation_Inr)
  obtain pre post where split: "map blocks_of (sort_key rq_start_block (filter (completed_range ?c (as_i64 latest) ?l1 ?l2) ?R)) = pre @ post"
    "chained (as_i64 latest) e pre" "post = [] \<or> e < fst (hd post)"
    using contiguous_loop_Some [OF high [unfolded highest_contiguous_end_def]] by blast
  then obtain rpre rpost where rs: "sort_key rq_start_block (filter (completed_range ?c (as_i64 latest) ?l1 ?l2) ?R) = rpre @ rpost"
    "pre = map blocks_of rpre" "post = map blocks_of rpost" by (auto simp: map_eq_append_conv)
  have above: "rpost = [] \<or> e < rq_start_block (hd rpost)" using split(3) rs(3) by (cases rpost) (auto simp: blocks_of_def)
  have chain: "sort_key rq_start_block (filter (complete_range_in (as_i64 latest) e ?c ?l1 ?l2) ?R) = rpre"
    by (rule completed_chain_exact [OF _ rs(1) above assms(3)]) (use split(2) rs(2) in simp)
  have hdr: "\<And>k y. l1_header_by_number (re_l1 (ve_requester env)) k = Inr y \<Longrightarrow> ch_number y = k" using assms(5) by simp
  obtain bm h n i x s2 s3 where bm: "batch_max_l1_head cfg env (as_i64 latest) e s2 = (Inr bm, s3)" "db_rows (v_db s2) = db_rows (v_db s1)"
    and x: "\<forall>m. bm = Some m \<longrightarrow> m \<le> x" "as_u64 n = x"
    and rows: "db_rows (v_db s') = db_rows (v_db s1) @ [inserted_row i (agg_row cfg env (as_i64 latest) e n h)]"
    by (rule request_aggregation_Inr [OF req hdr])
  have "k \<le> uint (as_u64 n)" if "r \<in> set ?R" "complete_range_in (as_i64 latest) e ?c ?l1 ?l2 r" "rq_l1_head_block_number r = Some k" for r k
    using batch_max_covers [OF bm(1) x(1), of r k] that assms(4) bm(2) R1 x(2) by simp
  moreover have "\<forall>r \<in> set ?R. for_agg_commitment ?c ?l1 ?l2 r \<and> rq_type r = Aggregation \<and> valid r \<and> rq_start_block r = as_i64 latest \<longrightarrow>
      rq_status r \<notin> set active_statuses" using none by (auto simp: filter_empty_conv)
  moreover have "chained (as_i64 latest) e (map blocks_of rpre)" using split(2) rs(2) by simp
  ultimately show ?thesis
    by (intro exI [of _ latest] exI [of _ e] exI [of _ n] exI [of _ h] exI [of _ i] conjI ballI allI impI)
      (simp_all add: latest rows R1 chain)
qed

text \<open>C9: The relayed proposal. A run of \<open>submit_agg_proofs\<close> either sends nothing and changes no request, or sends exactly one proposal:
  that of a completed, valid aggregation under the proposer's commitment that starts at the latest proposed block, with the
  output root of its end block, its checkpointed L1 block and its proof. When it returns without an error after sending, the transaction succeeded and
  the one complete and valid request with that id is now \<open>Relayed\<close>, all others being unchanged.\<close>

theorem submit_agg_proofs_relays:
  assumes "submit_agg_proofs cfg env s = (r, s')"
  shows "(v_txs s' = v_txs s \<and> db_rows (v_db s') = db_rows (v_db s)) \<or>
    (\<exists>latest agg tx. get_latest_proposed_block_number env = Inr latest \<and> agg \<in> set (db_rows (v_db s)) \<and>
       for_agg_commitment (vc_commitments cfg) (vc_l1_chain_id cfg) (vc_l2_chain_id cfg) agg \<and>
       rq_type agg = Aggregation \<and> rq_status agg = Complete \<and> valid agg \<and> rq_start_block agg = as_i64 latest \<and>
       proposal_of cfg env agg tx \<and> v_txs s' = v_txs s @ [tx] \<and>
       (r = Inr () \<longrightarrow> (\<exists>rc now. ve_send env tx = Inr rc \<and> tr_status rc \<and>
          length (filter (\<lambda>q. rq_id q = rq_id agg \<and> rq_status q = Complete \<and> valid q) (db_rows (v_db s))) = 1 \<and>
          db_rows (v_db s') = map (\<lambda>q. if rq_id q = rq_id agg \<and> rq_status q = Complete \<and> valid q
            then set_status Relayed now (q\<lparr>rq_relay_tx_hash := Some (tr_hash rc), rq_contract_address := Some (vc_l2oo_address cfg)\<rparr>)
            else q) (db_rows (v_db s)))))"
proof (cases "get_latest_proposed_block_number env")
  case (Inl e)
  then show ?thesis using assms by (simp add: submit_agg_proofs_def)
next
  case latest: (Inr latest)
  obtain q d where q: "fetch_completed_agg_proof_after_block (ve_db env) (as_i64 latest) (vc_commitments cfg) (vc_l1_chain_id cfg)
      (vc_l2_chain_id cfg) (v_db s) = (q, d)" by fastforce
  let ?s1 = "s\<lparr>v_db := d\<rparr>"
  have run: "submit_agg_proofs cfg env s = seq (\<lambda>_. (q, ?s1)) (\<lambda>completed. case completed of
       None \<Rightarrow> ret ()
     | Some agg \<Rightarrow>
         seq (relay_aggregation_proof cfg env agg) (\<lambda>transaction_hash.
         seq (on_db (update_request_to_relayed (ve_db env) (rq_id agg) transaction_hash (vc_l2oo_address cfg))) (\<lambda>recorded.
         lift (ensure recorded ''Aggregation request changed before relay persistence'')))) s"
    by (simp add: submit_agg_proofs_def latest on_db_def q seq_def)
  have rows: "db_rows d = db_rows (v_db s)" using fetch_completed_agg_rows [of "ve_db env"] q by (metis snd_conv)
  show ?thesis
  proof (cases "\<exists>agg. q = Inr (Some agg)")
    case False
    then show ?thesis using assms rows unfolding run by (auto simp: seq_def split: sum.splits option.splits)
  next
    case True
    then obtain agg where agg: "q = Inr (Some agg)" by blast
    note found = fetch_completed_agg_Inr [OF q [unfolded agg]]
    from relay_txs [of cfg env agg ?s1] show ?thesis
    proof
      assume "\<exists>e. relay_aggregation_proof cfg env agg ?s1 = (Inl e, ?s1)"
      then show ?thesis using assms rows unfolding run by (auto simp: seq_def agg)
    next
      assume "\<exists>tx r. proposal_of cfg env agg tx \<and> relay_aggregation_proof cfg env agg ?s1 = (r, ?s1\<lparr>v_txs := v_txs ?s1 @ [tx]\<rparr>) \<and>
        (\<forall>h. r = Inr h \<longrightarrow> (\<exists>rc. ve_send env tx = Inr rc \<and> tr_status rc \<and> h = tr_hash rc))"
      then obtain tx r1 where tx: "proposal_of cfg env agg tx" "relay_aggregation_proof cfg env agg ?s1 = (r1, ?s1\<lparr>v_txs := v_txs s @ [tx]\<rparr>)"
        "\<forall>h. r1 = Inr h \<longrightarrow> (\<exists>rc. ve_send env tx = Inr rc \<and> tr_status rc \<and> h = tr_hash rc)" by auto
      have "v_txs s' = v_txs s @ [tx]"
        using assms unfolding run by (auto simp: seq_def agg tx(2) on_db_def split: sum.splits prod.splits)
      moreover have "\<exists>rc now. ve_send env tx = Inr rc \<and> tr_status rc \<and>
          length (filter (\<lambda>q. rq_id q = rq_id agg \<and> rq_status q = Complete \<and> valid q) (db_rows (v_db s))) = 1 \<and>
          db_rows (v_db s') = map (\<lambda>q. if rq_id q = rq_id agg \<and> rq_status q = Complete \<and> valid q
            then set_status Relayed now (q\<lparr>rq_relay_tx_hash := Some (tr_hash rc), rq_contract_address := Some (vc_l2oo_address cfg)\<rparr>)
            else q) (db_rows (v_db s))" if ok: "r = Inr ()"
      proof -
        from ok assms obtain h d2 where h: "r1 = Inr h"
          and u: "update_request_to_relayed (ve_db env) (rq_id agg) h (vc_l2oo_address cfg) d = (Inr True, d2)" "v_db s' = d2"
          unfolding run by (auto simp: seq_def agg tx(2) on_db_def ensure_def split: sum.splits prod.splits if_splits)
        from h tx(3) obtain rc where rc: "ve_send env tx = Inr rc" "tr_status rc" "h = tr_hash rc" by blast
        from rc rows update_request_to_relayed_Inr [OF u(1)] u(2) show ?thesis
          by (intro exI [of _ rc] exI [of _ "db_now (ve_db env) (db_calls d)"]) simp
      qed
      ultimately show ?thesis using latest found tx(1) by blast
    qed
  qed
qed

text \<open>C11: Completed ranges are canonical. When \<open>reconcile_completed_range_canonicality\<close> reports that the proposer may go on, every completed range
  past the latest proposed block that is still valid has an L1 head number and hash recorded, and that hash is the hash of the header that the L1
  node now has at that number.\<close>

theorem reconcile_leaves_canonical:
  assumes "reconcile_completed_range_canonicality cfg env s = (Inr True, s')" "get_latest_proposed_block_number env = Inr latest"
    and "r \<in> set (db_rows (v_db s'))" "completed_range (vc_commitments cfg) (as_i64 latest) (vc_l1_chain_id cfg) (vc_l2_chain_id cfg) r"
  shows "\<exists>n header. rq_l1_head_block_number r = Some n \<and> 0 \<le> n \<and>
    l1_header_by_number (re_l1 (ve_requester env)) (word_of_int n) = Inr header \<and> rq_l1_head_block_hash r = Some (ve_hash_slow env header)"
proof -
  let ?c = "vc_commitments cfg" and ?l1 = "vc_l1_chain_id cfg" and ?l2 = "vc_l2_chain_id cfg"
  have split_if: "(if b then ret False else m) t = (Inr True, t') \<longleftrightarrow> \<not> b \<and> m t = (Inr True, t')" for b m t and t' :: vstate by auto
  from assms(1,2) obtain d cs d1 m ids counts d2 where
    cs: "fetch_completed_range_metadata (ve_db env) ?c (as_i64 latest) ?l1 ?l2 d = (Inr cs, d1)"
    and m: "fetch_canonical_hashes env [] cs = Inr m" and ids: "stale_range_ids m cs = Inr ids"
    and inv: "invalidate_noncanonical_ranges (ve_db env) ids ?c ?l1 ?l2 d1 = (Inr counts, d2)" and s': "v_db s' = d2"
    unfolding reconcile_completed_range_canonicality_def
    by (auto simp: lift_seq_Inr seq_on_db_Inr seq_eq_Inr [of "for_each f xs" for f xs] split_if simp del: seq_simps)
  note q = query_Inr [OF cs [unfolded fetch_completed_range_metadata_def]]
  have valid: "valid r" "rq_type r = Range" "rq_status r = Complete" using assms(4) by (simp_all add: completed_range_def)
  have r: "r \<in> set (db_rows d1)" "\<not> stale_range ids r" using invalidate_keeps [OF inv _ valid(1,2)] assms(3) s' by simp_all
  have "r \<in> set cs" using q r(1) assms(4) by simp
  moreover have "rq_id r \<notin> set ids" using r(2) valid by (simp add: stale_range_def)
  ultimately obtain n h where n: "l1_head_number_of r = Inr n" "rq_l1_head_block_hash r = Some h" "hm_get m n = Some h"
    by (rule stale_range_ids_Inr [OF ids])
  have "\<exists>header. l1_header_by_number (re_l1 (ve_requester env)) n = Inr header \<and> h = ve_hash_slow env header"
    by (rule fetch_canonical_Inr [OF m _ n(3)]) simp
  then obtain header where "l1_header_by_number (re_l1 (ve_requester env)) n = Inr header" "h = ve_hash_slow env header" by blast
  moreover from n(1) obtain k where "rq_l1_head_block_number r = Some k" "0 \<le> k" "n = word_of_int k"
    by (auto simp: l1_head_number_of_def try_bind_eq_Inr ok_or_eq_Inr u64_try_from_def split: if_splits)
  ultimately show ?thesis using n(2) by blast
qed

text \<open>The check before an aggregation is requested. For non-empty range proofs with first before last block,
  \<open>validate_aggregation_request\<close> accepts exactly when they follow on each other, without gap or overlap, from the first to the last block of
  the aggregation; and it never accepts an empty list.\<close>

theorem validate_aggregation_exact:
  assumes "\<forall>p \<in> set ps. rq_start_block p < rq_end_block p"
  shows "validate_aggregation_request ps agg \<longleftrightarrow> ps \<noteq> [] \<and> chained (rq_start_block agg) (rq_end_block agg) (map blocks_of ps)"
proof (cases "ps = []")
  case False
  show ?thesis
  proof
    assume "validate_aggregation_request ps agg"
    then have v: "rq_start_block (hd ps) = rq_start_block agg" "rq_end_block (last ps) = rq_end_block agg" "consecutive_without_gap ps"
      by (simp_all add: validate_aggregation_request_def)
    from consecutive_chained [OF v(3) False assms] v(1,2) False
    show "ps \<noteq> [] \<and> chained (rq_start_block agg) (rq_end_block agg) (map blocks_of ps)" by simp
  next
    assume "ps \<noteq> [] \<and> chained (rq_start_block agg) (rq_end_block agg) (map blocks_of ps)"
    then have c: "chained (rq_start_block agg) (rq_end_block agg) (map blocks_of ps)" by simp
    from chained_ends [OF c False] chained_consecutive [OF c] False
    show "validate_aggregation_request ps agg" by (simp add: validate_aggregation_request_def)
  qed
qed (simp add: validate_aggregation_request_def)

text \<open>C10: In block mode (no gas limit), new ranges tile what is not being proved yet. If the active ranges past the latest proposed block
  do not overlap, then a successful run of \<open>add_new_ranges\<close> leaves active ranges that do not overlap, and the only blocks between the latest
  proposed and the latest provable one that they leave out form one piece \<open>[t, e)\<close>, possibly empty and shorter than the interval, that is the
  last of what was missing: every block from \<open>e\<close> on was covered before.\<close>

theorem add_new_ranges_tiles:
  assumes "add_new_ranges cfg env s = (Inr (), s')" "get_latest_proposed_block_number env = Inr latest"
    and "ve_max_provable_l2_block env = Inr finalized" "vc_evm_gas_limit cfg = 0"
    and "as_i64 (vc_range_proof_interval cfg) = k" "0 < k" "0 \<le> as_i64 latest" "as_i64 finalized + k < 2 ^ 63"
    and "\<forall>r \<in> set (active_ranges cfg (as_i64 latest) (v_db s)). fst r < snd r \<and> fst r + k < 2 ^ 63"
    and "sorted_wrt apart (active_ranges cfg (as_i64 latest) (v_db s))"
  shows "sorted_wrt apart (active_ranges cfg (as_i64 latest) (v_db s')) \<and>
    (\<exists>t e. e - t < k \<and> (\<forall>b. as_i64 latest \<le> b \<and> b < as_i64 finalized \<longrightarrow>
       (in_ranges b (active_ranges cfg (as_i64 latest) (v_db s')) \<longleftrightarrow> \<not> (t \<le> b \<and> b < e)) \<and>
       (e \<le> b \<longrightarrow> in_ranges b (active_ranges cfg (as_i64 latest) (v_db s)))))"
proof -
  let ?old = "active_ranges cfg (as_i64 latest) (v_db s)" and ?new = "active_ranges cfg (as_i64 latest) (v_db s')"
  let ?gs = "find_gaps (as_i64 latest) (as_i64 finalized) (sort_key fst ?old)"
  obtain ranges where ranges: "ranges_to_prove cfg (ve_requester env) ?gs = Inr ranges"
    "(\<forall>r \<in> set ranges. as_i64 latest \<le> fst r) \<longrightarrow> ?new = ?old @ ranges"
    using assms(1,2,3) by (rule add_new_ranges_active)
  have ok: "\<forall>g \<in> set ?gs. block_range k g" using gap_bounds assms(7,8,9) unfolding block_range_def by fastforce
  obtain ps where ps: "pieces_of (\<lambda>(a, b). b - a \<le> k) ?gs ps"
    "ranges = ps \<or> (ranges = butlast ps \<and> ps \<noteq> [] \<and> snd (last ps) - fst (last ps) < k)"
    by (rule block_pieces [OF assms(4,6,5) ok ranges(1)])
  have mem: "r \<in> set ps" if "r \<in> set ranges" for r using ps(2) that by (auto dest: in_set_butlastD)
  have new: "?new = ?old @ ranges"
  proof (rule ranges(2) [rule_format])
    fix r assume "r \<in> set ranges"
    then have "r \<in> set ps" by (rule mem)
    with ps(1) obtain g where g: "g \<in> set ?gs" "fst g \<le> fst r" "snd r \<le> snd g" "fst r < snd r" by (rule piece_bounds)
    then show "as_i64 latest \<le> fst r" using gap_bounds [OF g(1)] by simp
  qed
  have ordered: "sorted_wrt (\<lambda>r r'. snd r \<le> fst r') ps"
    using separated_ordered find_gaps_spec by (intro pieces_of_disjoint [OF ps(1)]) blast
  then have "sorted_wrt apart ps" by (rule sorted_wrt_mono_rel [rotated]) (auto simp: apart_def)
  then have "sorted_wrt apart ranges" using ps(2) by (cases ps rule: rev_cases) (auto simp: sorted_wrt_append)
  moreover have "apart p q" if p: "p \<in> set ?old" and q: "q \<in> set ranges" for p q
  proof (rule apart_blocks)
    show "fst p < snd p" using assms(9) p by blast
    show "fst q < snd q" using ps(1) mem [OF q] by (rule piece_bounds)
    fix b assume "in_range b p"
    then have "in_ranges b ?old" using p by (auto simp: in_ranges_def)
    then show "\<not> in_range b q" using piece_in_gaps [OF ps(1) mem [OF q]] find_gaps_spec by blast
  qed
  ultimately have apart: "sorted_wrt apart ?new" unfolding new using assms(10) by (simp add: sorted_wrt_append)
  have missing: "in_ranges b ps \<longleftrightarrow> \<not> in_ranges b ?old" if "as_i64 latest \<le> b" "b < as_i64 finalized" for b
    using that find_gaps_spec gaps_in_pieces [OF ps(1)] piece_in_gaps [OF ps(1)] by (metis in_ranges_def)
  have ne: "\<forall>p \<in> set ps. fst p < snd p" using piece_bounds [OF ps(1)] by metis
  from ps(2) show ?thesis
  proof
    assume "ranges = ps"
    then have "in_ranges b ?new" if "as_i64 latest \<le> b" "b < as_i64 finalized" for b
      unfolding new using missing [OF that] by auto
    then show ?thesis using apart assms(6) by (intro conjI exI [of _ "as_i64 finalized"]) auto
  next
    assume short: "ranges = butlast ps \<and> ps \<noteq> [] \<and> snd (last ps) - fst (last ps) < k"
    then have pop: "in_ranges b ranges \<longleftrightarrow> in_ranges b ps \<and> \<not> in_range b (last ps)"
      "in_ranges b ps \<Longrightarrow> b < snd (last ps)" "in_range b (last ps) \<Longrightarrow> in_ranges b ps" for b
      using butlast_pieces [OF ordered _ ne] by (auto simp: in_ranges_def)
    have "(in_ranges b ?new \<longleftrightarrow> \<not> (fst (last ps) \<le> b \<and> b < snd (last ps))) \<and> (snd (last ps) \<le> b \<longrightarrow> in_ranges b ?old)"
      if "as_i64 latest \<le> b" "b < as_i64 finalized" for b
      unfolding new in_ranges_simps pop using missing [OF that] pop(2,3) [of b] by (auto simp: in_range_def)
    then show ?thesis using apart short by (intro conjI exI [of _ "fst (last ps)"] exI [of _ "snd (last ps)"]) auto
  qed
qed

section \<open>Witnesses\<close>

definition sample_vconfig :: vconfig where
  "sample_vconfig = \<lparr> vc_requester = sample_requester_config, vc_l1_chain_id = 1, vc_l2_chain_id = 2, vc_evm_gas_limit = 0,
     vc_range_proof_interval = 4, vc_submission_interval = 5, vc_max_concurrent_witness_gen = 1, vc_max_concurrent_proof_requests = 2,
     vc_proving_timeout = 100, vc_auction_timeout = 10, vc_loop_interval = 60, vc_agglayer = False, vc_mainnet = True, vc_private_stdin = False,
     vc_dgf_address = 0, vc_l2oo_address = 33, vc_config_name_hash = 34, vc_signer_address = 35 \<rparr>"

definition sample_venv :: venv where
  "sample_venv = \<lparr> ve_requester = sample_requester_env\<lparr>deserialize_proof :=
       (\<lambda>_. Inr (Compressed, (sample_boot 101 10 11 10)\<lparr>bis_rollupConfigHash := 9\<rparr>))\<rparr>,
     ve_time = 50, ve_utc_now = 50, ve_hash_slow = hash_slow sample_agg_env, ve_latest_block_number = Inr 0, ve_max_provable_l2_block = Inr 10,
     ve_safe_l1_header = Inr (sample_chain 2), ve_submission_interval = Inr 3, ve_historic_block_hash = (\<lambda>_. Inr 0),
     ve_contract_config = (\<lambda>_. Inr sample_commitment), ve_l2_output_root = (\<lambda>n. Inr (ucast n + 500)), ve_init_bond = Inr 1,
     ve_send = (\<lambda>_. Inr \<lparr> tr_status = True, tr_hash = 99 \<rparr>),
     ve_proof_status = (\<lambda>_. None), ve_proof_request = (\<lambda>_. None), ve_cancel_request = (\<lambda>_. None), ve_cluster_poll = (\<lambda>_. Inr None),
     ve_l2_safe_head_at = (\<lambda>_. Inr 10), ve_l2_latest_header = Inr 12, ve_l2_finalized_header = Inr 10 \<rparr>"

text \<open>One turn of the loop on an empty table queues two ranges of four blocks and leaves the last two blocks for later.\<close>

theorem validity_refines_requests_witness:
  "(db_step 1)\<^sup>*\<^sup>* sample_db (v_db (snd (run_loop_iteration sample_vconfig (\<lambda>_. sample_venv) (sample_vstate sample_db)))) \<and>
   map blocks_of (db_rows (v_db (snd (run_loop_iteration sample_vconfig (\<lambda>_. sample_venv) (sample_vstate sample_db))))) = [(0, 4), (4, 8)]"
proof
  let ?s' = "snd (run_loop_iteration sample_vconfig (\<lambda>_. sample_venv) (sample_vstate sample_db))"
  have "(vstep sample_vconfig)\<^sup>*\<^sup>* (sample_vstate sample_db) ?s'" by (intro r_into_rtranclp vstep.turn)
  moreover have "db_init (v_db (sample_vstate sample_db))" using sample_init by (simp add: sample_vstate_def)
  ultimately have "(db_step (vc_max_concurrent_witness_gen sample_vconfig))\<^sup>*\<^sup>* (v_db (sample_vstate sample_db)) (v_db ?s')"
    using validity_refines_requests by blast
  then show "(db_step 1)\<^sup>*\<^sup>* sample_db (v_db ?s')" by (simp add: sample_vstate_def sample_vconfig_def)
  show "map blocks_of (db_rows (v_db ?s')) = [(0, 4), (4, 8)]" by code_simp
qed

theorem add_new_ranges_tiles_witness:
  "\<exists>t e :: int. e - t < 4 \<and> (t \<le> 8 \<and> 9 < e) \<and>
     active_ranges sample_vconfig 0 (v_db (snd (add_new_ranges sample_vconfig sample_venv (sample_vstate sample_db)))) = [(0, 4), (4, 8)]"
proof -
  let ?run = "add_new_ranges sample_vconfig sample_venv (sample_vstate sample_db)"
  have run: "?run = (Inr (), snd ?run)" by (rule prod_eqI, code_simp) simp
  have new: "active_ranges sample_vconfig 0 (v_db (snd ?run)) = [(0, 4), (4, 8)]" by code_simp
  have zero: "as_i64 0 = 0" by code_simp
  have 1: "get_latest_proposed_block_number sample_venv = Inr 0" by code_simp
  have 2: "ve_max_provable_l2_block sample_venv = Inr 10" by code_simp
  have 3: "vc_evm_gas_limit sample_vconfig = 0" by code_simp
  have 4: "as_i64 (vc_range_proof_interval sample_vconfig) = 4" by code_simp
  have 5: "as_i64 10 = 10" by code_simp
  have 6: "active_ranges sample_vconfig 0 (v_db (sample_vstate sample_db)) = []" by code_simp
  have "\<exists>t e. e - t < 4 \<and> (\<forall>b. as_i64 0 \<le> b \<and> b < as_i64 10 \<longrightarrow>
       (in_ranges b (active_ranges sample_vconfig (as_i64 0) (v_db (snd ?run))) \<longleftrightarrow> \<not> (t \<le> b \<and> b < e)) \<and>
       (e \<le> b \<longrightarrow> in_ranges b (active_ranges sample_vconfig (as_i64 0) (v_db (sample_vstate sample_db)))))"
    by (rule conjunct2 [OF add_new_ranges_tiles [OF run 1 2 3 4]]) (simp_all add: zero 5 6)
  then obtain t e where te: "e - t < 4" "\<forall>b. 0 \<le> b \<and> b < 10 \<longrightarrow> (in_ranges b [(0, 4), (4, 8)] \<longleftrightarrow> \<not> (t \<le> b \<and> b < e)) \<and>
      (e \<le> b \<longrightarrow> in_ranges b [])" unfolding zero 5 6 new by blast
  from te(2) [rule_format, of 8] te(2) [rule_format, of 9] have "t \<le> 8 \<and> 9 < e" by (simp add: in_range_def)
  with te(1) new show ?thesis by blast
qed

theorem create_aggregation_sound_witness:
  "\<exists>latest e n h i. get_latest_proposed_block_number sample_venv = Inr latest \<and>
    db_rows (v_db (snd (create_aggregation_proofs sample_vconfig sample_venv (sample_vstate sample_complete)))) =
      db_rows sample_complete @ [inserted_row i (agg_row sample_vconfig sample_venv (as_i64 latest) e n h)]"
proof -
  let ?run = "create_aggregation_proofs sample_vconfig sample_venv (sample_vstate sample_complete)"
  have run: "?run = (Inr (), snd ?run)" by (rule prod_eqI, code_simp) simp
  have rows: "v_db (sample_vstate sample_complete) = sample_complete" by (simp add: sample_vstate_def)
  have 1: "db_rows (v_db (snd ?run)) \<noteq> db_rows (v_db (sample_vstate sample_complete))"
  proof -
    have "length (db_rows (v_db (snd ?run))) = 2" "length (db_rows (v_db (sample_vstate sample_complete))) = 1" by code_simp+
    then show ?thesis by (metis num.distinct(1) numeral_One numeral_eq_iff)
  qed
  have 2: "\<forall>r \<in> set (db_rows (v_db (sample_vstate sample_complete))). rq_start_block r < rq_end_block r" by code_simp
  have "\<forall>r \<in> set (db_rows (v_db (sample_vstate sample_complete))). rq_l1_head_block_number r = None" by code_simp
  then have 3: "\<forall>r \<in> set (db_rows (v_db (sample_vstate sample_complete))). \<forall>k. rq_l1_head_block_number r = Some k \<longrightarrow> 0 \<le> k \<and> k < 2 ^ 63"
    by simp
  have 4: "\<forall>k x. l1_header_by_number (re_l1 (ve_requester sample_venv)) k = Inr x \<longrightarrow> ch_number x = k"
    by (auto simp: sample_venv_def sample_requester_env_def sample_l1_headers_def sample_chain_def split: if_splits)
  from create_aggregation_sound [OF run 1 2 3 4] show ?thesis unfolding rows by blast
qed

text \<open>The same aggregation, proved and complete.\<close>

definition sample_aggregated :: db where
  "sample_aggregated = (let d = v_db (snd (create_aggregation_proofs sample_vconfig sample_venv (sample_vstate sample_complete))) in
     d\<lparr>db_rows := map (\<lambda>r. if rq_type r = Aggregation then r\<lparr>rq_status := Complete, rq_proof := Some [3]\<rparr> else r) (db_rows d)\<rparr>)"

theorem submit_agg_proofs_relays_witness:
  "\<exists>agg \<in> set (db_rows sample_aggregated). \<exists>tx. proposal_of sample_vconfig sample_venv agg tx \<and>
     v_txs (snd (submit_agg_proofs sample_vconfig sample_venv (sample_vstate sample_aggregated))) = [tx] \<and>
     rq_status agg = Complete \<and> rq_start_block agg = 0"
proof -
  let ?run = "submit_agg_proofs sample_vconfig sample_venv (sample_vstate sample_aggregated)"
  have run: "?run = (Inr (), snd ?run)" by (rule prod_eqI, code_simp) simp
  have rows: "v_db (sample_vstate sample_aggregated) = sample_aggregated" "v_txs (sample_vstate sample_aggregated) = []"
    by (simp_all add: sample_vstate_def)
  have 1: "get_latest_proposed_block_number sample_venv = Inr 0" by code_simp
  have zero: "as_i64 0 = 0" by code_simp
  have len: "length (v_txs (snd ?run)) = 1" by code_simp
  from submit_agg_proofs_relays [OF run] len show ?thesis unfolding rows 1 by (auto simp: zero)
qed

text \<open>The completed range, once its L1 head is recorded.\<close>

theorem reconcile_leaves_canonical_witness:
  "\<exists>r \<in> set (db_rows (v_db (snd (reconcile_completed_range_canonicality sample_vconfig sample_venv (sample_vstate sample_complete))))).
     \<exists>n header. rq_l1_head_block_number r = Some n \<and> rq_l1_head_block_hash r = Some (ve_hash_slow sample_venv header)"
proof -
  let ?run = "reconcile_completed_range_canonicality sample_vconfig sample_venv (sample_vstate sample_complete)"
  have run: "?run = (Inr True, snd ?run)" by (rule prod_eqI, code_simp) simp
  have 1: "get_latest_proposed_block_number sample_venv = Inr 0" by code_simp
  have ex: "\<exists>r \<in> set (db_rows (v_db (snd ?run))). completed_range (vc_commitments sample_vconfig) (as_i64 0)
      (vc_l1_chain_id sample_vconfig) (vc_l2_chain_id sample_vconfig) r" by code_simp
  then obtain r where r: "r \<in> set (db_rows (v_db (snd ?run)))" "completed_range (vc_commitments sample_vconfig) (as_i64 0)
      (vc_l1_chain_id sample_vconfig) (vc_l2_chain_id sample_vconfig) r" by (rule bexE)
  from reconcile_leaves_canonical [OF run 1 r] r(1) show ?thesis by blast
qed

theorem validate_aggregation_exact_witness:
  "validate_aggregation_request (db_rows sample_complete) (hd (db_rows sample_complete))"
proof -
  have 1: "\<forall>p \<in> set (db_rows sample_complete). rq_start_block p < rq_end_block p" by code_simp
  have 2: "db_rows sample_complete \<noteq> [] \<and> chained (rq_start_block (hd (db_rows sample_complete)))
      (rq_end_block (hd (db_rows sample_complete))) (map blocks_of (db_rows sample_complete))" by code_simp
  show ?thesis unfolding validate_aggregation_exact [OF 1] by (rule 2)
qed

end
