(* ===== verification/GameMonitor.thy ===== *)
theory GameMonitor
  imports L1Chain Strings
begin

text \<open>
  The game monitor daemon, \<open>scripts/utils/bin/game_monitor.rs\<close>, and the sequence tracker it persists its progress with,
  \<open>utils/common/src/sequence_tracker.rs\<close>. The daemon runs a cost estimator for every dispute game of the factory: a first
  attempt with bounded retries, then background retries with growing waits, and it resumes after a restart from the progress file.

  Times and durations are nanoseconds. What the outside answers during one turn of the loop (child processes, file sizes, the L1 and L2
  nodes, the clock, whether a write to disk succeeds) is the record \<open>monitor_env\<close>. The f64 operations used to find anomalies are
  a parameter (\<open>float_ops\<close>), since they only decide which processes are killed.
\<close>

section \<open>The sequence tracker\<close>

record tracker =
  tr_end :: u64
  tr_pending :: "u64 list"

definition tracker_new :: "u64 \<Rightarrow> tracker" where
  "tracker_new e = \<lparr> tr_end = e, tr_pending = [] \<rparr>"

text \<open>Every turn of the loop removes an element of the set, so it ends, also when the index wraps.\<close>

function tracker_advance :: "u64 \<Rightarrow> tracker \<Rightarrow> tracker" where
  "tracker_advance check_from t =
     (if check_from \<in> set (tr_pending t)
      then tracker_advance (check_from + 1) \<lparr> tr_end = check_from, tr_pending = filter (\<lambda>i. i \<noteq> check_from) (tr_pending t) \<rparr>
      else t)"
  by pat_completeness auto
termination
  by (relation "measure (\<lambda>(_, t). length (tr_pending t))") (auto intro!: length_filter_less)

declare tracker_advance.simps [simp del]

definition tracker_add :: "u64 \<Rightarrow> tracker \<Rightarrow> tracker" where
  "tracker_add i t =
     (if i \<le> tr_end t then t
      else tracker_advance (tr_end t + 1) (t\<lparr>tr_pending := (if i \<in> set (tr_pending t) then tr_pending t else i # tr_pending t)\<rparr>))"

section \<open>Data\<close>

definition GAME_TYPE :: u32 where
  "GAME_TYPE = 42"

definition MEDIAN_THRESHOLD :: nat where
  "MEDIAN_THRESHOLD = 3"

definition BACKGROUND_BACKOFF_MULTIPLIER :: nat where
  "BACKGROUND_BACKOFF_MULTIPLIER = 4"

definition DURATION_MAX :: duration where
  "DURATION_MAX = 18446744073709551615999999999"

text \<open>\<open>Duration::checked_mul\<close>, the multiplication that panics, and adding a duration to a point in time.\<close>

definition duration_checked_mul :: "duration \<Rightarrow> nat \<Rightarrow> duration option" where
  "duration_checked_mul d k = (if d * k \<le> DURATION_MAX then Some (d * k) else None)"

definition duration_mul :: "duration \<Rightarrow> nat \<Rightarrow> duration result" where
  "duration_mul d k =
     (case duration_checked_mul d k of None \<Rightarrow> Inl (Panic ''overflow when multiplying duration by scalar'') | Some x \<Rightarrow> Inr x)"

definition time_add :: "time \<Rightarrow> time \<Rightarrow> duration \<Rightarrow> time result" where
  "time_add latest t d = (if t + d \<le> latest then Inr (t + d) else Inl (Panic ''overflow when adding duration to instant''))"

datatype attempt_kind = Primary (retries: u32) | Background (attempts: u32)

definition is_primary :: "attempt_kind \<Rightarrow> bool" where
  "is_primary k = (case k of Primary _ \<Rightarrow> True | Background _ \<Rightarrow> False)"

record running_estimator =
  re_started_at :: time
  re_log_file :: string
  re_block_range :: u64
  re_kind :: attempt_kind
  re_game_created_at :: time

record pending_game =
  pg_executable_at :: time
  pg_game_index :: u64
  pg_kind :: attempt_kind

record game_data =
  gd_game_index :: u64
  gd_game_address :: address
  gd_start_block :: u64
  gd_end_block :: u64
  gd_l1_head :: b256
  gd_created_at :: time

definition game_block_range :: "game_data \<Rightarrow> u64" where
  "game_block_range g = saturating_sub (gd_end_block g) (gd_start_block g)"

datatype process_action = Success duration u64 | Kill string | Retry string

datatype spawn_outcome = Spawned | WrongGameType | FetchFailed | L2Behind

record completion_record =
  cr_duration :: duration
  cr_log_size :: u64
  cr_block_range :: u64

record background_retry =
  bg_game_index :: u64
  bg_game_created_at :: time
  bg_next_attempt_at :: time
  bg_last_wait :: duration
  bg_attempts :: u32

record progress_state =
  pr_last_contiguous :: u64
  pr_background_retries :: "background_retry list"

text \<open>The configuration of the daemon and its mutable state, with the two files it writes.\<close>

record monitor_config =
  mc_initial_game_delay :: duration
  mc_max_process_duration_secs :: u64
  mc_max_history_length :: nat
  mc_max_retries :: u32
  mc_background_retry_max_age :: duration
  mc_max_concurrent :: nat
  mc_max_logs_size_mb :: u64
  mc_start_index :: "u64 option"

record monitor =
  m_running :: "(u64, running_estimator) hashmap"
  m_pending :: "pending_game list"
  m_background :: "background_retry list"
  m_next_game_index :: u64
  m_history :: "completion_record list"
  m_tracker :: tracker
  m_progress_file :: "progress_state option"
  m_history_file :: "completion_record list option"
  m_deleted_logs :: "string list"

datatype wait_status = Exited bool | StillRunning | WaitError string

record 'f float_ops =
  f_of_u64 :: "u64 \<Rightarrow> 'f"
  f_secs :: "duration \<Rightarrow> 'f"
  f_div :: "'f \<Rightarrow> 'f \<Rightarrow> 'f"
  f_mul :: "'f \<Rightarrow> 'f \<Rightarrow> 'f"
  f_add :: "'f \<Rightarrow> 'f \<Rightarrow> 'f"
  f_less :: "'f \<Rightarrow> 'f \<Rightarrow> bool"
  f_two :: 'f
  f_five :: 'f
  f_ten :: 'f

text \<open>What one turn gets from outside. The clocks are read once for a turn, where the code reads them again at some of its points.\<close>

record 'f monitor_env =
  me_now :: time
  me_sys_now :: time
  me_time_max :: time
  me_float :: "'f float_ops"
  me_try_wait :: "u64 \<Rightarrow> wait_status"
  me_log_len :: "string \<Rightarrow> u64 option"
  me_rename_ok :: "string \<Rightarrow> bool"
  me_write_ok :: "progress_state \<Rightarrow> bool"
  me_write_history_ok :: "completion_record list \<Rightarrow> bool"
  me_view :: l1_view
  me_game_count :: "u256 result"
  me_l2_finalized :: "u64 option result"
  me_spawn :: "game_data \<Rightarrow> unit result"
  me_list_logs :: "(string \<times> u64) list result"
  me_remove_ok :: "string \<Rightarrow> bool"

section \<open>Failure logs\<close>

datatype failure_type = NoHealthyBackend | NoStateAvailable | ExceedsProofWindow | MissingTrieNode | DnsLookupFailure
  | BeaconClientFailure | GenericRequestFailure | UnknownFailure

definition FAILURE_PATTERNS :: "(string list \<times> failure_type) list" where
  "FAILURE_PATTERNS = [
     ([''no backend is currently healthy to serve traffic''], NoHealthyBackend),
     ([''No state available for block''], NoStateAvailable),
     ([''distance to target block exceeds maximum proof window''], ExceedsProofWindow),
     ([''missing trie node''], MissingTrieNode),
     ([''MissingTrieNodeException''], MissingTrieNode),
     ([''state'', ''is not available''], NoStateAvailable),
     ([''is pruned''], NoStateAvailable),
     ([''no state found for block''], NoStateAvailable),
     ([''Failed to fetch safe head'', ''dns error''], DnsLookupFailure),
     ([''Temporary failure in name resolution''], DnsLookupFailure),
     ([''Failed to load genesis time from beacon client'', ''HTTP request failed: error decoding response body''], BeaconClientFailure),
     ([''error sending request for url''], GenericRequestFailure)]"

definition classify_line :: "string \<Rightarrow> failure_type option" where
  "classify_line line = map_option snd (List.find (\<lambda>(patterns, _). list_all (contains line) patterns) FAILURE_PATTERNS)"

text \<open>The lines of the tail of the log; \<open>None\<close> when the log could not be read.\<close>

definition detect_failure_type :: "string list option \<Rightarrow> failure_type" where
  "detect_failure_type tail_lines =
     (case tail_lines of
        None \<Rightarrow> UnknownFailure
      | Some ls \<Rightarrow> (case List.map_filter classify_line ls of [] \<Rightarrow> UnknownFailure | ft # _ \<Rightarrow> ft))"

section \<open>Medians and waits\<close>

fun insert_by :: "('f \<Rightarrow> 'f \<Rightarrow> bool) \<Rightarrow> 'f \<Rightarrow> 'f list \<Rightarrow> 'f list" where
  "insert_by lt x [] = [x]"
| "insert_by lt x (y # ys) = (if lt y x then y # insert_by lt x ys else x # y # ys)"

text \<open>A stable sort by a comparison. (With values that cannot be compared the library leaves the order open.)\<close>

definition sort_by :: "('f \<Rightarrow> 'f \<Rightarrow> bool) \<Rightarrow> 'f list \<Rightarrow> 'f list" where
  "sort_by lt xs = foldr (insert_by lt) xs []"

definition median :: "'f float_ops \<Rightarrow> 'f list \<Rightarrow> nat \<Rightarrow> 'f option" where
  "median ops vals threshold =
     (if length vals < threshold then None else
      let ordered = sort_by (f_less ops) vals; mid = length ordered div 2 in
      if length ordered mod 2 = 0 then Some (f_div ops (f_add ops (ordered ! (mid - 1)) (ordered ! mid)) (f_two ops))
      else Some (ordered ! mid))"

definition next_background_wait :: "duration \<Rightarrow> duration \<Rightarrow> duration" where
  "next_background_wait wait max_wait =
     min (case duration_checked_mul wait BACKGROUND_BACKOFF_MULTIPLIER of None \<Rightarrow> max_wait | Some d \<Rightarrow> d) max_wait"

fun dedup_loop :: "u64 list \<Rightarrow> background_retry list \<Rightarrow> background_retry list" where
  "dedup_loop seen [] = []"
| "dedup_loop seen (bg # entries) =
     (if bg_game_index bg \<in> set seen then dedup_loop seen entries
      else bg # dedup_loop (bg_game_index bg # seen) entries)"

definition dedup_background_retries :: "background_retry list \<Rightarrow> background_retry list \<times> nat" where
  "dedup_background_retries entries = (let deduped = dedup_loop [] entries in (deduped, length entries - length deduped))"

section \<open>Log files\<close>

text \<open>The file names inside the log directory. How an address is printed is a parameter.\<close>

definition log_file_new :: "(address \<Rightarrow> string) \<Rightarrow> u64 \<Rightarrow> address \<Rightarrow> attempt_kind \<Rightarrow> string" where
  "log_file_new show_address game_index game_address kind =
     ''cost-estimator-'' @ show_nat (unat game_index) @ ''-'' @ show_address game_address @
     (case kind of
        Primary n \<Rightarrow> if n = 0 then '''' else ''-retry'' @ show_nat (unat n)
      | Background n \<Rightarrow> ''-bg-retry'' @ show_nat (unat n)) @ ''.log''"

definition extract_game_index :: "string \<Rightarrow> u64 option" where
  "extract_game_index filename =
     (case strip_prefix ''cost-estimator-'' filename of
        None \<Rightarrow> None
      | Some stripped \<Rightarrow>
          if CHR ''-'' \<in> set stripped then parse_u64 (takeWhile (\<lambda>c. c \<noteq> CHR ''-'') stripped) else None)"

definition mark_complete :: "'f monitor_env \<Rightarrow> bool \<Rightarrow> string \<Rightarrow> string" where
  "mark_complete env success path =
     (case strip_suffix ''.log'' path of
        None \<Rightarrow> path
      | Some stem \<Rightarrow> if me_rename_ok env path then stem @ ''-'' @ (if success then ''success'' else ''failure'') @ ''.log'' else path)"

definition log_sizes :: "'f monitor_env \<Rightarrow> (string \<times> u64 \<times> u64) list result" where
  "log_sizes env =
     try_bind (me_list_logs env) (\<lambda>files.
     Inr (List.map_filter (\<lambda>(path, sz). map_option (\<lambda>i. (path, sz, i)) (extract_game_index path)) files))"

fun remove_logs :: "'f monitor_env \<Rightarrow> u64 \<Rightarrow> (u64, running_estimator) hashmap \<Rightarrow> u64 \<Rightarrow> (string \<times> u64 \<times> u64) list \<Rightarrow> string list" where
  "remove_logs env max_size running tot [] = []"
| "remove_logs env max_size running tot ((path, sz, i) # files) =
     (if tot \<le> max_size then []
      else if hm_get running i \<noteq> None then remove_logs env max_size running tot files
      else if me_remove_ok env path then path # remove_logs env max_size running (tot - sz) files
      else remove_logs env max_size running tot files)"

definition enforce_log_space_limit :: "'f monitor_env \<Rightarrow> u64 \<Rightarrow> (u64, running_estimator) hashmap \<Rightarrow> string list" where
  "enforce_log_space_limit env max_size running =
     (case log_sizes env of
        Inl _ \<Rightarrow> []
      | Inr files \<Rightarrow>
          let tot = sum_list (map (\<lambda>(_, sz, _). sz) files) in
          if tot \<le> max_size then [] else remove_logs env max_size running tot (sort_key (\<lambda>(_, _, i). i) files))"

section \<open>Progress and history\<close>

definition save_progress :: "'f monitor_env \<Rightarrow> monitor \<Rightarrow> monitor" where
  "save_progress env m =
     (let p = \<lparr> pr_last_contiguous = tr_end (m_tracker m), pr_background_retries = m_background m \<rparr> in
      if me_write_ok env p then m\<lparr>m_progress_file := Some p\<rparr> else m)"

definition mark_game_completed :: "'f monitor_env \<Rightarrow> u64 \<Rightarrow> monitor \<Rightarrow> monitor" where
  "mark_game_completed env game_index m =
     (let m' = m\<lparr>m_tracker := tracker_add game_index (m_tracker m)\<rparr> in
      if tr_end (m_tracker m') \<noteq> tr_end (m_tracker m) then save_progress env m' else m')"

text \<open>\<open>None\<close> stands for a file that cannot be read or parsed.\<close>

definition load_history :: "nat \<Rightarrow> completion_record list option \<Rightarrow> completion_record list" where
  "load_history max_length file =
     (case file of None \<Rightarrow> [] | Some records \<Rightarrow> drop (length records - max_length) records)"

definition save_history :: "'f monitor_env \<Rightarrow> monitor \<Rightarrow> monitor" where
  "save_history env m = (if me_write_history_ok env (m_history m) then m\<lparr>m_history_file := Some (m_history m)\<rparr> else m)"

definition push_completion :: "monitor_config \<Rightarrow> 'f monitor_env \<Rightarrow> completion_record \<Rightarrow> monitor \<Rightarrow> monitor" where
  "push_completion cfg env r m =
     (if mc_max_history_length cfg = 0 then m else
      let h = (if length (m_history m) \<ge> mc_max_history_length cfg then tl (m_history m) else m_history m) in
      save_history env (m\<lparr>m_history := h @ [r]\<rparr>))"

section \<open>Retries\<close>

fun update_first :: "('a \<Rightarrow> bool) \<Rightarrow> ('a \<Rightarrow> 'a) \<Rightarrow> 'a list \<Rightarrow> 'a list" where
  "update_first p f [] = []"
| "update_first p f (x # xs) = (if p x then f x # xs else x # update_first p f xs)"

definition maybe_requeue :: "monitor_config \<Rightarrow> 'f monitor_env \<Rightarrow> u64 \<Rightarrow> attempt_kind \<Rightarrow> time \<Rightarrow> (monitor, unit) handler" where
  "maybe_requeue cfg env game_index kind created_at =
     (case kind of
        Primary n \<Rightarrow>
          if n < mc_max_retries cfg then
            seq (lift (try_bind (duration_mul (mc_initial_game_delay cfg) 2) (\<lambda>d. duration_mul d (unat (n + 1))))) (\<lambda>delay.
            seq (lift (time_add (me_time_max env) (me_now env) delay)) (\<lambda>executable_at.
            write_st (\<lambda>m. m\<lparr>m_pending := \<lparr> pg_executable_at = executable_at, pg_game_index = game_index, pg_kind = Primary (n + 1) \<rparr> # m_pending m\<rparr>)))
          else
            seq (read_st (\<lambda>m. list_ex (\<lambda>bg. bg_game_index bg = game_index) (m_background m))) (\<lambda>queued.
            if queued then write_st (mark_game_completed env game_index) else
            let primary_final_wait =
                  (case duration_checked_mul (mc_initial_game_delay cfg) (min (2 ^ 32 - 1) (2 * unat (max (mc_max_retries cfg) 1))) of
                     None \<Rightarrow> mc_background_retry_max_age cfg | Some d \<Rightarrow> d);
                last_wait = next_background_wait primary_final_wait (mc_background_retry_max_age cfg) in
            seq (lift (time_add (me_time_max env) (me_sys_now env) last_wait)) (\<lambda>next_attempt_at.
            write_st (\<lambda>m. save_progress env (mark_game_completed env game_index
              (m\<lparr>m_background := m_background m @ [\<lparr> bg_game_index = game_index, bg_game_created_at = created_at,
                 bg_next_attempt_at = next_attempt_at, bg_last_wait = last_wait, bg_attempts = 0 \<rparr>]\<rparr>)))))
      | Background n \<Rightarrow>
          seq (read_st (\<lambda>m. List.find (\<lambda>bg. bg_game_index bg = game_index) (m_background m))) (\<lambda>found.
          case found of
            None \<Rightarrow> ret ()
          | Some entry \<Rightarrow>
              let wait = next_background_wait (bg_last_wait entry) (mc_background_retry_max_age cfg) in
              seq (lift (time_add (me_time_max env) (me_sys_now env) wait)) (\<lambda>next_attempt_at.
              write_st (\<lambda>m. save_progress env (m\<lparr>m_background := update_first (\<lambda>bg. bg_game_index bg = game_index)
                (\<lambda>bg. bg\<lparr>bg_last_wait := wait, bg_next_attempt_at := next_attempt_at, bg_attempts := n\<rparr>) (m_background m)\<rparr>)))))"

definition evicted :: "monitor_config \<Rightarrow> 'f monitor_env \<Rightarrow> monitor \<Rightarrow> background_retry \<Rightarrow> bool" where
  "evicted cfg env m bg \<longleftrightarrow> hm_get (m_running m) (bg_game_index bg) = None \<and>
     me_sys_now env - bg_game_created_at bg > mc_background_retry_max_age cfg"

definition evict_aged_background_retries :: "monitor_config \<Rightarrow> 'f monitor_env \<Rightarrow> monitor \<Rightarrow> monitor" where
  "evict_aged_background_retries cfg env m =
     (let m' = m\<lparr>m_background := filter (\<lambda>bg. \<not> evicted cfg env m bg) (m_background m)\<rparr> in
      if length (m_background m') < length (m_background m) then save_progress env m' else m')"

section \<open>Finished and runaway processes\<close>

definition median_of :: "'f float_ops \<Rightarrow> (completion_record \<Rightarrow> 'f) \<Rightarrow> completion_record list \<Rightarrow> 'f option" where
  "median_of ops num history =
     median ops (map (\<lambda>r. f_div ops (num r) (f_of_u64 ops (cr_block_range r))) history) MEDIAN_THRESHOLD"

definition kill_reason ::
  "monitor_config \<Rightarrow> 'f monitor_env \<Rightarrow> 'f option \<Rightarrow> 'f option \<Rightarrow> duration \<Rightarrow> running_estimator \<Rightarrow> string option" where
  "kill_reason cfg env median_tpb median_lpb elapsed est =
     (let ops = me_float env; blocks = f_of_u64 ops (re_block_range est);
          log_bytes = (case me_log_len env (re_log_file est) of None \<Rightarrow> 0 | Some n \<Rightarrow> n) in
      if as_secs elapsed > unat (mc_max_process_duration_secs cfg) then Some ''exceeded maximum duration''
      else if re_block_range est > 0 then
        (if (case median_tpb of None \<Rightarrow> False | Some t \<Rightarrow> f_less ops (f_mul ops (f_five ops) t) (f_div ops (f_secs ops elapsed) blocks))
         then Some ''time per block exceeds median''
         else if (case median_lpb of None \<Rightarrow> False | Some l \<Rightarrow> f_less ops (f_mul ops (f_ten ops) l) (f_div ops (f_of_u64 ops log_bytes) blocks))
         then Some ''log size exceeds median''
         else None)
      else None)"

definition scan_process ::
  "monitor_config \<Rightarrow> 'f monitor_env \<Rightarrow> 'f option \<Rightarrow> 'f option \<Rightarrow> u64 \<times> running_estimator \<Rightarrow> (u64 \<times> running_estimator) \<times> process_action option" where
  "scan_process cfg env median_tpb median_lpb entry =
     (let (i, est) = entry; elapsed = me_now env - re_started_at est in
      case me_try_wait env i of
        Exited success \<Rightarrow>
          ((i, est\<lparr>re_log_file := mark_complete env success (re_log_file est)\<rparr>),
           Some (if success then Success elapsed (re_block_range est) else Retry ''exit status''))
      | StillRunning \<Rightarrow>
          (case kill_reason cfg env median_tpb median_lpb elapsed est of
             Some reason \<Rightarrow> ((i, est\<lparr>re_log_file := mark_complete env False (re_log_file est)\<rparr>), Some (Kill reason))
           | None \<Rightarrow> (entry, None))
      | WaitError _ \<Rightarrow> (entry, None))"

definition apply_process_action :: "monitor_config \<Rightarrow> 'f monitor_env \<Rightarrow> u64 \<times> process_action \<Rightarrow> (monitor, unit) handler" where
  "apply_process_action cfg env ia =
     (let (i, action) = ia in
      seq (read_st (\<lambda>m. hm_get (m_running m) i)) (\<lambda>found.
      case found of
        None \<Rightarrow> ret ()
      | Some est \<Rightarrow>
          seq (write_st (\<lambda>m. m\<lparr>m_running := hm_remove i (m_running m)\<rparr>)) (\<lambda>_.
          case action of
            Success duration blocks \<Rightarrow>
              (case re_kind est of
                 Primary _ \<Rightarrow>
                   write_st (\<lambda>m. mark_game_completed env i
                     (if blocks > 0 then push_completion cfg env \<lparr> cr_duration = duration,
                        cr_log_size = (case me_log_len env (re_log_file est) of None \<Rightarrow> 0 | Some n \<Rightarrow> n), cr_block_range = blocks \<rparr> m
                      else m))
               | Background _ \<Rightarrow>
                   write_st (\<lambda>m. save_progress env (m\<lparr>m_background := filter (\<lambda>bg. bg_game_index bg \<noteq> i) (m_background m)\<rparr>)))
          | Kill _ \<Rightarrow> maybe_requeue cfg env i (re_kind est) (re_game_created_at est)
          | Retry _ \<Rightarrow> maybe_requeue cfg env i (re_kind est) (re_game_created_at est))))"

definition cleanup_finished_processes :: "monitor_config \<Rightarrow> 'f monitor_env \<Rightarrow> (monitor, unit) handler" where
  "cleanup_finished_processes cfg env =
     seq (read_st (\<lambda>m.
       let ops = me_float env;
           median_lpb = median_of ops (\<lambda>r. f_of_u64 ops (cr_log_size r)) (m_history m);
           median_tpb = median_of ops (\<lambda>r. f_secs ops (cr_duration r)) (m_history m) in
       map (scan_process cfg env median_tpb median_lpb) (m_running m))) (\<lambda>scanned.
     seq (write_st (\<lambda>m. m\<lparr>m_running := map fst scanned\<rparr>)) (\<lambda>_.
     for_each (apply_process_action cfg env) (List.map_filter (\<lambda>((i, _), action). map_option (Pair i) action) scanned)))"

section \<open>Starting processes\<close>

datatype fetch_game_error = WrongType | OtherError err

definition fetch_game_data :: "'f monitor_env \<Rightarrow> u64 \<Rightarrow> fetch_game_error + game_data" where
  "fetch_game_data env game_index =
     (let v = me_view env in
      try_bind (map_err OtherError (gameAtIndex v (u256_of_u64 game_index))) (\<lambda>info.
      if fg_gameType info \<noteq> GAME_TYPE then Inl WrongType else
      try_bind (map_err OtherError (time_add (me_time_max env) 0 (secs (fg_timestamp info)))) (\<lambda>created_at.
      try_bind (map_err OtherError (try_bind (l2BlockNumber v (fg_proxy info)) to_u64)) (\<lambda>l2_block_number.
      try_bind (map_err OtherError (try_bind (startingBlockNumber v (fg_proxy info)) to_u64)) (\<lambda>start_block.
      try_bind (map_err OtherError (l1Head v (fg_proxy info))) (\<lambda>l1_head.
      Inr \<lparr> gd_game_index = game_index, gd_game_address = fg_proxy info, gd_start_block = start_block, gd_end_block = l2_block_number,
            gd_l1_head = l1_head, gd_created_at = created_at \<rparr>))))))"

definition handle_wrong_game_type :: "'f monitor_env \<Rightarrow> u64 \<Rightarrow> attempt_kind \<Rightarrow> monitor \<Rightarrow> monitor" where
  "handle_wrong_game_type env game_index kind m =
     (case kind of
        Primary _ \<Rightarrow> mark_game_completed env game_index (m\<lparr>m_pending := filter (\<lambda>p. pg_game_index p \<noteq> game_index) (m_pending m)\<rparr>)
      | Background _ \<Rightarrow> save_progress env (m\<lparr>m_background := filter (\<lambda>bg. bg_game_index bg \<noteq> game_index) (m_background m)\<rparr>))"

definition spawn_game ::
  "(address \<Rightarrow> string) \<Rightarrow> 'f monitor_env \<Rightarrow> u64 \<Rightarrow> attempt_kind \<Rightarrow> (monitor, spawn_outcome) handler" where
  "spawn_game show_address env game_index kind =
     (case fetch_game_data env game_index of
        Inl WrongType \<Rightarrow> seq (write_st (handle_wrong_game_type env game_index kind)) (\<lambda>_. ret WrongGameType)
      | Inl (OtherError (Panic p)) \<Rightarrow> fail (Panic p)
      | Inl (OtherError (Err _)) \<Rightarrow> ret FetchFailed
      | Inr game \<Rightarrow>
          (case me_l2_finalized env of
             Inl _ \<Rightarrow> ret FetchFailed
           | Inr None \<Rightarrow> ret FetchFailed
           | Inr (Some l2_finalized_block) \<Rightarrow>
               if l2_finalized_block < gd_end_block game then ret L2Behind else
               seq (lift (me_spawn env game)) (\<lambda>_.
               seq (write_st (\<lambda>m. m\<lparr>m_running := hm_insert (gd_game_index game) \<lparr> re_started_at = me_now env,
                      re_log_file = log_file_new show_address (gd_game_index game) (gd_game_address game) kind,
                      re_block_range = game_block_range game, re_kind = kind, re_game_created_at = gd_created_at game \<rparr> (m_running m)\<rparr>)) (\<lambda>_.
               seq (if is_primary kind then write_st (\<lambda>m. m\<lparr>m_pending := filter (\<lambda>p. pg_game_index p \<noteq> gd_game_index game) (m_pending m)\<rparr>)
                    else ret ()) (\<lambda>_. ret Spawned)))))"

definition can_spawn_new :: "nat \<Rightarrow> monitor \<Rightarrow> bool" where
  "can_spawn_new max_concurrent m \<longleftrightarrow> length (m_running m) < max_concurrent"

text \<open>The loop over a snapshot of candidates; \<open>False\<close> abandons the turn (\<open>continue 'outer\<close>).\<close>

fun spawn_all ::
  "(address \<Rightarrow> string) \<Rightarrow> monitor_config \<Rightarrow> 'f monitor_env \<Rightarrow> (u64 \<times> attempt_kind) list \<Rightarrow> (monitor, bool) handler" where
  "spawn_all sh cfg env [] = ret True"
| "spawn_all sh cfg env ((game_index, kind) # rest) =
     seq (read_st (can_spawn_new (mc_max_concurrent cfg))) (\<lambda>free.
     if \<not> free then ret True else
     seq (spawn_game sh env game_index kind) (\<lambda>outcome.
     if outcome = FetchFailed then ret False else spawn_all sh cfg env rest))"

definition primary_candidates :: "'f monitor_env \<Rightarrow> monitor \<Rightarrow> (u64 \<times> attempt_kind) list" where
  "primary_candidates env m = map (\<lambda>p. (pg_game_index p, pg_kind p)) (filter (\<lambda>p. pg_executable_at p \<le> me_now env) (m_pending m))"

definition background_candidates :: "'f monitor_env \<Rightarrow> monitor \<Rightarrow> (u64 \<times> attempt_kind) list" where
  "background_candidates env m =
     map (\<lambda>bg. (bg_game_index bg, Background (bg_attempts bg + 1)))
       (filter (\<lambda>bg. bg_next_attempt_at bg \<le> me_sys_now env \<and> hm_get (m_running m) (bg_game_index bg) = None) (m_background m))"

function discover_games :: "monitor_config \<Rightarrow> 'f monitor_env \<Rightarrow> u64 \<Rightarrow> monitor \<Rightarrow> unit result \<times> monitor" where
  "discover_games cfg env count m =
     (if m_next_game_index m < count then
        let i = m_next_game_index m; m' = m\<lparr>m_next_game_index := i + 1\<rparr> in
        case time_add (me_time_max env) (me_now env) (mc_initial_game_delay cfg) of
          Inl e \<Rightarrow> (Inl e, m')
        | Inr executable_at \<Rightarrow>
            discover_games cfg env count
              (m'\<lparr>m_pending := \<lparr> pg_executable_at = executable_at, pg_game_index = i, pg_kind = Primary 0 \<rparr> # m_pending m'\<rparr>)
      else (Inr (), m))"
  by pat_completeness auto
termination
proof (relation "measure (\<lambda>(_, _, count, m). unat count - unat (m_next_game_index m))", goal_cases)
  case (2 cfg env count m x xa y)
  have "m_next_game_index m \<noteq> - 1" using 2(1) unat_u64_bound [of count]
    by (auto simp: word_less_nat_alt unsigned_minus_1_eq_mask mask_eq_exp_minus_1)
  then have "unat (m_next_game_index m + 1) = Suc (unat (m_next_game_index m))" by (rule unat_add_one)
  with 2 show ?case by (auto simp: word_less_nat_alt)
qed simp

declare discover_games.simps [simp del]

section \<open>The loop\<close>

text \<open>Phases 3 to 6 of a turn; a phase that gives up ends the turn.\<close>

definition logs_phase :: "monitor_config \<Rightarrow> 'f monitor_env \<Rightarrow> monitor \<Rightarrow> monitor" where
  "logs_phase cfg env m =
     (if mc_max_logs_size_mb cfg > 0
      then m\<lparr>m_deleted_logs := m_deleted_logs m @ enforce_log_space_limit env (mc_max_logs_size_mb cfg * 1024 * 1024) (m_running m)\<rparr>
      else m)"

definition discover_phase :: "monitor_config \<Rightarrow> 'f monitor_env \<Rightarrow> (monitor, unit) handler" where
  "discover_phase cfg env =
     (case me_game_count env of
        Inl _ \<Rightarrow> ret ()
      | Inr count \<Rightarrow> seq (lift (to_u64 count)) (\<lambda>n. discover_games cfg env n))"

definition background_phase :: "(address \<Rightarrow> string) \<Rightarrow> monitor_config \<Rightarrow> 'f monitor_env \<Rightarrow> (monitor, unit) handler" where
  "background_phase sh cfg env =
     seq (read_st (background_candidates env)) (\<lambda>candidates.
     seq (spawn_all sh cfg env candidates) (\<lambda>go_on. if go_on then discover_phase cfg env else ret ()))"

definition primary_phase :: "(address \<Rightarrow> string) \<Rightarrow> monitor_config \<Rightarrow> 'f monitor_env \<Rightarrow> (monitor, unit) handler" where
  "primary_phase sh cfg env =
     seq (read_st (primary_candidates env)) (\<lambda>candidates.
     seq (spawn_all sh cfg env candidates) (\<lambda>go_on. if go_on then background_phase sh cfg env else ret ()))"

definition monitor_turn :: "(address \<Rightarrow> string) \<Rightarrow> monitor_config \<Rightarrow> 'f monitor_env \<Rightarrow> (monitor, unit) handler" where
  "monitor_turn sh cfg env =
     seq (cleanup_finished_processes cfg env) (\<lambda>_.
     seq (write_st (evict_aged_background_retries cfg env)) (\<lambda>_.
     seq (write_st (logs_phase cfg env)) (\<lambda>_. primary_phase sh cfg env)))"

definition monitor_new :: "monitor_config \<Rightarrow> u64 \<Rightarrow> background_retry list \<Rightarrow> progress_state option \<Rightarrow> completion_record list option \<Rightarrow> monitor" where
  "monitor_new cfg next_game_index background progress history =
     \<lparr> m_running = [], m_pending = [], m_background = background, m_next_game_index = next_game_index,
       m_history = load_history (mc_max_history_length cfg) history, m_tracker = tracker_new next_game_index,
       m_progress_file = progress, m_history_file = history, m_deleted_logs = [] \<rparr>"

text \<open>The first game index: the flag, else the persisted progress, else the latest game of the factory.\<close>

definition start_index :: "monitor_config \<Rightarrow> progress_state option \<Rightarrow> u256 result \<Rightarrow> u64 result" where
  "start_index cfg progress count =
     (case mc_start_index cfg of
        Some i \<Rightarrow> Inr i
      | None \<Rightarrow>
          (case progress of
             Some p \<Rightarrow> Inr (pr_last_contiguous p + 1)
           | None \<Rightarrow> try_bind (try_bind count to_u64) (\<lambda>n. Inr (if n = 0 then 0 else n - 1))))"

definition monitor_start ::
  "monitor_config \<Rightarrow> 'f monitor_env \<Rightarrow> progress_state option \<Rightarrow> completion_record list option \<Rightarrow> monitor result" where
  "monitor_start cfg env progress history =
     try_bind (start_index cfg progress (me_game_count env)) (\<lambda>next_game_index.
     let loaded = (case progress of None \<Rightarrow> [] | Some p \<Rightarrow> pr_background_retries p) in
     Inr (evict_aged_background_retries cfg env
       (monitor_new cfg next_game_index (fst (dedup_background_retries loaded)) progress history)))"

definition monitor_shutdown :: "monitor \<Rightarrow> monitor" where
  "monitor_shutdown m = m\<lparr>m_running := [], m_deleted_logs := m_deleted_logs m @ map (re_log_file \<circ> snd) (m_running m)\<rparr>"

section \<open>Adding background retries by hand\<close>

definition make_background_retry :: "'f monitor_env \<Rightarrow> u64 \<Rightarrow> duration \<Rightarrow> background_retry result" where
  "make_background_retry env game_index last_wait =
     (case fetch_game_data env game_index of
        Inl WrongType \<Rightarrow> Inl (Err ''failed to fetch game data'')
      | Inl (OtherError e) \<Rightarrow> Inl e
      | Inr game \<Rightarrow> Inr \<lparr> bg_game_index = game_index, bg_game_created_at = gd_created_at game, bg_next_attempt_at = 0,
          bg_last_wait = last_wait, bg_attempts = 0 \<rparr>)"

fun add_background_retries :: "'f monitor_env \<Rightarrow> duration \<Rightarrow> u64 list \<Rightarrow> u64 list \<Rightarrow> background_retry list \<Rightarrow> background_retry list result" where
  "add_background_retries env last_wait existing [] entries = Inr entries"
| "add_background_retries env last_wait existing (i # is) entries =
     (if i \<in> set existing then add_background_retries env last_wait existing is entries
      else try_bind (make_background_retry env i last_wait) (\<lambda>entry.
        add_background_retries env last_wait (i # existing) is (entries @ [entry])))"

definition gen_background_retry :: "'f monitor_env \<Rightarrow> u64 \<Rightarrow> u64 list \<Rightarrow> progress_state option \<Rightarrow> progress_state result" where
  "gen_background_retry env last_wait_secs game_indexes file =
     try_bind (ok_or ''failed to read the progress file'' file) (\<lambda>p.
     try_bind (add_background_retries env (secs last_wait_secs) (map bg_game_index (pr_background_retries p)) game_indexes
       (pr_background_retries p)) (\<lambda>entries.
     Inr (p\<lparr>pr_background_retries := entries\<rparr>)))"

section \<open>The tracker is the set of indices it was given\<close>

definition tracked :: "tracker \<Rightarrow> u64 \<Rightarrow> bool" where
  "tracked t i \<longleftrightarrow> i \<le> tr_end t \<or> i \<in> set (tr_pending t)"

definition tracker_wf :: "tracker \<Rightarrow> bool" where
  "tracker_wf t \<longleftrightarrow> (\<forall>p \<in> set (tr_pending t). tr_end t < p \<and> p \<noteq> tr_end t + 1)"

lemma tracker_wf_new: "tracker_wf (tracker_new e)" "tracked (tracker_new e) i \<longleftrightarrow> i \<le> e" "tr_end (tracker_new e) = e"
  by (simp_all add: tracker_wf_def tracker_new_def tracked_def)

lemma u64_less_Suc: "e \<noteq> - 1 \<Longrightarrow> i < e + 1 \<longleftrightarrow> i \<le> e" "e \<noteq> - 1 \<Longrightarrow> i \<le> e + 1 \<longleftrightarrow> i \<le> e \<or> i = e + 1" for e i :: u64
  by (auto simp: word_less_nat_alt word_le_nat_alt unat_add_one word_unat_eq_iff)

lemma u64_less_not_max: "e < p \<Longrightarrow> e \<noteq> - 1" for e p :: u64
  using unat_u64_bound [of p] by (auto simp: word_less_nat_alt unsigned_minus_1_eq_mask mask_eq_exp_minus_1)

lemma tracker_advance_spec:
  assumes "check_from = tr_end t + 1" "tr_end t \<noteq> - 1" "\<forall>p \<in> set (tr_pending t). tr_end t < p"
  shows "tracker_wf (tracker_advance check_from t) \<and> tr_end t \<le> tr_end (tracker_advance check_from t) \<and>
    (tracked (tracker_advance check_from t) j \<longleftrightarrow> tracked t j)"
  using assms
proof (induction check_from t rule: tracker_advance.induct)
  case (1 c t)
  show ?case
  proof (cases "c \<in> set (tr_pending t)")
    case False
    then have "tracker_advance c t = t" by (simp add: tracker_advance.simps [of c t])
    then show ?thesis using False 1(2,4) by (auto simp: tracker_wf_def)
  next
    case True
    let ?t = "\<lparr> tr_end = c, tr_pending = filter (\<lambda>i. i \<noteq> c) (tr_pending t) \<rparr>"
    have adv: "tracker_advance c t = tracker_advance (c + 1) ?t" using True by (simp add: tracker_advance.simps [of c t])
    have later: "\<forall>p \<in> set (tr_pending ?t). tr_end ?t < p"
      using 1(2-4) u64_less_Suc(2) [of "tr_end t"] by (auto simp: not_le [symmetric])
    have same: "tracked ?t j \<longleftrightarrow> tracked t j" using True 1(2,3) u64_less_Suc(2) [of "tr_end t"] by (auto simp: tracked_def)
    have le: "tr_end t \<le> c" using 1(4) True by (auto intro: less_imp_le)
    show ?thesis
    proof (cases "c = - 1")
      case True
      then have "tr_pending ?t = []" using later u64_less_not_max by (fastforce simp: filter_empty_conv)
      then have "tracker_advance (c + 1) ?t = ?t" by (simp add: tracker_advance.simps [of "c + 1"])
      then show ?thesis using le same \<open>tr_pending ?t = []\<close> unfolding adv by (simp add: tracker_wf_def)
    next
      case False
      have "tracker_wf (tracker_advance (c + 1) ?t) \<and> tr_end ?t \<le> tr_end (tracker_advance (c + 1) ?t) \<and>
        (tracked (tracker_advance (c + 1) ?t) j \<longleftrightarrow> tracked ?t j)"
        by (rule 1(1) [OF True]) (use False later in auto)
      then show ?thesis using le same unfolding adv by (auto intro: order_trans)
    qed
  qed
qed

lemma tracker_add_spec:
  assumes "tracker_wf t"
  shows "tracker_wf (tracker_add i t)" "tr_end t \<le> tr_end (tracker_add i t)" "tracked (tracker_add i t) j \<longleftrightarrow> tracked t j \<or> j = i"
proof -
  let ?t = "t\<lparr>tr_pending := (if i \<in> set (tr_pending t) then tr_pending t else i # tr_pending t)\<rparr>"
  have "tracker_wf (tracker_add i t) \<and> tr_end t \<le> tr_end (tracker_add i t) \<and> (tracked (tracker_add i t) j \<longleftrightarrow> tracked t j \<or> j = i)"
  proof (cases "i \<le> tr_end t")
    case True
    then show ?thesis using assms by (auto simp: tracker_add_def tracked_def)
  next
    case False
    then have lt: "tr_end t < i" by simp
    have "\<forall>p \<in> set (tr_pending ?t). tr_end ?t < p" using assms lt by (auto simp: tracker_wf_def)
    moreover have "tr_end ?t \<noteq> - 1" using u64_less_not_max [OF lt] by simp
    ultimately have "tracker_wf (tracker_advance (tr_end ?t + 1) ?t) \<and> tr_end ?t \<le> tr_end (tracker_advance (tr_end ?t + 1) ?t) \<and>
        (tracked (tracker_advance (tr_end ?t + 1) ?t) j \<longleftrightarrow> tracked ?t j)" by (intro tracker_advance_spec) simp_all
    moreover have "tracked ?t j \<longleftrightarrow> tracked t j \<or> j = i" by (auto simp: tracked_def)
    ultimately show ?thesis using False by (simp add: tracker_add_def)
  qed
  then show "tracker_wf (tracker_add i t)" "tr_end t \<le> tr_end (tracker_add i t)" "tracked (tracker_add i t) j \<longleftrightarrow> tracked t j \<or> j = i"
    by blast+
qed

lemma tracker_add_all:
  assumes "tracker_wf t"
  shows "tracker_wf (fold tracker_add is t) \<and> (tracked (fold tracker_add is t) j \<longleftrightarrow> tracked t j \<or> j \<in> set is)"
  using assms by (induction "is" arbitrary: t) (auto simp: tracker_add_spec)

section \<open>The accounting of games\<close>

text \<open>A game still has a primary attempt ahead of it or under way.\<close>

definition queued :: "monitor \<Rightarrow> u64 \<Rightarrow> bool" where
  "queued m i \<longleftrightarrow> i \<in> pg_game_index ` set (m_pending m)"

definition primary_running :: "monitor \<Rightarrow> u64 \<Rightarrow> bool" where
  "primary_running m i \<longleftrightarrow> (\<exists>e. hm_get (m_running m) i = Some e \<and> is_primary (re_kind e))"

text \<open>The index \<open>start\<close> is the first one of this run, \<open>old\<close> the progress file it found.\<close>

definition games_ok :: "u64 \<Rightarrow> monitor_config \<Rightarrow> monitor \<Rightarrow> bool" where
  "games_ok start cfg m \<longleftrightarrow>
     tracker_wf (m_tracker m) \<and> start \<le> tr_end (m_tracker m) \<and> start \<le> m_next_game_index m \<and>
     hm_wf (m_running m) \<and> length (m_running m) \<le> mc_max_concurrent cfg \<and>
     distinct (map pg_game_index (m_pending m)) \<and>
     (\<forall>p \<in> set (m_pending m). \<exists>n \<le> mc_max_retries cfg. pg_kind p = Primary n) \<and>
     (\<forall>i e n. hm_get (m_running m) i = Some e \<and> re_kind e = Primary n \<longrightarrow> n \<le> mc_max_retries cfg) \<and>
     (\<forall>i. queued m i \<or> primary_running m i \<longrightarrow> start \<le> i \<and> i < m_next_game_index m) \<and>
     (\<forall>i. \<not> (queued m i \<and> primary_running m i)) \<and>
     (\<forall>i. tracked (m_tracker m) i \<longrightarrow> i \<le> start \<or> i < m_next_game_index m) \<and>
     (\<forall>i. start < i \<and> i < m_next_game_index m \<longrightarrow> (queued m i \<or> primary_running m i \<longleftrightarrow> \<not> tracked (m_tracker m) i))"

definition files_ok :: "u64 \<Rightarrow> progress_state option \<Rightarrow> monitor \<Rightarrow> bool" where
  "files_ok start old m \<longleftrightarrow> distinct (map bg_game_index (m_background m)) \<and>
     (m_progress_file m = old \<or> (\<exists>p. m_progress_file m = Some p \<and> start \<le> pr_last_contiguous p \<and> pr_last_contiguous p \<le> tr_end (m_tracker m)))"

lemma games_ok_cong:
  assumes "m_pending m' = m_pending m" "m_running m' = m_running m" "m_tracker m' = m_tracker m" "m_next_game_index m' = m_next_game_index m"
  shows "games_ok start cfg m' = games_ok start cfg m"
  using assms by (simp add: games_ok_def queued_def primary_running_def)

lemma save_progress_fields [simp]:
  "m_pending (save_progress env m) = m_pending m" "m_running (save_progress env m) = m_running m"
  "m_tracker (save_progress env m) = m_tracker m" "m_next_game_index (save_progress env m) = m_next_game_index m"
  "m_background (save_progress env m) = m_background m"
  by (simp_all add: save_progress_def Let_def)

lemma mark_completed_fields [simp]:
  "m_pending (mark_game_completed env i m) = m_pending m" "m_running (mark_game_completed env i m) = m_running m"
  "m_tracker (mark_game_completed env i m) = tracker_add i (m_tracker m)" "m_next_game_index (mark_game_completed env i m) = m_next_game_index m"
  "m_background (mark_game_completed env i m) = m_background m"
  by (simp_all add: mark_game_completed_def Let_def)

lemma push_completion_fields [simp]:
  "m_pending (push_completion cfg env r m) = m_pending m" "m_running (push_completion cfg env r m) = m_running m"
  "m_tracker (push_completion cfg env r m) = m_tracker m" "m_next_game_index (push_completion cfg env r m) = m_next_game_index m"
  "m_background (push_completion cfg env r m) = m_background m" "m_progress_file (push_completion cfg env r m) = m_progress_file m"
  by (simp_all add: push_completion_def save_history_def Let_def)

lemma games_ok_save [simp]: "games_ok start cfg (save_progress env m) = games_ok start cfg m"
  by (rule games_ok_cong) simp_all

lemma files_ok_save: "files_ok start old m \<Longrightarrow> start \<le> tr_end (m_tracker m) \<Longrightarrow> files_ok start old (save_progress env m)"
  by (auto simp: files_ok_def save_progress_def Let_def)

lemma files_ok_mark:
  assumes "files_ok start old m" "games_ok start cfg m0" "m_tracker m0 = m_tracker m"
  shows "files_ok start old (mark_game_completed env i m)"
proof -
  have wf: "tracker_wf (m_tracker m)" "start \<le> tr_end (m_tracker m)" using assms(2,3) by (simp_all add: games_ok_def)
  have le: "tr_end (m_tracker m) \<le> tr_end (tracker_add i (m_tracker m))" using wf(1) by (rule tracker_add_spec)
  then have "files_ok start old (m\<lparr>m_tracker := tracker_add i (m_tracker m)\<rparr>)" using assms(1) by (auto simp: files_ok_def)
  moreover from this le wf(2) have "files_ok start old (save_progress env (m\<lparr>m_tracker := tracker_add i (m_tracker m)\<rparr>))"
    by (intro files_ok_save) auto
  ultimately show ?thesis by (simp add: mark_game_completed_def Let_def)
qed

text \<open>The three ways a primary attempt ends: it is done, it goes back into the queue, or it was none.\<close>

lemma hm_remove_length: "length (hm_remove k m) \<le> length m"
  by (simp add: AList.delete_eq)

lemma primary_running_remove: "primary_running (m\<lparr>m_running := hm_remove i (m_running m)\<rparr>) j \<longleftrightarrow> primary_running m j \<and> j \<noteq> i"
  by (auto simp: primary_running_def)

lemma games_done:
  assumes "games_ok start cfg m" "primary_running m i"
    and "m_pending m' = m_pending m" "m_running m' = hm_remove i (m_running m)" "m_tracker m' = tracker_add i (m_tracker m)"
    and "m_next_game_index m' = m_next_game_index m"
  shows "games_ok start cfg m'"
proof -
  have wf: "tracker_wf (m_tracker m)" and range_i: "start \<le> i" "i < m_next_game_index m" and not_q: "\<not> queued m i"
    using assms(1,2) by (auto simp: games_ok_def)
  note tr = tracker_add_spec [OF wf, of i]
  have q: "queued m' j \<longleftrightarrow> queued m j" for j using assms(3) by (simp add: queued_def)
  have r: "primary_running m' j \<longleftrightarrow> primary_running m j \<and> j \<noteq> i" for j using assms(4) by (auto simp: primary_running_def)
  have t: "tracked (m_tracker m') j \<longleftrightarrow> tracked (m_tracker m) j \<or> j = i" for j using tr(3) assms(5) by simp
  have len: "length (m_running m') \<le> mc_max_concurrent cfg"
    using assms(1,4) hm_remove_length [of i "m_running m"] by (auto simp: games_ok_def)
  have e: "start \<le> tr_end (m_tracker m')" using assms(1,5) tr(2) by (auto simp: games_ok_def)
  show ?thesis unfolding games_ok_def q r t
  proof (intro conjI)
    show "tracker_wf (m_tracker m')" using tr(1) assms(5) by simp
    show "hm_wf (m_running m')" using assms(1,4) by (simp add: games_ok_def hm_wf_intros)
  qed (use assms(1) range_i not_q len e in \<open>auto simp: games_ok_def assms(3-6)\<close>)
qed

lemma games_retry:
  assumes "games_ok start cfg m" "hm_get (m_running m) i = Some e" "re_kind e = Primary n" "n < mc_max_retries cfg"
    and "m_pending m' = p # m_pending m" "pg_game_index p = i" "pg_kind p = Primary (n + 1)" "m_running m' = hm_remove i (m_running m)"
    and "m_tracker m' = m_tracker m" "m_next_game_index m' = m_next_game_index m"
  shows "games_ok start cfg m'"
proof -
  have run: "primary_running m i" using assms(2,3) by (auto simp: primary_running_def is_primary_def)
  then have range_i: "start \<le> i" "i < m_next_game_index m" and not_q: "\<not> queued m i" using assms(1) by (auto simp: games_ok_def)
  have q: "queued m' j \<longleftrightarrow> queued m j \<or> j = i" for j using assms(5,6) by (auto simp: queued_def)
  have r: "primary_running m' j \<longleftrightarrow> primary_running m j \<and> j \<noteq> i" for j using assms(8) by (auto simp: primary_running_def)
  have len: "length (m_running m') \<le> mc_max_concurrent cfg"
    using assms(1,8) hm_remove_length [of i "m_running m"] by (auto simp: games_ok_def)
  have "unat (n + 1) = Suc (unat n)" using assms(4) by (metis unat_add_one word_order.extremum_strict)
  then have n: "n + 1 \<le> mc_max_retries cfg" using assms(4) by (simp add: word_less_nat_alt word_le_nat_alt)
  show ?thesis unfolding games_ok_def q r
  proof (intro conjI)
    show "hm_wf (m_running m')" using assms(1,8) by (simp add: games_ok_def hm_wf_intros)
    show "distinct (map pg_game_index (m_pending m'))" using assms(1,5,6) not_q by (auto simp: games_ok_def queued_def)
    show "\<forall>p \<in> set (m_pending m'). \<exists>n \<le> mc_max_retries cfg. pg_kind p = Primary n" using assms(1,5,7) n by (auto simp: games_ok_def)
  qed (use assms(1) range_i not_q run len in \<open>auto simp: games_ok_def assms(8-10)\<close>)
qed

lemma games_background_ends:
  assumes "games_ok start cfg m" "hm_get (m_running m) i = Some e" "\<not> is_primary (re_kind e)"
    and "m_pending m' = m_pending m" "m_running m' = hm_remove i (m_running m)" "m_tracker m' = m_tracker m"
    and "m_next_game_index m' = m_next_game_index m"
  shows "games_ok start cfg m'"
proof -
  have q: "queued m' j \<longleftrightarrow> queued m j" for j using assms(4) by (simp add: queued_def)
  have r: "primary_running m' j \<longleftrightarrow> primary_running m j" for j using assms(2,3,5) by (auto simp: primary_running_def)
  have len: "length (m_running m') \<le> mc_max_concurrent cfg"
    using assms(1,5) hm_remove_length [of i "m_running m"] by (auto simp: games_ok_def)
  show ?thesis unfolding games_ok_def q r
  proof (intro conjI)
    show "hm_wf (m_running m')" using assms(1,5) by (simp add: games_ok_def hm_wf_intros)
  qed (use assms(1) len in \<open>auto simp: games_ok_def assms(4-7)\<close>)
qed

definition monitor_ok :: "u64 \<Rightarrow> progress_state option \<Rightarrow> monitor_config \<Rightarrow> monitor \<Rightarrow> bool" where
  "monitor_ok start old cfg m \<longleftrightarrow> games_ok start cfg m \<and> files_ok start old m"

lemma monitor_okD: "monitor_ok start old cfg m \<Longrightarrow> games_ok start cfg m" "monitor_ok start old cfg m \<Longrightarrow> files_ok start old m"
  by (simp_all add: monitor_ok_def)

lemma update_first_map: "(\<And>x. g (f x) = g x) \<Longrightarrow> map g (update_first p f xs) = map g xs"
  by (induction xs) auto

lemma files_ok_cong:
  assumes "m_background m' = m_background m" "m_progress_file m' = m_progress_file m" "m_tracker m' = m_tracker m"
  shows "files_ok start old m' = files_ok start old m"
  using assms by (simp add: files_ok_def)

lemma end_after: "games_ok start cfg m \<Longrightarrow> start \<le> tr_end (tracker_add i (m_tracker m))"
  using tracker_add_spec(2) [of "m_tracker m" i] by (auto simp: games_ok_def)

text \<open>The end of a process. Its entry is removed first; \<open>m0\<close> is the state before that.\<close>

lemma maybe_requeue_ok:
  assumes "monitor_ok start old cfg m0" "hm_get (m_running m0) i = Some e" "m = m0\<lparr>m_running := hm_remove i (m_running m0)\<rparr>"
    and "maybe_requeue cfg env i (re_kind e) created m = (Inr (), m')"
  shows "monitor_ok start old cfg m'"
proof (cases "re_kind e")
  case (Primary n)
  note ok = monitor_okD [OF assms(1)]
  have run: "primary_running m0 i" using assms(2) Primary by (auto simp: primary_running_def is_primary_def)
  have files: "files_ok start old m" using ok(2) assms(3) by (simp add: files_ok_def)
  have tr: "m_tracker m0 = m_tracker m" using assms(3) by simp
  show ?thesis
  proof (cases "n < mc_max_retries cfg")
    case True
    then obtain t where m': "m' = m\<lparr>m_pending := \<lparr> pg_executable_at = t, pg_game_index = i, pg_kind = Primary (n + 1) \<rparr> # m_pending m\<rparr>"
      using assms(4) Primary by (auto simp: maybe_requeue_def split: sum.splits)
    have "games_ok start cfg m'" 
      by (rule games_retry [OF ok(1) assms(2) Primary True,
            where p = "\<lparr> pg_executable_at = t, pg_game_index = i, pg_kind = Primary (n + 1) \<rparr>"]) (simp_all add: m' assms(3))
    then show ?thesis using files by (simp add: monitor_ok_def files_ok_def m')
  next
    case False
    show ?thesis
    proof (cases "list_ex (\<lambda>bg. bg_game_index bg = i) (m_background m)")
      case True
      then have m': "m' = mark_game_completed env i m" using assms(4) Primary False by (simp add: maybe_requeue_def)
      have "games_ok start cfg m'" by (rule games_done [OF ok(1) run]) (simp_all add: m' assms(3))
      moreover have "files_ok start old m'" unfolding m' by (rule files_ok_mark [OF files ok(1) tr])
      ultimately show ?thesis by (simp add: monitor_ok_def)
    next
      case queue: False
      then obtain nt w where m': "m' = save_progress env (mark_game_completed env i (m\<lparr>m_background := m_background m @
          [\<lparr> bg_game_index = i, bg_game_created_at = created, bg_next_attempt_at = nt, bg_last_wait = w, bg_attempts = 0 \<rparr>]\<rparr>))"
        using assms(4) Primary False by (auto simp: maybe_requeue_def Let_def split: sum.splits)
      define bg where "bg = \<lparr> bg_game_index = i, bg_game_created_at = created, bg_next_attempt_at = nt, bg_last_wait = w, bg_attempts = (0 :: u32) \<rparr>"
      have bg: "bg_game_index bg = i" "m' = save_progress env (mark_game_completed env i (m\<lparr>m_background := m_background m @ [bg]\<rparr>))"
        using m' by (simp_all add: bg_def)
      have "games_ok start cfg m'" by (rule games_done [OF ok(1) run]) (simp_all add: bg(2) assms(3))
      moreover have "files_ok start old (m\<lparr>m_background := m_background m @ [bg]\<rparr>)"
        using files queue bg(1) by (auto simp: files_ok_def list_ex_iff)
      then have "files_ok start old (mark_game_completed env i (m\<lparr>m_background := m_background m @ [bg]\<rparr>))"
        by (rule files_ok_mark [OF _ ok(1)]) (simp add: tr)
      then have "files_ok start old m'" unfolding bg(2) by (rule files_ok_save) (use end_after [OF ok(1), of i] tr in simp)
      ultimately show ?thesis by (simp add: monitor_ok_def)
    qed
  qed
next
  case (Background n)
  note ok = monitor_okD [OF assms(1)]
  have files: "files_ok start old m" using ok(2) assms(3) by (simp add: files_ok_def)
  have "m' = m \<or> (\<exists>w t. m' = save_progress env (m\<lparr>m_background := update_first (\<lambda>bg. bg_game_index bg = i)
      (\<lambda>bg. bg\<lparr>bg_last_wait := w, bg_next_attempt_at := t, bg_attempts := n\<rparr>) (m_background m)\<rparr>))"
    using assms(4) Background by (auto simp: maybe_requeue_def Let_def split: option.splits sum.splits)
  then show ?thesis
  proof (elim disjE exE)
    assume "m' = m"
    then have "games_ok start cfg m'" by (intro games_background_ends [OF ok(1) assms(2)]) (simp_all add: Background is_primary_def assms(3))
    then show ?thesis using files \<open>m' = m\<close> by (simp add: monitor_ok_def)
  next
    fix w t assume m': "m' = save_progress env (m\<lparr>m_background := update_first (\<lambda>bg. bg_game_index bg = i)
      (\<lambda>bg. bg\<lparr>bg_last_wait := w, bg_next_attempt_at := t, bg_attempts := n\<rparr>) (m_background m)\<rparr>)"
    have "games_ok start cfg m'" by (intro games_background_ends [OF ok(1) assms(2)]) (simp_all add: Background is_primary_def assms(3) m')
    moreover have "files_ok start old m'" unfolding m'
      by (rule files_ok_save) (use files ok(1) assms(3) in \<open>simp_all add: files_ok_def games_ok_def update_first_map\<close>)
    ultimately show ?thesis by (simp add: monitor_ok_def)
  qed
qed

lemma distinct_map_filter: "distinct (map f xs) \<Longrightarrow> distinct (map f (filter P xs))"
  by (induction xs) auto

lemma apply_process_action_ok:
  assumes "monitor_ok start old cfg m" "apply_process_action cfg env ia m = (Inr (), m')"
  shows "monitor_ok start old cfg m'"
proof -
  obtain i a where ia: "ia = (i, a)" by (cases ia)
  note ok = monitor_okD [OF assms(1)]
  show ?thesis
  proof (cases "hm_get (m_running m) i")
    case None
    then show ?thesis using assms ia by (simp add: apply_process_action_def)
  next
    case (Some e)
    let ?m = "m\<lparr>m_running := hm_remove i (m_running m)\<rparr>"
    have files: "files_ok start old ?m" using ok(2) by (simp add: files_ok_def)
    show ?thesis
    proof (cases a)
      case (Success d b)
      show ?thesis
      proof (cases "re_kind e")
        case (Primary n)
        let ?m1 = "if b > 0 then push_completion cfg env \<lparr> cr_duration = d,
            cr_log_size = (case me_log_len env (re_log_file e) of None \<Rightarrow> 0 | Some n \<Rightarrow> n), cr_block_range = b \<rparr> ?m else ?m"
        define m1 where "m1 = ?m1"
        have m': "m' = mark_game_completed env i m1" using assms(2) Some unfolding m1_def by (simp add: apply_process_action_def ia Success Primary)
        have m1: "m1 = ?m \<or> (\<exists>r. m1 = push_completion cfg env r ?m)" unfolding m1_def by auto
        have run: "primary_running m i" using Some Primary by (auto simp: primary_running_def is_primary_def)
        have "games_ok start cfg m'" by (rule games_done [OF ok(1) run]) (use m1 in \<open>auto simp: m'\<close>)
        moreover have "files_ok start old m1" using files m1 by (auto simp: files_ok_def)
        then have "files_ok start old m'" unfolding m' by (rule files_ok_mark [OF _ ok(1)]) (use m1 in auto)
        ultimately show ?thesis by (simp add: monitor_ok_def)
      next
        case (Background n)
        then have m': "m' = save_progress env (?m\<lparr>m_background := filter (\<lambda>bg. bg_game_index bg \<noteq> i) (m_background ?m)\<rparr>)"
          using assms(2) Some by (simp add: apply_process_action_def ia Success)
        have "games_ok start cfg m'" by (intro games_background_ends [OF ok(1) Some]) (simp_all add: Background is_primary_def m')
        moreover have "files_ok start old m'" unfolding m'
          by (rule files_ok_save) (use files ok(1) in \<open>simp_all add: files_ok_def games_ok_def distinct_map_filter\<close>)
        ultimately show ?thesis by (simp add: monitor_ok_def)
      qed
    next
      case (Kill r)
      then have "maybe_requeue cfg env i (re_kind e) (re_game_created_at e) ?m = (Inr (), m')" using assms(2) Some by (simp add: apply_process_action_def ia)
      then show ?thesis by (rule maybe_requeue_ok [OF assms(1) Some refl])
    next
      case (Retry r)
      then have "maybe_requeue cfg env i (re_kind e) (re_game_created_at e) ?m = (Inr (), m')" using assms(2) Some by (simp add: apply_process_action_def ia)
      then show ?thesis by (rule maybe_requeue_ok [OF assms(1) Some refl])
    qed
  qed
qed

lemma for_each_ok:
  assumes "\<And>m x m'. x \<in> set xs \<Longrightarrow> I m \<Longrightarrow> f x m = (Inr (), m') \<Longrightarrow> I m'" "I m" "for_each f xs m = (Inr (), m')"
  shows "I m'"
  using assms
proof (induction xs arbitrary: m)
  case (Cons x xs)
  from Cons.prems(3) obtain m1 where m1: "f x m = (Inr (), m1)" "for_each f xs m1 = (Inr (), m')" by (auto simp: seq_eq_Inr)
  have "I m1" using Cons.prems(1) [OF _ Cons.prems(2) m1(1)] by simp
  then show ?case by (rule Cons.IH [OF _ _ m1(2), rotated]) (rule Cons.prems(1), simp_all)
qed simp

lemma scan_process_entry: "\<exists>f. fst (scan_process cfg env mt ml (i, e)) = (i, e\<lparr>re_log_file := f\<rparr>)"
  by (auto simp: scan_process_def Let_def split: wait_status.splits option.splits intro: exI [of _ "re_log_file e"])

lemma scanned_running:
  "hm_keys (map fst (map (scan_process cfg env mt ml) r)) = hm_keys r"
  "map_option re_kind (hm_get (map fst (map (scan_process cfg env mt ml) r)) i) = map_option re_kind (hm_get r i)"
proof -
  show "hm_keys (map fst (map (scan_process cfg env mt ml) r)) = hm_keys r"
    unfolding list.map_comp
  proof (rule map_cong [OF refl])
    fix x assume "x \<in> set r"
    show "(fst \<circ> (fst \<circ> scan_process cfg env mt ml)) x = fst x"
      using scan_process_entry [of cfg env mt ml "fst x" "snd x"] by auto
  qed
  show "map_option re_kind (hm_get (map fst (map (scan_process cfg env mt ml) r)) i) = map_option re_kind (hm_get r i)"
  proof (induction r)
    case (Cons x r)
    obtain k e where x: "x = (k, e)" by (cases x)
    obtain f where "fst (scan_process cfg env mt ml x) = (k, e\<lparr>re_log_file := f\<rparr>)" using scan_process_entry x by blast
    then show ?case using Cons x by simp
  qed simp
qed

lemma games_ok_relabel:
  assumes "games_ok start cfg m" "hm_keys r = hm_keys (m_running m)" "\<And>i. map_option re_kind (hm_get r i) = map_option re_kind (hm_get (m_running m) i)"
  shows "games_ok start cfg (m\<lparr>m_running := r\<rparr>)"
proof -
  let ?m = "m\<lparr>m_running := r\<rparr>"
  have kind: "(\<exists>e. hm_get r i = Some e \<and> P (re_kind e)) \<longleftrightarrow> (\<exists>e. hm_get (m_running m) i = Some e \<and> P (re_kind e))" for i P
    using assms(3) [of i] by (cases "hm_get r i"; cases "hm_get (m_running m) i") auto
  have r: "primary_running ?m i = primary_running m i" for i unfolding primary_running_def using kind by simp
  have q: "queued ?m i = queued m i" for i by (simp add: queued_def)
  have retry: "(\<forall>e n. hm_get r i = Some e \<and> re_kind e = Primary n \<longrightarrow> n \<le> mc_max_retries cfg) \<longleftrightarrow>
      (\<forall>e n. hm_get (m_running m) i = Some e \<and> re_kind e = Primary n \<longrightarrow> n \<le> mc_max_retries cfg)" for i
    using kind [of i "\<lambda>k. \<exists>n. k = Primary n \<and> \<not> n \<le> mc_max_retries cfg"] by blast
  have wf: "hm_wf r = hm_wf (m_running m)" "length r = length (m_running m)"
    using assms(2) by (simp add: hm_wf_def, metis length_map)
  show ?thesis using assms(1) unfolding games_ok_def r q by (simp add: wf retry)
qed

lemma cleanup_ok:
  assumes "monitor_ok start old cfg m" "cleanup_finished_processes cfg env m = (Inr (), m')"
  shows "monitor_ok start old cfg m'"
proof -
  let ?ops = "me_float env"
  define sc where "sc = map (scan_process cfg env (median_of ?ops (\<lambda>r. f_secs ?ops (cr_duration r)) (m_history m))
      (median_of ?ops (\<lambda>r. f_of_u64 ?ops (cr_log_size r)) (m_history m))) (m_running m)"
  have run: "for_each (apply_process_action cfg env) (List.map_filter (\<lambda>((i, _), action). map_option (Pair i) action) sc)
      (m\<lparr>m_running := map fst sc\<rparr>) = (Inr (), m')"
    using assms(2) by (simp add: cleanup_finished_processes_def Let_def sc_def)
  have "games_ok start cfg (m\<lparr>m_running := map fst sc\<rparr>)"
    by (rule games_ok_relabel [OF monitor_okD(1) [OF assms(1)]]) (simp_all only: sc_def scanned_running)
  moreover have "files_ok start old (m\<lparr>m_running := map fst sc\<rparr>)" using monitor_okD(2) [OF assms(1)] by (simp add: files_ok_def)
  ultimately have "monitor_ok start old cfg (m\<lparr>m_running := map fst sc\<rparr>)" by (simp add: monitor_ok_def)
  with _ show ?thesis by (rule for_each_ok [OF _ _ run]) (rule apply_process_action_ok)
qed

lemma evict_ok: "monitor_ok start old cfg m \<Longrightarrow> monitor_ok start old cfg (evict_aged_background_retries cfg env m)"
proof -
  assume ok: "monitor_ok start old cfg m"
  let ?m = "m\<lparr>m_background := filter (\<lambda>bg. \<not> evicted cfg env m bg) (m_background m)\<rparr>"
  have g: "games_ok start cfg ?m" using monitor_okD(1) [OF ok] by (subst games_ok_cong) simp_all
  have f: "files_ok start old ?m" using monitor_okD(2) [OF ok] by (auto simp: files_ok_def distinct_map_filter)
  have "files_ok start old (save_progress env ?m)" by (rule files_ok_save [OF f]) (use g in \<open>simp add: games_ok_def\<close>)
  with g f show ?thesis by (simp add: evict_aged_background_retries_def Let_def monitor_ok_def)
qed

text \<open>Starting processes.\<close>

lemma games_ok_iff:
  assumes "games_ok start cfg m" "\<And>i. queued m' i \<or> primary_running m' i \<longleftrightarrow> queued m i \<or> primary_running m i"
    and "m_tracker m' = m_tracker m" "m_next_game_index m' = m_next_game_index m" "hm_wf (m_running m')"
    and "length (m_running m') \<le> mc_max_concurrent cfg" "distinct (map pg_game_index (m_pending m'))"
    and "\<forall>p \<in> set (m_pending m'). \<exists>n \<le> mc_max_retries cfg. pg_kind p = Primary n"
    and "\<forall>i e n. hm_get (m_running m') i = Some e \<and> re_kind e = Primary n \<longrightarrow> n \<le> mc_max_retries cfg"
    and "\<forall>i. \<not> (queued m' i \<and> primary_running m' i)"
  shows "games_ok start cfg m'"
  using assms(1) unfolding games_ok_def assms(2-4) using assms(5-10) by blast

lemma hm_insert_length: "length (hm_insert k v m) \<le> Suc (length m)"
  by (induction m) auto

lemma spawn_primary_ok:
  assumes "games_ok start cfg m" "length (m_running m) < mc_max_concurrent cfg" "p \<in> set (m_pending m)" "pg_game_index p = i"
    and "re_kind est = pg_kind p"
  shows "games_ok start cfg (m\<lparr>m_running := hm_insert i est (m_running m), m_pending := filter (\<lambda>p. pg_game_index p \<noteq> i) (m_pending m)\<rparr>)"
    (is "games_ok start cfg ?m")
proof -
  from assms(1,3) obtain n where n: "n \<le> mc_max_retries cfg" "pg_kind p = Primary n" by (auto simp: games_ok_def)
  have qi: "queued m i" using assms(3,4) by (auto simp: queued_def)
  have q: "queued ?m j \<longleftrightarrow> queued m j \<and> j \<noteq> i" for j by (auto simp: queued_def)
  have r: "primary_running ?m j \<longleftrightarrow> primary_running m j \<or> j = i" for j
    using assms(5) n(2) by (auto simp: primary_running_def is_primary_def)
  show ?thesis
  proof (rule games_ok_iff [OF assms(1)])
    show "\<forall>j e k. hm_get (m_running ?m) j = Some e \<and> re_kind e = Primary k \<longrightarrow> k \<le> mc_max_retries cfg"
      using assms(1,5) n by (auto simp: games_ok_def split: if_splits)
  qed (use assms(1,2) qi q r hm_insert_length [of i est "m_running m"] in
      \<open>auto simp: games_ok_def hm_wf_intros distinct_map_filter\<close>)
qed

lemma spawn_background_ok:
  assumes "games_ok start cfg m" "length (m_running m) < mc_max_concurrent cfg" "hm_get (m_running m) i = None" "\<not> is_primary (re_kind est)"
  shows "games_ok start cfg (m\<lparr>m_running := hm_insert i est (m_running m)\<rparr>)" (is "games_ok start cfg ?m")
proof -
  have q: "queued ?m j \<longleftrightarrow> queued m j" for j by (simp add: queued_def)
  have r: "primary_running ?m j \<longleftrightarrow> primary_running m j" for j using assms(3,4) by (auto simp: primary_running_def)
  show ?thesis
  proof (rule games_ok_iff [OF assms(1)])
    show "\<forall>j e k. hm_get (m_running ?m) j = Some e \<and> re_kind e = Primary k \<longrightarrow> k \<le> mc_max_retries cfg"
      using assms(1,4) by (auto simp: games_ok_def is_primary_def split: if_splits)
  qed (use assms(1,2) q r hm_insert_length [of i est "m_running m"] in \<open>auto simp: games_ok_def hm_wf_intros\<close>)
qed

lemma wrong_type_primary_ok:
  assumes "games_ok start cfg m" "queued m i" "m_pending m' = filter (\<lambda>p. pg_game_index p \<noteq> i) (m_pending m)"
    and "m_running m' = m_running m" "m_tracker m' = tracker_add i (m_tracker m)" "m_next_game_index m' = m_next_game_index m"
  shows "games_ok start cfg m'"
proof -
  have wf: "tracker_wf (m_tracker m)" and range_i: "start \<le> i" "i < m_next_game_index m" and not_r: "\<not> primary_running m i"
    using assms(1,2) by (auto simp: games_ok_def)
  note tr = tracker_add_spec [OF wf, of i]
  have q: "queued m' j \<longleftrightarrow> queued m j \<and> j \<noteq> i" for j using assms(3) by (auto simp: queued_def)
  have r: "primary_running m' j \<longleftrightarrow> primary_running m j" for j using assms(4) by (simp add: primary_running_def)
  have t: "tracked (m_tracker m') j \<longleftrightarrow> tracked (m_tracker m) j \<or> j = i" for j using tr(3) assms(5) by simp
  have e: "start \<le> tr_end (m_tracker m')" using assms(1,5) tr(2) by (auto simp: games_ok_def)
  show ?thesis unfolding games_ok_def q r t
  proof (intro conjI)
    show "tracker_wf (m_tracker m')" using tr(1) assms(5) by simp
    show "distinct (map pg_game_index (m_pending m'))" using assms(1,3) by (simp add: games_ok_def distinct_map_filter)
  qed (use assms(1) range_i not_r e in \<open>auto simp: games_ok_def assms(3-6)\<close>)
qed

lemma fetch_game_data_index: "fetch_game_data env i = Inr g \<Longrightarrow> gd_game_index g = i"
  by (auto simp: fetch_game_data_def Let_def try_bind_eq_Inr split: if_splits)

text \<open>What a call of \<open>spawn_game\<close> that returns has done.\<close>

lemma spawn_game_cases:
  assumes "spawn_game sh env i kind m = (Inr o', m')"
  obtains "m' = handle_wrong_game_type env i kind m" "o' = WrongGameType"
  | "m' = m" "o' \<noteq> Spawned"
  | est where "re_kind est = kind" "o' = Spawned"
      "m' = m\<lparr>m_running := hm_insert i est (m_running m),
        m_pending := (if is_primary kind then filter (\<lambda>p. pg_game_index p \<noteq> i) (m_pending m) else m_pending m)\<rparr>"
proof (cases "fetch_game_data env i")
  case (Inl e)
  then show ?thesis using assms that(1,2) by (auto simp: spawn_game_def split: fetch_game_error.splits err.splits)
next
  case (Inr g)
  note idx = fetch_game_data_index [OF Inr]
  show ?thesis
  proof (cases "\<exists>b. me_l2_finalized env = Inr (Some b) \<and> \<not> b < gd_end_block g")
    case False
    then show ?thesis using assms Inr that(2) by (auto simp: spawn_game_def split: sum.splits option.splits if_splits)
  next
    case True
    let ?est = "\<lparr> re_started_at = me_now env, re_log_file = log_file_new sh i (gd_game_address g) kind,
      re_block_range = game_block_range g, re_kind = kind, re_game_created_at = gd_created_at g \<rparr>"
    from True assms Inr idx have "me_spawn env g = Inr ()" "o' = Spawned"
      "m' = m\<lparr>m_running := hm_insert i ?est (m_running m),
        m_pending := (if is_primary kind then filter (\<lambda>p. pg_game_index p \<noteq> i) (m_pending m) else m_pending m)\<rparr>"
      by (auto simp: spawn_game_def split: sum.splits if_splits)
    then show ?thesis using that(3) [of ?est] by simp
  qed
qed

lemma spawn_game_primary:
  assumes "monitor_ok start old cfg m" "length (m_running m) < mc_max_concurrent cfg" "p \<in> set (m_pending m)" "pg_game_index p = i"
    and "spawn_game sh env i (pg_kind p) m = (Inr o', m')"
  shows "monitor_ok start old cfg m' \<and> (\<forall>p' \<in> set (m_pending m). pg_game_index p' \<noteq> i \<longrightarrow> p' \<in> set (m_pending m'))"
proof -
  note ok = monitor_okD [OF assms(1)]
  from ok(1) assms(3) obtain n where kind: "pg_kind p = Primary n" by (auto simp: games_ok_def)
  from assms(5) show ?thesis
  proof (cases rule: spawn_game_cases)
    case 1
    let ?m = "m\<lparr>m_pending := filter (\<lambda>p. pg_game_index p \<noteq> i) (m_pending m)\<rparr>"
    have m': "m' = mark_game_completed env i ?m" using 1 kind by (simp add: handle_wrong_game_type_def)
    have "games_ok start cfg m'"
      by (rule wrong_type_primary_ok [OF ok(1)]) (use assms(3,4) in \<open>auto simp: m' queued_def\<close>)
    moreover have "files_ok start old ?m" using ok(2) by (simp add: files_ok_def)
    then have "files_ok start old m'" unfolding m' by (rule files_ok_mark [OF _ ok(1)]) simp
    ultimately show ?thesis by (auto simp: monitor_ok_def m')
  next
    case 2
    then show ?thesis using assms(1) by simp
  next
    case (3 est)
    then have m': "m' = m\<lparr>m_running := hm_insert i est (m_running m), m_pending := filter (\<lambda>p. pg_game_index p \<noteq> i) (m_pending m)\<rparr>"
      by (simp add: kind is_primary_def)
    have "games_ok start cfg m'" unfolding m' by (rule spawn_primary_ok [OF ok(1) assms(2-4) 3(1)])
    then show ?thesis using ok(2) by (auto simp: monitor_ok_def m' files_ok_def)
  qed
qed

lemma spawn_game_background:
  assumes "monitor_ok start old cfg m" "length (m_running m) < mc_max_concurrent cfg" "hm_get (m_running m) i = None"
    and "spawn_game sh env i (Background n) m = (Inr o', m')"
  shows "monitor_ok start old cfg m' \<and> (\<forall>j. j \<noteq> i \<longrightarrow> hm_get (m_running m') j = hm_get (m_running m) j)"
proof -
  note ok = monitor_okD [OF assms(1)]
  from assms(4) show ?thesis
  proof (cases rule: spawn_game_cases)
    case 1
    let ?m = "m\<lparr>m_background := filter (\<lambda>bg. bg_game_index bg \<noteq> i) (m_background m)\<rparr>"
    have m': "m' = save_progress env ?m" using 1 by (simp add: handle_wrong_game_type_def)
    have "games_ok start cfg m'" using ok(1) by (simp add: m') (subst games_ok_cong, simp_all)
    moreover have "files_ok start old m'" unfolding m'
      by (rule files_ok_save) (use ok in \<open>simp_all add: files_ok_def games_ok_def distinct_map_filter\<close>)
    ultimately show ?thesis by (simp add: monitor_ok_def m')
  next
    case 2
    then show ?thesis using assms(1) by simp
  next
    case (3 est)
    then have m': "m' = m\<lparr>m_running := hm_insert i est (m_running m)\<rparr>" by (simp add: is_primary_def)
    have "games_ok start cfg m'" unfolding m' by (rule spawn_background_ok [OF ok(1) assms(2,3)]) (simp add: 3(1) is_primary_def)
    then show ?thesis using ok(2) by (auto simp: monitor_ok_def m' files_ok_def)
  qed
qed

lemma spawn_all_primary:
  assumes "spawn_all sh cfg env cs m = (Inr b, m')" "monitor_ok start old cfg m" "distinct (map fst cs)"
    and "\<forall>(i, k) \<in> set cs. \<exists>p \<in> set (m_pending m). pg_game_index p = i \<and> pg_kind p = k"
  shows "monitor_ok start old cfg m'"
  using assms
proof (induction cs arbitrary: m)
  case (Cons c cs)
  obtain i k where c: "c = (i, k)" by (cases c)
  then obtain p where p: "p \<in> set (m_pending m)" "pg_game_index p = i" "pg_kind p = k" using Cons.prems(4) by auto
  show ?case
  proof (cases "can_spawn_new (mc_max_concurrent cfg) m")
    case False
    then show ?thesis using Cons.prems(1,2) c by simp
  next
    case True
    with Cons.prems(1) c obtain o' m1 where s: "spawn_game sh env i k m = (Inr o', m1)"
      "(if o' = FetchFailed then ret False else spawn_all sh cfg env cs) m1 = (Inr b, m')" by (auto simp: seq_eq_Inr)
    have ok1: "monitor_ok start old cfg m1" "\<forall>p' \<in> set (m_pending m). pg_game_index p' \<noteq> i \<longrightarrow> p' \<in> set (m_pending m1)"
      using spawn_game_primary [OF Cons.prems(2) True [unfolded can_spawn_new_def] p(1,2) s(1) [folded p(3)]] by blast+
    show ?thesis
    proof (cases "o' = FetchFailed")
      case True
      then show ?thesis using s(2) ok1(1) by simp
    next
      case False
      have "\<exists>p \<in> set (m_pending m1). pg_game_index p = j \<and> pg_kind p = l" if jl: "(j, l) \<in> set cs" for j l
      proof -
        obtain p' where p': "p' \<in> set (m_pending m)" "pg_game_index p' = j" "pg_kind p' = l" using Cons.prems(4) jl by auto
        have "j \<noteq> i" using Cons.prems(3) jl c by force
        then show ?thesis using ok1(2) p' by blast
      qed
      then have "\<forall>(j, l) \<in> set cs. \<exists>p \<in> set (m_pending m1). pg_game_index p = j \<and> pg_kind p = l" by blast
      then show ?thesis using Cons.IH [OF _ ok1(1)] s(2) False Cons.prems(3) by simp
    qed
  qed
qed simp

lemma spawn_all_background:
  assumes "spawn_all sh cfg env cs m = (Inr b, m')" "monitor_ok start old cfg m" "distinct (map fst cs)"
    and "\<forall>(i, k) \<in> set cs. hm_get (m_running m) i = None \<and> (\<exists>n. k = Background n)"
  shows "monitor_ok start old cfg m'"
  using assms
proof (induction cs arbitrary: m)
  case (Cons c cs)
  then obtain i n where c: "c = (i, Background n)" "hm_get (m_running m) i = None" by auto
  show ?case
  proof (cases "can_spawn_new (mc_max_concurrent cfg) m")
    case False
    then show ?thesis using Cons.prems(1,2) c by simp
  next
    case True
    with Cons.prems(1) c obtain o' m1 where s: "spawn_game sh env i (Background n) m = (Inr o', m1)"
      "(if o' = FetchFailed then ret False else spawn_all sh cfg env cs) m1 = (Inr b, m')" by (auto simp: seq_eq_Inr)
    have ok1: "monitor_ok start old cfg m1" "\<forall>j. j \<noteq> i \<longrightarrow> hm_get (m_running m1) j = hm_get (m_running m) j"
      using spawn_game_background [OF Cons.prems(2) True [unfolded can_spawn_new_def] c(2) s(1)] by blast+
    show ?thesis
    proof (cases "o' = FetchFailed")
      case True
      then show ?thesis using s(2) ok1(1) by simp
    next
      case False
      have "hm_get (m_running m1) j = None \<and> (\<exists>n. l = Background n)" if jl: "(j, l) \<in> set cs" for j l
      proof -
        have "j \<noteq> i" using Cons.prems(3) jl c(1) by force
        moreover have "hm_get (m_running m) j = None" "\<exists>n. l = Background n" using Cons.prems(4) jl by auto
        ultimately show ?thesis using ok1(2) by simp
      qed
      then have "\<forall>(j, l) \<in> set cs. hm_get (m_running m1) j = None \<and> (\<exists>n. l = Background n)" by blast
      then show ?thesis using Cons.IH [OF _ ok1(1)] s(2) False Cons.prems(3) by simp
    qed
  qed
qed simp

lemma discover_games_ok:
  assumes "monitor_ok start old cfg m" "discover_games cfg env count m = (Inr (), m')"
  shows "monitor_ok start old cfg m'"
  using assms
proof (induction cfg env count m rule: discover_games.induct)
  case (1 cfg env count m)
  show ?case
  proof (cases "m_next_game_index m < count")
    case False
    then show ?thesis using 1(2,3) by (simp add: discover_games.simps [of cfg env count m])
  next
    case True
    let ?i = "m_next_game_index m"
    from 1(3) True obtain t where t: "time_add (me_time_max env) (me_now env) (mc_initial_game_delay cfg) = Inr t"
      by (auto simp: discover_games.simps [of cfg env count m] Let_def split: sum.splits)
    let ?p = "\<lparr> pg_executable_at = t, pg_game_index = ?i, pg_kind = Primary 0 \<rparr>"
    let ?m = "m\<lparr>m_next_game_index := ?i + 1, m_pending := ?p # m_pending m\<rparr>"
    have rest: "discover_games cfg env count ?m = (Inr (), m')"
      using 1(3) True t by (simp add: discover_games.simps [of cfg env count m] Let_def)
    have nxt: "j < ?i + 1 \<longleftrightarrow> j < ?i \<or> j = ?i" for j
      by (simp only: u64_less_Suc(1) [OF u64_less_not_max [OF True]] order_le_less)
    note ok = monitor_okD [OF 1(2)]
    have fresh: "\<not> queued m ?i" "\<not> primary_running m ?i" using ok(1) by (auto simp: games_ok_def)
    have q: "queued ?m j \<longleftrightarrow> queued m j \<or> j = ?i" for j by (auto simp: queued_def)
    have r: "primary_running ?m j \<longleftrightarrow> primary_running m j" for j by (simp add: primary_running_def)
    have new: "start < ?i \<Longrightarrow> \<not> tracked (m_tracker m) ?i" using ok(1) by (auto simp: games_ok_def)
    have "games_ok start cfg ?m" unfolding games_ok_def q r
    proof (intro conjI)
      show "start \<le> m_next_game_index ?m" using ok(1) nxt [of start] by (auto simp: games_ok_def not_less [symmetric])
      show "distinct (map pg_game_index (m_pending ?m))" using ok(1) fresh(1) by (auto simp: games_ok_def queued_def)
      show "\<forall>p \<in> set (m_pending ?m). \<exists>n \<le> mc_max_retries cfg. pg_kind p = Primary n" using ok(1) by (auto simp: games_ok_def)
    qed (use ok(1) fresh new nxt in \<open>auto simp: games_ok_def\<close>)
    moreover have "files_ok start old ?m" using ok(2) by (simp add: files_ok_def)
    ultimately have "monitor_ok start old cfg ?m" by (simp add: monitor_ok_def)
    then show ?thesis using 1(1) [OF True refl refl t] rest by simp
  qed
qed

text \<open>One turn of the loop, and the steps of a run.\<close>

lemma discover_phase_ok:
  "monitor_ok start old cfg m \<Longrightarrow> discover_phase cfg env m = (Inr (), m') \<Longrightarrow> monitor_ok start old cfg m'"
  using discover_games_ok by (auto simp: discover_phase_def split: sum.splits)

lemma background_phase_ok:
  assumes "monitor_ok start old cfg m" "background_phase sh cfg env m = (Inr (), m')"
  shows "monitor_ok start old cfg m'"
proof -
  from assms(2) obtain b m1 where 1: "spawn_all sh cfg env (background_candidates env m) m = (Inr b, m1)"
    "(if b then discover_phase cfg env else ret ()) m1 = (Inr (), m')" unfolding background_phase_def by (simp add: seq_eq_Inr) blast
  have "distinct (map fst (background_candidates env m))"
    using monitor_okD(2) [OF assms(1)] by (simp add: background_candidates_def files_ok_def comp_def distinct_map_filter)
  then have "monitor_ok start old cfg m1" by (rule spawn_all_background [OF 1(1) assms(1)]) (auto simp: background_candidates_def)
  then show ?thesis using 1(2) discover_phase_ok by (auto split: if_splits)
qed

lemma primary_phase_ok:
  assumes "monitor_ok start old cfg m" "primary_phase sh cfg env m = (Inr (), m')"
  shows "monitor_ok start old cfg m'"
proof -
  from assms(2) obtain b m1 where 1: "spawn_all sh cfg env (primary_candidates env m) m = (Inr b, m1)"
    "(if b then background_phase sh cfg env else ret ()) m1 = (Inr (), m')" unfolding primary_phase_def by (simp add: seq_eq_Inr) blast
  have "distinct (map fst (primary_candidates env m))"
    using monitor_okD(1) [OF assms(1)] by (simp add: primary_candidates_def games_ok_def comp_def distinct_map_filter)
  then have "monitor_ok start old cfg m1" by (rule spawn_all_primary [OF 1(1) assms(1)]) (auto simp: primary_candidates_def)
  then show ?thesis using 1(2) background_phase_ok by (auto split: if_splits)
qed

lemma logs_phase_ok: "monitor_ok start old cfg m \<Longrightarrow> monitor_ok start old cfg (logs_phase cfg env m)"
  by (simp add: logs_phase_def monitor_ok_def files_ok_def games_ok_def queued_def primary_running_def)

lemma monitor_turn_ok:
  assumes "monitor_ok start old cfg m" "monitor_turn sh cfg env m = (Inr (), m')"
  shows "monitor_ok start old cfg m'"
proof -
  from assms(2) obtain m1 where 1: "cleanup_finished_processes cfg env m = (Inr (), m1)"
    "primary_phase sh cfg env (logs_phase cfg env (evict_aged_background_retries cfg env m1)) = (Inr (), m')"
    by (auto simp: monitor_turn_def seq_eq_Inr [of "cleanup_finished_processes cfg env"])
  from cleanup_ok [OF assms(1) 1(1)] have "monitor_ok start old cfg (logs_phase cfg env (evict_aged_background_retries cfg env m1))"
    by (intro logs_phase_ok evict_ok)
  then show ?thesis using 1(2) by (rule primary_phase_ok)
qed

text \<open>A run of the daemon: turns until one fails.\<close>

inductive monitor_step :: "'f itself \<Rightarrow> (address \<Rightarrow> string) \<Rightarrow> monitor_config \<Rightarrow> monitor \<Rightarrow> monitor \<Rightarrow> bool" for fl sh cfg where
  turn: "monitor_turn sh cfg (env :: 'f monitor_env) m = (Inr (), m') \<Longrightarrow> monitor_step (fl :: 'f itself) sh cfg m m'"

lemma dedup_loop_distinct:
  "distinct (map bg_game_index (dedup_loop seen es)) \<and> (\<forall>bg \<in> set (dedup_loop seen es). bg_game_index bg \<notin> set seen)"
proof (induction es arbitrary: seen)
  case (Cons e es)
  show ?case using Cons.IH [of seen] Cons.IH [of "bg_game_index e # seen"] by auto
qed simp

lemma monitor_start_ok:
  assumes "monitor_start cfg env progress history = Inr m"
  shows "\<exists>start. start_index cfg progress (me_game_count env) = Inr start \<and> monitor_ok start progress cfg m"
proof -
  from assms obtain start where s: "start_index cfg progress (me_game_count env) = Inr start"
    and m: "m = evict_aged_background_retries cfg env (monitor_new cfg start (fst (dedup_background_retries
       (case progress of None \<Rightarrow> [] | Some p \<Rightarrow> pr_background_retries p))) progress history)"
    by (auto simp: monitor_start_def try_bind_eq_Inr Let_def)
  have "monitor_ok start progress cfg (monitor_new cfg start (fst (dedup_background_retries es)) progress history)" for es
    using dedup_loop_distinct [of "[]" es]
    by (auto simp: monitor_ok_def games_ok_def files_ok_def monitor_new_def tracker_wf_new queued_def primary_running_def
      dedup_background_retries_def Let_def)
  then show ?thesis using s unfolding m by (auto intro: evict_ok)
qed

lemma monitor_step_ok: "monitor_ok start old cfg m \<Longrightarrow> monitor_step fl sh cfg m m' \<Longrightarrow> monitor_ok start old cfg m'"
  by (auto elim!: monitor_step.cases intro: monitor_turn_ok)

interpretation monitor_run: step_system "monitor_ok start old cfg" "monitor_step fl sh cfg" "monitor_ok start old cfg" for start old cfg fl sh
  by unfold_locales (auto intro: monitor_step_ok)

text \<open>Names of log files.\<close>

lemma extract_log_file: "extract_game_index (log_file_new sh i a k) = Some i"
proof -
  let ?d = "show_nat (unat i)"
  note d = show_nat_digits [of "unat i"]
  obtain x xs where x: "?d = x # xs" using d by (cases ?d) auto
  have "x \<noteq> CHR ''+''" using show_nat_chars [of x "unat i"] x by simp
  then have parse: "parse_u64 ?d = Some i" using d x unat_u64_bound [of i] by (simp add: parse_u64_def)
  obtain rest where nm: "log_file_new sh i a k = ''cost-estimator-'' @ ?d @ CHR ''-'' # rest" by (simp add: log_file_new_def)
  have "takeWhile (\<lambda>c. c \<noteq> CHR ''-'') (?d @ CHR ''-'' # rest) = ?d" using show_nat_chars by (intro takeWhile_stop) auto
  then show ?thesis using parse by (simp add: extract_game_index_def nm strip_prefix_def)
qed

section \<open>Properties\<close>

lemma games_okD:
  assumes "games_ok start cfg m"
  shows "length (m_running m) \<le> mc_max_concurrent cfg"
    "\<not> (queued m i \<and> primary_running m i)"
    "queued m i \<or> primary_running m i \<Longrightarrow> i < m_next_game_index m"
    "tracked (m_tracker m) i \<Longrightarrow> start < i \<Longrightarrow> \<not> queued m i \<and> \<not> primary_running m i"
    "\<not> tracked (m_tracker m) i \<Longrightarrow> start < i \<Longrightarrow> i < m_next_game_index m \<Longrightarrow> queued m i \<or> primary_running m i"
proof -
  note g = assms [unfolded games_ok_def]
  show "length (m_running m) \<le> mc_max_concurrent cfg" using g by (elim conjE)
  show "\<not> (queued m i \<and> primary_running m i)" using g by (elim conjE) (erule allE [where P = "\<lambda>i. \<not> (queued m i \<and> primary_running m i)" and x = i])
  from g have range: "queued m i \<or> primary_running m i \<Longrightarrow> start \<le> i \<and> i < m_next_game_index m"
    and iff: "start < i \<and> i < m_next_game_index m \<Longrightarrow> (queued m i \<or> primary_running m i \<longleftrightarrow> \<not> tracked (m_tracker m) i)"
    by (simp_all only: simp_thms)
  show "queued m i \<or> primary_running m i \<Longrightarrow> i < m_next_game_index m" using range by blast
  show "tracked (m_tracker m) i \<Longrightarrow> start < i \<Longrightarrow> \<not> queued m i \<and> \<not> primary_running m i" using range iff by blast
  show "\<not> tracked (m_tracker m) i \<Longrightarrow> start < i \<Longrightarrow> i < m_next_game_index m \<Longrightarrow> queued m i \<or> primary_running m i"
    using iff by blast
qed

text \<open>C25: In every state a run of the monitor reaches, each discovered game after the first one of the run is in exactly one place: queued for a primary
  attempt, running one, or recorded as completed (a completed game may still have background attempts); no more processes run than allowed; no game has two
  background entries; and the progress file is the one the run found or covers no game after the first that still has a primary attempt ahead of it.\<close>

theorem monitor_accounts:
  assumes "monitor_start cfg env progress history = Inr m0" "start_index cfg progress (me_game_count env) = Inr start"
    and "(monitor_step fl sh cfg)\<^sup>*\<^sup>* m0 m"
  shows "(\<forall>i. start < i \<and> i < m_next_game_index m \<longrightarrow>
      (queued m i \<and> \<not> primary_running m i \<and> \<not> tracked (m_tracker m) i) \<or>
      (\<not> queued m i \<and> primary_running m i \<and> \<not> tracked (m_tracker m) i) \<or>
      (\<not> queued m i \<and> \<not> primary_running m i \<and> tracked (m_tracker m) i)) \<and>
    length (m_running m) \<le> mc_max_concurrent cfg \<and> distinct (map bg_game_index (m_background m)) \<and>
    (m_progress_file m = progress \<or> (\<exists>p. m_progress_file m = Some p \<and>
       (\<forall>i. start < i \<and> i \<le> pr_last_contiguous p \<longrightarrow> \<not> queued m i \<and> \<not> primary_running m i)))"
proof -
  from monitor_start_ok [OF assms(1)] assms(2) have "monitor_ok start progress cfg m0" by auto
  then have ok: "monitor_ok start progress cfg m" using assms(3) by (rule monitor_run.reachable_inv)
  note g = monitor_okD(1) [OF ok] and f = monitor_okD(2) [OF ok]
  have "\<not> queued m i \<and> \<not> primary_running m i" if i: "start < i" "i \<le> tr_end (m_tracker m)" for i
  proof -
    have "tracked (m_tracker m) i" using i(2) by (simp add: tracked_def)
    then show ?thesis using i(1) by (rule games_okD(4) [OF g])
  qed
  then have "m_progress_file m = progress \<or> (\<exists>p. m_progress_file m = Some p \<and>
       (\<forall>i. start < i \<and> i \<le> pr_last_contiguous p \<longrightarrow> \<not> queued m i \<and> \<not> primary_running m i))"
    using f unfolding files_ok_def by (elim conjE disjE exE) (auto intro: order_trans)
  moreover have "\<forall>i. start < i \<and> i < m_next_game_index m \<longrightarrow>
      (queued m i \<and> \<not> primary_running m i \<and> \<not> tracked (m_tracker m) i) \<or>
      (\<not> queued m i \<and> primary_running m i \<and> \<not> tracked (m_tracker m) i) \<or>
      (\<not> queued m i \<and> \<not> primary_running m i \<and> tracked (m_tracker m) i)"
    using games_okD(2, 4, 5) [OF g] by blast
  ultimately show ?thesis using games_okD(1) [OF g] f by (simp add: files_ok_def)
qed

text \<open>C36: A restart never comes back to the first game of a run. The tracker starts with that game counted as processed, so as soon as the run has written a
  progress file of its own, a restart without a start index goes on after the first game, in whatever state that game was (the witness is a run in which it
  is still being estimated). Of the games after it, the restart skips only completed ones.\<close>

theorem restart_skips_first_game:
  assumes "monitor_start cfg env progress history = Inr m0" "start_index cfg progress (me_game_count env) = Inr start"
    and "(monitor_step fl sh cfg)\<^sup>*\<^sup>* m0 m" "m_progress_file m \<noteq> progress"
    and "mc_start_index cfg' = None" "start_index cfg' (m_progress_file (monitor_shutdown m)) count = Inr next" "next \<noteq> 0"
  shows "start < next \<and> (\<forall>i. start < i \<and> i < next \<longrightarrow> tracked (m_tracker m) i \<and> \<not> queued m i \<and> \<not> primary_running m i)"
proof -
  from monitor_start_ok [OF assms(1)] assms(2) have "monitor_ok start progress cfg m0" by auto
  then have ok: "monitor_ok start progress cfg m" using assms(3) by (rule monitor_run.reachable_inv)
  from monitor_okD(2) [OF ok] assms(4) obtain p where p: "m_progress_file m = Some p"
    "start \<le> pr_last_contiguous p" "pr_last_contiguous p \<le> tr_end (m_tracker m)" by (auto simp: files_ok_def)
  have n: "next = pr_last_contiguous p + 1" using assms(5,6) p(1) by (simp add: start_index_def monitor_shutdown_def)
  with assms(7) have "pr_last_contiguous p \<noteq> - 1" by auto
  then have below: "i < next \<longleftrightarrow> i \<le> pr_last_contiguous p" for i unfolding n by (rule u64_less_Suc)
  have "tracked (m_tracker m) i \<and> \<not> queued m i \<and> \<not> primary_running m i" if "start < i" "i < next" for i
  proof -
    have "tracked (m_tracker m) i" using order_trans [OF _ p(3)] that(2) unfolding below by (simp add: tracked_def)
    then show ?thesis using games_okD(4) [OF monitor_okD(1) [OF ok] _ that(1)] by blast
  qed
  with below p(2) show ?thesis by blast
qed

text \<open>The tracker computes the end of the contiguous run. Whatever the order and repetitions of the indices added to a fresh tracker, every index after the
  initial end up to the reported end was added, and the next one was not.\<close>

theorem tracker_contiguous:
  "(\<forall>j. e < j \<and> j \<le> tr_end (fold tracker_add is (tracker_new e)) \<longrightarrow> j \<in> set is) \<and>
   (tr_end (fold tracker_add is (tracker_new e)) = - 1 \<or> tr_end (fold tracker_add is (tracker_new e)) + 1 \<notin> set is)"
proof -
  let ?t = "fold tracker_add is (tracker_new e)"
  have wf: "tracker_wf ?t" and tr: "tracked ?t j \<longleftrightarrow> j \<le> e \<or> j \<in> set is" for j
    using tracker_add_all [OF tracker_wf_new(1) [of e], of "is" j] by (simp_all add: tracker_wf_new)
  have "j \<in> set is" if "e < j" "j \<le> tr_end ?t" for j using tr [of j] that by (auto simp: tracked_def)
  moreover have "tr_end ?t + 1 \<notin> set is" if "tr_end ?t \<noteq> - 1"
  proof
    assume "tr_end ?t + 1 \<in> set is"
    then have "tracked ?t (tr_end ?t + 1)" using tr by blast
    moreover have "\<not> tr_end ?t + 1 \<le> tr_end ?t" using u64_less_Suc(1) [OF that, of "tr_end ?t"] by (simp add: not_le)
    ultimately show False using wf by (auto simp: tracked_def tracker_wf_def)
  qed
  ultimately show ?thesis by blast
qed

text \<open>Making room for logs spares running games. Every log that is deleted belongs to a game without a running process; in particular the log file of a running
  attempt is never deleted.\<close>

lemma remove_logs_sub: "path \<in> set (remove_logs env max_size running tot files) \<Longrightarrow>
    \<exists>sz i. (path, sz, i) \<in> set files \<and> hm_get running i = None"
  by (induction env max_size running tot files rule: remove_logs.induct) (auto split: if_splits)

theorem log_limit_spares_running:
  assumes "path \<in> set (enforce_log_space_limit env max_size running)"
  shows "(\<exists>i. extract_game_index path = Some i \<and> hm_get running i = None) \<and>
    (\<forall>sh i a k. path = log_file_new sh i a k \<longrightarrow> hm_get running i = None)"
proof -
  from assms obtain files where files: "log_sizes env = Inr files"
    and "path \<in> set (remove_logs env max_size running (sum_list (map (\<lambda>(_, sz, _). sz) files)) (sort_key (\<lambda>(_, _, i). i) files))"
    by (cases "log_sizes env") (auto simp: enforce_log_space_limit_def Let_def split: if_splits)
  then obtain sz i where "(path, sz, i) \<in> set files" "hm_get running i = None" using remove_logs_sub by fastforce
  moreover from this files have "extract_game_index path = Some i"
    by (auto simp: log_sizes_def try_bind_eq_Inr set_map_filter_option)
  ultimately show ?thesis using extract_log_file by auto
qed

section \<open>Witnesses\<close>

text \<open>They use a run that loses its first game.\<close>

definition mon_float :: "unit float_ops" where
  "mon_float = \<lparr> f_of_u64 = (\<lambda>_. ()), f_secs = (\<lambda>_. ()), f_div = (\<lambda>_ _. ()), f_mul = (\<lambda>_ _. ()), f_add = (\<lambda>_ _. ()),
     f_less = (\<lambda>_ _. False), f_two = (), f_five = (), f_ten = () \<rparr>"

definition mon_env :: "time \<Rightarrow> (u64 \<Rightarrow> wait_status) \<Rightarrow> unit monitor_env" where
  "mon_env now status = \<lparr> me_now = now, me_sys_now = now, me_time_max = 100, me_float = mon_float, me_try_wait = status,
     me_log_len = (\<lambda>_. None), me_rename_ok = (\<lambda>_. True), me_write_ok = (\<lambda>_. True), me_write_history_ok = (\<lambda>_. True),
     me_view = sample_view, me_game_count = Inr (if now = 0 then 6 else 7), me_l2_finalized = Inr (Some 1000), me_spawn = (\<lambda>_. Inr ()),
     me_list_logs = Inr [], me_remove_ok = (\<lambda>_. True) \<rparr>"

definition mon_cfg :: monitor_config where
  "mon_cfg = \<lparr> mc_initial_game_delay = 1, mc_max_process_duration_secs = 60, mc_max_history_length = 100, mc_max_retries = 3,
     mc_background_retry_max_age = 50, mc_max_concurrent = 4, mc_max_logs_size_mb = 0, mc_start_index = None \<rparr>"

lemma primary_running_code [code]:
  "primary_running m i = (case hm_get (m_running m) i of None \<Rightarrow> False | Some e \<Rightarrow> is_primary (re_kind e))"
  by (auto simp: primary_running_def split: option.splits)

text \<open>The daemon starts with 6 games on chain, so with game 5; game 6 appears, both are started, and 6 finishes first.\<close>

definition mon_turn :: "time \<Rightarrow> (u64 \<Rightarrow> wait_status) \<Rightarrow> monitor \<Rightarrow> unit result \<times> monitor" where
  "mon_turn now status m = monitor_turn (\<lambda>_. ''0x0'') mon_cfg (mon_env now status) m"

definition mon_start :: monitor where
  "mon_start = \<lparr> m_running = [], m_pending = [], m_background = [], m_next_game_index = 5, m_history = [],
     m_tracker = \<lparr>tr_end = 5, tr_pending = []\<rparr>, m_progress_file = None, m_history_file = None, m_deleted_logs = [] \<rparr>"

definition mon_found :: monitor where
  "mon_found = mon_start\<lparr> m_next_game_index := 7, m_pending :=
     [\<lparr>pg_executable_at = 2, pg_game_index = 6, pg_kind = Primary 0\<rparr>, \<lparr>pg_executable_at = 2, pg_game_index = 5, pg_kind = Primary 0\<rparr>] \<rparr>"

definition mon_started :: monitor where
  "mon_started = snd (mon_turn 2 (\<lambda>_. StillRunning) mon_found)"

definition mon_lost :: monitor where
  "mon_lost = snd (mon_turn 3 (\<lambda>i. if i = 6 then Exited True else StillRunning) mon_started)"

lemma mon_run:
  "monitor_start mon_cfg (mon_env 0 (\<lambda>_. StillRunning)) None None = Inr mon_start"
  "mon_turn 1 (\<lambda>_. StillRunning) mon_start = (Inr (), mon_found)"
  "fst (mon_turn 2 (\<lambda>_. StillRunning) mon_found) = Inr ()"
  "fst (mon_turn 3 (\<lambda>i. if i = 6 then Exited True else StillRunning) mon_started) = Inr ()"
  by code_simp+

lemma mon_lost_running: "primary_running mon_lost 5"
  by code_simp

lemma mon_steps: "(monitor_step TYPE(unit) (\<lambda>_. ''0x0'') mon_cfg)\<^sup>*\<^sup>* mon_start mon_lost"
proof -
  let ?step = "monitor_step TYPE(unit) (\<lambda>_. ''0x0'') mon_cfg"
  have next_state: "?step m (snd (mon_turn now status m))" if "fst (mon_turn now status m) = Inr ()" for now status m
    using that unfolding mon_turn_def by (intro monitor_step.turn [where env = "mon_env now status"]) (simp add: prod_eq_iff)
  have "?step mon_start mon_found" using next_state [of 1 "\<lambda>_. StillRunning" mon_start] unfolding mon_run(2) by (simp only: fst_conv snd_conv)
  moreover have "?step mon_found mon_started" unfolding mon_started_def by (rule next_state [OF mon_run(3)])
  moreover have "?step mon_started mon_lost" unfolding mon_lost_def by (rule next_state [OF mon_run(4)])
  ultimately show ?thesis by (meson converse_rtranclp_into_rtranclp rtranclp.rtrancl_refl)
qed

theorem restart_skips_first_game_witness:
  "primary_running mon_lost 5 \<and> start_index mon_cfg (m_progress_file (monitor_shutdown mon_lost)) (Inr 7) = Inr 7 \<and> (5 :: u64) < 7"
proof -
  have start: "start_index mon_cfg None (me_game_count (mon_env 0 (\<lambda>_. StillRunning))) = Inr 5" by code_simp
  have written: "m_progress_file mon_lost \<noteq> None" by code_simp
  have cfg: "mc_start_index mon_cfg = None" by (simp add: mon_cfg_def)
  have next_index: "start_index mon_cfg (m_progress_file (monitor_shutdown mon_lost)) (Inr 7) = Inr 7" by code_simp
  have "(7 :: u64) \<noteq> 0" by simp
  from restart_skips_first_game [OF mon_run(1) start mon_steps written cfg next_index this] next_index mon_lost_running
  show ?thesis by blast
qed

theorem monitor_accounts_witness: "tracked (m_tracker mon_lost) 6 \<and> \<not> queued mon_lost 6 \<and> length (m_running mon_lost) \<le> 4"
proof -
  have start: "start_index mon_cfg None (me_game_count (mon_env 0 (\<lambda>_. StillRunning))) = Inr 5" by code_simp
  have "m_next_game_index mon_lost = 7" by code_simp
  with monitor_accounts [OF mon_run(1) start mon_steps, THEN conjunct1, rule_format, of 6]
    monitor_accounts [OF mon_run(1) start mon_steps, THEN conjunct2, THEN conjunct1]
  have "queued mon_lost 6 \<or> primary_running mon_lost 6 \<or> tracked (m_tracker mon_lost) 6 \<and> \<not> queued mon_lost 6"
    and "length (m_running mon_lost) \<le> 4" by (auto simp: mon_cfg_def)
  moreover have "\<not> primary_running mon_lost 6" by code_simp
  moreover have "\<not> queued mon_lost 6" unfolding queued_def by code_simp
  ultimately show ?thesis by blast
qed

theorem log_limit_spares_running_witness:
  "extract_game_index ''cost-estimator-3-0x0.log'' = Some 3 \<and>
   ''cost-estimator-3-0x0.log'' \<in> set (enforce_log_space_limit ((mon_env 0 (\<lambda>_. StillRunning))
     \<lparr> me_list_logs := Inr [(''cost-estimator-3-0x0.log'', 10), (''notes.txt'', 90)] \<rparr>) 5 (m_running mon_lost))"
proof -
  have del: "''cost-estimator-3-0x0.log'' \<in> set (enforce_log_space_limit ((mon_env 0 (\<lambda>_. StillRunning))
     \<lparr> me_list_logs := Inr [(''cost-estimator-3-0x0.log'', 10), (''notes.txt'', 90)] \<rparr>) 5 (m_running mon_lost))" by code_simp
  from log_limit_spares_running [OF this] obtain i where "extract_game_index ''cost-estimator-3-0x0.log'' = Some i" by blast
  moreover have "extract_game_index ''cost-estimator-3-0x0.log'' = Some 3" by code_simp
  ultimately show ?thesis using del by blast
qed

theorem tracker_contiguous_witness:
  "tr_end (fold tracker_add [7, 6, 9] (tracker_new 5)) = 7 \<and> (\<forall>j. 5 < j \<and> j \<le> 7 \<longrightarrow> j \<in> set [7, 6, 9 :: u64])"
proof -
  have "tr_end (fold tracker_add [7, 6, 9] (tracker_new 5)) = 7" by code_simp
  with tracker_contiguous [of 5 "[7, 6, 9]", THEN conjunct1] show ?thesis by metis
qed

end
