(* ===== verification/Proving.thy ===== *)
theory Proving
  imports ProofRequester
begin

text \<open>
  Proving a dispute game: \<open>prove_game\<close> and \<open>range_proof_stdin\<close> of \<open>fault-proof/src/proposer.rs\<close>, the proof providers of
  \<open>fault-proof/src/prover.rs\<close> (network, mock, cluster) with the loop that waits for the prover network, and the cluster
  client of \<open>utils/proof/src/lib.rs\<close>.

  The SP1 SDK, the cluster client library and the host that generates witnesses are arguments. A computation that may wait
  for ever is an option of a result with the effects it had on the outside (requests cancelled, transactions sent): \<open>None\<close> means that
  it never returns. The range proofs of a game are generated concurrently; their completion order is an argument.
\<close>

section \<open>Computations that may not return\<close>

datatype proving_effect = CancelRequest b256 | ProveTx address "u8 list"

type_synonym 'a proving = "('a result \<times> proving_effect list) option"

definition pure :: "'a result \<Rightarrow> 'a proving" where
  "pure r = Some (r, [])"

definition pbind :: "'a proving \<Rightarrow> ('a \<Rightarrow> 'b proving) \<Rightarrow> 'b proving" where
  "pbind m f =
     (case m of
        None \<Rightarrow> None
      | Some (Inl e, w) \<Rightarrow> Some (Inl e, w)
      | Some (Inr x, w) \<Rightarrow> (case f x of None \<Rightarrow> None | Some (r, w') \<Rightarrow> Some (r, w @ w')))"

definition emit :: "proving_effect \<Rightarrow> 'a result \<Rightarrow> 'a proving" where
  "emit e r = Some (r, [e])"

lemma pbind_pure [simp]: "pbind (pure (Inr x)) f = f x" "pbind (pure (Inl e)) f = Some (Inl e, [])"
  by (auto simp: pbind_def pure_def split: option.splits)

lemma pbind_Inr: "pbind m f = Some (Inr y, w) \<longleftrightarrow> (\<exists>x u v. m = Some (Inr x, u) \<and> f x = Some (Inr y, v) \<and> w = u @ v)"
  by (auto simp: pbind_def split: option.splits sum.splits prod.splits)

lemma pure_Inr: "pure r = Some (Inr x, w) \<longleftrightarrow> r = Inr x \<and> w = []"
  by (auto simp: pure_def)

section \<open>Proof modes, programs and the answers of a remote service\<close>

datatype sp1_proof_mode = ModeCore | ModeCompressed | ModePlonk | ModeGroth16

datatype proof_mode = ProtoCore | ProtoCompressed | ProtoPlonk | ProtoGroth16

definition to_proto_proof_mode :: "sp1_proof_mode \<Rightarrow> proof_mode" where
  "to_proto_proof_mode mode =
     (case mode of ModeCore \<Rightarrow> ProtoCore | ModeCompressed \<Rightarrow> ProtoCompressed | ModePlonk \<Rightarrow> ProtoPlonk | ModeGroth16 \<Rightarrow> ProtoGroth16)"

text \<open>The two embedded programs; which range program it is depends on the data availability layer the binary is built for.\<close>

datatype program_elf = RANGE_ELF | AGGREGATION_ELF

record proof_with_public_values =
  pp_proof :: sp1_proof
  pp_content :: "u8 list"
  pp_public_values :: "u8 list"

text \<open>The outcome of a future under \<open>tokio::time::timeout\<close>.\<close>

datatype 'a timed = Answered "string + 'a" | TimedOut

section \<open>The cluster client\<close>

definition timeout_hours :: "u64 \<Rightarrow> u64" where
  "timeout_hours timeout_secs = max (div_ceil timeout_secs 3600) 1"

definition cluster_proof_blocking ::
  "(proof_mode \<Rightarrow> u64 \<Rightarrow> program_elf \<Rightarrow> stdin \<Rightarrow> duration \<Rightarrow> proof_with_public_values timed) \<Rightarrow>
   u64 \<Rightarrow> proof_mode \<Rightarrow> program_elf \<Rightarrow> stdin \<Rightarrow> proof_with_public_values result" where
  "cluster_proof_blocking request_proof_from_env timeout_secs mode elf stdin =
     (case request_proof_from_env mode (timeout_hours timeout_secs) elf stdin (secs timeout_secs) of
        TimedOut \<Rightarrow> Inl (Err ''cluster proof timed out'')
      | Answered (Inl e) \<Rightarrow> Inl (Err (''cluster proof failed: '' @ e))
      | Answered (Inr proof) \<Rightarrow> Inr proof)"

definition cluster_range_proof ::
  "(proof_mode \<Rightarrow> u64 \<Rightarrow> program_elf \<Rightarrow> stdin \<Rightarrow> duration \<Rightarrow> proof_with_public_values timed) \<Rightarrow>
   u64 \<Rightarrow> stdin \<Rightarrow> proof_with_public_values result" where
  "cluster_range_proof request timeout_secs stdin = cluster_proof_blocking request timeout_secs ProtoCompressed RANGE_ELF stdin"

definition cluster_agg_proof ::
  "(proof_mode \<Rightarrow> u64 \<Rightarrow> program_elf \<Rightarrow> stdin \<Rightarrow> duration \<Rightarrow> proof_with_public_values timed) \<Rightarrow>
   u64 \<Rightarrow> sp1_proof_mode \<Rightarrow> stdin \<Rightarrow> proof_with_public_values result" where
  "cluster_agg_proof request timeout_secs agg_mode stdin =
     cluster_proof_blocking request timeout_secs (to_proto_proof_mode agg_mode) AGGREGATION_ELF stdin"

text \<open>The non-blocking interface, used by the validity proposer: submission and polling through the configured artifact store.\<close>

datatype artifact_store_config = Redis "string list" | S3 string string

record cluster_proof_config =
  cc_cluster_rpc :: string
  cc_cluster_access_token :: "string option"
  cc_artifact_store_config :: artifact_store_config

record proof_request_config =
  qc_cluster_rpc :: string
  qc_cluster_access_token :: "string option"
  qc_mode :: proof_mode
  qc_timeout_hours :: u64
  qc_artifact_store :: artifact_store_config

record cluster_env =
  ce_create_request :: "artifact_store_config \<Rightarrow> program_elf \<Rightarrow> stdin \<Rightarrow> proof_request_config \<Rightarrow> string + cluster_proof_request"
  ce_check_proof_status :: "artifact_store_config \<Rightarrow> cluster_proof_request \<Rightarrow> string + proof_with_public_values option"

definition cluster_config_from_env :: "proof_request_config \<Rightarrow> (string + unit) \<Rightarrow> cluster_proof_config result" where
  "cluster_config_from_env config service_client =
     (case service_client of
        Inl e \<Rightarrow> Inl (Err (''failed to create cluster service client: '' @ e))
      | Inr _ \<Rightarrow> Inr \<lparr> cc_cluster_rpc = qc_cluster_rpc config, cc_cluster_access_token = qc_cluster_access_token config,
          cc_artifact_store_config = qc_artifact_store config \<rparr>)"

definition build_request_config :: "cluster_proof_config \<Rightarrow> proof_mode \<Rightarrow> u64 \<Rightarrow> proof_request_config" where
  "build_request_config c mode timeout_secs =
     \<lparr> qc_cluster_rpc = cc_cluster_rpc c, qc_cluster_access_token = cc_cluster_access_token c, qc_mode = mode,
       qc_timeout_hours = timeout_hours timeout_secs, qc_artifact_store = cc_artifact_store_config c \<rparr>"

definition store_create_request :: "cluster_env \<Rightarrow> cluster_proof_config \<Rightarrow> program_elf \<Rightarrow> stdin \<Rightarrow> proof_request_config \<Rightarrow> cluster_proof_request result" where
  "store_create_request env c elf stdin config =
     map_err (\<lambda>e. Err (''cluster proof submit failed: '' @ e)) (ce_create_request env (cc_artifact_store_config c) elf stdin config)"

definition cluster_submit_range_proof :: "cluster_env \<Rightarrow> cluster_proof_config \<Rightarrow> u64 \<Rightarrow> stdin \<Rightarrow> cluster_proof_request result" where
  "cluster_submit_range_proof env c timeout_secs stdin =
     store_create_request env c RANGE_ELF stdin (build_request_config c ProtoCompressed timeout_secs)"

definition cluster_submit_agg_proof :: "cluster_env \<Rightarrow> cluster_proof_config \<Rightarrow> u64 \<Rightarrow> sp1_proof_mode \<Rightarrow> stdin \<Rightarrow> cluster_proof_request result" where
  "cluster_submit_agg_proof env c timeout_secs agg_mode stdin =
     store_create_request env c AGGREGATION_ELF stdin (build_request_config c (to_proto_proof_mode agg_mode) timeout_secs)"

definition store_check_proof_status :: "cluster_env \<Rightarrow> cluster_proof_config \<Rightarrow> cluster_proof_request \<Rightarrow> proof_with_public_values option result" where
  "store_check_proof_status env c proof_request =
     map_err (\<lambda>e. Err (''cluster proof poll failed: '' @ e)) (ce_check_proof_status env (cc_artifact_store_config c) proof_request)"

definition cluster_poll_proof :: "cluster_env \<Rightarrow> cluster_proof_config \<Rightarrow> cluster_proof_request \<Rightarrow> proof_with_public_values option result" where
  "cluster_poll_proof env c proof_request = store_check_proof_status env c proof_request"

section \<open>Checks of a pending proof\<close>

definition PROOF_STATUS_POLL_INTERVAL :: u64 where
  "PROOF_STATUS_POLL_INTERVAL = 2"

definition current_timestamp :: "int \<Rightarrow> u64 result" where
  "current_timestamp clock = (if clock < 0 then Inl (Panic ''System time before Unix epoch'') else Inr (word_of_int clock))"

datatype proving_timeout = TimeoutOk | TimeoutExceeded nat

definition check_timeout :: "duration \<Rightarrow> duration \<Rightarrow> proving_timeout" where
  "check_timeout elapsed timeout = (if elapsed > timeout then TimeoutExceeded (as_secs elapsed) else TimeoutOk)"

text \<open>The codes of the fulfillment statuses the code names, as the SDK's generated enumeration numbers them.\<close>

record fulfillment_codes =
  fc_requested :: int
  fc_fulfilled :: int
  fc_unfulfillable :: int

datatype auction_timeout = AuctionOk | AuctionSkip | AuctionExceeded u64

definition check_auction :: "fulfillment_codes \<Rightarrow> bool \<Rightarrow> int \<Rightarrow> u64 \<Rightarrow> u64 \<Rightarrow> u64 \<Rightarrow> auction_timeout" where
  "check_auction codes is_mainnet fulfillment_status created_at timeout current_time =
     (if \<not> is_mainnet then AuctionSkip
      else if fulfillment_status \<noteq> fc_requested codes then AuctionSkip
      else let deadline = created_at + timeout in
        if current_time > deadline then AuctionExceeded (current_time - created_at) else AuctionOk)"

datatype deadline_check = DeadlineOk | DeadlineExceeded u64

definition check_deadline :: "u64 \<Rightarrow> u64 \<Rightarrow> deadline_check" where
  "check_deadline deadline current_time = (if current_time \<ge> deadline then DeadlineExceeded deadline else DeadlineOk)"

datatype pending_status = ProofReady | ProofFailed | ProofPending

definition check_status :: "fulfillment_codes \<Rightarrow> int \<Rightarrow> pending_status" where
  "check_status codes status =
     (if status = fc_fulfilled codes then ProofReady else if status = fc_unfulfillable codes then ProofFailed else ProofPending)"

section \<open>The network provider\<close>

datatype fulfillment_strategy = UnspecifiedFulfillmentStrategy | Hosted | Reserved | Auction

record proof_provider_config =
  pc_timeout :: u64
  pc_network_calls_timeout :: u64
  pc_auction_timeout :: u64
  pc_range_proof_strategy :: fulfillment_strategy
  pc_agg_proof_strategy :: fulfillment_strategy
  pc_agg_proof_mode :: sp1_proof_mode
  pc_range_cycle_limit :: u64
  pc_range_gas_limit :: u64
  pc_agg_cycle_limit :: u64
  pc_agg_gas_limit :: u64
  pc_max_price_per_pgu :: u64
  pc_min_auction_period :: u64
  pc_whitelist :: "address list option"
  pc_private_stdin :: bool

text \<open>What the request builder of the SDK is given; simulation is skipped for range proofs only.\<close>

record prove_request =
  pq_elf :: program_elf
  pq_stdin :: stdin
  pq_mode :: sp1_proof_mode
  pq_skip_simulation :: bool
  pq_strategy :: fulfillment_strategy
  pq_timeout :: duration
  pq_min_auction_period :: u64
  pq_max_price_per_pgu :: u64
  pq_cycle_limit :: u64
  pq_gas_limit :: u64
  pq_private_stdin :: bool
  pq_whitelist :: "address list option"

definition range_prove_request :: "proof_provider_config \<Rightarrow> stdin \<Rightarrow> prove_request" where
  "range_prove_request c stdin =
     \<lparr> pq_elf = RANGE_ELF, pq_stdin = stdin, pq_mode = ModeCompressed, pq_skip_simulation = True, pq_strategy = pc_range_proof_strategy c,
       pq_timeout = secs (pc_timeout c), pq_min_auction_period = pc_min_auction_period c, pq_max_price_per_pgu = pc_max_price_per_pgu c,
       pq_cycle_limit = pc_range_cycle_limit c, pq_gas_limit = pc_range_gas_limit c, pq_private_stdin = pc_private_stdin c,
       pq_whitelist = pc_whitelist c \<rparr>"

definition agg_prove_request :: "proof_provider_config \<Rightarrow> stdin \<Rightarrow> prove_request" where
  "agg_prove_request c stdin =
     \<lparr> pq_elf = AGGREGATION_ELF, pq_stdin = stdin, pq_mode = pc_agg_proof_mode c, pq_skip_simulation = False, pq_strategy = pc_agg_proof_strategy c,
       pq_timeout = secs (pc_timeout c), pq_min_auction_period = pc_min_auction_period c, pq_max_price_per_pgu = pc_max_price_per_pgu c,
       pq_cycle_limit = pc_agg_cycle_limit c, pq_gas_limit = pc_agg_gas_limit c, pq_private_stdin = pc_private_stdin c,
       pq_whitelist = pc_whitelist c \<rparr>"

text \<open>What one pass of the waiting loop observes: the time since its start, the two network calls, and the wall clock in seconds.\<close>

record network_status =
  ns_deadline :: u64
  ns_fulfillment_status :: int

record request_details =
  rd_fulfillment_status :: int
  rd_created_at :: u64

record poll =
  po_elapsed :: duration
  po_status :: "(network_status \<times> proof_with_public_values option) timed"
  po_request :: "request_details option timed"
  po_clock :: int

definition call_with_timeout :: "'a timed \<Rightarrow> 'a result" where
  "call_with_timeout future =
     (case future of
        Answered (Inr x) \<Rightarrow> Inr x
      | Answered (Inl e) \<Rightarrow> Inl (Err e)
      | TimedOut \<Rightarrow> Inl (Err ''Network timeout''))"

datatype poll_outcome = Again | Finish "proof_with_public_values result" "proving_effect list"

definition poll_once :: "proof_provider_config \<Rightarrow> fulfillment_codes \<Rightarrow> bool \<Rightarrow> b256 \<Rightarrow> poll \<Rightarrow> poll_outcome" where
  "poll_once c codes is_mainnet proof_id p =
     (case check_timeout (po_elapsed p) (secs (pc_timeout c)) of
        TimeoutExceeded _ \<Rightarrow> Finish (Inl (Err ''Proving timeout'')) []
      | TimeoutOk \<Rightarrow>
          (case call_with_timeout (po_status p) of
             Inl _ \<Rightarrow> Again
           | Inr (status, proof) \<Rightarrow>
               (case call_with_timeout (po_request p) of
                  Inl _ \<Rightarrow> Again
                | Inr request_details \<Rightarrow>
                    (case current_timestamp (po_clock p) of
                       Inl e \<Rightarrow> Finish (Inl e) []
                     | Inr current_time \<Rightarrow>
                         (case (case request_details of
                                  None \<Rightarrow> AuctionSkip
                                | Some d \<Rightarrow> check_auction codes is_mainnet (rd_fulfillment_status d) (rd_created_at d) (pc_auction_timeout c) current_time) of
                            AuctionExceeded _ \<Rightarrow> Finish (Inl (Err ''Auction timeout'')) [CancelRequest proof_id]
                          | _ \<Rightarrow>
                              (case check_deadline (ns_deadline status) current_time of
                                 DeadlineExceeded _ \<Rightarrow> Finish (Inl (Err ''Deadline exceeded'')) []
                               | DeadlineOk \<Rightarrow>
                                   (case check_status codes (ns_fulfillment_status status) of
                                      ProofReady \<Rightarrow> Finish (ok_or ''Proof status is fulfilled but proof is None'' proof) []
                                    | ProofFailed \<Rightarrow> Finish (Inl (Err ''Proving failed'')) []
                                    | ProofPending \<Rightarrow> Again)))))))"

partial_function (option) wait_loop ::
  "proof_provider_config \<Rightarrow> fulfillment_codes \<Rightarrow> bool \<Rightarrow> b256 \<Rightarrow> (nat \<Rightarrow> poll) \<Rightarrow> nat \<Rightarrow> proof_with_public_values proving" where
  "wait_loop c codes is_mainnet proof_id polls n =
     (case poll_once c codes is_mainnet proof_id (polls n) of
        Finish r w \<Rightarrow> Some (r, w)
      | Again \<Rightarrow> wait_loop c codes is_mainnet proof_id polls (Suc n))"

declare wait_loop.simps [code]

definition wait_for_proof ::
  "proof_provider_config \<Rightarrow> fulfillment_codes \<Rightarrow> bool \<Rightarrow> b256 \<Rightarrow> (nat \<Rightarrow> poll) \<Rightarrow> proof_with_public_values proving" where
  "wait_for_proof c codes is_mainnet proof_id polls = wait_loop c codes is_mainnet proof_id polls 0"

section \<open>The providers\<close>

record proof_keys =
  pk_range_vk :: "u32 list"
  pk_agg_vk :: "u32 list"

datatype proof_provider =
  NetworkProvider proof_keys proof_provider_config bool
| MockProvider proof_keys proof_provider_config
| ClusterProvider proof_keys proof_provider_config

fun provider_keys :: "proof_provider \<Rightarrow> proof_keys" where
  "provider_keys (NetworkProvider keys _ _) = keys"
| "provider_keys (MockProvider keys _) = keys"
| "provider_keys (ClusterProvider keys _) = keys"

fun provider_config :: "proof_provider \<Rightarrow> proof_provider_config" where
  "provider_config (NetworkProvider _ c _) = c"
| "provider_config (MockProvider _ c) = c"
| "provider_config (ClusterProvider _ c) = c"

text \<open>The SDK: submitting a request, the polls it answers, executing a program (public values, cycles, gas), a mock proof for
  a key, and the cluster's blocking call.\<close>

record sdk_env =
  sdk_request :: "prove_request \<Rightarrow> string + b256"
  sdk_polls :: "b256 \<Rightarrow> nat \<Rightarrow> poll"
  sdk_codes :: fulfillment_codes
  sdk_execute :: "program_elf \<Rightarrow> stdin \<Rightarrow> string + (u8 list \<times> u64 \<times> u64 option)"
  create_mock_proof :: "u32 list \<Rightarrow> u8 list \<Rightarrow> sp1_proof_mode \<Rightarrow> proof_with_public_values"
  request_proof_from_env :: "proof_mode \<Rightarrow> u64 \<Rightarrow> program_elf \<Rightarrow> stdin \<Rightarrow> duration \<Rightarrow> proof_with_public_values timed"

definition network_request :: "sdk_env \<Rightarrow> prove_request \<Rightarrow> b256 result" where
  "network_request env q = map_err Err (sdk_request env q)"

definition network_generate_range_proof ::
  "sdk_env \<Rightarrow> proof_provider_config \<Rightarrow> bool \<Rightarrow> stdin \<Rightarrow> (proof_with_public_values \<times> u64 \<times> u64) proving" where
  "network_generate_range_proof env c is_mainnet stdin =
     pbind (pure (network_request env (range_prove_request c stdin))) (\<lambda>proof_id.
     pbind (wait_for_proof c (sdk_codes env) is_mainnet proof_id (sdk_polls env proof_id)) (\<lambda>proof.
     pure (Inr (proof, 0, 0))))"

definition network_generate_agg_proof ::
  "sdk_env \<Rightarrow> proof_provider_config \<Rightarrow> bool \<Rightarrow> stdin \<Rightarrow> proof_with_public_values proving" where
  "network_generate_agg_proof env c is_mainnet stdin =
     pbind (pure (network_request env (agg_prove_request c stdin))) (\<lambda>proof_id.
     wait_for_proof c (sdk_codes env) is_mainnet proof_id (sdk_polls env proof_id))"

definition mock_generate_range_proof :: "sdk_env \<Rightarrow> proof_keys \<Rightarrow> stdin \<Rightarrow> (proof_with_public_values \<times> u64 \<times> u64) result" where
  "mock_generate_range_proof env keys stdin =
     try_bind (map_err (\<lambda>_. Err ''Mock range proof execution failed'') (sdk_execute env RANGE_ELF stdin)) (\<lambda>(public_values, cycles, gas).
     Inr (create_mock_proof env (pk_range_vk keys) public_values ModeCompressed, cycles, case gas of None \<Rightarrow> 0 | Some g \<Rightarrow> g))"

definition mock_generate_agg_proof :: "sdk_env \<Rightarrow> proof_keys \<Rightarrow> proof_provider_config \<Rightarrow> stdin \<Rightarrow> proof_with_public_values result" where
  "mock_generate_agg_proof env keys c stdin =
     try_bind (map_err (\<lambda>_. Err ''Mock aggregation proof execution failed'') (sdk_execute env AGGREGATION_ELF stdin)) (\<lambda>(public_values, _, _).
     Inr (create_mock_proof env (pk_agg_vk keys) public_values (pc_agg_proof_mode c)))"

definition cluster_generate_range_proof :: "sdk_env \<Rightarrow> proof_provider_config \<Rightarrow> stdin \<Rightarrow> (proof_with_public_values \<times> u64 \<times> u64) result" where
  "cluster_generate_range_proof env c stdin =
     try_bind (cluster_range_proof (request_proof_from_env env) (pc_timeout c) stdin) (\<lambda>proof. Inr (proof, 0, 0))"

definition cluster_generate_agg_proof :: "sdk_env \<Rightarrow> proof_provider_config \<Rightarrow> stdin \<Rightarrow> proof_with_public_values result" where
  "cluster_generate_agg_proof env c stdin =
     cluster_agg_proof (request_proof_from_env env) (pc_timeout c) (pc_agg_proof_mode c) stdin"

definition generate_range_proof :: "sdk_env \<Rightarrow> proof_provider \<Rightarrow> stdin \<Rightarrow> (proof_with_public_values \<times> u64 \<times> u64) proving" where
  "generate_range_proof env provider stdin =
     (case provider of
        NetworkProvider keys c is_mainnet \<Rightarrow> network_generate_range_proof env c is_mainnet stdin
      | MockProvider keys c \<Rightarrow> pure (mock_generate_range_proof env keys stdin)
      | ClusterProvider keys c \<Rightarrow> pure (cluster_generate_range_proof env c stdin))"

definition generate_agg_proof :: "sdk_env \<Rightarrow> proof_provider \<Rightarrow> stdin \<Rightarrow> proof_with_public_values proving" where
  "generate_agg_proof env provider stdin =
     (case provider of
        NetworkProvider keys c is_mainnet \<Rightarrow> network_generate_agg_proof env c is_mainnet stdin
      | MockProvider keys c \<Rightarrow> pure (mock_generate_agg_proof env keys c stdin)
      | ClusterProvider keys c \<Rightarrow> pure (cluster_generate_agg_proof env c stdin))"

section \<open>Proving a game\<close>

text \<open>The host's arguments and witness data are opaque; \<open>read_boot_info\<close> decodes public values, \<open>proof_bytes\<close> encodes a proof for the contract, and
  \<open>send_prove\<close> sends the prove transaction and gives the receipt's hash and status.\<close>

record ('args, 'wit) proving_env =
  pe_l1_head :: "address \<Rightarrow> b256 result"
  pe_host_fetch :: "u64 \<Rightarrow> u64 \<Rightarrow> b256 option \<Rightarrow> bool \<Rightarrow> 'args result"
  pe_host_run :: "'args \<Rightarrow> 'wit result"
  pe_get_sp1_stdin :: "'wit \<Rightarrow> stdin result"
  pe_sdk :: sdk_env
  read_boot_info :: "u8 list \<Rightarrow> boot_info_struct option"
  pe_headers :: l1_headers
  pe_signer :: address
  proof_bytes :: "proof_with_public_values \<Rightarrow> u8 list"
  send_prove :: "address \<Rightarrow> u8 list \<Rightarrow> (b256 \<times> bool) result"

record proving_config =
  pv_range_split_count :: range_split_count
  pv_safe_db_fallback :: bool
  pv_provider :: proof_provider

text \<open>Witness generation runs in a task of its own, so its panic is an error here.\<close>

definition range_proof_stdin ::
  "proving_config \<Rightarrow> ('args, 'wit) proving_env \<Rightarrow> u64 \<Rightarrow> u64 \<Rightarrow> b256 \<Rightarrow> stdin result" where
  "range_proof_stdin cfg env start_block end_block l1_head_hash =
     try_bind (pe_host_fetch env start_block end_block (Some l1_head_hash) (pv_safe_db_fallback cfg)) (\<lambda>host_args.
     external (try_bind (pe_host_run env host_args) (\<lambda>witness_data. pe_get_sp1_stdin env witness_data)))"

definition range_task ::
  "proving_config \<Rightarrow> ('args, 'wit) proving_env \<Rightarrow> b256 \<Rightarrow> (u64 \<times> u64) list \<Rightarrow> nat \<Rightarrow> (nat \<times> proof_with_public_values \<times> u64 \<times> u64) proving" where
  "range_task cfg env l1_head_hash ranges idx =
     pbind (pure (range_proof_stdin cfg env (fst (ranges ! idx)) (snd (ranges ! idx)) l1_head_hash)) (\<lambda>sp1_stdin.
     pbind (generate_range_proof (pe_sdk env) (pv_provider cfg) sp1_stdin) (\<lambda>(range_proof, inst_cycles, sp1_gas).
     pure (Inr (idx, range_proof, inst_cycles, sp1_gas))))"

text \<open>\<open>buffer_unordered\<close> and \<open>try_collect\<close>: results in the order of completion, up to the first failure.\<close>

fun try_collect :: "(nat \<Rightarrow> 'a proving) \<Rightarrow> nat list \<Rightarrow> 'a list proving" where
  "try_collect task [] = pure (Inr [])"
| "try_collect task (i # is) = pbind (task i) (\<lambda>x. pbind (try_collect task is) (\<lambda>xs. pure (Inr (x # xs))))"

fun place_results ::
  "(u8 list \<Rightarrow> boot_info_struct option) \<Rightarrow> (nat \<times> proof_with_public_values \<times> u64 \<times> u64) list \<Rightarrow>
   sp1_proof option list \<Rightarrow> boot_info_struct option list \<Rightarrow> u64 \<Rightarrow> u64 \<Rightarrow>
   (sp1_proof option list \<times> boot_info_struct option list \<times> u64 \<times> u64) result" where
  "place_results read_pv [] proofs boot_infos cycles gas = Inr (proofs, boot_infos, cycles, gas)"
| "place_results read_pv ((idx, range_proof, inst_cycles, sp1_gas) # results) proofs boot_infos cycles gas =
     (case read_pv (pp_public_values range_proof) of
        None \<Rightarrow> Inl (Panic ''failed to deserialize public values'')
      | Some boot_info \<Rightarrow>
          if idx \<ge> length proofs then Inl (Panic ''index out of bounds'') else
          try_bind (ok_or ''Instruction cycles overflow'' (checked_add cycles inst_cycles)) (\<lambda>cycles'.
          try_bind (ok_or ''SP1 gas overflow'' (checked_add gas sp1_gas)) (\<lambda>gas'.
          place_results read_pv results (proofs[idx := Some (pp_proof range_proof)]) (boot_infos[idx := Some boot_info]) cycles' gas')))"

definition submit_prove :: "('args, 'wit) proving_env \<Rightarrow> address \<Rightarrow> proof_with_public_values \<Rightarrow> b256 proving" where
  "submit_prove env game_address agg_proof =
     (let bytes = proof_bytes env agg_proof in
      pbind (emit (ProveTx game_address bytes) (send_prove env game_address bytes)) (\<lambda>(transaction_hash, status).
      pure (if \<not> status then Inl (Err ''transaction reverted'') else Inr transaction_hash)))"

definition agg_stdin ::
  "proving_config \<Rightarrow> ('args, 'wit) proving_env \<Rightarrow> sp1_proof list \<Rightarrow> boot_info_struct list \<Rightarrow> stdin result" where
  "agg_stdin cfg env proofs boot_infos =
     try_bind (if boot_infos = [] then Inl (Err ''No boot infos generated'') else Inr (bis_l1Head (last boot_infos))) (\<lambda>latest_l1_head.
     try_bind (get_header_preimages (pe_headers env) boot_infos latest_l1_head) (\<lambda>headers.
     try_bind (get_agg_proof_stdin proofs boot_infos headers (pk_range_vk (provider_keys (pv_provider cfg))) latest_l1_head (pe_signer env))
       (\<lambda>(inputs, headers). Inr (AggStdin inputs headers))))"

definition prove_game ::
  "proving_config \<Rightarrow> ('args, 'wit) proving_env \<Rightarrow> (nat \<Rightarrow> nat list) \<Rightarrow> address \<Rightarrow> u64 \<Rightarrow> u64 \<Rightarrow> (b256 \<times> u64 \<times> u64) proving" where
  "prove_game cfg env completion game_address start_block end_block =
     pbind (pure (pe_l1_head env game_address)) (\<lambda>l1_head_hash.
     pbind (pure (range_split (pv_range_split_count cfg) start_block end_block)) (\<lambda>ranges.
     let num_ranges = length ranges in
     pbind (try_collect (range_task cfg env l1_head_hash ranges) (completion num_ranges)) (\<lambda>results.
     pbind (pure (place_results (read_boot_info env) results (replicate num_ranges None) (replicate num_ranges None) 0 0))
       (\<lambda>(proofs, boot_infos, total_instruction_cycles, total_sp1_gas).
     pbind (pure (try_map (ok_or ''missing proof for range index'') proofs)) (\<lambda>proofs.
     pbind (pure (try_map (ok_or ''missing boot info for range index'') boot_infos)) (\<lambda>boot_infos.
     pbind (pure (agg_stdin cfg env proofs boot_infos)) (\<lambda>sp1_stdin.
     pbind (generate_agg_proof (pe_sdk env) (pv_provider cfg) sp1_stdin) (\<lambda>agg_proof.
     pbind (submit_prove env game_address agg_proof) (\<lambda>transaction_hash.
     pure (Inr (transaction_hash, total_instruction_cycles, total_sp1_gas)))))))))))"

section \<open>Waiting for the network\<close>

text \<open>A poll that delivers: the timeout has not passed, both calls are answered, the request is not stuck in a finished auction, its deadline
  lies ahead, and it is fulfilled with a proof.\<close>

definition stuck_in_auction :: "proof_provider_config \<Rightarrow> fulfillment_codes \<Rightarrow> bool \<Rightarrow> poll \<Rightarrow> bool" where
  "stuck_in_auction c codes is_mainnet p \<longleftrightarrow>
     is_mainnet \<and> (\<exists>d. po_request p = Answered (Inr (Some d)) \<and> rd_fulfillment_status d = fc_requested codes \<and>
       rd_created_at d + pc_auction_timeout c < word_of_int (po_clock p))"

definition observed :: "proof_provider_config \<Rightarrow> poll \<Rightarrow> network_status \<Rightarrow> proof_with_public_values option \<Rightarrow> bool" where
  "observed c p status proof \<longleftrightarrow> po_elapsed p \<le> secs (pc_timeout c) \<and> po_status p = Answered (Inr (status, proof)) \<and>
     (\<exists>d. po_request p = Answered (Inr d)) \<and> po_clock p \<ge> 0"

definition delivers :: "proof_provider_config \<Rightarrow> fulfillment_codes \<Rightarrow> bool \<Rightarrow> poll \<Rightarrow> proof_with_public_values \<Rightarrow> bool" where
  "delivers c codes is_mainnet p proof \<longleftrightarrow> (\<exists>status. observed c p status (Some proof) \<and> \<not> stuck_in_auction c codes is_mainnet p \<and>
     word_of_int (po_clock p) < ns_deadline status \<and> ns_fulfillment_status status = fc_fulfilled codes)"

lemma call_with_timeout_Inr: "call_with_timeout f = Inr x \<longleftrightarrow> f = Answered (Inr x)"
  by (auto simp: call_with_timeout_def split: timed.splits sum.splits)

lemma poll_exceeded: "secs (pc_timeout c) < po_elapsed p \<Longrightarrow> poll_once c codes m i p = Finish (Inl (Err ''Proving timeout'')) []"
  by (simp add: poll_once_def check_timeout_def)

lemmas poll_defs = poll_once_def check_timeout_def current_timestamp_def check_auction_def check_deadline_def check_status_def Let_def

lemma poll_unanswered:
  assumes "\<nexists>status proof. observed c p status proof" "poll_once c codes m i p = Finish r w"
  shows "w = [] \<and> (\<exists>e. r = Inl e)"
  using assms
  by (auto simp: poll_defs observed_def call_with_timeout_Inr [symmetric] split: sum.splits prod.splits if_splits)

lemma poll_answered:
  assumes "observed c p status proof"
  shows "poll_once c codes m i p =
    (if stuck_in_auction c codes m p then Finish (Inl (Err ''Auction timeout'')) [CancelRequest i]
     else if ns_deadline status \<le> word_of_int (po_clock p) then Finish (Inl (Err ''Deadline exceeded'')) []
     else if ns_fulfillment_status status = fc_fulfilled codes then Finish (ok_or ''Proof status is fulfilled but proof is None'' proof) []
     else if ns_fulfillment_status status = fc_unfulfillable codes then Finish (Inl (Err ''Proving failed'')) [] else Again)"
  using assms
  by (auto simp: poll_defs observed_def stuck_in_auction_def call_with_timeout_Inr [symmetric] split: option.splits if_splits)

lemma poll_delivers: "poll_once c codes m i p = Finish (Inr proof) w \<longleftrightarrow> w = [] \<and> delivers c codes m p proof"
proof (cases "\<exists>status x. observed c p status x")
  case True
  then obtain status x where obs: "observed c p status x" by blast
  have "observed c p status' x' \<longleftrightarrow> status' = status \<and> x' = x" for status' x' using obs by (auto simp: observed_def)
  then show ?thesis by (auto simp: poll_answered [OF obs] delivers_def ok_or_def not_less split: option.splits)
next
  case False
  then show ?thesis using poll_unanswered [of c p codes m i "Inr proof" w] by (auto simp: delivers_def)
qed

lemma poll_cancels:
  assumes "poll_once c codes m i p = Finish r w" "w \<noteq> []"
  shows "w = [CancelRequest i] \<and> r = Inl (Err ''Auction timeout'') \<and> stuck_in_auction c codes m p"
proof -
  obtain status x where obs: "observed c p status x" using poll_unanswered [OF _ assms(1)] assms(2) by blast
  with assms show ?thesis by (auto simp: poll_answered [OF obs] split: if_splits)
qed

lemma wait_loop_finish:
  assumes "poll_once c codes m i (polls (n + k)) = Finish r w" "\<forall>j < k. poll_once c codes m i (polls (n + j)) = Again"
  shows "wait_loop c codes m i polls n = Some (r, w)"
  using assms
proof (induction k arbitrary: n)
  case 0
  then show ?case by (simp add: wait_loop.simps)
next
  case (Suc k)
  have "wait_loop c codes m i polls (Suc n) = Some (r, w)"
  proof (rule Suc.IH)
    show "poll_once c codes m i (polls (Suc n + k)) = Finish r w" using Suc.prems(1) by simp
    show "\<forall>j < k. poll_once c codes m i (polls (Suc n + j)) = Again"
      using Suc.prems(2) by (metis Suc_mono add_Suc_right add_Suc)
  qed
  moreover have "poll_once c codes m i (polls n) = Again" using Suc.prems(2) by (metis add_0_right zero_less_Suc)
  ultimately show ?case by (simp add: wait_loop.simps [of c codes m i polls n])
qed

lemma wait_loop_Some:
  "wait_loop c codes m i polls n = Some y \<Longrightarrow>
    \<exists>k. poll_once c codes m i (polls (n + k)) = Finish (fst y) (snd y) \<and> (\<forall>j < k. poll_once c codes m i (polls (n + j)) = Again)"
proof (induction rule: wait_loop.raw_induct [rotated 1, consumes 1])
  case (1 wl c codes m i polls n y)
  show ?case
  proof (cases "poll_once c codes m i (polls n)")
    case (Finish r w)
    with 1(2) show ?thesis by (intro exI [of _ 0]) auto
  next
    case Again
    with 1(2) have "wl c codes m i polls (Suc n) = Some y" by simp
    from 1(1) [OF this] obtain k where k: "poll_once c codes m i (polls (Suc n + k)) = Finish (fst y) (snd y)"
      "\<forall>j < k. poll_once c codes m i (polls (Suc n + j)) = Again" by blast
    have "poll_once c codes m i (polls (n + j)) = Again" if "j < Suc k" for j
      using that Again k(2) by (cases j) auto
    with k(1) show ?thesis by (intro exI [of _ "Suc k"]) simp
  qed
qed

definition clock_advances :: "(nat \<Rightarrow> poll) \<Rightarrow> bool" where
  "clock_advances polls \<longleftrightarrow> (\<forall>n. po_elapsed (polls n) + secs PROOF_STATUS_POLL_INTERVAL \<le> po_elapsed (polls (Suc n)))"

lemma clock_elapsed: "clock_advances polls \<Longrightarrow> n * 2000000000 \<le> po_elapsed (polls n)"
proof (induction n)
  case (Suc n)
  then have "po_elapsed (polls n) + 2000000000 \<le> po_elapsed (polls (Suc n))"
    by (simp add: clock_advances_def PROOF_STATUS_POLL_INTERVAL_def secs_def)
  with Suc show ?case by simp
qed simp

text \<open>C23: Waiting for a proof ends. Whatever the prover network answers, as long as the sleeps between polls pass, the loop returns at the latest at the first
  poll after the proving timeout; up to then every poll said to go on.\<close>

theorem wait_for_proof_returns:
  assumes "clock_advances polls"
  shows "\<exists>k r w. k \<le> Suc (unat (pc_timeout c) div 2) \<and> wait_for_proof c codes is_mainnet proof_id polls = Some (r, w) \<and>
    poll_once c codes is_mainnet proof_id (polls k) = Finish r w \<and> (\<forall>j < k. poll_once c codes is_mainnet proof_id (polls j) = Again)"
proof -
  let ?poll = "\<lambda>n. poll_once c codes is_mainnet proof_id (polls n)" and ?n = "Suc (unat (pc_timeout c) div 2)"
  have half: "t < 2 * Suc (t div 2)" for t :: nat by simp
  have "secs (pc_timeout c) < ?n * 2000000000" using half [of "unat (pc_timeout c)"] unfolding secs_def by linarith
  also have "\<dots> \<le> po_elapsed (polls ?n)" using assms by (rule clock_elapsed)
  finally have "?poll ?n = Finish (Inl (Err ''Proving timeout'')) []" by (rule poll_exceeded)
  then have last: "?poll ?n \<noteq> Again" by simp
  let ?k = "LEAST n. ?poll n \<noteq> Again"
  have le: "?k \<le> ?n" using last by (rule Least_le)
  have "?poll ?k \<noteq> Again" using last by (rule LeastI)
  then obtain r w where fin: "?poll ?k = Finish r w" by (cases "?poll ?k") auto
  moreover have before: "\<forall>j < ?k. ?poll j = Again" using not_less_Least by blast
  ultimately have "wait_for_proof c codes is_mainnet proof_id polls = Some (r, w)"
    unfolding wait_for_proof_def by (intro wait_loop_finish [where k = ?k]) (simp_all only: add_0)
  with le fin before show ?thesis by (intro exI [of _ ?k] exI [of _ r] exI [of _ w] conjI)
qed

text \<open>C24: What waiting returns. A proof comes back exactly when some poll delivers it while every earlier one said to go on, and then nothing was
  cancelled; a request is cancelled only when, on mainnet, no prover had taken it by the end of the auction, and then the wait fails.\<close>

theorem wait_for_proof_exact:
  "(wait_for_proof c codes is_mainnet proof_id polls = Some (Inr proof, w) \<longleftrightarrow>
      w = [] \<and> (\<exists>k. delivers c codes is_mainnet (polls k) proof \<and> (\<forall>j < k. poll_once c codes is_mainnet proof_id (polls j) = Again))) \<and>
   (wait_for_proof c codes is_mainnet proof_id polls = Some (r, e # es) \<longrightarrow>
      e = CancelRequest proof_id \<and> es = [] \<and> r = Inl (Err ''Auction timeout'') \<and> (\<exists>k. stuck_in_auction c codes is_mainnet (polls k)))"
proof (intro conjI iffI impI)
  let ?poll = "\<lambda>n. poll_once c codes is_mainnet proof_id (polls n)"
  note some = wait_loop_Some [where n = 0, unfolded add_0, folded wait_for_proof_def]
  {
    assume w: "wait_for_proof c codes is_mainnet proof_id polls = Some (Inr proof, w)"
    from some [OF this] obtain k where "?poll k = Finish (Inr proof) w" "\<forall>j < k. ?poll j = Again" by auto
    then show "w = []" "\<exists>k. delivers c codes is_mainnet (polls k) proof \<and> (\<forall>j < k. ?poll j = Again)"
      by (auto simp: poll_delivers)
  next
    assume "w = [] \<and> (\<exists>k. delivers c codes is_mainnet (polls k) proof \<and> (\<forall>j < k. ?poll j = Again))"
    then obtain k where "?poll k = Finish (Inr proof) w" "\<forall>j < k. ?poll j = Again" by (auto simp: poll_delivers)
    then show "wait_for_proof c codes is_mainnet proof_id polls = Some (Inr proof, w)"
      unfolding wait_for_proof_def by (intro wait_loop_finish [where k = k]) simp_all
  next
    assume w: "wait_for_proof c codes is_mainnet proof_id polls = Some (r, e # es)"
    from some [OF this] obtain k where "?poll k = Finish r (e # es)" by auto
    from poll_cancels [OF this] show "e = CancelRequest proof_id" "es = []" "r = Inl (Err ''Auction timeout'')"
      "\<exists>k. stuck_in_auction c codes is_mainnet (polls k)" by auto
  }
qed

section \<open>Range proofs in any order\<close>

lemma wait_for_proof_quiet: "wait_for_proof c codes m i polls = Some (Inr x, w) \<Longrightarrow> w = []"
  using wait_loop_Some [of c codes m i polls 0 "(Inr x, w)"] by (auto simp: wait_for_proof_def poll_delivers)

lemma generate_range_proof_quiet: "generate_range_proof env provider stdin = Some (Inr x, w) \<Longrightarrow> w = []"
  by (cases provider) (auto simp: generate_range_proof_def network_generate_range_proof_def pbind_Inr pure_Inr dest: wait_for_proof_quiet)

lemma range_task_Inr:
  assumes "range_task cfg env h ranges i = Some (Inr x, w)"
  shows "w = []" "fst x = i"
  using assms by (auto simp: range_task_def pbind_Inr pure_Inr split: prod.splits dest: generate_range_proof_quiet)

definition got :: "(nat \<Rightarrow> 'a proving) \<Rightarrow> nat \<Rightarrow> 'a" where
  "got task i = projr (fst (the (task i)))"

lemma try_collect_Inr:
  assumes "\<And>i x w. task i = Some (Inr x, w) \<Longrightarrow> w = []"
  shows "try_collect task is = Some (Inr xs, w) \<longleftrightarrow>
    w = [] \<and> (\<forall>i \<in> set is. task i = Some (Inr (got task i), [])) \<and> xs = map (got task) is"
proof (induction "is" arbitrary: xs w)
  case (Cons i "is")
  show ?case
  proof (cases "\<exists>x u. task i = Some (Inr x, u)")
    case True
    then obtain x where x: "task i = Some (Inr x, [])" using assms by blast
    then show ?thesis by (auto simp: pbind_Inr pure_Inr Cons got_def)
  next
    case False
    then show ?thesis by (auto simp: pbind_Inr)
  qed
qed (auto simp: pure_Inr)

type_synonym range_result = "nat \<times> proof_with_public_values \<times> u64 \<times> u64"

abbreviation rr_proof :: "range_result \<Rightarrow> proof_with_public_values" where "rr_proof r \<equiv> fst (snd r)"
abbreviation rr_cycles :: "range_result \<Rightarrow> u64" where "rr_cycles r \<equiv> fst (snd (snd r))"
abbreviation rr_gas :: "range_result \<Rightarrow> u64" where "rr_gas r \<equiv> snd (snd (snd r))"

lemma checked_add_Inr: "ok_or m (checked_add a b) = Inr x \<longleftrightarrow> unat a + unat b < 2 ^ LENGTH('a) \<and> x = a + b" for a b :: "'a::len word"
  by (auto simp: checked_add_def ok_or_def)

lemma unat_add_fits: "unat a + unat b < 2 ^ 64 \<Longrightarrow> unat (a + b) = unat a + unat b" for a b :: u64
  by (simp add: unat_word_ariths)

lemma place_results_Inr:
  "place_results rd rs ps bs c g = Inr out \<longleftrightarrow>
     (\<forall>r \<in> set rs. rd (pp_public_values (rr_proof r)) \<noteq> None \<and> fst r < length ps) \<and>
     unat c + (\<Sum>r \<leftarrow> rs. unat (rr_cycles r)) < 2 ^ 64 \<and> unat g + (\<Sum>r \<leftarrow> rs. unat (rr_gas r)) < 2 ^ 64 \<and>
     out = (fold (\<lambda>r ps. ps[fst r := Some (pp_proof (rr_proof r))]) rs ps,
            fold (\<lambda>r bs. bs[fst r := rd (pp_public_values (rr_proof r))]) rs bs,
            c + of_nat (\<Sum>r \<leftarrow> rs. unat (rr_cycles r)), g + of_nat (\<Sum>r \<leftarrow> rs. unat (rr_gas r)))"
proof (induction rs arbitrary: ps bs c g)
  case Nil
  show ?case using unat_u64_bound [of c] unat_u64_bound [of g] by auto
next
  case (Cons r rs)
  obtain i p cy ga where r: "r = (i, p, cy, ga)" by (cases r)
  show ?case
  proof (cases "rd (pp_public_values p) = None \<or> length ps \<le> i \<or> \<not> unat c + unat cy < 2 ^ 64 \<or> \<not> unat g + unat ga < 2 ^ 64")
    case True
    then show ?thesis by (auto simp: r try_bind_eq_Inr checked_add_Inr split: option.splits)
  next
    case False
    then obtain b where b: "rd (pp_public_values p) = Some b" and i: "i < length ps"
      and fits: "unat c + unat cy < 2 ^ 64" "unat g + unat ga < 2 ^ 64" by auto
    note sums = unat_add_fits [OF fits(1)] unat_add_fits [OF fits(2)]
    have "place_results rd (r # rs) ps bs c g = place_results rd rs (ps[i := Some (pp_proof p)]) (bs[i := Some b]) (c + cy) (g + ga)"
      using b i fits by (simp add: r checked_add_def)
    then show ?thesis using b i by (simp add: r Cons.IH sums add.assoc del: place_results.simps)
  qed
qed

lemma fold_update:
  assumes "distinct is" "set is \<subseteq> {..<length ps}"
  shows "fold (\<lambda>i ps. ps[i := f i]) is ps = map (\<lambda>j. if j \<in> set is then f j else ps ! j) [0..<length ps]"
  using assms
proof (induction "is" arbitrary: ps)
  case Nil
  show ?case by (simp add: map_nth)
next
  case (Cons i "is")
  show ?case using Cons.prems by (auto simp: Cons.IH nth_list_update intro!: map_cong)
qed

lemma sum_order: "distinct is \<Longrightarrow> set is = {..<n} \<Longrightarrow> (\<Sum>i \<leftarrow> is. f i) = (\<Sum>i<n. f i)" for f :: "nat \<Rightarrow> nat"
  by (simp add: sum_list_distinct_conv_sum_set)

lemma collect_place:
  assumes order: "distinct is" "set is = {..<n}"
    and task: "\<And>i x w. task i = Some (Inr x, w) \<Longrightarrow> w = []" "\<And>i x w. task i = Some (Inr x, w) \<Longrightarrow> fst x = i"
  shows "pbind (try_collect task is) (\<lambda>rs. pbind (pure (place_results rd rs (replicate n None) (replicate n None) 0 0)) K) = Some (Inr y, w) \<longleftrightarrow>
    (\<forall>i < n. task i = Some (Inr (got task i), []) \<and> rd (pp_public_values (rr_proof (got task i))) \<noteq> None) \<and>
    (\<Sum>i<n. unat (rr_cycles (got task i))) < 2 ^ 64 \<and> (\<Sum>i<n. unat (rr_gas (got task i))) < 2 ^ 64 \<and>
    K (map (\<lambda>i. Some (pp_proof (rr_proof (got task i)))) [0..<n], map (\<lambda>i. rd (pp_public_values (rr_proof (got task i)))) [0..<n],
       of_nat (\<Sum>i<n. unat (rr_cycles (got task i))), of_nat (\<Sum>i<n. unat (rr_gas (got task i)))) = Some (Inr y, w)"
    (is "?run \<longleftrightarrow> ?ok")
proof (cases "\<forall>i < n. task i = Some (Inr (got task i), [])")
  case False
  then have "\<not> ?run" using order(2) by (auto simp: pbind_Inr try_collect_Inr [OF task(1)])
  with False show ?thesis by blast
next
  case all: True
  let ?g = "got task"
  have collect: "try_collect task is = Some (Inr (map ?g is), [])"
    using all order(2) by (auto simp: try_collect_Inr [OF task(1)])
  have idx: "fst (?g i) = i" if "i \<in> set is" for i using task(2) all that order(2) by auto
  have folds: "fold (\<lambda>r ps. ps[fst r := F r]) (map ?g is) (replicate n None) = map (\<lambda>i. F (?g i)) [0..<n]"
    for F :: "range_result \<Rightarrow> 'b option"
  proof -
    have "fold (\<lambda>r ps. ps[fst r := F r]) (map ?g is) (replicate n None) = fold (\<lambda>i ps. ps[i := F (?g i)]) is (replicate n None)"
      unfolding fold_map comp_def by (rule fold_cong) (simp_all add: idx)
    also have "\<dots> = map (\<lambda>i. F (?g i)) [0..<n]" using order by (simp add: fold_update)
    finally show ?thesis .
  qed
  have "place_results rd (map ?g is) (replicate n None) (replicate n None) 0 0 = Inr out \<longleftrightarrow>
      (\<forall>i < n. rd (pp_public_values (rr_proof (?g i))) \<noteq> None) \<and>
      (\<Sum>i<n. unat (rr_cycles (?g i))) < 2 ^ 64 \<and> (\<Sum>i<n. unat (rr_gas (?g i))) < 2 ^ 64 \<and>
      out = (map (\<lambda>i. Some (pp_proof (rr_proof (?g i)))) [0..<n], map (\<lambda>i. rd (pp_public_values (rr_proof (?g i)))) [0..<n],
        of_nat (\<Sum>i<n. unat (rr_cycles (?g i))), of_nat (\<Sum>i<n. unat (rr_gas (?g i))))" for out
    unfolding place_results_Inr folds using order(2) by (auto simp: idx comp_def sum_order [OF order])
  then show ?thesis unfolding collect by (auto simp: pbind_Inr pure_Inr all)
qed

text \<open>The orders in which \<open>n\<close> concurrent tasks can complete.\<close>

definition completion_order :: "(nat \<Rightarrow> nat list) \<Rightarrow> bool" where
  "completion_order order \<longleftrightarrow> (\<forall>n. distinct (order n) \<and> set (order n) = {..<n})"

lemma prove_game_Inr:
  assumes "completion_order order"
  shows "prove_game cfg env order a s e = Some (Inr out, w) \<longleftrightarrow>
    (\<exists>h ranges. pe_l1_head env a = Inr h \<and> range_split (pv_range_split_count cfg) s e = Inr ranges \<and>
      (let n = length ranges; task = range_task cfg env h ranges; r = got task;
           proofs = map (\<lambda>i. pp_proof (rr_proof (r i))) [0..<n];
           boots = map (\<lambda>i. the (read_boot_info env (pp_public_values (rr_proof (r i))))) [0..<n];
           cycles = (\<Sum>i<n. unat (rr_cycles (r i))); gas = (\<Sum>i<n. unat (rr_gas (r i))) in
       (\<forall>i < n. task i = Some (Inr (r i), []) \<and> read_boot_info env (pp_public_values (rr_proof (r i))) \<noteq> None) \<and>
       cycles < 2 ^ 64 \<and> gas < 2 ^ 64 \<and>
       pbind (pure (agg_stdin cfg env proofs boots)) (\<lambda>sp1_stdin.
         pbind (generate_agg_proof (pe_sdk env) (pv_provider cfg) sp1_stdin) (\<lambda>agg_proof.
         pbind (submit_prove env a agg_proof) (\<lambda>transaction_hash.
         pure (Inr (transaction_hash, of_nat cycles, of_nat gas))))) = Some (Inr out, w)))"
proof -
  have order: "distinct (order n)" "set (order n) = {..<n}" for n using assms by (auto simp: completion_order_def)
  have somes: "try_map (ok_or m) (map f xs) = Inr (map (the \<circ> f) xs)" if "\<forall>x \<in> set xs. f x \<noteq> None" for m f and xs :: "nat list"
    using that by (induction xs) (auto simp: ok_or_def)
  have "(\<lambda>i. Some (f i)) = Some \<circ> f" for f :: "nat \<Rightarrow> 'c" by auto
  then have somes': "try_map (ok_or m) (map (\<lambda>i. Some (f i)) xs) = Inr (map f xs)" for m and f :: "nat \<Rightarrow> 'c" and xs :: "nat list"
    using somes [of xs "\<lambda>i. Some (f i)" m] by (simp add: comp_def)
  show ?thesis
  proof (cases "pe_l1_head env a")
    case h: (Inr h)
    show ?thesis
    proof (cases "range_split (pv_range_split_count cfg) s e")
      case ranges: (Inr ranges)
      show ?thesis
        unfolding prove_game_def Let_def h ranges pbind_pure
        by (subst collect_place [OF order]) (use range_task_Inr in \<open>auto simp: somes somes' comp_def\<close>)
    qed (simp add: prove_game_def h)
  qed (simp add: prove_game_def)
qed

text \<open>C22: The outcome of proving does not depend on scheduling. Whatever the order in which the concurrent range proofs complete, a game is proven with
  the same transaction, the same totals and the same effects as if they were generated one after the other.\<close>

theorem prove_game_order:
  assumes "completion_order order"
  shows "prove_game cfg env order game_address s e = Some (Inr out, w) \<longleftrightarrow>
    prove_game cfg env (\<lambda>n. [0..<n]) game_address s e = Some (Inr out, w)"
proof -
  have "completion_order (\<lambda>n. [0..<n])" by (auto simp: completion_order_def)
  then show ?thesis by (simp only: prove_game_Inr [OF assms] prove_game_Inr)
qed

section \<open>From a game to the aggregation program\<close>

text \<open>The boot info of a range and honest range proving: every range inside the game's blocks gets a compressed proof of its boot info, which the
  verifier accepts.\<close>

definition range_boot :: "b256 \<Rightarrow> b256 \<Rightarrow> (u64 \<Rightarrow> b256) \<Rightarrow> u64 \<times> u64 \<Rightarrow> boot_info_struct" where
  "range_boot l1_head config_hash root r =
     \<lparr> bis_l1Head = l1_head, bis_l2PreRoot = root (fst r), bis_l2PostRoot = root (snd r), bis_l2BlockNumber = snd r,
       bis_rollupConfigHash = config_hash \<rparr>"

definition proves_range ::
  "proving_config \<Rightarrow> ('args, 'wit) proving_env \<Rightarrow> agg_env \<Rightarrow> b256 \<Rightarrow> boot_info_struct \<Rightarrow> u64 \<times> u64 \<Rightarrow> bool" where
  "proves_range cfg env aenv l1_head boot r \<longleftrightarrow>
     (\<exists>stdin p cycles gas. range_proof_stdin cfg env (fst r) (snd r) l1_head = Inr stdin \<and>
        generate_range_proof (pe_sdk env) (pv_provider cfg) stdin = Some (Inr (p, cycles, gas), []) \<and>
        unat cycles < 2 ^ 56 \<and> unat gas < 2 ^ 56 \<and> pp_proof p = Compressed \<and> read_boot_info env (pp_public_values p) = Some boot \<and>
        verify_sp1_proof aenv (pk_range_vk (provider_keys (pv_provider cfg))) (pv_digest aenv boot) = Inr ())"

lemma chained_sequential: "chained s e rs \<Longrightarrow> sequential rc (root s) (root e) (map (range_boot h rc root) rs)"
  by (induction s e rs rule: chained.induct) (auto simp: range_boot_def)

lemma chained_last: "chained s e rs \<Longrightarrow> rs \<noteq> [] \<Longrightarrow> snd (last rs) = e"
  by (induction s e rs rule: chained.induct) auto

lemma task_of_proves:
  assumes "proves_range cfg env aenv h (range_boot h rc root (ranges ! i)) (ranges ! i)"
  shows "let t = range_task cfg env h ranges; r = got t i in t i = Some (Inr r, []) \<and> unat (rr_cycles r) < 2 ^ 56 \<and> unat (rr_gas r) < 2 ^ 56 \<and>
    pp_proof (rr_proof r) = Compressed \<and> read_boot_info env (pp_public_values (rr_proof r)) = Some (range_boot h rc root (ranges ! i))"
proof -
  from assms obtain stdin p cycles gas where "range_proof_stdin cfg env (fst (ranges ! i)) (snd (ranges ! i)) h = Inr stdin"
    "generate_range_proof (pe_sdk env) (pv_provider cfg) stdin = Some (Inr (p, cycles, gas), [])" and
    rest: "unat cycles < 2 ^ 56" "unat gas < 2 ^ 56" "pp_proof p = Compressed" "read_boot_info env (pp_public_values p) = Some (range_boot h rc root (ranges ! i))"
    unfolding proves_range_def by blast
  then have "range_task cfg env h ranges i = Some (Inr (i, p, cycles, gas), [])"
    by (simp add: range_task_def) (simp add: pbind_def pure_def)
  with rest show ?thesis by (simp add: got_def)
qed

lemma sum_small:
  assumes "\<And>i. i < n \<Longrightarrow> f i < 2 ^ 56" "n < (256 :: nat)"
  shows "(\<Sum>i<n. f i) < (2 ^ 64 :: nat)"
proof -
  have "(\<Sum>i<n. f i) \<le> (\<Sum>i<n. 2 ^ 56)" using assms(1) by (intro sum_mono) (simp add: less_imp_le)
  also have "\<dots> < 2 ^ 64" using assms(2) by simp
  finally show ?thesis .
qed

definition claim_output :: "agg_env \<Rightarrow> b256 \<Rightarrow> b256 \<Rightarrow> (u64 \<Rightarrow> b256) \<Rightarrow> u64 \<Rightarrow> u64 \<Rightarrow> u32 list \<Rightarrow> address \<Rightarrow> aggregation_outputs" where
  "claim_output aenv h config_hash root s e vk prover =
     \<lparr> ao_l1Head = h, ao_l2PreRoot = root s, ao_l2PostRoot = root e, ao_l2BlockNumber = e, ao_rollupConfigHash = config_hash,
       ao_multiBlockVKey = words_to_bytes_be aenv vk, ao_proverAddress = prover \<rparr>"

lemma agg_stdin_claim:
  assumes "chained s e rs" "rs \<noteq> []" and chain: "canonical_rpc (hash_slow aenv) (pe_headers env) chain head" "c \<le> head"
    and h: "h = hash_slow aenv (chain c)"
    and verified: "\<forall>b \<in> set (map (range_boot h config_hash root) rs). verify_sp1_proof aenv (pk_range_vk (provider_keys (pv_provider cfg))) (pv_digest aenv b) = Inr ()"
  shows "\<exists>inputs headers.
    agg_stdin cfg env (replicate (length rs) Compressed) (map (range_boot h config_hash root) rs) = Inr (AggStdin inputs headers) \<and>
    aggregate aenv inputs headers = Inr (claim_output aenv h config_hash root s e (pk_range_vk (provider_keys (pv_provider cfg))) (pe_signer env))"
proof -
  let ?B = "range_boot h config_hash root" and ?vk = "pk_range_vk (provider_keys (pv_provider cfg))"
  let ?inputs = "\<lparr> ai_boot_infos = map ?B rs, ai_latest_l1_checkpoint_head = h, ai_multi_block_vkey = ?vk, ai_prover_address = pe_signer env \<rparr>"
  obtain headers where headers: "get_header_preimages (pe_headers env) (map ?B rs) h = Inr headers"
    and agg: "aggregate aenv ?inputs headers = Inr (agg_output aenv ?inputs)"
    using host_headers_accepted [OF chain, of ?inputs config_hash "root s" "root e"] assms(2) h chained_sequential [OF assms(1)] verified
    by (auto simp: range_boot_def)
  have "agg_stdin cfg env (replicate (length rs) Compressed) (map ?B rs) = Inr (AggStdin ?inputs headers)"
    using assms(2) headers by (simp add: agg_stdin_def get_agg_proof_stdin_def last_map range_boot_def)
  moreover have "agg_output aenv ?inputs = claim_output aenv h config_hash root s e ?vk (pe_signer env)"
    using assms(1,2) chained_last [OF assms(1,2)] by (cases rs) (auto simp: agg_output_def claim_output_def last_map range_boot_def)
  ultimately show ?thesis using agg by auto
qed

text \<open>C12: A game's proof proves the game's claim. Suppose ranges are proven honestly, the L1 node serves one chain and the game's L1 head is a block of it.
  Then, however the range proofs are scheduled, proving the game means to prove and submit an input the aggregation program accepts, and what the program
  commits for it is the game's claim: from the root at the start block to the root and number of the end block, at the game's L1 head.\<close>

theorem prove_game_proves_claim:
  assumes order: "completion_order order" and split: "rsc_count (pv_range_split_count cfg) \<noteq> 0" "s < e"
    and chain: "canonical_rpc (hash_slow aenv) (pe_headers env) chain head" "c \<le> head"
    and head: "pe_l1_head env game_address = Inr h" "h = hash_slow aenv (chain c)"
    and honest: "\<forall>x y. s \<le> x \<and> x < y \<and> y \<le> e \<longrightarrow> proves_range cfg env aenv h (range_boot h config_hash root (x, y)) (x, y)"
  shows "\<exists>inputs headers cycles gas.
    aggregate aenv inputs headers = Inr (claim_output aenv h config_hash root s e (pk_range_vk (provider_keys (pv_provider cfg))) (pe_signer env)) \<and>
    (\<forall>out w. prove_game cfg env order game_address s e = Some (Inr out, w) \<longleftrightarrow>
      pbind (generate_agg_proof (pe_sdk env) (pv_provider cfg) (AggStdin inputs headers)) (\<lambda>agg_proof.
      pbind (submit_prove env game_address agg_proof) (\<lambda>tx. pure (Inr (tx, cycles, gas)))) = Some (Inr out, w))"
proof -
  obtain rs where rs: "range_split (pv_range_split_count cfg) s e = Inr rs" "chained s e rs"
    "length rs \<le> unat (rsc_count (pv_range_split_count cfg))" "rs \<noteq> []" using range_split_Inr [OF split] by auto
  let ?n = "length rs" and ?t = "range_task cfg env h rs" and ?vk = "pk_range_vk (provider_keys (pv_provider cfg))"
  let ?B = "range_boot h config_hash root"
  have proved: "proves_range cfg env aenv h (?B (rs ! i)) (rs ! i)" if "i < ?n" for i
  proof -
    obtain x y where xy: "rs ! i = (x, y)" by fastforce
    with that have "(x, y) \<in> set rs" by (metis nth_mem)
    from chained_bounds [OF rs(2) this] show ?thesis using honest xy by auto
  qed
  have n: "?n < 256" using rs(3) unsigned_less [where 'a = nat, of "rsc_count (pv_range_split_count cfg)"] by simp
  note res = task_of_proves [OF proved, unfolded Let_def]
  have proofs: "map (\<lambda>i. pp_proof (rr_proof (got ?t i))) [0..<?n] = replicate ?n Compressed"
    using res by (auto intro!: nth_equalityI)
  have boots: "map (\<lambda>i. the (read_boot_info env (pp_public_values (rr_proof (got ?t i))))) [0..<?n] = map ?B rs" (is "?bs = _")
    using res by (auto intro!: nth_equalityI)
  have verified: "\<forall>b \<in> set (map ?B rs). verify_sp1_proof aenv ?vk (pv_digest aenv b) = Inr ()"
    using proved by (auto simp: proves_range_def in_set_conv_nth) metis
  obtain inputs headers where stdin: "agg_stdin cfg env (replicate ?n Compressed) (map ?B rs) = Inr (AggStdin inputs headers)"
    and claim: "aggregate aenv inputs headers = Inr (claim_output aenv h config_hash root s e ?vk (pe_signer env))"
    using agg_stdin_claim [OF rs(2,4) chain head(2) verified] by blast
  have "prove_game cfg env order game_address s e = Some (Inr out, w) \<longleftrightarrow>
      pbind (generate_agg_proof (pe_sdk env) (pv_provider cfg) (AggStdin inputs headers)) (\<lambda>agg_proof.
      pbind (submit_prove env game_address agg_proof) (\<lambda>tx.
      pure (Inr (tx, of_nat (\<Sum>i<?n. unat (rr_cycles (got ?t i))), of_nat (\<Sum>i<?n. unat (rr_gas (got ?t i))))))) = Some (Inr out, w)" for out w
    using res sum_small [OF _ n] by (simp add: prove_game_Inr [OF order] head(1) rs(1) Let_def proofs boots stdin)
  with claim show ?thesis by blast
qed

section \<open>Witnesses\<close>

definition pv_proof :: "u8 list \<Rightarrow> proof_with_public_values" where
  "pv_proof pv = \<lparr> pp_proof = Compressed, pp_content = [], pp_public_values = pv \<rparr>"

definition pv_config :: proof_provider_config where
  "pv_config = \<lparr> pc_timeout = 3, pc_network_calls_timeout = 1, pc_auction_timeout = 1, pc_range_proof_strategy = Reserved,
     pc_agg_proof_strategy = Reserved, pc_agg_proof_mode = ModePlonk, pc_range_cycle_limit = 0, pc_range_gas_limit = 0, pc_agg_cycle_limit = 0,
     pc_agg_gas_limit = 0, pc_max_price_per_pgu = 0, pc_min_auction_period = 0, pc_whitelist = None, pc_private_stdin = False \<rparr>"

definition pv_codes :: fulfillment_codes where
  "pv_codes = \<lparr> fc_requested = 1, fc_fulfilled = 3, fc_unfulfillable = 4 \<rparr>"

text \<open>A network whose first status call times out and that delivers at the second poll.\<close>

definition pv_polls :: "nat \<Rightarrow> poll" where
  "pv_polls n = \<lparr> po_elapsed = n * 2000000000,
     po_status = (if n = 0 then TimedOut else Answered (Inr (\<lparr> ns_deadline = 100, ns_fulfillment_status = 3 \<rparr>, Some (pv_proof [1])))),
     po_request = Answered (Inr (Some \<lparr> rd_fulfillment_status = 2, rd_created_at = 50 \<rparr>)), po_clock = 60 \<rparr>"

lemma pv_clock: "clock_advances pv_polls"
  by (simp add: clock_advances_def pv_polls_def PROOF_STATUS_POLL_INTERVAL_def secs_def)

theorem wait_for_proof_returns_witness:
  "\<exists>k r w. k \<le> 2 \<and> wait_for_proof pv_config pv_codes True 7 pv_polls = Some (r, w) \<and> poll_once pv_config pv_codes True 7 (pv_polls k) = Finish r w"
proof -
  have "Suc (unat (pc_timeout pv_config) div 2) = 2" by code_simp
  then show ?thesis using wait_for_proof_returns [OF pv_clock, of pv_config pv_codes True 7] by metis
qed

theorem wait_for_proof_exact_witness: "wait_for_proof pv_config pv_codes True 7 pv_polls = Some (Inr (pv_proof [1]), [])"
proof -
  have "delivers pv_config pv_codes True (pv_polls 1) (pv_proof [1])"
    by (simp add: delivers_def observed_def stuck_in_auction_def pv_polls_def pv_config_def pv_codes_def secs_def)
  moreover have "\<forall>j < 1. poll_once pv_config pv_codes True 7 (pv_polls j) = Again"
    by (simp add: poll_once_def check_timeout_def call_with_timeout_def pv_polls_def)
  ultimately have "\<exists>k. delivers pv_config pv_codes True (pv_polls k) (pv_proof [1]) \<and>
      (\<forall>j < k. poll_once pv_config pv_codes True 7 (pv_polls j) = Again)" by (intro exI [of _ 1] conjI)
  then show ?thesis
    using wait_for_proof_exact [of pv_config pv_codes True 7 pv_polls "pv_proof [1]" "[]", THEN conjunct1] by simp
qed

text \<open>A mock prover whose range program commits the bounds of the range.\<close>

definition pv_sdk :: sdk_env where
  "pv_sdk = \<lparr> sdk_request = (\<lambda>_. Inl ''offline''), sdk_polls = (\<lambda>_. pv_polls), sdk_codes = pv_codes,
     sdk_execute = (\<lambda>elf stdin. Inr (case stdin of RangeStdin bs \<Rightarrow> bs | AggStdin _ _ \<Rightarrow> [], 10, Some 20)),
     create_mock_proof = (\<lambda>vk pv mode. pv_proof pv), request_proof_from_env = (\<lambda>_ _ _ _ _. TimedOut) \<rparr>"

definition pv_env :: "(u64 \<times> u64, u64 \<times> u64) proving_env" where
  "pv_env = \<lparr> pe_l1_head = (\<lambda>_. Inr 102), pe_host_fetch = (\<lambda>s e _ _. Inr (s, e)), pe_host_run = (\<lambda>r. Inr r),
     pe_get_sp1_stdin = (\<lambda>(s, e). Inr (RangeStdin [ucast s, ucast e])), pe_sdk = pv_sdk,
     read_boot_info = (\<lambda>bs. case bs of [s, e] \<Rightarrow> Some (range_boot 102 5 ucast (ucast s, ucast e)) | _ \<Rightarrow> None),
     pe_headers = sample_l1_headers, pe_signer = 3, proof_bytes = (\<lambda>_. [1, 2]), send_prove = (\<lambda>_ _. Inr (99, True)) \<rparr>"

definition pv_cfg :: proving_config where
  "pv_cfg = \<lparr> pv_range_split_count = \<lparr> rsc_count = 2 \<rparr>, pv_safe_db_fallback = False, pv_provider = MockProvider \<lparr> pk_range_vk = [1, 2], pk_agg_vk = [] \<rparr> pv_config \<rparr>"

theorem prove_game_order_witness: "prove_game pv_cfg pv_env (\<lambda>n. rev [0..<n]) 8 0 2 = Some (Inr (99, 20, 40), [ProveTx 8 [1, 2]])"
proof -
  have "completion_order (\<lambda>n. rev [0..<n])" by (auto simp: completion_order_def)
  moreover have "prove_game pv_cfg pv_env (\<lambda>n. [0..<n]) 8 0 2 = Some (Inr (99, 20, 40), [ProveTx 8 [1, 2]])" by code_simp
  ultimately show ?thesis using prove_game_order by blast
qed

lemma pv_honest: "proves_range pv_cfg pv_env sample_agg_env 102 (range_boot 102 5 ucast (x, y)) (x, y)" if "x < y" "y \<le> 2" for x y :: u64
proof -
  have "unat x < unat y" "unat y \<le> 2" using that by (simp_all add: word_less_nat_alt word_le_nat_alt)
  then have "unat x = 0 \<and> unat y = 1 \<or> unat x = 0 \<and> unat y = 2 \<or> unat x = 1 \<and> unat y = 2" by linarith
  then have "x = 0 \<and> y = 1 \<or> x = 0 \<and> y = 2 \<or> x = 1 \<and> y = 2" by (simp add: word_unat_eq_iff)
  then show ?thesis
    by (auto simp: proves_range_def range_proof_stdin_def generate_range_proof_def mock_generate_range_proof_def external_def map_err_def pure_def
      pv_cfg_def pv_env_def pv_sdk_def pv_proof_def sample_agg_env_def range_boot_def)
qed

theorem prove_game_proves_claim_witness:
  "\<exists>inputs headers. aggregate sample_agg_env inputs headers = Inr (claim_output sample_agg_env 102 5 ucast 0 2 [1, 2] 3)"
proof -
  have order: "completion_order (\<lambda>n. rev [0..<n])" by (auto simp: completion_order_def)
  have chain: "canonical_rpc (hash_slow sample_agg_env) (pe_headers pv_env) sample_chain 2" by (simp add: pv_env_def sample_canonical)
  have split: "rsc_count (pv_range_split_count pv_cfg) \<noteq> 0" "(0 :: u64) < 2" by (simp_all add: pv_cfg_def)
  have head: "pe_l1_head pv_env 8 = Inr 102" "102 = hash_slow sample_agg_env (sample_chain 2)" by code_simp+
  have given: "pk_range_vk (provider_keys (pv_provider pv_cfg)) = [1, 2]" "pe_signer pv_env = 3" by code_simp+
  have honest: "\<forall>x y. 0 \<le> x \<and> x < y \<and> y \<le> 2 \<longrightarrow> proves_range pv_cfg pv_env sample_agg_env 102 (range_boot 102 5 ucast (x, y)) (x, y)"
    using pv_honest by blast
  from prove_game_proves_claim [OF order split chain order.refl head honest] show ?thesis
    unfolding given by (elim exE conjE) (intro exI)
qed

end
