(* ===== verification/Fetcher.thy ===== *)
theory Fetcher
  imports Contract Programs Ranges Strings
begin

text \<open>
  The data fetcher of \<open>utils/host/src/fetcher.rs\<close>, the selection of the L1 block it reasons about (\<open>utils/host/src/l1_selection.rs\<close>), the block
  ranges derived from it (\<open>utils/host/src/block_range.rs\<close>) and the arguments the hosts build from it (\<open>utils/*/host/src/host.rs\<close>).

  The nodes are the record \<open>node\<close>: an L1 node, an L2 execution node, and the rollup node with its safe-head database. The two binary
  searches may, in the code as in the model, fail to end: they are partial functions, and \<open>None\<close> means that they do not return. Machine
  arithmetic wraps, as in a release build.
\<close>

section \<open>The L1 selection\<close>

datatype env_var = Present string | NotPresent | NotUnicode

datatype l1_block_tag = TagFinalized | TagSafe | TagLatest

datatype block_id = BlockFinalized | BlockSafe | BlockLatest | BlockNumber u64 | BlockHash b256

definition to_block_id :: "l1_block_tag \<Rightarrow> block_id" where
  "to_block_id tag = (case tag of TagFinalized \<Rightarrow> BlockFinalized | TagSafe \<Rightarrow> BlockSafe | TagLatest \<Rightarrow> BlockLatest)"

definition tag_from_str :: "string \<Rightarrow> l1_block_tag result" where
  "tag_from_str s =
     (let t = to_ascii_lowercase (trim s) in
      if t = ''finalized'' then Inr TagFinalized
      else if t = ''safe'' then Inr TagSafe
      else if t = ''latest'' then Inr TagLatest
      else Inl (Err ''invalid L1_BLOCK_TAG value''))"

record l1_selection =
  ls_tag :: l1_block_tag
  ls_confirmations :: u64

definition l1_selection_default :: l1_selection where
  "l1_selection_default = \<lparr> ls_tag = TagFinalized, ls_confirmations = 0 \<rparr>"

definition is_default :: "l1_selection \<Rightarrow> bool" where
  "is_default sel \<longleftrightarrow> ls_tag sel = TagFinalized \<and> ls_confirmations sel = 0"

definition l1_selection_from_env :: "env_var \<Rightarrow> env_var \<Rightarrow> l1_selection result" where
  "l1_selection_from_env tag_var confirmations_var =
     try_bind (case tag_var of
         Present raw \<Rightarrow> tag_from_str raw
       | NotPresent \<Rightarrow> Inr TagFinalized
       | NotUnicode \<Rightarrow> Inl (Err ''L1_BLOCK_TAG is set but is not valid UTF-8'')) (\<lambda>tag.
     try_bind (case confirmations_var of
         Present raw \<Rightarrow> ok_or ''invalid L1_CONFIRMATIONS value'' (parse_u64 (trim raw))
       | NotPresent \<Rightarrow> Inr 0
       | NotUnicode \<Rightarrow> Inl (Err ''L1_CONFIRMATIONS is set but is not valid UTF-8'')) (\<lambda>confirmations.
     Inr \<lparr> ls_tag = tag, ls_confirmations = confirmations \<rparr>))"

definition l1_selection_from_env_or_default :: "env_var \<Rightarrow> env_var \<Rightarrow> l1_selection result" where
  "l1_selection_from_env_or_default tag_var confirmations_var =
     (case l1_selection_from_env tag_var confirmations_var of Inr cfg \<Rightarrow> Inr cfg | Inl e \<Rightarrow> Inl (Panic (to_string e)))"

section \<open>Nodes and configuration\<close>

text \<open>A JSON document, as far as the classification of answers reads it.\<close>

datatype json = JNull | JNumber int | JString string | JObject "(string \<times> json) list" | JOther

fun json_get :: "string \<Rightarrow> json \<Rightarrow> json option" where
  "json_get k (JObject entries) = map_of entries k"
| "json_get k _ = None"

record safe_head_answer =
  sr_l1_number :: u64
  sr_l1_hash :: b256
  sr_safe_head :: u64

record l1_block =
  lb_header :: consensus_header
  lb_hash :: b256
  lb_timestamp :: u64

type_synonym u128 = "128 word"

record l2_receipt =
  rc_effective_gas_price :: u128
  rc_gas_used :: u64
  rc_l1_fee :: "u128 option"

record l2_block =
  l2_number :: u64
  l2_timestamp :: u64
  l2_gas_used :: u64
  l2_transactions :: nat
  l2_hdr :: l2_header

record node =
  n_l1_block :: "block_id \<Rightarrow> l1_block option result"
  n_l2_block :: "block_id \<Rightarrow> l2_block option result"
  n_receipts :: "u64 \<Rightarrow> l2_receipt list option result"
  n_storage_hash :: "address \<Rightarrow> u64 \<Rightarrow> b256 result"
  n_l1_origin :: "u64 \<Rightarrow> u64 result"
  n_safe_head :: "u64 \<Rightarrow> safe_head_answer result"
  n_safe_head_raw :: "u64 \<Rightarrow> json result"
  n_parse_safe_head :: "json \<Rightarrow> safe_head_answer option"
  n_hash_slow :: "consensus_header \<Rightarrow> b256"
  n_EMPTY_ROOT_HASH :: b256
  n_keccak_L2Output :: "u64 \<Rightarrow> b256 \<Rightarrow> b256 \<Rightarrow> b256 \<Rightarrow> b256"

record rpc_config =
  rp_l1_rpc :: string
  rp_l1_beacon_rpc :: "string option"
  rp_l2_rpc :: string
  rp_l2_node_rpc :: string

datatype rpc_mode = ModeL1 | ModeL1Beacon | ModeL2 | ModeL2Node

text \<open>The fields of a rollup configuration the code reads or changes, and the rest of it.\<close>

record rollup_config =
  rf_l2_chain_id :: u64
  rf_l1_chain_id :: u64
  rf_fjord_max_sequencer_drift :: u64
  rf_rest :: "u8 list"

record fetcher =
  ft_rpc_config :: rpc_config
  ft_rollup_config :: "rollup_config option"
  ft_rollup_config_path :: "string option"
  ft_l1_config_path :: "string option"
  ft_l1_selection :: l1_selection

definition get_rpcs_from_env :: "(string \<Rightarrow> string option) \<Rightarrow> (string \<Rightarrow> string option) \<Rightarrow> rpc_config result" where
  "get_rpcs_from_env var url_parse =
     (let expect = (\<lambda>m x. case x of None \<Rightarrow> Inl (Panic m) | Some v \<Rightarrow> Inr v) in
      try_bind (expect ''L1_RPC must be set'' (var ''L1_RPC'')) (\<lambda>l1_rpc.
      try_bind (case Option.bind (var ''L1_BEACON_RPC'') (\<lambda>s. if trim s = [] then None else Some (trim s)) of
          None \<Rightarrow> Inr None
        | Some s \<Rightarrow> try_bind (expect ''L1_BEACON_RPC must be a valid URL'' (url_parse s)) (\<lambda>u. Inr (Some u))) (\<lambda>l1_beacon_rpc.
      try_bind (expect ''L2_RPC must be set'' (var ''L2_RPC'')) (\<lambda>l2_rpc.
      try_bind (expect ''L2_NODE_RPC must be set'' (var ''L2_NODE_RPC'')) (\<lambda>l2_node_rpc.
      try_bind (expect ''L1_RPC must be a valid URL'' (url_parse l1_rpc)) (\<lambda>l1.
      try_bind (expect ''L2_RPC must be a valid URL'' (url_parse l2_rpc)) (\<lambda>l2.
      try_bind (expect ''L2_NODE_RPC must be a valid URL'' (url_parse l2_node_rpc)) (\<lambda>l2_node.
      Inr \<lparr> rp_l1_rpc = l1, rp_l1_beacon_rpc = l1_beacon_rpc, rp_l2_rpc = l2, rp_l2_node_rpc = l2_node \<rparr>))))))))"

definition get_rpc_url :: "rpc_config \<Rightarrow> rpc_mode \<Rightarrow> string result" where
  "get_rpc_url c mode =
     (case mode of
        ModeL1 \<Rightarrow> Inr (rp_l1_rpc c)
      | ModeL2 \<Rightarrow> Inr (rp_l2_rpc c)
      | ModeL1Beacon \<Rightarrow> ok_or ''L1 beacon RPC URL is not set'' (rp_l1_beacon_rpc c)
      | ModeL2Node \<Rightarrow> Inr (rp_l2_node_rpc c))"

text \<open>A JSON-RPC answer whose error object becomes an error.\<close>

definition fetch_rpc_data :: "(json \<Rightarrow> 'a option) \<Rightarrow> json result \<Rightarrow> 'a result" where
  "fetch_rpc_data from_value answer =
     try_bind answer (\<lambda>response.
     case json_get ''error'' response of
       Some error \<Rightarrow> Inl (Err (case json_get ''message'' error of Some (JString m) \<Rightarrow> m | _ \<Rightarrow> ''Unknown error''))
     | None \<Rightarrow> ok_or ''deserialization failed'' (from_value (case json_get ''result'' response of Some v \<Rightarrow> v | None \<Rightarrow> JNull)))"

definition new_with_l1_selection :: "rpc_config result \<Rightarrow> l1_selection \<Rightarrow> fetcher result" where
  "new_with_l1_selection rpcs selection =
     try_bind rpcs (\<lambda>c.
     Inr \<lparr> ft_rpc_config = c, ft_rollup_config = None, ft_rollup_config_path = None, ft_l1_config_path = None, ft_l1_selection = selection \<rparr>)"

text \<open>The rollup configuration: the registry's if it has one for the chain, else the node's. The result carries whether the two differ, which is only
  logged.\<close>

definition choose_rollup_config ::
  "(rollup_config \<Rightarrow> b256) \<Rightarrow> rollup_config option \<Rightarrow> rollup_config option \<Rightarrow> (rollup_config \<times> bool) result" where
  "choose_rollup_config hash registry node_config =
     (case registry of
        Some r \<Rightarrow> Inr (r, case node_config of
            None \<Rightarrow> False
          | Some c \<Rightarrow> hash r \<noteq> hash (c\<lparr>rf_fjord_max_sequencer_drift := rf_fjord_max_sequencer_drift r\<rparr>))
      | None \<Rightarrow> try_bind (ok_or ''No rollup config available'' node_config) (\<lambda>c. Inr (c, False)))"

record config_files =
  cf_l2_config_dir :: "string option"
  cf_l1_config_dir :: "string option"
  cf_create_dir :: "string \<Rightarrow> unit result"
  cf_write :: "string \<Rightarrow> unit result"
  cf_exists :: "string \<Rightarrow> bool"
  cf_read_json :: "string \<Rightarrow> unit result"

definition config_path :: "string \<Rightarrow> u64 \<Rightarrow> string" where
  "config_path dir chain_id = dir @ ''/'' @ show_nat (unat chain_id) @ ''.json''"

definition fetch_and_save_rollup_config ::
  "config_files \<Rightarrow> (rollup_config \<Rightarrow> b256) \<Rightarrow> (u64 \<Rightarrow> rollup_config option) \<Rightarrow> u64 result \<Rightarrow> rollup_config result \<Rightarrow> (rollup_config \<times> string) result" where
  "fetch_and_save_rollup_config fs hash registry chain_id node_answer =
     try_bind chain_id (\<lambda>id.
     try_bind (choose_rollup_config hash (registry id) (case node_answer of Inl _ \<Rightarrow> None | Inr c \<Rightarrow> Some c)) (\<lambda>(config, _).
     let dir = (case cf_l2_config_dir fs of None \<Rightarrow> ''configs/L2'' | Some d \<Rightarrow> d); path = config_path dir (rf_l2_chain_id config) in
     try_bind (cf_create_dir fs dir) (\<lambda>_.
     try_bind (cf_write fs path) (\<lambda>_. Inr (config, path)))))"

definition fetch_and_save_l1_config :: "config_files \<Rightarrow> (u64 \<Rightarrow> bool) \<Rightarrow> rollup_config \<Rightarrow> string result" where
  "fetch_and_save_l1_config fs known_l1 config =
     (let dir = (case cf_l1_config_dir fs of None \<Rightarrow> ''configs/L1'' | Some d \<Rightarrow> d); path = config_path dir (rf_l1_chain_id config) in
      if cf_exists fs path then try_bind (cf_read_json fs path) (\<lambda>_. Inr path)
      else try_bind (ensure (known_l1 (rf_l1_chain_id config)) ''No built-in L1 config exists'') (\<lambda>_.
        try_bind (cf_create_dir fs dir) (\<lambda>_.
        try_bind (cf_write fs path) (\<lambda>_. Inr path))))"

definition new_with_rollup_config_and_l1_selection ::
  "rpc_config result \<Rightarrow> (rollup_config \<times> string) result \<Rightarrow> (rollup_config \<Rightarrow> string result) \<Rightarrow> l1_selection \<Rightarrow> fetcher result" where
  "new_with_rollup_config_and_l1_selection rpcs rollup l1_config selection =
     try_bind rpcs (\<lambda>c.
     try_bind rollup (\<lambda>(config, config_path).
     try_bind (l1_config config) (\<lambda>l1_config_path.
     Inr \<lparr> ft_rpc_config = c, ft_rollup_config = Some config, ft_rollup_config_path = Some config_path,
           ft_l1_config_path = Some l1_config_path, ft_l1_selection = selection \<rparr>)))"

section \<open>Headers and the selected L1 block\<close>

definition get_l1_block :: "node \<Rightarrow> block_id \<Rightarrow> l1_block result" where
  "get_l1_block nd b = try_bind (n_l1_block nd b) (ok_or ''Failed to get L1 header for block'')"

definition get_l1_header :: "node \<Rightarrow> block_id \<Rightarrow> consensus_header result" where
  "get_l1_header nd b = try_bind (get_l1_block nd b) (\<lambda>k. Inr (lb_header k))"

definition get_l2_header :: "node \<Rightarrow> block_id \<Rightarrow> l2_block result" where
  "get_l2_header nd b = try_bind (n_l2_block nd b) (ok_or ''Failed to get L1 header for block'')"

text \<open>\<open>resolve_selected_l1_header\<close> returns a header; its number and timestamp are read off the block.\<close>

definition resolve_selected_l1_header :: "node \<Rightarrow> l1_selection \<Rightarrow> l1_block result" where
  "resolve_selected_l1_header nd sel =
     try_bind (get_l1_block nd (to_block_id (ls_tag sel))) (\<lambda>base.
     if ls_confirmations sel = 0 then Inr base else
     let number = ch_number (lb_header base); target_number = saturating_sub number (ls_confirmations sel) in
     if target_number = number then Inr base else get_l1_block nd (BlockNumber target_number))"

definition JSON_RPC_METHOD_NOT_FOUND :: int where
  "JSON_RPC_METHOD_NOT_FOUND = - 32601"

definition classify_safe_db_probe_outcome :: "(json \<Rightarrow> safe_head_answer option) \<Rightarrow> json \<Rightarrow> bool result" where
  "classify_safe_db_probe_outcome parse response =
     (case json_get ''error'' response of
        Some error \<Rightarrow>
          let code = (case json_get ''code'' error of Some (JNumber n) \<Rightarrow> Some n | _ \<Rightarrow> None);
              message = (case json_get ''message'' error of Some (JString m) \<Rightarrow> m | _ \<Rightarrow> ''Unknown error'') in
          if code = Some JSON_RPC_METHOD_NOT_FOUND then Inr False
          else if contains (to_ascii_lowercase message) ''safedb'' then Inr False
          else Inl (Err (''Error calling optimism_safeHeadAtL1Block: '' @ message))
      | None \<Rightarrow>
          (case json_get ''result'' response of
             None \<Rightarrow> Inl (Err ''Malformed JSON-RPC response for optimism_safeHeadAtL1Block'')
           | Some result \<Rightarrow> try_bind (ok_or ''Malformed optimism_safeHeadAtL1Block result'' (parse result)) (\<lambda>_. Inr True)))"

definition is_safe_db_activated :: "node \<Rightarrow> bool result" where
  "is_safe_db_activated nd =
     try_bind (get_l1_header nd BlockFinalized) (\<lambda>finalized_l1_header.
     try_bind (n_safe_head_raw nd (ch_number finalized_l1_header)) (\<lambda>response.
     classify_safe_db_probe_outcome (n_parse_safe_head nd) response))"

definition validate_l1_selection :: "node \<Rightarrow> l1_selection \<Rightarrow> unit result" where
  "validate_l1_selection nd sel =
     (if is_default sel then Inr ()
      else try_bind (is_safe_db_activated nd) (\<lambda>active. ensure active ''requires SafeDB to be activated on op-node''))"

definition get_l2_safe_head_from_l1_block_number :: "node \<Rightarrow> u64 \<Rightarrow> u64 result" where
  "get_l2_safe_head_from_l1_block_number nd l1_block_number = try_bind (n_safe_head nd l1_block_number) (\<lambda>r. Inr (sr_safe_head r))"

definition get_max_provable_l2_block_number :: "node \<Rightarrow> l1_selection \<Rightarrow> u64 result" where
  "get_max_provable_l2_block_number nd sel =
     (if is_default sel then try_bind (get_l2_header nd BlockFinalized) (\<lambda>b. Inr (l2_number b))
      else try_bind (resolve_selected_l1_header nd sel) (\<lambda>resolved_l1.
        get_l2_safe_head_from_l1_block_number nd (ch_number (lb_header resolved_l1))))"

section \<open>Searching for blocks\<close>

text \<open>A computation that may not return: \<open>None\<close>.\<close>

definition wbind :: "'a result option \<Rightarrow> ('a \<Rightarrow> 'b result option) \<Rightarrow> 'b result option" where
  "wbind m f = (case m of None \<Rightarrow> None | Some (Inl e) \<Rightarrow> Some (Inl e) | Some (Inr x) \<Rightarrow> f x)"

definition block_hash_number :: "(u64 \<Rightarrow> l1_block option result) \<Rightarrow> u64 \<Rightarrow> (b256 \<times> u64) result" where
  "block_hash_number get_block n =
     try_bind (try_bind (get_block n) (ok_or ''Failed to get block for block'')) (\<lambda>b. Inr (lb_hash b, ch_number (lb_header b)))"

partial_function (option) timestamp_search ::
  "(u64 \<Rightarrow> l1_block option result) \<Rightarrow> u64 \<Rightarrow> u64 \<Rightarrow> u64 \<Rightarrow> (b256 \<times> u64) result option" where
  "timestamp_search get_block target_timestamp low high =
     (if low \<le> high then
        let mid = (low + high) div 2 in
        case try_bind (get_block mid) (ok_or ''Failed to get block for block'') of
          Inl e \<Rightarrow> Some (Inl e)
        | Inr block \<Rightarrow>
            if lb_timestamp block = target_timestamp then Some (Inr (lb_hash block, ch_number (lb_header block)))
            else if lb_timestamp block < target_timestamp then timestamp_search get_block target_timestamp (mid + 1) high
            else timestamp_search get_block target_timestamp low (mid - 1)
      else Some (block_hash_number get_block low))"

declare timestamp_search.simps [code]

definition find_block_by_timestamp :: "(u64 \<Rightarrow> l1_block option result) \<Rightarrow> u64 \<Rightarrow> u64 \<Rightarrow> (b256 \<times> u64) result option" where
  "find_block_by_timestamp get_block target_timestamp upper_bound_block = timestamp_search get_block target_timestamp 0 upper_bound_block"

definition find_l1_block_by_timestamp :: "node \<Rightarrow> l1_selection \<Rightarrow> u64 \<Rightarrow> (b256 \<times> u64) result option" where
  "find_l1_block_by_timestamp nd sel target_timestamp =
     wbind (Some (resolve_selected_l1_header nd sel)) (\<lambda>selected.
     find_block_by_timestamp (n_l1_block nd \<circ> BlockNumber) target_timestamp (ch_number (lb_header selected)))"

text \<open>The same search over L2 blocks, whose blocks are read as (hash, number, timestamp).\<close>

definition l2_as_block :: "l2_block \<Rightarrow> l1_block" where
  "l2_as_block b = \<lparr> lb_header = \<lparr> ch_number = l2_number b, ch_parent_hash = 0, ch_content = [] \<rparr>, lb_hash = h_hash (l2_hdr b),
     lb_timestamp = l2_timestamp b \<rparr>"

definition find_l2_block_by_timestamp :: "node \<Rightarrow> u64 \<Rightarrow> (b256 \<times> u64) result option" where
  "find_l2_block_by_timestamp nd target_timestamp =
     wbind (Some (try_bind (n_l2_block nd BlockFinalized) (ok_or ''Failed to get finalized L2 block for timestamp search bound''))) (\<lambda>b.
     find_block_by_timestamp (\<lambda>n. try_bind (n_l2_block nd (BlockNumber n)) (\<lambda>x. Inr (map_option l2_as_block x))) target_timestamp (l2_number b))"

partial_function (option) safe_head_search ::
  "(u64 \<Rightarrow> safe_head_answer result) \<Rightarrow> u64 \<Rightarrow> u64 \<Rightarrow> u64 \<Rightarrow> (b256 \<times> u64) option \<Rightarrow> (b256 \<times> u64) option result option" where
  "safe_head_search safe_head_at l2_end_block low high first_valid =
     (if low \<le> high then
        let mid = low + (high - low) div 2 in
        case safe_head_at mid of
          Inl e \<Rightarrow> Some (Inl e)
        | Inr r \<Rightarrow>
            if sr_safe_head r \<ge> l2_end_block
            then safe_head_search safe_head_at l2_end_block low (mid - 1) (Some (sr_l1_hash r, sr_l1_number r))
            else safe_head_search safe_head_at l2_end_block (mid + 1) high first_valid
      else Some (Inr first_valid))"

declare safe_head_search.simps [code]

definition get_safe_l1_block_for_l2_block :: "node \<Rightarrow> l1_selection \<Rightarrow> u64 \<Rightarrow> (b256 \<times> u64) result option" where
  "get_safe_l1_block_for_l2_block nd sel l2_end_block =
     wbind (Some (resolve_selected_l1_header nd sel)) (\<lambda>latest_l1_header.
     wbind (Some (n_l1_origin nd l2_end_block)) (\<lambda>l1_origin.
     wbind (safe_head_search (n_safe_head nd) l2_end_block l1_origin (ch_number (lb_header latest_l1_header)) None) (\<lambda>first_valid.
     Some (ok_or ''Could not find an L1 block with an L2 safe head greater than the L2 end block.'' first_valid))))"

definition get_l1_head :: "fetcher \<Rightarrow> node \<Rightarrow> u64 \<Rightarrow> bool \<Rightarrow> (b256 \<times> u64) result option" where
  "get_l1_head ft nd l2_end_block safe_db_fallback =
     (if ft_rollup_config ft = None then Some (Inl (Err ''Rollup config not loaded.'')) else
      let sel = ft_l1_selection ft in
      case get_safe_l1_block_for_l2_block nd sel l2_end_block of
        None \<Rightarrow> None
      | Some (Inr safe_head) \<Rightarrow> Some (Inr safe_head)
      | Some (Inl (Panic p)) \<Rightarrow> Some (Inl (Panic p))
      | Some (Inl (Err e)) \<Rightarrow>
          if safe_db_fallback then
            wbind (Some (get_l2_header nd (BlockNumber l2_end_block))) (\<lambda>l2_block.
            wbind (Some (resolve_selected_l1_header nd sel)) (\<lambda>upper.
            find_l1_block_by_timestamp nd sel (min (l2_timestamp l2_block + 40 * 60) (lb_timestamp upper))))
          else Some (Inl (Err ''SafeDB is not activated on your op-node and the SAFE_DB_FALLBACK flag is set to false'')))"

definition calculate_safe_l1_head :: "fetcher \<Rightarrow> node \<Rightarrow> u64 \<Rightarrow> bool \<Rightarrow> b256 result option" where
  "calculate_safe_l1_head ft nd l2_end_block safe_db_fallback =
     wbind (get_l1_head ft nd l2_end_block safe_db_fallback) (\<lambda>(_, l1_head_number).
     wbind (Some (resolve_selected_l1_header nd (ft_l1_selection ft))) (\<lambda>selected_l1.
     let safe_l1_head_number = min (l1_head_number + 20) (ch_number (lb_header selected_l1)) in
     wbind (Some (get_l1_header nd (BlockNumber safe_l1_head_number))) (\<lambda>h. Some (Inr (n_hash_slow nd h)))))"

section \<open>Output roots and host arguments\<close>

definition l2_to_l1_message_passer_storage_root :: "node \<Rightarrow> l2_header \<Rightarrow> u64 \<Rightarrow> b256 result" where
  "l2_to_l1_message_passer_storage_root nd h block_number =
     (case h_withdrawals_root h of
        Some root \<Rightarrow> if root \<noteq> n_EMPTY_ROOT_HASH nd then Inr root else n_storage_hash nd L2_TO_L1_MESSAGE_PASSER block_number
      | None \<Rightarrow> n_storage_hash nd L2_TO_L1_MESSAGE_PASSER block_number)"

record l2_output =
  lo_zero :: u64
  lo_l2_state_root :: b256
  lo_l2_storage_hash :: b256
  lo_l2_claim_hash :: b256

definition get_l2_execution_output :: "node \<Rightarrow> u64 \<Rightarrow> l2_output result" where
  "get_l2_execution_output nd block_number =
     try_bind (try_bind (n_l2_block nd (BlockNumber block_number)) (ok_or ''Block not found for block number'')) (\<lambda>block.
     try_bind (l2_to_l1_message_passer_storage_root nd (l2_hdr block) block_number) (\<lambda>storage_root.
     Inr \<lparr> lo_zero = 0, lo_l2_state_root = h_state_root (l2_hdr block), lo_l2_storage_hash = storage_root,
           lo_l2_claim_hash = h_hash (l2_hdr block) \<rparr>))"

definition output_root :: "node \<Rightarrow> l2_output \<Rightarrow> b256" where
  "output_root nd out = n_keccak_L2Output nd (lo_zero out) (lo_l2_state_root out) (lo_l2_storage_hash out) (lo_l2_claim_hash out)"

definition get_l2_output_root :: "node \<Rightarrow> u64 \<Rightarrow> b256 result" where
  "get_l2_output_root nd block_number = try_bind (get_l2_execution_output nd block_number) (\<lambda>out. Inr (output_root nd out))"

record host_args =
  ha_l1_head :: b256
  ha_agreed_l2_output_root :: b256
  ha_agreed_l2_head_hash :: b256
  ha_claimed_l2_output_root :: b256
  ha_claimed_l2_block_number :: u64
  ha_l2_chain_id :: "u64 option"
  ha_l2_node_address :: "string option"
  ha_l1_node_address :: "string option"
  ha_l1_beacon_address :: "string option"
  ha_rollup_config_path :: "string option"
  ha_l1_config_path :: "string option"

definition get_host_args :: "fetcher \<Rightarrow> node \<Rightarrow> u64 \<Rightarrow> u64 \<Rightarrow> b256 \<Rightarrow> host_args result" where
  "get_host_args ft nd l2_start_block l2_end_block l1_head_hash =
     (case ft_rollup_config ft of
        None \<Rightarrow> Inl (Err ''Rollup config not loaded.'')
      | Some rollup_config \<Rightarrow>
          if l2_start_block \<ge> l2_end_block then Inl (Err ''L2 start block is greater than or equal to L2 end block.'') else
          try_bind (get_l2_execution_output nd l2_start_block) (\<lambda>agreed_output.
          try_bind (get_l2_output_root nd l2_end_block) (\<lambda>claimed_l2_output_root.
          let trimmed = trim_end_matches (CHR ''/''); rpcs = ft_rpc_config ft in
          Inr \<lparr> ha_l1_head = l1_head_hash, ha_agreed_l2_output_root = output_root nd agreed_output,
                ha_agreed_l2_head_hash = lo_l2_claim_hash agreed_output, ha_claimed_l2_output_root = claimed_l2_output_root,
                ha_claimed_l2_block_number = l2_end_block, ha_l2_chain_id = Some (rf_l2_chain_id rollup_config),
                ha_l2_node_address = Some (trimmed (rp_l2_rpc rpcs)), ha_l1_node_address = Some (trimmed (rp_l1_rpc rpcs)),
                ha_l1_beacon_address = map_option trimmed (rp_l1_beacon_rpc rpcs),
                ha_rollup_config_path = ft_rollup_config_path ft, ha_l1_config_path = ft_l1_config_path ft \<rparr>)))"

text \<open>The hosts of the three data availability layers.\<close>

record celo_host =
  cs_kona_cfg :: host_args
  cs_eigenda_proxy_address :: "string option"

record altda_host =
  as_celo_host :: celo_host
  as_altda_server_url :: "string option"

definition host_l1_head :: "fetcher \<Rightarrow> node \<Rightarrow> u64 \<Rightarrow> b256 option \<Rightarrow> bool \<Rightarrow> b256 result option" where
  "host_l1_head ft nd l2_end_block l1_head_hash safe_db_fallback =
     (case l1_head_hash of Some hash \<Rightarrow> Some (Inr hash) | None \<Rightarrow> calculate_safe_l1_head ft nd l2_end_block safe_db_fallback)"

definition ethereum_fetch :: "fetcher \<Rightarrow> node \<Rightarrow> u64 \<Rightarrow> u64 \<Rightarrow> b256 option \<Rightarrow> bool \<Rightarrow> celo_host result option" where
  "ethereum_fetch ft nd l2_start_block l2_end_block l1_head_hash safe_db_fallback =
     wbind (host_l1_head ft nd l2_end_block l1_head_hash safe_db_fallback) (\<lambda>l1_head_hash.
     Some (try_bind (get_host_args ft nd l2_start_block l2_end_block l1_head_hash) (\<lambda>host.
     Inr \<lparr> cs_kona_cfg = host, cs_eigenda_proxy_address = None \<rparr>)))"

definition altda_fetch :: "fetcher \<Rightarrow> node \<Rightarrow> string option \<Rightarrow> u64 \<Rightarrow> u64 \<Rightarrow> b256 option \<Rightarrow> bool \<Rightarrow> altda_host result option" where
  "altda_fetch ft nd altda_server_url l2_start_block l2_end_block l1_head_hash safe_db_fallback =
     wbind (host_l1_head ft nd l2_end_block l1_head_hash safe_db_fallback) (\<lambda>l1_head_hash.
     Some (try_bind (get_host_args ft nd l2_start_block l2_end_block l1_head_hash) (\<lambda>kona_cfg.
     Inr \<lparr> as_celo_host = \<lparr> cs_kona_cfg = kona_cfg, cs_eigenda_proxy_address = None \<rparr>, as_altda_server_url = altda_server_url \<rparr>)))"

definition eigenda_fetch :: "fetcher \<Rightarrow> node \<Rightarrow> string option \<Rightarrow> u64 \<Rightarrow> u64 \<Rightarrow> b256 option \<Rightarrow> bool \<Rightarrow> celo_host result option" where
  "eigenda_fetch ft nd eigenda_proxy_address l2_start_block l2_end_block l1_head_hash safe_db_fallback =
     wbind (host_l1_head ft nd l2_end_block l1_head_hash safe_db_fallback) (\<lambda>l1_head.
     Some (try_bind (get_host_args ft nd l2_start_block l2_end_block l1_head) (\<lambda>host.
     Inr \<lparr> cs_kona_cfg = host, cs_eigenda_proxy_address = eigenda_proxy_address \<rparr>)))"

section \<open>Block statistics and block ranges\<close>

record l2_block_info =
  bi_block_number :: u64
  bi_transaction_count :: u64
  bi_gas_used :: u64
  bi_total_l1_fees :: u128
  bi_total_tx_fees :: u128

definition receipt_l1_fee :: "l2_receipt \<Rightarrow> u128" where
  "receipt_l1_fee tx = (case rc_l1_fee tx of None \<Rightarrow> 0 | Some f \<Rightarrow> f)"

definition block_fees :: "l2_receipt list option result \<Rightarrow> u128 \<times> u128" where
  "block_fees answer =
     (case answer of
        Inr (Some receipts) \<Rightarrow>
          (sum_list (map receipt_l1_fee receipts),
           sum_list (map (\<lambda>tx. rc_effective_gas_price tx * ucast (rc_gas_used tx) + receipt_l1_fee tx) receipts))
      | _ \<Rightarrow> (0, 0))"

definition fetch_block_info :: "node \<Rightarrow> u64 \<Rightarrow> l2_block_info result" where
  "fetch_block_info nd block_number =
     try_bind (n_l2_block nd (BlockNumber block_number)) (\<lambda>found.
     case found of
       None \<Rightarrow> Inl (Panic ''called Option::unwrap() on a None value'')
     | Some block \<Rightarrow>
         let fees = block_fees (n_receipts nd block_number) in
         Inr \<lparr> bi_block_number = block_number, bi_transaction_count = of_nat (l2_transactions block), bi_gas_used = l2_gas_used block,
               bi_total_l1_fees = fst fees, bi_total_tx_fees = snd fees \<rparr>)"

text \<open>All requests of a buffered stream are completed before their results are inspected: a panic of any of them comes first.\<close>

definition is_panic :: "'a result \<Rightarrow> bool" where
  "is_panic r = (case r of Inl (Panic _) \<Rightarrow> True | _ \<Rightarrow> False)"

definition collect_results :: "'a result list \<Rightarrow> 'a list result" where
  "collect_results rs =
     (case List.find is_panic rs of Some (Inl p) \<Rightarrow> Inl p | _ \<Rightarrow> try_map (\<lambda>r. r) rs)"

definition get_l2_block_data_range :: "node \<Rightarrow> u64 \<Rightarrow> u64 \<Rightarrow> l2_block_info list result" where
  "get_l2_block_data_range nd start end = collect_results (map (fetch_block_info nd) (u64_range (start + 1) end))"

definition get_validated_block_range :: "node \<Rightarrow> l1_selection \<Rightarrow> u64 option \<Rightarrow> u64 option \<Rightarrow> u64 \<Rightarrow> (u64 \<times> u64) result" where
  "get_validated_block_range nd sel start end default_range =
     try_bind (get_max_provable_l2_block_number nd sel) (\<lambda>end_number.
     try_bind (case end of
         Some e \<Rightarrow> if e > end_number then Inl (Err ''The end block is greater than the max provable L2 block'') else Inr e
       | None \<Rightarrow> Inr end_number) (\<lambda>l2_end_block.
     let l2_start_block = (case start of Some s \<Rightarrow> s | None \<Rightarrow> max 1 (saturating_sub l2_end_block default_range)) in
     if l2_start_block \<ge> l2_end_block then Inl (Err ''Start block must be less than end block'') else Inr (l2_start_block, l2_end_block)))"

definition get_rolling_block_range :: "node \<Rightarrow> l1_selection \<Rightarrow> u64 \<Rightarrow> (u64 \<times> u64) result" where
  "get_rolling_block_range nd sel range_size =
     try_bind (get_max_provable_l2_block_number nd sel) (\<lambda>l2_end_block.
     try_bind (ok_or ''requested rolling range exceeds current end block'' (checked_sub l2_end_block range_size)) (\<lambda>l2_start_block.
     Inr (l2_start_block, l2_end_block)))"

definition split_range_based_on_safe_heads :: "node \<Rightarrow> l1_selection \<Rightarrow> u64 \<Rightarrow> u64 \<Rightarrow> u64 \<Rightarrow> (u64 \<times> u64) list result option" where
  "split_range_based_on_safe_heads nd sel l2_start l2_end max_range_size =
     wbind (Some (n_l1_origin nd l2_start)) (\<lambda>l1_start.
     wbind (get_safe_l1_block_for_l2_block nd sel l2_end) (\<lambda>(_, l1_head_number).
     wbind (Some (collect_results (map (\<lambda>block.
         case n_safe_head nd block of Inl _ \<Rightarrow> Inl (Panic ''Failed to fetch safe head'') | Inr r \<Rightarrow> Inr (sr_safe_head r)) (u64_range l1_start l1_head_number)))) (\<lambda>safe_heads.
     map_option Inr (split_at_safe_heads l2_end max_range_size l2_start (sort (remdups safe_heads))))))"

section \<open>The searches find the first block\<close>

lemma wbind_simps [simp]: "wbind None f = None" "wbind (Some (Inl e)) f = Some (Inl e)" "wbind (Some (Inr x)) f = f x"
  by (simp_all add: wbind_def)

lemma u64_pred: "0 < x \<Longrightarrow> unat (x - 1) = unat x - 1" for x :: u64
  by (simp add: unat_minus_one word_gt_0)

lemma u64_succ: "x < y \<Longrightarrow> unat (x + 1) = Suc (unat x)" for x y :: u64
  using unat_u64_bound [of y] by (simp add: word_less_nat_alt unat_word_ariths)

lemma mid_between:
  fixes low high :: u64
  assumes "low \<le> high"
  shows "unat (low + (high - low) div 2) = unat low + (unat high - unat low) div 2"
proof -
  have d: "unat (high - low) = unat high - unat low" using assms by (simp add: unat_sub)
  then have h: "unat ((high - low) div 2) = (unat high - unat low) div 2" by (simp add: unat_div)
  have "unat low + (unat high - unat low) div 2 \<le> unat high" using assms by (simp add: word_le_nat_alt)
  then have "unat low + (unat high - unat low) div 2 < 2 ^ 64" using unat_u64_bound [of high] by linarith
  then show ?thesis using h by (simp add: unat_word_ariths)
qed

lemma half_sum: "unat low + unat high < 2 ^ 64 \<Longrightarrow> unat ((low + high) div 2) = (unat low + unat high) div 2" for low high :: u64
  by (simp add: unat_div unat_word_ariths)

text \<open>The first index of an interval at which a condition holds.\<close>

definition first_in :: "('a::linorder \<Rightarrow> bool) \<Rightarrow> 'a \<Rightarrow> 'a \<Rightarrow> 'a \<Rightarrow> bool" where
  "first_in P low high k \<longleftrightarrow> low \<le> k \<and> k \<le> high \<and> P k \<and> (\<forall>j. low \<le> j \<and> j < k \<longrightarrow> \<not> P j)"

definition search_result :: "(u64 \<Rightarrow> bool) \<Rightarrow> (u64 \<Rightarrow> 'a) \<Rightarrow> u64 \<Rightarrow> u64 \<Rightarrow> 'a option \<Rightarrow> 'a option result option \<Rightarrow> bool" where
  "search_result P out low high fv r \<longleftrightarrow>
     (\<exists>k. first_in P low high k \<and> r = Some (Inr (Some (out k)))) \<or> (\<forall>k. low \<le> k \<and> k \<le> high \<longrightarrow> \<not> P k) \<and> r = Some (Inr fv)"

lemma search_result_lower:
  assumes "P mid" "low \<le> mid" "mid \<le> high" "0 < mid" "search_result P out low (mid - 1) (Some (out mid)) r"
  shows "search_result P out low high fv r"
proof -
  have below: "n \<le> mid - 1 \<longleftrightarrow> n < mid" for n using assms(4) u64_pred [OF assms(4)] by (auto simp: word_le_nat_alt word_less_nat_alt)
  from assms(5) consider k where "first_in P low (mid - 1) k" "r = Some (Inr (Some (out k)))"
    | "\<forall>k. low \<le> k \<and> k < mid \<longrightarrow> \<not> P k" "r = Some (Inr (Some (out mid)))"
    unfolding search_result_def below by blast
  then show ?thesis
  proof cases
    case (1 k)
    then have "first_in P low high k" using assms(3) by (auto simp: first_in_def below)
    with 1(2) show ?thesis by (auto simp: search_result_def)
  next
    case 2
    then have "first_in P low high mid" using assms(1-3) by (simp add: first_in_def)
    with 2(2) show ?thesis by (auto simp: search_result_def)
  qed
qed

lemma search_result_upper:
  assumes "\<And>n. low \<le> n \<Longrightarrow> n \<le> mid \<Longrightarrow> \<not> P n" "low \<le> mid" "mid \<noteq> - 1" "search_result P out (mid + 1) high fv r"
  shows "search_result P out low high fv r"
proof -
  have above: "mid + 1 \<le> n \<longleftrightarrow> mid < n" for n using unat_add_one [OF assms(3)] by (auto simp: word_le_nat_alt word_less_nat_alt)
  from assms(4) consider k where "first_in P (mid + 1) high k" "r = Some (Inr (Some (out k)))"
    | "\<forall>k. mid < k \<and> k \<le> high \<longrightarrow> \<not> P k" "r = Some (Inr fv)"
    unfolding search_result_def above by blast
  then show ?thesis
  proof cases
    case (1 k)
    then have "low \<le> k" "k \<le> high" "P k" "\<forall>j. mid < j \<and> j < k \<longrightarrow> \<not> P j" using assms(2) by (auto simp: first_in_def above)
    then have "first_in P low high k" using assms(1) unfolding first_in_def by (meson not_le)
    with 1(2) show ?thesis by (auto simp: search_result_def)
  next
    case 2
    then have "\<forall>k. low \<le> k \<and> k \<le> high \<longrightarrow> \<not> P k" using assms(1) by (meson not_le)
    with 2(2) show ?thesis by (simp add: search_result_def)
  qed
qed

abbreviation sr_l1_block :: "safe_head_answer \<Rightarrow> b256 \<times> u64" where
  "sr_l1_block r \<equiv> (sr_l1_hash r, sr_l1_number r)"

lemma safe_head_search_spec:
  assumes "0 < low" "high \<noteq> - 1" and up: "\<forall>a b. low \<le> a \<and> a \<le> b \<and> b \<le> high \<and> P a \<longrightarrow> P b"
    and answers: "\<forall>n. low \<le> n \<and> n \<le> high \<longrightarrow> safe_head_at n = Inr (sh n) \<and> (P n \<longleftrightarrow> e \<le> sr_safe_head (sh n))"
  shows "search_result P (\<lambda>k. sr_l1_block (sh k)) low high fv (safe_head_search safe_head_at e low high fv)"
  using assms
proof (induction "Suc (unat high) - unat low" arbitrary: low high fv rule: less_induct)
  case less
  show ?case
  proof (cases "low \<le> high")
    case False
    have "safe_head_search safe_head_at e low high fv = Some (Inr fv)" by (subst safe_head_search.simps) (simp add: False)
    with False show ?thesis by (auto simp: search_result_def)
  next
    case True
    define mid where "mid = low + (high - low) div 2"
    have um: "unat mid = unat low + (unat high - unat low) div 2" unfolding mid_def using True by (rule mid_between)
    have nat: "unat low \<le> unat high" "0 < unat low" using True less.prems(1) by (simp_all add: word_le_nat_alt word_less_nat_alt)
    then have mid: "low \<le> mid" "mid \<le> high" "0 < mid" using um by (simp_all add: word_le_nat_alt word_less_nat_alt)
    have max: "mid \<noteq> - 1" using mid(2) less.prems(2) word_order.extremum_unique [of high] by auto
    have at: "safe_head_at mid = Inr (sh mid)" "P mid \<longleftrightarrow> e \<le> sr_safe_head (sh mid)" using less.prems(4) mid by blast+
    have step: "safe_head_search safe_head_at e low high fv =
      (if P mid then safe_head_search safe_head_at e low (mid - 1) (Some (sr_l1_block (sh mid)))
       else safe_head_search safe_head_at e (mid + 1) high fv)"
      by (subst safe_head_search.simps) (simp add: True mid_def [symmetric] at Let_def)
    show ?thesis
    proof (cases "P mid")
      case valid: True
      have le: "n \<le> high" if "n \<le> mid - 1" for n
        using that mid u64_pred [OF mid(3)] by (simp add: word_le_nat_alt)
      have "search_result P (\<lambda>k. sr_l1_block (sh k)) low (mid - 1) (Some (sr_l1_block (sh mid)))
          (safe_head_search safe_head_at e low (mid - 1) (Some (sr_l1_block (sh mid))))"
      proof (rule less.hyps)
        show "Suc (unat (mid - 1)) - unat low < Suc (unat high) - unat low" using u64_pred [OF mid(3)] um nat by simp
        show "mid - 1 \<noteq> - 1" using mid(3) by auto
      qed (use less.prems le in blast)+
      then show ?thesis using search_result_lower [where P = P and mid = mid and fv = fv, OF valid mid] valid by (simp add: step)
    next
      case invalid: False
      have none: "\<not> P n" if "low \<le> n" "n \<le> mid" for n using less.prems(3) that mid(2) invalid by blast
      have ge: "low \<le> n" if "mid + 1 \<le> n" for n
        using that mid(1) unat_add_one [OF max] by (simp add: word_le_nat_alt)
      have "search_result P (\<lambda>k. sr_l1_block (sh k)) (mid + 1) high fv (safe_head_search safe_head_at e (mid + 1) high fv)"
      proof (rule less.hyps)
        show "Suc (unat high) - unat (mid + 1) < Suc (unat high) - unat low" using unat_add_one [OF max] um nat by simp
        show "0 < mid + 1" using unat_add_one [OF max] by (simp add: word_less_nat_alt)
      qed (use less.prems ge in blast)+
      then show ?thesis using search_result_upper [where P = P, OF none mid(1) max] invalid by (simp add: step)
    qed
  qed
qed

text \<open>The safe-head database up to an L1 block: every block is answered with the entry at or before it, and safe heads never move back.\<close>

definition safe_db :: "node \<Rightarrow> u64 \<Rightarrow> (u64 \<Rightarrow> safe_head_answer) \<Rightarrow> bool" where
  "safe_db nd head sh \<longleftrightarrow>
     (\<forall>n \<le> head. n_safe_head nd n = Inr (sh n) \<and> sr_l1_number (sh n) \<le> n \<and> sh (sr_l1_number (sh n)) = sh n) \<and>
     (\<forall>a b. a \<le> b \<and> b \<le> head \<longrightarrow> sr_safe_head (sh a) \<le> sr_safe_head (sh b))"

lemma safe_dbD:
  assumes "safe_db nd head sh"
  shows "n \<le> head \<Longrightarrow> n_safe_head nd n = Inr (sh n)" "n \<le> head \<Longrightarrow> sr_l1_number (sh n) \<le> n" "n \<le> head \<Longrightarrow> sh (sr_l1_number (sh n)) = sh n"
    "a \<le> b \<Longrightarrow> b \<le> head \<Longrightarrow> sr_safe_head (sh a) \<le> sr_safe_head (sh b)"
  using assms unfolding safe_db_def by blast+

lemma get_safe_l1_block_spec:
  assumes "resolve_selected_l1_header nd sel = Inr selected" "n_l1_origin nd e = Inr origin" "0 < origin"
    and head: "ch_number (lb_header selected) = head" "head \<noteq> - 1" and db: "safe_db nd head sh"
  shows "(\<exists>k. first_in (\<lambda>n. e \<le> sr_safe_head (sh n)) origin head k \<and> get_safe_l1_block_for_l2_block nd sel e = Some (Inr (sr_l1_block (sh k)))) \<or>
    (\<forall>k. origin \<le> k \<and> k \<le> head \<longrightarrow> sr_safe_head (sh k) < e) \<and>
    get_safe_l1_block_for_l2_block nd sel e = Some (Inl (Err ''Could not find an L1 block with an L2 safe head greater than the L2 end block.''))"
proof -
  have "search_result (\<lambda>n. e \<le> sr_safe_head (sh n)) (\<lambda>k. sr_l1_block (sh k)) origin head None
      (safe_head_search (n_safe_head nd) e origin head None)"
  proof (rule safe_head_search_spec)
    show "\<forall>a b. origin \<le> a \<and> a \<le> b \<and> b \<le> head \<and> e \<le> sr_safe_head (sh a) \<longrightarrow> e \<le> sr_safe_head (sh b)"
      using safe_dbD(4) [OF db] order_trans by blast
  qed (use assms safe_dbD(1) [OF db] in auto)
  then show ?thesis
    unfolding get_safe_l1_block_for_l2_block_def search_result_def using assms(1,2) head(1)
    by (auto simp: ok_or_def not_le)
qed

text \<open>An L1 node that has the blocks of one chain up to a height, with strictly increasing timestamps.\<close>

definition blocks_up_to :: "(u64 \<Rightarrow> l1_block option result) \<Rightarrow> u64 \<Rightarrow> (u64 \<Rightarrow> l1_block) \<Rightarrow> bool" where
  "blocks_up_to get_block bound blk \<longleftrightarrow>
     (\<forall>n \<le> bound. get_block n = Inr (Some (blk n)) \<and> ch_number (lb_header (blk n)) = n) \<and>
     (\<forall>a b. a < b \<and> b \<le> bound \<longrightarrow> lb_timestamp (blk a) < lb_timestamp (blk b))"

lemma blocks_up_toD:
  assumes "blocks_up_to get_block bound blk"
  shows "n \<le> bound \<Longrightarrow> get_block n = Inr (Some (blk n))" "n \<le> bound \<Longrightarrow> ch_number (lb_header (blk n)) = n"
    "a < b \<Longrightarrow> b \<le> bound \<Longrightarrow> lb_timestamp (blk a) < lb_timestamp (blk b)"
  using assms unfolding blocks_up_to_def by blast+

definition timestamp_result :: "(u64 \<Rightarrow> l1_block option result) \<Rightarrow> u64 \<Rightarrow> (u64 \<Rightarrow> l1_block) \<Rightarrow> u64 \<Rightarrow> (b256 \<times> u64) result option \<Rightarrow> bool" where
  "timestamp_result get_block bound blk t r \<longleftrightarrow>
     (\<exists>k. first_in (\<lambda>n. t \<le> lb_timestamp (blk n)) 0 bound k \<and> r = Some (Inr (lb_hash (blk k), k))) \<or>
     (\<forall>n \<le> bound. lb_timestamp (blk n) < t) \<and> r = Some (block_hash_number get_block (bound + 1))"

lemma timestamp_search_done:
  assumes blocks: "blocks_up_to get_block bound blk" and bound: "unat bound < 2 ^ 63"
    and inv: "unat low = Suc (unat high)" "high \<le> bound" "\<forall>n < low. lb_timestamp (blk n) < t" "\<forall>n. high < n \<and> n \<le> bound \<longrightarrow> t < lb_timestamp (blk n)"
  shows "timestamp_result get_block bound blk t (timestamp_search get_block t low high)"
proof -
  have run: "timestamp_search get_block t low high = Some (block_hash_number get_block low)"
    by (subst timestamp_search.simps) (simp add: inv(1) word_le_nat_alt)
  show ?thesis
  proof (cases "low \<le> bound")
    case True
    then have "t < lb_timestamp (blk low)" using inv(1,4) by (simp add: word_less_nat_alt)
    then have "first_in (\<lambda>n. t \<le> lb_timestamp (blk n)) 0 bound low" using True inv(3) by (auto simp: first_in_def not_le)
    then show ?thesis using True by (auto simp: timestamp_result_def run block_hash_number_def blocks_up_toD [OF blocks])
  next
    case False
    then have "unat low = Suc (unat bound)" using inv(1,2) by (simp add: word_le_nat_alt)
    then have low: "low = bound + 1" using bound by (simp add: word_unat_eq_iff unat_word_ariths)
    have "lb_timestamp (blk n) < t" if "n \<le> bound" for n using False that inv(3) by (meson le_less_trans not_le)
    then show ?thesis using run unfolding timestamp_result_def low by blast
  qed
qed

lemma timestamp_search_spec:
  assumes blocks: "blocks_up_to get_block bound blk" and bound: "unat bound < 2 ^ 63" and genesis: "lb_timestamp (blk 0) \<le> t"
    and inv: "unat low \<le> Suc (unat high)" "high \<le> bound" "\<forall>n < low. lb_timestamp (blk n) < t" "\<forall>n. high < n \<and> n \<le> bound \<longrightarrow> t < lb_timestamp (blk n)"
  shows "timestamp_result get_block bound blk t (timestamp_search get_block t low high)"
  using inv
proof (induction "Suc (unat high) - unat low" arbitrary: low high rule: less_induct)
  case less
  have hb: "unat high \<le> unat bound" using less.prems(2) by (simp add: word_le_nat_alt)
  show ?case
  proof (cases "low \<le> high")
    case False
    then have "unat low = Suc (unat high)" using less.prems(1) by (simp add: word_le_nat_alt)
    then show ?thesis using less.prems(2-4) by (rule timestamp_search_done [OF blocks bound])
  next
    case True
    define mid where "mid = (low + high) div 2"
    have um: "unat mid = (unat low + unat high) div 2" unfolding mid_def using True hb bound by (intro half_sum) (simp add: word_le_nat_alt)
    have mid: "low \<le> mid" "mid \<le> high" "mid \<le> bound" using um True hb by (simp_all add: word_le_nat_alt)
    have step: "timestamp_search get_block t low high =
      (if lb_timestamp (blk mid) = t then Some (Inr (lb_hash (blk mid), mid))
       else if lb_timestamp (blk mid) < t then timestamp_search get_block t (mid + 1) high else timestamp_search get_block t low (mid - 1))"
      by (subst timestamp_search.simps) (simp add: True mid_def [symmetric] blocks_up_toD [OF blocks] mid(3) ok_or_def Let_def)
    have before: "lb_timestamp (blk n) < lb_timestamp (blk mid)" if "n < mid" for n using blocks_up_toD(3) [OF blocks that mid(3)] .
    consider "lb_timestamp (blk mid) = t" | "lb_timestamp (blk mid) < t" | "t < lb_timestamp (blk mid)" by (rule linorder_cases)
    then show ?thesis
    proof cases
      case 1
      then have "first_in (\<lambda>n. t \<le> lb_timestamp (blk n)) 0 bound mid" using mid(3) before by (auto simp: first_in_def not_le)
      with 1 show ?thesis by (auto simp: step timestamp_result_def)
    next
      case 2
      have "Suc (unat mid) < 2 ^ 64" using mid(3) bound by (simp add: word_le_nat_alt)
      then have sc: "unat (mid + 1) = Suc (unat mid)" by (simp add: unat_word_ariths)
      have "timestamp_result get_block bound blk t (timestamp_search get_block t (mid + 1) high)"
      proof (rule less.hyps)
        show "\<forall>n < mid + 1. lb_timestamp (blk n) < t"
          using 2 before sc by (auto simp: word_less_nat_alt less_Suc_eq word_unat_eq_iff [symmetric] intro: order.strict_trans)
      qed (use less.prems sc um True in \<open>auto simp: word_le_nat_alt\<close>)
      then show ?thesis using 2 by (auto simp: step)
    next
      case 3
      have pos: "0 < mid" using 3 genesis by (metis leD word_gt_0)
      have "timestamp_result get_block bound blk t (timestamp_search get_block t low (mid - 1))"
      proof (rule less.hyps)
        show "\<forall>n. mid - 1 < n \<and> n \<le> bound \<longrightarrow> t < lb_timestamp (blk n)"
        proof (intro allI impI)
          fix n assume n: "mid - 1 < n \<and> n \<le> bound"
          then have "unat mid - 1 < unat n" using u64_pred [OF pos] by (simp add: word_less_nat_alt)
          then have "mid \<le> n" unfolding word_le_nat_alt by linarith
          then have "lb_timestamp (blk mid) \<le> lb_timestamp (blk n)"
            using blocks_up_toD(3) [OF blocks, of mid n] n by (cases "mid = n") (simp_all add: less_imp_le)
          with 3 show "t < lb_timestamp (blk n)" by (rule order.strict_trans2)
        qed
      qed (use less.prems u64_pred [OF pos] um True mid pos in \<open>auto simp: word_le_nat_alt word_less_nat_alt\<close>)
      then show ?thesis using 3 by (auto simp: step)
    qed
  qed
qed

section \<open>Properties\<close>

text \<open>C20: The L1 head of a proof derives the proof's last block. With a safe-head database that covers the selected L1 block, \<open>calculate_safe_l1_head\<close> returns:
  if no block up to the selected one has a safe head at the end block, it fails; else it gives the hash of a block not above the selected one whose safe head
  has reached the end block, namely the entry of the first such block plus the buffer of 20, capped.\<close>

theorem calculate_safe_l1_head_derives:
  assumes "ft_rollup_config ft \<noteq> None" "resolve_selected_l1_header nd (ft_l1_selection ft) = Inr selected" "n_l1_origin nd e = Inr origin" "0 < origin"
    and head: "ch_number (lb_header selected) = head" "unat head < 2 ^ 63" and db: "safe_db nd head sh"
    and blocks: "blocks_up_to (n_l1_block nd \<circ> BlockNumber) head blk"
  shows "(\<exists>k n. first_in (\<lambda>n. e \<le> sr_safe_head (sh n)) origin head k \<and> n = min (sr_l1_number (sh k) + 20) head \<and> e \<le> sr_safe_head (sh n) \<and>
      calculate_safe_l1_head ft nd e False = Some (Inr (n_hash_slow nd (lb_header (blk n))))) \<or>
    (\<forall>k. origin \<le> k \<and> k \<le> head \<longrightarrow> sr_safe_head (sh k) < e) \<and> (\<exists>m. calculate_safe_l1_head ft nd e False = Some (Inl (Err m)))"
proof -
  have max: "head \<noteq> - 1" using head(2) by (auto simp: unsigned_minus_1_eq_mask mask_eq_exp_minus_1)
  consider k where "first_in (\<lambda>n. e \<le> sr_safe_head (sh n)) origin head k"
      "get_safe_l1_block_for_l2_block nd (ft_l1_selection ft) e = Some (Inr (sr_l1_block (sh k)))"
    | "\<forall>k. origin \<le> k \<and> k \<le> head \<longrightarrow> sr_safe_head (sh k) < e" "\<exists>m. get_safe_l1_block_for_l2_block nd (ft_l1_selection ft) e = Some (Inl (Err m))"
    using get_safe_l1_block_spec [OF assms(2-4) head(1) max db] by blast
  then show ?thesis
  proof cases
    case (1 k)
    let ?l1 = "sr_l1_number (sh k)" let ?n = "min (?l1 + 20) head"
    have k: "k \<le> head" "e \<le> sr_safe_head (sh k)" using 1(1) by (simp_all add: first_in_def)
    have le: "?l1 \<le> head" using safe_dbD(2) [OF db k(1)] k(1) by (rule order_trans)
    then have "?l1 \<le> ?l1 + 20" using head(2) by (simp add: word_le_nat_alt unat_word_ariths)
    then have "sr_safe_head (sh ?l1) \<le> sr_safe_head (sh ?n)" using le by (intro safe_dbD(4) [OF db]) auto
    then have covers: "e \<le> sr_safe_head (sh ?n)" using k(2) safe_dbD(3) [OF db k(1)] by simp
    have "get_l1_header nd (BlockNumber ?n) = Inr (lb_header (blk ?n))"
      using blocks_up_toD(1) [OF blocks, of ?n] by (simp add: get_l1_header_def get_l1_block_def ok_or_def)
    then have "calculate_safe_l1_head ft nd e False = Some (Inr (n_hash_slow nd (lb_header (blk ?n))))"
      using assms(1,2) 1(2) head(1) by (simp add: calculate_safe_l1_head_def get_l1_head_def Let_def)
    with 1(1) covers show ?thesis by blast
  next
    case 2
    then show ?thesis using assms(1) by (auto simp: calculate_safe_l1_head_def get_l1_head_def Let_def)
  qed
qed

text \<open>The timestamp fallback stays below the selected L1 block. On a node with one chain of increasing timestamps, when the safe-head database gives no answer
  the fallback returns the first block whose timestamp is at least the end block's plus 40 minutes, capped at the selected block's timestamp; that block is not
  above the selected one.\<close>

theorem l1_head_fallback_first:
  assumes "ft_rollup_config ft \<noteq> None" "resolve_selected_l1_header nd (ft_l1_selection ft) = Inr selected"
    and fails: "get_safe_l1_block_for_l2_block nd (ft_l1_selection ft) e = Some (Inl (Err m))" and l2: "get_l2_header nd (BlockNumber e) = Inr l2_block"
    and head: "ch_number (lb_header selected) = head" "unat head < 2 ^ 63" "selected = blk head"
    and blocks: "blocks_up_to (n_l1_block nd \<circ> BlockNumber) head blk" and genesis: "lb_timestamp (blk 0) \<le> l2_timestamp l2_block + 40 * 60"
  shows "\<exists>k \<le> head. first_in (\<lambda>n. min (l2_timestamp l2_block + 40 * 60) (lb_timestamp (blk head)) \<le> lb_timestamp (blk n)) 0 head k \<and>
    get_l1_head ft nd e True = Some (Inr (lb_hash (blk k), k))"
proof -
  let ?t = "min (l2_timestamp l2_block + 40 * 60) (lb_timestamp (blk head))"
  have zero: "lb_timestamp (blk 0) \<le> ?t"
    using genesis blocks_up_toD(3) [OF blocks, of 0 head] by (cases "head = 0") (auto simp: word_gt_0 less_imp_le)
  have "timestamp_result (n_l1_block nd \<circ> BlockNumber) head blk ?t (timestamp_search (n_l1_block nd \<circ> BlockNumber) ?t 0 head)"
    by (rule timestamp_search_spec [OF blocks head(2) zero]) auto
  moreover have "\<not> lb_timestamp (blk head) < ?t" by simp
  ultimately obtain k where k: "first_in (\<lambda>n. ?t \<le> lb_timestamp (blk n)) 0 head k"
    "timestamp_search (n_l1_block nd \<circ> BlockNumber) ?t 0 head = Some (Inr (lb_hash (blk k), k))"
    unfolding timestamp_result_def by blast
  have "get_l1_head ft nd e True = timestamp_search (n_l1_block nd \<circ> BlockNumber) ?t 0 head"
    using assms(1,2) fails l2 head(1,3) by (auto simp: get_l1_head_def find_l1_block_by_timestamp_def find_block_by_timestamp_def Let_def)
  with k show ?thesis by (auto simp: first_in_def)
qed

lemma timestamp_search_underflow:
  assumes blocks: "blocks_up_to get_block bound blk" and bound: "unat bound < 2 ^ 63" and genesis: "t < lb_timestamp (blk 0)"
    and short: "get_block 0x7FFFFFFFFFFFFFFF = Inr None" and high: "high \<le> bound"
  shows "timestamp_search get_block t 0 high = Some (Inl (Err ''Failed to get block for block''))"
  using high
proof (induction "unat high" arbitrary: high rule: less_induct)
  case less
  have hb: "unat high \<le> unat bound" using less.prems by (simp add: word_le_nat_alt)
  define mid where "mid = high div 2"
  have um: "unat mid = unat high div 2" by (simp add: mid_def unat_div)
  have mb: "mid \<le> bound" using um hb by (simp add: word_le_nat_alt)
  have "lb_timestamp (blk 0) \<le> lb_timestamp (blk mid)"
    using blocks_up_toD(3) [OF blocks, of 0 mid] mb by (cases "mid = 0") (auto simp: word_gt_0 less_imp_le)
  with genesis have later: "t < lb_timestamp (blk mid)" by (rule order.strict_trans2)
  have step: "timestamp_search get_block t 0 high = timestamp_search get_block t 0 (mid - 1)"
    using later by (subst timestamp_search.simps) (auto simp: mid_def [symmetric] blocks_up_toD [OF blocks] mb ok_or_def Let_def)
  show ?case
  proof (cases "mid = 0")
    case True
    have "timestamp_search get_block t 0 (- 1) = Some (Inl (Err ''Failed to get block for block''))"
      using short by (subst timestamp_search.simps) (simp add: ok_or_def Let_def)
    with True show ?thesis by (simp add: step)
  next
    case False
    then have pos: "0 < mid" by (simp add: word_gt_0)
    have "unat (mid - 1) < unat high" using u64_pred [OF pos] pos um by (simp add: word_less_nat_alt)
    moreover have "mid - 1 \<le> bound" using u64_pred [OF pos] mb by (simp add: word_le_nat_alt)
    ultimately show ?thesis unfolding step by (rule less.hyps)
  qed
qed

text \<open>What the search by timestamp returns. On a node with one chain of increasing timestamps it gives the first block at or after the timestamp if the
  bound's block is not before it; if all blocks up to the bound are earlier it gives the block after the bound; and for a timestamp before the
  genesis block it fails, because the upper end of the interval wraps around.\<close>

theorem find_block_by_timestamp_exact:
  assumes blocks: "blocks_up_to get_block bound blk" and bound: "unat bound < 2 ^ 63" and short: "get_block 0x7FFFFFFFFFFFFFFF = Inr None"
  shows "(if t < lb_timestamp (blk 0) then find_block_by_timestamp get_block t bound = Some (Inl (Err ''Failed to get block for block''))
    else if lb_timestamp (blk bound) < t then find_block_by_timestamp get_block t bound = Some (block_hash_number get_block (bound + 1))
    else \<exists>k. first_in (\<lambda>n. t \<le> lb_timestamp (blk n)) 0 bound k \<and> find_block_by_timestamp get_block t bound = Some (Inr (lb_hash (blk k), k)))"
proof (cases "t < lb_timestamp (blk 0)")
  case True
  then show ?thesis using timestamp_search_underflow [OF blocks bound True short order.refl] by (simp add: find_block_by_timestamp_def)
next
  case False
  then have "timestamp_result get_block bound blk t (find_block_by_timestamp get_block t bound)"
    unfolding find_block_by_timestamp_def by (intro timestamp_search_spec [OF blocks bound]) auto
  moreover have "lb_timestamp (blk n) \<le> lb_timestamp (blk bound)" if "n \<le> bound" for n
    using that blocks_up_toD(3) [OF blocks, of n bound] by (cases "n = bound") (simp_all add: less_imp_le)
  ultimately show ?thesis using False unfolding timestamp_result_def first_in_def by (auto dest: order.strict_trans1)
qed

section \<open>Output roots\<close>

definition l2_view_of :: "node \<Rightarrow> l2_view" where
  "l2_view_of nd = \<lparr> get_header_by_number = (\<lambda>n. try_bind (n_l2_block nd (BlockNumber n)) (\<lambda>b. Inr (map_option l2_hdr b))),
     get_proof_storage_hash = n_storage_hash nd, EMPTY_ROOT_HASH = n_EMPTY_ROOT_HASH nd, keccak_L2Output = n_keccak_L2Output nd \<rparr>"

lemma get_l2_output_root_Inr:
  "get_l2_output_root nd n = Inr r \<longleftrightarrow> compute_output_root_at_block (l2_view_of nd) (u256_of_u64 n) = Inr r"
proof -
  have "checked_l2_block_number (u256_of_u64 n) = Inr n"
    using unat_u64_bound [of n] by (simp add: checked_l2_block_number_def fits_u64_def unsigned_ucast_eq take_bit_nat_eq_self_iff)
  moreover have "get_l2_header_by_number (l2_view_of nd) n =
      try_bind (n_l2_block nd (BlockNumber n)) (\<lambda>b. ok_or ''Failed to get L2 block header by number'' (map_option l2_hdr b))"
    by (simp add: get_l2_header_by_number_def l2_view_of_def try_bind_def split: sum.split)
  ultimately show ?thesis
    unfolding get_l2_output_root_def get_l2_execution_output_def compute_output_root_at_block_def
    by (cases "n_l2_block nd (BlockNumber n)"; cases "projr (n_l2_block nd (BlockNumber n))")
      (auto simp: output_root_def l2_to_l1_message_passer_storage_root_def l2_view_of_def get_l2_storage_root_def try_bind_def ok_or_def
        split: option.splits sum.splits)
qed

lemma get_host_args_Inr:
  assumes "get_host_args ft nd s e l1_head = Inr args"
  shows "s < e \<and> get_l2_output_root nd s = Inr (ha_agreed_l2_output_root args) \<and> get_l2_output_root nd e = Inr (ha_claimed_l2_output_root args) \<and>
    ha_claimed_l2_block_number args = e \<and> ha_l1_head args = l1_head"
  using assms by (auto simp: get_host_args_def try_bind_eq_Inr get_l2_output_root_def Let_def not_le split: option.splits if_splits)

text \<open>C21: The host proves the claim the proposer and the validator compute. Whenever a host of any of the three data availability layers is given its arguments,
  the agreed and the claimed root are the output roots that \<open>compute_output_root_at_block\<close> computes on the same node at the start and the end block; the
  start lies before the end, and the L1 head is the given one or, if none is given, the calculated one.\<close>

theorem host_claim_agrees:
  assumes "ethereum_fetch ft nd s e l1 fb = Some (Inr host) \<and> args = cs_kona_cfg host \<or>
    altda_fetch ft nd url s e l1 fb = Some (Inr alt) \<and> args = cs_kona_cfg (as_celo_host alt) \<or>
    eigenda_fetch ft nd proxy s e l1 fb = Some (Inr host) \<and> args = cs_kona_cfg host"
  shows "s < e \<and> ha_claimed_l2_block_number args = e \<and>
    compute_output_root_at_block (l2_view_of nd) (u256_of_u64 s) = Inr (ha_agreed_l2_output_root args) \<and>
    compute_output_root_at_block (l2_view_of nd) (u256_of_u64 e) = Inr (ha_claimed_l2_output_root args) \<and>
    (case l1 of Some h \<Rightarrow> ha_l1_head args = h | None \<Rightarrow> calculate_safe_l1_head ft nd e fb = Some (Inr (ha_l1_head args)))"
proof -
  from assms obtain h where h: "host_l1_head ft nd e l1 fb = Some (Inr h)" and args: "get_host_args ft nd s e h = Inr args"
    unfolding ethereum_fetch_def altda_fetch_def eigenda_fetch_def wbind_def
    by (auto simp: try_bind_eq_Inr split: option.splits sum.splits)
  have "case l1 of Some x \<Rightarrow> h = x | None \<Rightarrow> calculate_safe_l1_head ft nd e fb = Some (Inr h)"
    using h by (auto simp: host_l1_head_def split: option.splits)
  then show ?thesis using get_host_args_Inr [OF args] by (auto simp: get_l2_output_root_Inr split: option.splits)
qed

section \<open>Splitting at safe heads\<close>

lemma set_u64_range: "set (u64_range a b) = {n. a \<le> n \<and> n \<le> b}"
proof -
  have "n \<in> of_nat ` {unat a ..< Suc (unat b)} \<longleftrightarrow> a \<le> n \<and> n \<le> b" for n :: u64
  proof
    assume "a \<le> n \<and> n \<le> b"
    then have "unat n \<in> {unat a ..< Suc (unat b)}" by (simp add: word_le_nat_alt)
    then show "n \<in> of_nat ` {unat a ..< Suc (unat b)}" by (rule rev_image_eqI) simp
  next
    assume "n \<in> of_nat ` {unat a ..< Suc (unat b)}"
    then obtain i where i: "n = of_nat i" "unat a \<le> i" "i \<le> unat b" by auto
    then have "unat n = i" using unat_u64_bound [of b] by (simp add: unat_of_nat_u64)
    with i show "a \<le> n \<and> n \<le> b" by (simp add: word_le_nat_alt)
  qed
  then show ?thesis unfolding u64_range_def set_map set_upt by blast
qed

lemma collect_all: "(\<And>x. x \<in> set xs \<Longrightarrow> f x = Inr (g x)) \<Longrightarrow> collect_results (map f xs) = Inr (map g xs)"
proof -
  assume f: "\<And>x. x \<in> set xs \<Longrightarrow> f x = Inr (g x)"
  then have "List.find is_panic (map f xs) = None" by (auto simp: find_None_iff is_panic_def)
  moreover have "try_map (\<lambda>r. r) (map f xs) = Inr (map g xs)" using f by (induction xs) auto
  ultimately show ?thesis by (simp add: collect_results_def)
qed

text \<open>Splitting at safe heads tiles the range. With a safe-head database that covers the selected L1 block and reaches the end block, the pieces follow on each
  other from the start to the end block, and none is longer than the maximum.\<close>

theorem split_range_based_on_safe_heads_tiles:
  assumes "resolve_selected_l1_header nd sel = Inr selected" "n_l1_origin nd l2_end = Inr origin" "0 < origin"
    and head: "ch_number (lb_header selected) = head" "head \<noteq> - 1" and db: "safe_db nd head sh"
    and reached: "l2_end \<le> sr_safe_head (sh head)" "origin \<le> head"
    and start: "n_l1_origin nd l2_start = Inr l1_start" "l1_start \<le> head" "sr_safe_head (sh l1_start) < l2_end"
    and sizes: "l2_start < l2_end" "0 < m" "unat l2_end + unat m < 2 ^ 64"
  shows "\<exists>rs. split_range_based_on_safe_heads nd sel l2_start l2_end m = Some (Inr rs) \<and> chained l2_start l2_end rs \<and>
    (\<forall>(a, b) \<in> set rs. unat b - unat a \<le> unat m)"
proof -
  have "\<not> sr_safe_head (sh head) < l2_end" using reached(1) by simp
  then obtain k where k: "k \<le> head" "l2_end \<le> sr_safe_head (sh k)"
    and found: "get_safe_l1_block_for_l2_block nd sel l2_end = Some (Inr (sr_l1_block (sh k)))"
    using get_safe_l1_block_spec [OF assms(1-3) head db] reached(2) by (auto simp: first_in_def)
  let ?l1 = "sr_l1_number (sh k)"
  have l1: "?l1 \<le> head" "sh ?l1 = sh k" using safe_dbD(2,3) [OF db k(1)] k(1) by auto
  have "l1_start \<le> ?l1"
  proof (rule ccontr)
    assume "\<not> l1_start \<le> ?l1"
    then have "sr_safe_head (sh ?l1) \<le> sr_safe_head (sh l1_start)" using start(2) by (intro safe_dbD(4) [OF db]) auto
    with l1(2) k(2) start(3) show False by simp
  qed
  then have "?l1 \<in> set (u64_range l1_start ?l1)" by (simp add: set_u64_range)
  let ?hs = "map (\<lambda>n. sr_safe_head (sh n)) (u64_range l1_start ?l1)"
  have collected: "collect_results (map (\<lambda>block. case n_safe_head nd block of Inl _ \<Rightarrow> Inl (Panic ''Failed to fetch safe head'') | Inr r \<Rightarrow> Inr (sr_safe_head r))
      (u64_range l1_start ?l1)) = Inr ?hs"
  proof (rule collect_all)
    fix x assume "x \<in> set (u64_range l1_start ?l1)"
    then have "x \<le> head" using l1(1) by (auto simp: set_u64_range)
    then show "(case n_safe_head nd x of Inl _ \<Rightarrow> Inl (Panic ''Failed to fetch safe head'') | Inr r \<Rightarrow> Inr (sr_safe_head r)) = Inr (sr_safe_head (sh x))"
      by (simp add: safe_dbD(1) [OF db])
  qed
  from \<open>?l1 \<in> _\<close> have "sr_safe_head (sh ?l1) \<in> set ?hs" by simp
  then have "\<exists>h \<in> set (sort (remdups ?hs)). l2_end \<le> h" using k(2) unfolding l1(2) by (intro bexI [of _ "sr_safe_head (sh k)"]) simp_all
  then obtain rs where rs: "split_at_safe_heads l2_end m l2_start (sort (remdups ?hs)) = Some rs" "chained l2_start l2_end rs"
    "\<forall>(a, b) \<in> set rs. unat b - unat a \<le> unat m"
    using split_at_safe_heads_chained [OF sizes(2,3,1)] by fastforce
  then have "split_range_based_on_safe_heads nd sel l2_start l2_end m = Some (Inr rs)"
    using start(1) found collected by (simp add: split_range_based_on_safe_heads_def)
  with rs show ?thesis by blast
qed

section \<open>Witnesses\<close>

text \<open>An L1 chain of eleven blocks, 12 seconds apart, each making ten more L2 blocks safe.\<close>

definition fe_block :: "u64 \<Rightarrow> l1_block" where
  "fe_block n = \<lparr> lb_header = \<lparr> ch_number = n, ch_parent_hash = 99 + ucast n, ch_content = [] \<rparr>, lb_hash = 100 + ucast n, lb_timestamp = 12 * n \<rparr>"

definition fe_safe_head :: "u64 \<Rightarrow> safe_head_answer" where
  "fe_safe_head n = \<lparr> sr_l1_number = n, sr_l1_hash = 100 + ucast n, sr_safe_head = 10 * n \<rparr>"

definition fe_l2_block :: "u64 \<Rightarrow> l2_block" where
  "fe_l2_block n = \<lparr> l2_number = n, l2_timestamp = n, l2_gas_used = 0, l2_transactions = 1,
     l2_hdr = \<lparr> h_state_root = ucast n, h_hash = 7, h_withdrawals_root = Some 3 \<rparr> \<rparr>"

definition fe_node :: node where
  "fe_node = \<lparr> n_l1_block = (\<lambda>b. Inr (case b of BlockNumber n \<Rightarrow> if n \<le> 10 then Some (fe_block n) else None | BlockFinalized \<Rightarrow> Some (fe_block 10) | _ \<Rightarrow> None)),
     n_l2_block = (\<lambda>b. Inr (case b of BlockNumber n \<Rightarrow> Some (fe_l2_block n) | BlockFinalized \<Rightarrow> Some (fe_l2_block 90) | _ \<Rightarrow> None)),
     n_receipts = (\<lambda>_. Inr None), n_storage_hash = (\<lambda>_ _. Inr 4), n_l1_origin = (\<lambda>n. Inr (n div 20 + 1)),
     n_safe_head = (\<lambda>n. Inr (fe_safe_head n)), n_safe_head_raw = (\<lambda>_. Inr JNull), n_parse_safe_head = (\<lambda>_. None),
     n_hash_slow = (\<lambda>h. 100 + ucast (ch_number h)), n_EMPTY_ROOT_HASH = 0, n_keccak_L2Output = (\<lambda>_ s _ _. s + 1) \<rparr>"

definition fe_fetcher :: fetcher where
  "fe_fetcher = \<lparr> ft_rpc_config = \<lparr> rp_l1_rpc = ''http://l1/'', rp_l1_beacon_rpc = None, rp_l2_rpc = ''http://l2/'', rp_l2_node_rpc = ''http://node/'' \<rparr>,
     ft_rollup_config = Some \<lparr> rf_l2_chain_id = 42220, rf_l1_chain_id = 1, rf_fjord_max_sequencer_drift = 2892, rf_rest = [] \<rparr>,
     ft_rollup_config_path = None, ft_l1_config_path = None, ft_l1_selection = l1_selection_default \<rparr>"

lemma fe_times: "n \<le> 10 \<Longrightarrow> unat (10 * n) = 10 * unat n \<and> unat (12 * n) = 12 * unat n" for n :: u64
  by (simp add: word_le_nat_alt unat_word_ariths)

lemma fe_blocks: "blocks_up_to (n_l1_block fe_node \<circ> BlockNumber) 10 fe_block"
  unfolding blocks_up_to_def
proof (intro conjI allI impI)
  fix a b :: u64 assume ab: "a < b \<and> b \<le> 10"
  then have "a \<le> 10" by auto
  with ab show "lb_timestamp (fe_block a) < lb_timestamp (fe_block b)" by (simp add: fe_block_def word_less_nat_alt [of "12 * a"] fe_times) (simp add: word_less_nat_alt)
qed (simp_all add: fe_node_def fe_block_def)

lemma fe_db: "safe_db fe_node 10 fe_safe_head"
  unfolding safe_db_def
proof (intro conjI allI impI)
  fix a b :: u64 assume ab: "a \<le> b \<and> b \<le> 10"
  then have "a \<le> 10" by auto
  with ab show "sr_safe_head (fe_safe_head a) \<le> sr_safe_head (fe_safe_head b)" by (simp add: fe_safe_head_def word_le_nat_alt [of "10 * a"] fe_times) (simp add: word_le_nat_alt)
qed (simp_all add: fe_node_def fe_safe_head_def)

lemma fe_selected: "resolve_selected_l1_header fe_node l1_selection_default = Inr (fe_block 10)" "ch_number (lb_header (fe_block 10)) = 10"
  "unat (10 :: u64) < 2 ^ 63" "ft_rollup_config fe_fetcher \<noteq> None" "ft_l1_selection fe_fetcher = l1_selection_default"
  by (simp_all add: resolve_selected_l1_header_def get_l1_block_def to_block_id_def l1_selection_default_def fe_node_def fe_block_def fe_fetcher_def ok_or_def)

theorem calculate_safe_l1_head_derives_witness:
  "\<exists>n. 35 \<le> sr_safe_head (fe_safe_head n) \<and> calculate_safe_l1_head fe_fetcher fe_node 35 False = Some (Inr (n_hash_slow fe_node (lb_header (fe_block n))))"
proof -
  have origin: "n_l1_origin fe_node 35 = Inr 2" "(0 :: u64) < 2" by (simp_all add: fe_node_def)
  have "\<not> sr_safe_head (fe_safe_head 10) < 35" by (simp add: fe_safe_head_def)
  with calculate_safe_l1_head_derives [OF fe_selected(4) fe_selected(1) [folded fe_selected(5)] origin fe_selected(2,3) fe_db fe_blocks]
  show ?thesis by force
qed

theorem find_block_by_timestamp_exact_witness:
  "\<exists>k. first_in (\<lambda>n. 30 \<le> lb_timestamp (fe_block n)) 0 10 k \<and>
     find_block_by_timestamp (n_l1_block fe_node \<circ> BlockNumber) 30 10 = Some (Inr (lb_hash (fe_block k), k))"
proof -
  have "(n_l1_block fe_node \<circ> BlockNumber) 0x7FFFFFFFFFFFFFFF = Inr None" by (simp add: fe_node_def)
  moreover have "\<not> 30 < lb_timestamp (fe_block 0)" "\<not> lb_timestamp (fe_block 10) < 30" by (simp_all add: fe_block_def)
  ultimately show ?thesis using find_block_by_timestamp_exact [OF fe_blocks fe_selected(3), of 30] by simp
qed

definition fe_node_without_db :: node where
  "fe_node_without_db = fe_node\<lparr>n_safe_head := (\<lambda>_. Inl (Err ''safeDB is not enabled''))\<rparr>"

theorem l1_head_fallback_first_witness: "\<exists>k \<le> 10. get_l1_head fe_fetcher fe_node_without_db 35 True = Some (Inr (lb_hash (fe_block k), k))"
proof -
  have sel: "resolve_selected_l1_header fe_node_without_db (ft_l1_selection fe_fetcher) = Inr (fe_block 10)" by code_simp
  have fails: "get_safe_l1_block_for_l2_block fe_node_without_db (ft_l1_selection fe_fetcher) 35 = Some (Inl (Err ''safeDB is not enabled''))" by code_simp
  have l2: "get_l2_header fe_node_without_db (BlockNumber 35) = Inr (fe_l2_block 35)" by code_simp
  have blocks: "blocks_up_to (n_l1_block fe_node_without_db \<circ> BlockNumber) 10 fe_block" using fe_blocks by (simp add: fe_node_without_db_def)
  have "lb_timestamp (fe_block 0) \<le> l2_timestamp (fe_l2_block 35) + 40 * 60" by code_simp
  from l1_head_fallback_first [OF fe_selected(4) sel fails l2 fe_selected(2,3) refl blocks this] show ?thesis by blast
qed

theorem host_claim_agrees_witness:
  "\<exists>host. ethereum_fetch fe_fetcher fe_node 20 35 None False = Some (Inr host) \<and>
     compute_output_root_at_block (l2_view_of fe_node) (u256_of_u64 35) = Inr (ha_claimed_l2_output_root (cs_kona_cfg host))"
proof -
  define host where "host = projr (the (ethereum_fetch fe_fetcher fe_node 20 35 None False))"
  have run: "ethereum_fetch fe_fetcher fe_node 20 35 None False = Some (Inr host)" unfolding host_def by code_simp
  with host_claim_agrees [of fe_fetcher fe_node 20 35 None False host "cs_kona_cfg host" None "\<lparr> as_celo_host = host, as_altda_server_url = None \<rparr>" None] show ?thesis by blast
qed

theorem split_range_based_on_safe_heads_tiles_witness:
  "\<exists>rs. split_range_based_on_safe_heads fe_node l1_selection_default 20 35 6 = Some (Inr rs) \<and> chained 20 35 rs"
proof -
  have "n_l1_origin fe_node 35 = Inr 2" "n_l1_origin fe_node 20 = Inr 2" "(0 :: u64) < 2" by (simp_all add: fe_node_def)
  moreover have "(10 :: u64) \<noteq> - 1" "35 \<le> sr_safe_head (fe_safe_head 10)" "sr_safe_head (fe_safe_head 2) < 35" by (simp_all add: fe_safe_head_def)
  ultimately show ?thesis
    using split_range_based_on_safe_heads_tiles [OF fe_selected(1), of 35 2 10 fe_safe_head 20 2 6] fe_selected(2) fe_db by auto
qed

end
