(* ===== verification/AltDA.thy ===== *)
theory AltDA
  imports Programs Strings Fetcher
begin

text \<open>
  Alternative data availability: the data source that resolves commitments inside the program, the oracles it runs
  on, and the host that fetches the committed batches.

  \<^item> \<open>utils/altda/client/src/hint.rs\<close> and \<open>data_source.rs\<close>: the hint type and \<open>AltDADataSource\<close>, a state machine around
    kona's \<open>EthereumDataSource\<close> (a parameter) with one pending commitment;
  \<^item> \<open>utils/client/src/witness/preimage_store.rs\<close> and \<open>utils/host/src/witness_generation/preimage_witness_collector.rs\<close>:
    the two oracle clients of the repository, the store the zkVM reads and the collector that records it on the host;
  \<^item> \<open>utils/altda/host/src/cfg.rs\<close> and \<open>handler.rs\<close>: the hint types, the start of the preimage server and the hint handler.

  The main results: a run of the data source delivers exactly what the posted transactions commit to
  (\<open>altda_run_delivers\<close>), a run on the collected witness repeats the run on the host (\<open>altda_replay\<close>), and a batch the
  DA server serves reaches the pipeline (\<open>altda_end_to_end\<close>).
\<close>

section \<open>Oracle clients\<close>

text \<open>A \<open>CommsClient\<close>: writing a hint (type and data), reading a preimage, reading one into a buffer of a given length,
  flushing the cache. Failures of the oracle are errors; a panic unwinds.\<close>

record ('k, 'o) comms_client =
  comms_write :: "string \<Rightarrow> u8 list \<Rightarrow> ('o, unit) handler"
  comms_get :: "'k \<Rightarrow> ('o, u8 list) handler"
  comms_get_exact :: "'k \<Rightarrow> nat \<Rightarrow> ('o, u8 list) handler"
  comms_flush :: "'o \<Rightarrow> 'o"

definition preimage_store_client :: "('k, 'k preimage_store) comms_client" where
  "preimage_store_client =
     \<lparr> comms_write = (\<lambda>_ _. ret ()),
       comms_get = (\<lambda>key st. (get_preimage st key, st)),
       comms_get_exact = (\<lambda>key len st. (get_exact st key len, st)),
       comms_flush = id \<rparr>"

text \<open>The collector: the oracle it wraps, the store behind a mutex, and whether the mutex is poisoned by a panic of a
  thread that held it.\<close>

record ('k, 'o) witness_collector =
  preimage_oracle :: 'o
  preimage_witness_store :: "'k preimage_store"
  store_poisoned :: bool

definition collector_save :: "'k preimage_env \<Rightarrow> 'k \<Rightarrow> u8 list \<Rightarrow> (('k, 'o) witness_collector, unit) handler" where
  "collector_save penv key value w =
     (if store_poisoned w then (Inl (Err ''Failed to acquire preimage_witness_store lock''), w)
      else case save_preimage penv key value (preimage_witness_store w) of
        (r, st) \<Rightarrow> (r, w\<lparr> preimage_witness_store := st, store_poisoned := is_panic r \<rparr>))"

definition on_oracle :: "('o, 'a) handler \<Rightarrow> (('k, 'o) witness_collector, 'a) handler" where
  "on_oracle m w = (case m (preimage_oracle w) of (r, o') \<Rightarrow> (r, w\<lparr> preimage_oracle := o' \<rparr>))"

definition collector_client :: "'k preimage_env \<Rightarrow> ('k, 'o) comms_client \<Rightarrow> ('k, ('k, 'o) witness_collector) comms_client" where
  "collector_client penv inner =
     \<lparr> comms_write = (\<lambda>ty d. on_oracle (comms_write inner ty d)),
       comms_get = (\<lambda>key. seq (on_oracle (comms_get inner key)) (\<lambda>value. seq (collector_save penv key value) (\<lambda>_. ret value))),
       comms_get_exact = (\<lambda>key len. seq (on_oracle (comms_get_exact inner key len)) (\<lambda>buf. seq (collector_save penv key buf) (\<lambda>_. ret buf))),
       comms_flush = (\<lambda>w. w\<lparr> preimage_oracle := comms_flush inner (preimage_oracle w) \<rparr>) \<rparr>"

section \<open>The data source\<close>

datatype altda_hint_type = AltDACommitmentHint

fun altda_hint_display :: "altda_hint_type \<Rightarrow> string" where
  "altda_hint_display AltDACommitmentHint = ''altda-commitment''"

definition ALTDA_DERIVATION_VERSION :: u8 where
  "ALTDA_DERIVATION_VERSION = 1"

definition KECCAK256_COMMITMENT_TYPE :: u8 where
  "KECCAK256_COMMITMENT_TYPE = 0"

definition GENERIC_COMMITMENT_TYPE :: u8 where
  "GENERIC_COMMITMENT_TYPE = 1"

definition DEFAULT_MAX_INPUT_SIZE :: u64 where
  "DEFAULT_MAX_INPUT_SIZE = 130672"

lemmas altda_constants = ALTDA_DERIVATION_VERSION_def KECCAK256_COMMITMENT_TYPE_def GENERIC_COMMITMENT_TYPE_def

text \<open>The errors of kona's pipeline the code distinguishes; a panic below the data source unwinds through it.\<close>

datatype pipeline_error = PipelineEof | NotEnoughData | ProviderError string | OtherPipelineError string

datatype pipeline_error_kind = Temporary pipeline_error | Critical pipeline_error | PipelineReset string

datatype pipeline_failure = PipelineErr pipeline_error_kind | PipelinePanic string

type_synonym pipeline_result = "pipeline_failure + u8 list"

abbreviation not_enough_data :: pipeline_result where
  "not_enough_data \<equiv> Inl (PipelineErr (Temporary NotEnoughData))"

record pending_commitment =
  pc_encoded :: "u8 list"
  pc_commitment_type :: u8
  pc_commitment_data :: "u8 list"

record ('src, 'o) altda_source =
  ads_ethereum_source :: 'src
  ads_oracle :: 'o
  ads_max_input_size :: u64
  ads_pending_commitment :: "pending_commitment option"

text \<open>What the data source calls of other crates: the hashes and preimage keys, and the inner data source.\<close>

record ('k, 'src, 'ref) altda_env =
  ads_preimages :: "'k preimage_env"
  source_next :: "'ref \<Rightarrow> address \<Rightarrow> 'src \<Rightarrow> pipeline_result \<times> 'src"
  source_clear :: "'src \<Rightarrow> 'src"

text \<open>\<open>alt_da_config\<close> of the rollup configuration, if any, with its optional \<open>da_max_input_size\<close>.\<close>

definition altda_new :: "'src \<Rightarrow> 'o \<Rightarrow> u64 option option \<Rightarrow> ('src, 'o) altda_source result" where
  "altda_new ethereum_source oracle alt_da_config =
     (let max_input_size = (case Option.bind alt_da_config (\<lambda>config. config) of None \<Rightarrow> DEFAULT_MAX_INPUT_SIZE | Some n \<Rightarrow> n) in
      try_bind (ensure (max_input_size > 0) ''AltDA da_max_input_size must be greater than zero'') (\<lambda>_.
      Inr \<lparr> ads_ethereum_source = ethereum_source, ads_oracle = oracle, ads_max_input_size = max_input_size,
            ads_pending_commitment = None \<rparr>))"

definition altda_clear :: "('k, 'src, 'ref) altda_env \<Rightarrow> ('src, 'o) altda_source \<Rightarrow> ('src, 'o) altda_source" where
  "altda_clear env s = s\<lparr> ads_ethereum_source := source_clear env (ads_ethereum_source s), ads_pending_commitment := None \<rparr>"

text \<open>The part of \<open>next\<close> that reads fresh data: what it returns at once, or the commitment it stores.\<close>

definition altda_accept :: "u8 list \<Rightarrow> pipeline_result + pending_commitment" where
  "altda_accept data =
     (if data = [] then Inl not_enough_data
      else if hd data \<noteq> ALTDA_DERIVATION_VERSION then Inl (Inr data)
      else let commitment_bytes = tl data in
        if commitment_bytes = [] then Inl not_enough_data
        else let commitment_type = hd commitment_bytes; commitment_data = tl commitment_bytes;
                 pending = \<lparr> pc_encoded = commitment_bytes, pc_commitment_type = commitment_type, pc_commitment_data = commitment_data \<rparr> in
          if commitment_type = KECCAK256_COMMITMENT_TYPE then
            (if length commitment_data \<noteq> 32 then Inl not_enough_data else Inr pending)
          else if commitment_type = GENERIC_COMMITMENT_TYPE then
            (if commitment_data = [] then Inl not_enough_data else Inr pending)
          else Inl not_enough_data)"

text \<open>\<open>map_err(|e| PipelineError::Provider(e.to_string()).temp())\<close>.\<close>

fun oracle_failure :: "err \<Rightarrow> pipeline_failure" where
  "oracle_failure (Err m) = PipelineErr (Temporary (ProviderError m))"
| "oracle_failure (Panic m) = PipelinePanic m"

definition resolve_keccak256_commitment ::
  "'k preimage_env \<Rightarrow> ('k, 'o) comms_client \<Rightarrow> pending_commitment \<Rightarrow> 'o \<Rightarrow> pipeline_result \<times> 'o" where
  "resolve_keccak256_commitment penv c commitment orc =
     (if length (pc_commitment_data commitment) \<noteq> 32
      then (Inl (PipelineErr (Critical (ProviderError ''keccak256 commitment must be 32 bytes''))), orc)
      else let commitment_hash = b256_of_bytes (pc_commitment_data commitment) in
      case comms_write c (altda_hint_display AltDACommitmentHint) (pc_encoded commitment) orc of
        (Inl e, orc) \<Rightarrow> (Inl (oracle_failure e), orc)
      | (Inr _, orc) \<Rightarrow>
          (case comms_get c (key_new penv commitment_hash Keccak256) orc of
             (Inl e, orc) \<Rightarrow> (Inl (oracle_failure e), orc)
           | (Inr resolved_data, orc) \<Rightarrow>
               (if keccak256 penv resolved_data \<noteq> commitment_hash
                then Inl (PipelineErr (Critical (ProviderError ''AltDA input does not match Keccak256 commitment'')))
                else Inr resolved_data, orc)))"

text \<open>The second part of \<open>next\<close>: resolving the pending commitment.\<close>

definition altda_resolve ::
  "'k preimage_env \<Rightarrow> ('k, 'o) comms_client \<Rightarrow> pending_commitment \<Rightarrow> ('src, 'o) altda_source \<Rightarrow> pipeline_result \<times> ('src, 'o) altda_source" where
  "altda_resolve penv c commitment s =
     (if pc_commitment_type commitment = KECCAK256_COMMITMENT_TYPE then
        (case resolve_keccak256_commitment penv c commitment (ads_oracle s) of
           (result, orc) \<Rightarrow>
             let s = s\<lparr> ads_oracle := orc \<rparr>; cleared = s\<lparr> ads_pending_commitment := None \<rparr> in
             case result of
               Inr data \<Rightarrow> (if length data > unat (ads_max_input_size s) then not_enough_data else result, cleared)
             | Inl (PipelineErr (Temporary _)) \<Rightarrow> (result, s)
             | Inl (PipelineErr _) \<Rightarrow> (result, cleared)
             | Inl (PipelinePanic _) \<Rightarrow> (result, s))
      else (not_enough_data, s\<lparr> ads_pending_commitment := None \<rparr>))"

definition altda_next ::
  "('k, 'src, 'ref) altda_env \<Rightarrow> ('k, 'o) comms_client \<Rightarrow> 'ref \<Rightarrow> address \<Rightarrow> ('src, 'o) altda_source \<Rightarrow> pipeline_result \<times> ('src, 'o) altda_source" where
  "altda_next env c block_ref batcher_addr s =
     (case ads_pending_commitment s of
        Some commitment \<Rightarrow> altda_resolve (ads_preimages env) c commitment s
      | None \<Rightarrow>
          (case source_next env block_ref batcher_addr (ads_ethereum_source s) of
             (Inl e, src) \<Rightarrow>
               let s = s\<lparr> ads_ethereum_source := src \<rparr> in
               (Inl e, if e = PipelineErr (Temporary PipelineEof) then altda_clear env s else s)
           | (Inr data, src) \<Rightarrow>
               let s = s\<lparr> ads_ethereum_source := src \<rparr> in
               (case altda_accept data of
                  Inl r \<Rightarrow> (r, s)
                | Inr commitment \<Rightarrow>
                    altda_resolve (ads_preimages env) c commitment (s\<lparr> ads_pending_commitment := Some commitment \<rparr>))))"

text \<open>A run: the pipeline calls \<open>next\<close> for a sequence of L1 blocks and batcher addresses. Besides the results it keeps
  the data the inner source delivered, which is a ghost value for the statements below.\<close>

definition polled :: "('k, 'src, 'ref) altda_env \<Rightarrow> 'ref \<Rightarrow> address \<Rightarrow> ('src, 'o) altda_source \<Rightarrow> u8 list list" where
  "polled env r a s =
     (if ads_pending_commitment s = None
      then case fst (source_next env r a (ads_ethereum_source s)) of Inl _ \<Rightarrow> [] | Inr d \<Rightarrow> [d]
      else [])"

fun altda_run ::
  "('k, 'src, 'ref) altda_env \<Rightarrow> ('k, 'o) comms_client \<Rightarrow> ('ref \<times> address) list \<Rightarrow> ('src, 'o) altda_source \<Rightarrow>
   pipeline_result list \<times> u8 list list \<times> ('src, 'o) altda_source" where
  "altda_run env c [] s = ([], [], s)"
| "altda_run env c ((r, a) # calls) s =
     (let ds = polled env r a s; (res, s) = altda_next env c r a s; (rs, ds', s) = altda_run env c calls s
      in (res # rs, ds @ ds', s))"

section \<open>The host\<close>

text \<open>\<open>AltDAExtendedHintType\<close> over the hint type of celo-kona, whose parser and printer are parameters.\<close>

datatype 'hint altda_extended_hint = StandardHint 'hint | AltDACommitment

definition extended_from_str :: "(string \<Rightarrow> 'hint result) \<Rightarrow> string \<Rightarrow> 'hint altda_extended_hint result" where
  "extended_from_str celo_from_str s =
     (if s = ''altda-commitment'' then Inr AltDACommitment
      else try_bind (celo_from_str s) (\<lambda>hint. Inr (StandardHint hint)))"

fun extended_display :: "('hint \<Rightarrow> string) \<Rightarrow> 'hint altda_extended_hint \<Rightarrow> string" where
  "extended_display celo_display (StandardHint hint) = celo_display hint"
| "extended_display celo_display AltDACommitment = ''altda-commitment''"

record 'prov altda_providers =
  ap_inner_providers :: 'prov
  ap_da_server_url :: string

text \<open>What the host calls of other crates: the single-chain host of celo-kona, the key-value store, the HTTP client (an
  error, or a status code and the attempt to read the body) and the serializer of the rollup configuration.\<close>

record ('k, 'kv, 'prov, 'hint, 'cfg) altda_host_env =
  keccak_key :: "b256 \<Rightarrow> 'k"
  kv_set :: "'k \<Rightarrow> u8 list \<Rightarrow> ('kv, unit) handler"
  http_get :: "string \<Rightarrow> (nat \<times> u8 list result) result"
  celo_fetch_hint :: "'hint \<Rightarrow> u8 list \<Rightarrow> celo_host \<Rightarrow> 'prov \<Rightarrow> ('kv, unit) handler"
  celo_hint_from_str :: "string \<Rightarrow> 'hint result"
  celo_create_providers :: "celo_host \<Rightarrow> 'prov result"
  create_key_value_store :: "celo_host \<Rightarrow> 'kv result"
  read_rollup_config :: "celo_host \<Rightarrow> 'cfg option result"
  serialize_config :: "'cfg \<Rightarrow> u8 list option"
  celo_is_offline :: "celo_host \<Rightarrow> bool"

text \<open>\<open>hex::encode\<close>.\<close>

fun hex_encode :: "u8 list \<Rightarrow> string" where
  "hex_encode [] = []"
| "hex_encode (b # bs) = hex_digit (unat b div 16) # hex_digit (unat b) # hex_encode bs"

definition da_url :: "string \<Rightarrow> u8 list \<Rightarrow> string" where
  "da_url da_server_url encoded_commitment = da_server_url @ ''/get/0x'' @ hex_encode encoded_commitment"

definition fetch_altda_commitment ::
  "('k, 'kv, 'prov, 'hint, 'cfg) altda_host_env \<Rightarrow> u8 list \<Rightarrow> 'prov altda_providers \<Rightarrow> ('kv, unit) handler" where
  "fetch_altda_commitment env encoded_commitment providers =
     (if encoded_commitment = [] then fail (Err ''AltDA commitment hint data is empty'')
      else let commitment_type = hd encoded_commitment; commitment_data = tl encoded_commitment in
        if commitment_type = KECCAK256_COMMITMENT_TYPE then
          seq (lift (ensure (length commitment_data = 32) ''Keccak256 commitment must be 32 bytes'')) (\<lambda>_.
          let commitment_hash = b256_of_bytes commitment_data; url = da_url (ap_da_server_url providers) encoded_commitment in
          seq (lift (map_err (\<lambda>e. Err (''Failed to fetch from DA server: '' @ to_string e)) (http_get env url))) (\<lambda>(status, bytes).
          seq (lift (ensure (200 \<le> status \<and> status < 300) ''DA server returned error status'')) (\<lambda>_.
          seq (lift (map_err (\<lambda>e. Err (''Failed to read DA server response body: '' @ to_string e)) bytes)) (\<lambda>batch_data.
          kv_set env (keccak_key env commitment_hash) batch_data))))
        else if commitment_type = GENERIC_COMMITMENT_TYPE then fail (Err ''Generic AltDA commitments are not supported'')
        else fail (Err ''Unknown AltDA commitment type''))"

definition fetch_hint ::
  "('k, 'kv, 'prov, 'hint, 'cfg) altda_host_env \<Rightarrow> altda_host \<Rightarrow> 'prov altda_providers \<Rightarrow> 'hint altda_extended_hint \<Rightarrow> u8 list \<Rightarrow> ('kv, unit) handler" where
  "fetch_hint env cfg providers ty data =
     (case ty of
        StandardHint ty \<Rightarrow> celo_fetch_hint env ty data (as_celo_host cfg) (ap_inner_providers providers)
      | AltDACommitment \<Rightarrow> fetch_altda_commitment env data providers)"

definition create_providers :: "('k, 'kv, 'prov, 'hint, 'cfg) altda_host_env \<Rightarrow> altda_host \<Rightarrow> 'prov altda_providers result" where
  "create_providers env self =
     try_bind (celo_create_providers env (as_celo_host self)) (\<lambda>inner_providers.
     try_bind (ok_or ''AltDA server URL must be set'' (as_altda_server_url self)) (\<lambda>da_server_url.
     Inr \<lparr> ap_inner_providers = inner_providers, ap_da_server_url = da_server_url \<rparr>))"

text \<open>The server that is started: its store, the configuration it serves, and, online, the providers and the high-level
  hint of its backend.\<close>

record ('kv, 'prov, 'hint) altda_server =
  sv_kv_store :: 'kv
  sv_rollup_config_json :: "u8 list option"
  sv_online :: "('prov altda_providers \<times> 'hint altda_extended_hint) option"

definition start_server :: "('k, 'kv, 'prov, 'hint, 'cfg) altda_host_env \<Rightarrow> altda_host \<Rightarrow> ('kv, 'prov, 'hint) altda_server result" where
  "start_server env self =
     try_bind (create_key_value_store env (as_celo_host self)) (\<lambda>kv_store.
     try_bind (read_rollup_config env (as_celo_host self)) (\<lambda>cfg.
     let rollup_config_json = Option.bind cfg (serialize_config env);
         server = \<lparr> sv_kv_store = kv_store, sv_rollup_config_json = rollup_config_json, sv_online = None \<rparr> in
     if celo_is_offline env (as_celo_host self) then Inr server
     else try_bind (create_providers env self) (\<lambda>providers.
       case extended_from_str (celo_hint_from_str env) ''l2-payload-witness'' of
         Inl _ \<Rightarrow> Inl (Panic ''l2-payload-witness is a valid hint type'')
       | Inr high_level_hint \<Rightarrow> Inr (server\<lparr> sv_online := Some (providers, high_level_hint) \<rparr>))))"

section \<open>What a run delivers\<close>

text \<open>
  The specification: a transaction whose data is \<open>0x01 0x00\<close> and 32 bytes commits to the batch with that hash.
  \<open>delivery keccak limit ds p out\<close> holds when the transactions \<open>ds\<close>, in order, have given the batches \<open>out\<close>, with the
  commitment \<open>p\<close> of the last one still to be resolved: other versions pass unchanged, a commitment gives the one batch with
  its hash, and only malformed transactions and batches above the limit give nothing.
\<close>

definition commitment_of :: "u8 list \<Rightarrow> b256 option" where
  "commitment_of d = (if length d = 34 \<and> d ! 0 = 1 \<and> d ! 1 = 0 then Some (b256_of_bytes (drop 2 d)) else None)"

inductive delivery :: "(u8 list \<Rightarrow> b256) \<Rightarrow> nat \<Rightarrow> u8 list list \<Rightarrow> b256 option \<Rightarrow> u8 list list \<Rightarrow> bool" for h limit where
  start: "delivery h limit [] None []"
| malformed: "delivery h limit ds None bs \<Longrightarrow> d = [] \<or> hd d = 1 \<and> commitment_of d = None \<Longrightarrow> delivery h limit (ds @ [d]) None bs"
| plain: "delivery h limit ds None bs \<Longrightarrow> d \<noteq> [] \<Longrightarrow> hd d \<noteq> 1 \<Longrightarrow> delivery h limit (ds @ [d]) None (bs @ [d])"
| committed: "delivery h limit ds None bs \<Longrightarrow> commitment_of d = Some c \<Longrightarrow> delivery h limit (ds @ [d]) (Some c) bs"
| resolved: "delivery h limit ds (Some (h b)) bs \<Longrightarrow> length b \<le> limit \<Longrightarrow> delivery h limit ds None (bs @ [b])"
| oversized: "delivery h limit ds (Some (h b)) bs \<Longrightarrow> length b > limit \<Longrightarrow> delivery h limit ds None bs"

definition pending_hash :: "('src, 'o) altda_source \<Rightarrow> b256 option" where
  "pending_hash s = map_option (b256_of_bytes \<circ> pc_commitment_data) (ads_pending_commitment s)"

text \<open>A pending commitment between two calls is a complete Keccak256 commitment.\<close>

definition pending_ok :: "pending_commitment \<Rightarrow> bool" where
  "pending_ok p \<longleftrightarrow> pc_commitment_type p = KECCAK256_COMMITMENT_TYPE \<and> length (pc_commitment_data p) = 32 \<and>
     pc_encoded p = pc_commitment_type p # pc_commitment_data p"

definition altda_ok :: "('src, 'o) altda_source \<Rightarrow> bool" where
  "altda_ok s \<longleftrightarrow> (case ads_pending_commitment s of None \<Rightarrow> True | Some p \<Rightarrow> pending_ok p)"

fun oks :: "('e + 'a) list \<Rightarrow> 'a list" where
  "oks [] = []"
| "oks (Inr x # rs) = x # oks rs"
| "oks (Inl e # rs) = oks rs"

fun critical :: "pipeline_result \<Rightarrow> bool" where
  "critical (Inl (PipelineErr (Critical e))) = True"
| "critical r = False"

lemma oks_append: "oks (xs @ ys) = oks xs @ oks ys"
  by (induction xs rule: oks.induct) auto

text \<open>The two halves of \<open>next\<close>.\<close>

lemma altda_accept_cases:
  obtains (skip) "altda_accept d = Inl not_enough_data" "d = [] \<or> hd d = 1 \<and> commitment_of d = None"
  | (pass) "altda_accept d = Inl (Inr d)" "d \<noteq> []" "hd d \<noteq> 1"
  | (keccak) p where "altda_accept d = Inr p" "pending_ok p" "commitment_of d = Some (b256_of_bytes (pc_commitment_data p))"
  | (generic) p where "altda_accept d = Inr p" "pc_commitment_type p \<noteq> KECCAK256_COMMITMENT_TYPE" "hd d = 1" "commitment_of d = None"
proof (cases d)
  case Nil
  then show ?thesis using skip by (simp add: altda_accept_def)
next
  case d: (Cons v ds)
  show ?thesis
  proof (cases ds)
    case Nil
    with d show ?thesis using skip pass by (cases "v = 1") (auto simp: altda_accept_def altda_constants commitment_of_def)
  next
    case (Cons ty cd)
    consider "v \<noteq> 1" | "v = 1" "ty = 0" "length cd = 32" | "v = 1" "ty = 1" "cd \<noteq> []"
      | "v = 1" "\<not> (ty = 0 \<and> length cd = 32)" "\<not> (ty = 1 \<and> cd \<noteq> [])" by blast
    then show ?thesis
    proof cases
      case 1
      with d Cons show ?thesis using pass by (simp add: altda_accept_def altda_constants)
    next
      case 2
      with d Cons show ?thesis
        by (intro keccak) (auto simp: altda_accept_def altda_constants commitment_of_def pending_ok_def)
    next
      case 3
      with d Cons show ?thesis by (intro generic) (auto simp: altda_accept_def altda_constants commitment_of_def)
    next
      case 4
      with d Cons show ?thesis by (intro skip) (auto simp: altda_accept_def altda_constants commitment_of_def Let_def)
    qed
  qed
qed

lemma resolve_keccak_Inr:
  "resolve_keccak256_commitment penv c p orc = (Inr b, orc') \<Longrightarrow> keccak256 penv b = b256_of_bytes (pc_commitment_data p)"
  by (auto simp: resolve_keccak256_commitment_def Let_def split: if_splits prod.splits sum.splits)

lemma oracle_failure_not_reset: "oracle_failure e \<noteq> PipelineErr (PipelineReset k)" "oracle_failure e \<noteq> PipelineErr (Critical k')"
  by (cases e; simp)+

lemma resolve_keccak_Inl:
  "resolve_keccak256_commitment penv c p orc = (Inl e, orc') \<Longrightarrow> (\<exists>m. e = oracle_failure m) \<or> (\<exists>m. e = PipelineErr (Critical m))"
  by (auto simp: resolve_keccak256_commitment_def Let_def split: if_splits prod.splits sum.splits)

text \<open>Resolving a complete commitment resolves it, drops it as too large, keeps it for a retry, or ends with a critical error.\<close>

lemma altda_resolve_delivery:
  assumes "altda_resolve penv c p s = (r, s')" "pending_ok p" "ads_pending_commitment s = Some p" "\<not> critical r"
    and "delivery (keccak256 penv) (unat (ads_max_input_size s)) ds (pending_hash s) bs"
  shows "delivery (keccak256 penv) (unat (ads_max_input_size s)) ds (pending_hash s') (bs @ oks [r]) \<and> altda_ok s'"
proof -
  obtain res orc' where res: "resolve_keccak256_commitment penv c p (ads_oracle s) = (res, orc')" by fastforce
  have del: "delivery (keccak256 penv) (unat (ads_max_input_size s)) ds (Some (b256_of_bytes (pc_commitment_data p))) bs"
    using assms(3,5) by (simp add: pending_hash_def)
  show ?thesis
  proof (cases res)
    case (Inr b)
    with del res have b: "delivery (keccak256 penv) (unat (ads_max_input_size s)) ds (Some (keccak256 penv b)) bs"
      using resolve_keccak_Inr by metis
    from assms(1,2) res Inr have s': "s' = s\<lparr> ads_oracle := orc', ads_pending_commitment := None \<rparr>"
      and r: "r = (if length b > unat (ads_max_input_size s) then not_enough_data else Inr b)"
      by (simp_all add: altda_resolve_def pending_ok_def Let_def split: if_splits)
    show ?thesis
    proof (cases "length b > unat (ads_max_input_size s)")
      case True
      with b s' r show ?thesis using delivery.oversized [OF b True] by (simp add: pending_hash_def altda_ok_def)
    next
      case False
      with b s' r show ?thesis using delivery.resolved [OF b] by (simp add: pending_hash_def altda_ok_def)
    qed
  next
    case (Inl e)
    have "\<nexists>k. e = PipelineErr (PipelineReset k)"
      using resolve_keccak_Inl [OF res [unfolded Inl]] by (auto simp: oracle_failure_not_reset oracle_failure_not_reset [symmetric])
    then have "r = Inl e" "s' = s\<lparr> ads_oracle := orc' \<rparr>"
      using Inl res assms(1,2,3,4)
      by (auto simp: altda_resolve_def pending_ok_def Let_def split: if_splits pipeline_failure.splits pipeline_error_kind.splits)
    with assms(2,3) del show ?thesis by (simp add: pending_hash_def altda_ok_def)
  qed
qed

lemma altda_next_max: "altda_next env c r a s = (res, s') \<Longrightarrow> ads_max_input_size s' = ads_max_input_size s"
  by (auto simp: altda_next_def altda_resolve_def altda_clear_def Let_def
           split: option.splits prod.splits sum.splits if_splits pipeline_failure.splits pipeline_error_kind.splits)

lemma altda_next_delivery:
  assumes step: "altda_next env c r a s = (res, s')" and "altda_ok s" "\<not> critical res"
    and del: "delivery (keccak256 (ads_preimages env)) (unat (ads_max_input_size s)) ds (pending_hash s) bs"
  shows "delivery (keccak256 (ads_preimages env)) (unat (ads_max_input_size s)) (ds @ polled env r a s) (pending_hash s') (bs @ oks [res]) \<and>
    altda_ok s'"
proof (cases "ads_pending_commitment s")
  case (Some p)
  with assms have "altda_resolve (ads_preimages env) c p s = (res, s')" "pending_ok p"
    by (simp_all add: altda_next_def altda_ok_def)
  from altda_resolve_delivery [OF this Some \<open>\<not> critical res\<close> del] Some show ?thesis by (simp add: polled_def)
next
  case None
  obtain sr src where src: "source_next env r a (ads_ethereum_source s) = (sr, src)" by fastforce
  let ?s = "s\<lparr> ads_ethereum_source := src \<rparr>"
  from None del have del0: "delivery (keccak256 (ads_preimages env)) (unat (ads_max_input_size s)) ds None bs"
    by (simp add: pending_hash_def)
  show ?thesis
  proof (cases sr)
    case (Inl e)
    with None src step del0 show ?thesis
      by (auto simp: altda_next_def polled_def pending_hash_def altda_ok_def altda_clear_def Let_def)
  next
    case (Inr d)
    with None src have polled: "polled env r a s = [d]" by (simp add: polled_def)
    have next_eq: "altda_next env c r a s = (case altda_accept d of Inl r \<Rightarrow> (r, ?s)
       | Inr p \<Rightarrow> altda_resolve (ads_preimages env) c p (?s\<lparr> ads_pending_commitment := Some p \<rparr>))"
      using None src Inr by (simp add: altda_next_def Let_def)
    show ?thesis
    proof (cases rule: altda_accept_cases [of d])
      case skip
      with step next_eq None delivery.malformed [OF del0 skip(2)] show ?thesis
        by (auto simp: polled pending_hash_def altda_ok_def)
    next
      case pass
      with step next_eq None delivery.plain [OF del0 pass(2,3)] show ?thesis
        by (auto simp: polled pending_hash_def altda_ok_def)
    next
      case (keccak p)
      let ?t = "?s\<lparr> ads_pending_commitment := Some p \<rparr>"
      have "altda_resolve (ads_preimages env) c p ?t = (res, s')" using step next_eq keccak(1) by simp
      moreover have "delivery (keccak256 (ads_preimages env)) (unat (ads_max_input_size ?t)) (ds @ [d]) (pending_hash ?t) bs"
        using delivery.committed [OF del0 keccak(3)] by (simp add: pending_hash_def)
      ultimately show ?thesis
        using altda_resolve_delivery [of _ c p ?t res s' "ds @ [d]" bs] keccak(2) assms(3) by (simp add: polled)
    next
      case (generic p)
      then have "res = not_enough_data" "ads_pending_commitment s' = None"
        using step next_eq by (auto simp: altda_resolve_def)
      with delivery.malformed [OF del0, of d] generic(3,4) show ?thesis
        by (simp add: polled pending_hash_def altda_ok_def)
    qed
  qed
qed

lemma altda_run_delivery:
  assumes "altda_run env c calls s = (rs, polls, s')" "altda_ok s" "\<forall>r \<in> set rs. \<not> critical r"
    and "delivery (keccak256 (ads_preimages env)) (unat (ads_max_input_size s)) ds (pending_hash s) bs"
  shows "delivery (keccak256 (ads_preimages env)) (unat (ads_max_input_size s)) (ds @ polls) (pending_hash s') (bs @ oks rs)"
  using assms
proof (induction calls arbitrary: s rs polls ds bs)
  case Nil
  then show ?case by simp
next
  case (Cons call calls)
  obtain r a where call: "call = (r, a)" by fastforce
  obtain res t where nxt: "altda_next env c r a s = (res, t)" by fastforce
  obtain rs' polls' u where run: "altda_run env c calls t = (rs', polls', u)" by (metis prod_cases3)
  from Cons.prems(1) call nxt run have eqs: "rs = res # rs'" "polls = polled env r a s @ polls'" "s' = u"
    by (auto simp: Let_def)
  have "altda_run env c calls t = (rs', polls', s')" using run eqs by simp
  moreover have "\<not> critical res" "\<forall>r \<in> set rs'. \<not> critical r" using Cons.prems(3) eqs by auto
  moreover have "ads_max_input_size t = ads_max_input_size s" using altda_next_max [OF nxt] .
  moreover note altda_next_delivery [OF nxt Cons.prems(2) \<open>\<not> critical res\<close> Cons.prems(4)]
  ultimately have "delivery (keccak256 (ads_preimages env)) (unat (ads_max_input_size s)) ((ds @ polled env r a s) @ polls') (pending_hash s') ((bs @ oks [res]) @ oks rs')"
    using Cons.IH [of t rs' polls' "ds @ polled env r a s" "bs @ oks [res]"] by presburger
  then show ?case using eqs oks_append [of "[res]" rs'] by simp
qed

section \<open>Recorded oracles\<close>

text \<open>
  What the replay of a run needs of the oracle it ran on: every value read is recorded, and records are never lost or
  changed. The collector promises it for any oracle it wraps; so does the store, which records itself.
\<close>

locale recorded_oracle =
  fixes c :: "('k, 'o) comms_client"
    and recorded :: "'o \<Rightarrow> 'k preimage_store"
  assumes get_recorded: "comms_get c key orc = (Inr v, orc') \<Longrightarrow> hm_get (recorded orc') key = Some v"
    and get_extends: "comms_get c key orc = (r, orc') \<Longrightarrow> hm_get (recorded orc) \<subseteq>\<^sub>m hm_get (recorded orc')"
    and write_extends: "comms_write c ty d orc = (r', orc') \<Longrightarrow> hm_get (recorded orc) \<subseteq>\<^sub>m hm_get (recorded orc')"

text \<open>The calls whose outcome is not in the record: the oracle failed.\<close>

fun oracle_failed :: "pipeline_result \<Rightarrow> bool" where
  "oracle_failed (Inl (PipelineErr (Temporary (ProviderError m)))) = True"
| "oracle_failed (Inl (PipelinePanic m)) = True"
| "oracle_failed r = False"

lemma oracle_failed_failure [simp]: "oracle_failed (Inl (oracle_failure e))"
  by (cases e) auto

text \<open>The same data source on a preimage store.\<close>

definition on_store :: "'k preimage_store \<Rightarrow> ('src, 'o) altda_source \<Rightarrow> ('src, 'k preimage_store) altda_source" where
  "on_store st s = \<lparr> ads_ethereum_source = ads_ethereum_source s, ads_oracle = st, ads_max_input_size = ads_max_input_size s,
     ads_pending_commitment = ads_pending_commitment s \<rparr>"

lemma on_store_simps [simp]:
  "ads_ethereum_source (on_store st s) = ads_ethereum_source s" "ads_oracle (on_store st s) = st"
  "ads_max_input_size (on_store st s) = ads_max_input_size s" "ads_pending_commitment (on_store st s) = ads_pending_commitment s"
  "on_store st (s\<lparr> ads_oracle := orc \<rparr>) = on_store st s"
  "on_store st (s\<lparr> ads_ethereum_source := src \<rparr>) = (on_store st s)\<lparr> ads_ethereum_source := src \<rparr>"
  "on_store st (s\<lparr> ads_pending_commitment := p \<rparr>) = (on_store st s)\<lparr> ads_pending_commitment := p \<rparr>"
  "on_store st (altda_clear env s) = altda_clear env (on_store st s)"
  "(on_store st s)\<lparr> ads_oracle := st \<rparr> = on_store st s"
  by (simp_all add: on_store_def altda_clear_def)

lemma store_client_simps [simp]:
  "comms_write preimage_store_client ty d st = (Inr (), st)"
  "comms_get preimage_store_client key st = (get_preimage st key, st)"
  by (simp_all add: preimage_store_client_def)

context recorded_oracle
begin

lemma resolve_extends:
  "resolve_keccak256_commitment penv c p orc = (r, orc') \<Longrightarrow> hm_get (recorded orc) \<subseteq>\<^sub>m hm_get (recorded orc')"
  by (auto simp: resolve_keccak256_commitment_def Let_def split: if_splits prod.splits sum.splits
           dest!: get_extends write_extends intro: map_le_trans)

lemma resolve_replay:
  assumes "resolve_keccak256_commitment penv c p orc = (r, orc')" "\<not> oracle_failed r" "hm_get (recorded orc') \<subseteq>\<^sub>m hm_get st"
  shows "resolve_keccak256_commitment penv preimage_store_client p st = (r, st)"
proof (cases "length (pc_commitment_data p) = 32")
  case False
  with assms(1) show ?thesis by (simp add: resolve_keccak256_commitment_def)
next
  case True
  let ?h = "b256_of_bytes (pc_commitment_data p)"
  obtain wr orc1 where w: "comms_write c ''altda-commitment'' (pc_encoded p) orc = (wr, orc1)" by fastforce
  obtain gr orc2 where g: "comms_get c (key_new penv ?h Keccak256) orc1 = (gr, orc2)" by fastforce
  show ?thesis
  proof (cases wr)
    case (Inl e)
    with assms(1,2) True w have False by (auto simp: resolve_keccak256_commitment_def Let_def)
    then show ?thesis ..
  next
    case wr: (Inr u)
    show ?thesis
    proof (cases gr)
      case (Inl e)
      with assms(1,2) True w wr g have False by (auto simp: resolve_keccak256_commitment_def Let_def)
      then show ?thesis ..
    next
      case (Inr v)
      with assms(1) True w wr g have r: "r = (if keccak256 penv v \<noteq> ?h
          then Inl (PipelineErr (Critical (ProviderError ''AltDA input does not match Keccak256 commitment''))) else Inr v)" "orc' = orc2"
        by (auto simp: resolve_keccak256_commitment_def Let_def)
      have "hm_get st (key_new penv ?h Keccak256) = Some v"
        using get_recorded [OF g [unfolded Inr]] assms(3) r(2) by (auto simp: map_le_def dest: bspec)
      with True r(1) show ?thesis by (simp add: resolve_keccak256_commitment_def get_preimage_def)
    qed
  qed
qed

lemma altda_resolve_replay:
  assumes "altda_resolve penv c p s = (r, s')" "\<not> oracle_failed r" "hm_get (recorded (ads_oracle s')) \<subseteq>\<^sub>m hm_get st"
  shows "altda_resolve penv preimage_store_client p (on_store st s) = (r, on_store st s')"
    and "hm_get (recorded (ads_oracle s)) \<subseteq>\<^sub>m hm_get (recorded (ads_oracle s'))"
proof -
  obtain res orc' where res: "resolve_keccak256_commitment penv c p (ads_oracle s) = (res, orc')" by fastforce
  show "hm_get (recorded (ads_oracle s)) \<subseteq>\<^sub>m hm_get (recorded (ads_oracle s'))"
    using assms(1) res resolve_extends [OF res]
    by (auto simp: altda_resolve_def Let_def split: if_splits sum.splits pipeline_failure.splits pipeline_error_kind.splits)
  show "altda_resolve penv preimage_store_client p (on_store st s) = (r, on_store st s')"
  proof (cases "pc_commitment_type p = KECCAK256_COMMITMENT_TYPE")
    case False
    with assms(1) show ?thesis by (auto simp: altda_resolve_def)
  next
    case True
    have "\<not> oracle_failed res" "ads_oracle s' = orc'"
      using True assms(1,2) res
      by (auto simp: altda_resolve_def Let_def split: if_splits sum.splits pipeline_failure.splits pipeline_error_kind.splits)
    with res assms(3) have "resolve_keccak256_commitment penv preimage_store_client p st = (res, st)"
      by (intro resolve_replay) auto
    with True assms(1) res show ?thesis
      by (auto simp: altda_resolve_def Let_def split: sum.splits pipeline_failure.splits pipeline_error_kind.splits)
  qed
qed

lemma altda_next_replay:
  assumes "altda_next env c r a s = (res, s')" "\<not> oracle_failed res" "hm_get (recorded (ads_oracle s')) \<subseteq>\<^sub>m hm_get st"
  shows "altda_next env preimage_store_client r a (on_store st s) = (res, on_store st s')"
    and "hm_get (recorded (ads_oracle s)) \<subseteq>\<^sub>m hm_get (recorded (ads_oracle s'))"
proof -
  have "altda_next env preimage_store_client r a (on_store st s) = (res, on_store st s') \<and>
    hm_get (recorded (ads_oracle s)) \<subseteq>\<^sub>m hm_get (recorded (ads_oracle s'))"
  proof (cases "ads_pending_commitment s")
    case (Some p)
    with assms(1) have "altda_resolve (ads_preimages env) c p s = (res, s')" by (simp add: altda_next_def)
    from altda_resolve_replay [OF this assms(2,3)] Some show ?thesis by (simp add: altda_next_def)
  next
    case None
    obtain sr src where src: "source_next env r a (ads_ethereum_source s) = (sr, src)" by fastforce
    show ?thesis
    proof (cases "\<exists>d p. sr = Inr d \<and> altda_accept d = Inr p")
      case True
      then obtain d p where d: "sr = Inr d" "altda_accept d = Inr p" by blast
      let ?t = "s\<lparr> ads_ethereum_source := src, ads_pending_commitment := Some p \<rparr>"
      from None src d assms(1) have "altda_resolve (ads_preimages env) c p ?t = (res, s')" by (simp add: altda_next_def)
      from altda_resolve_replay [OF this assms(2,3)] None src d show ?thesis by (simp add: altda_next_def)
    next
      case False
      with None src assms(1) show ?thesis
        by (cases sr) (auto simp: altda_next_def Let_def altda_clear_def split: sum.splits)
    qed
  qed
  then show "altda_next env preimage_store_client r a (on_store st s) = (res, on_store st s')"
    "hm_get (recorded (ads_oracle s)) \<subseteq>\<^sub>m hm_get (recorded (ads_oracle s'))" by blast+
qed

lemma altda_run_extends:
  "altda_run env c calls s = (rs, polls, s') \<Longrightarrow> hm_get (recorded (ads_oracle s)) \<subseteq>\<^sub>m hm_get (recorded (ads_oracle s'))"
proof (induction calls arbitrary: s rs polls)
  case (Cons call calls)
  obtain r a where call: "call = (r, a)" by fastforce
  obtain res t where nxt: "altda_next env c r a s = (res, t)" by fastforce
  have "hm_get (recorded (ads_oracle s)) \<subseteq>\<^sub>m hm_get (recorded (ads_oracle t))"
    using nxt
    by (auto simp: altda_next_def altda_resolve_def altda_clear_def Let_def dest!: resolve_extends
             split: option.splits prod.splits sum.splits if_splits pipeline_failure.splits pipeline_error_kind.splits)
  moreover have "hm_get (recorded (ads_oracle t)) \<subseteq>\<^sub>m hm_get (recorded (ads_oracle s'))"
    using Cons call nxt by (auto simp: Let_def split: prod.splits)
  ultimately show ?case by (rule map_le_trans)
qed auto

lemma altda_run_replay:
  assumes "altda_run env c calls s = (rs, polls, s')" "\<forall>r \<in> set rs. \<not> oracle_failed r" "hm_get (recorded (ads_oracle s')) \<subseteq>\<^sub>m hm_get st"
  shows "altda_run env preimage_store_client calls (on_store st s) = (rs, polls, on_store st s')"
  using assms(1,2)
proof (induction calls arbitrary: s rs polls)
  case (Cons call calls)
  obtain r a where call: "call = (r, a)" by fastforce
  obtain res t where nxt: "altda_next env c r a s = (res, t)" by fastforce
  obtain rs' polls' u where run: "altda_run env c calls t = (rs', polls', u)" by (metis prod_cases3)
  from Cons.prems(1) call nxt run have eqs: "rs = res # rs'" "polls = polled env r a s @ polls'" "s' = u"
    by (auto simp: Let_def)
  have "hm_get (recorded (ads_oracle t)) \<subseteq>\<^sub>m hm_get st"
    using altda_run_extends [OF run] assms(3) eqs by (metis map_le_trans)
  with nxt Cons.prems(2) eqs have "altda_next env preimage_store_client r a (on_store st s) = (res, on_store st t)"
    by (intro altda_next_replay) auto
  moreover have "altda_run env preimage_store_client calls (on_store st t) = (rs', polls', on_store st s')"
    using Cons.IH [of t rs' polls'] run eqs Cons.prems(2) by simp
  moreover have "polled env r a (on_store st s) = polled env r a s" by (simp add: polled_def)
  ultimately show ?case using call eqs by (simp add: Let_def)
qed auto

end

interpretation zkvm: recorded_oracle preimage_store_client "\<lambda>st. st"
  by unfold_locales (auto simp: get_preimage_def ok_or_eq_Inr)

lemma save_preimage_outcome:
  assumes "save_preimage penv key v st = (r, st')"
  shows "hm_get st \<subseteq>\<^sub>m hm_get st'" and "r = Inr () \<Longrightarrow> hm_get st' key = Some v"
    and "authentic penv st \<Longrightarrow> authentic penv st'"
proof -
  consider (same) "st' = st" "r = Inr () \<longrightarrow> hm_get st key = Some v"
    | (new) "check_preimage penv key v = Inr ()" "hm_get st key = None" "st' = hm_insert key v st"
    using assms by (cases "check_preimage penv key v"; cases "hm_get st key") (force simp: save_preimage_def split: if_splits)+
  note outcome = this
  from outcome show "hm_get st \<subseteq>\<^sub>m hm_get st'" by cases (auto simp: map_le_def)
  from outcome show "r = Inr () \<Longrightarrow> hm_get st' key = Some v" by cases auto
  from outcome show "authentic penv st' " if "authentic penv st" using that
    by cases (auto simp: authentic_def intro: wf_intros)
qed

lemma collector_save_outcome:
  assumes "collector_save penv key v w = (r, w')"
  shows "hm_get (preimage_witness_store w) \<subseteq>\<^sub>m hm_get (preimage_witness_store w')"
    and "r = Inr () \<Longrightarrow> hm_get (preimage_witness_store w') key = Some v"
    and "authentic penv (preimage_witness_store w) \<Longrightarrow> authentic penv (preimage_witness_store w')"
  using assms by (auto simp: collector_save_def split: if_splits prod.splits dest: save_preimage_outcome)

lemma on_oracle_store [simp]: "on_oracle m w = (r, w') \<Longrightarrow> preimage_witness_store w' = preimage_witness_store w"
  by (auto simp: on_oracle_def split: prod.splits)

lemma collector_get_outcome:
  assumes "comms_get (collector_client penv inner) key w = (r, w')"
  shows "hm_get (preimage_witness_store w) \<subseteq>\<^sub>m hm_get (preimage_witness_store w')"
    and "r = Inr v \<Longrightarrow> hm_get (preimage_witness_store w') key = Some v"
    and "authentic penv (preimage_witness_store w) \<Longrightarrow> authentic penv (preimage_witness_store w')"
proof -
  obtain gr w1 where g: "on_oracle (comms_get inner key) w = (gr, w1)" by fastforce
  note g1 = on_oracle_store [OF g]
  consider (failed) e where "gr = Inl e" "r = Inl e" "w' = w1"
    | (got) v' sr where "gr = Inr v'" "collector_save penv key v' w1 = (sr, w')" "r = Inr v \<longrightarrow> sr = Inr () \<and> v' = v"
    using assms g by (auto simp: collector_client_def seq_def split: prod.splits sum.splits)
  note outcome = this
  from outcome show "hm_get (preimage_witness_store w) \<subseteq>\<^sub>m hm_get (preimage_witness_store w')"
    by cases (simp add: g1, metis g1 collector_save_outcome(1))
  from outcome show "hm_get (preimage_witness_store w') key = Some v" if "r = Inr v"
    using that by cases (simp, metis collector_save_outcome(2))
  from outcome show "authentic penv (preimage_witness_store w')" if "authentic penv (preimage_witness_store w)"
    using that by cases (simp add: g1, metis g1 collector_save_outcome(3))
qed

lemma collector_write_store [simp]:
  "comms_write (collector_client penv inner) ty d w = (r, w') \<Longrightarrow> preimage_witness_store w' = preimage_witness_store w"
  by (simp add: collector_client_def)

interpretation collected: recorded_oracle "collector_client penv inner" preimage_witness_store for penv inner
  by unfold_locales (auto dest: collector_get_outcome)

lemma collected_run_authentic:
  "altda_run env (collector_client penv inner) calls s = (rs, polls, s') \<Longrightarrow>
   authentic penv (preimage_witness_store (ads_oracle s)) \<Longrightarrow> authentic penv (preimage_witness_store (ads_oracle s'))"
proof (induction calls arbitrary: s rs polls)
  case (Cons call calls)
  let ?c = "collector_client penv inner"
  obtain r a where call: "call = (r, a)" by fastforce
  obtain res t where nxt: "altda_next env ?c r a s = (res, t)" by fastforce
  have keep: "authentic penv (preimage_witness_store orc')"
    if "resolve_keccak256_commitment penv' ?c p orc = (x, orc')" "authentic penv (preimage_witness_store orc)" for penv' p orc orc' x
    using that by (auto simp: resolve_keccak256_commitment_def Let_def split: if_splits prod.splits sum.splits
                        dest: collector_get_outcome(3) collector_write_store)
  have "authentic penv (preimage_witness_store (ads_oracle t))"
    using nxt Cons.prems(2)
    by (auto simp: altda_next_def altda_resolve_def altda_clear_def Let_def dest!: keep
             split: option.splits prod.splits sum.splits if_splits pipeline_failure.splits pipeline_error_kind.splits)
  then show ?case using Cons call nxt by (auto simp: Let_def split: prod.splits)
qed auto

lemma authentic_checks: "authentic penv st \<Longrightarrow> check_preimages penv st = Inr ()"
  unfolding authentic_def check_preimages_Inr by (auto simp: hm_wf_def)

section \<open>Hints\<close>

lemma hex_digit_inj: "hex_digit m = hex_digit n \<Longrightarrow> m mod 16 = n mod 16"
proof -
  have d: "distinct ''0123456789abcdef''" by code_simp
  have "m mod 16 < 16" "n mod 16 < 16" by simp_all
  then show "hex_digit m = hex_digit n \<Longrightarrow> m mod 16 = n mod 16"
    using nth_eq_iff_index_eq [OF d, of "m mod 16" "n mod 16"] by (simp add: hex_digit_def)
qed

lemma hex_encode_inj: "hex_encode bs = hex_encode cs \<Longrightarrow> bs = cs"
proof (induction bs arbitrary: cs)
  case Nil
  then show ?case by (cases cs) auto
next
  case (Cons b bs)
  then obtain c cs' where cs: "cs = c # cs'" by (cases cs) auto
  have lt: "unat b < 256" "unat c < 256"
    using unsigned_less [where 'a = nat, of b] unsigned_less [where 'a = nat, of c] by simp_all
  from Cons.prems cs have "unat b div 16 mod 16 = unat c div 16 mod 16" "unat b mod 16 = unat c mod 16"
    by (auto dest: hex_digit_inj)
  with lt have "unat b div 16 = unat c div 16" "unat b mod 16 = unat c mod 16" by simp_all
  then have "unat b = unat c" by (metis div_mult_mod_eq)
  with Cons cs show ?case by (simp add: word_unat_eq_iff)
qed

text \<open>Two commitments never share a request to the DA server.\<close>

lemma da_url_inj: "da_url url c = da_url url d \<longleftrightarrow> c = d"
  by (auto simp: da_url_def dest: hex_encode_inj)

text \<open>The hint the client writes is the one the host routes to its own handler, and the standard hints keep their
  meaning: the extended type is parsed back from what it prints.\<close>

lemma client_hint_parsed: "extended_from_str f (altda_hint_display AltDACommitmentHint) = Inr AltDACommitment"
  by (simp add: extended_from_str_def)

lemma extended_hint_roundtrip:
  assumes "\<And>h. celo_from_str (celo_display h) = Inr h" "\<And>h. celo_display h \<noteq> ''altda-commitment''"
  shows "extended_from_str celo_from_str (extended_display celo_display ty) = Inr ty"
  using assms by (cases ty) (auto simp: extended_from_str_def)

lemma start_server_online:
  assumes "start_server env self = Inr server"
  shows "sv_online server = None \<longleftrightarrow> celo_is_offline env (as_celo_host self)"
    and "sv_online server = Some (providers, hint) \<Longrightarrow> as_altda_server_url self = Some (ap_da_server_url providers) \<and>
      extended_from_str (celo_hint_from_str env) ''l2-payload-witness'' = Inr hint"
  using assms
  by (cases "extended_from_str (celo_hint_from_str env) ''l2-payload-witness''";
      auto simp: start_server_def create_providers_def try_bind_eq_Inr ok_or_eq_Inr Let_def split: if_splits)+

text \<open>The oracle in front of the online host, as kona documents it: reading a key after a hint runs the hint's handler on
  the host's store and returns what it leaves under the key.\<close>

definition serves_hints ::
  "('k, 'kv, 'prov, 'hint, 'cfg) altda_host_env \<Rightarrow> altda_host \<Rightarrow> 'prov altda_providers \<Rightarrow> ('kv \<Rightarrow> 'k \<Rightarrow> u8 list option) \<Rightarrow>
   ('o \<Rightarrow> 'kv) \<Rightarrow> ('k, 'o) comms_client \<Rightarrow> bool" where
  "serves_hints henv cfg providers kv_get kv_of c \<longleftrightarrow>
     (\<forall>ty hint data orc kv' key v.
        extended_from_str (celo_hint_from_str henv) ty = Inr hint \<longrightarrow>
        fetch_hint henv cfg providers hint data (kv_of orc) = (Inr (), kv') \<longrightarrow> kv_get kv' key = Some v \<longrightarrow>
        (\<exists>orc1 orc2. comms_write c ty data orc = (Inr (), orc1) \<and> comms_get c key orc1 = (Inr v, orc2)))"

section \<open>Properties\<close>

text \<open>C17: What the AltDA source delivers. From any state with no pending commitment (a new or a cleared source), for any
  behaviour of the oracle and of the inner source and any number of retries, as long as no call ended with a critical error:
  the batches returned are exactly those that the transactions read from L1 stand for, in their order. A transaction of
  another version passes unchanged; a Keccak256 commitment gives a batch with exactly that hash within the size limit, or
  nothing when its preimage exceeds the limit; malformed and generic commitments give nothing; and at most the commitment
  of the last transaction is still unresolved.\<close>

theorem altda_run_delivers:
  assumes "ads_pending_commitment s = None" "altda_run env c calls s = (rs, polls, s')" "\<forall>r \<in> set rs. \<not> critical r"
  shows "delivery (keccak256 (ads_preimages env)) (unat (ads_max_input_size s)) polls (pending_hash s') (oks rs)"
  using altda_run_delivery [OF assms(2) _ assms(3), of "[]" "[]"] assms(1) delivery.start
  by (simp add: altda_ok_def pending_hash_def)

text \<open>C18: The program repeats the host's run. When the source runs on the host through the witness collector, around any
  oracle, and no call failed in the oracle, then the recorded store passes the program's preimage checks and the same run on
  that store alone returns the same results, reads the same transactions and ends in the same state.\<close>

theorem altda_replay:
  assumes "altda_run env (collector_client (ads_preimages env) inner) calls s = (rs, polls, s')"
    and "\<forall>r \<in> set rs. \<not> oracle_failed r"
    and "authentic (ads_preimages env) (preimage_witness_store (ads_oracle s))"
    and "st = preimage_witness_store (ads_oracle s')"
  shows "check_preimages (ads_preimages env) st = Inr () \<and>
    altda_run env preimage_store_client calls (on_store st s) = (rs, polls, on_store st s')"
  using collected_run_authentic [OF assms(1,3)] collected.altda_run_replay [OF assms(1,2), of st] assms(4)
  by (simp add: authentic_checks map_le_refl)

text \<open>C37: A batch that the DA server serves reaches the pipeline. The inner source reads a transaction that commits to the
  batch, the DA server answers the request for this commitment with the batch, the host's store keeps what is set, and the
  oracle runs the host's handler for hints: then one call of the source returns the batch, and nothing stays pending.\<close>

theorem altda_end_to_end:
  assumes "ads_pending_commitment s = None" "source_next env r a (ads_ethereum_source s) = (Inr (1 # 0 # h), src)"
    and "length h = 32" "b256_of_bytes h = keccak256 (ads_preimages env) batch" "length batch \<le> unat (ads_max_input_size s)"
    and "http_get henv (da_url (ap_da_server_url providers) (0 # h)) = Inr (200, Inr batch)"
    and "keccak_key henv = (\<lambda>hash. key_new (ads_preimages env) hash Keccak256)"
    and "\<And>key v kv. \<exists>kv'. kv_set henv key v kv = (Inr (), kv') \<and> kv_get kv' key = Some v"
    and "serves_hints henv cfg providers kv_get kv_of c"
  shows "\<exists>s'. altda_next env c r a s = (Inr batch, s') \<and> ads_pending_commitment s' = None \<and> ads_ethereum_source s' = src"
proof -
  let ?key = "key_new (ads_preimages env) (b256_of_bytes h) Keccak256"
  let ?p = "\<lparr> pc_encoded = 0 # h, pc_commitment_type = 0, pc_commitment_data = h \<rparr>"
  obtain kv' where kv: "kv_set henv ?key batch (kv_of (ads_oracle s)) = (Inr (), kv')" "kv_get kv' ?key = Some batch"
    using assms(8) by blast
  have "fetch_hint henv cfg providers AltDACommitment (0 # h) (kv_of (ads_oracle s)) = (Inr (), kv')"
    using assms(3,6,7) kv(1) by (simp add: fetch_hint_def fetch_altda_commitment_def altda_constants map_err_def)
  with assms(9) kv(2) client_hint_parsed obtain orc1 orc2 where
    "comms_write c ''altda-commitment'' (0 # h) (ads_oracle s) = (Inr (), orc1)" "comms_get c ?key orc1 = (Inr batch, orc2)"
    unfolding serves_hints_def by (metis altda_hint_display.simps)
  with assms(3,4) have "resolve_keccak256_commitment (ads_preimages env) c ?p (ads_oracle s) = (Inr batch, orc2)"
    by (simp add: resolve_keccak256_commitment_def)
  moreover have "altda_accept (1 # 0 # h) = Inr ?p"
    using assms(3) by (simp add: altda_accept_def altda_constants)
  ultimately show ?thesis
    using assms(1,2,5) by (simp add: altda_next_def altda_resolve_def altda_constants)
qed

section \<open>Witnesses\<close>

text \<open>A toy hash (the sum of the bytes), an inner source that is a list of transactions, and an oracle that is a store.\<close>

definition sample_altda_env :: "(b256 \<times> preimage_key_type, u8 list list, unit) altda_env" where
  "sample_altda_env =
     \<lparr> ads_preimages = \<lparr> key_type_of = snd, key_new = Pair, keccak256 = (\<lambda>bs. ucast (sum_list bs)), sha256 = (\<lambda>_. 0) \<rparr>,
       source_next = (\<lambda>_ _ src. case src of [] \<Rightarrow> (Inl (PipelineErr (Temporary PipelineEof)), []) | d # ds \<Rightarrow> (Inr d, ds)),
       source_clear = (\<lambda>_. []) \<rparr>"

definition sample_altda_commitment :: "u8 \<Rightarrow> u8 list" where
  "sample_altda_commitment h = 1 # 0 # replicate 31 0 @ [h]"

text \<open>A plain transaction, a commitment whose batch is within the limit of two bytes, a generic commitment, one whose
  batch is too large and missing from the store of the first witness.\<close>

definition sample_altda_source :: "(u8 list list, (b256 \<times> preimage_key_type, (b256 \<times> preimage_key_type) preimage_store) witness_collector) altda_source" where
  "sample_altda_source =
     \<lparr> ads_ethereum_source = [[0, 5], sample_altda_commitment 7, [1, 1, 9], sample_altda_commitment 9],
       ads_oracle = \<lparr> preimage_oracle = [((7, Keccak256), [3, 4]), ((9, Keccak256), [2, 3, 4])], preimage_witness_store = [],
                      store_poisoned = False \<rparr>,
       ads_max_input_size = 2, ads_pending_commitment = None \<rparr>"

definition sample_altda_store :: "(b256 \<times> preimage_key_type) preimage_store" where
  "sample_altda_store = [((7, Keccak256), [3, 4])]"

theorem altda_run_delivers_witness:
  "delivery (keccak256 (ads_preimages sample_altda_env)) 2 [[0, 5], sample_altda_commitment 7, [1, 1, 9], sample_altda_commitment 9] (Some 9) [[0, 5], [3, 4]]"
proof -
  let ?s = "on_store sample_altda_store sample_altda_source"
  let ?run = "altda_run sample_altda_env preimage_store_client (replicate 5 ((), 0)) ?s"
  have run: "?run = (fst ?run, fst (snd ?run), snd (snd ?run))" by simp
  have "ads_pending_commitment ?s = None" "\<forall>r \<in> set (fst ?run). \<not> critical r"
    "fst (snd ?run) = [[0, 5], sample_altda_commitment 7, [1, 1, 9], sample_altda_commitment 9]"
    "pending_hash (snd (snd ?run)) = Some 9" "oks (fst ?run) = [[0, 5], [3, 4]]" "unat (ads_max_input_size ?s) = 2"
    by code_simp+
  with altda_run_delivers [of ?s, OF _ run] show ?thesis by simp
qed

theorem altda_replay_witness:
  "check_preimages (ads_preimages sample_altda_env) (preimage_witness_store (ads_oracle (snd (snd
     (altda_run sample_altda_env (collector_client (ads_preimages sample_altda_env) preimage_store_client) (replicate 5 ((), 0)) sample_altda_source))))) = Inr ()"
proof -
  let ?run = "altda_run sample_altda_env (collector_client (ads_preimages sample_altda_env) preimage_store_client) (replicate 5 ((), 0)) sample_altda_source"
  have run: "?run = (fst ?run, fst (snd ?run), snd (snd ?run))" by simp
  have "\<forall>r \<in> set (fst ?run). \<not> oracle_failed r" by code_simp
  moreover have "authentic (ads_preimages sample_altda_env) (preimage_witness_store (ads_oracle sample_altda_source))"
    by (simp add: sample_altda_source_def authentic_def hm_wf_def)
  ultimately show ?thesis using altda_replay [OF run _ _ refl] by blast
qed

definition sample_altda_host_env :: "(b256 \<times> preimage_key_type, (b256 \<times> preimage_key_type) preimage_store, unit, unit, unit) altda_host_env" where
  "sample_altda_host_env =
     \<lparr> keccak_key = (\<lambda>hash. (hash, Keccak256)), kv_set = (\<lambda>key v. write_st (hm_insert key v)),
       http_get = (\<lambda>url. if url = da_url ''http://da'' (tl (sample_altda_commitment 7)) then Inr (200, Inr [3, 4]) else Inr (404, Inr [])),
       celo_fetch_hint = (\<lambda>_ _ _ _. ret ()), celo_hint_from_str = (\<lambda>_. Inr ()), celo_create_providers = (\<lambda>_. Inr ()),
       create_key_value_store = (\<lambda>_. Inr []), read_rollup_config = (\<lambda>_. Inr None), serialize_config = (\<lambda>_. None),
       celo_is_offline = (\<lambda>_. False) \<rparr>"

text \<open>An oracle that runs the handler when the hint is written and reads the host's store.\<close>

definition sample_host_oracle :: "altda_host \<Rightarrow> (b256 \<times> preimage_key_type, (b256 \<times> preimage_key_type) preimage_store) comms_client" where
  "sample_host_oracle cfg =
     \<lparr> comms_write = (\<lambda>ty d. seq (lift (extended_from_str (celo_hint_from_str sample_altda_host_env) ty)) (\<lambda>hint.
         fetch_hint sample_altda_host_env cfg \<lparr> ap_inner_providers = (), ap_da_server_url = ''http://da'' \<rparr> hint d)),
       comms_get = (\<lambda>key st. (get_preimage st key, st)), comms_get_exact = (\<lambda>key len st. (get_exact st key len, st)), comms_flush = id \<rparr>"

theorem altda_end_to_end_witness:
  "\<forall>cfg. \<exists>s'. altda_next sample_altda_env (sample_host_oracle cfg) () 0
     \<lparr> ads_ethereum_source = [sample_altda_commitment 7], ads_oracle = [], ads_max_input_size = 2, ads_pending_commitment = None \<rparr> = (Inr [3, 4], s') \<and>
     ads_pending_commitment s' = None \<and> ads_ethereum_source s' = []"
proof
  fix cfg
  let ?s = "\<lparr> ads_ethereum_source = [sample_altda_commitment 7], ads_oracle = [] :: (b256 \<times> preimage_key_type) preimage_store,
    ads_max_input_size = 2, ads_pending_commitment = None \<rparr>"
  let ?h = "replicate 31 0 @ [7] :: u8 list" and ?env = sample_altda_env and ?henv = sample_altda_host_env
  let ?prov = "\<lparr> ap_inner_providers = (), ap_da_server_url = ''http://da'' \<rparr>"
  have serves: "serves_hints ?henv cfg ?prov hm_get id (sample_host_oracle cfg)"
    unfolding serves_hints_def sample_host_oracle_def by (auto simp: get_preimage_def)
  have src: "source_next ?env () 0 (ads_ethereum_source ?s) = (Inr (1 # 0 # ?h), [])"
    by (simp add: sample_altda_env_def sample_altda_commitment_def)
  have hash: "b256_of_bytes ?h = keccak256 (ads_preimages ?env) [3, 4]" by code_simp
  have http: "http_get ?henv (da_url (ap_da_server_url ?prov) (0 # ?h)) = Inr (200, Inr [3, 4])"
    by (simp add: sample_altda_host_env_def sample_altda_commitment_def)
  have key: "keccak_key ?henv = (\<lambda>hash. key_new (ads_preimages ?env) hash Keccak256)"
    by (simp add: sample_altda_host_env_def sample_altda_env_def)
  have kv: "\<exists>kv'. kv_set ?henv k v kv = (Inr (), kv') \<and> hm_get kv' k = Some v" for k v kv
    by (simp add: sample_altda_host_env_def)
  show "\<exists>s'. altda_next ?env (sample_host_oracle cfg) () 0 ?s = (Inr [3, 4], s') \<and> ads_pending_commitment s' = None \<and> ads_ethereum_source s' = []"
    by (rule altda_end_to_end [OF _ src _ hash _ http key kv serves]) simp_all
qed

end
