(* ===== verification/Signer.thy ===== *)
theory Signer
  imports Contract Strings
begin

text \<open>
  The signer (\<open>utils/signer/src/lib.rs\<close>): the three kinds of signers, their choice from the environment, sending a
  transaction, and the lock through which all tasks of a service send.

  Keys, the remote signer, the key management service and the L1 node are other programs: parsing keys and addresses, signing
  and the node's calls are arguments. The body of a send is cut at the points where it waits for them; the lock is a step
  relation in which any number of tasks queue up and the holder runs its body one call at a time. The main result is that the
  lock does what it is for: no two accepted transactions of the signer share a nonce (\<open>signer_nonces_unique\<close>).
\<close>

section \<open>Signers\<close>

datatype ('key, 'hsm) signer = Web3Signer string address | LocalSigner 'key | CloudHsmSigner 'hsm

text \<open>What the signers call of other crates.\<close>

record ('key, 'hsm) signer_env =
  key_address :: "'key \<Rightarrow> address"
  hsm_address :: "'hsm \<Rightarrow> address"
  private_key_from_str :: "string \<Rightarrow> 'key result"
  url_parse :: "string \<Rightarrow> string result"
  address_from_str :: "string \<Rightarrow> address result"
  gcp_signer_new :: "string \<Rightarrow> string \<Rightarrow> string \<Rightarrow> string \<Rightarrow> u64 \<Rightarrow> 'hsm result"

definition NUM_CONFIRMATIONS :: u64 where
  "NUM_CONFIRMATIONS = 3"

definition TIMEOUT_SECONDS :: u64 where
  "TIMEOUT_SECONDS = 60"

fun signer_address :: "('key, 'hsm) signer_env \<Rightarrow> ('key, 'hsm) signer \<Rightarrow> address" where
  "signer_address env (Web3Signer _ addr) = addr"
| "signer_address env (LocalSigner key) = key_address env key"
| "signer_address env (CloudHsmSigner hsm) = hsm_address env hsm"

definition new_web3_signer :: "string \<Rightarrow> address \<Rightarrow> ('key, 'hsm) signer" where
  "new_web3_signer url addr = Web3Signer url addr"

definition new_local_signer :: "('key, 'hsm) signer_env \<Rightarrow> string \<Rightarrow> ('key, 'hsm) signer result" where
  "new_local_signer env private_key_str =
     try_bind (with_context ''Failed to parse private key'' (private_key_from_str env private_key_str)) (\<lambda>key. Inr (LocalSigner key))"

text \<open>Environment variables are a map; a variable that is not set is an error of \<open>std::env::var\<close>.\<close>

type_synonym env_vars = "string \<Rightarrow> string option"

definition signer_from_env :: "('key, 'hsm) signer_env \<Rightarrow> env_vars \<Rightarrow> ('key, 'hsm) signer result" where
  "signer_from_env env vars =
     (case (vars ''GOOGLE_PROJECT_ID'', vars ''GOOGLE_LOCATION'', vars ''GOOGLE_KEYRING'') of
        (Some project_id, Some location, Some keyring_name) \<Rightarrow>
          (case vars ''HSM_KEY_NAME'' of
             None \<Rightarrow> Inl (Panic ''HSM_KEY_NAME'')
           | Some key_name \<Rightarrow>
               try_bind (ok_or ''invalid digit found in string'' (parse_u64 (case vars ''HSM_KEY_VERSION'' of None \<Rightarrow> ''1'' | Some v \<Rightarrow> v))) (\<lambda>key_version.
               try_bind (gcp_signer_new env project_id location keyring_name key_name key_version) (\<lambda>signer. Inr (CloudHsmSigner signer))))
      | _ \<Rightarrow>
          (case (vars ''SIGNER_URL'', vars ''SIGNER_ADDRESS'') of
             (Some signer_url_str, Some signer_address_str) \<Rightarrow>
               try_bind (with_context ''Failed to parse SIGNER_URL'' (url_parse env signer_url_str)) (\<lambda>signer_url.
               try_bind (with_context ''Failed to parse SIGNER_ADDRESS'' (address_from_str env signer_address_str)) (\<lambda>signer_address.
               Inr (new_web3_signer signer_url signer_address)))
           | _ \<Rightarrow>
               (case vars ''PRIVATE_KEY'' of
                  Some private_key_str \<Rightarrow> new_local_signer env private_key_str
                | None \<Rightarrow> Inl (Err ''None of the required signer configurations are set in environment''))))"

section \<open>Sending\<close>

datatype tx_kind = TxCreate | TxCall address

record tx_request =
  tr_from :: "address option"
  tr_to :: "tx_kind option"
  tr_nonce :: "u64 option"
  tr_payload :: "u8 list"

text \<open>The L1 node and the signing services: filling in gas and nonce, signing by the wallet or the remote signer (whose answer
  is decoded), sending a signed transaction, and waiting for its receipt with a number of confirmations and a timeout.\<close>

record ('key, 'hsm, 'n, 'receipt) signer_rpc =
  rpc_fill :: "tx_request \<Rightarrow> 'n \<Rightarrow> tx_request result"
  key_sign :: "'key \<Rightarrow> tx_request \<Rightarrow> tx_request result"
  hsm_sign :: "'hsm \<Rightarrow> tx_request \<Rightarrow> tx_request result"
  eth_signTransaction :: "string \<Rightarrow> tx_request \<Rightarrow> u8 list result"
  decode_2718 :: "u8 list \<Rightarrow> tx_request option"
  rpc_send :: "tx_request \<Rightarrow> ('n, b256) handler"
  rpc_receipt :: "b256 \<Rightarrow> u64 \<Rightarrow> duration \<Rightarrow> 'n \<Rightarrow> 'receipt result"

definition is_web3 :: "('key, 'hsm) signer \<Rightarrow> bool" where
  "is_web3 sg = (case sg of Web3Signer _ _ \<Rightarrow> True | _ \<Rightarrow> False)"

definition send_failure :: "('key, 'hsm) signer \<Rightarrow> string" where
  "send_failure sg = (case sg of CloudHsmSigner _ \<Rightarrow> ''Failed to send KMS-signed transaction'' | _ \<Rightarrow> ''Failed to send transaction'')"

text \<open>The changes to the request before it is filled: the sender, and for the wallets a contract creation when there is no recipient.\<close>

definition prepare_request :: "('key, 'hsm) signer_env \<Rightarrow> ('key, 'hsm) signer \<Rightarrow> tx_request \<Rightarrow> tx_request" where
  "prepare_request env sg tx =
     (let tx = tx\<lparr> tr_from := Some (signer_address env sg) \<rparr> in
      if \<not> is_web3 sg \<and> tr_to tx = None then tx\<lparr> tr_to := Some TxCreate \<rparr> else tx)"

text \<open>The calls between which the body waits. The wallets fill, sign and send within \<open>send_transaction\<close>, whose failure has one message.
  A provider without a wallet returns a filled request and never a signed envelope, so the \<open>as_builder().unwrap()\<close> of the Web3 signer does not
  panic; decoding what the signing service returns may.\<close>

definition fill_request :: "('key, 'hsm) signer \<Rightarrow> ('key, 'hsm, 'n, 'receipt) signer_rpc \<Rightarrow> tx_request \<Rightarrow> 'n \<Rightarrow> tx_request result" where
  "fill_request sg rpc tx n = (if is_web3 sg then rpc_fill rpc tx n else with_context (send_failure sg) (rpc_fill rpc tx n))"

definition sign_request :: "('key, 'hsm) signer \<Rightarrow> ('key, 'hsm, 'n, 'receipt) signer_rpc \<Rightarrow> tx_request \<Rightarrow> tx_request result" where
  "sign_request sg rpc tx =
     (case sg of
        Web3Signer signer_url _ \<Rightarrow>
          try_bind (eth_signTransaction rpc signer_url tx) (\<lambda>raw.
          case decode_2718 rpc raw of None \<Rightarrow> Inl (Panic ''called `Result::unwrap()` on an `Err` value'') | Some tx_envelope \<Rightarrow> Inr tx_envelope)
      | LocalSigner key \<Rightarrow> with_context (send_failure sg) (key_sign rpc key tx)
      | CloudHsmSigner hsm \<Rightarrow> with_context (send_failure sg) (hsm_sign rpc hsm tx))"

definition broadcast :: "('key, 'hsm) signer \<Rightarrow> ('key, 'hsm, 'n, 'receipt) signer_rpc \<Rightarrow> tx_request \<Rightarrow> ('n, b256) handler" where
  "broadcast sg rpc tx n = (case rpc_send rpc tx n of (r, n) \<Rightarrow> (with_context (send_failure sg) r, n))"

definition await_receipt :: "('key, 'hsm, 'n, 'receipt) signer_rpc \<Rightarrow> u64 \<Rightarrow> b256 \<Rightarrow> 'n \<Rightarrow> 'receipt result" where
  "await_receipt rpc timeout_secs hash n = rpc_receipt rpc hash NUM_CONFIRMATIONS (secs timeout_secs) n"

definition send_transaction_request_with_timeout ::
  "('key, 'hsm) signer_env \<Rightarrow> ('key, 'hsm) signer \<Rightarrow> ('key, 'hsm, 'n, 'receipt) signer_rpc \<Rightarrow> tx_request \<Rightarrow> u64 \<Rightarrow> ('n, 'receipt) handler" where
  "send_transaction_request_with_timeout env sg rpc tx timeout_secs =
     seq (\<lambda>n. (fill_request sg rpc (prepare_request env sg tx) n, n)) (\<lambda>filled.
     seq (lift (sign_request sg rpc filled)) (\<lambda>envelope.
     seq (broadcast sg rpc envelope) (\<lambda>hash n. (await_receipt rpc timeout_secs hash n, n))))"

definition send_transaction_request ::
  "('key, 'hsm) signer_env \<Rightarrow> ('key, 'hsm) signer \<Rightarrow> ('key, 'hsm, 'n, 'receipt) signer_rpc \<Rightarrow> tx_request \<Rightarrow> ('n, 'receipt) handler" where
  "send_transaction_request env sg rpc tx = send_transaction_request_with_timeout env sg rpc tx TIMEOUT_SECONDS"

section \<open>The lock\<close>

text \<open>\<open>SignerLock\<close> with its tasks: the signer behind the mutex and the address cached beside it, the tasks waiting for the mutex
  in their order, the holder with the point of the body it has reached, the finished tasks with their results, the node, and the
  transactions the node accepted, as a ghost value.\<close>

datatype body_point = Entered tx_request u64 | AfterFill tx_request u64 | AfterSign tx_request u64 | AfterSend b256 u64

record ('key, 'hsm, 'n, 'receipt) signer_lock =
  sl_inner :: "('key, 'hsm) signer"
  sl_cached_address :: address
  sl_queue :: "(nat \<times> tx_request \<times> u64) list"
  sl_holder :: "(nat \<times> body_point) option"
  sl_results :: "(nat \<times> 'receipt result) list"
  sl_node :: 'n
  sl_accepted :: "tx_request list"

definition signer_lock_new :: "('key, 'hsm) signer_env \<Rightarrow> ('key, 'hsm) signer \<Rightarrow> 'n \<Rightarrow> ('key, 'hsm, 'n, 'receipt) signer_lock" where
  "signer_lock_new env sg n =
     \<lparr> sl_inner = sg, sl_cached_address = signer_address env sg, sl_queue = [], sl_holder = None, sl_results = [], sl_node = n, sl_accepted = [] \<rparr>"

definition signer_lock_from_env :: "('key, 'hsm) signer_env \<Rightarrow> env_vars \<Rightarrow> 'n \<Rightarrow> ('key, 'hsm, 'n, 'receipt) signer_lock result" where
  "signer_lock_from_env env vars n = try_bind (signer_from_env env vars) (\<lambda>sg. Inr (signer_lock_new env sg n))"

definition lock_release :: "nat \<Rightarrow> 'receipt result \<Rightarrow> ('key, 'hsm, 'n, 'receipt) signer_lock \<Rightarrow> ('key, 'hsm, 'n, 'receipt) signer_lock" where
  "lock_release t r s = s\<lparr> sl_holder := None, sl_results := (t, r) # sl_results s \<rparr>"

text \<open>One call of the holder's body. Leaving the body in any way, by a result, an error or a panic, drops the guard.\<close>

definition holder_step ::
  "('key, 'hsm) signer_env \<Rightarrow> ('key, 'hsm, 'n, 'receipt) signer_rpc \<Rightarrow> nat \<Rightarrow> body_point \<Rightarrow>
   ('key, 'hsm, 'n, 'receipt) signer_lock \<Rightarrow> ('key, 'hsm, 'n, 'receipt) signer_lock" where
  "holder_step env rpc t p s =
     (let sg = sl_inner s in
      case p of
        Entered tx timeout_secs \<Rightarrow>
          (case fill_request sg rpc (prepare_request env sg tx) (sl_node s) of
             Inl e \<Rightarrow> lock_release t (Inl e) s
           | Inr filled \<Rightarrow> s\<lparr> sl_holder := Some (t, AfterFill filled timeout_secs) \<rparr>)
      | AfterFill filled timeout_secs \<Rightarrow>
          (case sign_request sg rpc filled of
             Inl e \<Rightarrow> lock_release t (Inl e) s
           | Inr envelope \<Rightarrow> s\<lparr> sl_holder := Some (t, AfterSign envelope timeout_secs) \<rparr>)
      | AfterSign envelope timeout_secs \<Rightarrow>
          (case broadcast sg rpc envelope (sl_node s) of
             (Inl e, n) \<Rightarrow> lock_release t (Inl e) (s\<lparr> sl_node := n \<rparr>)
           | (Inr hash, n) \<Rightarrow> s\<lparr> sl_node := n, sl_holder := Some (t, AfterSend hash timeout_secs), sl_accepted := sl_accepted s @ [envelope] \<rparr>)
      | AfterSend hash timeout_secs \<Rightarrow> lock_release t (await_receipt rpc timeout_secs hash (sl_node s)) s)"

text \<open>Tasks call at any time; no caller sets the nonce of its request.\<close>

inductive lock_step ::
  "('key, 'hsm) signer_env \<Rightarrow> ('key, 'hsm, 'n, 'receipt) signer_rpc \<Rightarrow>
   ('key, 'hsm, 'n, 'receipt) signer_lock \<Rightarrow> ('key, 'hsm, 'n, 'receipt) signer_lock \<Rightarrow> bool" for env rpc where
  call: "tr_nonce tx = None \<Longrightarrow> lock_step env rpc s (s\<lparr> sl_queue := sl_queue s @ [(t, tx, timeout_secs)] \<rparr>)"
| acquire: "sl_holder s = None \<Longrightarrow> sl_queue s = (t, tx, timeout_secs) # rest \<Longrightarrow>
    lock_step env rpc s (s\<lparr> sl_queue := rest, sl_holder := Some (t, Entered tx timeout_secs) \<rparr>)"
| holder: "sl_holder s = Some (t, p) \<Longrightarrow> lock_step env rpc s (holder_step env rpc t p s)"


section \<open>Nonces\<close>

text \<open>
  What the node promises for an account only this signer uses: filling a request without a nonce reads the next nonce of the
  sender, signing changes neither sender nor nonce, and the next nonce goes up by one with each accepted transaction and not
  otherwise. Between two calls of the signer the node keeps its count: no reorganization or eviction takes an accepted transaction back, and
  a send that fails was not accepted.
\<close>

definition counts_nonces :: "('key, 'hsm, 'n, 'receipt) signer_rpc \<Rightarrow> ('key, 'hsm) signer \<Rightarrow> address \<Rightarrow> ('n \<Rightarrow> u64) \<Rightarrow> bool" where
  "counts_nonces rpc sg a next_nonce \<longleftrightarrow>
     (\<forall>tx n filled. tr_from tx = Some a \<longrightarrow> tr_nonce tx = None \<longrightarrow> rpc_fill rpc tx n = Inr filled \<longrightarrow>
        tr_from filled = Some a \<and> tr_nonce filled = Some (next_nonce n)) \<and>
     (\<forall>tx envelope. sign_request sg rpc tx = Inr envelope \<longrightarrow> tr_from envelope = tr_from tx \<and> tr_nonce envelope = tr_nonce tx) \<and>
     (\<forall>tx n hash n'. tr_from tx = Some a \<longrightarrow> rpc_send rpc tx n = (Inr hash, n') \<longrightarrow> next_nonce n' = next_nonce n + 1) \<and>
     (\<forall>tx n e n'. rpc_send rpc tx n = (Inl e, n') \<longrightarrow> next_nonce n' = next_nonce n)"

text \<open>The invariant: the accepted transactions carry consecutive nonces from the first one on, and a transaction the holder has
  filled carries the next.\<close>

fun point_ok :: "address \<Rightarrow> u64 \<Rightarrow> body_point \<Rightarrow> bool" where
  "point_ok a nonce (Entered tx _) = (tr_nonce tx = None)"
| "point_ok a nonce (AfterFill tx _) = (tr_from tx = Some a \<and> tr_nonce tx = Some nonce)"
| "point_ok a nonce (AfterSign tx _) = (tr_from tx = Some a \<and> tr_nonce tx = Some nonce)"
| "point_ok a nonce (AfterSend _ _) = True"

definition lock_inv :: "('key, 'hsm) signer_env \<Rightarrow> ('key, 'hsm) signer \<Rightarrow> u64 \<Rightarrow> ('n \<Rightarrow> u64) \<Rightarrow> ('key, 'hsm, 'n, 'receipt) signer_lock \<Rightarrow> bool" where
  "lock_inv env sg first next_nonce s \<longleftrightarrow>
     (\<forall>(t, tx, timeout_secs) \<in> set (sl_queue s). tr_nonce tx = None) \<and> sl_inner s = sg \<and> sl_cached_address s = signer_address env sg \<and>
     next_nonce (sl_node s) = first + of_nat (length (sl_accepted s)) \<and>
     map tr_nonce (sl_accepted s) = map (\<lambda>i. Some (first + of_nat i)) [0..<length (sl_accepted s)] \<and>
     (\<forall>tx \<in> set (sl_accepted s). tr_from tx = Some (signer_address env sg)) \<and>
     (\<forall>t p. sl_holder s = Some (t, p) \<longrightarrow> point_ok (signer_address env sg) (next_nonce (sl_node s)) p)"

lemma with_context_Inr [simp]: "with_context m r = Inr x \<longleftrightarrow> r = Inr x"
  by (cases r) (auto simp: with_context_def)

lemma fill_request_Inr: "fill_request sg rpc tx n = Inr x \<longleftrightarrow> rpc_fill rpc tx n = Inr x"
  by (simp add: fill_request_def)

lemma broadcast_cases: "broadcast sg rpc tx n = (r, n') \<Longrightarrow> (\<exists>e e'. rpc_send rpc tx n = (Inl e', n') \<and> r = Inl e) \<or> (\<exists>h. rpc_send rpc tx n = (Inr h, n') \<and> r = Inr h)"
  by (auto simp: broadcast_def with_context_def split: prod.splits sum.splits)

lemma prepare_request_simps [simp]:
  "tr_from (prepare_request env sg tx) = Some (signer_address env sg)" "tr_nonce (prepare_request env sg tx) = tr_nonce tx"
  by (auto simp: prepare_request_def Let_def)

lemma lock_release_inv: "lock_inv env sg first nn s \<Longrightarrow> lock_inv env sg first nn (lock_release t r s)"
  by (simp add: lock_inv_def lock_release_def)

lemma holder_step_inv:
  assumes "counts_nonces rpc sg (signer_address env sg) nn" "lock_inv env sg first nn s" "sl_holder s = Some (t, p)"
  shows "lock_inv env sg first nn (holder_step env rpc t p s)"
proof -
  let ?a = "signer_address env sg"
  from assms(2) have sg: "sl_inner s = sg" by (simp add: lock_inv_def)
  have p: "point_ok ?a (nn (sl_node s)) p" using assms(2,3) unfolding lock_inv_def by blast
  show ?thesis
  proof (cases p)
    case (Entered tx timeout_secs)
    show ?thesis
    proof (cases "fill_request sg rpc (prepare_request env sg tx) (sl_node s)")
      case (Inl e)
      then show ?thesis using sg Entered lock_release_inv [OF assms(2)] by (simp add: holder_step_def)
    next
      case (Inr filled)
      have "tr_nonce tx = None" "rpc_fill rpc (prepare_request env sg tx) (sl_node s) = Inr filled" using p Entered Inr by (simp_all add: fill_request_Inr)
      with assms(1) have "point_ok ?a (nn (sl_node s)) (AfterFill filled timeout_secs)"
        unfolding counts_nonces_def point_ok.simps by (metis prepare_request_simps)
      with Inr Entered sg assms(2) show ?thesis by (simp add: holder_step_def lock_inv_def)
    qed
  next
    case (AfterFill filled timeout_secs)
    show ?thesis
    proof (cases "sign_request sg rpc filled")
      case (Inl e)
      then show ?thesis using sg AfterFill lock_release_inv [OF assms(2)] by (simp add: holder_step_def)
    next
      case (Inr envelope)
      with assms(1) p AfterFill have "point_ok ?a (nn (sl_node s)) (AfterSign envelope timeout_secs)"
        by (auto simp: counts_nonces_def)
      with Inr AfterFill sg assms(2) show ?thesis by (simp add: holder_step_def lock_inv_def)
    qed
  next
    case (AfterSign envelope timeout_secs)
    obtain r n where b: "broadcast sg rpc envelope (sl_node s) = (r, n)" by fastforce
    from p AfterSign have envelope: "tr_from envelope = Some ?a" "tr_nonce envelope = Some (nn (sl_node s))" by simp_all
    from broadcast_cases [OF b] show ?thesis
    proof (elim disjE exE conjE)
      fix e e' assume "rpc_send rpc envelope (sl_node s) = (Inl e', n)" "r = Inl e"
      moreover from this(1) assms(1) have "nn n = nn (sl_node s)" by (auto simp: counts_nonces_def)
      ultimately show ?thesis using b AfterSign sg assms(2) by (simp add: holder_step_def lock_inv_def lock_release_def)
    next
      fix h assume "rpc_send rpc envelope (sl_node s) = (Inr h, n)" "r = Inr h"
      moreover from this(1) assms(1) envelope(1) have "nn n = nn (sl_node s) + 1" unfolding counts_nonces_def by blast
      ultimately show ?thesis
        using b AfterSign sg assms(2) envelope by (simp add: holder_step_def lock_inv_def algebra_simps)
    qed
  next
    case (AfterSend hash timeout_secs)
    then show ?thesis using lock_release_inv [OF assms(2)] by (simp add: holder_step_def)
  qed
qed

lemma lock_step_inv:
  assumes "counts_nonces rpc sg (signer_address env sg) nn" "lock_inv env sg first nn s" "lock_step env rpc s s'"
  shows "lock_inv env sg first nn s'"
  using assms(3)
proof (cases rule: lock_step.cases)
  case (holder t p)
  then show ?thesis using holder_step_inv [OF assms(1,2)] by simp
qed (use assms(2) in \<open>auto simp: lock_inv_def\<close>)

lemma lock_new_inv: "lock_inv env sg (nn n) nn (signer_lock_new env sg n)"
  by (simp add: lock_inv_def signer_lock_new_def)

text \<open>The lock as a system of steps, for a node that counts nonces.\<close>

definition counted_step where
  "counted_step env rpc sg nn s s' \<longleftrightarrow> counts_nonces rpc sg (signer_address env sg) nn \<and> lock_step env rpc s s'"

interpretation signer_lock: step_system "\<lambda>s. s = signer_lock_new env sg n" "counted_step env rpc sg nn" "lock_inv env sg (nn n) nn"
  for env rpc sg n nn
  by unfold_locales (auto simp: lock_new_inv counted_step_def intro: lock_step_inv)

lemma consecutive_distinct:
  fixes first :: "'a::len word"
  assumes "m \<le> 2 ^ LENGTH('a)"
  shows "distinct (map (\<lambda>i. Some (first + of_nat i)) [0..<m])"
proof -
  have "i = j" if "(of_nat i :: 'a word) = of_nat j" "i < m" "j < m" for i j
  proof -
    from that(1) have "i mod 2 ^ LENGTH('a) = j mod 2 ^ LENGTH('a)" by (metis unat_of_nat)
    with that(2,3) assms show ?thesis by simp
  qed
  then show ?thesis by (auto simp: distinct_map inj_on_def)
qed

section \<open>Properties\<close>

text \<open>C19: The lock prevents nonce conflicts. However the tasks that send through one \<open>SignerLock\<close> interleave, and whichever of
  their sends fail in filling, signing, sending or waiting for the receipt: as long as the node counts the nonces of the
  signer's account and fewer than \<open>2 ^ 64\<close> transactions were accepted, the accepted transactions all come from the signer's
  address, no two of them carry the same nonce, and the cached address is that of the signer.\<close>

theorem signer_nonces_unique:
  assumes "counts_nonces rpc sg (signer_address env sg) nn" "(lock_step env rpc)\<^sup>*\<^sup>* (signer_lock_new env sg n) s"
    and "length (sl_accepted s) \<le> 2 ^ 64"
  shows "distinct (map tr_nonce (sl_accepted s)) \<and> (\<forall>tx \<in> set (sl_accepted s). tr_from tx = Some (signer_address env sg)) \<and>
    sl_cached_address s = signer_address env sg"
proof -
  have "lock_step env rpc = counted_step env rpc sg nn" using assms(1) by (intro ext) (simp add: counted_step_def)
  with assms(2) have "lock_inv env sg (nn n) nn s" using signer_lock.reachable_inv [OF refl] by simp
  then show ?thesis using consecutive_distinct [of "length (sl_accepted s)" "nn n"] assms(3) by (simp add: lock_inv_def)
qed

text \<open>Every signer that can be configured sends from its own address, and the wallets mark a request without recipient as a
  contract creation; through the remote signer it stays without one.\<close>

lemma prepare_request_to:
  "tr_to (prepare_request env sg tx) = (if is_web3 sg then tr_to tx else Some (case tr_to tx of None \<Rightarrow> TxCreate | Some k \<Rightarrow> k))"
  by (auto simp: prepare_request_def Let_def split: option.splits)

text \<open>The precedence of the configurations: the key management service needs all three of its variables, the remote signer
  both of its own, and the private key is read last.\<close>

lemma signer_from_env_kind:
  assumes "signer_from_env env vars = Inr sg"
  shows "(\<exists>hsm. sg = CloudHsmSigner hsm) \<longleftrightarrow> vars ''GOOGLE_PROJECT_ID'' \<noteq> None \<and> vars ''GOOGLE_LOCATION'' \<noteq> None \<and> vars ''GOOGLE_KEYRING'' \<noteq> None"
    and "is_web3 sg \<longleftrightarrow> \<not> (\<exists>hsm. sg = CloudHsmSigner hsm) \<and> vars ''SIGNER_URL'' \<noteq> None \<and> vars ''SIGNER_ADDRESS'' \<noteq> None"
  using assms
  by (auto simp: signer_from_env_def new_local_signer_def new_web3_signer_def is_web3_def try_bind_eq_Inr
           split: option.splits)

section \<open>Witnesses\<close>

text \<open>A node that is the number of accepted transactions, which rejects payloads that start with 9, and a local key.\<close>

definition sample_signer_rpc :: "(unit, unit, nat, b256) signer_rpc" where
  "sample_signer_rpc =
     \<lparr> rpc_fill = (\<lambda>tx n. Inr (tx\<lparr> tr_nonce := Some (case tr_nonce tx of None \<Rightarrow> of_nat n | Some k \<Rightarrow> k) \<rparr>)),
       key_sign = (\<lambda>_ tx. Inr tx), hsm_sign = (\<lambda>_ tx. Inr tx), eth_signTransaction = (\<lambda>_ _. Inl (Err ''offline'')), decode_2718 = (\<lambda>_. None),
       rpc_send = (\<lambda>tx n. if take 1 (tr_payload tx) = [9] then (Inl (Err ''rejected''), n) else (Inr (of_nat n), Suc n)),
       rpc_receipt = (\<lambda>h _ _ _. Inr h) \<rparr>"

definition sample_signer_env :: "(unit, unit) signer_env" where
  "sample_signer_env =
     \<lparr> key_address = (\<lambda>_. 7), hsm_address = (\<lambda>_. 8), private_key_from_str = (\<lambda>_. Inr ()), url_parse = Inr,
       address_from_str = (\<lambda>_. Inl (Err ''address'')), gcp_signer_new = (\<lambda>_ _ _ _ _. Inl (Err ''gcp'')) \<rparr>"

definition sample_tx :: "u8 \<Rightarrow> tx_request" where
  "sample_tx b = \<lparr> tr_from = None, tr_to = None, tr_nonce = None, tr_payload = [b] \<rparr>"

fun lock_holds :: "nat \<Rightarrow> (unit, unit, nat, b256) signer_lock \<Rightarrow> (unit, unit, nat, b256) signer_lock" where
  "lock_holds 0 s = s"
| "lock_holds (Suc k) s =
     lock_holds k (case sl_holder s of Some (t, p) \<Rightarrow> holder_step sample_signer_env sample_signer_rpc t p s
       | None \<Rightarrow> (case sl_queue s of [] \<Rightarrow> s | (t, tx, d) # rest \<Rightarrow> s\<lparr> sl_queue := rest, sl_holder := Some (t, Entered tx d) \<rparr>))"

lemma lock_holds_steps: "(lock_step sample_signer_env sample_signer_rpc)\<^sup>*\<^sup>* s (lock_holds k s)"
proof (induction k arbitrary: s)
  case (Suc k)
  have "(lock_step sample_signer_env sample_signer_rpc)\<^sup>*\<^sup>* s (lock_holds (Suc 0) s)"
    by (auto split: option.split list.split intro: lock_step.acquire lock_step.holder)
  also have "(lock_step sample_signer_env sample_signer_rpc)\<^sup>*\<^sup>* (lock_holds (Suc 0) s) (lock_holds (Suc k) s)"
    using Suc by simp
  finally show ?case .
qed simp

theorem signer_nonces_unique_witness:
  "\<exists>s. (lock_step sample_signer_env sample_signer_rpc)\<^sup>*\<^sup>* (signer_lock_new sample_signer_env (LocalSigner ()) 0) s \<and>
     map tr_nonce (sl_accepted s) = [Some 0, Some 1] \<and> distinct (map tr_nonce (sl_accepted s))"
proof -
  let ?empty = "signer_lock_new sample_signer_env (LocalSigner ()) 0 :: (unit, unit, nat, b256) signer_lock"
  let ?one = "?empty\<lparr> sl_queue := sl_queue ?empty @ [(1, sample_tx 4, 60)] \<rparr>"
  let ?two = "?one\<lparr> sl_queue := sl_queue ?one @ [(2, sample_tx 9, 60)] \<rparr>"
  let ?three = "?two\<lparr> sl_queue := sl_queue ?two @ [(3, sample_tx 5, 60)] \<rparr>"
  let ?s = "lock_holds 14 ?three" and ?step = "lock_step sample_signer_env sample_signer_rpc"
  have calls: "?step ?empty ?one" "?step ?one ?two" "?step ?two ?three" by (rule lock_step.call, simp add: sample_tx_def)+
  have steps: "?step\<^sup>*\<^sup>* ?empty ?s"
    by (rule converse_rtranclp_into_rtranclp [OF calls(1) converse_rtranclp_into_rtranclp [OF calls(2)
          converse_rtranclp_into_rtranclp [OF calls(3) lock_holds_steps]]])
  have nonces: "map tr_nonce (sl_accepted ?s) = [Some 0, Some 1]" by code_simp
  then have "length (map tr_nonce (sl_accepted ?s)) = 2" by simp
  then have "length (sl_accepted ?s) \<le> 2 ^ 64" by (simp only: length_map) simp
  moreover have "counts_nonces sample_signer_rpc (LocalSigner ()) (signer_address sample_signer_env (LocalSigner ())) of_nat"
    by (auto simp: counts_nonces_def sample_signer_rpc_def sign_request_def split: if_splits)
  ultimately have distinct: "distinct (map tr_nonce (sl_accepted ?s))" using signer_nonces_unique [OF _ steps] by blast
  show ?thesis by (intro exI [of _ ?s] conjI steps nonces distinct)
qed

end
