(* ===== verification/Precompiles.thy ===== *)
theory Precompiles
  imports Prelude
begin

text \<open>
  The EVM's precompiled contracts inside the zero-knowledge machine (\<open>utils/client/src/precompiles\<close>): the provider that looks a
  precompile up by the address of the code, runs it between two lines for the cycle tracker, and turns its output into a result of
  the interpreter (\<open>mod.rs\<close>); the provider the factory installs (\<open>factory.rs\<close>); and the check of KZG openings (\<open>custom.rs\<close>).

  The tables of precompiles, their code and the interpreter are other crates, and so is the KZG library: they are arguments. The
  code is compiled twice, for the machine and for the host; \<open>zkvm\<close> is the build. The main result is that the two builds compute the
  same (\<open>zkvm_run_transparent\<close>), which is what makes a proof say something about the execution outside.
\<close>

section \<open>Cycle tracking\<close>

text \<open>The precompiles the code distinguishes; all others are one case.\<close>

datatype precompile_id = EcRec | Bn254Add | Bn254Mul | Bn254Pairing | P256Verify | KzgPointEvaluation | OtherPrecompile string

definition PREFIX :: string where
  "PREFIX = ''precompile-''"

fun get_precompile_tracker_name :: "precompile_id \<Rightarrow> string option" where
  "get_precompile_tracker_name Bn254Add = Some ''bn-add''"
| "get_precompile_tracker_name Bn254Mul = Some ''bn-mul''"
| "get_precompile_tracker_name Bn254Pairing = Some ''bn-pair''"
| "get_precompile_tracker_name EcRec = Some ''ec-recover''"
| "get_precompile_tracker_name P256Verify = Some ''p256-verify''"
| "get_precompile_tracker_name KzgPointEvaluation = Some ''kzg-eval''"
| "get_precompile_tracker_name (OtherPrecompile _) = None"

text \<open>\<open>cycle_tracker::keys\<close>, the keys under which the execution report has the cycles.\<close>

definition KEY_BN_ADD :: string where "KEY_BN_ADD = ''precompile-bn-add''"
definition KEY_BN_MUL :: string where "KEY_BN_MUL = ''precompile-bn-mul''"
definition KEY_BN_PAIR :: string where "KEY_BN_PAIR = ''precompile-bn-pair''"
definition KEY_EC_RECOVER :: string where "KEY_EC_RECOVER = ''precompile-ec-recover''"
definition KEY_P256_VERIFY :: string where "KEY_P256_VERIFY = ''precompile-p256-verify''"
definition KEY_KZG_EVAL :: string where "KEY_KZG_EVAL = ''precompile-kzg-eval''"

lemmas tracker_keys = KEY_BN_ADD_def KEY_BN_MUL_def KEY_BN_PAIR_def KEY_EC_RECOVER_def KEY_P256_VERIFY_def KEY_KZG_EVAL_def

text \<open>The lines printed around a run have exactly the keys of the report, one per tracked precompile.\<close>

lemma tracker_names_keys:
  "map (\<lambda>p. map_option (append PREFIX) (get_precompile_tracker_name p)) [Bn254Add, Bn254Mul, Bn254Pairing, EcRec, P256Verify, KzgPointEvaluation] =
   map Some [KEY_BN_ADD, KEY_BN_MUL, KEY_BN_PAIR, KEY_EC_RECOVER, KEY_P256_VERIFY, KEY_KZG_EVAL]"
  by (simp add: PREFIX_def tracker_keys)

lemma tracker_name_inj:
  "get_precompile_tracker_name p = Some n \<Longrightarrow> get_precompile_tracker_name q = Some n \<Longrightarrow> p = q"
  by (cases p; cases q) auto

section \<open>The provider\<close>

text \<open>The output of a precompile: the reason it halted, if it did (whether out of gas, and its text), and what the
  interpreter needs besides.\<close>

record 'o precompile_output =
  po_halt_reason :: "(bool \<times> string) option"
  po_rest :: 'o

record 'o precompile =
  pr_id :: precompile_id
  pr_execute :: "u8 list \<Rightarrow> u64 \<Rightarrow> u64 \<Rightarrow> 'o precompile_output result"

text \<open>The tables of op-revm per specification, and the interpreter's view of an output.\<close>

record ('spec, 'o, 'res) revm_env =
  op_precompiles :: "'spec \<Rightarrow> address \<Rightarrow> 'o precompile option"
  output_to_result :: "'o precompile_output \<Rightarrow> u64 \<Rightarrow> 'res"

record ('spec, 'o) zkvm_precompiles =
  zp_inner :: "address \<Rightarrow> 'o precompile option"
  zp_spec :: 'spec

datatype call_input = SharedBuffer nat nat | InputBytes "u8 list"

record call_inputs =
  ci_input :: call_input
  ci_gas_limit :: u64
  ci_reservoir :: u64
  ci_bytecode_address :: address
  ci_target_address :: address

text \<open>The parts of the context a run touches: the shared memory, the depth of the journal, the error kept for the top level, and the
  lines printed.\<close>

record evm_context =
  ctx_buffer_slice :: "nat \<Rightarrow> nat \<Rightarrow> u8 list option"
  ctx_depth :: nat
  ctx_precompile_error :: "string option"
  ctx_printed :: "string list"

definition new_with_spec :: "('spec, 'o, 'res) revm_env \<Rightarrow> 'spec \<Rightarrow> ('spec, 'o) zkvm_precompiles" where
  "new_with_spec env spec = \<lparr> zp_inner = op_precompiles env spec, zp_spec = spec \<rparr>"

definition set_spec :: "('spec, 'o, 'res) revm_env \<Rightarrow> 'spec \<Rightarrow> ('spec, 'o) zkvm_precompiles \<Rightarrow> bool \<times> ('spec, 'o) zkvm_precompiles" where
  "set_spec env spec self = (if spec = zp_spec self then (False, self) else (True, new_with_spec env spec))"

definition print_tracker :: "bool \<Rightarrow> string \<Rightarrow> string option \<Rightarrow> evm_context \<Rightarrow> evm_context" where
  "print_tracker zkvm mark tracker_name ctx =
     (case tracker_name of
        Some name \<Rightarrow> if zkvm then ctx\<lparr> ctx_printed := ctx_printed ctx @ [mark @ PREFIX @ name] \<rparr> else ctx
      | None \<Rightarrow> ctx)"

definition zkvm_run ::
  "bool \<Rightarrow> ('spec, 'o, 'res) revm_env \<Rightarrow> ('spec, 'o) zkvm_precompiles \<Rightarrow> call_inputs \<Rightarrow> (evm_context, 'res option) handler" where
  "zkvm_run zkvm env self inputs ctx =
     (case zp_inner self (ci_bytecode_address inputs) of
        None \<Rightarrow> (Inr None, ctx)
      | Some precompile \<Rightarrow>
          let tracker_name = get_precompile_tracker_name (pr_id precompile);
              input_bytes = (case ci_input inputs of
                  SharedBuffer lo hi \<Rightarrow> (case ctx_buffer_slice ctx lo hi of None \<Rightarrow> [] | Some bytes \<Rightarrow> bytes)
                | InputBytes bytes \<Rightarrow> bytes);
              ctx = print_tracker zkvm ''cycle-tracker-report-start: '' tracker_name ctx;
              exec_result = pr_execute precompile input_bytes (ci_gas_limit inputs) (ci_reservoir inputs);
              ctx = print_tracker zkvm ''cycle-tracker-report-end: '' tracker_name ctx in
          (case exec_result of
             Inl e \<Rightarrow> (Inl e, ctx)
           | Inr outp \<Rightarrow>
               let ctx = (case po_halt_reason outp of
                     Some (oog, text) \<Rightarrow> if \<not> oog \<and> ctx_depth ctx = 1 then ctx\<lparr> ctx_precompile_error := Some text \<rparr> else ctx
                   | None \<Rightarrow> ctx) in
               (Inr (Some (output_to_result env outp (ci_gas_limit inputs))), ctx)))"

text \<open>\<open>create_evm\<close> and \<open>create_evm_with_inspector\<close> of the factory install the provider for the specification of the input; they
  differ in the inspector, which the provider does not see.\<close>

definition create_evm :: "('spec, 'o, 'res) revm_env \<Rightarrow> 'spec \<Rightarrow> ('spec, 'o) zkvm_precompiles" where
  "create_evm env spec_id = new_with_spec env spec_id"

section \<open>KZG openings\<close>

text \<open>\<open>kzg-rs\<close>: the lengths its byte types accept, and the verification, which can fail, accept or reject.\<close>

definition verify_kzg_proof ::
  "(u8 list \<Rightarrow> u8 list \<Rightarrow> u8 list \<Rightarrow> u8 list \<Rightarrow> bool result) \<Rightarrow> u8 list \<Rightarrow> u8 list \<Rightarrow> u8 list \<Rightarrow> u8 list \<Rightarrow> unit result" where
  "verify_kzg_proof kzg_verify z y commitment proof =
     (let failed = Inl (Err ''BlobVerifyKzgProofFailed'') in
      if length z \<noteq> 32 \<or> length y \<noteq> 32 \<or> length commitment \<noteq> 48 \<or> length proof \<noteq> 48 then failed
      else case kzg_verify commitment z y proof of Inr True \<Rightarrow> Inr () | Inr False \<Rightarrow> failed | Inl _ \<Rightarrow> failed)"

lemma verify_kzg_proof_accepts:
  assumes "length z = 32" "length y = 32" "length commitment = 48" "length proof = 48"
  shows "verify_kzg_proof kzg z y commitment proof = Inr () \<longleftrightarrow> kzg commitment z y proof = Inr True"
  using assms by (auto simp: verify_kzg_proof_def Let_def split: sum.splits bool.splits)

section \<open>Properties\<close>

text \<open>The provider always has the table of its specification, however the specification is changed.\<close>

definition provider_ok :: "('spec, 'o, 'res) revm_env \<Rightarrow> ('spec, 'o) zkvm_precompiles \<Rightarrow> bool" where
  "provider_ok env self \<longleftrightarrow> self = new_with_spec env (zp_spec self)"

lemma set_spec_ok:
  assumes "provider_ok env self"
  shows "provider_ok env (snd (set_spec env spec self))" "snd (set_spec env spec self) = new_with_spec env spec"
    "fst (set_spec env spec self) \<longleftrightarrow> spec \<noteq> zp_spec self"
  using assms by (auto simp: set_spec_def provider_ok_def new_with_spec_def)

definition tracker_lines :: "precompile_id \<Rightarrow> string list" where
  "tracker_lines p =
     (case get_precompile_tracker_name p of
        None \<Rightarrow> []
      | Some name \<Rightarrow> [''cycle-tracker-report-start: '' @ PREFIX @ name, ''cycle-tracker-report-end: '' @ PREFIX @ name])"

text \<open>Cycle tracking is transparent. For every call, whatever the tables and the precompiles do, the provider of the machine
  and that of the host return the same result or error and leave the same context, except that the machine prints a start and an
  end line with the precompile's key exactly when the called code is a tracked precompile. A call to other code does
  nothing; and the lookup goes by the address of the code, whatever the target of the call is.\<close>

theorem zkvm_run_transparent:
  "zkvm_run True env self inputs ctx =
     (let (r, ctx') = zkvm_run False env self (inputs\<lparr> ci_target_address := target \<rparr>) ctx in
      (r, ctx'\<lparr> ctx_printed := ctx_printed ctx @
        (case zp_inner self (ci_bytecode_address inputs) of None \<Rightarrow> [] | Some p \<Rightarrow> tracker_lines (pr_id p)) \<rparr>))"
  by (auto simp: zkvm_run_def print_tracker_def tracker_lines_def Let_def split: option.splits sum.splits call_input.splits prod.splits)

end
