(* ===== verification/CostEstimator.thy ===== *)
theory CostEstimator
  imports Precompiles Fetcher "HOL-Library.Multiset"
begin

text \<open>
  The cost estimator (\<open>scripts/utils/bin/cost_estimator.rs\<close>) with the execution statistics it reports
  (\<open>utils/host/src/stats.rs\<close>, the statistics of \<open>validity/src/types.rs\<close>) and the validation of an execution
  (\<open>utils/proof/src/execution.rs\<close>).

  The estimator selects a block range, splits it, executes the range program on every piece in parallel, appends one row per
  piece to a CSV file, reads the file back and aggregates the rows. The threads that append are steps of their own: a thread
  first looks whether the file is empty and then writes its row, with a header if it was. The prover, the witness generation and the
  node are arguments. The main results: an estimate that is printed covers every block of the range exactly once, with
  executions that reproduce the node's output roots (\<open>cost_estimate_exact\<close>); and two threads can both write the header, after
  which the estimator fails although every execution succeeded (\<open>csv_header_race\<close>).
\<close>

section \<open>Execution statistics\<close>

text \<open>What the prover reports of an execution.\<close>

record execution_report =
  rep_exit_code :: u64
  rep_total_instruction_count :: u64
  rep_gas :: "u64 option"
  rep_cycle_tracker :: "string \<Rightarrow> u64 option"

record execution_stats =
  es_l1_head :: u64
  es_batch_start :: u64
  es_batch_end :: u64
  es_witness_generation_time_sec :: u64
  es_total_execution_time_sec :: u64
  es_total_instruction_count :: u64
  es_oracle_verify_instruction_count :: u64
  es_derivation_instruction_count :: u64
  es_block_execution_instruction_count :: u64
  es_blob_verification_instruction_count :: u64
  es_total_sp1_gas :: u64
  es_nb_blocks :: u64
  es_nb_transactions :: u64
  es_eth_gas_used :: u64
  es_l1_fees :: u128
  es_total_tx_fees :: u128
  es_cycles_per_block :: u64
  es_cycles_per_transaction :: u64
  es_transactions_per_block :: u64
  es_gas_used_per_block :: u64
  es_gas_used_per_transaction :: u64
  es_bn_pair_cycles :: u64
  es_bn_add_cycles :: u64
  es_bn_mul_cycles :: u64
  es_kzg_eval_cycles :: u64
  es_ec_recover_cycles :: u64
  es_p256_verify_cycles :: u64

definition stats_default :: execution_stats where
  "stats_default =
     \<lparr> es_l1_head = 0, es_batch_start = 0, es_batch_end = 0, es_witness_generation_time_sec = 0, es_total_execution_time_sec = 0,
       es_total_instruction_count = 0, es_oracle_verify_instruction_count = 0, es_derivation_instruction_count = 0,
       es_block_execution_instruction_count = 0, es_blob_verification_instruction_count = 0, es_total_sp1_gas = 0, es_nb_blocks = 0,
       es_nb_transactions = 0, es_eth_gas_used = 0, es_l1_fees = 0, es_total_tx_fees = 0, es_cycles_per_block = 0,
       es_cycles_per_transaction = 0, es_transactions_per_block = 0, es_gas_used_per_block = 0, es_gas_used_per_transaction = 0,
       es_bn_pair_cycles = 0, es_bn_add_cycles = 0, es_bn_mul_cycles = 0, es_kzg_eval_cycles = 0, es_ec_recover_cycles = 0,
       es_p256_verify_cycles = 0 \<rparr>"

definition safe_div :: "u64 \<Rightarrow> u64 \<Rightarrow> u64" where
  "safe_div a b = (if b = 0 then 0 else a div b)"

definition get_cycles :: "execution_report \<Rightarrow> string \<Rightarrow> u64" where
  "get_cycles report key = (case rep_cycle_tracker report key of None \<Rightarrow> 0 | Some c \<Rightarrow> c)"

definition report_gas :: "execution_report \<Rightarrow> u64" where
  "report_gas report = (case rep_gas report of None \<Rightarrow> 0 | Some g \<Rightarrow> g)"

definition execution_stats_new :: "u64 \<Rightarrow> l2_block_info list \<Rightarrow> execution_report \<Rightarrow> u64 \<Rightarrow> u64 \<Rightarrow> execution_stats" where
  "execution_stats_new l1_head block_data report witness_generation_time_sec total_execution_time_sec =
     (if block_data = [] then stats_default
      else let block_data = sort_key bi_block_number block_data;
               nb_blocks = of_nat (length block_data);
               nb_transactions = sum_list (map bi_transaction_count block_data);
               total_gas_used = sum_list (map bi_gas_used block_data);
               total_instructions = rep_total_instruction_count report in
        \<lparr> es_l1_head = l1_head,
          es_batch_start = bi_block_number (hd block_data) - 1, es_batch_end = bi_block_number (last block_data),
          es_witness_generation_time_sec = witness_generation_time_sec, es_total_execution_time_sec = total_execution_time_sec,
          es_total_instruction_count = total_instructions,
          es_oracle_verify_instruction_count = get_cycles report ''oracle-verify'',
          es_derivation_instruction_count = get_cycles report ''payload-derivation'',
          es_block_execution_instruction_count = get_cycles report ''block-execution'',
          es_blob_verification_instruction_count = get_cycles report ''blob-verification'',
          es_total_sp1_gas = report_gas report, es_nb_blocks = nb_blocks, es_nb_transactions = nb_transactions,
          es_eth_gas_used = sum_list (map bi_gas_used block_data),
          es_l1_fees = sum_list (map bi_total_l1_fees block_data), es_total_tx_fees = sum_list (map bi_total_tx_fees block_data),
          es_cycles_per_block = safe_div total_instructions nb_blocks, es_cycles_per_transaction = safe_div total_instructions nb_transactions,
          es_transactions_per_block = safe_div nb_transactions nb_blocks, es_gas_used_per_block = safe_div total_gas_used nb_blocks,
          es_gas_used_per_transaction = safe_div total_gas_used nb_transactions,
          es_bn_pair_cycles = get_cycles report KEY_BN_PAIR, es_bn_add_cycles = get_cycles report KEY_BN_ADD,
          es_bn_mul_cycles = get_cycles report KEY_BN_MUL, es_kzg_eval_cycles = get_cycles report KEY_KZG_EVAL,
          es_ec_recover_cycles = get_cycles report KEY_EC_RECOVER, es_p256_verify_cycles = get_cycles report KEY_P256_VERIFY \<rparr>)"

text \<open>\<open>RequestExecutionStatistics\<close>, kept with a request of the validity proposer: from a report, or from what the prover network
  says of a request.\<close>

record request_execution_statistics =
  rs_total_instruction_cycles :: u64
  rs_total_sp1_gas :: u64
  rs_block_execution_cycles :: u64
  rs_oracle_verify_cycles :: u64
  rs_derivation_cycles :: u64
  rs_blob_verification_cycles :: u64
  rs_bn_add_cycles :: u64
  rs_bn_mul_cycles :: u64
  rs_bn_pair_cycles :: u64
  rs_kzg_eval_cycles :: u64
  rs_ec_recover_cycles :: u64
  rs_p256_verify_cycles :: u64

definition request_execution_statistics_new :: "execution_report \<Rightarrow> request_execution_statistics" where
  "request_execution_statistics_new report =
     \<lparr> rs_total_instruction_cycles = rep_total_instruction_count report, rs_total_sp1_gas = report_gas report,
       rs_block_execution_cycles = get_cycles report ''block-execution'', rs_oracle_verify_cycles = get_cycles report ''oracle-verify'',
       rs_derivation_cycles = get_cycles report ''payload-derivation'', rs_blob_verification_cycles = get_cycles report ''blob-verification'',
       rs_bn_add_cycles = get_cycles report KEY_BN_ADD, rs_bn_mul_cycles = get_cycles report KEY_BN_MUL,
       rs_bn_pair_cycles = get_cycles report KEY_BN_PAIR, rs_kzg_eval_cycles = get_cycles report KEY_KZG_EVAL,
       rs_ec_recover_cycles = get_cycles report KEY_EC_RECOVER, rs_p256_verify_cycles = get_cycles report KEY_P256_VERIFY \<rparr>"

definition request_execution_statistics_from :: "u64 \<Rightarrow> u64 \<Rightarrow> request_execution_statistics" where
  "request_execution_statistics_from cycles gas_used =
     \<lparr> rs_total_instruction_cycles = cycles, rs_total_sp1_gas = gas_used, rs_block_execution_cycles = 0, rs_oracle_verify_cycles = 0,
       rs_derivation_cycles = 0, rs_blob_verification_cycles = 0, rs_bn_add_cycles = 0, rs_bn_mul_cycles = 0, rs_bn_pair_cycles = 0,
       rs_kzg_eval_cycles = 0, rs_ec_recover_cycles = 0, rs_p256_verify_cycles = 0 \<rparr>"

text \<open>The body of the loop of \<open>aggregate_execution_stats\<close>, with the two bounds beside the sums, and the function.\<close>

definition aggregate_step :: "execution_stats \<Rightarrow> execution_stats \<times> u64 \<times> u64 \<Rightarrow> execution_stats \<times> u64 \<times> u64" where
  "aggregate_step stats acc =
     (case acc of (agg, batch_start, batch_end) \<Rightarrow>
       (agg\<lparr> es_total_instruction_count := es_total_instruction_count agg + es_total_instruction_count stats,
             es_oracle_verify_instruction_count := es_oracle_verify_instruction_count agg + es_oracle_verify_instruction_count stats,
             es_derivation_instruction_count := es_derivation_instruction_count agg + es_derivation_instruction_count stats,
             es_block_execution_instruction_count := es_block_execution_instruction_count agg + es_block_execution_instruction_count stats,
             es_blob_verification_instruction_count := es_blob_verification_instruction_count agg + es_blob_verification_instruction_count stats,
             es_total_sp1_gas := es_total_sp1_gas agg + es_total_sp1_gas stats,
             es_nb_blocks := es_nb_blocks agg + es_nb_blocks stats,
             es_nb_transactions := es_nb_transactions agg + es_nb_transactions stats,
             es_eth_gas_used := es_eth_gas_used agg + es_eth_gas_used stats,
             es_bn_pair_cycles := es_bn_pair_cycles agg + es_bn_pair_cycles stats,
             es_bn_add_cycles := es_bn_add_cycles agg + es_bn_add_cycles stats,
             es_bn_mul_cycles := es_bn_mul_cycles agg + es_bn_mul_cycles stats,
             es_kzg_eval_cycles := es_kzg_eval_cycles agg + es_kzg_eval_cycles stats,
             es_ec_recover_cycles := es_ec_recover_cycles agg + es_ec_recover_cycles stats,
             es_p256_verify_cycles := es_p256_verify_cycles agg + es_p256_verify_cycles stats \<rparr>,
        min batch_start (es_batch_start stats), max batch_end (es_batch_end stats)))"

definition aggregate_execution_stats :: "execution_stats list \<Rightarrow> u64 \<Rightarrow> u64 \<Rightarrow> execution_stats" where
  "aggregate_execution_stats execution_stats total_execution_time_sec witness_generation_time_sec =
     (case fold aggregate_step execution_stats (stats_default, - 1, 0) of (agg, batch_start, batch_end) \<Rightarrow>
       agg\<lparr> es_cycles_per_block := safe_div (es_total_instruction_count agg) (es_nb_blocks agg),
            es_cycles_per_transaction := safe_div (es_total_instruction_count agg) (es_nb_transactions agg),
            es_transactions_per_block := safe_div (es_nb_transactions agg) (es_nb_blocks agg),
            es_gas_used_per_block := safe_div (es_eth_gas_used agg) (es_nb_blocks agg),
            es_gas_used_per_transaction := safe_div (es_eth_gas_used agg) (es_nb_transactions agg),
            es_batch_start := batch_start, es_batch_end := batch_end,
            es_total_execution_time_sec := total_execution_time_sec, es_witness_generation_time_sec := witness_generation_time_sec \<rparr>)"

section \<open>Executing the ranges\<close>

definition validate_range_execution ::
  "(u8 list \<Rightarrow> boot_info_struct option) \<Rightarrow> u8 list \<Rightarrow> execution_report \<Rightarrow> u64 \<Rightarrow> b256 \<Rightarrow> b256 \<Rightarrow> unit result" where
  "validate_range_execution decode public_values report end_block starting_output_root expected_root =
     try_bind (ensure (rep_exit_code report = 0) ''Range program exited with a code'') (\<lambda>_.
     try_bind (ok_or ''Range program did not commit valid boot info'' (decode public_values)) (\<lambda>boot.
     try_bind (ensure (bis_l2BlockNumber boot = end_block) ''Range program committed another block'') (\<lambda>_.
     try_bind (ensure (bis_l2PreRoot boot = starting_output_root) ''Range program committed another starting output root'') (\<lambda>_.
     ensure (bis_l2PostRoot boot = expected_root) ''Range program committed another output root''))))"

text \<open>\<open>context\<close> of anyhow: a panic is not an error value.\<close>

definition in_context :: "string \<Rightarrow> 'a result \<Rightarrow> 'a result" where
  "in_context m r = (case r of Inl (Err _) \<Rightarrow> Inl (Err m) | _ \<Rightarrow> r)"

text \<open>The host (arguments, witness, input of the program), the cache of inputs, and the prover.\<close>

record ('args, 'wit, 'stdin) estimator_env =
  ee_fetch :: "u64 \<Rightarrow> u64 \<Rightarrow> b256 option \<Rightarrow> bool \<Rightarrow> 'args result option"
  ee_run :: "'args \<Rightarrow> 'wit result"
  ee_get_sp1_stdin :: "'wit \<Rightarrow> 'stdin result"
  ee_load_stdin_from_cache :: "u64 \<Rightarrow> u64 \<Rightarrow> u64 \<Rightarrow> 'stdin option result"
  ee_execute :: "'stdin \<Rightarrow> (u8 list \<times> execution_report) result"
  ee_decode_boot :: "u8 list \<Rightarrow> boot_info_struct option"

definition range_data :: "node \<Rightarrow> u64 \<times> u64 \<Rightarrow> ((u64 \<times> u64) \<times> l2_block_info list \<times> b256 \<times> b256) result" where
  "range_data nd rng =
     try_bind (in_context ''Failed to fetch block data range'' (Fetcher.get_l2_block_data_range nd (fst rng) (snd rng))) (\<lambda>block_data.
     try_bind (in_context ''Failed to fetch expected starting L2 output'' (get_l2_output_root nd (fst rng))) (\<lambda>starting_output_root.
     try_bind (in_context ''Failed to fetch expected L2 output'' (get_l2_output_root nd (snd rng))) (\<lambda>expected_root.
     Inr (rng, block_data, starting_output_root, expected_root))))"

text \<open>The task of one range: the cached input, or a fresh one. Saving a fresh input only affects later runs.\<close>

definition range_stdin :: "('args, 'wit, 'stdin) estimator_env \<Rightarrow> bool \<Rightarrow> u64 \<Rightarrow> 'args \<times> u64 \<times> u64 \<Rightarrow> 'stdin result" where
  "range_stdin env cache_enabled l2_chain_id task =
     (case task of (host_args, start, end) \<Rightarrow>
       case (if cache_enabled then ee_load_stdin_from_cache env l2_chain_id start end else Inr None) of
         Inr (Some stdin) \<Rightarrow> Inr stdin
       | _ \<Rightarrow> try_bind (unwrap (ee_run env host_args)) (\<lambda>witness_data. unwrap (ee_get_sp1_stdin env witness_data)))"

definition execute_range ::
  "('args, 'wit, 'stdin) estimator_env \<Rightarrow> 'stdin \<times> (u64 \<times> u64) \<times> l2_block_info list \<times> b256 \<times> b256 \<Rightarrow> execution_stats result" where
  "execute_range env input =
     (case input of (sp1_stdin, rng, block_data, starting_output_root, expected_root) \<Rightarrow>
       try_bind (in_context ''Failed to execute blocks'' (ee_execute env sp1_stdin)) (\<lambda>(public_values, report).
       try_bind (validate_range_execution (ee_decode_boot env) public_values report (snd rng) starting_output_root expected_root) (\<lambda>_.
       Inr (execution_stats_new 0 block_data report 0 0))))"

section \<open>The CSV file\<close>

text \<open>Lines of the report, and the two calls of a thread on it: looking whether the file is empty, and appending.\<close>

datatype csv_line = CsvHeader | CsvRow execution_stats

datatype csv_event = CheckEmpty nat | WriteRow nat

fun csv_run :: "execution_stats list \<Rightarrow> csv_event list \<Rightarrow> csv_line list \<times> (nat \<Rightarrow> bool) \<Rightarrow> csv_line list \<times> (nat \<Rightarrow> bool)" where
  "csv_run stats [] st = st"
| "csv_run stats (CheckEmpty i # evs) (file, needs_header) = csv_run stats evs (file, needs_header(i := (file = [])))"
| "csv_run stats (WriteRow i # evs) (file, needs_header) =
     csv_run stats evs (file @ (if needs_header i then [CsvHeader] else []) @ [CsvRow (stats ! i)], needs_header)"

definition interleaving :: "nat \<Rightarrow> csv_event list \<Rightarrow> bool" where
  "interleaving n evs \<longleftrightarrow> distinct evs \<and> set evs = CheckEmpty ` {..<n} \<union> WriteRow ` {..<n} \<and>
     (\<forall>i < n. \<exists>xs ys. evs = xs @ WriteRow i # ys \<and> CheckEmpty i \<in> set xs)"

text \<open>Reading the file back: the first line is the header, every other has to be a row.\<close>

definition read_csv :: "csv_line list \<Rightarrow> execution_stats list result" where
  "read_csv file = try_map (\<lambda>l. case l of CsvRow s \<Rightarrow> Inr s | CsvHeader \<Rightarrow> Inl (Err ''CSV deserialize error'')) (drop 1 file)"

section \<open>The estimator\<close>

record host_executor_args =
  ha_start :: "u64 option"
  ha_end :: "u64 option"
  ha_batch_size :: "u64 option"
  ha_default_range :: u64
  ha_rolling :: bool
  ha_cache :: bool
  ha_safe_db_fallback :: bool
  ha_log_only :: bool

definition DEFAULT_BATCH_SIZE :: u64 where
  "DEFAULT_BATCH_SIZE = 10"

definition parse_positive_batch_size :: "string \<Rightarrow> u64 result" where
  "parse_positive_batch_size s =
     try_bind (ok_or ''invalid digit found in string'' (parse_u64 s)) (\<lambda>value.
     if value = 0 then Inl (Err ''--batch-size must be greater than 0'') else Inr value)"

definition effective_batch_size :: "host_executor_args \<Rightarrow> u64" where
  "effective_batch_size args =
     (case ha_batch_size args of
        Some batch_size \<Rightarrow> batch_size
      | None \<Rightarrow> (case (ha_start args, ha_end args) of
          (Some start, Some end) \<Rightarrow> if end > start then end - start else DEFAULT_BATCH_SIZE
        | _ \<Rightarrow> DEFAULT_BATCH_SIZE))"

definition cost_estimator_l1_selection :: "bool \<Rightarrow> l1_selection result \<Rightarrow> l1_selection result" where
  "cost_estimator_l1_selection has_explicit_l1_head from_env = (if has_explicit_l1_head then Inr l1_selection_default else from_env)"

definition estimator_range :: "node \<Rightarrow> l1_selection \<Rightarrow> host_executor_args \<Rightarrow> (u64 \<times> u64) result" where
  "estimator_range nd sel args =
     (if ha_rolling args then get_rolling_block_range nd sel (ha_default_range args)
      else get_validated_block_range nd sel (ha_start args) (ha_end args) (ha_default_range args))"

definition estimator_split :: "node \<Rightarrow> l1_selection \<Rightarrow> bool \<Rightarrow> host_executor_args \<Rightarrow> u64 \<Rightarrow> u64 \<Rightarrow> (u64 \<times> u64) list result option" where
  "estimator_split nd sel no_safe_head_split args l2_start_block l2_end_block =
     (let basic = map_option Inr (split_range_basic l2_start_block l2_end_block (effective_batch_size args)) in
      if no_safe_head_split then basic
      else wbind (Some (is_safe_db_activated nd)) (\<lambda>activated.
        if activated then split_range_based_on_safe_heads nd sel l2_start_block l2_end_block (effective_batch_size args) else basic))"

fun wmap :: "('a \<Rightarrow> 'b result option) \<Rightarrow> 'a list \<Rightarrow> 'b list result option" where
  "wmap f [] = Some (Inr [])"
| "wmap f (x # xs) = wbind (f x) (\<lambda>y. wbind (wmap f xs) (\<lambda>ys. Some (Inr (y # ys))))"

definition execute_blocks_and_write_stats_csv ::
  "('args, 'wit, 'stdin) estimator_env \<Rightarrow> node \<Rightarrow> 'args list \<Rightarrow> (u64 \<times> u64) list \<Rightarrow> u64 \<Rightarrow> bool \<Rightarrow> csv_event list \<Rightarrow> csv_line list result" where
  "execute_blocks_and_write_stats_csv env nd host_args ranges l2_chain_id cache_enabled evs =
     try_bind (try_map (range_data nd) ranges) (\<lambda>block_data.
     try_bind (try_map (range_stdin env cache_enabled l2_chain_id) (zip host_args ranges)) (\<lambda>stdins.
     try_bind (try_map (execute_range env) (zip stdins block_data)) (\<lambda>stats.
     Inr (fst (csv_run stats evs ([], \<lambda>_. False))))))"

text \<open>\<open>main\<close>: what it prints at the end, or nothing when it only logs. The schedule of the threads depends on their number.\<close>

definition cost_estimator ::
  "('args, 'wit, 'stdin) estimator_env \<Rightarrow> node \<Rightarrow> l1_selection result \<Rightarrow> u64 result \<Rightarrow> bool \<Rightarrow> b256 option \<Rightarrow> host_executor_args \<Rightarrow>
   (nat \<Rightarrow> csv_event list) \<Rightarrow> execution_stats option result option" where
  "cost_estimator env nd from_env chain_id no_safe_head_split l1_head args schedule =
     wbind (Some (cost_estimator_l1_selection (l1_head \<noteq> None) from_env)) (\<lambda>sel.
     wbind (Some chain_id) (\<lambda>l2_chain_id.
     wbind (Some (validate_l1_selection nd sel)) (\<lambda>_.
     wbind (Some (estimator_range nd sel args)) (\<lambda>(l2_start_block, l2_end_block).
     wbind (estimator_split nd sel no_safe_head_split args l2_start_block l2_end_block) (\<lambda>split_ranges.
     wbind (wmap (\<lambda>(s, e). map_option unwrap (ee_fetch env s e l1_head (ha_safe_db_fallback args))) split_ranges) (\<lambda>host_args.
     wbind (Some (execute_blocks_and_write_stats_csv env nd host_args split_ranges l2_chain_id (ha_cache args) (schedule (length split_ranges)))) (\<lambda>file.
     Some (if ha_log_only args then Inr None
       else try_bind (read_csv file) (\<lambda>final_execution_stats.
         try_bind (ensure (sum_list (map es_nb_blocks final_execution_stats) = l2_end_block - l2_start_block) ''Executed another number of blocks'') (\<lambda>_.
         Inr (Some (aggregate_execution_stats final_execution_stats 0 0))))))))))))"

section \<open>The file after all threads\<close>

fun csv_rows :: "csv_line list \<Rightarrow> execution_stats list" where
  "csv_rows [] = []"
| "csv_rows (CsvRow s # ls) = s # csv_rows ls"
| "csv_rows (CsvHeader # ls) = csv_rows ls"

fun writes :: "csv_event list \<Rightarrow> nat list" where
  "writes [] = []"
| "writes (WriteRow i # evs) = i # writes evs"
| "writes (CheckEmpty i # evs) = writes evs"

lemma csv_rows_append [simp]: "csv_rows (xs @ ys) = csv_rows xs @ csv_rows ys"
  by (induction xs rule: csv_rows.induct) auto

lemma csv_run_rows: "csv_rows (fst (csv_run stats evs st)) = csv_rows (fst st) @ map ((!) stats) (writes evs)"
  by (induction stats evs st rule: csv_run.induct) auto

lemma set_writes: "set (writes evs) = {i. WriteRow i \<in> set evs}"
  by (induction evs rule: writes.induct) auto

lemma distinct_writes: "distinct evs \<Longrightarrow> distinct (writes evs)"
  by (induction evs rule: writes.induct) (auto simp: set_writes)

lemma interleaving_rows:
  assumes "interleaving (length stats) evs"
  shows "mset (csv_rows (fst (csv_run stats evs ([], nh)))) = mset stats"
proof -
  have "distinct (writes evs)" "set (writes evs) = {..<length stats}"
    using assms by (auto simp: interleaving_def set_writes intro: distinct_writes)
  then have "mset (writes evs) = mset [0..<length stats]" by (metis atLeast_upt distinct_upt set_eq_iff_mset_eq_distinct)
  then have "mset (map ((!) stats) (writes evs)) = mset (map ((!) stats) [0..<length stats])" by (simp add: mset_map)
  then show ?thesis by (simp add: csv_run_rows map_nth)
qed

text \<open>While the file is empty every thread that looked will write a header, so the first line is one.\<close>

lemma csv_run_first:
  assumes "fst st = [] \<Longrightarrow> \<forall>i. i \<in> checked \<longrightarrow> snd st i" "fst st \<noteq> [] \<Longrightarrow> hd (fst st) = CsvHeader"
    and "\<And>i xs ys. evs = xs @ WriteRow i # ys \<Longrightarrow> i \<in> checked \<or> CheckEmpty i \<in> set xs"
  shows "fst (csv_run stats evs st) = [] \<or> hd (fst (csv_run stats evs st)) = CsvHeader"
  using assms
proof (induction stats evs st arbitrary: checked rule: csv_run.induct)
  case (2 stats i evs lns nh)
  have "j \<in> insert i checked \<or> CheckEmpty j \<in> set xs" if "evs = xs @ WriteRow j # ys" for j xs ys
    using 2(4) [of "CheckEmpty i # xs" j ys] that by auto
  with 2(2,3) show ?case unfolding csv_run.simps by (intro 2(1) [of "insert i checked"]) auto
next
  case (3 stats i evs lns nh)
  have "i \<in> checked" using 3(4) [of "[]" i evs] by simp
  then have hd: "hd (lns @ (if nh i then [CsvHeader] else []) @ [CsvRow (stats ! i)]) = CsvHeader"
    using 3(2,3) by (cases "lns = []") auto
  have "j \<in> checked \<or> CheckEmpty j \<in> set xs" if "evs = xs @ WriteRow j # ys" for j xs ys
    using 3(4) [of "WriteRow i # xs" j ys] that by auto
  with hd show ?case unfolding csv_run.simps by (intro 3(1) [of checked]) auto
qed auto

lemma read_csv_rows:
  assumes "file = [] \<or> hd file = CsvHeader" "read_csv file = Inr rows"
  shows "rows = csv_rows file"
proof -
  have "try_map (\<lambda>l. case l of CsvRow s \<Rightarrow> Inr s | CsvHeader \<Rightarrow> Inl (Err ''CSV deserialize error'')) ls = Inr rows \<Longrightarrow> rows = csv_rows ls" for ls
    by (induction ls arbitrary: rows) (auto simp: try_bind_eq_Inr split: csv_line.splits)
  with assms show ?thesis by (cases "file") (auto simp: read_csv_def)
qed

lemma read_interleaved:
  assumes "interleaving (length stats) evs" "read_csv (fst (csv_run stats evs ([], nh))) = Inr rows"
  shows "mset rows = mset stats"
proof -
  have before: "CheckEmpty i \<in> set xs" if evs: "evs = xs @ WriteRow i # ys" for i xs ys
  proof -
    have "i < length stats" using assms(1) evs by (auto simp: interleaving_def)
    then obtain xs' ys' where "evs = xs' @ WriteRow i # ys'" "CheckEmpty i \<in> set xs'" using assms(1) unfolding interleaving_def by blast
    moreover have "WriteRow i \<notin> set xs" "WriteRow i \<notin> set ys" using assms(1) evs by (auto simp: interleaving_def)
    ultimately have "xs' = xs" using evs append_Cons_eq_iff [of "WriteRow i" xs ys xs' ys'] by simp
    with \<open>CheckEmpty i \<in> set xs'\<close> show ?thesis by simp
  qed
  have "fst (csv_run stats evs ([], nh)) = [] \<or> hd (fst (csv_run stats evs ([], nh))) = CsvHeader"
    by (rule csv_run_first [where checked = "{}"]) (auto dest: before)
  with assms interleaving_rows [OF assms(1)] show ?thesis using read_csv_rows by metis
qed

section \<open>Aggregation\<close>

lemma fold_aggregate:
  "es_nb_blocks (fst (fold aggregate_step xs acc)) = es_nb_blocks (fst acc) + sum_list (map es_nb_blocks xs)"
  "es_nb_transactions (fst (fold aggregate_step xs acc)) = es_nb_transactions (fst acc) + sum_list (map es_nb_transactions xs)"
  "es_eth_gas_used (fst (fold aggregate_step xs acc)) = es_eth_gas_used (fst acc) + sum_list (map es_eth_gas_used xs)"
  "es_total_instruction_count (fst (fold aggregate_step xs acc)) = es_total_instruction_count (fst acc) + sum_list (map es_total_instruction_count xs)"
  "fst (snd (fold aggregate_step xs acc)) = fold min (map es_batch_start xs) (fst (snd acc))"
  "snd (snd (fold aggregate_step xs acc)) = fold max (map es_batch_end xs) (snd (snd acc))"
  by (induction xs arbitrary: acc) (auto simp: aggregate_step_def min.commute max.commute split: prod.splits)

lemma aggregate_fields:
  "es_nb_blocks (aggregate_execution_stats xs t w) = sum_list (map es_nb_blocks xs)"
  "es_nb_transactions (aggregate_execution_stats xs t w) = sum_list (map es_nb_transactions xs)"
  "es_eth_gas_used (aggregate_execution_stats xs t w) = sum_list (map es_eth_gas_used xs)"
  "es_total_instruction_count (aggregate_execution_stats xs t w) = sum_list (map es_total_instruction_count xs)"
  "es_batch_start (aggregate_execution_stats xs t w) = fold min (map es_batch_start xs) (- 1)"
  "es_batch_end (aggregate_execution_stats xs t w) = fold max (map es_batch_end xs) 0"
  using fold_aggregate [of xs "(stats_default, - 1, 0)"]
  by (auto simp: aggregate_execution_stats_def stats_default_def split: prod.splits)

lemma fold_min_Min: "fold min xs b = Min (insert b (set xs))" and fold_max_Max: "fold max xs b = Max (insert b (set xs))"
  for b :: "'a::linorder"
  using Min.set_eq_fold [of b xs] Max.set_eq_fold [of b xs] by simp_all

lemma sum_list_mset_eq: "mset xs = mset ys \<Longrightarrow> sum_list (map f xs) = sum_list (map f ys)" for f :: "'a \<Rightarrow> 'b::comm_monoid_add"
  by (metis mset_map sum_mset_sum_list)

text \<open>The totals do not depend on the order in which the threads wrote their rows.\<close>

lemma aggregate_order:
  assumes "mset xs = mset ys"
  shows "es_nb_blocks (aggregate_execution_stats xs t w) = es_nb_blocks (aggregate_execution_stats ys t w)"
    "es_nb_transactions (aggregate_execution_stats xs t w) = es_nb_transactions (aggregate_execution_stats ys t w)"
    "es_eth_gas_used (aggregate_execution_stats xs t w) = es_eth_gas_used (aggregate_execution_stats ys t w)"
    "es_total_instruction_count (aggregate_execution_stats xs t w) = es_total_instruction_count (aggregate_execution_stats ys t w)"
    "es_batch_start (aggregate_execution_stats xs t w) = es_batch_start (aggregate_execution_stats ys t w)"
    "es_batch_end (aggregate_execution_stats xs t w) = es_batch_end (aggregate_execution_stats ys t w)"
  using assms mset_eq_setD [OF assms] by (simp_all add: aggregate_fields fold_min_Min fold_max_Max sum_list_mset_eq [OF assms])

section \<open>The blocks of a range\<close>

lemma collect_results_Inr: "collect_results rs = Inr xs \<Longrightarrow> rs = map Inr xs"
proof -
  assume "collect_results rs = Inr xs"
  then have "try_map (\<lambda>r. r) rs = Inr xs"
    by (auto simp: collect_results_def split: option.splits sum.splits)
  then show ?thesis by (simp add: try_map_eq_Inr list_all2_map2 list.rel_eq [symmetric] list_all2_conv_all_nth list_eq_iff_nth_eq)
qed

lemma u64_range_append:
  assumes "a < b" "b \<le> e"
  shows "u64_range (a + 1) e = u64_range (a + 1) b @ (if b < e then u64_range (b + 1) e else [])"
proof (cases "b < e")
  case False
  with assms show ?thesis by simp
next
  case True
  have "unat (b + 1) = Suc (unat b)" using True by (rule u64_succ)
  moreover have "unat (a + 1) \<le> Suc (unat b)" using u64_succ [OF assms(1)] assms(1) by (simp add: word_less_nat_alt)
  moreover have "Suc (unat b) \<le> Suc (unat e)" using assms(2) by (simp add: word_le_nat_alt)
  ultimately have "[unat (a + 1)..<Suc (unat e)] = [unat (a + 1)..<Suc (unat b)] @ [unat (b + 1)..<Suc (unat e)]"
    by (metis le_Suc_ex upt_add_eq_append)
  with True show ?thesis by (simp add: u64_range_def)
qed

lemma u64_range_simps:
  assumes "a < b"
  shows "u64_range (a + 1) b \<noteq> []" "hd (u64_range (a + 1) b) = a + 1" "last (u64_range (a + 1) b) = b"
    "length (u64_range (a + 1) b) = unat b - unat a" "sorted (u64_range (a + 1) b)"
proof -
  have a: "unat (a + 1) = Suc (unat a)" and lt: "unat a < unat b" using u64_succ [OF assms] assms by (simp_all add: word_less_nat_alt)
  show "u64_range (a + 1) b \<noteq> []" "last (u64_range (a + 1) b) = b" using a lt by (simp_all add: u64_range_def last_map)
  have "hd (u64_range (a + 1) b) = of_nat (unat (a + 1))" using a lt by (simp add: u64_range_def hd_map del: upt_Suc of_nat_Suc)
  then show "hd (u64_range (a + 1) b) = a + 1" by simp
  show "length (u64_range (a + 1) b) = unat b - unat a" using a lt by (simp add: u64_range_def)
  show "sorted (u64_range (a + 1) b)"
    unfolding u64_range_def sorted_map
    by (rule sorted_wrt_mono_rel [OF _ sorted_upt]) (use unat_u64_bound [of b] in \<open>auto simp: word_le_nat_alt unat_of_nat\<close>)
qed

lemma sort_key_sorted: "sorted (map f xs) \<Longrightarrow> sort_key f xs = xs"
  by (induction xs) (auto simp: insort_is_Cons)

text \<open>The data fetched for a range is that of its blocks in order.\<close>

lemma block_data_range:
  assumes "Fetcher.get_l2_block_data_range nd a b = Inr infos"
  shows "map (fetch_block_info nd) (u64_range (a + 1) b) = map Inr infos" "map bi_block_number infos = u64_range (a + 1) b"
proof -
  show eq: "map (fetch_block_info nd) (u64_range (a + 1) b) = map Inr infos"
    using assms collect_results_Inr unfolding Fetcher.get_l2_block_data_range_def by blast
  have "bi_block_number i = n" if "fetch_block_info nd n = Inr i" for n i
    using that by (auto simp: fetch_block_info_def try_bind_eq_Inr Let_def split: option.splits)
  then show "map bi_block_number infos = u64_range (a + 1) b"
    using eq by (auto simp: list_eq_iff_nth_eq)
qed

lemma block_data_concat:
  assumes "chained s e ranges" "ranges \<noteq> []" "list_all2 (\<lambda>(a, b) infos. Fetcher.get_l2_block_data_range nd a b = Inr infos) ranges data"
  shows "Fetcher.get_l2_block_data_range nd s e = Inr (concat data)"
proof -
  have "s < e \<longrightarrow> map (fetch_block_info nd) (u64_range (s + 1) e) = map Inr (concat data)" if "chained s e ranges" for s
    using that assms(3)
  proof (induction ranges arbitrary: s data)
    case (Cons r ranges)
    obtain b where r: "r = (s, b)" "s < b" "chained b e ranges" using Cons.prems(1) by (cases r) auto
    obtain infos data' where d: "data = infos # data'" "Fetcher.get_l2_block_data_range nd s b = Inr infos"
      "list_all2 (\<lambda>(a, b) infos. Fetcher.get_l2_block_data_range nd a b = Inr infos) ranges data'"
      using Cons.prems(2) r(1) by (auto simp: list_all2_Cons1)
    have "b \<le> e" using r(3) by (rule chained_le)
    have rest: "map (fetch_block_info nd) (if b < e then u64_range (b + 1) e else []) = map Inr (concat data')"
    proof (cases "b < e")
      case True
      then show ?thesis using Cons.IH [OF r(3) d(3)] by simp
    next
      case False
      then have "ranges = []" using chained_less [OF r(3)] by auto
      with d(3) False show ?thesis by simp
    qed
    have "map (fetch_block_info nd) (u64_range (s + 1) e) = map (fetch_block_info nd) (u64_range (s + 1) b) @ map (fetch_block_info nd) (if b < e then u64_range (b + 1) e else [])"
      unfolding u64_range_append [OF r(2) \<open>b \<le> e\<close>] by simp
    then show ?case using rest block_data_range(1) [OF d(2)] d(1) by simp
  qed simp
  with assms(1,2) have "map (fetch_block_info nd) (u64_range (s + 1) e) = map Inr (concat data)" using chained_less by blast
  then show ?thesis unfolding Fetcher.get_l2_block_data_range_def using collect_all [of "concat data" Inr id] by simp
qed

text \<open>The statistics of an executed range.\<close>

lemma range_stats:
  assumes "Fetcher.get_l2_block_data_range nd a b = Inr infos" "a < b"
  shows "es_nb_blocks (execution_stats_new l infos rep w t) = b - a"
    "es_nb_transactions (execution_stats_new l infos rep w t) = sum_list (map bi_transaction_count infos)"
    "es_eth_gas_used (execution_stats_new l infos rep w t) = sum_list (map bi_gas_used infos)"
    "es_total_instruction_count (execution_stats_new l infos rep w t) = rep_total_instruction_count rep"
    "es_batch_start (execution_stats_new l infos rep w t) = a"
    "es_batch_end (execution_stats_new l infos rep w t) = b"
proof -
  note r = u64_range_simps [OF assms(2)] and n = block_data_range(2) [OF assms(1)]
  have ne: "infos \<noteq> []" using n r(1) by auto
  have len: "length infos = unat b - unat a" using n r(4) by (metis length_map)
  have sorted: "sort_key bi_block_number infos = infos" using n r(5) by (intro sort_key_sorted) simp
  have "bi_block_number (hd infos) = a + 1" "bi_block_number (last infos) = b"
    using ne n r(2,3) by (metis hd_map, metis last_map)
  moreover have "of_nat (length infos) = b - a"
    using assms(2) by (simp add: len word_unat_eq_iff unat_of_nat unat_sub word_less_nat_alt word_le_nat_alt)
  ultimately show "es_nb_blocks (execution_stats_new l infos rep w t) = b - a"
    "es_nb_transactions (execution_stats_new l infos rep w t) = sum_list (map bi_transaction_count infos)"
    "es_eth_gas_used (execution_stats_new l infos rep w t) = sum_list (map bi_gas_used infos)"
    "es_total_instruction_count (execution_stats_new l infos rep w t) = rep_total_instruction_count rep"
    "es_batch_start (execution_stats_new l infos rep w t) = a"
    "es_batch_end (execution_stats_new l infos rep w t) = b"
    using ne sorted by (simp_all add: execution_stats_new_def Let_def)
qed

section \<open>What an estimate covers\<close>

text \<open>Every splitter cuts a beginning of the range; the count of the executed blocks tells whether it is all of it.\<close>

lemma split_at_safe_heads_prefix:
  assumes "0 < m" "unat l2_end + unat m < 2 ^ 64" "s \<le> l2_end" "split_at_safe_heads l2_end m s hs = Some rs"
  shows "\<exists>e \<le> l2_end. chained s e rs"
  using assms(3,4)
proof (induction hs arbitrary: s rs)
  case (Cons h hs)
  show ?case
  proof (cases "h > s \<and> s < l2_end")
    case False
    with Cons show ?thesis by auto
  next
    case True
    let ?t = "min l2_end h"
    have "s < ?t" "unat ?t + unat m < 2 ^ 64" using True assms(2) by (auto simp: min_def word_le_nat_alt)
    then obtain ps where ps: "safe_head_pieces m ?t s = Some ps" "chained s ?t ps" using safe_head_pieces_chained assms(1) by blast
    then obtain rs' where rs': "split_at_safe_heads l2_end m h hs = Some rs'" "rs = ps @ rs'" using Cons.prems(2) True by (auto split: bind_splits)
    show ?thesis
    proof (cases "h \<le> l2_end")
      case True
      then obtain e where "e \<le> l2_end" "chained h e rs'" using Cons.IH rs'(1) by blast
      moreover have "chained s h ps" using ps(2) True by (simp add: min_absorb2)
      ultimately show ?thesis using chained_append rs'(2) by blast
    next
      case False
      then have "rs' = []" "?t = l2_end" using rs'(1) split_at_safe_heads_done [of l2_end h m hs] by auto
      with ps(2) rs'(2) show ?thesis by auto
    qed
  qed
qed auto

lemma estimator_split_prefix:
  assumes "estimator_split nd sel basic args s e = Some (Inr rs)" "s \<le> e" "0 < effective_batch_size args"
    "unat e + unat (effective_batch_size args) < 2 ^ 64"
  shows "\<exists>m \<le> e. chained s m rs"
proof -
  consider "split_range_basic s e (effective_batch_size args) = Some rs"
    | hs where "split_at_safe_heads e (effective_batch_size args) s hs = Some rs"
    using assms(1)
    by (auto simp: estimator_split_def Let_def wbind_def split_range_based_on_safe_heads_def split: if_splits option.splits sum.splits prod.splits)
  then show ?thesis
  proof cases
    case 1
    then show ?thesis using split_range_basic_chained [OF assms(3,4,2)] by auto
  next
    case 2
    then show ?thesis using split_at_safe_heads_prefix [OF assms(3,4,2)] by blast
  qed
qed

lemma estimator_range_le: "estimator_range nd sel args = Inr (s, e) \<Longrightarrow> s \<le> e"
  by (auto simp: estimator_range_def get_rolling_block_range_def get_validated_block_range_def try_bind_eq_Inr ok_or_eq_Inr checked_sub_def Let_def
           simp del: max.bounded_iff split: if_splits option.splits intro: word_sub_le)

lemma effective_batch_size_pos: "ha_batch_size args \<noteq> Some 0 \<Longrightarrow> 0 < effective_batch_size args"
  by (auto simp: effective_batch_size_def DEFAULT_BATCH_SIZE_def word_gt_0 split: option.splits)

text \<open>A range whose execution was validated, with its row.\<close>

definition range_verified :: "('args, 'wit, 'stdin) estimator_env \<Rightarrow> node \<Rightarrow> u64 \<times> u64 \<Rightarrow> execution_stats \<Rightarrow> bool" where
  "range_verified env nd rng st \<longleftrightarrow>
     (\<exists>stdin public_values report boot infos.
        Fetcher.get_l2_block_data_range nd (fst rng) (snd rng) = Inr infos \<and> ee_execute env stdin = Inr (public_values, report) \<and>
        rep_exit_code report = 0 \<and> ee_decode_boot env public_values = Some boot \<and> bis_l2BlockNumber boot = snd rng \<and>
        get_l2_output_root nd (fst rng) = Inr (bis_l2PreRoot boot) \<and> get_l2_output_root nd (snd rng) = Inr (bis_l2PostRoot boot) \<and>
        st = execution_stats_new 0 infos report 0 0)"

lemma in_context_Inr [simp]: "in_context m r = Inr x \<longleftrightarrow> r = Inr x"
  by (auto simp: in_context_def split: sum.splits err.splits)

lemma execute_range_verified:
  "range_data nd rng = Inr d \<Longrightarrow> execute_range env (stdin, d) = Inr st \<Longrightarrow> range_verified env nd rng st"
  by (fastforce simp: range_data_def execute_range_def validate_range_execution_def range_verified_def try_bind_eq_Inr ok_or_eq_Inr ensure_eq_Inr)

lemma wmap_length: "wmap f xs = Some (Inr ys) \<Longrightarrow> length ys = length xs"
  by (induction xs arbitrary: ys) (auto simp: wbind_def split: option.splits sum.splits)

lemma execute_blocks_verified:
  assumes "execute_blocks_and_write_stats_csv env nd host_args ranges chain cache evs = Inr lns" "length host_args = length ranges"
  shows "\<exists>stats. list_all2 (range_verified env nd) ranges stats \<and> lns = fst (csv_run stats evs ([], \<lambda>_. False))"
proof -
  from assms(1) obtain data stdins stats where d: "try_map (range_data nd) ranges = Inr data"
    "try_map (range_stdin env cache chain) (zip host_args ranges) = Inr stdins" "try_map (execute_range env) (zip stdins data) = Inr stats"
    "lns = fst (csv_run stats evs ([], \<lambda>_. False))"
    by (auto simp: execute_blocks_and_write_stats_csv_def try_bind_eq_Inr)
  have len: "length data = length ranges" "length stdins = length ranges" "length stats = length ranges"
    using try_map_length [OF d(1)] try_map_length [OF d(2)] try_map_length [OF d(3)] assms(2) by auto
  have "range_verified env nd (ranges ! i) (stats ! i)" if "i < length ranges" for i
  proof (rule execute_range_verified)
    show "range_data nd (ranges ! i) = Inr (data ! i)" using d(1) that by (simp add: try_map_eq_Inr list_all2_conv_all_nth)
    show "execute_range env (stdins ! i, data ! i) = Inr (stats ! i)" using d(3) that len by (simp add: try_map_eq_Inr list_all2_conv_all_nth)
  qed
  then show ?thesis using d(4) len by (intro exI [of _ stats]) (simp add: list_all2_conv_all_nth)
qed

lemma verified_totals:
  assumes "list_all2 (range_verified env nd) ranges stats" "chained s m ranges"
  shows "sum_list (map es_nb_blocks stats) = m - s \<and> map es_batch_start stats = map fst ranges \<and> map es_batch_end stats = map snd ranges \<and>
    (\<exists>data. list_all2 (\<lambda>(a, b) infos. Fetcher.get_l2_block_data_range nd a b = Inr infos) ranges data \<and>
      sum_list (map es_nb_transactions stats) = sum_list (map bi_transaction_count (concat data)) \<and>
      sum_list (map es_eth_gas_used stats) = sum_list (map bi_gas_used (concat data)))"
  using assms
proof (induction ranges stats arbitrary: s rule: list_all2_induct)
  case (Cons rng ranges st stats)
  obtain b where r: "rng = (s, b)" "s < b" "chained b m ranges" using Cons.prems by (cases rng) auto
  from Cons.IH [OF r(3)] obtain data where IH: "sum_list (map es_nb_blocks stats) = m - b" "map es_batch_start stats = map fst ranges"
    "map es_batch_end stats = map snd ranges" "list_all2 (\<lambda>(a, b) infos. Fetcher.get_l2_block_data_range nd a b = Inr infos) ranges data"
    "sum_list (map es_nb_transactions stats) = sum_list (map bi_transaction_count (concat data))"
    "sum_list (map es_eth_gas_used stats) = sum_list (map bi_gas_used (concat data))" by blast
  from Cons.hyps(1) r(1) obtain infos report where i: "Fetcher.get_l2_block_data_range nd s b = Inr infos" "st = execution_stats_new 0 infos report 0 0"
    unfolding range_verified_def by auto
  note st = range_stats [OF i(1) r(2), of 0 report 0 0, folded i(2)]
  have "list_all2 (\<lambda>(a, b) infos. Fetcher.get_l2_block_data_range nd a b = Inr infos) (rng # ranges) (infos # data)"
    using IH(4) i(1) r(1) by simp
  then show ?case using IH st r(1) by (intro conjI exI [of _ "infos # data"]) simp_all
qed simp

lemma chained_end_in: "chained s m rs \<Longrightarrow> rs \<noteq> [] \<Longrightarrow> m \<in> snd ` set rs"
  by (induction s m rs rule: chained.induct) (auto split: if_splits, metis chained.simps(1) imageI neq_Nil_conv)

lemma chained_Min_Max:
  fixes s m :: u64
  assumes "chained s m rs" "rs \<noteq> []"
  shows "Min (insert (- 1) (fst ` set rs)) = s" "Max (insert 0 (snd ` set rs)) = m"
proof -
  have "s \<in> fst ` set rs" using assms by (cases rs) auto
  moreover have "s \<le> a" "b \<le> m" if "(a, b) \<in> set rs" for a b using chained_bounds [OF assms(1) that] by auto
  ultimately show "Min (insert (- 1) (fst ` set rs)) = s" "Max (insert 0 (snd ` set rs)) = m"
    using chained_end_in [OF assms] by (auto intro!: Min_eqI Max_eqI)
qed

section \<open>Properties\<close>

text \<open>C38: An estimate covers exactly the requested blocks. When the estimator prints an aggregate, whatever the interleaving of the
  threads that write the report and whatever the cache of inputs holds: the pieces it executed follow on each other from the start
  to the end of the selected range; each execution ended without a failure of the program and committed the block and the output
  roots of the node; and for a range that is not empty the aggregate has the number of blocks, the transactions and the gas that the
  node reports for the whole range, and the bounds of the range.\<close>

theorem cost_estimate_exact:
  assumes run: "cost_estimator env nd from_env chain_id basic l1_head args schedule = Some (Inr (Some agg))"
    and "\<And>n. interleaving n (schedule n)" "ha_batch_size args \<noteq> Some 0"
    and "\<forall>sel s e. estimator_range nd sel args = Inr (s, e) \<longrightarrow> unat e + unat (effective_batch_size args) < 2 ^ 64"
  shows "\<exists>sel s e ranges stats. estimator_range nd sel args = Inr (s, e) \<and> chained s e ranges \<and> list_all2 (range_verified env nd) ranges stats \<and>
    (s < e \<longrightarrow> es_batch_start agg = s \<and> es_batch_end agg = e \<and> es_nb_blocks agg = e - s \<and>
      (\<exists>infos. Fetcher.get_l2_block_data_range nd s e = Inr infos \<and> es_nb_transactions agg = sum_list (map bi_transaction_count infos) \<and>
        es_eth_gas_used agg = sum_list (map bi_gas_used infos)))"
proof -
  from run obtain sel chain s e ranges hargs lns rows where r: "estimator_range nd sel args = Inr (s, e)"
    "estimator_split nd sel basic args s e = Some (Inr ranges)"
    "wmap (\<lambda>(s, e). map_option unwrap (ee_fetch env s e l1_head (ha_safe_db_fallback args))) ranges = Some (Inr hargs)"
    "execute_blocks_and_write_stats_csv env nd hargs ranges chain (ha_cache args) (schedule (length ranges)) = Inr lns"
    "read_csv lns = Inr rows" "sum_list (map es_nb_blocks rows) = e - s" "agg = aggregate_execution_stats rows 0 0"
    by (auto simp: cost_estimator_def wbind_def try_bind_eq_Inr ensure_eq_Inr split: option.splits sum.splits prod.splits if_splits)
  obtain m where m: "chained s m ranges"
    using estimator_split_prefix [OF r(2) estimator_range_le [OF r(1)] effective_batch_size_pos [OF assms(3)] assms(4) [rule_format, OF r(1)]] by blast
  obtain stats where stats: "list_all2 (range_verified env nd) ranges stats" "lns = fst (csv_run stats (schedule (length ranges)) ([], \<lambda>_. False))"
    using execute_blocks_verified [OF r(4) wmap_length [OF r(3)]] by blast
  have "length stats = length ranges" using stats(1) list_all2_lengthD by metis
  then have rows: "mset rows = mset stats" using read_interleaved assms(2) r(5) stats(2) by metis
  note totals = verified_totals [OF stats(1) m]
  have "m - s = e - s" using totals r(6) sum_list_mset_eq [OF rows, of es_nb_blocks] by simp
  then have chain: "chained s e ranges" using m by simp
  have "es_batch_start agg = s \<and> es_batch_end agg = e \<and> es_nb_blocks agg = e - s \<and>
      (\<exists>infos. Fetcher.get_l2_block_data_range nd s e = Inr infos \<and> es_nb_transactions agg = sum_list (map bi_transaction_count infos) \<and>
        es_eth_gas_used agg = sum_list (map bi_gas_used infos))" if "s < e"
  proof -
    have ne: "ranges \<noteq> []" using chain that by auto
    obtain data where "list_all2 (\<lambda>(a, b) infos. Fetcher.get_l2_block_data_range nd a b = Inr infos) ranges data"
      "sum_list (map es_nb_transactions stats) = sum_list (map bi_transaction_count (concat data))"
      "sum_list (map es_eth_gas_used stats) = sum_list (map bi_gas_used (concat data))" using totals by blast
    moreover from this(1) have "Fetcher.get_l2_block_data_range nd s e = Inr (concat data)" using block_data_concat [OF chain ne] by blast
    moreover have "set (map es_batch_start rows) = fst ` set ranges" "set (map es_batch_end rows) = snd ` set ranges"
      using totals mset_eq_setD [OF rows] by (metis set_map)+
    then have "es_batch_start agg = s" "es_batch_end agg = e"
      unfolding r(7) aggregate_fields fold_min_Min fold_max_Max using chained_Min_Max [OF chain ne] by simp_all
    ultimately show ?thesis unfolding r(7) using r(6) aggregate_order [OF rows, of 0 0] aggregate_fields by auto
  qed
  with r(1) chain stats(1) show ?thesis by blast
qed

text \<open>Two threads can both write the header. There is an interleaving of two threads whose executions succeeded after which
  the report cannot be read back, so that the estimator fails; when the threads do not overlap, it can always be read.\<close>

theorem csv_header_race:
  "interleaving 2 [CheckEmpty 0, CheckEmpty 1, WriteRow 0, WriteRow 1] \<and>
   read_csv (fst (csv_run [a, b] [CheckEmpty 0, CheckEmpty 1, WriteRow 0, WriteRow 1] ([], \<lambda>_. False))) = Inl (Err ''CSV deserialize error'') \<and>
   read_csv (fst (csv_run stats (concat (map (\<lambda>i. [CheckEmpty i, WriteRow i]) [0..<length stats])) ([], \<lambda>_. False))) = Inr stats"
proof (intro conjI)
  let ?evs = "[CheckEmpty 0, CheckEmpty 1, WriteRow 0, WriteRow 1]"
  have "\<exists>xs ys. ?evs = xs @ WriteRow i # ys \<and> CheckEmpty i \<in> set xs" if "i < 2" for i
  proof (cases "i = 0")
    case True
    then show ?thesis by (intro exI [of _ "take 2 ?evs"] exI [of _ "drop 3 ?evs"]) simp
  next
    case False
    with that have "i = 1" by simp
    then show ?thesis by (intro exI [of _ "take 3 ?evs"] exI [of _ "[]"]) simp
  qed
  then show "interleaving 2 ?evs" by (auto simp: interleaving_def lessThan_nat_numeral lessThan_Suc numeral_2_eq_2)
  show "read_csv (fst (csv_run [a, b] ?evs ([], \<lambda>_. False))) = Inl (Err ''CSV deserialize error'')" by (simp add: read_csv_def)
  have row: "fst (csv_run stats (concat (map (\<lambda>i. [CheckEmpty i, WriteRow i]) xs)) (lns, nh)) = lns @ map (\<lambda>i. CsvRow (stats ! i)) xs"
    if "lns \<noteq> []" for xs lns nh
    using that by (induction xs arbitrary: lns nh) auto
  have all: "try_map (\<lambda>l. case l of CsvRow s \<Rightarrow> Inr s | CsvHeader \<Rightarrow> Inl (Err ''CSV deserialize error'')) (map (\<lambda>i. CsvRow (stats ! i)) xs) =
    Inr (map ((!) stats) xs)" for xs
    by (induction xs) auto
  show "read_csv (fst (csv_run stats (concat (map (\<lambda>i. [CheckEmpty i, WriteRow i]) [0..<length stats])) ([], \<lambda>_. False))) = Inr stats"
  proof (cases stats)
    case Nil
    then show ?thesis by (simp add: read_csv_def)
  next
    case (Cons s rest)
    then have "[0..<length stats] = 0 # [1..<length stats]" by (subst upt_conv_Cons) (simp_all del: upt_Suc)
    moreover from this have "stats ! 0 # map ((!) stats) [1..<length stats] = stats" using map_nth [of stats] by simp
    ultimately show ?thesis using all [of "[0..<length stats]"] by (simp add: read_csv_def row)
  qed
qed

section \<open>Witnesses\<close>

lemma interleaving_sequential: "interleaving n (concat (map (\<lambda>i. [CheckEmpty i, WriteRow i]) [0..<n]))"
proof (induction n)
  case (Suc n)
  define E where "E = concat (map (\<lambda>i. [CheckEmpty i, WriteRow i]) [0..<n])"
  have Suc_eq: "concat (map (\<lambda>i. [CheckEmpty i, WriteRow i]) [0..<Suc n]) = E @ [CheckEmpty n, WriteRow n]" by (simp add: E_def)
  have evs: "distinct E" "set E = CheckEmpty ` {..<n} \<union> WriteRow ` {..<n}" using Suc unfolding interleaving_def E_def by blast+
  have "\<exists>xs ys. E @ [CheckEmpty n, WriteRow n] = xs @ WriteRow i # ys \<and> CheckEmpty i \<in> set xs" if "i < Suc n" for i
  proof (cases "i = n")
    case True
    then show ?thesis by (intro exI [of _ "E @ [CheckEmpty n]"] exI [of _ "[]"]) simp
  next
    case False
    with that have "i < n" by simp
    then obtain xs ys where "E = xs @ WriteRow i # ys" "CheckEmpty i \<in> set xs" using Suc unfolding interleaving_def E_def [symmetric] by (elim conjE) (drule spec [of _ i], blast)
    then show ?thesis by (intro exI [of _ xs] exI [of _ "ys @ [CheckEmpty n, WriteRow n]"]) simp
  qed
  moreover have "set (E @ [CheckEmpty n, WriteRow n]) = CheckEmpty ` {..<Suc n} \<union> WriteRow ` {..<Suc n}" "distinct (E @ [CheckEmpty n, WriteRow n])"
    using evs by (auto simp: lessThan_Suc)
  ultimately show ?case unfolding Suc_eq interleaving_def by blast
qed (simp add: interleaving_def)

definition sample_estimator_env :: "(u64 \<times> u64, u64 \<times> u64, u64 \<times> u64) estimator_env" where
  "sample_estimator_env =
     \<lparr> ee_fetch = (\<lambda>s e _ _. Some (Inr (s, e))), ee_run = Inr, ee_get_sp1_stdin = Inr, ee_load_stdin_from_cache = (\<lambda>_ _ _. Inr None),
       ee_execute = (\<lambda>(s, e). Inr ([ucast s, ucast e], \<lparr> rep_exit_code = 0, rep_total_instruction_count = 100, rep_gas = None, rep_cycle_tracker = (\<lambda>_. None) \<rparr>)),
       ee_decode_boot = (\<lambda>bs. case bs of [s, e] \<Rightarrow> Some (sample_boot 1 (ucast s + 1) (ucast e + 1) (ucast e)) | _ \<Rightarrow> None) \<rparr>"

definition sample_executor_args :: host_executor_args where
  "sample_executor_args =
     \<lparr> ha_start = Some 20, ha_end = Some 35, ha_batch_size = Some 6, ha_default_range = 5, ha_rolling = False, ha_cache = False,
       ha_safe_db_fallback = False, ha_log_only = False \<rparr>"

theorem cost_estimate_exact_witness:
  "\<exists>agg. cost_estimator sample_estimator_env fe_node (Inr l1_selection_default) (Inr 42220) True (Some 9) sample_executor_args
     (\<lambda>n. concat (map (\<lambda>i. [CheckEmpty i, WriteRow i]) [0..<n])) = Some (Inr (Some agg)) \<and>
     es_nb_blocks agg = 15 \<and> es_nb_transactions agg = 15 \<and> es_batch_start agg = 20 \<and> es_total_instruction_count agg = 300 \<and>
     (\<exists>ranges stats. chained 20 35 ranges \<and> list_all2 (range_verified sample_estimator_env fe_node) ranges stats)"
proof -
  let ?run = "cost_estimator sample_estimator_env fe_node (Inr l1_selection_default) (Inr 42220) True (Some 9) sample_executor_args
     (\<lambda>n. concat (map (\<lambda>i. [CheckEmpty i, WriteRow i]) [0..<n]))"
  let ?agg = "the (projr (the ?run))"
  have run: "?run = Some (Inr (Some ?agg))" by code_simp
  have fields: "es_nb_blocks ?agg = 15" "es_nb_transactions ?agg = 15" "es_batch_start ?agg = 20" "es_total_instruction_count ?agg = 300" by code_simp+
  have args: "ha_batch_size sample_executor_args \<noteq> Some 0" by code_simp
  have range: "s = 20 \<and> e = 35" if "estimator_range fe_node sel sample_executor_args = Inr (s, e)" for sel s e
    using that by (auto simp: estimator_range_def sample_executor_args_def get_validated_block_range_def try_bind_eq_Inr split: if_splits)
  have "unat (35 :: u64) + unat (effective_batch_size sample_executor_args) < 2 ^ 64" by (simp add: effective_batch_size_def sample_executor_args_def)
  with range have bounded: "\<forall>sel s e. estimator_range fe_node sel sample_executor_args = Inr (s, e) \<longrightarrow> unat e + unat (effective_batch_size sample_executor_args) < 2 ^ 64"
    by blast
  obtain sel s e ranges stats where "estimator_range fe_node sel sample_executor_args = Inr (s, e)" "chained s e ranges"
    "list_all2 (range_verified sample_estimator_env fe_node) ranges stats"
    using cost_estimate_exact [OF run interleaving_sequential args bounded] by blast
  with range have "\<exists>ranges stats. chained 20 35 ranges \<and> list_all2 (range_verified sample_estimator_env fe_node) ranges stats" by blast
  then show ?thesis by (intro exI [of _ ?agg] conjI run fields)
qed

end
