(* ===== verification/Config.thy ===== *)
theory Config
  imports Proving Signer
begin

text \<open>
  Configuration from the environment: \<open>ProposerConfig\<close>, \<open>ProofProviderConfig\<close>, \<open>ChallengerConfig\<close> and \<open>OPStackGameValidatorConfig\<close> of
  \<open>fault-proof/src/config.rs\<close>, \<open>EnvironmentConfig\<close> of \<open>validity/src/env.rs\<close>, and what turns a configuration into a connection to the prover
  network: \<open>utils/host/src/network.rs\<close> and the choice of the proof provider in \<open>OPSuccinctProposer::new\<close>.

  The fields of a struct expression are evaluated in the order in which they are written, which decides the error of a
  configuration with several mistakes. \<open>?\<close> is an error, \<open>expect\<close> a panic. URLs, addresses, floating point numbers and socket addresses are
  parsed by other crates and the standard library, which are arguments (\<open>signer_env\<close> for the first two).
\<close>

section \<open>Values of variables\<close>

text \<open>\<open>env::var\<close> with \<open>?\<close>, with \<open>unwrap_or\<close>, and \<open>expect\<close> on an optional value.\<close>

definition var :: "env_vars \<Rightarrow> string \<Rightarrow> string result" where
  "var vars key = ok_or ''environment variable not found'' (vars key)"

definition var_or :: "env_vars \<Rightarrow> string \<Rightarrow> string \<Rightarrow> string" where
  "var_or vars key fallback = (case vars key of None \<Rightarrow> fallback | Some v \<Rightarrow> v)"

definition expecting :: "string \<Rightarrow> 'a option \<Rightarrow> 'a result" where
  "expecting m x = (case x of None \<Rightarrow> Inl (Panic m) | Some v \<Rightarrow> Inr v)"

definition ok :: "'a result \<Rightarrow> 'a option" where
  "ok r = (case r of Inl _ \<Rightarrow> None | Inr x \<Rightarrow> Some x)"

text \<open>\<open>str::parse\<close> at \<open>bool\<close>, at an unsigned type of any width, and at \<open>NonZeroUsize\<close>. A failure has the one message here.\<close>

definition parse_bool :: "string \<Rightarrow> bool option" where
  "parse_bool s = (if s = ''true'' then Some True else if s = ''false'' then Some False else None)"

definition parse_uint :: "string \<Rightarrow> 'a::len word option" where
  "parse_uint s =
     (let ds = (case s of c # cs \<Rightarrow> if c = CHR ''+'' then cs else s | [] \<Rightarrow> []) in
      if ds = [] then None else
      case parse_digits 0 ds of None \<Rightarrow> None | Some n \<Rightarrow> if n < 2 ^ LENGTH('a) then Some (of_nat n) else None)"

definition parse_nonzero :: "string \<Rightarrow> u64 option" where
  "parse_nonzero s = Option.bind (parse_u64 s) (\<lambda>n. if n = 0 then None else Some n)"

definition parsed :: "'a option \<Rightarrow> 'a result" where
  "parsed x = ok_or ''invalid value'' x"

text \<open>\<open>FromStr for RangeSplitCount\<close>.\<close>

definition range_split_count_from_str :: "string \<Rightarrow> range_split_count result" where
  "range_split_count_from_str s = try_bind (parsed (parse_u64 s)) range_split_count_try_from"

text \<open>\<open>split(',')\<close>, and \<open>trim_start_matches("0x")\<close>, which removes the prefix as often as it occurs.\<close>

fun split_comma :: "string \<Rightarrow> string list" where
  "split_comma [] = [Nil]"
| "split_comma (c # cs) =
     (if c = CHR '','' then [] # split_comma cs
      else case split_comma cs of p # ps \<Rightarrow> (c # p) # ps | [] \<Rightarrow> [c # Nil])"

fun trim_start_0x :: "string \<Rightarrow> string" where
  "trim_start_0x (a # b # s) = (if a = CHR ''0'' \<and> b = CHR ''x'' then trim_start_0x s else a # b # s)"
| "trim_start_0x s = s"

definition parse_whitelist :: "(string \<Rightarrow> address result) \<Rightarrow> string \<Rightarrow> address list option result" where
  "parse_whitelist from_str whitelist_str =
     (if whitelist_str = [] then Inr None
      else try_bind (try_map (\<lambda>addr_str. with_context ''Failed to parse address''
             (from_str (''0x'' @ trim_start_0x (trim addr_str)))) (split_comma whitelist_str)) (\<lambda>addrs.
        Inr (if addrs = [] then None else Some addrs)))"

text \<open>Strategies and proof modes. The comparisons ignore case; the words they compare with are ASCII.\<close>

definition parse_fulfillment_strategy :: "string \<Rightarrow> fulfillment_strategy result" where
  "parse_fulfillment_strategy value =
     (let v = to_ascii_lowercase value in
      if v = ''reserved'' then Inr Reserved
      else if v = ''hosted'' then Inr Hosted
      else if v = ''auction'' then Inr Auction
      else Inl (Err ''Invalid fulfillment strategy''))"

definition agg_proof_mode_of :: "string \<Rightarrow> sp1_proof_mode" where
  "agg_proof_mode_of value = (if to_ascii_lowercase value = ''groth16'' then ModeGroth16 else ModePlonk)"

definition parse_agg_proof_mode :: "string \<Rightarrow> bool \<Rightarrow> sp1_proof_mode result" where
  "parse_agg_proof_mode value allow_compressed =
     (let v = to_ascii_lowercase value in
      if v = ''plonk'' then Inr ModePlonk
      else if v = ''groth16'' then Inr ModeGroth16
      else if v = ''compressed'' then
        (if allow_compressed then Inr ModeCompressed
         else Inl (Err ''AGG_PROOF_MODE=compressed requires a build with the agglayer feature''))
      else Inl (Err ''Invalid AGG_PROOF_MODE''))"

section \<open>The fault-proof services\<close>

definition proof_provider_config_from_env :: "('key, 'hsm) signer_env \<Rightarrow> env_vars \<Rightarrow> proof_provider_config result" where
  "proof_provider_config_from_env env vars =
     try_bind (parsed (parse_u64 (var_or vars ''TIMEOUT'' ''14400''))) (\<lambda>timeout.
     try_bind (parsed (parse_u64 (var_or vars ''NETWORK_CALLS_TIMEOUT'' ''15''))) (\<lambda>network_calls_timeout.
     try_bind (parsed (parse_u64 (var_or vars ''AUCTION_TIMEOUT'' ''60''))) (\<lambda>auction_timeout.
     try_bind (parse_fulfillment_strategy (var_or vars ''RANGE_PROOF_STRATEGY'' ''reserved'')) (\<lambda>range_proof_strategy.
     try_bind (parse_fulfillment_strategy (var_or vars ''AGG_PROOF_STRATEGY'' ''reserved'')) (\<lambda>agg_proof_strategy.
     try_bind (parsed (parse_u64 (var_or vars ''RANGE_CYCLE_LIMIT'' ''1000000000000''))) (\<lambda>range_cycle_limit.
     try_bind (parsed (parse_u64 (var_or vars ''RANGE_GAS_LIMIT'' ''1000000000000''))) (\<lambda>range_gas_limit.
     try_bind (parsed (parse_u64 (var_or vars ''AGG_CYCLE_LIMIT'' ''1000000000000''))) (\<lambda>agg_cycle_limit.
     try_bind (parsed (parse_u64 (var_or vars ''AGG_GAS_LIMIT'' ''1000000000000''))) (\<lambda>agg_gas_limit.
     try_bind (parsed (parse_u64 (var_or vars ''MAX_PRICE_PER_PGU'' ''300000000''))) (\<lambda>max_price_per_pgu.
     try_bind (parsed (parse_u64 (var_or vars ''MIN_AUCTION_PERIOD'' ''1''))) (\<lambda>min_auction_period.
     try_bind (parse_whitelist (address_from_str env) (var_or vars ''WHITELIST'' [])) (\<lambda>whitelist.
     try_bind (parsed (parse_bool (var_or vars ''PRIVATE_STDIN'' ''false''))) (\<lambda>private_stdin.
     Inr \<lparr> pc_timeout = timeout, pc_network_calls_timeout = network_calls_timeout, pc_auction_timeout = auction_timeout,
         pc_range_proof_strategy = range_proof_strategy, pc_agg_proof_strategy = agg_proof_strategy,
         pc_agg_proof_mode = agg_proof_mode_of (var_or vars ''AGG_PROOF_MODE'' ''plonk''),
         pc_range_cycle_limit = range_cycle_limit, pc_range_gas_limit = range_gas_limit,
         pc_agg_cycle_limit = agg_cycle_limit, pc_agg_gas_limit = agg_gas_limit, pc_max_price_per_pgu = max_price_per_pgu,
         pc_min_auction_period = min_auction_period, pc_whitelist = whitelist, pc_private_stdin = private_stdin \<rparr>)))))))))))))"

text \<open>A required value: a missing variable is an error, a value that does not parse a panic.\<close>

definition env_url :: "('key, 'hsm) signer_env \<Rightarrow> env_vars \<Rightarrow> string \<Rightarrow> string result" where
  "env_url env vars key = try_bind (var vars key) (\<lambda>s. expecting (key @ '' not set'') (ok (url_parse env s)))"

definition env_address :: "('key, 'hsm) signer_env \<Rightarrow> env_vars \<Rightarrow> string \<Rightarrow> address result" where
  "env_address env vars key = try_bind (var vars key) (\<lambda>s. expecting (key @ '' not set'') (ok (address_from_str env s)))"

record proposer_settings =
  pf_l1_rpc :: string
  pf_l2_rpc :: string
  pf_anchor_state_registry_address :: address
  pf_factory_address :: address
  pf_mock_mode :: bool
  pf_fast_finality_mode :: bool
  pf_proposal_interval_in_blocks :: u64
  pf_fetch_interval :: u64
  pf_game_type :: u32
  pf_max_concurrent_defense_tasks :: u64
  pf_safe_db_fallback :: bool
  pf_metrics_port :: "16 word"
  pf_fast_finality_proving_limit :: u64
  pf_use_kms_requester :: bool
  pf_range_split_count :: range_split_count
  pf_max_concurrent_range_proofs :: u64
  pf_proof_provider :: proof_provider_config
  pf_backup_path :: "string option"
  pf_sync_l1_confirmations :: u64
  pf_tx_confirmation_timeout :: u64

definition proposer_config_from_env :: "('key, 'hsm) signer_env \<Rightarrow> env_vars \<Rightarrow> proposer_settings result" where
  "proposer_config_from_env env vars =
     try_bind (env_url env vars ''L1_RPC'') (\<lambda>l1_rpc.
     try_bind (env_url env vars ''L2_RPC'') (\<lambda>l2_rpc.
     try_bind (env_address env vars ''ANCHOR_STATE_REGISTRY_ADDRESS'') (\<lambda>anchor_state_registry_address.
     try_bind (env_address env vars ''FACTORY_ADDRESS'') (\<lambda>factory_address.
     try_bind (parsed (parse_bool (var_or vars ''MOCK_MODE'' ''false''))) (\<lambda>mock_mode.
     try_bind (parsed (parse_bool (var_or vars ''FAST_FINALITY_MODE'' ''false''))) (\<lambda>fast_finality_mode.
     try_bind (parsed (parse_u64 (var_or vars ''PROPOSAL_INTERVAL_IN_BLOCKS'' ''1800''))) (\<lambda>proposal_interval_in_blocks.
     try_bind (parsed (parse_u64 (var_or vars ''FETCH_INTERVAL'' ''30''))) (\<lambda>fetch_interval.
     try_bind (try_bind (expecting ''GAME_TYPE not set'' (vars ''GAME_TYPE'')) (\<lambda>s. parsed (parse_uint s))) (\<lambda>game_type.
     try_bind (parsed (parse_u64 (var_or vars ''MAX_CONCURRENT_DEFENSE_TASKS'' ''8''))) (\<lambda>max_concurrent_defense_tasks.
     try_bind (parsed (parse_bool (var_or vars ''SAFE_DB_FALLBACK'' ''false''))) (\<lambda>safe_db_fallback.
     try_bind (parsed (parse_uint (var_or vars ''PROPOSER_METRICS_PORT'' ''9000''))) (\<lambda>metrics_port.
     try_bind (parsed (parse_u64 (var_or vars ''FAST_FINALITY_PROVING_LIMIT'' ''1''))) (\<lambda>fast_finality_proving_limit.
     try_bind (parsed (parse_bool (var_or vars ''USE_KMS_REQUESTER'' ''false''))) (\<lambda>use_kms_requester.
     try_bind (range_split_count_from_str (var_or vars ''RANGE_SPLIT_COUNT'' ''1'')) (\<lambda>range_split_count.
     try_bind (parsed (parse_nonzero (var_or vars ''MAX_CONCURRENT_RANGE_PROOFS'' ''1''))) (\<lambda>max_concurrent_range_proofs.
     try_bind (proof_provider_config_from_env env vars) (\<lambda>proof_provider.
     try_bind (parsed (parse_u64 (var_or vars ''SYNC_L1_CONFIRMATIONS'' ''0''))) (\<lambda>sync_l1_confirmations.
     try_bind (parsed (parse_u64 (var_or vars ''TX_CONFIRMATION_TIMEOUT'' ''60''))) (\<lambda>tx_confirmation_timeout.
     Inr \<lparr> pf_l1_rpc = l1_rpc, pf_l2_rpc = l2_rpc, pf_anchor_state_registry_address = anchor_state_registry_address,
         pf_factory_address = factory_address, pf_mock_mode = mock_mode, pf_fast_finality_mode = fast_finality_mode,
         pf_proposal_interval_in_blocks = proposal_interval_in_blocks, pf_fetch_interval = fetch_interval,
         pf_game_type = game_type, pf_max_concurrent_defense_tasks = max_concurrent_defense_tasks,
         pf_safe_db_fallback = safe_db_fallback, pf_metrics_port = metrics_port,
         pf_fast_finality_proving_limit = fast_finality_proving_limit, pf_use_kms_requester = use_kms_requester,
         pf_range_split_count = range_split_count, pf_max_concurrent_range_proofs = max_concurrent_range_proofs,
         pf_proof_provider = proof_provider, pf_backup_path = vars ''BACKUP_PATH'',
         pf_sync_l1_confirmations = sync_l1_confirmations, pf_tx_confirmation_timeout = tx_confirmation_timeout \<rparr>)))))))))))))))))))"

record 'f challenger_settings =
  chf_l1_rpc :: string
  chf_anchor_state_registry_address :: address
  chf_factory_address :: address
  chf_game_type :: u32
  chf_fetch_interval :: u64
  chf_metrics_port :: "16 word"
  chf_malicious_challenge_percentage :: 'f
  chf_sync_l1_confirmations :: u64
  chf_tx_confirmation_timeout :: u64
  chf_disable_monitor_only :: bool

definition challenger_config_from_env ::
  "('key, 'hsm) signer_env \<Rightarrow> (string \<Rightarrow> 'f option) \<Rightarrow> env_vars \<Rightarrow> 'f challenger_settings result" where
  "challenger_config_from_env env parse_f64 vars =
     try_bind (env_url env vars ''L1_RPC'') (\<lambda>l1_rpc.
     try_bind (env_address env vars ''ANCHOR_STATE_REGISTRY_ADDRESS'') (\<lambda>anchor_state_registry_address.
     try_bind (env_address env vars ''FACTORY_ADDRESS'') (\<lambda>factory_address.
     try_bind (try_bind (expecting ''GAME_TYPE not set'' (vars ''GAME_TYPE'')) (\<lambda>s. parsed (parse_uint s))) (\<lambda>game_type.
     try_bind (parsed (parse_u64 (var_or vars ''FETCH_INTERVAL'' ''30''))) (\<lambda>fetch_interval.
     try_bind (parsed (parse_uint (var_or vars ''CHALLENGER_METRICS_PORT'' ''9001''))) (\<lambda>metrics_port.
     try_bind (parsed (parse_f64 (var_or vars ''MALICIOUS_CHALLENGE_PERCENTAGE'' ''0.0''))) (\<lambda>malicious_challenge_percentage.
     try_bind (parsed (parse_u64 (var_or vars ''SYNC_L1_CONFIRMATIONS'' ''0''))) (\<lambda>sync_l1_confirmations.
     try_bind (parsed (parse_u64 (var_or vars ''TX_CONFIRMATION_TIMEOUT'' ''60''))) (\<lambda>tx_confirmation_timeout.
     try_bind (parsed (parse_bool (var_or vars ''DISABLE_MONITOR_ONLY'' ''false''))) (\<lambda>disable_monitor_only.
     Inr \<lparr> chf_l1_rpc = l1_rpc, chf_anchor_state_registry_address = anchor_state_registry_address,
         chf_factory_address = factory_address, chf_game_type = game_type, chf_fetch_interval = fetch_interval,
         chf_metrics_port = metrics_port, chf_malicious_challenge_percentage = malicious_challenge_percentage,
         chf_sync_l1_confirmations = sync_l1_confirmations, chf_tx_confirmation_timeout = tx_confirmation_timeout,
         chf_disable_monitor_only = disable_monitor_only \<rparr>))))))))))"

record op_stack_game_validator_settings =
  ov_l2_rpc :: string
  ov_l2_node_rpc :: string

definition op_stack_game_validator_config_from_env :: "('key, 'hsm) signer_env \<Rightarrow> env_vars \<Rightarrow> op_stack_game_validator_settings result" where
  "op_stack_game_validator_config_from_env env vars =
     try_bind (env_url env vars ''L2_RPC'') (\<lambda>l2_rpc.
     try_bind (env_url env vars ''L2_NODE_RPC'') (\<lambda>l2_node_rpc.
     Inr \<lparr> ov_l2_rpc = l2_rpc, ov_l2_node_rpc = l2_node_rpc \<rparr>))"

section \<open>The validity service\<close>

definition get_env_var :: "(string \<Rightarrow> 'a option) \<Rightarrow> env_vars \<Rightarrow> string \<Rightarrow> 'a option \<Rightarrow> 'a result" where
  "get_env_var parse vars key fallback =
     (case vars key of
        Some value \<Rightarrow> ok_or (''Failed to parse '' @ key) (parse value)
      | None \<Rightarrow> ok_or (key @ '' is not set'') fallback)"

definition DEFAULT_LOOP_INTERVAL :: u64 where
  "DEFAULT_LOOP_INTERVAL = 60"

definition parse_grpc_addr :: "(string \<Rightarrow> string option) \<Rightarrow> string option \<Rightarrow> string result" where
  "parse_grpc_addr socket_addr value =
     try_bind (ok_or ''GRPC_ADDRESS is required in builds with the agglayer feature'' value) (\<lambda>v.
     ok_or ''Failed to parse GRPC_ADDRESS'' (socket_addr v))"

text \<open>The field \<open>grpc_addr\<close> exists in builds with the feature \<open>agglayer\<close> only.\<close>

record ('key, 'hsm, 'n, 'receipt) environment_config =
  evc_db_url :: string
  evc_metrics_port :: "16 word"
  evc_l1_rpc :: string
  evc_signer :: "('key, 'hsm, 'n, 'receipt) signer_lock"
  evc_loop_interval :: u64
  evc_range_proof_strategy :: fulfillment_strategy
  evc_agg_proof_strategy :: fulfillment_strategy
  evc_agg_proof_mode :: sp1_proof_mode
  evc_l2oo_address :: address
  evc_dgf_address :: address
  evc_evm_gas_limit :: u64
  evc_range_proof_interval :: u64
  evc_max_concurrent_witness_gen :: u64
  evc_max_concurrent_proof_requests :: u64
  evc_submission_interval :: u64
  evc_mock :: bool
  evc_safe_db_fallback :: bool
  evc_op_succinct_config_name :: string
  evc_grpc_addr :: "string option"
  evc_use_kms_requester :: bool
  evc_max_price_per_pgu :: u64
  evc_proving_timeout :: u64
  evc_network_calls_timeout :: u64
  evc_range_cycle_limit :: u64
  evc_range_gas_limit :: u64
  evc_agg_cycle_limit :: u64
  evc_agg_gas_limit :: u64
  evc_whitelist :: "address list option"
  evc_private_stdin :: bool
  evc_min_auction_period :: u64
  evc_auction_timeout :: u64
  evc_tx_confirmation_timeout :: u64

definition read_proposer_env ::
  "('key, 'hsm) signer_env \<Rightarrow> (string \<Rightarrow> string option) \<Rightarrow> bool \<Rightarrow> 'n \<Rightarrow> env_vars \<Rightarrow> ('key, 'hsm, 'n, 'receipt) environment_config result" where
  "read_proposer_env env socket_addr agglayer n vars =
     try_bind (signer_lock_from_env env vars n) (\<lambda>signer.
     try_bind (try_bind (get_env_var Some vars ''RANGE_PROOF_STRATEGY'' (Some ''reserved'')) parse_fulfillment_strategy) (\<lambda>range_proof_strategy.
     try_bind (try_bind (get_env_var Some vars ''AGG_PROOF_STRATEGY'' (Some ''reserved'')) parse_fulfillment_strategy) (\<lambda>agg_proof_strategy.
     try_bind (try_bind (get_env_var Some vars ''AGG_PROOF_MODE'' (Some ''plonk'')) (\<lambda>v. parse_agg_proof_mode v agglayer)) (\<lambda>agg_proof_mode.
     try_bind (get_env_var parse_u64 vars ''LOOP_INTERVAL'' (Some DEFAULT_LOOP_INTERVAL)) (\<lambda>loop_interval.
     try_bind (get_env_var parse_uint vars ''METRICS_PORT'' (Some 8080)) (\<lambda>metrics_port.
     try_bind (get_env_var (\<lambda>s. ok (url_parse env s)) vars ''L1_RPC'' None) (\<lambda>l1_rpc.
     try_bind (get_env_var Some vars ''DATABASE_URL'' None) (\<lambda>db_url.
     try_bind (get_env_var (\<lambda>s. ok (address_from_str env s)) vars ''L2OO_ADDRESS'' (Some 0)) (\<lambda>l2oo_address.
     try_bind (get_env_var (\<lambda>s. ok (address_from_str env s)) vars ''DGF_ADDRESS'' (Some 0)) (\<lambda>dgf_address.
     try_bind (get_env_var parse_u64 vars ''RANGE_PROOF_EVM_GAS_LIMIT'' (Some 0)) (\<lambda>evm_gas_limit.
     try_bind (get_env_var parse_u64 vars ''RANGE_PROOF_INTERVAL'' (Some 1800)) (\<lambda>range_proof_interval.
     try_bind (get_env_var parse_u64 vars ''MAX_CONCURRENT_WITNESS_GEN'' (Some 1)) (\<lambda>max_concurrent_witness_gen.
     try_bind (get_env_var parse_u64 vars ''MAX_CONCURRENT_PROOF_REQUESTS'' (Some 1)) (\<lambda>max_concurrent_proof_requests.
     try_bind (get_env_var parse_u64 vars ''SUBMISSION_INTERVAL'' (Some 1800)) (\<lambda>submission_interval.
     try_bind (get_env_var parse_bool vars ''OP_SUCCINCT_MOCK'' (Some False)) (\<lambda>mock.
     try_bind (get_env_var parse_bool vars ''SAFE_DB_FALLBACK'' (Some False)) (\<lambda>safe_db_fallback.
     try_bind (get_env_var Some vars ''OP_SUCCINCT_CONFIG_NAME'' (Some ''opsuccinct_genesis'')) (\<lambda>op_succinct_config_name.
     try_bind (if agglayer then try_bind (parse_grpc_addr socket_addr (vars ''GRPC_ADDRESS'')) (\<lambda>a. Inr (Some a)) else Inr None) (\<lambda>grpc_addr.
     try_bind (get_env_var parse_bool vars ''USE_KMS_REQUESTER'' (Some False)) (\<lambda>use_kms_requester.
     try_bind (get_env_var parse_u64 vars ''MAX_PRICE_PER_PGU'' (Some 300000000)) (\<lambda>max_price_per_pgu.
     try_bind (get_env_var parse_u64 vars ''PROVING_TIMEOUT'' (Some 14400)) (\<lambda>proving_timeout.
     try_bind (get_env_var parse_u64 vars ''NETWORK_CALLS_TIMEOUT'' (Some 15)) (\<lambda>network_calls_timeout.
     try_bind (get_env_var parse_u64 vars ''RANGE_CYCLE_LIMIT'' (Some 1000000000000)) (\<lambda>range_cycle_limit.
     try_bind (get_env_var parse_u64 vars ''RANGE_GAS_LIMIT'' (Some 1000000000000)) (\<lambda>range_gas_limit.
     try_bind (get_env_var parse_u64 vars ''AGG_CYCLE_LIMIT'' (Some 1000000000000)) (\<lambda>agg_cycle_limit.
     try_bind (get_env_var parse_u64 vars ''AGG_GAS_LIMIT'' (Some 1000000000000)) (\<lambda>agg_gas_limit.
     try_bind (try_bind (get_env_var Some vars ''WHITELIST'' (Some [])) (parse_whitelist (address_from_str env))) (\<lambda>whitelist.
     try_bind (get_env_var parse_bool vars ''PRIVATE_STDIN'' (Some False)) (\<lambda>private_stdin.
     try_bind (get_env_var parse_u64 vars ''MIN_AUCTION_PERIOD'' (Some 1)) (\<lambda>min_auction_period.
     try_bind (get_env_var parse_u64 vars ''AUCTION_TIMEOUT'' (Some 60)) (\<lambda>auction_timeout.
     try_bind (get_env_var parse_u64 vars ''TX_CONFIRMATION_TIMEOUT'' (Some 60)) (\<lambda>tx_confirmation_timeout.
     Inr \<lparr> evc_db_url = db_url, evc_metrics_port = metrics_port, evc_l1_rpc = l1_rpc, evc_signer = signer,
         evc_loop_interval = loop_interval, evc_range_proof_strategy = range_proof_strategy,
         evc_agg_proof_strategy = agg_proof_strategy, evc_agg_proof_mode = agg_proof_mode,
         evc_l2oo_address = l2oo_address, evc_dgf_address = dgf_address, evc_evm_gas_limit = evm_gas_limit,
         evc_range_proof_interval = range_proof_interval, evc_max_concurrent_witness_gen = max_concurrent_witness_gen,
         evc_max_concurrent_proof_requests = max_concurrent_proof_requests, evc_submission_interval = submission_interval,
         evc_mock = mock, evc_safe_db_fallback = safe_db_fallback, evc_op_succinct_config_name = op_succinct_config_name,
         evc_grpc_addr = grpc_addr, evc_use_kms_requester = use_kms_requester, evc_max_price_per_pgu = max_price_per_pgu,
         evc_proving_timeout = proving_timeout, evc_network_calls_timeout = network_calls_timeout,
         evc_range_cycle_limit = range_cycle_limit, evc_range_gas_limit = range_gas_limit,
         evc_agg_cycle_limit = agg_cycle_limit, evc_agg_gas_limit = agg_gas_limit, evc_whitelist = whitelist,
         evc_private_stdin = private_stdin, evc_min_auction_period = min_auction_period,
         evc_auction_timeout = auction_timeout, evc_tx_confirmation_timeout = tx_confirmation_timeout \<rparr>))))))))))))))))))))))))))))))))"

section \<open>The prover network and the proof provider\<close>

datatype network_mode = MainnetMode | ReservedMode

definition determine_network_mode :: "fulfillment_strategy \<Rightarrow> fulfillment_strategy \<Rightarrow> network_mode result" where
  "determine_network_mode range_proof_strategy agg_proof_strategy =
     (if range_proof_strategy = Auction \<and> agg_proof_strategy = Auction then Inr MainnetMode
      else if range_proof_strategy \<in> {Hosted, Reserved} \<and> agg_proof_strategy \<in> {Hosted, Reserved} then Inr ReservedMode
      else if range_proof_strategy = UnspecifiedFulfillmentStrategy \<or> agg_proof_strategy = UnspecifiedFulfillmentStrategy
      then Inl (Err ''The range and agg fulfillment Strategies must be specified'')
      else Inl (Err ''The range fulfillment Strategy and agg fulfillment Strategy are incompatible''))"

text \<open>The SDK's signers and its client, the files of the client identity, and the keys of the two programs. A timeout of the
  preflight call is \<open>TimedOut\<close>.\<close>

record ('sg, 'np) network_env =
  ne_aws_kms :: "string \<Rightarrow> 'sg result"
  ne_local :: "string \<Rightarrow> 'sg result"
  ne_read :: "string \<Rightarrow> u8 list result"
  ne_build :: "network_mode \<Rightarrow> 'sg \<Rightarrow> (u8 list \<times> u8 list) option \<Rightarrow> 'np"
  ne_get_balance :: "'np \<Rightarrow> duration \<Rightarrow> unit timed"
  ne_setup :: "'np \<Rightarrow> program_elf \<Rightarrow> u32 list result"
  ne_cluster_setup_keys :: "proof_keys result"

definition default_network_private_key :: string where
  "default_network_private_key = ''0x'' @ replicate 63 (CHR ''0'') @ ''1''"

definition get_network_signer :: "('sg, 'np) network_env \<Rightarrow> env_vars \<Rightarrow> bool \<Rightarrow> 'sg result" where
  "get_network_signer ne vars use_kms_requester =
     (if use_kms_requester
      then try_bind (ok_or ''NETWORK_PRIVATE_KEY must be set when USE_KMS_REQUESTER is true'' (vars ''NETWORK_PRIVATE_KEY'')) (ne_aws_kms ne)
      else ne_local ne (var_or vars ''NETWORK_PRIVATE_KEY'' default_network_private_key))"

definition load_network_client_identity_from_paths ::
  "('sg, 'np) network_env \<Rightarrow> string option \<Rightarrow> string option \<Rightarrow> (u8 list \<times> u8 list) option result" where
  "load_network_client_identity_from_paths ne certificate_path private_key_path =
     (case (certificate_path, private_key_path) of
        (None, None) \<Rightarrow> Inr None
      | (Some c, Some k) \<Rightarrow>
          if c = [] then Inl (Err ''NETWORK_MTLS_CERT_PATH must not be empty'')
          else if k = [] then Inl (Err ''NETWORK_MTLS_KEY_PATH must not be empty'')
          else try_bind (with_context ''Failed to read NETWORK_MTLS_CERT_PATH file'' (ne_read ne c)) (\<lambda>certificate.
            try_bind (with_context ''Failed to read NETWORK_MTLS_KEY_PATH file'' (ne_read ne k)) (\<lambda>private_key.
            Inr (Some (certificate, private_key))))
      | _ \<Rightarrow> Inl (Err ''NETWORK_MTLS_CERT_PATH and NETWORK_MTLS_KEY_PATH must be set together''))"

definition load_network_client_identity :: "('sg, 'np) network_env \<Rightarrow> env_vars \<Rightarrow> (u8 list \<times> u8 list) option result" where
  "load_network_client_identity ne vars =
     load_network_client_identity_from_paths ne (vars ''NETWORK_MTLS_CERT_PATH'') (vars ''NETWORK_MTLS_KEY_PATH'')"

definition NETWORK_MTLS_PREFLIGHT_TIMEOUT :: duration where
  "NETWORK_MTLS_PREFLIGHT_TIMEOUT = secs 20"

definition build_network_prover :: "('sg, 'np) network_env \<Rightarrow> env_vars \<Rightarrow> network_mode \<Rightarrow> 'sg \<Rightarrow> 'np result" where
  "build_network_prover ne vars mode network_signer =
     try_bind (load_network_client_identity ne vars) (\<lambda>client_identity.
     let prover = ne_build ne mode network_signer client_identity in
     if client_identity = None then Inr prover
     else case ne_get_balance ne prover NETWORK_MTLS_PREFLIGHT_TIMEOUT of
         TimedOut \<Rightarrow> Inl (Err ''Network mTLS preflight timed out after 20 seconds'')
       | Answered (Inl _) \<Rightarrow> Inl (Err ''Network mTLS preflight failed'')
       | Answered (Inr _) \<Rightarrow> Inr prover)"

definition build_network_prover_from_env :: "('sg, 'np) network_env \<Rightarrow> env_vars \<Rightarrow> fulfillment_strategy \<Rightarrow> 'np result" where
  "build_network_prover_from_env ne vars strategy =
     try_bind (ok_or ''USE_KMS_REQUESTER must be true or false'' (parse_bool (var_or vars ''USE_KMS_REQUESTER'' ''false''))) (\<lambda>use_kms_requester.
     try_bind (get_network_signer ne vars use_kms_requester) (\<lambda>network_signer.
     try_bind (case strategy of
         Auction \<Rightarrow> Inr MainnetMode
       | Hosted \<Rightarrow> Inr ReservedMode
       | Reserved \<Rightarrow> Inr ReservedMode
       | _ \<Rightarrow> Inl (Err ''Fulfillment strategy must be reserved, hosted, or auction'')) (\<lambda>mode.
     build_network_prover ne vars mode network_signer)))"

definition is_cluster_mode :: "env_vars \<Rightarrow> bool" where
  "is_cluster_mode vars = (var_or vars ''SP1_PROVER'' [] = ''cluster'')"

text \<open>The proof provider a new proposer gets: exclusive modes, the network prover with the keys it sets up, and the choice.\<close>

definition proposer_prover ::
  "('sg, 'np) network_env \<Rightarrow> env_vars \<Rightarrow> proposer_settings \<Rightarrow> proof_provider result" where
  "proposer_prover ne vars config =
     (let is_cluster = is_cluster_mode vars; pc = pf_proof_provider config in
      try_bind (ensure (\<not> (is_cluster \<and> pf_mock_mode config)) ''mock and cluster modes are mutually exclusive'') (\<lambda>_.
      try_bind (ensure (\<not> pc_private_stdin pc \<or> \<not> pf_mock_mode config \<and> \<not> is_cluster) ''PRIVATE_STDIN only applies to SP1 network proof requests'') (\<lambda>_.
      try_bind (if is_cluster then try_bind (ne_cluster_setup_keys ne) (\<lambda>keys. Inr (keys, None))
        else
          try_bind (get_network_signer ne vars (pf_use_kms_requester config)) (\<lambda>network_signer.
          try_bind (determine_network_mode (pc_range_proof_strategy pc) (pc_agg_proof_strategy pc)) (\<lambda>nm.
          try_bind (build_network_prover ne vars nm network_signer) (\<lambda>np.
          try_bind (ne_setup ne np RANGE_ELF) (\<lambda>range_vk.
          try_bind (ne_setup ne np AGGREGATION_ELF) (\<lambda>agg_vk.
          Inr (\<lparr> pk_range_vk = range_vk, pk_agg_vk = agg_vk \<rparr>, Some nm))))))) (\<lambda>(keys, network_mode).
      if is_cluster then Inr (ClusterProvider keys pc)
      else if pf_mock_mode config then Inr (MockProvider keys pc)
      else try_bind (ok_or ''network_mode must be set in network mode'' network_mode) (\<lambda>nm.
        Inr (NetworkProvider keys pc (nm = MainnetMode)))))))"

section \<open>Well-formed configurations\<close>

definition provider_config_ok :: "proof_provider_config \<Rightarrow> bool" where
  "provider_config_ok c \<longleftrightarrow>
     pc_range_proof_strategy c \<noteq> UnspecifiedFulfillmentStrategy \<and> pc_agg_proof_strategy c \<noteq> UnspecifiedFulfillmentStrategy \<and>
     pc_agg_proof_mode c \<in> {ModePlonk, ModeGroth16} \<and> pc_whitelist c \<noteq> Some []"

definition settings_ok :: "proposer_settings \<Rightarrow> bool" where
  "settings_ok c \<longleftrightarrow>
     1 \<le> rsc_count (pf_range_split_count c) \<and> rsc_count (pf_range_split_count c) \<le> 16 \<and> pf_max_concurrent_range_proofs c \<noteq> 0 \<and>
     provider_config_ok (pf_proof_provider c)"

lemma try_bind_InrE:
  assumes "try_bind r f = Inr y"
  obtains x where "r = Inr x" "f x = Inr y"
  using assms by (auto simp: try_bind_eq_Inr)

lemma parsed_Inr [simp]: "parsed x = Inr y \<longleftrightarrow> x = Some y"
  by (simp add: parsed_def ok_or_def split: option.splits)

lemma parse_fulfillment_strategy_specified: "parse_fulfillment_strategy s = Inr x \<Longrightarrow> x \<noteq> UnspecifiedFulfillmentStrategy"
  by (auto simp: parse_fulfillment_strategy_def Let_def split: if_splits)

lemma agg_proof_mode_of_cases: "agg_proof_mode_of s = ModeGroth16 \<or> agg_proof_mode_of s = ModePlonk"
  by (simp add: agg_proof_mode_of_def)

lemma parse_whitelist_nonempty: "parse_whitelist p s = Inr x \<Longrightarrow> x \<noteq> Some []"
  by (auto simp: parse_whitelist_def elim!: try_bind_InrE split: if_splits)

lemma parse_nonzero_pos: "parse_nonzero s = Some n \<Longrightarrow> n \<noteq> 0"
  by (auto simp: parse_nonzero_def bind_eq_Some_conv split: if_splits)

lemma range_split_count_from_str_bounds:
  "range_split_count_from_str s = Inr c \<Longrightarrow> 1 \<le> rsc_count c \<and> rsc_count c \<le> 16"
  by (auto simp: range_split_count_from_str_def range_split_count_try_from_def range_split_count_new_def RangeSplitCount_MAX_def
    word_le_nat_alt word_less_nat_alt unat_eq_0 Suc_le_eq unat_gt_0 elim!: try_bind_InrE split: if_splits)

lemma proof_provider_config_from_env_ok: "proof_provider_config_from_env env vars = Inr c \<Longrightarrow> provider_config_ok c"
  unfolding proof_provider_config_from_env_def provider_config_ok_def
  by (elim try_bind_InrE) (auto dest: parse_fulfillment_strategy_specified parse_whitelist_nonempty simp: agg_proof_mode_of_def)

lemma proposer_config_from_env_ok: "proposer_config_from_env env vars = Inr c \<Longrightarrow> settings_ok c"
  unfolding proposer_config_from_env_def settings_ok_def
  by (elim try_bind_InrE) (auto dest!: range_split_count_from_str_bounds proof_provider_config_from_env_ok parse_nonzero_pos)

lemma parse_agg_proof_mode_build: "parse_agg_proof_mode s agglayer = Inr m \<Longrightarrow> m \<noteq> ModeCore \<and> (m = ModeCompressed \<longrightarrow> agglayer)"
  by (auto simp: parse_agg_proof_mode_def Let_def split: if_splits)

lemma read_proposer_env_ok:
  assumes "read_proposer_env env socket_addr agglayer n vars = Inr c"
  shows "evc_range_proof_strategy c \<noteq> UnspecifiedFulfillmentStrategy \<and> evc_agg_proof_strategy c \<noteq> UnspecifiedFulfillmentStrategy \<and>
    evc_agg_proof_mode c \<noteq> ModeCore \<and> (evc_agg_proof_mode c = ModeCompressed \<longrightarrow> agglayer) \<and> (evc_grpc_addr c \<noteq> None \<longleftrightarrow> agglayer) \<and>
    evc_whitelist c \<noteq> Some [] \<and> sl_cached_address (evc_signer c) = signer_address env (sl_inner (evc_signer c))"
  using assms unfolding read_proposer_env_def signer_lock_from_env_def
  by (elim try_bind_InrE)
     (auto dest!: parse_fulfillment_strategy_specified parse_whitelist_nonempty parse_agg_proof_mode_build
        simp: signer_lock_new_def elim!: try_bind_InrE split: if_splits)

section \<open>The proof provider of a configured proposer\<close>

lemma ensure_Inr: "ensure b m = Inr u \<longleftrightarrow> b"
  by (cases u) (simp add: ensure_def)

lemma determine_network_mode_Inr:
  "determine_network_mode r a = Inr m \<Longrightarrow> (m = MainnetMode \<longleftrightarrow> r = Auction \<and> a = Auction) \<and> (r = Auction \<longleftrightarrow> a = Auction)"
  by (auto simp: determine_network_mode_def split: if_splits)

definition provider_fits :: "proof_provider_config \<Rightarrow> bool \<Rightarrow> bool \<Rightarrow> proof_provider \<Rightarrow> bool" where
  "provider_fits pc mock cluster prover \<longleftrightarrow> provider_config prover = pc \<and>
     (case prover of
        NetworkProvider _ _ is_mainnet \<Rightarrow> \<not> mock \<and> \<not> cluster \<and>
          (if is_mainnet then pc_range_proof_strategy pc = Auction \<and> pc_agg_proof_strategy pc = Auction
           else pc_range_proof_strategy pc \<in> {Hosted, Reserved} \<and> pc_agg_proof_strategy pc \<in> {Hosted, Reserved})
      | MockProvider _ _ \<Rightarrow> mock \<and> \<not> cluster \<and> \<not> pc_private_stdin pc
      | ClusterProvider _ _ \<Rightarrow> cluster \<and> \<not> mock \<and> \<not> pc_private_stdin pc)"

lemma proposer_prover_fits:
  assumes "proposer_prover ne vars c = Inr prover"
  shows "provider_fits (pf_proof_provider c) (pf_mock_mode c) (is_cluster_mode vars) prover"
  using assms unfolding proposer_prover_def Let_def
  by (elim try_bind_InrE, cases "is_cluster_mode vars")
     (auto simp: ensure_Inr provider_fits_def ok_or_def determine_network_mode_def elim!: try_bind_InrE split: if_splits)

section \<open>Rendering a configuration\<close>

text \<open>The documented notation of each kind of value: decimal numbers, \<open>true\<close> and \<open>false\<close>, lower case names, addresses with \<open>0x\<close> and 40 digits,
  a list of addresses with commas.\<close>

definition show_bool :: "bool \<Rightarrow> string" where
  "show_bool b = (if b then ''true'' else ''false'')"

definition show_word :: "'a::len word \<Rightarrow> string" where
  "show_word w = show_nat (unat w)"

fun strategy_name :: "fulfillment_strategy \<Rightarrow> string" where
  "strategy_name Hosted = ''hosted''"
| "strategy_name Reserved = ''reserved''"
| "strategy_name Auction = ''auction''"
| "strategy_name UnspecifiedFulfillmentStrategy = ''unspecified''"

fun mode_name :: "sp1_proof_mode \<Rightarrow> string" where
  "mode_name ModeGroth16 = ''groth16''"
| "mode_name ModePlonk = ''plonk''"
| "mode_name ModeCompressed = ''compressed''"
| "mode_name ModeCore = ''core''"

fun hex_fixed :: "nat \<Rightarrow> nat \<Rightarrow> string" where
  "hex_fixed 0 n = []"
| "hex_fixed (Suc k) n = hex_fixed k (n div 16) @ [hex_digit n]"

definition address_display :: "address \<Rightarrow> string" where
  "address_display a = ''0x'' @ hex_fixed 40 (unat a)"

fun join_comma :: "string list \<Rightarrow> string" where
  "join_comma [] = []"
| "join_comma [x] = x"
| "join_comma (x # y # ys) = x @ CHR '','' # join_comma (y # ys)"

definition whitelist_display :: "address list option \<Rightarrow> string" where
  "whitelist_display w = (case w of None \<Rightarrow> [] | Some addrs \<Rightarrow> join_comma (map address_display addrs))"

definition provider_vars :: "proof_provider_config \<Rightarrow> (string \<times> string) list" where
  "provider_vars c =
       [(''TIMEOUT'', show_word (pc_timeout c)), (''NETWORK_CALLS_TIMEOUT'', show_word (pc_network_calls_timeout c)),
        (''AUCTION_TIMEOUT'', show_word (pc_auction_timeout c)), (''RANGE_PROOF_STRATEGY'', strategy_name (pc_range_proof_strategy c)),
        (''AGG_PROOF_STRATEGY'', strategy_name (pc_agg_proof_strategy c)), (''AGG_PROOF_MODE'', mode_name (pc_agg_proof_mode c)),
        (''RANGE_CYCLE_LIMIT'', show_word (pc_range_cycle_limit c)), (''RANGE_GAS_LIMIT'', show_word (pc_range_gas_limit c)),
        (''AGG_CYCLE_LIMIT'', show_word (pc_agg_cycle_limit c)), (''AGG_GAS_LIMIT'', show_word (pc_agg_gas_limit c)),
        (''MAX_PRICE_PER_PGU'', show_word (pc_max_price_per_pgu c)), (''MIN_AUCTION_PERIOD'', show_word (pc_min_auction_period c)),
        (''WHITELIST'', whitelist_display (pc_whitelist c)), (''PRIVATE_STDIN'', show_bool (pc_private_stdin c))]"

definition proposer_vars :: "proposer_settings \<Rightarrow> (string \<times> string) list" where
  "proposer_vars c =
       [(''L1_RPC'', pf_l1_rpc c), (''L2_RPC'', pf_l2_rpc c),
        (''ANCHOR_STATE_REGISTRY_ADDRESS'', address_display (pf_anchor_state_registry_address c)),
        (''FACTORY_ADDRESS'', address_display (pf_factory_address c)), (''MOCK_MODE'', show_bool (pf_mock_mode c)),
        (''FAST_FINALITY_MODE'', show_bool (pf_fast_finality_mode c)),
        (''PROPOSAL_INTERVAL_IN_BLOCKS'', show_word (pf_proposal_interval_in_blocks c)),
        (''FETCH_INTERVAL'', show_word (pf_fetch_interval c)), (''GAME_TYPE'', show_word (pf_game_type c)),
        (''MAX_CONCURRENT_DEFENSE_TASKS'', show_word (pf_max_concurrent_defense_tasks c)),
        (''SAFE_DB_FALLBACK'', show_bool (pf_safe_db_fallback c)), (''PROPOSER_METRICS_PORT'', show_word (pf_metrics_port c)),
        (''FAST_FINALITY_PROVING_LIMIT'', show_word (pf_fast_finality_proving_limit c)),
        (''USE_KMS_REQUESTER'', show_bool (pf_use_kms_requester c)),
        (''RANGE_SPLIT_COUNT'', show_word (rsc_count (pf_range_split_count c))),
        (''MAX_CONCURRENT_RANGE_PROOFS'', show_word (pf_max_concurrent_range_proofs c)),
        (''SYNC_L1_CONFIRMATIONS'', show_word (pf_sync_l1_confirmations c)),
        (''TX_CONFIRMATION_TIMEOUT'', show_word (pf_tx_confirmation_timeout c))] @
       provider_vars (pf_proof_provider c) @
       (case pf_backup_path c of None \<Rightarrow> [] | Some p \<Rightarrow> [(''BACKUP_PATH'', p)])"

definition validity_vars :: "('key, 'hsm, 'n, 'receipt) environment_config \<Rightarrow> (string \<times> string) list" where
  "validity_vars c =
       [(''DATABASE_URL'', evc_db_url c), (''METRICS_PORT'', show_word (evc_metrics_port c)), (''L1_RPC'', evc_l1_rpc c),
        (''LOOP_INTERVAL'', show_word (evc_loop_interval c)), (''RANGE_PROOF_STRATEGY'', strategy_name (evc_range_proof_strategy c)),
        (''AGG_PROOF_STRATEGY'', strategy_name (evc_agg_proof_strategy c)), (''AGG_PROOF_MODE'', mode_name (evc_agg_proof_mode c)),
        (''L2OO_ADDRESS'', address_display (evc_l2oo_address c)), (''DGF_ADDRESS'', address_display (evc_dgf_address c)),
        (''RANGE_PROOF_EVM_GAS_LIMIT'', show_word (evc_evm_gas_limit c)),
        (''RANGE_PROOF_INTERVAL'', show_word (evc_range_proof_interval c)),
        (''MAX_CONCURRENT_WITNESS_GEN'', show_word (evc_max_concurrent_witness_gen c)),
        (''MAX_CONCURRENT_PROOF_REQUESTS'', show_word (evc_max_concurrent_proof_requests c)),
        (''SUBMISSION_INTERVAL'', show_word (evc_submission_interval c)), (''OP_SUCCINCT_MOCK'', show_bool (evc_mock c)),
        (''SAFE_DB_FALLBACK'', show_bool (evc_safe_db_fallback c)), (''OP_SUCCINCT_CONFIG_NAME'', evc_op_succinct_config_name c),
        (''USE_KMS_REQUESTER'', show_bool (evc_use_kms_requester c)), (''MAX_PRICE_PER_PGU'', show_word (evc_max_price_per_pgu c)),
        (''PROVING_TIMEOUT'', show_word (evc_proving_timeout c)), (''NETWORK_CALLS_TIMEOUT'', show_word (evc_network_calls_timeout c)),
        (''RANGE_CYCLE_LIMIT'', show_word (evc_range_cycle_limit c)), (''RANGE_GAS_LIMIT'', show_word (evc_range_gas_limit c)),
        (''AGG_CYCLE_LIMIT'', show_word (evc_agg_cycle_limit c)), (''AGG_GAS_LIMIT'', show_word (evc_agg_gas_limit c)),
        (''WHITELIST'', whitelist_display (evc_whitelist c)), (''PRIVATE_STDIN'', show_bool (evc_private_stdin c)),
        (''MIN_AUCTION_PERIOD'', show_word (evc_min_auction_period c)), (''AUCTION_TIMEOUT'', show_word (evc_auction_timeout c)),
        (''TX_CONFIRMATION_TIMEOUT'', show_word (evc_tx_confirmation_timeout c))] @
       (case evc_grpc_addr c of None \<Rightarrow> [] | Some a \<Rightarrow> [(''GRPC_ADDRESS'', a)])"

subsection \<open>Each value is read back\<close>

lemma parse_digits_show:
  "(case show_nat n of c # cs \<Rightarrow> if c = CHR ''+'' then cs else show_nat n | [] \<Rightarrow> []) = show_nat n" "show_nat n \<noteq> []"
  "parse_digits 0 (show_nat n) = Some n"
  using show_nat_digits [of n] show_nat_chars [of _ n] by (auto split: list.splits)

lemma parse_uint_show [simp]: "parse_uint (show_word w) = Some w"
  using unsigned_less [where 'a = nat, of w] by (simp add: parse_uint_def show_word_def parse_digits_show Let_def)

lemma parse_u64_uint: "parse_u64 s = (parse_uint s :: u64 option)"
  unfolding parse_u64_def parse_uint_def by (simp add: Let_def split: option.split)

lemma parse_u64_show [simp]: "parse_u64 (show_word w) = Some w" for w :: u64
  by (simp add: parse_u64_uint)

lemma parse_bool_show [simp]: "parse_bool (show_bool b) = Some b"
  by (simp add: parse_bool_def show_bool_def)

lemma parse_nonzero_show [simp]: "n \<noteq> 0 \<Longrightarrow> parse_nonzero (show_word n) = Some n"
  by (simp add: parse_nonzero_def)

lemma unat_ucast_u8_u64: "unat (ucast n :: u64) = unat n" for n :: u8
proof -
  have "unat n < 2 ^ 64" using unsigned_less [where 'a = nat, of n] by simp
  then show ?thesis by (simp add: unsigned_ucast_eq take_bit_nat_eq_self)
qed

lemma show_word_ucast: "show_word (ucast n :: u64) = show_word n" for n :: u8
  by (simp only: show_word_def unat_ucast_u8_u64)

lemma ucast_ucast_u64: "(ucast (ucast n :: u64) :: u8) = n"
proof -
  have "(ucast (ucast n :: u64) :: u8) = of_nat (unat (ucast n :: u64))" by (simp only: of_nat_unat)
  also have "\<dots> = of_nat (unat n)" by (simp only: unat_ucast_u8_u64)
  finally show ?thesis by simp
qed

lemma range_split_count_from_str_show [simp]:
  assumes "1 \<le> rsc_count c" "rsc_count c \<le> 16"
  shows "range_split_count_from_str (show_word (rsc_count c)) = Inr c"
proof -
  have "parse_u64 (show_word (rsc_count c)) = Some (ucast (rsc_count c))"
    using parse_u64_show [of "ucast (rsc_count c)"] by (simp only: show_word_ucast)
  moreover have "(ucast (rsc_count c) :: u64) < 256" "(ucast (ucast (rsc_count c) :: u64) :: u8) = rsc_count c"
    using unsigned_less [where 'a = nat, of "rsc_count c"] by (simp_all only: word_less_nat_alt unat_ucast_u8_u64 ucast_ucast_u64) simp
  ultimately show ?thesis using assms
    by (auto simp: range_split_count_from_str_def parsed_def ok_or_def range_split_count_try_from_def range_split_count_new_def RangeSplitCount_MAX_def)
qed

lemma lowercase_names:
  "to_ascii_lowercase ''hosted'' = ''hosted''" "to_ascii_lowercase ''reserved'' = ''reserved''" "to_ascii_lowercase ''auction'' = ''auction''"
  "to_ascii_lowercase ''plonk'' = ''plonk''" "to_ascii_lowercase ''groth16'' = ''groth16''" "to_ascii_lowercase ''compressed'' = ''compressed''"
  by code_simp+

lemma strategy_name_parse [simp]: "s \<noteq> UnspecifiedFulfillmentStrategy \<Longrightarrow> parse_fulfillment_strategy (strategy_name s) = Inr s"
  by (cases s) (simp_all add: parse_fulfillment_strategy_def lowercase_names)

lemma mode_name_of [simp]: "m \<in> {ModePlonk, ModeGroth16} \<Longrightarrow> agg_proof_mode_of (mode_name m) = m"
  by (auto simp: agg_proof_mode_of_def lowercase_names)

lemma mode_name_parse [simp]:
  "m \<noteq> ModeCore \<Longrightarrow> (m = ModeCompressed \<longrightarrow> agglayer) \<Longrightarrow> parse_agg_proof_mode (mode_name m) agglayer = Inr m"
  by (cases m) (simp_all add: parse_agg_proof_mode_def lowercase_names)

lemma split_comma_append: "CHR '','' \<notin> set x \<Longrightarrow> split_comma (x @ CHR '','' # s) = x # split_comma s"
  by (induction x) auto

lemma split_comma_single: "CHR '','' \<notin> set x \<Longrightarrow> split_comma x = [x]"
  by (induction x) auto

lemma split_join_comma: "xs \<noteq> [] \<Longrightarrow> \<forall>x \<in> set xs. CHR '','' \<notin> set x \<Longrightarrow> split_comma (join_comma xs) = xs"
  by (induction xs rule: join_comma.induct) (auto simp: split_comma_append split_comma_single)

lemma hex_digit_code: "(of_char (hex_digit n) :: nat) = (if n mod 16 < 10 then 48 + n mod 16 else 87 + n mod 16)"
proof -
  have "list_all (\<lambda>m. (of_char (''0123456789abcdef'' ! m) :: nat) = (if m < 10 then 48 + m else 87 + m)) [0..<16]" by code_simp
  moreover have "n mod 16 \<in> set [0..<16]" by simp
  ultimately show ?thesis unfolding hex_digit_def list_all_iff by blast
qed

lemma hex_fixed_codes: "c \<in> set (hex_fixed k n) \<Longrightarrow> 48 \<le> (of_char c :: nat) \<and> (of_char c :: nat) < 58 \<or> 97 \<le> (of_char c :: nat) \<and> (of_char c :: nat) < 103"
proof (induction k arbitrary: n)
  case (Suc k)
  have "n mod 16 < 16" by simp
  with Suc show ?case by (auto simp: hex_digit_code split: if_splits)
qed simp

lemma hex_fixed_plain: "c \<in> set (hex_fixed k n) \<Longrightarrow> c \<noteq> CHR '','' \<and> c \<noteq> CHR ''x'' \<and> \<not> is_whitespace c"
  using hex_fixed_codes [of c k n] by (auto simp: is_whitespace_def Let_def)

lemma address_display_plain: "c \<in> set (address_display a) \<Longrightarrow> c \<noteq> CHR '','' \<and> \<not> is_whitespace c"
  using hex_fixed_plain [of c 40 "unat a"] by (auto simp: address_display_def is_whitespace_def Let_def)

lemma dropWhile_none: "\<forall>c \<in> set s. \<not> P c \<Longrightarrow> dropWhile P s = s"
  by (cases s) auto

lemma trim_id: "\<forall>c \<in> set s. \<not> is_whitespace c \<Longrightarrow> trim s = s"
  by (simp add: trim_def dropWhile_none)

lemma trim_start_0x_id: "CHR ''x'' \<notin> set s \<Longrightarrow> trim_start_0x s = s"
  by (cases s rule: trim_start_0x.cases) auto

lemma trim_start_address: "''0x'' @ trim_start_0x (trim (address_display a)) = address_display a"
proof -
  have "trim (address_display a) = address_display a" using address_display_plain by (intro trim_id) blast
  moreover have "trim_start_0x (hex_fixed 40 (unat a)) = hex_fixed 40 (unat a)"
    using hex_fixed_plain [of "CHR ''x''" 40 "unat a"] by (intro trim_start_0x_id) blast
  ultimately show ?thesis by (simp add: address_display_def)
qed

lemma with_context_Inr': "with_context m (Inr x) = Inr x"
  by (simp add: with_context_def)

lemma parse_whitelist_display [simp]:
  assumes "\<forall>a. p (address_display a) = Inr a" "w \<noteq> Some []"
  shows "parse_whitelist p (whitelist_display w) = Inr w"
proof (cases w)
  case (Some addrs)
  with assms(2) obtain x xs where addrs: "addrs = x # xs" by (cases addrs) auto
  have ne: "join_comma (map address_display addrs) \<noteq> []"
    unfolding addrs by (cases xs) (simp_all add: address_display_def)
  have split: "split_comma (join_comma (map address_display addrs)) = map address_display addrs"
    using address_display_plain addrs by (intro split_join_comma) auto
  have "try_map (\<lambda>addr_str. with_context ''Failed to parse address'' (p (''0x'' @ trim_start_0x (trim addr_str)))) (map address_display as) = Inr as" for as
    by (induction as) (simp_all only: list.map try_map.simps trim_start_address assms(1) with_context_Inr' try_bind_Inr)
  with ne split addrs show ?thesis by (simp add: parse_whitelist_def whitelist_display_def Some del: map_map list.map)
qed (simp add: parse_whitelist_def whitelist_display_def)

section \<open>Round trips\<close>

lemma ok_Inr [simp]: "ok (Inr x) = Some x"
  by (simp add: ok_def)

lemma expecting_Some [simp]: "expecting m (Some x) = Inr x"
  by (simp add: expecting_def)

lemma parsed_Some [simp]: "parsed (Some x) = Inr x"
  by (simp add: parsed_def ok_or_def)

lemmas read_defs = var_def var_or_def env_url_def env_address_def get_env_var_def parse_grpc_addr_def ok_or_def

definition addresses_parse :: "('key, 'hsm) signer_env \<Rightarrow> bool" where
  "addresses_parse env \<longleftrightarrow> (\<forall>a. address_from_str env (address_display a) = Inr a)"

lemma proposer_roundtrip:
  assumes "settings_ok c" "addresses_parse env" "url_parse env (pf_l1_rpc c) = Inr (pf_l1_rpc c)" "url_parse env (pf_l2_rpc c) = Inr (pf_l2_rpc c)"
  shows "proposer_config_from_env env (map_of (proposer_vars c)) = Inr c"
proof -
  have "proof_provider_config_from_env env (map_of (proposer_vars c)) = Inr (pf_proof_provider c)"
    using assms(1,2) by (simp add: proof_provider_config_from_env_def proposer_vars_def provider_vars_def read_defs
      settings_ok_def provider_config_ok_def addresses_parse_def)
  moreover have "map_of (proposer_vars c) ''BACKUP_PATH'' = pf_backup_path c"
    by (simp add: proposer_vars_def provider_vars_def split: option.split)
  ultimately show ?thesis using assms
    by (simp add: proposer_config_from_env_def read_defs settings_ok_def addresses_parse_def) (simp add: proposer_vars_def)
qed

definition environment_ok :: "('key, 'hsm) signer_env \<Rightarrow> (string \<Rightarrow> string option) \<Rightarrow> bool \<Rightarrow> ('key, 'hsm, 'n, 'receipt) environment_config \<Rightarrow> bool" where
  "environment_ok env socket_addr agglayer c \<longleftrightarrow>
     evc_range_proof_strategy c \<noteq> UnspecifiedFulfillmentStrategy \<and> evc_agg_proof_strategy c \<noteq> UnspecifiedFulfillmentStrategy \<and>
     evc_agg_proof_mode c \<noteq> ModeCore \<and> (evc_agg_proof_mode c = ModeCompressed \<longrightarrow> agglayer) \<and> evc_whitelist c \<noteq> Some [] \<and>
     (if agglayer then \<exists>a. evc_grpc_addr c = Some a \<and> socket_addr a = Some a else evc_grpc_addr c = None) \<and>
     url_parse env (evc_l1_rpc c) = Inr (evc_l1_rpc c)"

text \<open>The signer is read from variables of its own.\<close>

lemma signer_lock_from_env_vars: "signer_lock_from_env env (vars ++ map_of (validity_vars c)) n = signer_lock_from_env env vars n"
proof -
  have none: "map_of (validity_vars c) ''GOOGLE_PROJECT_ID'' = None" "map_of (validity_vars c) ''GOOGLE_LOCATION'' = None" "map_of (validity_vars c) ''GOOGLE_KEYRING'' = None"
    "map_of (validity_vars c) ''HSM_KEY_NAME'' = None" "map_of (validity_vars c) ''HSM_KEY_VERSION'' = None" "map_of (validity_vars c) ''SIGNER_URL'' = None"
    "map_of (validity_vars c) ''SIGNER_ADDRESS'' = None" "map_of (validity_vars c) ''PRIVATE_KEY'' = None"
    by (simp_all add: validity_vars_def split: option.split)
  show ?thesis unfolding signer_lock_from_env_def signer_from_env_def map_add_def none option.case by (rule refl)
qed

lemma validity_roundtrip:
  assumes "environment_ok env socket_addr agglayer c" "addresses_parse env" "signer_lock_from_env env vars n = Inr (evc_signer c)"
  shows "read_proposer_env env socket_addr agglayer n (vars ++ map_of (validity_vars c)) = Inr c"
proof -
  have "(vars ++ map_of (validity_vars c)) ''GRPC_ADDRESS'' = evc_grpc_addr c" if agglayer
    using that assms(1) by (auto simp: validity_vars_def environment_ok_def)
  moreover have "signer_lock_from_env env (vars ++ map_of (validity_vars c)) n = Inr (evc_signer c)"
    using assms(3) by (simp only: signer_lock_from_env_vars)
  ultimately show ?thesis using assms(1,2)
    by (simp add: read_proposer_env_def read_defs addresses_parse_def environment_ok_def) (auto simp: validity_vars_def)
qed

section \<open>Properties\<close>

text \<open>C39: A configured proposer is well formed. Whatever the environment holds, when the configuration is accepted and the proposer gets a
  proof provider: the range split count is between 1 and 16, so that every non-empty range of blocks is split into at most 16 pieces that
  follow on each other; at least one range proof may run; strategies are specified, the proof mode is one that can be verified on
  chain and a whitelist is not empty; the provider has this configuration and is of the kind that mock and cluster mode ask for; the
  network is the auction market exactly if both strategies are auctions and never with mixed strategies; and private inputs only ever
  go to the prover network.\<close>

theorem configured_proposer_typed:
  assumes "proposer_config_from_env env vars = Inr c" "proposer_prover ne vars c = Inr prover"
  shows "settings_ok c \<and> provider_fits (pf_proof_provider c) (pf_mock_mode c) (is_cluster_mode vars) prover \<and>
    (\<forall>s e. s < e \<longrightarrow> (\<exists>rs. range_split (pf_range_split_count c) s e = Inr rs \<and> chained s e rs \<and> rs \<noteq> [] \<and> length rs \<le> 16))"
proof (intro conjI allI impI)
  show ok: "settings_ok c" by (rule proposer_config_from_env_ok [OF assms(1)])
  show "provider_fits (pf_proof_provider c) (pf_mock_mode c) (is_cluster_mode vars) prover"
    by (rule proposer_prover_fits [OF assms(2)])
  fix s e :: u64
  assume "s < e"
  from ok have n: "rsc_count (pf_range_split_count c) \<noteq> 0" "unat (rsc_count (pf_range_split_count c)) \<le> 16"
    by (auto simp: settings_ok_def word_le_nat_alt)
  from range_split_Inr [OF n(1) \<open>s < e\<close>] n(2)
  show "\<exists>rs. range_split (pf_range_split_count c) s e = Inr rs \<and> chained s e rs \<and> rs \<noteq> [] \<and> length rs \<le> 16"
    by (meson le_trans)
qed

text \<open>C40: Every well-formed configuration can be written down. When the documented variables hold the values of a configuration of the
  fault-proof proposer, or of the validity proposer beside the variables of its signer, reading the environment gives exactly this
  configuration, in every field. Of the other crates this uses that the notation of an address and of the configuration's URLs parses.\<close>

theorem config_roundtrip:
  assumes "addresses_parse env"
  shows "(settings_ok c \<and> url_parse env (pf_l1_rpc c) = Inr (pf_l1_rpc c) \<and> url_parse env (pf_l2_rpc c) = Inr (pf_l2_rpc c) \<longrightarrow>
      proposer_config_from_env env (map_of (proposer_vars c)) = Inr c) \<and>
    (environment_ok env socket_addr agglayer v \<and> signer_lock_from_env env vars n = Inr (evc_signer v) \<longrightarrow>
      read_proposer_env env socket_addr agglayer n (vars ++ map_of (validity_vars v)) = Inr v)"
  using proposer_roundtrip [OF _ assms, of c] validity_roundtrip [OF _ assms, of socket_addr agglayer v vars n] by simp

section \<open>A sample configuration\<close>

text \<open>A parser for addresses that reads their notation back.\<close>

definition hex_value :: "char \<Rightarrow> nat option" where
  "hex_value c = (let n = of_char c :: nat in if 48 \<le> n \<and> n < 58 then Some (n - 48) else if 97 \<le> n \<and> n < 103 then Some (n - 87) else None)"

fun parse_hex :: "nat \<Rightarrow> string \<Rightarrow> nat option" where
  "parse_hex acc [] = Some acc"
| "parse_hex acc (c # cs) = (case hex_value c of None \<Rightarrow> None | Some d \<Rightarrow> parse_hex (acc * 16 + d) cs)"

lemma hex_value_digit: "hex_value (hex_digit n) = Some (n mod 16)"
proof -
  have "n mod 16 < 16" by simp
  then show ?thesis by (auto simp: hex_value_def hex_digit_code Let_def)
qed

lemma parse_hex_append: "parse_hex acc (xs @ ys) = (case parse_hex acc xs of None \<Rightarrow> None | Some m \<Rightarrow> parse_hex m ys)"
  by (induction acc xs rule: parse_hex.induct) (auto split: option.split)

lemma parse_hex_fixed: "n < 16 ^ k \<Longrightarrow> parse_hex 0 (hex_fixed k n) = Some n"
proof (induction k arbitrary: n)
  case (Suc k)
  then have "n div 16 < 16 ^ k" by (simp add: less_mult_imp_div_less mult.commute)
  from Suc.IH [OF this] show ?case by (simp add: parse_hex_append hex_value_digit)
qed simp

definition sample_config_env :: "(unit, unit) signer_env" where
  "sample_config_env =
     \<lparr> key_address = (\<lambda>_. 7), hsm_address = (\<lambda>_. 8), private_key_from_str = (\<lambda>_. Inr ()), url_parse = Inr,
       address_from_str = (\<lambda>s. case parse_hex 0 (drop 2 s) of None \<Rightarrow> Inl (Err ''address'') | Some n \<Rightarrow> Inr (of_nat n)),
       gcp_signer_new = (\<lambda>_ _ _ _ _. Inr ()) \<rparr>"

lemma sample_addresses: "addresses_parse sample_config_env"
proof -
  have "parse_hex 0 (hex_fixed 40 (unat a)) = Some (unat a)" for a :: address
    using unsigned_less [where 'a = nat, of a] by (intro parse_hex_fixed) simp
  then show ?thesis by (simp add: addresses_parse_def sample_config_env_def address_display_def)
qed

definition sample_settings :: proposer_settings where
  "sample_settings =
     \<lparr> pf_l1_rpc = ''http://l1'', pf_l2_rpc = ''http://l2'', pf_anchor_state_registry_address = 1, pf_factory_address = 2, pf_mock_mode = False,
       pf_fast_finality_mode = True, pf_proposal_interval_in_blocks = 1800, pf_fetch_interval = 30, pf_game_type = 42,
       pf_max_concurrent_defense_tasks = 8, pf_safe_db_fallback = False, pf_metrics_port = 9000, pf_fast_finality_proving_limit = 1,
       pf_use_kms_requester = False, pf_range_split_count = \<lparr> rsc_count = 4 \<rparr>, pf_max_concurrent_range_proofs = 2,
       pf_proof_provider =
         \<lparr> pc_timeout = 14400, pc_network_calls_timeout = 15, pc_auction_timeout = 60, pc_range_proof_strategy = Auction,
           pc_agg_proof_strategy = Auction, pc_agg_proof_mode = ModeGroth16, pc_range_cycle_limit = 10, pc_range_gas_limit = 20,
           pc_agg_cycle_limit = 30, pc_agg_gas_limit = 40, pc_max_price_per_pgu = 300000000, pc_min_auction_period = 1,
           pc_whitelist = Some [3, 4], pc_private_stdin = True \<rparr>,
       pf_backup_path = Some ''backup.json'', pf_sync_l1_confirmations = 2, pf_tx_confirmation_timeout = 60 \<rparr>"

definition sample_signer_vars :: env_vars where
  "sample_signer_vars = [''PRIVATE_KEY'' \<mapsto> ''0x01'']"

definition sample_environment :: "(unit, unit, unit, unit) environment_config" where
  "sample_environment =
     \<lparr> evc_db_url = ''postgres://db'', evc_metrics_port = 8080, evc_l1_rpc = ''http://l1'',
       evc_signer = signer_lock_new sample_config_env (LocalSigner ()) (), evc_loop_interval = 60, evc_range_proof_strategy = Hosted,
       evc_agg_proof_strategy = Reserved, evc_agg_proof_mode = ModeCompressed, evc_l2oo_address = 5, evc_dgf_address = 0, evc_evm_gas_limit = 0,
       evc_range_proof_interval = 1800, evc_max_concurrent_witness_gen = 1, evc_max_concurrent_proof_requests = 1,
       evc_submission_interval = 1800, evc_mock = False, evc_safe_db_fallback = False, evc_op_succinct_config_name = ''opsuccinct_genesis'',
       evc_grpc_addr = Some ''[::1]:50051'', evc_use_kms_requester = False, evc_max_price_per_pgu = 300000000, evc_proving_timeout = 14400,
       evc_network_calls_timeout = 15, evc_range_cycle_limit = 10, evc_range_gas_limit = 20, evc_agg_cycle_limit = 30,
       evc_agg_gas_limit = 40, evc_whitelist = None, evc_private_stdin = False, evc_min_auction_period = 1, evc_auction_timeout = 60,
       evc_tx_confirmation_timeout = 60 \<rparr>"

definition sample_network_env :: "(unit, unit) network_env" where
  "sample_network_env =
     \<lparr> ne_aws_kms = (\<lambda>_. Inr ()), ne_local = (\<lambda>_. Inr ()), ne_read = (\<lambda>_. Inr [1]), ne_build = (\<lambda>_ _ _. ()), ne_get_balance = (\<lambda>_ _. Answered (Inr ())),
       ne_setup = (\<lambda>_ elf. Inr (if elf = RANGE_ELF then [1] else [2])), ne_cluster_setup_keys = Inr \<lparr> pk_range_vk = [], pk_agg_vk = [] \<rparr> \<rparr>"

lemma sample_settings_ok: "settings_ok sample_settings"
  by (simp add: settings_ok_def provider_config_ok_def sample_settings_def)

lemma sample_settings_read: "proposer_config_from_env sample_config_env (map_of (proposer_vars sample_settings)) = Inr sample_settings"
  by (rule proposer_roundtrip [OF sample_settings_ok sample_addresses]) (simp_all add: sample_config_env_def)

theorem configured_proposer_typed_witness:
  "provider_fits (pf_proof_provider sample_settings) False False
     (NetworkProvider \<lparr> pk_range_vk = [1], pk_agg_vk = [2] \<rparr> (pf_proof_provider sample_settings) True)"
proof -
  define vars where "vars = map_of (proposer_vars sample_settings)"
  have vars: "is_cluster_mode vars = False" "vars ''NETWORK_MTLS_CERT_PATH'' = None" "vars ''NETWORK_MTLS_KEY_PATH'' = None"
    by (simp_all add: vars_def is_cluster_mode_def var_or_def proposer_vars_def provider_vars_def sample_settings_def)
  have "proposer_prover sample_network_env vars sample_settings =
    Inr (NetworkProvider \<lparr> pk_range_vk = [1], pk_agg_vk = [2] \<rparr> (pf_proof_provider sample_settings) True)"
    by (simp add: proposer_prover_def vars sample_settings_def sample_network_env_def ensure_def get_network_signer_def determine_network_mode_def
      build_network_prover_def load_network_client_identity_def load_network_client_identity_from_paths_def ok_or_def)
  moreover have "pf_mock_mode sample_settings = False" by (simp add: sample_settings_def)
  ultimately show ?thesis
    using configured_proposer_typed [OF sample_settings_read [folded vars_def]] vars(1) by metis
qed

theorem config_roundtrip_witness:
  "proposer_config_from_env sample_config_env (map_of (proposer_vars sample_settings)) = Inr sample_settings \<and>
   read_proposer_env sample_config_env Some True () (sample_signer_vars ++ map_of (validity_vars sample_environment)) = Inr sample_environment"
proof -
  have "settings_ok sample_settings \<and> url_parse sample_config_env (pf_l1_rpc sample_settings) = Inr (pf_l1_rpc sample_settings) \<and>
    url_parse sample_config_env (pf_l2_rpc sample_settings) = Inr (pf_l2_rpc sample_settings)"
    using sample_settings_ok by (simp add: sample_config_env_def)
  moreover have "environment_ok sample_config_env Some True sample_environment"
    by (simp add: environment_ok_def sample_environment_def sample_config_env_def)
  moreover have "signer_lock_from_env sample_config_env sample_signer_vars () = Inr (evc_signer sample_environment)"
    by (simp add: signer_lock_from_env_def signer_from_env_def sample_signer_vars_def new_local_signer_def with_context_def
      sample_environment_def sample_config_env_def)
  ultimately show ?thesis
    using config_roundtrip [OF sample_addresses, of sample_settings Some True sample_environment sample_signer_vars "()"] by blast
qed

end
