(* ===== verification/Spec2Isabelle.thy ===== *)
theory Spec2Isabelle
  imports Startup Challenger ValidityCorrect GameMonitor Proving Fetcher AltDA Signer CostEstimator Config
begin

text \<open>
  A verification development of OP Succinct: the services that propose, prove, challenge and resolve claims about an
  OP Stack rollup with zero-knowledge proofs. All paths are under \<open>src/\<close>.

  \<^bold>\<open>The program.\<close> A fault-proof deployment has a \<^emph>\<open>proposer\<close> (\<open>fault-proof/src/proposer.rs\<close>), which watches the dispute games of an
  L1 factory contract, creates new games, proves challenged ones, resolves and closes games and claims bonds, and a \<^emph>\<open>challenger\<close>
  (\<open>fault-proof/src/challenger.rs\<close>), which challenges games its validators refute. A validity deployment has one proposer
  (\<open>validity/src/proposer.rs\<close>) that keeps proof requests in a database (\<open>validity/src/db\<close>), has ranges of blocks proven and
  aggregated, and relays aggregations to a contract. Both use the data fetcher and hosts (\<open>utils/host\<close>, \<open>utils/*/host\<close>) to build the
  witnesses of two programs that run inside the zero-knowledge machine (\<open>programs/*\<close>, \<open>utils/client\<close>): the range program derives
  a range of L2 blocks, the aggregation program checks that range proofs follow on each other. The game monitor
  (\<open>scripts/utils/bin/game_monitor.rs\<close>) is a daemon that runs a cost estimator (\<open>scripts/utils/bin/cost_estimator.rs\<close>) for every game.
  With an alternative data availability layer the batches of the rollup are not on L1 but on a DA server; a data source
  (\<open>utils/altda/client\<close>) reads their commitments from L1 and the batches through the preimage oracle. All transactions go through a
  signer (\<open>utils/signer\<close>).

  \<^bold>\<open>The theories.\<close>
  \<^item> \<open>Prelude\<close>: machine integers (words of the source's width), results with errors and panics as values, handlers (functions from a
    state to a result and a state, with the combinators \<open>seq\<close>, \<open>attempt\<close>, \<open>for_each\<close>), durations, and the locale
    \<open>step_system\<close> for invariants of reachable states. \<open>HashMaps\<close>: hash maps as association lists with distinct keys, behind a
    locale with the laws of lookup, insertion and removal. \<open>Strings\<close>: string functions and the round trip of decimal numbers.
  \<^item> \<open>Contract\<close> (\<open>fault-proof/src/contract.rs\<close>, \<open>lib.rs\<close>): the contracts as a view at one L1 block, output roots, helpers.
  \<^item> \<open>Games\<close>: the proposer's cache of games (\<open>ProposerState\<close>): ancestry, removal of subtrees, the canonical head.
  \<^item> \<open>L1Chain\<close>: walking L1 headers, choosing the confirmed block, pruning removal records. \<open>SyncGames\<close>: one pass of
    \<open>sync_games\<close> (loading, decisions, commit). \<open>SyncState\<close>: \<open>sync_state\<close> with rollback, reload and the creation guard.
  \<^item> \<open>ProposerTasks\<close>: the task table, every task the loop spawns, one turn of \<open>run\<close>, and the system of all interleavings of
    turns and tasks as a step relation. \<open>Startup\<close>: startup validation, the startup loop, backup and restore (\<open>backup.rs\<close>).
  \<^item> \<open>Validator\<close> (\<open>game_validator.rs\<close>, \<open>op_stack_game_validator.rs\<close>) and \<open>Challenger\<close>: verdicts on games and the challenger's
    cache, discovery, actions, startup and loop.
  \<^item> \<open>Proving\<close> (\<open>prover.rs\<close>, \<open>prove_game\<close>, \<open>utils/proof/src/lib.rs\<close>): proof providers, the loop that waits for the prover network,
    concurrent range proofs and the submission of the aggregation.
  \<^item> \<open>Ranges\<close> (\<open>fault-proof/src/config.rs\<close>, \<open>validity/src/utils.rs\<close>, \<open>utils/host/src/block_range.rs\<close>): all ways of splitting block
    ranges, behind the locale \<open>range_splitter\<close>.
  \<^item> \<open>Programs\<close>: the aggregation and the range program, preimage and blob stores, and the host's preparation of their inputs.
  \<^item> \<open>Fetcher\<close>: the selected L1 block, binary searches over the L1 chain and the safe-head database, host arguments.
  \<^item> \<open>Requests\<close> (\<open>validity/src/db\<close>): the request table, one definition per SQL statement, and the step relation \<open>db_step\<close>.
    \<open>ProofRequester\<close>: witness generation, dispatch, retries and splits. \<open>Validity\<close>: the validity proposer's handlers, start
    and loop; \<open>ValidityCorrect\<close>: what they guarantee.
  \<^item> \<open>GameMonitor\<close>: the daemon with its sequence tracker and persistence.
  \<^item> \<open>AltDA\<close> (\<open>utils/altda\<close>, \<open>preimage_witness_collector.rs\<close>): the data source as a machine of calls to \<open>next\<close> and \<open>clear\<close>, the preimage oracle
    inside the zero-knowledge machine and the recording one of the host behind the locale \<open>recorded_oracle\<close>, and the host's handler of hints.
  \<^item> \<open>Signer\<close> (\<open>utils/signer/src/lib.rs\<close>): choice of the signer, sending, and the lock with all interleavings of its callers.
  \<^item> \<open>Precompiles\<close> (\<open>utils/client/src/precompiles\<close>): the tracked precompiles and the KZG check. \<open>CostEstimator\<close>: the estimator, the
    statistics (\<open>utils/host/src/stats.rs\<close>, \<open>validity/src/types.rs\<close>), the check of an execution (\<open>utils/proof/src/execution.rs\<close>) and the report that
    its threads share.
  \<^item> \<open>Config\<close> (\<open>fault-proof/src/config.rs\<close>, \<open>validity/src/env.rs\<close>, \<open>utils/host/src/network.rs\<close>): the configurations read from the environment, the
    connection to the prover network, and the proof provider of a new proposer.

  \<^bold>\<open>State and operations.\<close> A struct is a record, an enum a datatype, with the source's names (suffixed where HOL has the name).
  A method on a mutable struct is a handler on the record; an early return or \<open>?\<close> is the error branch of \<open>seq\<close>, a panic is the error
  \<open>Panic\<close>, which \<open>attempt\<close> does not catch and which ends a spawned task only. Code outside the repository's Rust sources (RPC
  nodes, contracts, the SP1 SDK, the SQL engine's clock, the file system, f64 arithmetic) is an argument: a view record per phase,
  whose fields answer the calls the code makes. Where two calls of one handler may see different L1 states, they read different
  views. Spawned tasks are steps of their own that may run between any two turns of the loop, each turn and each task body in one
  piece. For the request table of the validity proposer there is also the finer relation \<open>db_step\<close>, whose steps are single statements of any
  client in any order. Rows whose SQL order is unspecified come in table order. Unsigned
  arithmetic wraps as in a release build unless the code checks it; SQL's i64 columns are integers with the wrap of \<open>as\<close> written
  out. Loops over data are structural; a loop that may not end is a \<open>partial_function (option)\<close>, where \<open>None\<close> is
  divergence, and the theorems prove that it returns (\<open>wait_for_proof_returns\<close>, \<open>get_ranges_to_prove_by_blocks_correct\<close>,
  \<open>calculate_safe_l1_head_derives\<close>). No fuel is used.

  \<^bold>\<open>What the lemmas show.\<close>
  \<^item> Proposer: a successful synchronization mirrors the chain, loses no game, flags exactly what can be acted on, and a failed one is
    recognizable; the cache stays well formed under every interleaving; no two tasks of one kind, no duplicate proposal and no
    duplicate defense; between resets of its counter a bounded number of close transactions for a game over whole runs; a backup restores the state.
  \<^item> Proving: a wait for a proof ends and returns exactly what the network delivered; the scheduling of range proofs does not
    matter; and, composed with \<open>Ranges\<close>, \<open>Fetcher\<close>'s headers and \<open>Programs\<close>, what is proven for a game is an input the aggregation program
    accepts with the game's claim.
  \<^item> Programs: the aggregation program accepts exactly the inputs of a declarative condition; a range program that commits has
    checked its witness. Fetcher: the L1 head derives the last block; the hosts' roots are those the validators compute.
  \<^item> Challenger: with the OP Stack validator it challenges only what answers of the nodes refute; discovery is complete; flags are justified.
  \<^item> Validity: every sequence of database steps, and so every run of the proposer's turns and tasks, keeps the invariant of the table (unique ids,
    well-formed rows, capacity); invalidation is final; new ranges tile what is provable without overlap; aggregations
    are created and relayed only over valid completed ranges.
  \<^item> Game monitor: every game after the first of a run is accounted for; a restart never comes back to the first one.

  \<^item> AltDA: what the source delivers refines an abstract reading of the L1 transactions, whatever is retried; the program repeats the
    host's run on the recorded preimages; a batch the DA server has reaches the pipeline. Signer: accepted transactions never
    share a nonce. Precompiles: tracking changes no result. Cost estimator: an estimate covers exactly the requested range, whatever
    the order in which the threads write; two threads can both write the header of the report.
  \<^item> Config: an accepted configuration is within its bounds and gives the provider it asks for; every well-formed one can be written
    down and is read back exactly.

  \<^bold>\<open>Not modelled.\<close> Metrics, logging and the printing of tables: no decision reads them. Command line parsing. The gRPC
  transport of the external aggregation interface, whose handling is modelled. The assembly of derivation pipelines and EigenDA's
  witness from types of other crates. The remaining single-run tools. Generated bindings, the Solidity contracts and the embedded programs,
  whose behaviour is the view the models read.
\<close>

end
